(* ===== verification/Prelude.thy ===== *)
theory Prelude
  imports Main "HOL-Library.List_Lexorder" "HOL-Library.Char_ord"
    "HOL-Library.Multiset"
begin

text \<open>
  Shared vocabulary of the development: the types that name identifiers and
  instants, the three statement shapes the services issue against a table
  (SELECT of at most one row, conditional UPDATE, conditional DELETE) as functions
  on row lists, uniqueness constraints, and the generic lemmas the component
  theories rest on.  Identifiers are compared as Python and SQLite compare them,
  lexicographically by character, through the list order of the library.
\<close>

named_theorems row_simps \<open>rewriting of table statements\<close>
named_theorems unique_intros \<open>preservation of uniqueness constraints\<close>

section \<open>Names of types\<close>

text \<open>An identifier column (a ULID) and an instant, in microseconds since the epoch.\<close>

type_synonym ident = string
type_synonym instant = int

section \<open>Table statements\<close>

definition upd_where :: "('r \<Rightarrow> bool) \<Rightarrow> ('r \<Rightarrow> 'r) \<Rightarrow> 'r list \<Rightarrow> 'r list" where
  "upd_where P f rows = map (\<lambda>r. if P r then f r else r) rows"

definition del_where :: "('r \<Rightarrow> bool) \<Rightarrow> 'r list \<Rightarrow> 'r list" where
  "del_where P rows = filter (\<lambda>r. \<not> P r) rows"

definition rowcount :: "('r \<Rightarrow> bool) \<Rightarrow> 'r list \<Rightarrow> nat" where
  "rowcount P rows = length (filter P rows)"

text \<open>A UNIQUE constraint on a NOT NULL key, and one on a nullable key (SQL treats
  NULLs as distinct).\<close>

definition unique_on :: "('r \<Rightarrow> 'k) \<Rightarrow> 'r list \<Rightarrow> bool" where
  "unique_on k rows \<longleftrightarrow> distinct (map k rows)"

definition unique_opt :: "('r \<Rightarrow> 'k option) \<Rightarrow> 'r list \<Rightarrow> bool" where
  "unique_opt k rows \<longleftrightarrow> distinct (List.map_filter k rows)"

subsection \<open>Rewriting\<close>

lemma set_del_where [simp]: "r \<in> set (del_where P rows) \<longleftrightarrow> r \<in> set rows \<and> \<not> P r"
  by (auto simp: del_where_def)

lemma set_upd_where: "set (upd_where P f rows) = (\<lambda>r. if P r then f r else r) ` set rows"
  by (simp add: upd_where_def)

lemma upd_where_Nil [simp]: "upd_where P f [] = []"
  and upd_where_Cons [simp]:
    "upd_where P f (r # rows) = (if P r then f r else r) # upd_where P f rows"
  and upd_where_append [simp]: "upd_where P f (xs @ ys) = upd_where P f xs @ upd_where P f ys"
  by (simp_all add: upd_where_def)

lemma del_where_Nil [simp]: "del_where P [] = []"
  and del_where_Cons [simp]:
    "del_where P (r # rows) = (if P r then del_where P rows else r # del_where P rows)"
  and del_where_append [simp]: "del_where P (xs @ ys) = del_where P xs @ del_where P ys"
  by (simp_all add: del_where_def)

lemma length_upd_where [simp]: "length (upd_where P f rows) = length rows"
  by (simp add: upd_where_def)

lemma map_upd_where:
  assumes "\<And>r. k (f r) = k r"
  shows "map k (upd_where P f rows) = map k rows"
  using assms by (simp add: upd_where_def)

lemma upd_where_none [row_simps]: "\<forall>r \<in> set rows. \<not> P r \<Longrightarrow> upd_where P f rows = rows"
  by (simp add: upd_where_def map_idI)

lemma del_where_none [row_simps]: "\<forall>r \<in> set rows. \<not> P r \<Longrightarrow> del_where P rows = rows"
  by (simp add: del_where_def filter_id_conv)

lemma rowcount_eq_0_iff [simp]: "rowcount P rows = 0 \<longleftrightarrow> (\<forall>r \<in> set rows. \<not> P r)"
  by (auto simp: rowcount_def filter_empty_conv)

lemma rowcount_pos_iff [row_simps]: "0 < rowcount P rows \<longleftrightarrow> (\<exists>r \<in> set rows. P r)"
  by (metis neq0_conv rowcount_eq_0_iff)

lemma rowcount_append [simp]: "rowcount P (xs @ ys) = rowcount P xs + rowcount P ys"
  by (simp add: rowcount_def)

lemma rowcount_Nil [simp]: "rowcount P [] = 0"
  and rowcount_Cons [simp]: "rowcount P (r # rows) = (if P r then Suc 0 else 0) + rowcount P rows"
  by (simp_all add: rowcount_def)

lemma rowcount_del_where [simp]:
  "rowcount Q (del_where P rows) = rowcount (\<lambda>r. Q r \<and> \<not> P r) rows"
  by (induction rows) auto

lemma rowcount_upd_where:
  "(\<And>r. Q (f r) \<longleftrightarrow> Q r) \<Longrightarrow> rowcount Q (upd_where P f rows) = rowcount Q rows"
  by (induction rows) auto

lemma rowcount_split:
  "rowcount Q rows = rowcount (\<lambda>r. Q r \<and> \<not> P r) rows + rowcount (\<lambda>r. Q r \<and> P r) rows"
  by (induction rows) auto

lemma rowcount_mono: "(\<And>r. r \<in> set rows \<Longrightarrow> P r \<Longrightarrow> Q r) \<Longrightarrow> rowcount P rows \<le> rowcount Q rows"
  by (induction rows) (auto simp: le_SucI)

lemma rowcount_cong: "(\<And>r. r \<in> set rows \<Longrightarrow> P r \<longleftrightarrow> Q r) \<Longrightarrow> rowcount P rows = rowcount Q rows"
  by (induction rows) auto

subsection \<open>SELECT of at most one row\<close>

lemma find_SomeD: "find P xs = Some x \<Longrightarrow> x \<in> set xs \<and> P x"
  by (auto simp: find_Some_iff in_set_conv_nth)

lemma find_NoneD: "find P xs = None \<Longrightarrow> x \<in> set xs \<Longrightarrow> \<not> P x"
  by (auto simp: find_None_iff)

lemma find_None_iff' [row_simps]: "find P xs = None \<longleftrightarrow> (\<forall>x \<in> set xs. \<not> P x)"
  by (auto simp: find_None_iff)

lemma find_append: "find P (xs @ ys) = (case find P xs of None \<Rightarrow> find P ys | Some x \<Rightarrow> Some x)"
  by (induction xs) auto

lemma find_cong': "(\<And>x. x \<in> set xs \<Longrightarrow> P x \<longleftrightarrow> Q x) \<Longrightarrow> find P xs = find Q xs"
  by (induction xs) auto

lemma find_ex: "x \<in> set xs \<Longrightarrow> P x \<Longrightarrow> \<exists>y. find P xs = Some y"
  by (cases "find P xs") (auto simp: find_None_iff')

lemma find_del_where_disjoint:
  "(\<And>r. P r \<Longrightarrow> Q r \<Longrightarrow> False) \<Longrightarrow> find Q (del_where P rows) = find Q rows"
  by (induction rows) auto

lemma find_upd_where:
  assumes "\<And>r. Q (f r) \<longleftrightarrow> Q r"
  shows "find Q (upd_where P f rows) = map_option (\<lambda>r. if P r then f r else r) (find Q rows)"
  using assms by (induction rows) auto

section \<open>Uniqueness constraints\<close>

lemma unique_on_Nil [simp]: "unique_on k []"
  by (simp add: unique_on_def)

lemma unique_on_snoc [simp]:
  "unique_on k (rows @ [r]) \<longleftrightarrow> unique_on k rows \<and> (\<forall>r' \<in> set rows. k r' \<noteq> k r)"
  unfolding unique_on_def by (simp add: image_iff) metis

lemma unique_on_Cons [simp]:
  "unique_on k (r # rows) \<longleftrightarrow> (\<forall>r' \<in> set rows. k r' \<noteq> k r) \<and> unique_on k rows"
  unfolding unique_on_def by (simp add: image_iff) metis

lemma unique_on_del_where [unique_intros]: "unique_on k rows \<Longrightarrow> unique_on k (del_where P rows)"
  by (induction rows) auto

lemma unique_on_upd_where [unique_intros]:
  "unique_on k rows \<Longrightarrow> (\<And>r. k (f r) = k r) \<Longrightarrow> unique_on k (upd_where P f rows)"
  by (simp add: unique_on_def map_upd_where)

lemma unique_onD: "unique_on k rows \<Longrightarrow> r \<in> set rows \<Longrightarrow> r' \<in> set rows \<Longrightarrow> k r = k r' \<Longrightarrow> r = r'"
  by (auto simp: unique_on_def distinct_map inj_on_def)

lemma find_unique:
  assumes "unique_on k rows" and "r \<in> set rows"
  shows "find (\<lambda>x. k x = k r) rows = Some r"
proof -
  obtain y where y: "find (\<lambda>x. k x = k r) rows = Some y"
    using find_ex [of r rows "\<lambda>x. k x = k r"] assms(2) by auto
  then have "y \<in> set rows" and "k y = k r" by (auto dest: find_SomeD)
  then have "y = r" using assms unique_onD by metis
  with y show ?thesis by simp
qed

lemma rowcount_unique_le_1:
  assumes "unique_on k rows" and "\<And>r r'. P r \<Longrightarrow> P r' \<Longrightarrow> k r = k r'"
  shows "rowcount P rows \<le> 1"
  using assms(1)
proof (induction rows)
  case (Cons r rows)
  show ?case
  proof (cases "P r")
    case True
    have "\<not> P r'" if "r' \<in> set rows" for r'
      using Cons.prems assms(2) [OF True] that by (metis unique_on_Cons)
    then have "rowcount P rows = 0" by simp
    with True show ?thesis by simp
  next
    case False
    with Cons show ?thesis by simp
  qed
qed simp

lemma unique_opt_Nil [simp]: "unique_opt k []"
  by (simp add: unique_opt_def map_filter_simps)

lemma set_map_filter': "set (List.map_filter k rows) = {v. \<exists>r \<in> set rows. k r = Some v}"
  by (induction rows) (auto simp: map_filter_simps split: option.splits)

lemma map_filter_append: "List.map_filter k (xs @ ys) = List.map_filter k xs @ List.map_filter k ys"
  by (induction xs) (auto simp: map_filter_simps split: option.splits)

lemma unique_opt_snoc [simp]:
  "unique_opt k (rows @ [r]) \<longleftrightarrow>
     unique_opt k rows \<and> (case k r of None \<Rightarrow> True | Some v \<Rightarrow> \<forall>r' \<in> set rows. k r' \<noteq> Some v)"
  by (auto simp: unique_opt_def map_filter_append map_filter_simps set_map_filter'
      split: option.splits)

lemma unique_opt_Cons [simp]:
  "unique_opt k (r # rows) \<longleftrightarrow>
     unique_opt k rows \<and> (case k r of None \<Rightarrow> True | Some v \<Rightarrow> \<forall>r' \<in> set rows. k r' \<noteq> Some v)"
  by (auto simp: unique_opt_def map_filter_simps set_map_filter' split: option.splits)

lemma unique_opt_del_where [unique_intros]: "unique_opt k rows \<Longrightarrow> unique_opt k (del_where P rows)"
  by (induction rows) (auto split: option.splits)

text \<open>An UPDATE that only clears the nullable key keeps its UNIQUE constraint.\<close>

lemma unique_opt_upd_where [unique_intros]:
  assumes "unique_opt k rows" and "\<And>r. k (f r) = None \<or> k (f r) = k r"
  shows "unique_opt k (upd_where P f rows)"
  using assms(1)
proof (induction rows)
  case (Cons r rows)
  have *: "\<forall>r' \<in> set (upd_where P f rows). k r' \<noteq> Some v"
    if "\<forall>r' \<in> set rows. k r' \<noteq> Some v" for v
  proof
    fix r' assume "r' \<in> set (upd_where P f rows)"
    then obtain q where "q \<in> set rows" and "r' = (if P q then f q else q)"
      by (auto simp: set_upd_where)
    then show "k r' \<noteq> Some v" using that assms(2) [of q] by (auto split: if_splits)
  qed
  have "k (f r) = None \<or> k (f r) = k r" by (rule assms(2))
  with Cons * show ?case by (auto split: option.splits)
qed simp

section \<open>Ordered selection\<close>

text \<open>ORDER BY key ASC / DESC with LIMIT, on a list of rows.\<close>

definition order_asc :: "('r \<Rightarrow> 'k::linorder) \<Rightarrow> 'r list \<Rightarrow> 'r list" where
  "order_asc k rows = sort_key k rows"

definition order_desc :: "('r \<Rightarrow> 'k::linorder) \<Rightarrow> 'r list \<Rightarrow> 'r list" where
  "order_desc k rows = rev (sort_key k rows)"

lemma set_order_asc [simp]: "set (order_asc k rows) = set rows"
  and set_order_desc [simp]: "set (order_desc k rows) = set rows"
  by (simp_all add: order_asc_def order_desc_def)

lemma length_order_asc [simp]: "length (order_asc k rows) = length rows"
  and length_order_desc [simp]: "length (order_desc k rows) = length rows"
  by (simp_all add: order_asc_def order_desc_def)

lemma sorted_order_asc [simp]: "sorted (map k (order_asc k rows))"
  by (simp add: order_asc_def)

lemma sorted_order_desc [simp]: "sorted (rev (map k (order_desc k rows)))"
  by (simp add: order_desc_def rev_map)

lemma distinct_order_asc [simp]: "distinct (map k (order_asc k rows)) \<longleftrightarrow> distinct (map k rows)"
proof -
  have "mset (map k (order_asc k rows)) = mset (map k rows)"
    by (simp add: order_asc_def)
  then show ?thesis by (rule mset_eq_imp_distinct_iff)
qed

section \<open>Splitting text\<close>

text \<open>Python's \<open>str.split\<close> with a one-character separator.\<close>

fun split_on :: "char \<Rightarrow> string \<Rightarrow> string list" where
  "split_on c [] = [[]]"
| "split_on c (x # xs) =
     (if x = c then [] # split_on c xs
      else case split_on c xs of [] \<Rightarrow> [[x]] | y # ys \<Rightarrow> (x # y) # ys)"

lemma split_on_ne [simp]: "split_on c s \<noteq> []"
  by (induction s) (auto split: list.splits)

lemma split_on_free: "c \<notin> set s \<Longrightarrow> split_on c s = [s]"
  by (induction s) auto

lemma split_on_sep: "c \<notin> set s \<Longrightarrow> split_on c (s @ c # t) = s # split_on c t"
  by (induction s) auto

text \<open>In a strictly ordered list the part after a prefix is what exceeds the prefix's last key.\<close>

lemma filter_after_prefix:
  fixes k :: "'r \<Rightarrow> 'k::linorder"
  assumes "sorted_wrt (<) (map k (xs @ ys))" and "xs \<noteq> []"
  shows "filter (\<lambda>i. k (last xs) < k i) (xs @ ys) = ys"
proof -
  obtain zs z where xs: "xs = zs @ [z]" using assms(2) by (cases xs rule: rev_cases) auto
  have "k y < k z" if "y \<in> set zs" for y using assms(1) that by (auto simp: xs sorted_wrt_append)
  moreover have "k z < k y" if "y \<in> set ys" for y using assms(1) that by (auto simp: xs sorted_wrt_append)
  ultimately show ?thesis by (auto simp: xs filter_empty_conv filter_id_conv dest: less_asym)
qed

section \<open>References\<close>

text \<open>Every row's key resolves in the referenced table.\<close>

definition refers :: "'r list \<Rightarrow> ('r \<Rightarrow> 'k) \<Rightarrow> 't list \<Rightarrow> ('t \<Rightarrow> 'k) \<Rightarrow> bool" where
  "refers rows key tbl pk \<longleftrightarrow> (\<forall>r \<in> set rows. \<exists>t \<in> set tbl. pk t = key r)"

lemma refersD: "refers rows key tbl pk \<Longrightarrow> r \<in> set rows \<Longrightarrow> \<exists>t \<in> set tbl. pk t = key r"
  by (simp add: refers_def)

lemma refers_cascade:
  "refers rows key tbl pk \<Longrightarrow> refers (del_where (\<lambda>r. key r = x) rows) key (del_where (\<lambda>t. pk t = x) tbl) pk"
  by (fastforce simp: refers_def)

lemma refers_cascade_where:
  "refers rows key tbl pk \<Longrightarrow>
     refers (del_where (\<lambda>r. \<exists>t \<in> set tbl. P t \<and> pk t = key r) rows) key (del_where P tbl) pk"
  unfolding refers_def by (metis (mono_tags, lifting) set_del_where)

lemma refers_del: "refers rows key tbl pk \<Longrightarrow> refers (del_where P rows) key tbl pk"
  by (simp add: refers_def)

section \<open>Sorted sets\<close>

text \<open>Python's \<open>sorted(set(xs))\<close>.\<close>

definition sorted_set :: "'a::linorder list \<Rightarrow> 'a list" where
  "sorted_set xs = sort (remdups xs)"

lemma set_sorted_set [simp]: "set (sorted_set xs) = set xs"
  by (simp add: sorted_set_def)

lemma distinct_sorted_set [simp]: "distinct (sorted_set xs)"
  by (simp add: sorted_set_def)

lemma sorted_sorted_set [simp]: "sorted (sorted_set xs)"
  by (simp add: sorted_set_def)

lemma sorted_set_eqI: "set xs = set ys \<Longrightarrow> sorted_set xs = sorted_set ys"
  by (rule sorted_distinct_set_unique) simp_all

lemma sorted_set_Nil [simp]: "sorted_set [] = []"
  by (simp add: sorted_set_def)

lemma sorted_set_pair:
  "sorted_set [a, b] = (if a = b then [a] else if a < b then [a, b] else [b, a])"
  by (auto simp: sorted_set_def)

end
