(* ===== verification/Model.thy ===== *)
theory Model
  imports Prelude
begin

text \<open>
  The persistence schema (\<^verbatim>\<open>domain/models.py\<close>): the closed string enumerations, one
  record per table row, the CHECK and UNIQUE constraints as bool-valued predicates, and
  the database as a record of tables.  An enumeration column is the datatype itself, so
  its CHECK (\<open>col IN (...)\<close>) holds by typing; the locale \<open>str_enum\<close> states what that
  costs, namely that the stored strings and the members are in bijection.  Foreign keys
  are not enforced: the engine never switches \<open>PRAGMA foreign_keys\<close> on
  (\<^verbatim>\<open>db.py\<close>), so an insert checks the primary key, the UNIQUE and the CHECK
  constraints only.
\<close>

section \<open>Closed string enumerations\<close>

datatype role = ADMIN | MEMBER
datatype join_policy = INVITE_ONLY | OPEN
datatype channel_kind = STANDARD | LLM | ROBOT | DM
datatype visibility = PUBLIC | UNLISTED | PRIVATE
datatype category = GENERAL | TECH | GAMING | SOCIAL | MUSIC | EDUCATION | CAT_OTHER
datatype platform = APNS | FCM
datatype apns_environment = SANDBOX | PRODUCTION
datatype token_kind = ALERT | VOIP
datatype passkey_operation = REGISTER | AUTHENTICATE | RECOVER
datatype report_reason = SPAM | HARASSMENT | HATE | VIOLENCE | SEXUAL | REASON_OTHER
datatype report_resolution = TAKEN_DOWN | DISMISSED
datatype sender_kind = SENDER_HUMAN | SENDER_AGENT | SENDER_UNKNOWN
datatype user_kind = HUMAN | AGENT

fun role_value :: "role \<Rightarrow> string" where
  "role_value ADMIN = ''admin''"
| "role_value MEMBER = ''member''"

fun join_policy_value :: "join_policy \<Rightarrow> string" where
  "join_policy_value INVITE_ONLY = ''invite_only''"
| "join_policy_value OPEN = ''open''"

fun channel_kind_value :: "channel_kind \<Rightarrow> string" where
  "channel_kind_value STANDARD = ''standard''"
| "channel_kind_value LLM = ''llm''"
| "channel_kind_value ROBOT = ''robot''"
| "channel_kind_value DM = ''dm''"

fun visibility_value :: "visibility \<Rightarrow> string" where
  "visibility_value PUBLIC = ''public''"
| "visibility_value UNLISTED = ''unlisted''"
| "visibility_value PRIVATE = ''private''"

fun category_value :: "category \<Rightarrow> string" where
  "category_value GENERAL = ''general''"
| "category_value TECH = ''tech''"
| "category_value GAMING = ''gaming''"
| "category_value SOCIAL = ''social''"
| "category_value MUSIC = ''music''"
| "category_value EDUCATION = ''education''"
| "category_value CAT_OTHER = ''other''"

fun platform_value :: "platform \<Rightarrow> string" where
  "platform_value APNS = ''apns''"
| "platform_value FCM = ''fcm''"

fun apns_environment_value :: "apns_environment \<Rightarrow> string" where
  "apns_environment_value SANDBOX = ''sandbox''"
| "apns_environment_value PRODUCTION = ''production''"

fun token_kind_value :: "token_kind \<Rightarrow> string" where
  "token_kind_value ALERT = ''alert''"
| "token_kind_value VOIP = ''voip''"

fun passkey_operation_value :: "passkey_operation \<Rightarrow> string" where
  "passkey_operation_value REGISTER = ''register''"
| "passkey_operation_value AUTHENTICATE = ''authenticate''"
| "passkey_operation_value RECOVER = ''recover''"

fun report_reason_value :: "report_reason \<Rightarrow> string" where
  "report_reason_value SPAM = ''spam''"
| "report_reason_value HARASSMENT = ''harassment''"
| "report_reason_value HATE = ''hate''"
| "report_reason_value VIOLENCE = ''violence''"
| "report_reason_value SEXUAL = ''sexual''"
| "report_reason_value REASON_OTHER = ''other''"

fun report_resolution_value :: "report_resolution \<Rightarrow> string" where
  "report_resolution_value TAKEN_DOWN = ''taken_down''"
| "report_resolution_value DISMISSED = ''dismissed''"

fun sender_kind_value :: "sender_kind \<Rightarrow> string" where
  "sender_kind_value SENDER_HUMAN = ''human''"
| "sender_kind_value SENDER_AGENT = ''agent''"
| "sender_kind_value SENDER_UNKNOWN = ''unknown''"

fun user_kind_value :: "user_kind \<Rightarrow> string" where
  "user_kind_value HUMAN = ''human''"
| "user_kind_value AGENT = ''agent''"

text \<open>Construction of a member from its value, as \<open>Role(s)\<close> does: \<open>None\<close> is the
  \<open>ValueError\<close>.  And the SQL text of the CHECK constraint, as \<open>_in_check\<close>
  renders it.\<close>

definition enum_of :: "'m list \<Rightarrow> ('m \<Rightarrow> string) \<Rightarrow> string \<Rightarrow> 'm option" where
  "enum_of members val s = find (\<lambda>m. val m = s) members"

fun join_with :: "string \<Rightarrow> string list \<Rightarrow> string" where
  "join_with sep [] = []"
| "join_with sep [x] = x"
| "join_with sep (x # y # xs) = x @ sep @ join_with sep (y # xs)"

definition in_check :: "string \<Rightarrow> 'm list \<Rightarrow> ('m \<Rightarrow> string) \<Rightarrow> string" where
  "in_check column members val =
     column @ '' IN ('' @ join_with '', '' (map (\<lambda>m. [CHR 39] @ val m @ [CHR 39]) members) @ '')''"

locale str_enum =
  fixes members :: "'m list" and val :: "'m \<Rightarrow> string"
  assumes all_members: "m \<in> set members"
    and val_inj: "val m = val m' \<Longrightarrow> m = m'"
begin

lemma enum_of_val [simp]: "enum_of members val (val m) = Some m"
proof -
  obtain x where "find (\<lambda>m'. val m' = val m) members = Some x"
    using find_ex [OF all_members [of m], of "\<lambda>m'. val m' = val m"] by auto
  moreover from this have "x = m" by (auto dest: find_SomeD intro: val_inj)
  ultimately show ?thesis by (simp add: enum_of_def)
qed

lemma enum_of_iff: "enum_of members val s = Some m \<longleftrightarrow> val m = s"
  by (auto simp: enum_of_def dest: find_SomeD) (use enum_of_val enum_of_def in metis)

lemma enum_of_None_iff: "enum_of members val s = None \<longleftrightarrow> s \<notin> val ` set members"
  by (auto simp: enum_of_def row_simps)

end

definition Role_members :: "role list" where "Role_members = [ADMIN, MEMBER]"
definition JoinPolicy_members :: "join_policy list" where "JoinPolicy_members = [INVITE_ONLY, OPEN]"
definition ChannelKind_members :: "channel_kind list" where
  "ChannelKind_members = [STANDARD, LLM, ROBOT, DM]"
definition ReportReason_members :: "report_reason list" where
  "ReportReason_members = [SPAM, HARASSMENT, HATE, VIOLENCE, SEXUAL, REASON_OTHER]"
definition SenderKind_members :: "sender_kind list" where
  "SenderKind_members = [SENDER_HUMAN, SENDER_AGENT, SENDER_UNKNOWN]"
definition UserKind_members :: "user_kind list" where "UserKind_members = [HUMAN, AGENT]"
definition Category_members :: "category list" where
  "Category_members = [GENERAL, TECH, GAMING, SOCIAL, MUSIC, EDUCATION, CAT_OTHER]"

interpretation role: str_enum Role_members role_value
proof (unfold_locales, goal_cases)
  case (1 m) show ?case by (cases m) (simp_all add: Role_members_def)
next
  case (2 m m') then show ?case by (cases m; cases m') simp_all
qed

interpretation join_policy: str_enum JoinPolicy_members join_policy_value
proof (unfold_locales, goal_cases)
  case (1 m) show ?case by (cases m) (simp_all add: JoinPolicy_members_def)
next
  case (2 m m') then show ?case by (cases m; cases m') simp_all
qed

interpretation channel_kind: str_enum ChannelKind_members channel_kind_value
proof (unfold_locales, goal_cases)
  case (1 m) show ?case by (cases m) (simp_all add: ChannelKind_members_def)
next
  case (2 m m') then show ?case by (cases m; cases m') simp_all
qed

interpretation report_reason: str_enum ReportReason_members report_reason_value
proof (unfold_locales, goal_cases)
  case (1 m) show ?case by (cases m) (simp_all add: ReportReason_members_def)
next
  case (2 m m') then show ?case by (cases m; cases m') simp_all
qed

interpretation sender_kind: str_enum SenderKind_members sender_kind_value
proof (unfold_locales, goal_cases)
  case (1 m) show ?case by (cases m) (simp_all add: SenderKind_members_def)
next
  case (2 m m') then show ?case by (cases m; cases m') simp_all
qed

interpretation user_kind: str_enum UserKind_members user_kind_value
proof (unfold_locales, goal_cases)
  case (1 m) show ?case by (cases m) (simp_all add: UserKind_members_def)
next
  case (2 m m') then show ?case by (cases m; cases m') simp_all
qed

interpretation category: str_enum Category_members category_value
proof (unfold_locales, goal_cases)
  case (1 m) show ?case by (cases m) (simp_all add: Category_members_def)
next
  case (2 m m') then show ?case by (cases m; cases m') simp_all
qed

section \<open>JSON values\<close>

text \<open>The value of a JSON column or of a decoded frame, as \<open>json.loads\<close> yields it.  An
  object is the association list of its items, in insertion order; Python's \<open>bool\<close> is a
  subtype of \<open>int\<close>, so the two are kept apart here and the code's \<open>isinstance\<close>
  tests are written out where they occur.  A float is kept as its text.\<close>

datatype json =
    JNull
  | JBool bool
  | JInt int
  | JFloat string
  | JStr string
  | JList "json list"
  | JObj "(string \<times> json) list"

fun jget :: "string \<Rightarrow> json \<Rightarrow> json option" where
  "jget k (JObj kvs) = map_of kvs k"
| "jget k _ = None"

text \<open>A nullable text column in an answer.\<close>

definition json_opt :: "string option \<Rightarrow> json" where
  "json_opt x = (case x of None \<Rightarrow> JNull | Some s \<Rightarrow> JStr s)"

section \<open>Rows\<close>

record user =
  u_id :: ident
  u_username :: string
  u_display_name :: string
  u_password_hash :: "string option"
  u_aiko_username :: string
  u_email :: "string option"
  u_created_at :: instant
  u_banned_at :: "instant option"
  u_token_generation :: int
  u_handle_changed_at :: "instant option"
  u_handle_assigned :: bool
  u_kind :: user_kind

record social_identity =
  si_id :: ident
  si_provider :: string
  si_provider_sub :: string
  si_user_id :: ident
  si_created_at :: instant

record channel =
  ch_id :: ident
  ch_name :: string
  ch_kind :: channel_kind
  ch_aiko_channel :: string
  ch_is_private :: bool
  ch_join_policy :: join_policy
  ch_community_id :: "ident option"
  ch_created_at :: instant

record membership =
  mb_channel_id :: ident
  mb_user_id :: ident
  mb_role :: role
  mb_can_post :: bool
  mb_joined_at :: instant

record channel_read_position =
  rp_user_id :: ident
  rp_channel_id :: ident
  rp_last_read :: string
  rp_seq :: int
  rp_updated_at :: instant

record community =
  co_id :: ident
  co_name :: string
  co_description :: "string option"
  co_icon_url :: "string option"
  co_visibility :: visibility
  co_category :: category
  co_owner_id :: "ident option"
  co_member_count :: int
  co_default_channel_id :: "ident option"
  co_last_activity_at :: "instant option"
  co_taken_down_at :: "instant option"
  co_created_at :: instant

record community_membership =
  cm_community_id :: ident
  cm_user_id :: ident
  cm_role :: role
  cm_joined_at :: instant

record message =
  m_id :: ident
  m_channel_id :: ident
  m_sender_user_id :: "ident option"
  m_sender_kind :: sender_kind
  m_sender_label :: "string option"
  m_body :: string
  m_reply_to :: "ident option"
  m_client_msg_id :: "string option"
  m_aiko_origin :: bool
  m_origin :: "json option"
  m_mentions :: "json list option"
  m_created_at :: instant
  m_edited_at :: "instant option"
  m_deleted_at :: "instant option"

record user_block =
  bl_blocker_user_id :: ident
  bl_blocked_user_id :: ident
  bl_created_at :: instant

record message_report =
  rep_id :: ident
  rep_message_id :: ident
  rep_reporter_user_id :: "ident option"
  rep_reason :: report_reason
  rep_created_at :: instant
  rep_resolved_at :: "instant option"
  rep_resolved_by_user_id :: "ident option"
  rep_resolution :: "report_resolution option"

record retraction =
  ret_id :: ident
  ret_target_msg_id :: ident
  ret_channel_id :: ident
  ret_created_at :: instant

record device_token =
  dt_id :: ident
  dt_user_id :: ident
  dt_platform :: platform
  dt_token :: string
  dt_apns_environment :: apns_environment
  dt_token_kind :: token_kind
  dt_install_id :: "string option"
  dt_created_at :: instant
  dt_updated_at :: instant

record signing_key =
  sk_id :: ident
  sk_user_id :: ident
  sk_pubkey :: string
  sk_key_version :: int
  sk_first_seen_at :: instant
  sk_last_seen_at :: instant

record oauth_handoff =
  ho_code :: string
  ho_payload :: string
  ho_expires_at :: instant
  ho_consumed :: bool
  ho_created_at :: instant

record oauth_state =
  st_nonce :: string
  st_provider :: string
  st_code_verifier :: "string option"
  st_app_challenge :: "string option"
  st_expires_at :: instant
  st_consumed :: bool
  st_created_at :: instant

record social_nonce =
  sn_nonce :: string
  sn_expires_at :: instant
  sn_consumed :: bool
  sn_created_at :: instant

record passkey_credential =
  pk_id :: ident
  pk_credential_id :: string
  pk_user_id :: ident
  pk_public_key :: string
  pk_sign_count :: int
  pk_transports :: "string option"
  pk_aaguid :: "string option"
  pk_created_at :: instant
  pk_last_used_at :: "instant option"

record passkey_challenge =
  pc_state :: string
  pc_operation :: passkey_operation
  pc_expires_at :: instant
  pc_consumed :: bool
  pc_created_at :: instant

record recovery_policy =
  rpol_id :: ident
  rpol_user_id :: ident
  rpol_threshold_k :: int
  rpol_created_at :: instant

record recovery_approver =
  ra_id :: ident
  ra_user_id :: ident
  ra_approver_pubkey :: string
  ra_label :: "string option"
  ra_created_at :: instant

record pending_recovery =
  pr_id :: ident
  pr_user_id :: ident
  pr_staged_credential_id :: string
  pr_staged_public_key :: string
  pr_staged_sign_count :: int
  pr_veto_deadline :: instant
  pr_finalize_token_hash :: string
  pr_created_at :: instant

record message_reaction =
  re_message_id :: ident
  re_user_id :: ident
  re_emoji :: "nat list"
  re_origin :: "json option"
  re_created_at :: instant

section \<open>The database\<close>

record db =
  users :: "user list"
  social_identities :: "social_identity list"
  channels :: "channel list"
  memberships :: "membership list"
  channel_read_positions :: "channel_read_position list"
  communities :: "community list"
  community_memberships :: "community_membership list"
  messages :: "message list"
  user_blocks :: "user_block list"
  message_reports :: "message_report list"
  message_retractions :: "retraction list"
  device_tokens :: "device_token list"
  signing_keys :: "signing_key list"
  oauth_handoffs :: "oauth_handoff list"
  oauth_states :: "oauth_state list"
  social_nonces :: "social_nonce list"
  passkey_credentials :: "passkey_credential list"
  passkey_challenges :: "passkey_challenge list"
  recovery_policies :: "recovery_policy list"
  recovery_approvers :: "recovery_approver list"
  pending_recoveries :: "pending_recovery list"
  message_reactions :: "message_reaction list"

definition empty_db :: db where
  "empty_db = \<lparr>users = [], social_identities = [], channels = [], memberships = [],
     channel_read_positions = [], communities = [], community_memberships = [],
     messages = [], user_blocks = [], message_reports = [], message_retractions = [],
     device_tokens = [], signing_keys = [], oauth_handoffs = [], oauth_states = [],
     social_nonces = [], passkey_credentials = [], passkey_challenges = [],
     recovery_policies = [], recovery_approvers = [], pending_recoveries = [],
     message_reactions = []\<rparr>"

definition DEFAULT_COMMUNITY_ID :: ident where
  "DEFAULT_COMMUNITY_ID = replicate 26 CHR ''0''"

section \<open>Constraints\<close>

text \<open>Composite keys.\<close>

definition mb_key :: "membership \<Rightarrow> ident \<times> ident" where
  "mb_key m = (mb_channel_id m, mb_user_id m)"

definition rp_key :: "channel_read_position \<Rightarrow> ident \<times> ident" where
  "rp_key p = (rp_user_id p, rp_channel_id p)"

definition cm_key :: "community_membership \<Rightarrow> ident \<times> ident" where
  "cm_key m = (cm_community_id m, cm_user_id m)"

definition bl_key :: "user_block \<Rightarrow> ident \<times> ident" where
  "bl_key b = (bl_blocker_user_id b, bl_blocked_user_id b)"

definition re_key :: "message_reaction \<Rightarrow> ident \<times> ident \<times> nat list" where
  "re_key r = (re_message_id r, re_user_id r, re_emoji r)"

definition sk_key :: "signing_key \<Rightarrow> ident \<times> string" where
  "sk_key k = (sk_user_id k, sk_pubkey k)"

text \<open>UNIQUE(channel_id, client_msg_id) and UNIQUE(message_id, reporter_user_id): a NULL
  component takes the row out of the constraint.\<close>

definition m_client_key :: "message \<Rightarrow> (ident \<times> string) option" where
  "m_client_key m = map_option (\<lambda>c. (m_channel_id m, c)) (m_client_msg_id m)"

definition rep_key :: "message_report \<Rightarrow> (ident \<times> ident) option" where
  "rep_key r = map_option (\<lambda>u. (rep_message_id r, u)) (rep_reporter_user_id r)"

text \<open>The CHECK constraints of \<open>channels\<close> that tie the columns of a direct message
  together: community-less exactly when \<open>kind = 'dm'\<close>, private, named in the
  \<open>dm:\<close> namespace exactly when \<open>kind = 'dm'\<close>, and invite-only.\<close>

definition channel_checks :: "channel \<Rightarrow> bool" where
  "channel_checks c \<longleftrightarrow>
     (ch_kind c = DM \<and> ch_community_id c = None \<or> ch_kind c \<noteq> DM \<and> ch_community_id c \<noteq> None) \<and>
     (ch_kind c \<noteq> DM \<or> ch_is_private c) \<and>
     (ch_kind c = DM \<and> take 3 (ch_aiko_channel c) = ''dm:'' \<or>
      ch_kind c \<noteq> DM \<and> take 3 (ch_aiko_channel c) \<noteq> ''dm:'') \<and>
     (ch_kind c \<noteq> DM \<or> ch_join_policy c = INVITE_ONLY)"

text \<open>The invariant the schema guarantees of every committed state, for the tables whose
  constraints the services rely on.\<close>

definition schema_ok :: "db \<Rightarrow> bool" where
  "schema_ok d \<longleftrightarrow>
     unique_on u_id (users d) \<and> unique_on u_username (users d) \<and>
     unique_on u_aiko_username (users d) \<and>
     unique_on ch_id (channels d) \<and> unique_on ch_aiko_channel (channels d) \<and>
     (\<forall>c \<in> set (channels d). channel_checks c) \<and>
     unique_on mb_key (memberships d) \<and>
     unique_on rp_key (channel_read_positions d) \<and>
     (\<forall>p \<in> set (channel_read_positions d). 1 \<le> rp_seq p) \<and>
     unique_on co_id (communities d) \<and> unique_on cm_key (community_memberships d) \<and>
     unique_on m_id (messages d) \<and> unique_opt m_client_key (messages d) \<and>
     unique_on bl_key (user_blocks d) \<and>
     unique_on rep_id (message_reports d) \<and> unique_opt rep_key (message_reports d) \<and>
     unique_on ret_id (message_retractions d) \<and>
     unique_on sk_id (signing_keys d) \<and> unique_on sk_key (signing_keys d) \<and>
     unique_on re_key (message_reactions d)"

lemma schema_okD:
  assumes "schema_ok d"
  shows "unique_on u_id (users d)" "unique_on u_aiko_username (users d)"
    "unique_on ch_id (channels d)" "unique_on ch_aiko_channel (channels d)"
    "\<And>c. c \<in> set (channels d) \<Longrightarrow> channel_checks c"
    "unique_on mb_key (memberships d)" "unique_on rp_key (channel_read_positions d)"
    "unique_on co_id (communities d)" "unique_on cm_key (community_memberships d)"
    "unique_on m_id (messages d)" "unique_opt m_client_key (messages d)"
    "unique_on bl_key (user_blocks d)" "unique_on rep_id (message_reports d)"
    "unique_opt rep_key (message_reports d)" "unique_on ret_id (message_retractions d)"
    "unique_on sk_id (signing_keys d)" "unique_on sk_key (signing_keys d)"
    "unique_on re_key (message_reactions d)"
  using assms by (simp_all add: schema_ok_def)

lemma schema_ok_empty: "schema_ok empty_db"
  by (simp add: schema_ok_def empty_db_def)

section \<open>Inserts\<close>

text \<open>An INSERT raises \<open>IntegrityError\<close> when a key or a CHECK is violated; the row order
  of a table is insertion order.\<close>

datatype db_error = IntegrityError

definition insert_channel :: "channel \<Rightarrow> db \<Rightarrow> db_error + db" where
  "insert_channel c d =
     (if list_ex (\<lambda>r. ch_id r = ch_id c \<or> ch_aiko_channel r = ch_aiko_channel c) (channels d)
         \<or> \<not> channel_checks c
      then Inl IntegrityError else Inr (d\<lparr>channels := channels d @ [c]\<rparr>))"

definition insert_membership :: "membership \<Rightarrow> db \<Rightarrow> db_error + db" where
  "insert_membership m d =
     (if list_ex (\<lambda>r. mb_key r = mb_key m) (memberships d)
      then Inl IntegrityError else Inr (d\<lparr>memberships := memberships d @ [m]\<rparr>))"

definition insert_message :: "message \<Rightarrow> db \<Rightarrow> db_error + db" where
  "insert_message m d =
     (if list_ex (\<lambda>r. m_id r = m_id m \<or>
           m_client_key r \<noteq> None \<and> m_client_key r = m_client_key m) (messages d)
      then Inl IntegrityError else Inr (d\<lparr>messages := messages d @ [m]\<rparr>))"

definition insert_signing_key :: "signing_key \<Rightarrow> db \<Rightarrow> db_error + db" where
  "insert_signing_key k d =
     (if list_ex (\<lambda>r. sk_id r = sk_id k \<or> sk_key r = sk_key k) (signing_keys d)
      then Inl IntegrityError else Inr (d\<lparr>signing_keys := signing_keys d @ [k]\<rparr>))"

definition insert_report :: "message_report \<Rightarrow> db \<Rightarrow> db_error + db" where
  "insert_report r d =
     (if list_ex (\<lambda>r'. rep_id r' = rep_id r \<or>
           rep_key r' \<noteq> None \<and> rep_key r' = rep_key r) (message_reports d)
      then Inl IntegrityError else Inr (d\<lparr>message_reports := message_reports d @ [r]\<rparr>))"

definition insert_block :: "user_block \<Rightarrow> db \<Rightarrow> db_error + db" where
  "insert_block b d =
     (if list_ex (\<lambda>r. bl_key r = bl_key b) (user_blocks d)
      then Inl IntegrityError else Inr (d\<lparr>user_blocks := user_blocks d @ [b]\<rparr>))"

definition insert_retraction :: "retraction \<Rightarrow> db \<Rightarrow> db_error + db" where
  "insert_retraction r d =
     (if list_ex (\<lambda>r'. ret_id r' = ret_id r) (message_retractions d)
      then Inl IntegrityError
      else Inr (d\<lparr>message_retractions := message_retractions d @ [r]\<rparr>))"

lemmas insert_defs = insert_channel_def insert_membership_def insert_message_def
  insert_signing_key_def insert_report_def insert_block_def insert_retraction_def

lemma insert_channel_ok: "insert_channel c d = Inr d' \<Longrightarrow> schema_ok d \<Longrightarrow> schema_ok d'"
  by (auto simp: insert_channel_def schema_ok_def list_ex_iff split: if_splits)

lemma insert_membership_ok: "insert_membership m d = Inr d' \<Longrightarrow> schema_ok d \<Longrightarrow> schema_ok d'"
  by (auto simp: insert_membership_def schema_ok_def list_ex_iff split: if_splits)

lemma insert_message_ok: "insert_message m d = Inr d' \<Longrightarrow> schema_ok d \<Longrightarrow> schema_ok d'"
  by (fastforce simp: insert_message_def schema_ok_def list_ex_iff simp del: split_paired_All
      split: if_splits option.splits)

lemma insert_signing_key_ok: "insert_signing_key k d = Inr d' \<Longrightarrow> schema_ok d \<Longrightarrow> schema_ok d'"
  by (auto simp: insert_signing_key_def schema_ok_def list_ex_iff split: if_splits)

lemma insert_report_ok: "insert_report r d = Inr d' \<Longrightarrow> schema_ok d \<Longrightarrow> schema_ok d'"
  by (fastforce simp: insert_report_def schema_ok_def list_ex_iff simp del: split_paired_All
      split: if_splits option.splits)

lemma insert_block_ok: "insert_block b d = Inr d' \<Longrightarrow> schema_ok d \<Longrightarrow> schema_ok d'"
  by (auto simp: insert_block_def schema_ok_def list_ex_iff split: if_splits)

lemma insert_retraction_ok: "insert_retraction r d = Inr d' \<Longrightarrow> schema_ok d \<Longrightarrow> schema_ok d'"
  by (auto simp: insert_retraction_def schema_ok_def list_ex_iff split: if_splits)

end
