(* ===== verification/Acl.thy ===== *)
theory Acl
  imports Model
begin

text \<open>
  The membership access rules (\<^verbatim>\<open>domain/acl.py\<close>): who may read, subscribe to and post in
  a channel, and the listings that follow from it.  Every question is answered from the
  live tables.  The locale \<open>read_gate\<close> is the contract the other services rely on: the
  channel comes back exactly when it exists and is public or the user holds a membership
  row, so a private channel and a missing one are the same answer.
\<close>

section \<open>Definitions\<close>

definition has_membership :: "db \<Rightarrow> ident \<Rightarrow> ident \<Rightarrow> bool" where
  "has_membership d channel_id user_id \<longleftrightarrow>
     list_ex (\<lambda>m. mb_channel_id m = channel_id \<and> mb_user_id m = user_id) (memberships d)"

definition readable_predicate :: "db \<Rightarrow> ident \<Rightarrow> channel \<Rightarrow> bool" where
  "readable_predicate d user_id c \<longleftrightarrow> \<not> ch_is_private c \<or> has_membership d (ch_id c) user_id"

definition get_membership :: "db \<Rightarrow> ident \<Rightarrow> ident \<Rightarrow> membership option" where
  "get_membership d channel_id user_id =
     find (\<lambda>m. mb_channel_id m = channel_id \<and> mb_user_id m = user_id) (memberships d)"

definition readable_channel :: "db \<Rightarrow> ident \<Rightarrow> ident \<Rightarrow> channel option" where
  "readable_channel d user_id channel_id =
     find (\<lambda>c. ch_id c = channel_id \<and> readable_predicate d user_id c) (channels d)"

definition is_posting_member :: "db \<Rightarrow> ident \<Rightarrow> channel \<Rightarrow> bool" where
  "is_posting_member d user_id c =
     (case get_membership d (ch_id c) user_id of None \<Rightarrow> False | Some m \<Rightarrow> mb_can_post m)"

definition can_post :: "db \<Rightarrow> ident \<Rightarrow> channel \<Rightarrow> bool" where
  "can_post d user_id c =
     (let m = get_membership d (ch_id c) user_id
      in if \<not> ch_is_private c
         then (case m of None \<Rightarrow> True | Some m \<Rightarrow> mb_can_post m)
         else (case m of None \<Rightarrow> False | Some m \<Rightarrow> mb_can_post m))"

definition visible_channels :: "db \<Rightarrow> ident \<Rightarrow> channel list" where
  "visible_channels d user_id =
     order_asc ch_id (filter (\<lambda>c. readable_predicate d user_id c \<and> ch_kind c \<noteq> DM) (channels d))"

definition visible_channels_in_community :: "db \<Rightarrow> ident \<Rightarrow> ident \<Rightarrow> channel list" where
  "visible_channels_in_community d user_id community_id =
     order_asc ch_id (filter (\<lambda>c. ch_community_id c = Some community_id \<and>
       readable_predicate d user_id c \<and> ch_kind c \<noteq> DM) (channels d))"

definition filter_readable_ids :: "db \<Rightarrow> ident \<Rightarrow> ident list \<Rightarrow> ident list" where
  "filter_readable_ids d user_id channel_ids =
     (if channel_ids = [] then []
      else let readable = map ch_id
             (filter (\<lambda>c. ch_id c \<in> set channel_ids \<and> readable_predicate d user_id c) (channels d))
           in filter (\<lambda>cid. cid \<in> set readable) channel_ids)"

text \<open>A store with one member of one private channel, for the examples.\<close>

definition ex_acl_channel :: channel where
  "ex_acl_channel = \<lparr>ch_id = ''c'', ch_name = ''n'', ch_kind = STANDARD, ch_aiko_channel = ''a'',
     ch_is_private = True, ch_join_policy = INVITE_ONLY, ch_community_id = Some ''x'',
     ch_created_at = 0\<rparr>"

definition ex_acl_db :: db where
  "ex_acl_db = empty_db\<lparr>channels := [ex_acl_channel], memberships := [\<lparr>mb_channel_id = ''c'',
     mb_user_id = ''u'', mb_role = MEMBER, mb_can_post = True, mb_joined_at = 0\<rparr>]\<rparr>"

section \<open>Membership lookups\<close>

lemma has_membership_iff:
  "has_membership d cid uid \<longleftrightarrow> (cid, uid) \<in> mb_key ` set (memberships d)"
  by (auto simp: has_membership_def list_ex_iff mb_key_def image_iff)

lemma get_membership_None_iff: "get_membership d cid uid = None \<longleftrightarrow> \<not> has_membership d cid uid"
  by (auto simp: get_membership_def has_membership_def list_ex_iff row_simps)

lemma get_membership_SomeD:
  "get_membership d cid uid = Some m \<Longrightarrow>
     m \<in> set (memberships d) \<and> mb_channel_id m = cid \<and> mb_user_id m = uid"
  by (auto simp: get_membership_def dest: find_SomeD)

lemma get_membership_unique:
  assumes "unique_on mb_key (memberships d)" and "m \<in> set (memberships d)"
  shows "get_membership d (mb_channel_id m) (mb_user_id m) = Some m"
proof -
  have "find (\<lambda>x. mb_key x = mb_key m) (memberships d) = Some m"
    using assms by (rule find_unique)
  then show ?thesis by (simp add: get_membership_def mb_key_def)
qed

lemma has_membershipI: "get_membership d cid uid = Some m \<Longrightarrow> has_membership d cid uid"
  by (metis get_membership_None_iff option.distinct(1))

section \<open>The read gate\<close>

locale read_gate =
  fixes gate :: "db \<Rightarrow> ident \<Rightarrow> ident \<Rightarrow> channel option"
  assumes gate_sound: "gate d u cid = Some c \<Longrightarrow>
      c \<in> set (channels d) \<and> ch_id c = cid \<and> (\<not> ch_is_private c \<or> has_membership d cid u)"
    and gate_complete: "c \<in> set (channels d) \<Longrightarrow> ch_id c = cid \<Longrightarrow>
      \<not> ch_is_private c \<or> has_membership d cid u \<Longrightarrow> gate d u cid \<noteq> None"
begin

lemma gate_missing: "\<forall>c \<in> set (channels d). ch_id c \<noteq> cid \<Longrightarrow> gate d u cid = None"
  using gate_sound [of d u cid] by (cases "gate d u cid") auto

lemma gate_private_outsider:
  "\<forall>c \<in> set (channels d). ch_id c = cid \<longrightarrow> ch_is_private c \<Longrightarrow>
   \<not> has_membership d cid u \<Longrightarrow> gate d u cid = None"
  using gate_sound [of d u cid] by (cases "gate d u cid") auto

lemma gate_member:
  "c \<in> set (channels d) \<Longrightarrow> has_membership d (ch_id c) u \<Longrightarrow> gate d u (ch_id c) \<noteq> None"
  using gate_complete by blast

lemma gate_unique:
  assumes "unique_on ch_id (channels d)" and "c \<in> set (channels d)"
    and "\<not> ch_is_private c \<or> has_membership d (ch_id c) u"
  shows "gate d u (ch_id c) = Some c"
proof -
  obtain c' where c': "gate d u (ch_id c) = Some c'"
    using gate_complete [OF assms(2) refl assms(3)] by auto
  then have "c' \<in> set (channels d)" and "ch_id c' = ch_id c" using gate_sound by auto
  then have "c' = c" using assms(1,2) by (auto dest: unique_onD)
  with c' show ?thesis by simp
qed

end

interpretation acl: read_gate readable_channel
proof (unfold_locales, goal_cases)
  case (1 d u cid c)
  then show ?case
    by (auto simp: readable_channel_def readable_predicate_def dest: find_SomeD)
next
  case (2 c d cid u)
  then show ?case
    by (auto simp: readable_channel_def readable_predicate_def row_simps)
qed

lemma readable_channel_None_iff:
  "readable_channel d u cid = None \<longleftrightarrow>
     (\<forall>c \<in> set (channels d). ch_id c = cid \<longrightarrow> ch_is_private c \<and> \<not> has_membership d cid u)"
  by (auto simp: readable_channel_def readable_predicate_def row_simps)

section \<open>What a reader sees depends only on the readable part of the store\<close>

text \<open>The store with every channel the user cannot read taken out.\<close>

definition readable_part :: "ident \<Rightarrow> db \<Rightarrow> db" where
  "readable_part u d = d\<lparr>channels := filter (readable_predicate d u) (channels d)\<rparr>"

lemma readable_predicate_part [simp]:
  "readable_predicate (readable_part u d) u' c = readable_predicate d u' c"
  by (simp add: readable_part_def readable_predicate_def has_membership_def)

lemma find_filter_conj: "find P (filter Q xs) = find (\<lambda>x. P x \<and> Q x) xs"
  by (induction xs) auto

text \<open>Existence hiding.  Every ACL question a user can ask has the same answer on the
  store from which the channels they cannot read have been removed: nothing they receive
  depends on whether a private channel they are not in exists.\<close>

theorem acl_existence_hiding:
  "readable_channel (readable_part u d) u cid = readable_channel d u cid \<and>
   filter_readable_ids (readable_part u d) u cids = filter_readable_ids d u cids \<and>
   visible_channels (readable_part u d) u = visible_channels d u \<and>
   visible_channels_in_community (readable_part u d) u com =
     visible_channels_in_community d u com"
proof (intro conjI)
  show "readable_channel (readable_part u d) u cid = readable_channel d u cid"
    unfolding readable_channel_def readable_predicate_part
    by (simp add: readable_part_def find_filter_conj conj_ac)
  have sel: "filter P (channels (readable_part u d)) =
      filter (\<lambda>c. readable_predicate d u c \<and> P c) (channels d)" for P
    by (simp add: readable_part_def)
  have "set (map ch_id (filter (\<lambda>c. ch_id c \<in> set cids \<and> readable_predicate d u c)
          (channels (readable_part u d)))) =
        set (map ch_id (filter (\<lambda>c. ch_id c \<in> set cids \<and> readable_predicate d u c) (channels d)))"
    by (auto simp: readable_part_def)
  then show "filter_readable_ids (readable_part u d) u cids = filter_readable_ids d u cids"
    unfolding filter_readable_ids_def readable_predicate_part Let_def by presburger
  show "visible_channels (readable_part u d) u = visible_channels d u"
    unfolding visible_channels_def readable_predicate_part sel
    by (rule arg_cong [where f = "order_asc ch_id"], rule filter_cong) auto
  show "visible_channels_in_community (readable_part u d) u com =
      visible_channels_in_community d u com"
    unfolding visible_channels_in_community_def readable_predicate_part sel
    by (rule arg_cong [where f = "order_asc ch_id"], rule filter_cong) auto
qed

text \<open>The batched subscribe gate agrees with the single-channel gate, keeps the order
  and the multiplicity of the request, and drops the rest.\<close>

theorem filter_readable_ids_agrees:
  "filter_readable_ids d u cids = filter (\<lambda>cid. readable_channel d u cid \<noteq> None) cids"
proof -
  have "cid \<in> set (map ch_id (filter (\<lambda>c. ch_id c \<in> set cids \<and> readable_predicate d u c)
          (channels d))) \<longleftrightarrow> readable_channel d u cid \<noteq> None" if "cid \<in> set cids" for cid
    using that by (auto simp: readable_channel_def find_None_iff)
  then show ?thesis
    unfolding filter_readable_ids_def Let_def by (simp only: cong: filter_cong) simp
qed

lemma can_post_cases:
  "can_post d u c =
     (case get_membership d (ch_id c) u of
        None \<Rightarrow> \<not> ch_is_private c | Some m \<Rightarrow> mb_can_post m)"
  by (cases "get_membership d (ch_id c) u"; cases "ch_is_private c") (simp_all add: can_post_def)

text \<open>The three levels of access are nested on every channel: whoever may publish media
  may post, and whoever may post may read.\<close>

theorem access_levels_nested:
  "(is_posting_member d u c \<longrightarrow> can_post d u c) \<and> (can_post d u c \<longrightarrow> readable_predicate d u c)"
  unfolding can_post_cases is_posting_member_def readable_predicate_def
  by (cases "get_membership d (ch_id c) u") (auto dest: has_membershipI)

text \<open>The flat and the per-community listing are sorted, free of direct messages and made
  of readable channels only.\<close>

lemma visible_channels_spec:
  "sorted (map ch_id (visible_channels d u)) \<and>
   set (visible_channels d u) = {c \<in> set (channels d). readable_predicate d u c \<and> ch_kind c \<noteq> DM}"
  by (auto simp: visible_channels_def)

lemma visible_channels_in_community_subset:
  "set (visible_channels_in_community d u com) \<subseteq> set (visible_channels d u)"
  by (auto simp: visible_channels_def visible_channels_in_community_def)

end
