(* ===== verification/DirectMessages.thy ===== *)
theory DirectMessages
  imports Acl
begin

text \<open>
  Direct messages (\<^verbatim>\<open>domain/dm_service.py\<close>): the \<open>dm:lo:hi\<close> key of an unordered pair, its
  parser, and find-or-create of the channel that carries the pair.  \<open>get_or_create_dm\<close>
  takes, beside its arguments, the identifier and the instant the code mints, and \<open>race\<close>:
  what other sessions commit between the lookup of the key and the INSERT.  With
  \<open>race = id\<close> the call runs alone; an arbitrary \<open>race\<close> reaches the
  \<open>IntegrityError\<close> branch of the source.
\<close>

section \<open>The pair key\<close>

definition DM_CHANNEL_PREFIX :: string where
  "DM_CHANNEL_PREFIX = ''dm:''"

definition starts_with :: "string \<Rightarrow> string \<Rightarrow> bool" where
  "starts_with p s \<longleftrightarrow> take (length p) s = p"

definition is_dm_channel_name :: "string \<Rightarrow> bool" where
  "is_dm_channel_name aiko_channel \<longleftrightarrow> starts_with DM_CHANNEL_PREFIX aiko_channel"

definition canonical_peer_ids :: "string \<Rightarrow> ident \<Rightarrow> ident list option" where
  "canonical_peer_ids aiko_channel me_id =
     (if \<not> starts_with DM_CHANNEL_PREFIX aiko_channel then None
      else let ids = split_on (CHR '':'') (drop (length DM_CHANNEL_PREFIX) aiko_channel)
           in if length ids \<noteq> 2 \<or> \<not> list_all (\<lambda>uid. length uid = 26) ids then None
              else Some (sorted_set (filter (\<lambda>uid. uid \<noteq> me_id) ids)))"

definition canonical_aiko_channel :: "ident \<Rightarrow> ident \<Rightarrow> string" where
  "canonical_aiko_channel a b =
     (let (lo, hi) = (if a \<noteq> b then (min a b, max a b) else (a, a))
      in DM_CHANNEL_PREFIX @ lo @ '':'' @ hi)"

definition member_ids :: "ident \<Rightarrow> ident \<Rightarrow> ident list" where
  "member_ids me_id target_id = sorted_set [me_id, target_id]"

text \<open>A well-formed account id: 26 characters, none of them the separator.\<close>

definition ulid_shape :: "ident \<Rightarrow> bool" where
  "ulid_shape s \<longleftrightarrow> length s = 26 \<and> CHR '':'' \<notin> set s"

lemma canonical_aiko_channel_eq:
  "canonical_aiko_channel a b = ''dm:'' @ min a b @ '':'' @ max a b"
  by (simp add: canonical_aiko_channel_def DM_CHANNEL_PREFIX_def)

lemma is_dm_canonical [simp]: "is_dm_channel_name (canonical_aiko_channel a b)"
  by (simp add: canonical_aiko_channel_eq is_dm_channel_name_def starts_with_def
      DM_CHANNEL_PREFIX_def)

lemma is_dm_channel_name_iff: "is_dm_channel_name s \<longleftrightarrow> take 3 s = ''dm:''"
  by (simp add: is_dm_channel_name_def starts_with_def DM_CHANNEL_PREFIX_def numeral_3_eq_3)

text \<open>Round trip: parsing the minted key of a pair gives back the other member, and
  nobody for a note to self; the block gate of the send path can rely on it.\<close>

theorem dm_key_roundtrip:
  assumes "ulid_shape a" and "ulid_shape b"
  shows "canonical_peer_ids (canonical_aiko_channel a b) a = Some (if a = b then [] else [b])"
proof -
  have shape: "ulid_shape (min a b)" "ulid_shape (max a b)"
    using assms by (auto simp: min_def max_def)
  have split: "split_on (CHR '':'') (min a b @ '':'' @ max a b) = [min a b, max a b]"
    using shape by (simp add: ulid_shape_def split_on_sep split_on_free)
  have "filter (\<lambda>uid. uid \<noteq> a) [min a b, max a b] = (if a = b then [] else [b])"
    by (auto simp: min_def max_def)
  with split shape show ?thesis
    by (simp add: canonical_peer_ids_def canonical_aiko_channel_eq starts_with_def
        DM_CHANNEL_PREFIX_def ulid_shape_def sorted_set_def del: filter.simps)
qed

theorem dm_key_roundtrip_witness:
  "canonical_peer_ids (canonical_aiko_channel (replicate 26 CHR ''A'') (replicate 26 CHR ''B''))
     (replicate 26 CHR ''A'') = Some [replicate 26 CHR ''B'']"
proof -
  have "ulid_shape (replicate 26 CHR ''A'')" and "ulid_shape (replicate 26 CHR ''B'')"
    by (simp_all add: ulid_shape_def)
  from dm_key_roundtrip [OF this] show ?thesis by (simp add: numeral_eq_Suc)
qed

lemma dm_key_pair:
  assumes "ulid_shape a" and "ulid_shape b" and "ulid_shape a'" and "ulid_shape b'"
    and "canonical_aiko_channel a b = canonical_aiko_channel a' b'"
  shows "{a, b} = {a', b'}"
proof -
  have "length (min a b) = length (min a' b')"
    using assms(1-4) by (auto simp: min_def ulid_shape_def)
  with assms(5) have "min a b = min a' b'" and "max a b = max a' b'"
    by (auto simp: canonical_aiko_channel_eq)
  then show ?thesis by (auto simp: min_def max_def split: if_splits)
qed

lemma canonical_aiko_channel_sym: "canonical_aiko_channel b a = canonical_aiko_channel a b"
  by (simp add: canonical_aiko_channel_eq min.commute max.commute)

text \<open>The key names exactly the unordered pair: it is the same for both orders, and
  two pairs with the same key are the same pair.\<close>

theorem dm_key_injective:
  assumes "ulid_shape a" and "ulid_shape b" and "ulid_shape a'" and "ulid_shape b'"
  shows "canonical_aiko_channel a b = canonical_aiko_channel a' b' \<longleftrightarrow> {a, b} = {a', b'}"
proof
  assume "{a, b} = {a', b'}"
  then have "a' = a \<and> b' = b \<or> a' = b \<and> b' = a" by (auto simp: doubleton_eq_iff)
  then show "canonical_aiko_channel a b = canonical_aiko_channel a' b'"
    using canonical_aiko_channel_sym by metis
qed (rule dm_key_pair [OF assms])

text \<open>A malformed key never yields a peer list: the send path refuses.\<close>

lemma canonical_peer_ids_shape:
  "canonical_peer_ids k me = Some ps \<Longrightarrow>
     is_dm_channel_name k \<and> length ps \<le> 2 \<and> (\<forall>p \<in> set ps. length p = 26 \<and> p \<noteq> me)"
proof -
  assume "canonical_peer_ids k me = Some ps"
  then obtain ids where ids: "length ids = 2" "list_all (\<lambda>uid. length uid = 26) ids"
      "starts_with DM_CHANNEL_PREFIX k" "ps = sorted_set (filter (\<lambda>uid. uid \<noteq> me) ids)"
    by (auto simp: canonical_peer_ids_def Let_def split: if_splits)
  have "length ps \<le> length (filter (\<lambda>uid. uid \<noteq> me) ids)"
    unfolding ids(4) sorted_set_def by (simp add: length_remdups_leq)
  also have "\<dots> \<le> 2" using ids(1) length_filter_le by metis
  finally show ?thesis using ids(2-4) by (auto simp: is_dm_channel_name_def list_all_iff)
qed

section \<open>Find or create\<close>

datatype dm_error = TargetNotFound | DmKeyCollision | DmIntegrityError

definition get_user :: "db \<Rightarrow> ident \<Rightarrow> user option" where
  "get_user d user_id = find (\<lambda>u. u_id u = user_id) (users d)"

definition channel_by_aiko :: "db \<Rightarrow> string \<Rightarrow> channel option" where
  "channel_by_aiko d aiko_channel = find (\<lambda>c. ch_aiko_channel c = aiko_channel) (channels d)"

definition members_of :: "db \<Rightarrow> ident \<Rightarrow> ident list" where
  "members_of d channel_id =
     sort (map mb_user_id (filter (\<lambda>m. mb_channel_id m = channel_id) (memberships d)))"

definition members_of_many :: "db \<Rightarrow> ident list \<Rightarrow> (ident \<rightharpoonup> ident list)" where
  "members_of_many d channel_ids =
     (let rows = filter (\<lambda>m. mb_channel_id m \<in> set channel_ids) (memberships d)
      in (\<lambda>cid. if cid \<in> set channel_ids
            then Some (sort (map mb_user_id (filter (\<lambda>m. mb_channel_id m = cid) rows)))
            else None))"

definition plain_member :: "instant \<Rightarrow> ident \<Rightarrow> ident \<Rightarrow> membership" where
  "plain_member now cid uid = \<lparr>mb_channel_id = cid, mb_user_id = uid, mb_role = MEMBER,
     mb_can_post = True, mb_joined_at = now\<rparr>"

definition ensure_step :: "instant \<Rightarrow> ident \<Rightarrow> ident list \<Rightarrow> ident \<Rightarrow> db \<Rightarrow> db" where
  "ensure_step now cid present uid d =
     (if uid \<in> set present then d
      else case insert_membership (plain_member now cid uid) d of Inl _ \<Rightarrow> d | Inr d' \<Rightarrow> d')"

definition ensure_memberships :: "instant \<Rightarrow> ident \<Rightarrow> ident list \<Rightarrow> db \<Rightarrow> db" where
  "ensure_memberships now cid uids d =
     (let present = map mb_user_id
        (filter (\<lambda>m. mb_channel_id m = cid \<and> mb_user_id m \<in> set uids) (memberships d))
      in fold (ensure_step now cid present) uids d)"

definition dm_channel :: "instant \<Rightarrow> ident \<Rightarrow> string \<Rightarrow> channel" where
  "dm_channel now new_id aiko_channel = \<lparr>ch_id = new_id, ch_name = aiko_channel, ch_kind = DM,
     ch_aiko_channel = aiko_channel, ch_is_private = True, ch_join_policy = INVITE_ONLY,
     ch_community_id = None, ch_created_at = now\<rparr>"

fun insert_memberships :: "membership list \<Rightarrow> db \<Rightarrow> db_error + db" where
  "insert_memberships [] d = Inr d"
| "insert_memberships (m # ms) d =
     (case insert_membership m d of Inl e \<Rightarrow> Inl e | Inr d' \<Rightarrow> insert_memberships ms d')"

definition create_dm :: "instant \<Rightarrow> ident \<Rightarrow> string \<Rightarrow> ident list \<Rightarrow> db \<Rightarrow> db_error + db" where
  "create_dm now new_id aiko_channel uids d =
     (case insert_channel (dm_channel now new_id aiko_channel) d of
        Inl e \<Rightarrow> Inl e
      | Inr d' \<Rightarrow> insert_memberships (map (plain_member now new_id) uids) d')"

definition adopt_dm ::
  "instant \<Rightarrow> ident \<Rightarrow> channel \<Rightarrow> db \<Rightarrow> dm_error + ((channel \<times> ident list) \<times> db)" where
  "adopt_dm now me_id c d =
     (if ch_kind c \<noteq> DM then Inl DmKeyCollision
      else let d' = ensure_memberships now (ch_id c) [me_id] d
           in Inr ((c, members_of d' (ch_id c)), d'))"

definition get_or_create_dm :: "(db \<Rightarrow> db) \<Rightarrow> instant \<Rightarrow> ident \<Rightarrow> ident \<Rightarrow> ident \<Rightarrow> db \<Rightarrow>
    dm_error + ((channel \<times> ident list) \<times> db)" where
  "get_or_create_dm race now new_id me_id target_user_id d =
     (case get_user d target_user_id of
        None \<Rightarrow> Inl TargetNotFound
      | Some _ \<Rightarrow>
          let aiko_channel = canonical_aiko_channel me_id target_user_id;
              uids = member_ids me_id target_user_id
          in case channel_by_aiko d aiko_channel of
               Some c \<Rightarrow> adopt_dm now me_id c d
             | None \<Rightarrow>
                 (case create_dm now new_id aiko_channel uids (race d) of
                    Inr d' \<Rightarrow> Inr ((dm_channel now new_id aiko_channel, members_of d' new_id), d')
                  | Inl _ \<Rightarrow>
                      (case channel_by_aiko (race d) aiko_channel of
                         None \<Rightarrow> Inl DmIntegrityError
                       | Some winner \<Rightarrow> adopt_dm now me_id winner (race d))))"

definition list_dms :: "db \<Rightarrow> ident \<Rightarrow> channel list" where
  "list_dms d viewer_id =
     order_desc ch_id (filter (\<lambda>c. ch_kind c = DM \<and> has_membership d (ch_id c) viewer_id)
       (channels d))"

section \<open>Lemmas\<close>

lemma dm_channel_sel [simp]:
  "ch_id (dm_channel now i k) = i" "ch_kind (dm_channel now i k) = DM"
  "ch_aiko_channel (dm_channel now i k) = k" "ch_is_private (dm_channel now i k)"
  by (simp_all add: dm_channel_def)

lemma dm_channel_checks [simp]: "is_dm_channel_name k \<Longrightarrow> channel_checks (dm_channel now i k)"
  by (simp add: channel_checks_def dm_channel_def is_dm_channel_name_iff)

lemma channel_checks_dm_iff: "channel_checks c \<Longrightarrow> ch_kind c = DM \<longleftrightarrow> is_dm_channel_name (ch_aiko_channel c)"
  by (auto simp: channel_checks_def is_dm_channel_name_iff)

lemma insert_membership_channels: "insert_membership m d = Inr d' \<Longrightarrow> channels d' = channels d"
  by (auto simp: insert_membership_def split: if_splits)

lemma insert_membership_has:
  "insert_membership m d = Inr d' \<Longrightarrow>
     has_membership d' cid uid \<longleftrightarrow> has_membership d cid uid \<or> (cid, uid) = mb_key m"
  by (auto simp: insert_membership_def has_membership_iff split: if_splits)

lemma ensure_step_facts:
  "channels (ensure_step now cid ps uid d) = channels d \<and>
   (schema_ok d \<longrightarrow> schema_ok (ensure_step now cid ps uid d)) \<and>
   (has_membership (ensure_step now cid ps uid d) c u \<longleftrightarrow>
      has_membership d c u \<or> (c = cid \<and> u = uid \<and> uid \<notin> set ps))"
proof (cases "uid \<in> set ps")
  case True then show ?thesis by (simp add: ensure_step_def)
next
  case False
  show ?thesis
  proof (cases "insert_membership (plain_member now cid uid) d")
    case (Inl e)
    then have "has_membership d cid uid"
      by (auto simp: insert_membership_def list_ex_iff has_membership_def mb_key_def
          plain_member_def split: if_splits)
    with Inl False show ?thesis by (auto simp: ensure_step_def)
  next
    case (Inr d')
    with False show ?thesis
      by (auto simp: ensure_step_def insert_membership_has [OF Inr] mb_key_def plain_member_def
          insert_membership_channels [OF Inr] intro: insert_membership_ok)
  qed
qed

lemma ensure_memberships_one:
  "channels (ensure_memberships now cid [uid] d) = channels d"
  "schema_ok d \<Longrightarrow> schema_ok (ensure_memberships now cid [uid] d)"
  "has_membership (ensure_memberships now cid [uid] d) c u \<longleftrightarrow>
     has_membership d c u \<or> (c = cid \<and> u = uid)"
  using ensure_step_facts [of now cid _ uid d c u]
  by (auto simp: ensure_memberships_def Let_def has_membership_def list_ex_iff)

lemma members_of_set: "set (members_of d cid) = {u. has_membership d cid u}"
  by (force simp: members_of_def has_membership_def list_ex_iff)

lemma channel_by_aiko_SomeD:
  "channel_by_aiko d k = Some c \<Longrightarrow> c \<in> set (channels d) \<and> ch_aiko_channel c = k"
  by (auto simp: channel_by_aiko_def dest: find_SomeD)

lemma channel_by_aiko_unique:
  "unique_on ch_aiko_channel (channels d) \<Longrightarrow> c \<in> set (channels d) \<Longrightarrow>
     channel_by_aiko d (ch_aiko_channel c) = Some c"
  unfolding channel_by_aiko_def by (rule find_unique)

lemma insert_memberships_spec:
  assumes "distinct (map mb_key ms)" and "\<forall>m \<in> set ms. \<not> has_membership d (mb_channel_id m) (mb_user_id m)"
  shows "insert_memberships ms d = Inr (d\<lparr>memberships := memberships d @ ms\<rparr>)"
  using assms
proof (induction ms arbitrary: d)
  case (Cons m ms)
  have ins: "insert_membership m d = Inr (d\<lparr>memberships := memberships d @ [m]\<rparr>)"
    using Cons.prems(2) by (auto simp: insert_membership_def list_ex_iff has_membership_def mb_key_def)
  have "\<forall>m' \<in> set ms. \<not> has_membership (d\<lparr>memberships := memberships d @ [m]\<rparr>)
      (mb_channel_id m') (mb_user_id m')"
    using Cons.prems by (auto simp: has_membership_def mb_key_def image_iff)
  with Cons ins show ?case by simp
qed simp

lemma insert_memberships_ok: "insert_memberships ms d = Inr d' \<Longrightarrow> schema_ok d \<Longrightarrow> schema_ok d'"
  by (induction ms arbitrary: d) (auto split: sum.splits dest: insert_membership_ok)

lemma adopt_dm_spec:
  assumes "schema_ok d" and "channel_by_aiko d (canonical_aiko_channel a b) = Some c"
  obtains d' where "adopt_dm now me c d = Inr ((c, members_of d' (ch_id c)), d')"
    and "d' = ensure_memberships now (ch_id c) [me] d" and "ch_kind c = DM"
proof -
  have "channel_checks c" and "is_dm_channel_name (ch_aiko_channel c)"
    using assms channel_by_aiko_SomeD [OF assms(2)] by (auto simp: schema_okD)
  then have "ch_kind c = DM" by (simp add: channel_checks_dm_iff)
  with that show thesis by (simp add: adopt_dm_def Let_def)
qed

text \<open>No row of the store names an identifier that has not been minted yet.\<close>

definition fresh_channel_id :: "ident \<Rightarrow> db \<Rightarrow> bool" where
  "fresh_channel_id i d \<longleftrightarrow> (\<forall>c \<in> set (channels d). ch_id c \<noteq> i) \<and> (\<forall>u. \<not> has_membership d i u)"

lemma create_dm_spec:
  assumes "schema_ok d" and "fresh_channel_id i d" and "channel_by_aiko d k = None"
    and "is_dm_channel_name k" and "distinct uids"
  shows "create_dm now i k uids d =
     Inr (d\<lparr>channels := channels d @ [dm_channel now i k],
            memberships := memberships d @ map (plain_member now i) uids\<rparr>)"
proof -
  let ?d = "d\<lparr>channels := channels d @ [dm_channel now i k]\<rparr>"
  have "insert_channel (dm_channel now i k) d = Inr ?d"
    using assms(2-4) by (auto simp: insert_channel_def list_ex_iff fresh_channel_id_def
        channel_by_aiko_def dm_channel_checks row_simps)
  moreover have "insert_memberships (map (plain_member now i) uids) ?d =
      Inr (?d\<lparr>memberships := memberships ?d @ map (plain_member now i) uids\<rparr>)"
  proof (rule insert_memberships_spec)
    show "distinct (map mb_key (map (plain_member now i) uids))"
      using assms(5) by (simp add: comp_def mb_key_def plain_member_def distinct_map inj_on_def)
    show "\<forall>m \<in> set (map (plain_member now i) uids).
        \<not> has_membership ?d (mb_channel_id m) (mb_user_id m)"
      using assms(2) by (auto simp: fresh_channel_id_def has_membership_def plain_member_def)
  qed
  ultimately show ?thesis by (simp add: create_dm_def)
qed

lemma create_dm_ok: "create_dm now i k uids d = Inr d' \<Longrightarrow> schema_ok d \<Longrightarrow> schema_ok d'"
  by (auto simp: create_dm_def split: sum.splits dest: insert_channel_ok insert_memberships_ok)

lemma members_of_many_eq:
  "members_of_many d cids cid = (if cid \<in> set cids then Some (members_of d cid) else None)"
  by (auto simp: members_of_many_def members_of_def Let_def
      intro!: arg_cong [where f = sort] arg_cong [where f = "map mb_user_id"] filter_cong)

lemma dm_converges:
  assumes "schema_ok d" and "schema_ok (race d)" and "fresh_channel_id i (race d)"
    and "get_user d target \<noteq> None"
  shows "\<exists>c ms d'. get_or_create_dm race now i me target d = Inr ((c, ms), d') \<and>
    schema_ok d' \<and> ch_kind c = DM \<and> ch_aiko_channel c = canonical_aiko_channel me target \<and>
    channel_by_aiko d' (canonical_aiko_channel me target) = Some c \<and>
    me \<in> set ms \<and> set ms = {u. has_membership d' (ch_id c) u}"
proof -
  let ?k = "canonical_aiko_channel me target"
  have adopted: "\<exists>ms d'. adopt_dm now me c e = Inr ((c, ms), d') \<and> schema_ok d' \<and> ch_kind c = DM \<and>
      ch_aiko_channel c = ?k \<and> channel_by_aiko d' ?k = Some c \<and> me \<in> set ms \<and>
      set ms = {u. has_membership d' (ch_id c) u}"
    if ok: "schema_ok e" and found: "channel_by_aiko e ?k = Some c" for c e
  proof -
    obtain d' where d': "adopt_dm now me c e = Inr ((c, members_of d' (ch_id c)), d')"
        "d' = ensure_memberships now (ch_id c) [me] e" "ch_kind c = DM"
      using adopt_dm_spec [OF ok found] by metis
    have "has_membership d' (ch_id c) me" and "schema_ok d'" and "channels d' = channels e"
      using d'(2) ok by (simp_all add: ensure_memberships_one)
    with d' found channel_by_aiko_SomeD [OF found] show ?thesis
      by (auto simp: members_of_set channel_by_aiko_def)
  qed
  obtain u where u: "get_user d target = Some u" using assms(4) by auto
  show ?thesis
  proof (cases "channel_by_aiko d ?k")
    case (Some c)
    with u adopted [OF assms(1) Some] show ?thesis by (auto simp: get_or_create_dm_def)
  next
    case no: None
    show ?thesis
    proof (cases "channel_by_aiko (race d) ?k")
      case (Some c)
      have "create_dm now i ?k (member_ids me target) (race d) = Inl IntegrityError"
        using channel_by_aiko_SomeD [OF Some]
        by (auto simp: create_dm_def insert_channel_def list_ex_iff dm_channel_def)
      with u no Some adopted [OF assms(2) Some] show ?thesis by (auto simp: get_or_create_dm_def)
    next
      case None
      let ?c = "dm_channel now i ?k"
      let ?d' = "(race d)\<lparr>channels := channels (race d) @ [?c],
        memberships := memberships (race d) @ map (plain_member now i) (member_ids me target)\<rparr>"
      have cr: "create_dm now i ?k (member_ids me target) (race d) = Inr ?d'"
        using assms(2,3) None by (intro create_dm_spec) (simp_all add: member_ids_def)
      have "channel_by_aiko ?d' ?k = Some ?c"
        using None by (auto simp: channel_by_aiko_def find_append dm_channel_def)
      moreover have "has_membership ?d' i me"
        by (simp add: has_membership_def plain_member_def member_ids_def list_ex_iff)
      moreover have "schema_ok ?d'" using create_dm_ok [OF cr assms(2)] .
      moreover have "get_or_create_dm race now i me target d = Inr ((?c, members_of ?d' i), ?d')"
        using u no cr by (simp add: get_or_create_dm_def Let_def)
      ultimately show ?thesis
        by (intro exI [of _ ?c] exI [of _ "members_of ?d' i"] exI [of _ ?d'])
          (simp add: members_of_set dm_channel_sel del: ex_simps)
    qed
  qed
qed

lemmas dm_converges_id = dm_converges [where race = id, simplified id_apply]

section \<open>Properties\<close>

text \<open>C2: whatever other sessions commit between the lookup and the insert, opening a
  direct message with an existing account returns a channel of kind DM that carries the
  pair's key, is the only channel with that key, and has the caller as a member; the
  constraints of the schema hold afterwards.  In particular neither the key collision
  nor the re-raised integrity error can occur.\<close>

theorem get_or_create_dm_converges:
  assumes "schema_ok d" and "schema_ok (race d)" and "fresh_channel_id i (race d)"
    and "get_user d target \<noteq> None"
  shows "\<exists>c ms d'. get_or_create_dm race now i me target d = Inr ((c, ms), d') \<and>
    schema_ok d' \<and> ch_kind c = DM \<and> ch_aiko_channel c = canonical_aiko_channel me target \<and>
    channel_by_aiko d' (canonical_aiko_channel me target) = Some c \<and>
    me \<in> set ms \<and> set ms = {u. has_membership d' (ch_id c) u}"
  using assms by (rule dm_converges)

definition ex_user :: "ident \<Rightarrow> user" where
  "ex_user i = \<lparr>u_id = i, u_username = i, u_display_name = i, u_password_hash = None,
     u_aiko_username = i, u_email = None, u_created_at = 0, u_banned_at = None,
     u_token_generation = 0, u_handle_changed_at = None, u_handle_assigned = False,
     u_kind = HUMAN\<rparr>"

definition ex_two_users :: db where
  "ex_two_users = empty_db\<lparr>users := [ex_user ''a'', ex_user ''b'']\<rparr>"

lemma ex_two_users_ok: "schema_ok ex_two_users" "fresh_channel_id ''c'' ex_two_users"
    "get_user ex_two_users ''b'' \<noteq> None" "get_user ex_two_users ''a'' \<noteq> None"
  by (simp_all add: schema_ok_def ex_two_users_def empty_db_def ex_user_def fresh_channel_id_def
      has_membership_def get_user_def)

theorem get_or_create_dm_converges_witness:
  "\<exists>c ms d'. get_or_create_dm id 0 ''c'' ''a'' ''b'' ex_two_users = Inr ((c, ms), d') \<and>
     schema_ok d' \<and> ch_kind c = DM \<and> ch_aiko_channel c = ''dm:a:b'' \<and> ''a'' \<in> set ms"
proof -
  have k: "canonical_aiko_channel ''a'' ''b'' = ''dm:a:b''"
    by (simp add: canonical_aiko_channel_eq min_def max_def)
  have "schema_ok (id ex_two_users)" and "fresh_channel_id ''c'' (id ex_two_users)"
    by (simp_all add: ex_two_users_ok)
  from get_or_create_dm_converges [where race = id and me = "''a''" and now = 0,
      OF ex_two_users_ok(1) this ex_two_users_ok(3)]
  show ?thesis unfolding k by blast
qed

text \<open>Once a pair's channel exists, either member opening the direct message again gets
  that same channel, whatever identifier or instant the call would have minted, and no
  channel is added: the pair has one direct message for good.\<close>

theorem get_or_create_dm_idempotent:
  assumes "schema_ok d" and "channel_by_aiko d (canonical_aiko_channel a b) = Some c"
    and "get_user d a \<noteq> None" and "get_user d b \<noteq> None"
  shows "(\<exists>ms d'. get_or_create_dm race now i a b d = Inr ((c, ms), d') \<and> channels d' = channels d) \<and>
    (\<exists>ms d'. get_or_create_dm race now i b a d = Inr ((c, ms), d') \<and> channels d' = channels d)"
proof -
  note sym = canonical_aiko_channel_sym [of b a]
  have step: "\<exists>ms d'. adopt_dm now me c d = Inr ((c, ms), d') \<and> channels d' = channels d" for me
    using adopt_dm_spec [OF assms(1,2), of now me] by (metis ensure_memberships_one(1))
  from step [of a] step [of b] show ?thesis
    using assms by (auto simp: get_or_create_dm_def sym)
qed

definition ex_dm_db :: db where
  "ex_dm_db = ex_two_users\<lparr>channels := [dm_channel 0 ''c'' ''dm:a:b''],
     memberships := [plain_member 0 ''c'' ''a'', plain_member 0 ''c'' ''b'']\<rparr>"

lemma ex_dm_db_ok: "schema_ok ex_dm_db"
    "channel_by_aiko ex_dm_db (canonical_aiko_channel ''a'' ''b'') = Some (dm_channel 0 ''c'' ''dm:a:b'')"
    "get_user ex_dm_db ''a'' \<noteq> None" "get_user ex_dm_db ''b'' \<noteq> None"
  by (simp_all add: schema_ok_def ex_two_users_def empty_db_def ex_user_def ex_dm_db_def get_user_def
      mb_key_def plain_member_def channel_checks_def dm_channel_def channel_by_aiko_def
      canonical_aiko_channel_eq min_def max_def numeral_3_eq_3)

text \<open>Re-opening never brings a member back: on the adopt path the only membership that
  can appear is the caller's own, so a peer who left stays out until they come back
  themselves.\<close>

theorem reopen_never_reinjects_peer:
  assumes "schema_ok d" and "channel_by_aiko d (canonical_aiko_channel me target) = Some c"
    and "get_or_create_dm race now i me target d = Inr (r, d')"
  shows "has_membership d' cid u \<longleftrightarrow> has_membership d cid u \<or> (cid = ch_id c \<and> u = me)"
proof -
  obtain d'' where "adopt_dm now me c d = Inr ((c, members_of d'' (ch_id c)), d'')"
      "d'' = ensure_memberships now (ch_id c) [me] d"
    using adopt_dm_spec [OF assms(1,2)] by metis
  with assms(2,3) have "d' = ensure_memberships now (ch_id c) [me] d"
    by (auto simp: get_or_create_dm_def split: option.splits)
  then show ?thesis by (simp add: ensure_memberships_one)
qed

definition ex_dm_left :: db where
  "ex_dm_left = ex_two_users\<lparr>channels := [dm_channel 0 ''c'' ''dm:a:b''],
     memberships := [plain_member 0 ''c'' ''a'']\<rparr>"

end
