(* ===== verification/Reactions.thy ===== *)
theory Reactions
  imports Model
begin

text \<open>Emoji reactions (\<open>domain/reactions_service.py\<close>): validation of the opaque token,
  add and remove, the per-viewer count, and the page aggregate with its caps. An emoji is
  its list of Unicode code points, so the order Python sorts by is the list order. The
  operations run as single steps; the clock is an argument.\<close>

section \<open>Definitions\<close>

type_synonym emoji = "nat list"

definition MAX_EMOJI_LEN :: nat where "MAX_EMOJI_LEN = 64"
definition MAX_REACTIONS_PER_USER_PER_MESSAGE :: nat where "MAX_REACTIONS_PER_USER_PER_MESSAGE = 20"
definition MAX_EMOJIS_PROJECTED_PER_MESSAGE :: nat where "MAX_EMOJIS_PROJECTED_PER_MESSAGE = 50"
definition MAX_REACTORS_PROJECTED_PER_EMOJI :: nat where "MAX_REACTORS_PROJECTED_PER_EMOJI = 20"

datatype reaction_error = InvalidEmoji | ReactionLimitExceeded

text \<open>The code points \<open>str.strip()\<close> removes.\<close>

definition uspace :: "nat \<Rightarrow> bool" where
  "uspace c \<longleftrightarrow> 9 \<le> c \<and> c \<le> 13 \<or> 28 \<le> c \<and> c \<le> 32 \<or> c = 133 \<or> c = 160 \<or> c = 5760 \<or>
     8192 \<le> c \<and> c \<le> 8202 \<or> c = 8232 \<or> c = 8233 \<or> c = 8239 \<or> c = 8287 \<or> c = 12288"

definition ustrip :: "nat list \<Rightarrow> nat list" where
  "ustrip s = rev (dropWhile uspace (rev (dropWhile uspace s)))"

text \<open>The first branch, a value that is not a string, is the \<open>None\<close> here.\<close>

definition validate_emoji :: "emoji option \<Rightarrow> reaction_error + emoji" where
  "validate_emoji emoji =
     (case emoji of
        None \<Rightarrow> Inl InvalidEmoji
      | Some e \<Rightarrow>
          if e = [] \<or> e \<noteq> ustrip e then Inl InvalidEmoji
          else if length e > MAX_EMOJI_LEN then Inl InvalidEmoji
          else if 47 \<in> set e \<or> list_ex (\<lambda>ch. ch < 32 \<or> ch = 127) e then Inl InvalidEmoji
          else Inr e)"

definition get_reaction :: "db \<Rightarrow> ident \<Rightarrow> ident \<Rightarrow> emoji \<Rightarrow> message_reaction option" where
  "get_reaction d message_id user_id emoji =
     find (\<lambda>r. re_key r = (message_id, user_id, emoji)) (message_reactions d)"

definition emoji_count :: "db \<Rightarrow> ident \<Rightarrow> emoji \<Rightarrow> ident list \<Rightarrow> nat" where
  "emoji_count d message_id emoji blocked_user_ids =
     rowcount (\<lambda>r. re_message_id r = message_id \<and> re_emoji r = emoji \<and>
       re_user_id r \<notin> set blocked_user_ids) (message_reactions d)"

text \<open>\<open>SELECT count(DISTINCT emoji)\<close> of one user on one message.\<close>

definition distinct_emojis :: "db \<Rightarrow> ident \<Rightarrow> ident \<Rightarrow> nat" where
  "distinct_emojis d message_id user_id =
     length (remdups (map re_emoji
       (filter (\<lambda>r. re_message_id r = message_id \<and> re_user_id r = user_id) (message_reactions d))))"

text \<open>\<open>INSERT .. ON CONFLICT\<close>: a signed add fills a NULL origin, an unsigned one leaves the
  row alone.\<close>

definition upsert_reaction :: "message_reaction \<Rightarrow> db \<Rightarrow> db" where
  "upsert_reaction row d =
     (if list_ex (\<lambda>r. re_key r = re_key row) (message_reactions d)
      then (if re_origin row \<noteq> None
            then d\<lparr>message_reactions := upd_where (\<lambda>r. re_key r = re_key row \<and> re_origin r = None)
                   (\<lambda>r. r\<lparr>re_origin := re_origin row\<rparr>) (message_reactions d)\<rparr>
            else d)
      else d\<lparr>message_reactions := message_reactions d @ [row]\<rparr>)"

definition add_reaction :: "instant \<Rightarrow> ident \<Rightarrow> ident \<Rightarrow> emoji \<Rightarrow> json option \<Rightarrow> db \<Rightarrow>
    reaction_error + (bool \<times> db)" where
  "add_reaction now user_id message_id emoji origin d =
     (case validate_emoji (Some emoji) of
        Inl e \<Rightarrow> Inl e
      | Inr emoji \<Rightarrow>
          let exists = get_reaction d message_id user_id emoji
          in if exists = None \<and> distinct_emojis d message_id user_id \<ge> MAX_REACTIONS_PER_USER_PER_MESSAGE
             then Inl ReactionLimitExceeded
             else Inr (exists = None,
                    upsert_reaction \<lparr>re_message_id = message_id, re_user_id = user_id, re_emoji = emoji,
                      re_origin = origin, re_created_at = now\<rparr> d))"

definition persisted_origin :: "db \<Rightarrow> ident \<Rightarrow> ident \<Rightarrow> emoji \<Rightarrow> json option" where
  "persisted_origin d message_id user_id emoji =
     (case get_reaction d message_id user_id emoji of None \<Rightarrow> None | Some row \<Rightarrow> re_origin row)"

definition remove_reaction :: "ident \<Rightarrow> ident \<Rightarrow> emoji \<Rightarrow> db \<Rightarrow> reaction_error + (bool \<times> db)" where
  "remove_reaction user_id message_id emoji d =
     (case validate_emoji (Some emoji) of
        Inl e \<Rightarrow> Inl e
      | Inr emoji \<Rightarrow>
          let hit = (\<lambda>r. re_message_id r = message_id \<and> re_user_id r = user_id \<and> re_emoji r = emoji)
          in Inr (rowcount hit (message_reactions d) > 0,
                  d\<lparr>message_reactions := del_where hit (message_reactions d)\<rparr>))"

text \<open>One line of the aggregate; a reactor is a user and the signature, when there is one.\<close>

record reaction_line =
  rl_emoji :: emoji
  rl_count :: nat
  rl_reacted_by_me :: bool
  rl_reactors :: "(ident \<times> json option) list"

definition counted_rows :: "db \<Rightarrow> ident \<Rightarrow> ident list \<Rightarrow> message_reaction list" where
  "counted_rows d message_id blocked_user_ids =
     filter (\<lambda>r. re_message_id r = message_id \<and> re_user_id r \<notin> set blocked_user_ids) (message_reactions d)"

definition count_of :: "db \<Rightarrow> ident \<Rightarrow> ident list \<Rightarrow> emoji \<Rightarrow> nat" where
  "count_of d message_id blocked e = rowcount (\<lambda>r. re_emoji r = e) (counted_rows d message_id blocked)"

text \<open>The sort key \<open>(-count, emoji)\<close>, as two stable sorts.\<close>

definition by_count :: "(emoji \<Rightarrow> nat) \<Rightarrow> emoji list \<Rightarrow> emoji list" where
  "by_count n es = sort_key (\<lambda>e. - int (n e)) (sort es)"

definition mine_of :: "db \<Rightarrow> ident \<Rightarrow> ident \<Rightarrow> emoji \<Rightarrow> message_reaction option" where
  "mine_of d message_id viewer_id e = get_reaction d message_id viewer_id e"

definition projected :: "db \<Rightarrow> ident \<Rightarrow> ident \<Rightarrow> ident list \<Rightarrow> emoji list" where
  "projected d message_id viewer_id blocked =
     (let emojis = by_count (count_of d message_id blocked)
            (remdups (map re_emoji (counted_rows d message_id blocked)));
          keep = take MAX_EMOJIS_PROJECTED_PER_MESSAGE emojis
      in keep @ filter (\<lambda>e. mine_of d message_id viewer_id e \<noteq> None \<and> e \<notin> set keep)
                  (drop MAX_EMOJIS_PROJECTED_PER_MESSAGE emojis))"

text \<open>\<open>row_number() OVER (PARTITION BY message, emoji ORDER BY created_at, user_id) <= 20\<close>.\<close>

definition sample :: "db \<Rightarrow> ident \<Rightarrow> ident list \<Rightarrow> emoji \<Rightarrow> (ident \<times> json option) list" where
  "sample d message_id blocked e =
     map (\<lambda>r. (re_user_id r, re_origin r))
       (take MAX_REACTORS_PROJECTED_PER_EMOJI
         (sort_key re_created_at (sort_key re_user_id
           (filter (\<lambda>r. re_emoji r = e) (counted_rows d message_id blocked)))))"

definition line_of :: "db \<Rightarrow> ident \<Rightarrow> ident \<Rightarrow> ident list \<Rightarrow> emoji \<Rightarrow> reaction_line" where
  "line_of d message_id viewer_id blocked e =
     (let reactors = sample d message_id blocked e;
          mine = mine_of d message_id viewer_id e;
          reacted_by_me = (mine \<noteq> None);
          reactors' = (if reacted_by_me \<and> \<not> list_ex (\<lambda>r. fst r = viewer_id) reactors
             then take (MAX_REACTORS_PROJECTED_PER_EMOJI - 1) reactors @ [(viewer_id, re_origin (the mine))]
             else reactors)
      in \<lparr>rl_emoji = e, rl_count = count_of d message_id blocked e, rl_reacted_by_me = reacted_by_me,
          rl_reactors = reactors'\<rparr>)"

text \<open>The dictionary of a page: a message without counted reactions has no entry.\<close>

definition aggregate_for_messages :: "db \<Rightarrow> ident list \<Rightarrow> ident \<Rightarrow> ident list \<Rightarrow>
    (ident \<rightharpoonup> reaction_line list)" where
  "aggregate_for_messages d message_ids viewer_id blocked = (\<lambda>m.
     if m \<in> set message_ids \<and> counted_rows d m blocked \<noteq> []
     then Some (sort_key (\<lambda>l. - int (rl_count l)) (sort_key rl_emoji
            (map (line_of d m viewer_id blocked) (projected d m viewer_id blocked))))
     else None)"

definition purge_user_reactions :: "ident \<Rightarrow> db \<Rightarrow> db" where
  "purge_user_reactions user_id d =
     d\<lparr>message_reactions := del_where (\<lambda>r. re_user_id r = user_id) (message_reactions d)\<rparr>"

definition purge_reactions_for_messages :: "ident list \<Rightarrow> db \<Rightarrow> db" where
  "purge_reactions_for_messages message_ids d =
     d\<lparr>message_reactions := del_where (\<lambda>r. re_message_id r \<in> set message_ids) (message_reactions d)\<rparr>"

section \<open>Lookups\<close>

lemma get_reaction_None_iff:
  "get_reaction d m u e = None \<longleftrightarrow> (m, u, e) \<notin> re_key ` set (message_reactions d)"
  by (auto simp: get_reaction_def row_simps image_iff)

lemma get_reaction_SomeD:
  "get_reaction d m u e = Some r \<Longrightarrow> r \<in> set (message_reactions d) \<and> re_message_id r = m \<and>
     re_user_id r = u \<and> re_emoji r = e"
  by (auto simp: get_reaction_def re_key_def dest: find_SomeD)

lemma set_counted_rows:
  "r \<in> set (counted_rows d m blocked) \<longleftrightarrow>
     r \<in> set (message_reactions d) \<and> re_message_id r = m \<and> re_user_id r \<notin> set blocked"
  by (auto simp: counted_rows_def)

lemma count_of_emoji_count: "count_of d m blocked e = emoji_count d m e blocked"
  unfolding count_of_def emoji_count_def counted_rows_def
  by (simp add: rowcount_def conj_ac)

lemma emoji_count_pos: "0 < emoji_count d m e blocked \<longleftrightarrow> e \<in> re_emoji ` set (counted_rows d m blocked)"
  by (auto simp: emoji_count_def rowcount_pos_iff set_counted_rows image_iff)

lemma set_by_count [simp]: "set (by_count n es) = set es"
  by (simp add: by_count_def)

lemma set_projected:
  "set (projected d m v blocked) \<subseteq> re_emoji ` set (counted_rows d m blocked)"
  and mine_projected: "e \<in> re_emoji ` set (counted_rows d m blocked) \<Longrightarrow> mine_of d m v e \<noteq> None \<Longrightarrow>
    e \<in> set (projected d m v blocked)"
proof -
  let ?es = "by_count (count_of d m blocked) (remdups (map re_emoji (counted_rows d m blocked)))"
  have es: "set ?es = re_emoji ` set (counted_rows d m blocked)" by simp
  have td: "set ?es = set (take n ?es) \<union> set (drop n ?es)" for n
    by (metis append_take_drop_id set_append)
  show "set (projected d m v blocked) \<subseteq> re_emoji ` set (counted_rows d m blocked)"
    unfolding projected_def Let_def es [symmetric] by (auto dest: in_set_takeD in_set_dropD)
  assume "e \<in> re_emoji ` set (counted_rows d m blocked)" "mine_of d m v e \<noteq> None"
  then show "e \<in> set (projected d m v blocked)"
    using td [of MAX_EMOJIS_PROJECTED_PER_MESSAGE] unfolding projected_def Let_def es [symmetric] by auto
qed

lemma sample_sound:
  "(u, o') \<in> set (sample d m blocked e) \<Longrightarrow>
     \<exists>r \<in> set (message_reactions d). re_message_id r = m \<and> re_emoji r = e \<and> re_user_id r = u \<and>
       re_origin r = o' \<and> u \<notin> set blocked"
  by (auto simp: sample_def set_counted_rows dest!: in_set_takeD)

lemma sample_bound: "length (sample d m blocked e) \<le> MAX_REACTORS_PROJECTED_PER_EMOJI"
  by (simp add: sample_def)

lemma line_of_correct:
  assumes "unique_on re_key (message_reactions d)" and "e \<in> re_emoji ` set (counted_rows d m blocked)"
    and l: "l = line_of d m v blocked e"
  shows "rl_emoji l = e \<and> rl_count l = emoji_count d m e blocked \<and> 0 < rl_count l \<and>
    (rl_reacted_by_me l \<longleftrightarrow> get_reaction d m v e \<noteq> None) \<and>
    (rl_reacted_by_me l \<longrightarrow> v \<in> fst ` set (rl_reactors l)) \<and>
    length (rl_reactors l) \<le> MAX_REACTORS_PROJECTED_PER_EMOJI \<and>
    (\<forall>(u, o') \<in> set (rl_reactors l). get_reaction d m u e \<noteq> None \<and> persisted_origin d m u e = o' \<and>
       (u \<in> set blocked \<longrightarrow> u = v))"
proof -
  have found: "get_reaction d m u e = Some r"
    if "r \<in> set (message_reactions d)" "re_message_id r = m" "re_emoji r = e" "re_user_id r = u" for r u
    unfolding get_reaction_def using find_unique [OF assms(1) that(1)] that by (simp add: re_key_def)
  have s: "get_reaction d m u e \<noteq> None \<and> persisted_origin d m u e = o' \<and> u \<notin> set blocked"
    if "(u, o') \<in> set (sample d m blocked e)" for u o'
    using sample_sound [OF that] found by (auto simp: persisted_origin_def)
  have st: "get_reaction d m u e \<noteq> None \<and> persisted_origin d m u e = o' \<and> u \<notin> set blocked"
    if "(u, o') \<in> set (take n (sample d m blocked e))" for u o' n
    using s in_set_takeD [OF that] by blast
  have bound: "length (take (MAX_REACTORS_PROJECTED_PER_EMOJI - 1) (sample d m blocked e) @ [x])
      \<le> MAX_REACTORS_PROJECTED_PER_EMOJI" for x
    by (simp add: MAX_REACTORS_PROJECTED_PER_EMOJI_def)
  have c: "rl_emoji l = e" "rl_count l = emoji_count d m e blocked" "rl_reacted_by_me l \<longleftrightarrow> get_reaction d m v e \<noteq> None"
    by (simp_all add: l line_of_def Let_def count_of_emoji_count mine_of_def)
  show ?thesis
  proof (cases "get_reaction d m v e \<noteq> None \<and> \<not> list_ex (\<lambda>r. fst r = v) (sample d m blocked e)")
    case True
    then have "rl_reactors l = take (MAX_REACTORS_PROJECTED_PER_EMOJI - 1) (sample d m blocked e)
        @ [(v, persisted_origin d m v e)]"
      by (auto simp: l line_of_def Let_def mine_of_def persisted_origin_def)
    with c True bound [of "(v, persisted_origin d m v e)"] st assms(2) show ?thesis
      by (fastforce simp: emoji_count_pos)
  next
    case False
    then have "rl_reactors l = sample d m blocked e"
      by (auto simp: l line_of_def Let_def mine_of_def)
    with c False sample_bound s assms(2) show ?thesis
      by (auto simp: emoji_count_pos list_ex_iff image_iff)
  qed
qed

section \<open>Properties\<close>

text \<open>The reaction summary of a page is truthful for its viewer. Every line carries the
  same count as the single-emoji query, at least one; it lists at most twenty reactors, each
  of whom really has that reaction with that signature, none of them blocked; the viewer's
  own reaction is flagged exactly when it exists and is then among the reactors shown; none
  of the viewer's emoji is lost to the cap; and lines are in descending order of count.\<close>

theorem reaction_page_correct:
  assumes "schema_ok d" and "v \<notin> set blocked"
    and "aggregate_for_messages d ms v blocked m = Some ls"
  shows "(\<forall>l \<in> set ls. rl_count l = emoji_count d m (rl_emoji l) blocked \<and> 0 < rl_count l \<and>
      length (rl_reactors l) \<le> MAX_REACTORS_PROJECTED_PER_EMOJI \<and>
      (\<forall>(u, o') \<in> set (rl_reactors l). u \<notin> set blocked \<and> get_reaction d m u (rl_emoji l) \<noteq> None \<and>
         persisted_origin d m u (rl_emoji l) = o') \<and>
      (rl_reacted_by_me l \<longleftrightarrow> get_reaction d m v (rl_emoji l) \<noteq> None) \<and>
      (rl_reacted_by_me l \<longrightarrow> v \<in> fst ` set (rl_reactors l))) \<and>
    (\<forall>e. get_reaction d m v e \<noteq> None \<longrightarrow> e \<in> rl_emoji ` set ls) \<and>
    sorted (rev (map rl_count ls))"
proof -
  have u: "unique_on re_key (message_reactions d)" using assms(1) by (rule schema_okD)
  have ls: "ls = sort_key (\<lambda>l. - int (rl_count l)) (sort_key rl_emoji
      (map (line_of d m v blocked) (projected d m v blocked)))"
    using assms(3) by (simp add: aggregate_for_messages_def split: if_splits)
  have set_ls: "set ls = line_of d m v blocked ` set (projected d m v blocked)" by (simp add: ls)
  have proj: "e \<in> re_emoji ` set (counted_rows d m blocked)" if "e \<in> set (projected d m v blocked)" for e
    using set_projected that by blast
  have lines: "\<forall>l \<in> set ls. rl_count l = emoji_count d m (rl_emoji l) blocked \<and> 0 < rl_count l \<and>
      length (rl_reactors l) \<le> MAX_REACTORS_PROJECTED_PER_EMOJI \<and>
      (\<forall>(u, o') \<in> set (rl_reactors l). u \<notin> set blocked \<and> get_reaction d m u (rl_emoji l) \<noteq> None \<and>
         persisted_origin d m u (rl_emoji l) = o') \<and>
      (rl_reacted_by_me l \<longleftrightarrow> get_reaction d m v (rl_emoji l) \<noteq> None) \<and>
      (rl_reacted_by_me l \<longrightarrow> v \<in> fst ` set (rl_reactors l))"
    unfolding set_ls using line_of_correct [OF u proj refl] assms(2) by fastforce
  have mine: "e \<in> rl_emoji ` set ls" if g: "get_reaction d m v e \<noteq> None" for e
  proof -
    obtain r where "get_reaction d m v e = Some r" using g by blast
    from get_reaction_SomeD [OF this] assms(2) have "e \<in> re_emoji ` set (counted_rows d m blocked)"
      by (auto simp: set_counted_rows image_iff)
    then have "e \<in> set (projected d m v blocked)" using g by (intro mine_projected) (simp_all add: mine_of_def)
    then show ?thesis unfolding set_ls image_image by (auto simp: line_of_def Let_def image_iff)
  qed
  have "sorted (map (\<lambda>l. - int (rl_count l)) ls)" unfolding ls by (rule sorted_sort_key)
  then have "sorted (rev (map rl_count ls))"
    by (simp add: sorted_wrt_rev sorted_wrt_map)
  with lines mine show ?thesis by blast
qed

definition ex_reaction :: "ident \<Rightarrow> message_reaction" where
  "ex_reaction u = \<lparr>re_message_id = ''m'', re_user_id = u, re_emoji = [128077], re_origin = None, re_created_at = 0\<rparr>"

definition ex_reactions :: db where
  "ex_reactions = empty_db\<lparr>message_reactions := [ex_reaction ''a'', ex_reaction ''b'', ex_reaction ''x'']\<rparr>"

text \<open>Adding a reaction is idempotent and signatures are write-once. After a successful
  add the reaction is there; the answer says whether it is new, and the count moves by
  exactly that; a signature already stored stays, an unsigned one is filled; no other
  reaction changes; and the per-user cap is kept.\<close>

theorem add_reaction_effect:
  assumes "schema_ok d" and "add_reaction now u m e orig d = Inr (changed, d')"
  shows "schema_ok d' \<and> (changed \<longleftrightarrow> get_reaction d m u e = None) \<and> get_reaction d' m u e \<noteq> None \<and>
    persisted_origin d' m u e = (case persisted_origin d m u e of None \<Rightarrow> orig | Some o' \<Rightarrow> Some o') \<and>
    emoji_count d' m e blocked = emoji_count d m e blocked + (if changed \<and> u \<notin> set blocked then 1 else 0) \<and>
    (\<forall>m' u' e'. (m', u', e') \<noteq> (m, u, e) \<longrightarrow> get_reaction d' m' u' e' = get_reaction d m' u' e') \<and>
    (changed \<longrightarrow> distinct_emojis d' m u \<le> MAX_REACTIONS_PER_USER_PER_MESSAGE)"
proof -
  let ?row = "\<lparr>re_message_id = m, re_user_id = u, re_emoji = e, re_origin = orig, re_created_at = now\<rparr>"
  have d': "d' = upsert_reaction ?row d" and ch: "changed \<longleftrightarrow> get_reaction d m u e = None"
    and cap: "changed \<Longrightarrow> distinct_emojis d m u < MAX_REACTIONS_PER_USER_PER_MESSAGE"
    using assms(2) by (auto simp: add_reaction_def validate_emoji_def Let_def split: if_splits)
  have k: "re_key ?row = (m, u, e)" by (simp add: re_key_def)
  show ?thesis
  proof (cases "get_reaction d m u e")
    case None
    then have new: "\<not> list_ex (\<lambda>r. re_key r = re_key ?row) (message_reactions d)"
      by (auto simp: get_reaction_None_iff list_ex_iff k image_iff)
    then have rows: "message_reactions d' = message_reactions d @ [?row]"
      by (simp add: d' upsert_reaction_def)
    have "schema_ok d'"
      using assms(1) new by (simp add: d' upsert_reaction_def schema_ok_def list_ex_iff k)
    moreover have "distinct_emojis d' m u \<le> Suc (distinct_emojis d m u)"
      by (simp add: distinct_emojis_def rows length_remdups_card_conv card_insert_if)
    ultimately show ?thesis using None ch cap
      by (auto simp: get_reaction_def persisted_origin_def rows find_append emoji_count_def k re_key_def
          split: option.splits)
  next
    case (Some r)
    then have ex: "list_ex (\<lambda>r. re_key r = re_key ?row) (message_reactions d)"
      using get_reaction_None_iff [of d m u e] by (auto simp: list_ex_iff k image_iff)
    let ?P = "\<lambda>r. re_key r = (m, u, e) \<and> re_origin r = None" and ?f = "\<lambda>r. r\<lparr>re_origin := orig\<rparr>"
    have rows: "message_reactions d' = (if orig = None then message_reactions d
        else upd_where ?P ?f (message_reactions d))"
      using ex by (simp add: d' upsert_reaction_def k)
    have key: "re_key (?f r) = re_key r" for r by (simp add: re_key_def)
    have get: "get_reaction d' m' u' e' = map_option (\<lambda>r. if orig \<noteq> None \<and> ?P r then ?f r else r)
        (get_reaction d m' u' e')" for m' u' e'
      unfolding get_reaction_def rows by (simp add: find_upd_where key option.map_ident)
    have "schema_ok d'"
      using assms(1) ex unfolding d' upsert_reaction_def by (simp add: schema_ok_def unique_intros key)
    moreover have "emoji_count d' m e blocked = emoji_count d m e blocked"
      by (simp add: emoji_count_def rows rowcount_upd_where)
    moreover have "get_reaction d' m' u' e' = get_reaction d m' u' e'" if "(m', u', e') \<noteq> (m, u, e)" for m' u' e'
      unfolding get using that get_reaction_SomeD [of d m' u' e']
      by (cases "get_reaction d m' u' e'") (auto simp: re_key_def)
    moreover have "get_reaction d' m u e = Some (if orig \<noteq> None \<and> re_origin r = None then ?f r else r)"
      unfolding get Some using get_reaction_SomeD [OF Some] by (simp add: re_key_def)
    ultimately show ?thesis using Some ch by (auto simp: persisted_origin_def split: option.splits)
  qed
qed

end
