(* ===== verification/Channels.thy ===== *)
theory Channels
  imports DirectMessages Reactions
begin

text \<open>The channel mirror (\<open>domain/channels_service.py\<close>): the idempotent upsert of a channel
  seen on the bus and the hard delete with its cascade. SQLite does not enforce the foreign
  keys the models declare, so the cascade alone decides which references dangle; the theorem
  here says which rows it takes and which references it leaves behind.\<close>

section \<open>Definitions\<close>

datatype channel_error = ReservedDmChannel | ChannelIntegrityError

definition bus_channel :: "instant \<Rightarrow> ident \<Rightarrow> string \<Rightarrow> channel" where
  "bus_channel now new_id aiko_channel = \<lparr>ch_id = new_id, ch_name = aiko_channel, ch_kind = STANDARD,
     ch_aiko_channel = aiko_channel, ch_is_private = False, ch_join_policy = INVITE_ONLY,
     ch_community_id = Some DEFAULT_COMMUNITY_ID, ch_created_at = now\<rparr>"

definition upsert_channel :: "instant \<Rightarrow> ident \<Rightarrow> string \<Rightarrow> db \<Rightarrow> channel_error + (channel \<times> db)" where
  "upsert_channel now new_id aiko_channel d =
     (if is_dm_channel_name aiko_channel then Inl ReservedDmChannel
      else case channel_by_aiko d aiko_channel of
             Some existing \<Rightarrow> Inr (existing, d)
           | None \<Rightarrow>
               (case insert_channel (bus_channel now new_id aiko_channel) d of
                  Inl _ \<Rightarrow> Inl ChannelIntegrityError
                | Inr d' \<Rightarrow> Inr (bus_channel now new_id aiko_channel, d')))"

text \<open>The statements of the cascade in the order the code issues them.\<close>

definition hard_delete_channel :: "string \<Rightarrow> db \<Rightarrow> bool \<times> db" where
  "hard_delete_channel aiko_channel d =
     (if is_dm_channel_name aiko_channel then (False, d)
      else case channel_by_aiko d aiko_channel of
             None \<Rightarrow> (False, d)
           | Some c \<Rightarrow>
               let d1 = d\<lparr>memberships := del_where (\<lambda>m. mb_channel_id m = ch_id c) (memberships d)\<rparr>;
                   ids = map m_id (filter (\<lambda>m. m_channel_id m = ch_id c) (messages d1));
                   d2 = d1\<lparr>message_retractions := del_where (\<lambda>r. ret_channel_id r = ch_id c) (message_retractions d1)\<rparr>;
                   d3 = d2\<lparr>message_reports := del_where (\<lambda>r. rep_message_id r \<in> set ids) (message_reports d2)\<rparr>;
                   d4 = purge_reactions_for_messages ids d3;
                   d5 = d4\<lparr>messages := del_where (\<lambda>m. m_channel_id m = ch_id c) (messages d4)\<rparr>;
                   d6 = d5\<lparr>channel_read_positions := del_where (\<lambda>p. rp_channel_id p = ch_id c) (channel_read_positions d5)\<rparr>
               in (True, d6\<lparr>channels := del_where (\<lambda>x. ch_id x = ch_id c) (channels d6)\<rparr>))"

section \<open>References\<close>

text \<open>Every column that holds the identifier of a channel or of a message, declared as a foreign key
  or not, with the identifiers that stand in it.\<close>

definition channel_refs :: "db \<Rightarrow> (string \<times> ident) set" where
  "channel_refs d =
     Pair ''memberships.channel_id'' ` mb_channel_id ` set (memberships d) \<union>
     Pair ''channel_read_positions.channel_id'' ` rp_channel_id ` set (channel_read_positions d) \<union>
     Pair ''messages.channel_id'' ` m_channel_id ` set (messages d) \<union>
     Pair ''message_retractions.channel_id'' ` ret_channel_id ` set (message_retractions d) \<union>
     Pair ''communities.default_channel_id'' ` {i. \<exists>co \<in> set (communities d). co_default_channel_id co = Some i}"

definition message_refs :: "db \<Rightarrow> (string \<times> ident) set" where
  "message_refs d =
     Pair ''messages.reply_to'' ` {i. \<exists>m \<in> set (messages d). m_reply_to m = Some i} \<union>
     Pair ''message_retractions.target_msg_id'' ` ret_target_msg_id ` set (message_retractions d) \<union>
     Pair ''message_reports.message_id'' ` rep_message_id ` set (message_reports d) \<union>
     Pair ''message_reactions.message_id'' ` re_message_id ` set (message_reactions d)"

definition dangling :: "db \<Rightarrow> (string \<times> ident) set" where
  "dangling d = {(col, i) \<in> channel_refs d. i \<notin> ch_id ` set (channels d)} \<union>
     {(col, i) \<in> message_refs d. i \<notin> m_id ` set (messages d)}"

definition messages_in :: "ident \<Rightarrow> db \<Rightarrow> ident set" where
  "messages_in cid d = m_id ` {m \<in> set (messages d). m_channel_id m = cid}"

definition without_channel :: "channel \<Rightarrow> db \<Rightarrow> db" where
  "without_channel c d = d\<lparr>
     channels := [x \<leftarrow> channels d. ch_id x \<noteq> ch_id c],
     memberships := [m \<leftarrow> memberships d. mb_channel_id m \<noteq> ch_id c],
     channel_read_positions := [p \<leftarrow> channel_read_positions d. rp_channel_id p \<noteq> ch_id c],
     messages := [m \<leftarrow> messages d. m_channel_id m \<noteq> ch_id c],
     message_retractions := [r \<leftarrow> message_retractions d. ret_channel_id r \<noteq> ch_id c],
     message_reports := [r \<leftarrow> message_reports d. rep_message_id r \<notin> messages_in (ch_id c) d],
     message_reactions := [r \<leftarrow> message_reactions d. re_message_id r \<notin> messages_in (ch_id c) d]\<rparr>"

lemma hard_delete_cases:
  assumes "hard_delete_channel a d = (True, d')"
  obtains c where "channel_by_aiko d a = Some c" "\<not> is_dm_channel_name a" "d' = without_channel c d"
  using assms
  by (auto simp: hard_delete_channel_def purge_reactions_for_messages_def del_where_def Let_def
      without_channel_def messages_in_def split: if_splits option.splits)

text \<open>What a channel that is gone leaves dangling: where the identifiers of messages are unique, a
  message of another channel keeps its own.\<close>

lemma other_message_kept:
  assumes "unique_on m_id (messages d)" and "i \<in> m_id ` set (messages d)"
  shows "i \<in> m_id ` set (messages (without_channel c d)) \<longleftrightarrow> i \<notin> messages_in (ch_id c) d"
  using assms(2) unique_onD [OF assms(1)] by (auto simp: without_channel_def messages_in_def; blast)

lemma new_dangling:
  assumes ok: "schema_ok d" and c: "c \<in> set (channels d)"
  shows "dangling (without_channel c d) - dangling d =
     {''communities.default_channel_id''} \<times> {i. i = ch_id c \<and>
        (\<exists>co \<in> set (communities d). co_default_channel_id co = Some i)} \<union>
     {''messages.reply_to''} \<times> {i \<in> messages_in (ch_id c) d.
        \<exists>r \<in> set (messages d). m_channel_id r \<noteq> ch_id c \<and> m_reply_to r = Some i} \<union>
     {''message_retractions.target_msg_id''} \<times> {i \<in> messages_in (ch_id c) d.
        \<exists>r \<in> set (message_retractions d). ret_channel_id r \<noteq> ch_id c \<and> ret_target_msg_id r = i}"
proof -
  let ?d = "without_channel c d"
  have ch: "i \<notin> ch_id ` set (channels ?d) \<longleftrightarrow> i = ch_id c \<or> i \<notin> ch_id ` set (channels d)" for i
    by (auto simp: without_channel_def)
  have ms: "i \<notin> m_id ` set (messages ?d) \<longleftrightarrow> i \<in> messages_in (ch_id c) d \<or> i \<notin> m_id ` set (messages d)" for i
    using other_message_kept [OF schema_okD(10) [OF ok], of i c]
    by (auto simp: without_channel_def messages_in_def)
  have crefs: "x \<in> channel_refs ?d \<longleftrightarrow> x \<in> channel_refs d \<and> (fst x = ''communities.default_channel_id'' \<or> snd x \<noteq> ch_id c)"
    for x by (auto simp: channel_refs_def without_channel_def)
  have mrefs: "(''messages.reply_to'', i) \<in> message_refs ?d \<longleftrightarrow>
        (\<exists>r \<in> set (messages d). m_channel_id r \<noteq> ch_id c \<and> m_reply_to r = Some i)"
      "(''message_retractions.target_msg_id'', i) \<in> message_refs ?d \<longleftrightarrow>
        (\<exists>r \<in> set (message_retractions d). ret_channel_id r \<noteq> ch_id c \<and> ret_target_msg_id r = i)" for i
    by (auto simp: message_refs_def without_channel_def)
  have mcols: "x \<in> message_refs ?d \<Longrightarrow> x \<in> message_refs d \<and>
      (fst x = ''messages.reply_to'' \<or> fst x = ''message_retractions.target_msg_id'' \<or>
       snd x \<notin> messages_in (ch_id c) d)" for x
    by (auto simp: message_refs_def without_channel_def)
  have known: "i \<in> messages_in (ch_id c) d \<Longrightarrow> i \<in> m_id ` set (messages d)" for i
    by (auto simp: messages_in_def)
  have apart: "x \<in> channel_refs d \<Longrightarrow> x \<notin> message_refs d" for x
    by (auto simp: channel_refs_def message_refs_def)
  have new: "x \<in> dangling ?d - dangling d \<longleftrightarrow>
      x \<in> channel_refs ?d \<and> snd x = ch_id c \<or> x \<in> message_refs ?d \<and> snd x \<in> messages_in (ch_id c) d" for x
    using c crefs [of x] mcols [of x] apart [of x] known [of "snd x"] ch [of "snd x"] ms [of "snd x"]
    by (cases x) (auto simp: dangling_def)
  have A: "x \<in> channel_refs ?d \<and> snd x = ch_id c \<longleftrightarrow>
      fst x = ''communities.default_channel_id'' \<and> snd x = ch_id c \<and>
      (\<exists>co \<in> set (communities d). co_default_channel_id co = Some (snd x))" for x
    unfolding crefs by (cases x) (auto simp: channel_refs_def)
  have B: "x \<in> message_refs ?d \<and> snd x \<in> messages_in (ch_id c) d \<longleftrightarrow>
      snd x \<in> messages_in (ch_id c) d \<and> (fst x = ''messages.reply_to'' \<and>
        (\<exists>r \<in> set (messages d). m_channel_id r \<noteq> ch_id c \<and> m_reply_to r = Some (snd x)) \<or>
       fst x = ''message_retractions.target_msg_id'' \<and>
        (\<exists>r \<in> set (message_retractions d). ret_channel_id r \<noteq> ch_id c \<and> ret_target_msg_id r = snd x))" for x
    using mcols [of x] mrefs [of "snd x"] by (cases x) auto
  show ?thesis
    by (rule set_eqI, simp only: new A B mem_Times_iff Un_iff singleton_iff mem_Collect_eq)
      (simp only: conj_disj_distribL conj_disj_distribR conj_ac disj_ac)
qed

lemma upsert_cases:
  assumes "upsert_channel now i a d = Inr (c, d')"
  obtains "channel_by_aiko d a = Some c" "d' = d"
  | "channel_by_aiko d a = None" "c = bus_channel now i a" "insert_channel c d = Inr d'"
  using assms by (auto simp: upsert_channel_def split: if_splits option.splits sum.splits)

text \<open>C7: deleting a channel takes the channel and exactly the rows that belong to it, its
  memberships, read positions, messages and retractions and the reports and reactions on its
  messages; every other row of every table is as before. It leaves dangling exactly three
  things that resolved before: a community's default channel, when that is the channel deleted,
  and, in other channels, replies to its messages and retractions of them. A name in the
  direct-message namespace deletes nothing.\<close>

theorem hard_delete_no_residue:
  assumes "schema_ok d" and "hard_delete_channel a d = (True, d')"
  shows "\<exists>c. channel_by_aiko d a = Some c \<and> \<not> is_dm_channel_name a \<and> channel_by_aiko d' a = None \<and>
    d' = d\<lparr>channels := [x \<leftarrow> channels d. ch_id x \<noteq> ch_id c],
       memberships := [m \<leftarrow> memberships d. mb_channel_id m \<noteq> ch_id c],
       channel_read_positions := [p \<leftarrow> channel_read_positions d. rp_channel_id p \<noteq> ch_id c],
       messages := [m \<leftarrow> messages d. m_channel_id m \<noteq> ch_id c],
       message_retractions := [r \<leftarrow> message_retractions d. ret_channel_id r \<noteq> ch_id c],
       message_reports := [r \<leftarrow> message_reports d. rep_message_id r \<notin> messages_in (ch_id c) d],
       message_reactions := [r \<leftarrow> message_reactions d. re_message_id r \<notin> messages_in (ch_id c) d]\<rparr> \<and>
    {x \<in> set (channels d). ch_id x = ch_id c} = {c} \<and>
    dangling d' - dangling d =
      {''communities.default_channel_id''} \<times> {i. i = ch_id c \<and>
         (\<exists>co \<in> set (communities d). co_default_channel_id co = Some i)} \<union>
      {''messages.reply_to''} \<times> {i \<in> messages_in (ch_id c) d.
         \<exists>r \<in> set (messages d). m_channel_id r \<noteq> ch_id c \<and> m_reply_to r = Some i} \<union>
      {''message_retractions.target_msg_id''} \<times> {i \<in> messages_in (ch_id c) d.
         \<exists>r \<in> set (message_retractions d). ret_channel_id r \<noteq> ch_id c \<and> ret_target_msg_id r = i}"
proof -
  from assms(2) obtain c where c: "channel_by_aiko d a = Some c" "\<not> is_dm_channel_name a"
      and d': "d' = without_channel c d" by (rule hard_delete_cases)
  have m: "c \<in> set (channels d)" "ch_aiko_channel c = a" using channel_by_aiko_SomeD [OF c(1)] by auto
  have id: "x = c" if "x \<in> set (channels d)" "ch_id x = ch_id c" for x
    using unique_onD [OF schema_okD(3) [OF assms(1)] that(1) m(1) that(2)] .
  have "x = c" if "x \<in> set (channels d)" "ch_aiko_channel x = a" for x
    using unique_onD [OF schema_okD(4) [OF assms(1)] that(1) m(1)] that(2) m(2) by simp
  then have gone: "channel_by_aiko d' a = None"
    by (auto simp: channel_by_aiko_def row_simps d' without_channel_def)
  have one: "{x \<in> set (channels d). ch_id x = ch_id c} = {c}" using id m by blast
  show ?thesis
    by (rule exI [of _ c], intro conjI c gone one new_dangling [OF assms(1) m(1), folded d'])
      (simp only: d' without_channel_def)
qed

text \<open>A community whose default is the channel deleted.\<close>

definition ex_bus :: db where
  "ex_bus = empty_db\<lparr>channels := [bus_channel 0 ''c1'' ''general'', bus_channel 0 ''c2'' ''robots''],
     memberships := [plain_member 0 ''c1'' ''u'', plain_member 0 ''c2'' ''u'']\<rparr>"

definition ex_default :: db where
  "ex_default = ex_bus\<lparr>communities := [\<lparr>co_id = ''k'', co_name = ''n'', co_description = None, co_icon_url = None,
       co_visibility = PUBLIC, co_category = GENERAL, co_owner_id = None, co_member_count = 1,
       co_default_channel_id = Some ''c1'', co_last_activity_at = None, co_taken_down_at = None,
       co_created_at = 0\<rparr>]\<rparr>"

theorem hard_delete_no_residue_witness:
  "\<exists>d'. hard_delete_channel ''general'' ex_default = (True, d') \<and> channel_by_aiko d' ''general'' = None \<and>
     memberships d' = [plain_member 0 ''c2'' ''u''] \<and> dangling ex_default = {} \<and>
     (''communities.default_channel_id'', ''c1'') \<in> dangling d'"
proof -
  have ok: "schema_ok ex_default"
    by (simp add: schema_ok_def ex_default_def ex_bus_def empty_db_def bus_channel_def
        channel_checks_def plain_member_def mb_key_def)
  have sound: "dangling ex_default = {}"
    by (auto simp: dangling_def channel_refs_def message_refs_def ex_default_def ex_bus_def empty_db_def bus_channel_def
        plain_member_def)
  obtain d' where h: "hard_delete_channel ''general'' ex_default = (True, d')"
    by (simp add: hard_delete_channel_def ex_default_def ex_bus_def empty_db_def channel_by_aiko_def bus_channel_def
        is_dm_channel_name_def starts_with_def DM_CHANNEL_PREFIX_def Let_def)
  obtain c where c: "channel_by_aiko ex_default ''general'' = Some c" "channel_by_aiko d' ''general'' = None"
      "memberships d' = [m \<leftarrow> memberships ex_default. mb_channel_id m \<noteq> ch_id c]"
      "(''communities.default_channel_id'', ch_id c) \<in> dangling d' \<longleftrightarrow>
         (\<exists>co \<in> set (communities ex_default). co_default_channel_id co = Some (ch_id c))"
    using hard_delete_no_residue [OF ok h] by (auto simp: sound)
  have "ch_id c = ''c1''"
    using c(1) by (auto simp: channel_by_aiko_def ex_default_def ex_bus_def bus_channel_def)
  with c sound h show ?thesis by (auto simp: ex_default_def ex_bus_def plain_member_def)
qed

end
