(* ===== verification/Moderation.thy ===== *)
theory Moderation
  imports DirectMessages
begin

text \<open>Moderation (\<open>domain/moderation_service.py\<close>): user blocks and the three forms in which
  the services ask about them, message reports, take-down with its retraction, dismissal,
  bans, and the part of account deletion that concerns these tables. The operations that
  check and then insert run as one step, the single-writer assumption the source records;
  new identifiers and the clock are arguments, as is the configured list of moderators.\<close>

section \<open>Blocks\<close>

datatype moderation_error =
    CannotBlockSelf | UserNotFound | MessageNotFound | ReportNotFound | UnknownReportReason
  | CannotBanSelf | CannotBanModerator | ReportAlreadyResolved | RetractionOrderingError
  | ModerationIntegrityError

definition get_block :: "db \<Rightarrow> ident \<Rightarrow> ident \<Rightarrow> user_block option" where
  "get_block d blocker_id blocked_id = find (\<lambda>b. bl_key b = (blocker_id, blocked_id)) (user_blocks d)"

definition block_user :: "instant \<Rightarrow> ident \<Rightarrow> ident \<Rightarrow> db \<Rightarrow> moderation_error + db" where
  "block_user now blocker_id blocked_id d =
     (if blocker_id = blocked_id then Inl CannotBlockSelf
      else case get_user d blocked_id of
             None \<Rightarrow> Inl UserNotFound
           | Some _ \<Rightarrow>
               (case get_block d blocker_id blocked_id of
                  Some _ \<Rightarrow> Inr d
                | None \<Rightarrow>
                    (case insert_block \<lparr>bl_blocker_user_id = blocker_id,
                            bl_blocked_user_id = blocked_id, bl_created_at = now\<rparr> d of
                       Inl _ \<Rightarrow> Inl ModerationIntegrityError
                     | Inr d' \<Rightarrow> Inr d')))"

definition unblock_user :: "ident \<Rightarrow> ident \<Rightarrow> db \<Rightarrow> db" where
  "unblock_user blocker_id blocked_id d =
     d\<lparr>user_blocks := del_where (\<lambda>b. bl_blocker_user_id b = blocker_id \<and>
         bl_blocked_user_id b = blocked_id) (user_blocks d)\<rparr>"

definition list_blocks :: "ident \<Rightarrow> db \<Rightarrow> (ident \<times> string \<times> instant) list" where
  "list_blocks blocker_id d =
     map (\<lambda>(b, u). (u_id u, u_display_name u, bl_created_at b))
       (order_desc (bl_created_at \<circ> fst)
         (concat (map (\<lambda>b. map (\<lambda>u. (b, u)) (filter (\<lambda>u. u_id u = bl_blocked_user_id b) (users d)))
           (filter (\<lambda>b. bl_blocker_user_id b = blocker_id) (user_blocks d)))))"

text \<open>The SQL predicate on a message row; a NULL sender compares as unknown, so the
  EXISTS finds nothing.\<close>

definition not_blocked_predicate :: "db \<Rightarrow> ident \<Rightarrow> message \<Rightarrow> bool" where
  "not_blocked_predicate d viewer_id m \<longleftrightarrow>
     \<not> list_ex (\<lambda>b. bl_blocker_user_id b = viewer_id \<and> Some (bl_blocked_user_id b) = m_sender_user_id m \<or>
          bl_blocked_user_id b = viewer_id \<and> Some (bl_blocker_user_id b) = m_sender_user_id m) (user_blocks d)"

definition blocked_pair_user_ids :: "db \<Rightarrow> ident \<Rightarrow> ident list" where
  "blocked_pair_user_ids d user_id =
     remdups (map (\<lambda>b. if bl_blocker_user_id b = user_id then bl_blocked_user_id b else bl_blocker_user_id b)
       (filter (\<lambda>b. bl_blocker_user_id b = user_id \<or> bl_blocked_user_id b = user_id) (user_blocks d)))"

definition is_blocked_between :: "db \<Rightarrow> ident \<Rightarrow> ident \<Rightarrow> bool" where
  "is_blocked_between d a_id b_id \<longleftrightarrow>
     a_id \<noteq> b_id \<and>
     list_ex (\<lambda>b. bl_blocker_user_id b = a_id \<and> bl_blocked_user_id b = b_id \<or>
        bl_blocker_user_id b = b_id \<and> bl_blocked_user_id b = a_id) (user_blocks d)"

section \<open>Reports\<close>

definition get_message :: "db \<Rightarrow> ident \<Rightarrow> message option" where
  "get_message d message_id = find (\<lambda>m. m_id m = message_id) (messages d)"

definition get_report :: "db \<Rightarrow> ident \<Rightarrow> message_report option" where
  "get_report d report_id = find (\<lambda>r. rep_id r = report_id) (message_reports d)"

definition get_reportable_message :: "db \<Rightarrow> ident \<Rightarrow> ident \<Rightarrow> message option" where
  "get_reportable_message d viewer_id message_id =
     (case get_message d message_id of
        None \<Rightarrow> None
      | Some msg \<Rightarrow>
          (case readable_channel d viewer_id (m_channel_id msg) of None \<Rightarrow> None | Some _ \<Rightarrow> Some msg))"

definition as_reason :: "string \<Rightarrow> moderation_error + report_reason" where
  "as_reason reason = (case enum_of ReportReason_members report_reason_value reason of
      None \<Rightarrow> Inl UnknownReportReason | Some r \<Rightarrow> Inr r)"

definition report_message :: "instant \<Rightarrow> ident \<Rightarrow> ident \<Rightarrow> ident \<Rightarrow> string \<Rightarrow> db \<Rightarrow>
    moderation_error + (message_report \<times> db)" where
  "report_message now new_id reporter_id message_id reason d =
     (case as_reason reason of
        Inl e \<Rightarrow> Inl e
      | Inr r \<Rightarrow>
          (case get_message d message_id of
             None \<Rightarrow> Inl MessageNotFound
           | Some _ \<Rightarrow>
               (case find (\<lambda>x. rep_message_id x = message_id \<and> rep_reporter_user_id x = Some reporter_id)
                       (message_reports d) of
                  Some existing \<Rightarrow> Inr (existing, d)
                | None \<Rightarrow>
                    let row = \<lparr>rep_id = new_id, rep_message_id = message_id,
                          rep_reporter_user_id = Some reporter_id, rep_reason = r, rep_created_at = now,
                          rep_resolved_at = None, rep_resolved_by_user_id = None, rep_resolution = None\<rparr>
                    in case insert_report row d of
                         Inl _ \<Rightarrow> Inl ModerationIntegrityError
                       | Inr d' \<Rightarrow> Inr (row, d'))))"

definition list_pending_reports :: "nat \<Rightarrow> db \<Rightarrow> (message_report \<times> message \<times> user option) list" where
  "list_pending_reports limit d =
     take limit (order_desc (rep_created_at \<circ> fst)
       (concat (map (\<lambda>r. map (\<lambda>m. (r, m, case rep_reporter_user_id r of None \<Rightarrow> None | Some u \<Rightarrow> get_user d u))
           (filter (\<lambda>m. m_id m = rep_message_id r) (messages d)))
         (filter (\<lambda>r. rep_resolved_at r = None) (message_reports d)))))"

definition upd_report :: "ident \<Rightarrow> (message_report \<Rightarrow> message_report) \<Rightarrow> db \<Rightarrow> db" where
  "upd_report report_id f d =
     d\<lparr>message_reports := upd_where (\<lambda>r. rep_id r = report_id) f (message_reports d)\<rparr>"

definition resolve_report :: "instant \<Rightarrow> ident \<Rightarrow> report_resolution \<Rightarrow> ident \<Rightarrow> db \<Rightarrow> db" where
  "resolve_report now moderator_id res report_id d =
     upd_report report_id (\<lambda>r. r\<lparr>rep_resolved_at := Some now, rep_resolution := Some res,
       rep_resolved_by_user_id := Some moderator_id\<rparr>) d"

definition soft_delete :: "instant \<Rightarrow> ident \<Rightarrow> db \<Rightarrow> db" where
  "soft_delete now message_id d =
     d\<lparr>messages := upd_where (\<lambda>m. m_id m = message_id \<and> m_deleted_at m = None)
         (\<lambda>m. m\<lparr>m_deleted_at := Some now\<rparr>) (messages d)\<rparr>"

definition take_down_message :: "instant \<Rightarrow> ident \<Rightarrow> ident \<Rightarrow> ident \<Rightarrow> db \<Rightarrow>
    moderation_error + (retraction option \<times> db)" where
  "take_down_message now rid report_id moderator_id d =
     (case get_report d report_id of
        None \<Rightarrow> Inl ReportNotFound
      | Some report \<Rightarrow>
          let already_taken_down = (rep_resolved_at report \<noteq> None \<and> rep_resolution report = Some TAKEN_DOWN)
          in if rep_resolved_at report \<noteq> None \<and> \<not> already_taken_down then Inl ReportAlreadyResolved
             else case get_message d (rep_message_id report) of
                    None \<Rightarrow> if already_taken_down then Inr (None, d) else Inl MessageNotFound
                  | Some message \<Rightarrow>
                      let existing = find (\<lambda>r. ret_target_msg_id r = m_id message) (message_retractions d)
                      in if existing = None \<and> rid \<le> m_id message then Inl RetractionOrderingError
                         else
                           let retr = (if existing = None
                                 then Some \<lparr>ret_id = rid, ret_target_msg_id = m_id message,
                                        ret_channel_id = m_channel_id message, ret_created_at = now\<rparr>
                                 else None);
                               d1 = (if already_taken_down then d
                                 else resolve_report now moderator_id TAKEN_DOWN report_id
                                        (soft_delete now (m_id message) d))
                           in case retr of
                                None \<Rightarrow> Inr (None, d1)
                              | Some r \<Rightarrow>
                                  (case insert_retraction r d1 of
                                     Inl _ \<Rightarrow> Inl ModerationIntegrityError
                                   | Inr d2 \<Rightarrow> Inr (Some r, d2)))"

definition dismiss_report :: "instant \<Rightarrow> ident \<Rightarrow> ident \<Rightarrow> db \<Rightarrow> moderation_error + db" where
  "dismiss_report now report_id moderator_id d =
     (case get_report d report_id of
        None \<Rightarrow> Inl ReportNotFound
      | Some report \<Rightarrow>
          if rep_resolved_at report \<noteq> None
          then if rep_resolution report = Some DISMISSED then Inr d else Inl ReportAlreadyResolved
          else Inr (resolve_report now moderator_id DISMISSED report_id d))"

section \<open>Bans and account deletion\<close>

definition is_moderator :: "ident list \<Rightarrow> ident \<Rightarrow> bool" where
  "is_moderator moderator_user_ids user_id \<longleftrightarrow> user_id \<in> set moderator_user_ids"

definition upd_user :: "ident \<Rightarrow> (user \<Rightarrow> user) \<Rightarrow> db \<Rightarrow> db" where
  "upd_user user_id f d = d\<lparr>users := upd_where (\<lambda>u. u_id u = user_id) f (users d)\<rparr>"

definition ban_user :: "ident list \<Rightarrow> instant \<Rightarrow> ident \<Rightarrow> ident \<Rightarrow> db \<Rightarrow> moderation_error + db" where
  "ban_user moderator_user_ids now target_id moderator_id d =
     (if target_id = moderator_id then Inl CannotBanSelf
      else if is_moderator moderator_user_ids target_id then Inl CannotBanModerator
      else case get_user d target_id of
             None \<Rightarrow> Inl UserNotFound
           | Some target \<Rightarrow>
               Inr (if u_banned_at target = None
                    then upd_user target_id (\<lambda>u. u\<lparr>u_banned_at := Some now\<rparr>) d else d))"

definition unban_user :: "ident \<Rightarrow> db \<Rightarrow> moderation_error + db" where
  "unban_user target_id d =
     (case get_user d target_id of
        None \<Rightarrow> Inl UserNotFound
      | Some _ \<Rightarrow> Inr (upd_user target_id (\<lambda>u. u\<lparr>u_banned_at := None\<rparr>) d))"

definition purge_user_moderation_rows :: "ident \<Rightarrow> db \<Rightarrow> db" where
  "purge_user_moderation_rows user_id d =
     (let d1 = d\<lparr>user_blocks := del_where (\<lambda>b. bl_blocker_user_id b = user_id \<or>
            bl_blocked_user_id b = user_id) (user_blocks d)\<rparr>;
          d2 = d1\<lparr>message_reports := upd_where (\<lambda>r. rep_reporter_user_id r = Some user_id)
            (\<lambda>r. r\<lparr>rep_reporter_user_id := None\<rparr>) (message_reports d1)\<rparr>
      in d2\<lparr>message_reports := upd_where (\<lambda>r. rep_resolved_by_user_id r = Some user_id)
            (\<lambda>r. r\<lparr>rep_resolved_by_user_id := None\<rparr>) (message_reports d2)\<rparr>)"

section \<open>The forms of the block relation\<close>

lemma blocked_pair_iff:
  "s \<in> set (blocked_pair_user_ids d v) \<longleftrightarrow>
     (v, s) \<in> bl_key ` set (user_blocks d) \<or> (s, v) \<in> bl_key ` set (user_blocks d)"
  by (auto simp: blocked_pair_user_ids_def bl_key_def image_iff Bex_def split: if_splits)

lemma blocked_pair_sym:
  "s \<in> set (blocked_pair_user_ids d v) \<longleftrightarrow> v \<in> set (blocked_pair_user_ids d s)"
  by (auto simp: blocked_pair_iff)

lemma not_blocked_iff:
  "not_blocked_predicate d v m \<longleftrightarrow> (\<forall>s. m_sender_user_id m = Some s \<longrightarrow> s \<notin> set (blocked_pair_user_ids d v))"
  by (cases "m_sender_user_id m")
    (auto simp: not_blocked_predicate_def blocked_pair_iff list_ex_iff bl_key_def image_iff)

lemma is_blocked_between_iff:
  "is_blocked_between d a b \<longleftrightarrow> a \<noteq> b \<and> b \<in> set (blocked_pair_user_ids d a)"
  by (auto simp: is_blocked_between_def blocked_pair_iff list_ex_iff bl_key_def image_iff)

lemma block_user_cases:
  assumes "block_user now a b d = Inr d'"
  obtains "a \<noteq> b" "bl_key ` set (user_blocks d') = insert (a, b) (bl_key ` set (user_blocks d))"
    "messages d' = messages d" "message_reports d' = message_reports d"
    "message_retractions d' = message_retractions d"
  using assms
  by (auto simp: block_user_def insert_block_def get_block_def bl_key_def split: if_splits option.splits
      dest!: find_SomeD intro!: insert_absorb [symmetric] image_eqI)

lemma unblock_keys: "bl_key ` set (user_blocks (unblock_user a b d)) = bl_key ` set (user_blocks d) - {(a, b)}"
  by (auto simp: unblock_user_def bl_key_def)

text \<open>The three ways the services ask about a block agree, and the relation is mutual:
  the filter on message rows hides a message exactly when its sender is in the viewer's
  blocked set, the pairwise test asks about membership in that set, and each side is in the
  other's. Messages without an account are never hidden.\<close>

theorem block_forms_agree:
  "(not_blocked_predicate d v m \<longleftrightarrow> (\<forall>s. m_sender_user_id m = Some s \<longrightarrow> s \<notin> set (blocked_pair_user_ids d v))) \<and>
   (is_blocked_between d a b \<longleftrightarrow> a \<noteq> b \<and> b \<in> set (blocked_pair_user_ids d a)) \<and>
   (a \<in> set (blocked_pair_user_ids d b) \<longleftrightarrow> b \<in> set (blocked_pair_user_ids d a))"
  using not_blocked_iff is_blocked_between_iff blocked_pair_sym by blast

text \<open>A block by one side cuts both directions and nothing else; lifting it restores
  exactly what the other side has not blocked.\<close>

theorem block_unblock_effect:
  assumes "block_user now a b d = Inr d'"
  shows "(is_blocked_between d' x y \<longleftrightarrow> is_blocked_between d x y \<or> {x, y} = {a, b}) \<and>
    (is_blocked_between (unblock_user a b d') x y \<longleftrightarrow>
       (if {x, y} = {a, b} then get_block d b a \<noteq> None else is_blocked_between d x y))"
proof (rule block_user_cases [OF assms])
  assume k: "a \<noteq> b" "bl_key ` set (user_blocks d') = insert (a, b) (bl_key ` set (user_blocks d))"
  have g: "get_block d b a \<noteq> None \<longleftrightarrow> (b, a) \<in> bl_key ` set (user_blocks d)"
    by (auto simp: get_block_def row_simps image_iff) metis
  show ?thesis unfolding is_blocked_between_iff blocked_pair_iff unblock_keys k(2) g
    using k(1) by (auto simp: doubleton_eq_iff)
qed

definition ex_mod :: db where
  "ex_mod = ex_two_users\<lparr>messages := [\<lparr>m_id = ''0m'', m_channel_id = ''c'', m_sender_user_id = Some ''a'',
      m_sender_kind = SENDER_HUMAN, m_sender_label = None, m_body = ''x'', m_reply_to = None,
      m_client_msg_id = None, m_aiko_origin = False, m_origin = None, m_mentions = None, m_created_at = 0,
      m_edited_at = None, m_deleted_at = None\<rparr>],
    message_reports := [\<lparr>rep_id = ''r'', rep_message_id = ''0m'', rep_reporter_user_id = Some ''b'',
      rep_reason = SPAM, rep_created_at = 1, rep_resolved_at = None, rep_resolved_by_user_id = None,
      rep_resolution = None\<rparr>]\<rparr>"

section \<open>Take-down\<close>

text \<open>What the moderation operations keep: a retraction sorts after its message, and a
  report marked as taken down is about a message that is gone.\<close>

definition moderation_inv :: "db \<Rightarrow> bool" where
  "moderation_inv d \<longleftrightarrow>
     (\<forall>r \<in> set (message_retractions d). ret_target_msg_id r < ret_id r) \<and>
     (\<forall>r \<in> set (message_reports d). rep_resolution r = Some TAKEN_DOWN \<longrightarrow>
        (\<forall>m \<in> set (messages d). m_id m = rep_message_id r \<longrightarrow> m_deleted_at m \<noteq> None)) \<and>
     (\<forall>r \<in> set (message_reports d). rep_resolved_at r = None \<longleftrightarrow> rep_resolution r = None)"

lemma take_down_cases:
  assumes "take_down_message now rid report_id moderator_id d = Inr (ro, d')"
  obtains (gone) report where "get_report d report_id = Some report" "get_message d (rep_message_id report) = None"
      "rep_resolution report = Some TAKEN_DOWN" "ro = None" "d' = d"
  | (settled) report msg d1 where "get_report d report_id = Some report"
      "get_message d (rep_message_id report) = Some msg"
      "rep_resolved_at report = None \<or> rep_resolution report = Some TAKEN_DOWN"
      "d1 = (if rep_resolved_at report \<noteq> None then d
             else resolve_report now moderator_id TAKEN_DOWN report_id (soft_delete now (m_id msg) d))"
      "if \<exists>r \<in> set (message_retractions d). ret_target_msg_id r = m_id msg then ro = None \<and> d' = d1
       else m_id msg < rid \<and> ro = Some \<lparr>ret_id = rid, ret_target_msg_id = m_id msg,
              ret_channel_id = m_channel_id msg, ret_created_at = now\<rparr> \<and>
            d' = d1\<lparr>message_retractions := message_retractions d @ [the ro]\<rparr>"
proof -
  obtain report where rep: "get_report d report_id = Some report"
    using assms by (auto simp: take_down_message_def split: option.splits)
  show ?thesis
  proof (cases "get_message d (rep_message_id report)")
    case None
    with assms rep show ?thesis
      by (intro gone [of report]) (auto simp: take_down_message_def Let_def split: if_splits)
  next
    case (Some msg)
    let ?d1 = "if rep_resolved_at report \<noteq> None then d
             else resolve_report now moderator_id TAKEN_DOWN report_id (soft_delete now (m_id msg) d)"
    have fr: "message_retractions ?d1 = message_retractions d"
      by (simp add: resolve_report_def upd_report_def soft_delete_def)
    show ?thesis
      by (rule settled [OF rep Some _ refl])
        (use assms rep Some fr in \<open>auto simp: take_down_message_def Let_def insert_retraction_def
           row_simps not_le split: if_splits option.splits\<close>)
  qed
qed

lemma get_report_SomeD: "get_report d i = Some r \<Longrightarrow> r \<in> set (message_reports d) \<and> rep_id r = i"
  by (auto simp: get_report_def dest: find_SomeD)

lemma get_message_SomeD: "get_message d i = Some m \<Longrightarrow> m \<in> set (messages d) \<and> m_id m = i"
  by (auto simp: get_message_def dest: find_SomeD)

lemma get_message_unique:
  "unique_on m_id (messages d) \<Longrightarrow> get_message d i = Some m \<Longrightarrow> x \<in> set (messages d) \<Longrightarrow> m_id x = i \<Longrightarrow> x = m"
  using get_message_SomeD [of d i m] unique_onD [of m_id "messages d" x m] by simp

lemma resolve_report_sel [simp]:
  "messages (resolve_report now mo res i d) = messages d"
  "message_retractions (resolve_report now mo res i d) = message_retractions d"
  "message_reports (resolve_report now mo res i d) = upd_where (\<lambda>r. rep_id r = i)
     (\<lambda>r. r\<lparr>rep_resolved_at := Some now, rep_resolution := Some res, rep_resolved_by_user_id := Some mo\<rparr>)
     (message_reports d)"
  by (simp_all add: resolve_report_def upd_report_def)

lemma soft_delete_sel [simp]:
  "message_reports (soft_delete now i d) = message_reports d"
  "message_retractions (soft_delete now i d) = message_retractions d"
  "set (messages (soft_delete now i d)) =
     (\<lambda>m. if m_id m = i \<and> m_deleted_at m = None then m\<lparr>m_deleted_at := Some now\<rparr> else m) ` set (messages d)"
  by (simp_all add: soft_delete_def set_upd_where)

lemma schema_ok_soft_delete: "schema_ok d \<Longrightarrow> schema_ok (soft_delete now i d)"
  by (simp add: schema_ok_def soft_delete_def unique_intros m_client_key_def)

lemma schema_ok_upd_report:
  "schema_ok d \<Longrightarrow> (\<And>r. rep_id (f r) = rep_id r) \<Longrightarrow> (\<And>r. rep_key (f r) = rep_key r) \<Longrightarrow>
     schema_ok (upd_report i f d)"
  by (simp add: schema_ok_def upd_report_def unique_intros)

lemma get_report_resolved:
  "get_report d i = Some r \<Longrightarrow> get_report (resolve_report now mo res i' d) i =
     Some (if i' = i then r\<lparr>rep_resolved_at := Some now, rep_resolution := Some res,
       rep_resolved_by_user_id := Some mo\<rparr> else r)"
  by (auto simp: get_report_def find_upd_where dest: find_SomeD)

lemma moderation_inv_resolve:
  assumes "moderation_inv d" and "get_report d i = Some r" and "unique_on rep_id (message_reports d)"
  shows "moderation_inv (resolve_report now mo TAKEN_DOWN i (soft_delete now (rep_message_id r) d))"
proof -
  have "x = r" if "x \<in> set (message_reports d)" "rep_id x = i" for x
    using unique_onD [OF assms(3) that(1)] get_report_SomeD [OF assms(2)] that(2) by auto
  with assms(1) show ?thesis by (auto simp: moderation_inv_def set_upd_where)
qed

text \<open>A take-down takes effect completely. The report reads \<open>taken_down\<close>, the message is
  soft-deleted, a retraction that sorts after it exists so that clients that already hold the
  message learn of it, and repeating the action changes nothing.\<close>

theorem take_down_effect:
  assumes "schema_ok d" and "moderation_inv d"
    and "take_down_message now rid report_id moderator_id d = Inr (ro, d')"
  shows "moderation_inv d' \<and>
    (\<exists>r. get_report d' report_id = Some r \<and> rep_resolution r = Some TAKEN_DOWN \<and>
      (\<forall>m \<in> set (messages d'). m_id m = rep_message_id r \<longrightarrow> m_deleted_at m \<noteq> None \<and>
        (\<exists>x \<in> set (message_retractions d'). ret_target_msg_id x = m_id m \<and> m_id m < ret_id x))) \<and>
    take_down_message now' rid' report_id moderator_id' d' = Inr (None, d')"
  using assms(3)
proof (cases rule: take_down_cases)
  case (gone report)
  have "m_id m \<noteq> rep_message_id report" if "m \<in> set (messages d)" for m
    using gone(2) that by (auto simp: get_message_def row_simps)
  with gone assms(2) show ?thesis by (auto simp: take_down_message_def Let_def moderation_inv_def
        dest!: get_report_SomeD)
next
  case (settled report msg d1)
  have mid: "m_id msg = rep_message_id report" using get_message_SomeD [OF settled(2)] by simp
  note res = get_report_resolved [of "soft_delete now (m_id msg) d" report_id report now moderator_id
      TAKEN_DOWN report_id]
  have rd: "get_report (soft_delete now (m_id msg) d) report_id = Some report"
    using settled(1) by (simp add: get_report_def)
  obtain r where r: "get_report d1 report_id = Some r" "rep_resolution r = Some TAKEN_DOWN"
      "rep_resolved_at r \<noteq> None" "rep_message_id r = rep_message_id report"
    using settled(1,3,4) res rd by (cases "rep_resolved_at report") auto
  have inv1: "moderation_inv d1"
    using settled(4) assms(2) moderation_inv_resolve [OF assms(2) settled(1) schema_okD(13) [OF assms(1)]] mid
    by simp
  have rets1: "message_retractions d1 = message_retractions d" using settled(4) by simp
  have d': "messages d' = messages d1" "message_reports d' = message_reports d1"
    using settled(5) by (auto split: if_splits)
  have rets: "\<exists>x \<in> set (message_retractions d'). ret_target_msg_id x = m_id msg"
    "\<forall>x \<in> set (message_retractions d'). ret_target_msg_id x < ret_id x"
    using settled(5) inv1 rets1 by (auto simp: moderation_inv_def split: if_splits)
  have inv: "moderation_inv d'" using inv1 rets(2) d' by (simp add: moderation_inv_def)
  have r': "get_report d' report_id = Some r" using r(1) d' by (simp add: get_report_def)
  have del: "m_deleted_at m \<noteq> None \<and> (\<exists>x \<in> set (message_retractions d'). ret_target_msg_id x = m_id m \<and> m_id m < ret_id x)"
    if "m \<in> set (messages d')" "m_id m = rep_message_id r" for m
    using inv r' r(2) that rets mid r(4) get_report_SomeD [OF r'] unfolding moderation_inv_def by metis
  have "take_down_message now' rid' report_id moderator_id' d' = Inr (None, d')"
  proof (cases "get_message d' (rep_message_id r)")
    case None
    with r' r show ?thesis by (simp add: take_down_message_def)
  next
    case (Some m)
    then have "\<not> find (\<lambda>x. ret_target_msg_id x = m_id m) (message_retractions d') = None"
      using rets(1) mid r(4) get_message_SomeD [OF Some] by (auto simp: row_simps)
    with r' r Some show ?thesis by (auto simp: take_down_message_def Let_def)
  qed
  with inv r' r(2) del show ?thesis by blast
qed

section \<open>Steps\<close>

inductive mod_step :: "db \<Rightarrow> db \<Rightarrow> bool" where
  block: "block_user now a b d = Inr d' \<Longrightarrow> mod_step d d'"
| unblock: "mod_step d (unblock_user a b d)"
| report: "report_message now i reporter m reason d = Inr (r, d') \<Longrightarrow> mod_step d d'"
| take_down: "take_down_message now i r mo d = Inr (x, d') \<Longrightarrow> mod_step d d'"
| dismiss: "dismiss_report now r mo d = Inr d' \<Longrightarrow> mod_step d d'"
| ban: "ban_user mods now t mo d = Inr d' \<Longrightarrow> mod_step d d'"
| unban: "unban_user t d = Inr d' \<Longrightarrow> mod_step d d'"

text \<open>A report that is settled is found unchanged after every step.\<close>

lemma mod_step_settled:
  assumes "mod_step d d'" and "get_report d i = Some r" and "rep_resolved_at r \<noteq> None"
  shows "get_report d' i = Some r"
  using assms(1)
proof cases
  case (block now a b)
  then show ?thesis using assms(2) by (auto simp: get_report_def elim!: block_user_cases)
next
  case (unblock a b)
  then show ?thesis using assms(2) by (simp add: get_report_def unblock_user_def)
next
  case (report now i' reporter m reason x)
  then show ?thesis using assms(2)
    by (auto simp: report_message_def insert_report_def get_report_def find_append Let_def
        split: sum.splits option.splits if_splits)
next
  case (take_down now i' ri mo x)
  from take_down(1) show ?thesis
  proof (cases rule: take_down_cases)
    case (gone report) then show ?thesis using assms(2) by simp
  next
    case (settled report msg d1)
    have "get_report d1 i = Some r"
      using settled(1,4) assms(2,3) get_report_resolved [of "soft_delete now (m_id msg) d" i r now mo TAKEN_DOWN ri]
      by (auto simp: get_report_def split: if_splits)
    moreover have "message_reports d' = message_reports d1" using settled(5) by (auto split: if_splits)
    ultimately show ?thesis by (simp add: get_report_def)
  qed
next
  case (dismiss now ri mo)
  then show ?thesis using assms(2,3) get_report_resolved [OF assms(2), of now mo DISMISSED ri]
    by (auto simp: dismiss_report_def split: option.splits if_splits)
next
  case (ban mods now t mo)
  then show ?thesis using assms(2)
    by (auto simp: ban_user_def get_report_def upd_user_def split: if_splits option.splits)
next
  case (unban t)
  then show ?thesis using assms(2)
    by (auto simp: unban_user_def get_report_def upd_user_def split: option.splits)
qed

text \<open>A report resolves once, to one outcome: whatever moderators and users do
  afterwards, the stored resolution, its time and its author stay as they are.\<close>

theorem report_resolves_once:
  assumes "mod_step\<^sup>*\<^sup>* d d'" and "get_report d i = Some r" and "rep_resolved_at r \<noteq> None"
  shows "get_report d' i = Some r"
  using assms by (induction rule: rtranclp_induct) (auto intro: mod_step_settled)

definition ex_dismissed :: db where
  "ex_dismissed = resolve_report 3 ''mod'' DISMISSED ''r'' ex_mod"

end
