(* ===== verification/SigningKeys.thy ===== *)
theory SigningKeys
  imports Model
begin

text \<open>The registry of signing keys (\<open>domain/signing_keys_service.py\<close>). \<open>race\<close> stands for
  what other sessions commit between the statements of one call (\<open>race n\<close> before the
  \<open>n\<close>-th one); new identifiers and the clock are arguments. A key row is unique per
  (user, pubkey).\<close>

section \<open>Definitions\<close>

definition count_keys :: "db \<Rightarrow> ident \<Rightarrow> nat" where
  "count_keys d user_id = rowcount (\<lambda>k. sk_user_id k = user_id) (signing_keys d)"

definition get_key :: "db \<Rightarrow> ident \<Rightarrow> string \<Rightarrow> signing_key option" where
  "get_key d user_id pubkey =
     find (\<lambda>k. sk_user_id k = user_id \<and> sk_pubkey k = pubkey) (signing_keys d)"

text \<open>\<open>existing.last_seen_at = _utcnow()\<close>, written back at the flush.\<close>

definition touch_key :: "instant \<Rightarrow> signing_key \<Rightarrow> db \<Rightarrow> signing_key \<times> db" where
  "touch_key now k d =
     (k\<lparr>sk_last_seen_at := now\<rparr>,
      d\<lparr>signing_keys := upd_where (\<lambda>r. sk_id r = sk_id k) (\<lambda>r. r\<lparr>sk_last_seen_at := now\<rparr>)
          (signing_keys d)\<rparr>)"

definition new_key :: "instant \<Rightarrow> ident \<Rightarrow> ident \<Rightarrow> string \<Rightarrow> int \<Rightarrow> signing_key" where
  "new_key now i user_id pubkey key_version = \<lparr>sk_id = i, sk_user_id = user_id, sk_pubkey = pubkey,
     sk_key_version = key_version, sk_first_seen_at = now, sk_last_seen_at = now\<rparr>"

text \<open>The loop \<open>for _ in range(2)\<close>: one identifier per attempt.\<close>

fun record_attempts :: "(nat \<Rightarrow> db \<Rightarrow> db) \<Rightarrow> nat \<Rightarrow> instant \<Rightarrow> ident list \<Rightarrow> ident \<Rightarrow> string \<Rightarrow> int \<Rightarrow> db \<Rightarrow>
    db_error + (signing_key \<times> db)" where
  "record_attempts race n now [] user_id pubkey key_version d = Inl IntegrityError"
| "record_attempts race n now (i # ids) user_id pubkey key_version d =
     (let row = new_key now i user_id pubkey key_version; d1 = race n d
      in case insert_signing_key row d1 of
           Inr d' \<Rightarrow> Inr (row, d')
         | Inl _ \<Rightarrow>
             (let d2 = race (Suc n) d1
              in case get_key d2 user_id pubkey of
                   Some existing \<Rightarrow> Inr (touch_key now existing d2)
                 | None \<Rightarrow> record_attempts race (Suc (Suc n)) now ids user_id pubkey key_version d2))"

definition record_signing_key :: "(nat \<Rightarrow> db \<Rightarrow> db) \<Rightarrow> instant \<Rightarrow> ident \<Rightarrow> ident \<Rightarrow> ident \<Rightarrow> string \<Rightarrow> int \<Rightarrow> db \<Rightarrow>
    db_error + (signing_key \<times> db)" where
  "record_signing_key race now i1 i2 user_id pubkey key_version d =
     record_attempts race 0 now [i1, i2] user_id pubkey key_version d"

text \<open>\<open>INSERT .. SELECT .. WHERE (SELECT count(*) ..) < max_keys\<close>: one statement, with the
  number of rows it inserted.\<close>

definition capped_insert :: "nat \<Rightarrow> signing_key \<Rightarrow> db \<Rightarrow> db_error + (nat \<times> db)" where
  "capped_insert max_keys row d =
     (if count_keys d (sk_user_id row) < max_keys
      then (case insert_signing_key row d of Inl e \<Rightarrow> Inl e | Inr d' \<Rightarrow> Inr (1, d'))
      else Inr (0, d))"

definition register_explicit_key :: "(db \<Rightarrow> db) \<Rightarrow> instant \<Rightarrow> ident \<Rightarrow> ident \<Rightarrow> string \<Rightarrow> int \<Rightarrow> nat \<Rightarrow> db \<Rightarrow>
    db_error + ((signing_key option \<times> bool) \<times> db)" where
  "register_explicit_key race now key_id user_id pubkey key_version max_keys d =
     (case get_key d user_id pubkey of
        Some existing \<Rightarrow> (case touch_key now existing d of (k, d') \<Rightarrow> Inr ((Some k, True), d'))
      | None \<Rightarrow>
          (case capped_insert max_keys (new_key now key_id user_id pubkey key_version) (race d) of
             Inl e \<Rightarrow>
               (case get_key (race d) user_id pubkey of
                  None \<Rightarrow> Inl e
                | Some existing \<Rightarrow> (case touch_key now existing (race d) of (k, d') \<Rightarrow> Inr ((Some k, True), d')))
           | Inr (rows, d') \<Rightarrow>
               if rows = 0
               then (case get_key d' user_id pubkey of
                       Some existing \<Rightarrow> (case touch_key now existing d' of (k, d'') \<Rightarrow> Inr ((Some k, True), d''))
                     | None \<Rightarrow> Inr ((None, False), d'))
               else Inr ((get_key d' user_id pubkey, True), d')))"

definition list_keys :: "db \<Rightarrow> ident \<Rightarrow> signing_key list" where
  "list_keys d user_id =
     order_asc sk_first_seen_at (order_asc sk_id (filter (\<lambda>k. sk_user_id k = user_id) (signing_keys d)))"

definition revoke_key :: "ident \<Rightarrow> string \<Rightarrow> db \<Rightarrow> bool \<times> db" where
  "revoke_key user_id pubkey d =
     (let hit = (\<lambda>k. sk_user_id k = user_id \<and> sk_pubkey k = pubkey)
      in (rowcount hit (signing_keys d) > 0, d\<lparr>signing_keys := del_where hit (signing_keys d)\<rparr>))"

definition purge_user_keys :: "ident \<Rightarrow> db \<Rightarrow> db" where
  "purge_user_keys user_id d =
     d\<lparr>signing_keys := del_where (\<lambda>k. sk_user_id k = user_id) (signing_keys d)\<rparr>"

section \<open>Lemmas\<close>

lemma get_key_SomeD:
  "get_key d u p = Some k \<Longrightarrow> k \<in> set (signing_keys d) \<and> sk_user_id k = u \<and> sk_pubkey k = p"
  by (auto simp: get_key_def dest: find_SomeD)

lemma get_key_None_iff: "get_key d u p = None \<longleftrightarrow> (\<forall>k \<in> set (signing_keys d). sk_key k \<noteq> (u, p))"
  by (auto simp: get_key_def row_simps sk_key_def)

lemma touch_key_count [simp]: "count_keys (snd (touch_key now k d)) u = count_keys d u"
  by (simp add: count_keys_def touch_key_def rowcount_upd_where)

lemma touch_key_get:
  assumes "schema_ok d" and "get_key d u p = Some k"
  shows "get_key (snd (touch_key now k d)) u p = Some (fst (touch_key now k d))"
proof -
  have "find (\<lambda>r. sk_user_id r = u \<and> sk_pubkey r = p)
      (upd_where (\<lambda>r. sk_id r = sk_id k) (\<lambda>r. r\<lparr>sk_last_seen_at := now\<rparr>) (signing_keys d)) =
      Some (k\<lparr>sk_last_seen_at := now\<rparr>)"
    using assms(2) by (subst find_upd_where) (auto simp: get_key_def)
  then show ?thesis by (simp add: get_key_def touch_key_def)
qed

lemma touch_key_ok: "schema_ok d \<Longrightarrow> schema_ok (snd (touch_key now k d))"
  by (simp add: schema_ok_def touch_key_def unique_intros sk_key_def)

lemma insert_signing_key_fails:
  assumes "insert_signing_key (new_key now i u p v) d = Inl e" and "\<forall>k \<in> set (signing_keys d). sk_id k \<noteq> i"
  obtains k where "get_key d u p = Some k"
  using assms get_key_None_iff [of d u p]
  by (cases "get_key d u p")
    (auto simp: insert_signing_key_def list_ex_iff new_key_def sk_key_def split: if_splits)

lemma insert_signing_key_adds:
  assumes "insert_signing_key (new_key now i u p v) d = Inr d'"
  shows "get_key d' u p = Some (new_key now i u p v) \<and> get_key d u p = None \<and>
    count_keys d' w = count_keys d w + (if w = u then 1 else 0)"
proof -
  have d': "signing_keys d' = signing_keys d @ [new_key now i u p v]"
    and nk: "get_key d u p = None"
    using assms
    by (auto simp: insert_signing_key_def list_ex_iff get_key_None_iff new_key_def sk_key_def split: if_splits)
  have "get_key d' u p = Some (new_key now i u p v)"
    using nk by (simp add: get_key_def d' find_append new_key_def)
  with nk show ?thesis by (simp add: count_keys_def d' new_key_def)
qed

text \<open>The cap on explicitly registered keys is exact under concurrency. Whatever other
  sessions commit before the insert, registration always returns; it reports success exactly
  when the binding is in the store afterwards, refuses exactly when the user already had
  \<open>max_keys\<close> keys and not this one, and never takes a user past the cap.\<close>

theorem explicit_key_cap_exact:
  assumes "schema_ok d" and "schema_ok (race d)"
    and "\<forall>k \<in> set (signing_keys (race d)). sk_id k \<noteq> i"
  shows "\<exists>ko ok d'. register_explicit_key race now i u p v max_keys d = Inr ((ko, ok), d') \<and> schema_ok d' \<and>
    (ok \<longleftrightarrow> ko \<noteq> None) \<and> (ok \<longrightarrow> get_key d' u p = ko) \<and>
    (\<not> ok \<longleftrightarrow> get_key d u p = None \<and> get_key (race d) u p = None \<and> max_keys \<le> count_keys (race d) u) \<and>
    (get_key d u p = None \<longrightarrow> count_keys d' u \<le> max max_keys (count_keys (race d) u))"
proof (cases "get_key d u p")
  case (Some k)
  then show ?thesis
    using touch_key_get [OF assms(1) Some, of now] touch_key_ok [OF assms(1), of now k]
    by (auto simp: register_explicit_key_def split: prod.splits)
next
  case None
  let ?row = "new_key now i u p v"
  have u: "sk_user_id ?row = u" by (simp add: new_key_def)
  show ?thesis
  proof (cases "get_key (race d) u p")
    case (Some k)
    have "insert_signing_key ?row (race d) = Inl IntegrityError"
      using get_key_SomeD [OF Some]
      by (auto simp: insert_signing_key_def list_ex_iff new_key_def sk_key_def)
    then have "register_explicit_key race now i u p v max_keys d =
        Inr ((Some (fst (touch_key now k (race d))), True), snd (touch_key now k (race d)))"
      using None Some
      by (simp add: register_explicit_key_def capped_insert_def u split: prod.splits)
    with touch_key_get [OF assms(2) Some, of now] touch_key_ok [OF assms(2), of now k] Some
    show ?thesis by simp
  next
    case N2: None
    show ?thesis
    proof (cases "count_keys (race d) u < max_keys")
      case True
      obtain d' where d': "insert_signing_key ?row (race d) = Inr d'"
        by (cases "insert_signing_key ?row (race d)")
          (use N2 assms(3) in \<open>auto elim: insert_signing_key_fails\<close>)
      with True None N2 insert_signing_key_adds [OF d'] insert_signing_key_ok [OF d' assms(2)] show ?thesis
        by (simp add: register_explicit_key_def capped_insert_def u)
    next
      case False
      with None N2 assms(2) show ?thesis by (simp add: register_explicit_key_def capped_insert_def u)
    qed
  qed
qed

text \<open>Observing a key on send binds it, unless a revocation of the same key interferes with
  both attempts.\<close>

lemma record_attempts_binds:
  assumes "schema_ok d" and "\<And>n e. schema_ok e \<Longrightarrow> schema_ok (race n e)"
    and "\<And>n e. get_key e u p \<noteq> None \<Longrightarrow> get_key (race n e) u p \<noteq> None"
    and "ids \<noteq> []" and "\<forall>k \<in> set (signing_keys (race n d)). sk_id k \<noteq> hd ids"
  shows "\<exists>k d'. record_attempts race n now ids u p v d = Inr (k, d') \<and> get_key d' u p = Some k \<and> schema_ok d'"
proof -
  obtain i rest where ids: "ids = i # rest" using assms(4) by (cases ids) auto
  have ok: "schema_ok (race n d)" using assms(1,2) by blast
  show ?thesis
  proof (cases "insert_signing_key (new_key now i u p v) (race n d)")
    case (Inr d')
    with insert_signing_key_adds [OF Inr] insert_signing_key_ok [OF Inr ok] show ?thesis by (simp add: ids)
  next
    case (Inl e)
    obtain k where "get_key (race n d) u p = Some k"
      using insert_signing_key_fails [OF Inl] assms(5) by (auto simp: ids)
    then obtain k' where k': "get_key (race (Suc n) (race n d)) u p = Some k'" using assms(3) by fastforce
    have ok2: "schema_ok (race (Suc n) (race n d))" using assms(2) ok by blast
    from touch_key_get [OF ok2 k', of now] touch_key_ok [OF ok2, of now k'] Inl k'
    show ?thesis by (simp add: ids) (metis prod.collapse)
  qed
qed

end
