(* ===== verification/Messages.thy ===== *)
theory Messages
  imports Channels Moderation SigningKeys
begin

text \<open>Messages (\<open>domain/messages_service.py\<close>): sending, ingesting from the bus, the
  single-message read gate, the per-channel fence, and history paging. History interleaves
  messages and take-down retractions on one identifier axis. New identifiers and the clock
  are arguments; \<open>race\<close> is what other sessions commit between the reads of a send and its
  writes.\<close>

section \<open>Definitions\<close>

subsection \<open>Sending\<close>

datatype send_error = BlockedDmSend | OriginKeyError | SendIntegrityError

definition should_federate :: "channel \<Rightarrow> bool" where
  "should_federate c \<longleftrightarrow> ch_kind c \<noteq> DM \<and> \<not> is_dm_channel_name (ch_aiko_channel c)"

definition message_by_client_id :: "db \<Rightarrow> ident \<Rightarrow> string \<Rightarrow> message option" where
  "message_by_client_id d channel_id client_msg_id =
     find (\<lambda>m. m_channel_id m = channel_id \<and> m_client_msg_id m = Some client_msg_id) (messages d)"

text \<open>The block gate of a direct message: a key that does not decode fails closed.\<close>

definition dm_send_blocked :: "db \<Rightarrow> ident \<Rightarrow> channel \<Rightarrow> bool" where
  "dm_send_blocked d user_id c \<longleftrightarrow> ch_kind c = DM \<and>
     (case canonical_peer_ids (ch_aiko_channel c) user_id of
        None \<Rightarrow> True
      | Some peers \<Rightarrow> peers \<noteq> [] \<and> list_ex (\<lambda>p. p \<in> set (blocked_pair_user_ids d user_id)) peers)"

text \<open>\<open>SenderKind(user.kind)\<close>: the member with the same value.\<close>

definition sender_kind_of :: "user_kind \<Rightarrow> sender_kind" where
  "sender_kind_of k = (case k of HUMAN \<Rightarrow> SENDER_HUMAN | AGENT \<Rightarrow> SENDER_AGENT)"

definition record_origin :: "(db \<Rightarrow> db) \<Rightarrow> instant \<Rightarrow> ident \<Rightarrow> ident \<Rightarrow> ident \<Rightarrow> json option \<Rightarrow> db \<Rightarrow>
    send_error + db" where
  "record_origin race now i1 i2 user_id origin d =
     (case origin of
        None \<Rightarrow> Inr (race d)
      | Some env \<Rightarrow>
          (case (jget ''sender_pubkey'' env, jget ''key_version'' env) of
             (Some (JStr pubkey), Some (JInt key_version)) \<Rightarrow>
               (case record_signing_key (\<lambda>n. if n = 0 then race else id) now i1 i2 user_id pubkey key_version d of
                  Inl _ \<Rightarrow> Inl SendIntegrityError
                | Inr (_, d') \<Rightarrow> Inr d')
           | _ \<Rightarrow> Inl OriginKeyError))"

definition outbound_row :: "instant \<Rightarrow> ident \<Rightarrow> user \<Rightarrow> channel \<Rightarrow> string \<Rightarrow> string \<Rightarrow> ident option \<Rightarrow>
    json option \<Rightarrow> json list option \<Rightarrow> message" where
  "outbound_row now new_id u c body client_msg_id reply_to origin mentions =
     \<lparr>m_id = new_id, m_channel_id = ch_id c, m_sender_user_id = Some (u_id u),
      m_sender_kind = sender_kind_of (u_kind u), m_sender_label = Some (u_display_name u), m_body = body,
      m_reply_to = reply_to, m_client_msg_id = Some client_msg_id, m_aiko_origin = False, m_origin = origin,
      m_mentions = (case mentions of None \<Rightarrow> None | Some ms \<Rightarrow> if ms = [] then None else Some ms),
      m_created_at = now, m_edited_at = None, m_deleted_at = None\<rparr>"

text \<open>\<open>k1\<close> and \<open>k2\<close> are the identifiers a signing-key row would get, \<open>new_id\<close> the message's.\<close>

definition create_outbound :: "(db \<Rightarrow> db) \<Rightarrow> instant \<Rightarrow> ident \<Rightarrow> ident \<Rightarrow> ident \<Rightarrow> user \<Rightarrow> channel \<Rightarrow> string \<Rightarrow>
    string \<Rightarrow> ident option \<Rightarrow> json option \<Rightarrow> json list option \<Rightarrow> db \<Rightarrow> send_error + ((message \<times> bool) \<times> db)" where
  "create_outbound race now new_id k1 k2 u c body client_msg_id reply_to origin mentions d =
     (case message_by_client_id d (ch_id c) client_msg_id of
        Some existing \<Rightarrow> Inr ((existing, False), d)
      | None \<Rightarrow>
          if dm_send_blocked d (u_id u) c then Inl BlockedDmSend
          else case record_origin race now k1 k2 (u_id u) origin d of
                 Inl e \<Rightarrow> Inl e
               | Inr d1 \<Rightarrow>
                   let row = outbound_row now new_id u c body client_msg_id reply_to origin mentions
                   in case insert_message row d1 of
                        Inl _ \<Rightarrow> Inl SendIntegrityError
                      | Inr d2 \<Rightarrow> Inr ((row, True), d2))"

subsection \<open>Ingest\<close>

record inbound_message =
  im_username :: "string option"
  im_channel :: "string option"
  im_timestamp :: "instant option"
  im_message :: string
  im_raw :: string

datatype ingest_error = InvalidTimestamp | IngestIntegrityError

definition kind_for :: "user option \<Rightarrow> sender_kind" where
  "kind_for sender_user = (case sender_user of Some u \<Rightarrow> sender_kind_of (u_kind u) | None \<Rightarrow> SENDER_UNKNOWN)"

text \<open>\<open>datetime.fromtimestamp(t, utc)\<close> in microseconds: it raises outside the years 1 to 9999.
  A missing or zero timestamp reads the clock.\<close>

definition fromtimestamp :: "instant \<Rightarrow> instant option" where
  "fromtimestamp t = (if -62135596800000000 \<le> t \<and> t < 253402300800000000 then Some t else None)"

definition truthy :: "string option \<Rightarrow> string option" where
  "truthy s = (case s of None \<Rightarrow> None | Some x \<Rightarrow> if x = [] then None else Some x)"

definition persist_inbound :: "instant \<Rightarrow> ident \<Rightarrow> ident \<Rightarrow> inbound_message \<Rightarrow> db \<Rightarrow>
    ingest_error + (message option \<times> db)" where
  "persist_inbound now new_ch_id new_id msg d =
     (case truthy (im_channel msg) of
        None \<Rightarrow> Inr (None, d)
      | Some ch \<Rightarrow>
          (case upsert_channel now new_ch_id ch d of
             Inl ReservedDmChannel \<Rightarrow> Inr (None, d)
           | Inl ChannelIntegrityError \<Rightarrow> Inl IngestIntegrityError
           | Inr (c, d1) \<Rightarrow>
               let sender_user = (case truthy (im_username msg) of
                     None \<Rightarrow> None | Some u \<Rightarrow> find (\<lambda>x. u_aiko_username x = u) (users d1))
               in case (case im_timestamp msg of
                          None \<Rightarrow> Some now | Some t \<Rightarrow> if t = 0 then Some now else fromtimestamp t) of
                    None \<Rightarrow> Inl InvalidTimestamp
                  | Some created \<Rightarrow>
                      let row = \<lparr>m_id = new_id, m_channel_id = ch_id c,
                            m_sender_user_id = map_option u_id sender_user, m_sender_kind = kind_for sender_user,
                            m_sender_label = im_username msg, m_body = im_message msg, m_reply_to = None,
                            m_client_msg_id = None, m_aiko_origin = True, m_origin = None, m_mentions = None,
                            m_created_at = created, m_edited_at = None, m_deleted_at = None\<rparr>
                      in case insert_message row d1 of
                           Inl _ \<Rightarrow> Inl IngestIntegrityError
                         | Inr d2 \<Rightarrow> Inr (Some row, d2)))"

subsection \<open>Reading\<close>

definition visible_message :: "db \<Rightarrow> ident \<Rightarrow> ident \<Rightarrow> message option" where
  "visible_message d viewer_id message_id =
     (case get_message d message_id of
        None \<Rightarrow> None
      | Some msg \<Rightarrow>
          if m_deleted_at msg \<noteq> None then None
          else case readable_channel d viewer_id (m_channel_id msg) of
                 None \<Rightarrow> None
               | Some _ \<Rightarrow>
                   (case m_sender_user_id msg of
                      None \<Rightarrow> Some msg
                    | Some s \<Rightarrow> if s \<in> set (blocked_pair_user_ids d viewer_id) then None else Some msg))"

text \<open>The rows the read paths select.\<close>

definition shown_messages :: "db \<Rightarrow> ident \<Rightarrow> ident \<Rightarrow> message list" where
  "shown_messages d channel_id viewer_id =
     filter (\<lambda>m. m_channel_id m = channel_id \<and> m_deleted_at m = None \<and> not_blocked_predicate d viewer_id m)
       (messages d)"

definition channel_retractions :: "db \<Rightarrow> ident \<Rightarrow> retraction list" where
  "channel_retractions d channel_id = filter (\<lambda>r. ret_channel_id r = channel_id) (message_retractions d)"

definition last_visible_message :: "db \<Rightarrow> ident \<Rightarrow> ident \<Rightarrow> message option" where
  "last_visible_message d channel_id viewer_id =
     (case take 1 (order_desc m_id (shown_messages d channel_id viewer_id)) of [] \<Rightarrow> None | m # _ \<Rightarrow> Some m)"

text \<open>SQL \<open>max\<close> of a column: NULL on no rows.\<close>

definition sql_max :: "ident list \<Rightarrow> ident option" where
  "sql_max xs = (if xs = [] then None else Some (Max (set xs)))"

definition last_visible_messages :: "db \<Rightarrow> ident list \<Rightarrow> ident \<Rightarrow> (ident \<rightharpoonup> message)" where
  "last_visible_messages d channel_ids viewer_id =
     (let max_ids = List.map_filter (\<lambda>cid. sql_max (map m_id (shown_messages d cid viewer_id))) channel_ids
      in map_of (map (\<lambda>m. (m_channel_id m, m)) (rev (filter (\<lambda>m. m_id m \<in> set max_ids) (messages d)))))"

definition latest_ulids :: "db \<Rightarrow> ident list \<Rightarrow> ident \<Rightarrow> (ident \<rightharpoonup> ident)" where
  "latest_ulids d channel_ids viewer_id = (\<lambda>cid.
     if cid \<in> set channel_ids
     then Some (max (case sql_max (map m_id (shown_messages d cid viewer_id)) of None \<Rightarrow> [] | Some x \<Rightarrow> x)
                    (case sql_max (map ret_id (channel_retractions d cid)) of None \<Rightarrow> [] | Some x \<Rightarrow> x))
     else None)"

definition latest_ulid :: "db \<Rightarrow> ident \<Rightarrow> ident \<Rightarrow> ident" where
  "latest_ulid d channel_id viewer_id = the (latest_ulids d [channel_id] viewer_id channel_id)"

datatype history_item = MsgItem message | RetItem retraction

fun item_id :: "history_item \<Rightarrow> ident" where
  "item_id (MsgItem m) = m_id m"
| "item_id (RetItem r) = ret_id r"

text \<open>A page. Both SELECTs run in one transaction; they are taken to see one state, as SQLite's snapshot makes
  them.\<close>

definition get_history :: "db \<Rightarrow> ident \<Rightarrow> ident \<Rightarrow> ident option \<Rightarrow> ident option \<Rightarrow> nat \<Rightarrow> history_item list" where
  "get_history d channel_id viewer_id before after limit =
     (let msg_rows = shown_messages d channel_id viewer_id;
          ret_rows = channel_retractions d channel_id
      in case after of
           Some a \<Rightarrow>
             let msgs = take limit (order_asc m_id (filter (\<lambda>m. m_id m > a) msg_rows));
                 rets = take limit (order_asc ret_id (filter (\<lambda>r. ret_id r > a) ret_rows))
             in take limit (sort_key item_id (map MsgItem msgs @ map RetItem rets))
         | None \<Rightarrow>
             let msg_rows' = (case before of None \<Rightarrow> msg_rows
                   | Some b \<Rightarrow> if b = [] then msg_rows else filter (\<lambda>m. m_id m < b) msg_rows);
                 ret_rows' = (case before of None \<Rightarrow> ret_rows
                   | Some b \<Rightarrow> if b = [] then ret_rows else filter (\<lambda>r. ret_id r < b) ret_rows);
                 msgs = take limit (order_desc m_id msg_rows');
                 rets = take limit (order_desc ret_id ret_rows')
             in rev (take limit (rev (sort_key item_id (map MsgItem msgs @ map RetItem rets)))))"

section \<open>The interleaved stream\<close>

text \<open>All items of a channel a viewer is shown, in identifier order, and the assumption that
  messages and retractions draw their identifiers from one source without collision.\<close>

definition history_items :: "db \<Rightarrow> ident \<Rightarrow> ident \<Rightarrow> history_item list" where
  "history_items d cid v =
     sort_key item_id (map MsgItem (shown_messages d cid v) @ map RetItem (channel_retractions d cid))"

definition ids_disjoint :: "db \<Rightarrow> bool" where
  "ids_disjoint d \<longleftrightarrow> (\<forall>m \<in> set (messages d). \<forall>r \<in> set (message_retractions d). m_id m \<noteq> ret_id r)"

fun is_msg :: "history_item \<Rightarrow> bool" where
  "is_msg (MsgItem _) = True"
| "is_msg (RetItem _) = False"

lemma sort_key_map: "sort_key f (map g xs) = map g (sort_key (\<lambda>x. f (g x)) xs)"
proof (induction xs)
  case (Cons x xs)
  have "insort_key f (g x) (map g ys) = map g (insort_key (\<lambda>x. f (g x)) x ys)" for ys
    by (induction ys) auto
  with Cons show ?case by simp
qed simp

lemma filter_msg [simp]:
  "filter (\<lambda>i. P (item_id i) \<and> is_msg i) (map MsgItem ms) = map MsgItem (filter (\<lambda>m. P (m_id m)) ms)"
  "filter (\<lambda>i. P (item_id i) \<and> \<not> is_msg i) (map MsgItem ms) = []"
  "filter (\<lambda>i. P (item_id i) \<and> is_msg i) (map RetItem rs) = []"
  "filter (\<lambda>i. P (item_id i) \<and> \<not> is_msg i) (map RetItem rs) = map RetItem (filter (\<lambda>r. P (ret_id r)) rs)"
  by (induction ms, simp_all) (induction rs, simp_all)+

lemma stream_parts:
  "filter is_msg (filter (\<lambda>i. P (item_id i)) (history_items d cid v)) =
     map MsgItem (order_asc m_id (filter (\<lambda>m. P (m_id m)) (shown_messages d cid v)))"
  "filter (\<lambda>i. \<not> is_msg i) (filter (\<lambda>i. P (item_id i)) (history_items d cid v)) =
     map RetItem (order_asc ret_id (filter (\<lambda>r. P (ret_id r)) (channel_retractions d cid)))"
  by (simp_all add: history_items_def filter_sort order_asc_def sort_key_map)

text \<open>Limiting the two queries before the merge loses nothing of the first \<open>n\<close> items.\<close>

lemma take_of_parts:
  fixes T :: "'a list"
  defines "L \<equiv> \<lambda>P n. take n (filter P T)"
  shows "take n (filter (\<lambda>x. x \<in> set (L P n @ L (\<lambda>x. \<not> P x) n)) T) = take n T"
proof -
  have kept: "x \<in> set (L P n)" if "x \<in> set (take n T)" "P x" for x P
  proof -
    have "filter P T = filter P (take n T) @ filter P (drop n T)"
      by (metis append_take_drop_id filter_append)
    moreover have "length (filter P (take n T)) \<le> n"
      using length_filter_le [of P "take n T"] by simp
    ultimately have "L P n = filter P (take n T) @ take (n - length (filter P (take n T))) (filter P (drop n T))"
      by (simp add: L_def)
    with that show ?thesis by simp
  qed
  let ?Q = "\<lambda>x. x \<in> set (L P n @ L (\<lambda>x. \<not> P x) n)"
  have all: "filter ?Q (take n T) = take n T"
  proof (rule filter_True, rule ballI)
    fix x assume "x \<in> set (take n T)"
    then show "?Q x" using kept [of x P] kept [of x "\<lambda>x. \<not> P x"] by (cases "P x") simp_all
  qed
  have "filter ?Q T = filter ?Q (take n T) @ filter ?Q (drop n T)"
    by (metis append_take_drop_id filter_append)
  then show ?thesis unfolding all by (cases "n \<le> length T") simp_all
qed

lemma merge_parts:
  fixes T :: "history_item list"
  assumes "L = take n (filter P T) @ take n (filter (\<lambda>x. \<not> P x) T)" and "distinct (map item_id T)"
  shows "sorted (map item_id T) \<Longrightarrow> take n (sort_key item_id L) = take n T"
    and "sorted (map item_id (rev T)) \<Longrightarrow> take n (rev (sort_key item_id L)) = take n T"
proof -
  note L_def = assms(1)
  have dT: "distinct T" "inj_on item_id (set T)" using assms(2) by (auto simp: distinct_map)
  have sL: "set L \<subseteq> set T" unfolding L_def by (auto dest: in_set_takeD)
  have dL: "distinct L" unfolding L_def using dT(1) by (auto dest!: in_set_takeD)
  let ?F = "filter (\<lambda>x. x \<in> set L) T"
  have m: "mset L = mset ?F" using dL dT(1) sL by (intro set_eq_iff_mset_eq_distinct [THEN iffD1]) auto
  have inj: "inj_on item_id (set L)" using dT(2) sL by (rule inj_on_subset)
  have tk: "take n ?F = take n T" using take_of_parts [of n P T] unfolding L_def by simp
  {
    assume "sorted (map item_id T)"
    then have "sorted (map item_id ?F)" by (rule sorted_filter)
    with m inj have "sort_key item_id L = ?F" by (rule sort_key_inj_key_eq)
    with tk show "take n (sort_key item_id L) = take n T" by simp
  }
  assume "sorted (map item_id (rev T))"
  then have "sorted (map item_id (filter (\<lambda>x. x \<in> set L) (rev T)))" by (rule sorted_filter)
  then have "sorted (map item_id (rev ?F))" by (simp add: rev_filter)
  moreover have "mset L = mset (rev ?F)" using m by simp
  ultimately have "sort_key item_id L = rev ?F" using inj by (intro sort_key_inj_key_eq)
  with tk show "take n (rev (sort_key item_id L)) = take n T" by simp
qed

lemma history_items_unique:
  assumes "schema_ok d" and "ids_disjoint d"
  shows "distinct (map item_id (history_items d cid v))"
proof -
  have "distinct (map m_id (shown_messages d cid v))" "distinct (map ret_id (channel_retractions d cid))"
    using schema_okD(10,15) [OF assms(1)]
    by (simp_all add: shown_messages_def channel_retractions_def unique_on_def distinct_map_filter)
  moreover have "m_id ` set (shown_messages d cid v) \<inter> ret_id ` set (channel_retractions d cid) = {}"
    using assms(2) by (auto simp: ids_disjoint_def shown_messages_def channel_retractions_def)
  ultimately have "distinct (map item_id (map MsgItem (shown_messages d cid v) @ map RetItem (channel_retractions d cid)))"
    by (simp add: comp_def image_image)
  moreover have "mset (map item_id (history_items d cid v)) =
      mset (map item_id (map MsgItem (shown_messages d cid v) @ map RetItem (channel_retractions d cid)))"
    unfolding history_items_def by (simp only: mset_map mset_sort)
  ultimately show ?thesis using mset_eq_imp_distinct_iff by metis
qed

lemma history_items_sorted: "sorted (map item_id (history_items d cid v))"
  by (simp add: history_items_def)

text \<open>The pages of both directions as slices of the stream.\<close>

lemma get_history_after:
  assumes "schema_ok d" and "ids_disjoint d"
  shows "get_history d cid v b (Some a) n = take n (filter (\<lambda>i. a < item_id i) (history_items d cid v))"
proof -
  let ?T = "filter (\<lambda>i. a < item_id i) (history_items d cid v)"
  have "distinct (map item_id ?T)" using history_items_unique [OF assms] by (rule distinct_map_filter)
  moreover have "sorted (map item_id ?T)" using history_items_sorted by (rule sorted_filter)
  ultimately have "take n (sort_key item_id (take n (filter is_msg ?T) @ take n (filter (\<lambda>i. \<not> is_msg i) ?T))) = take n ?T"
    by (rule merge_parts(1) [OF refl])
  then show ?thesis unfolding stream_parts by (simp add: get_history_def Let_def take_map)
qed

lemma get_history_last:
  assumes "schema_ok d" and "ids_disjoint d"
    and P: "\<And>i. P i \<longleftrightarrow> (case b of None \<Rightarrow> True | Some x \<Rightarrow> x = [] \<or> i < x)"
  shows "get_history d cid v b None n =
    rev (take n (rev (filter (\<lambda>i. P (item_id i)) (history_items d cid v))))"
proof -
  let ?T = "filter (\<lambda>i. P (item_id i)) (history_items d cid v)"
  have "distinct (map item_id (rev ?T))"
    using distinct_map_filter [OF history_items_unique [OF assms(1,2)]] by (simp add: rev_map [symmetric])
  moreover have "sorted (map item_id (rev (rev ?T)))" using sorted_filter [OF history_items_sorted] by simp
  ultimately have "take n (rev (sort_key item_id (take n (filter is_msg (rev ?T)) @
      take n (filter (\<lambda>i. \<not> is_msg i) (rev ?T))))) = take n (rev ?T)"
    by (rule merge_parts(2) [OF refl])
  moreover have "filter is_msg (rev ?T) = map MsgItem (order_desc m_id (filter (\<lambda>m. P (m_id m)) (shown_messages d cid v)))"
    "filter (\<lambda>i. \<not> is_msg i) (rev ?T) = map RetItem (order_desc ret_id (filter (\<lambda>r. P (ret_id r)) (channel_retractions d cid)))"
    using stream_parts [of P d cid v] by (simp_all add: rev_filter [symmetric] rev_map order_desc_def order_asc_def)
  ultimately have "take n (rev (sort_key item_id
      (map MsgItem (take n (order_desc m_id (filter (\<lambda>m. P (m_id m)) (shown_messages d cid v)))) @
       map RetItem (take n (order_desc ret_id (filter (\<lambda>r. P (ret_id r)) (channel_retractions d cid))))))) = take n (rev ?T)"
    by (simp add: take_map)
  then show ?thesis by (cases b) (auto simp: get_history_def Let_def P)
qed

section \<open>History, fence and read gate\<close>


definition ex_msg :: "ident \<Rightarrow> message" where
  "ex_msg i = \<lparr>m_id = i, m_channel_id = ''c1'', m_sender_user_id = Some ''a'', m_sender_kind = SENDER_HUMAN,
     m_sender_label = None, m_body = ''hi'', m_reply_to = None, m_client_msg_id = None, m_aiko_origin = False,
     m_origin = None, m_mentions = None, m_created_at = 0, m_edited_at = None, m_deleted_at = None\<rparr>"

definition ex_hist :: db where
  "ex_hist = ex_bus\<lparr>messages := [ex_msg ''01'', ex_msg ''03'', ex_msg ''04''],
     message_retractions := [\<lparr>ret_id = ''02'', ret_target_msg_id = ''00'', ret_channel_id = ''c1'', ret_created_at = 0\<rparr>]\<rparr>"

lemma ex_hist_ok: "schema_ok ex_hist" "ids_disjoint ex_hist"
  by (simp_all add: schema_ok_def ids_disjoint_def ex_hist_def ex_msg_def ex_bus_def empty_db_def
      bus_channel_def channel_checks_def plain_member_def mb_key_def m_client_key_def)

lemma ex_hist_items:
  "map item_id (history_items ex_hist ''c1'' ''u'') = [''01'', ''02'', ''03'', ''04'']"
  by (simp add: history_items_def shown_messages_def channel_retractions_def ex_hist_def ex_msg_def
      not_blocked_predicate_def ex_bus_def empty_db_def)


text \<open>Walking the pages misses nothing and repeats nothing. A forward page followed by
  everything after its last item is everything after the cursor; a page shorter than the
  limit is the end.\<close>

theorem history_pages_compose:
  assumes "schema_ok d" and "ids_disjoint d" and "get_history d cid v b (Some a) n = xs" and "xs \<noteq> []"
  shows "filter (\<lambda>i. a < item_id i) (history_items d cid v) =
      xs @ filter (\<lambda>i. item_id (last xs) < item_id i) (history_items d cid v) \<and>
    (length xs < n \<longrightarrow> filter (\<lambda>i. item_id (last xs) < item_id i) (history_items d cid v) = [])"
proof -
  let ?S = "history_items d cid v"
  let ?T = "filter (\<lambda>i. a < item_id i) ?S"
  have xs: "xs = take n ?T" using assms(3) get_history_after [OF assms(1,2)] by simp
  have T: "?T = xs @ drop n ?T" by (simp add: xs)
  have st: "sorted (map item_id ?T)" "distinct (map item_id ?T)"
    using sorted_filter [OF history_items_sorted] distinct_map_filter [OF history_items_unique [OF assms(1,2)]]
    by blast+
  have sw: "sorted_wrt (<) (map item_id ?T)" using st by (simp add: strict_sorted_iff)
  then have sw': "sorted_wrt (<) (map item_id (xs @ drop n ?T))" using T by simp
  have lastx: "last xs \<in> set xs" "a < item_id (last xs)"
    using assms(4) xs in_set_takeD [of "last xs" n ?T] by (auto dest: last_in_set)
  have "filter (\<lambda>i. item_id (last xs) < item_id i) ?S = filter (\<lambda>i. item_id (last xs) < item_id i) ?T"
    using lastx(2) by (auto simp: filter_filter intro!: filter_cong)
  also have "\<dots> = filter (\<lambda>i. item_id (last xs) < item_id i) (xs @ drop n ?T)" using T by simp
  also have "\<dots> = drop n ?T" using sw' assms(4) by (rule filter_after_prefix)
  finally have r: "filter (\<lambda>i. item_id (last xs) < item_id i) ?S = drop n ?T" .
  moreover have "drop n ?T = []" if "length xs < n" using that by (simp add: xs)
  ultimately show ?thesis using T by simp
qed

text \<open>The greatest of the two column maxima is the last identifier of the stream.\<close>

lemma sql_max_Max: "xs \<noteq> [] \<Longrightarrow> sql_max xs = Some (Max (set xs))" "sql_max [] = None"
  by (simp_all add: sql_max_def)

lemma last_sorted_Max: "sorted xs \<Longrightarrow> xs \<noteq> [] \<Longrightarrow> last xs = Max (set xs)"
  by (cases xs rule: rev_cases) (auto simp: sorted_append intro!: Max_eqI [symmetric])

lemma max_Nil [simp]: "max [] (x :: ident) = x" "max (x :: ident) [] = x"
  by (simp_all add: max_def)

lemma latest_ulid_stream:
  "latest_ulid d cid v = (case history_items d cid v of [] \<Rightarrow> [] | _ \<Rightarrow> item_id (last (history_items d cid v)))"
proof -
  let ?M = "map m_id (shown_messages d cid v)" and ?R = "map ret_id (channel_retractions d cid)"
  have ids: "item_id ` set (history_items d cid v) = set ?M \<union> set ?R"
    by (simp add: history_items_def image_Un image_image)
  have l: "latest_ulid d cid v = max (case sql_max ?M of None \<Rightarrow> [] | Some x \<Rightarrow> x) (case sql_max ?R of None \<Rightarrow> [] | Some x \<Rightarrow> x)"
    by (simp add: latest_ulid_def latest_ulids_def)
  show ?thesis
  proof (cases "history_items d cid v")
    case Nil
    then have "?M = []" "?R = []" using ids by auto
    with l Nil show ?thesis by (simp add: sql_max_def)
  next
    case (Cons i is')
    then have ne: "history_items d cid v \<noteq> []" by simp
    have "item_id (last (history_items d cid v)) = Max (set ?M \<union> set ?R)"
      using last_sorted_Max [OF history_items_sorted, of d cid v] ne ids by (simp add: last_map)
    moreover have "max (case sql_max ?M of None \<Rightarrow> [] | Some x \<Rightarrow> x) (case sql_max ?R of None \<Rightarrow> [] | Some x \<Rightarrow> x) = Max (set ?M \<union> set ?R)"
    proof (cases "?M = [] \<or> ?R = []")
      case True
      moreover have "?M \<noteq> [] \<or> ?R \<noteq> []" using ids ne by auto
      ultimately show ?thesis by (auto simp: sql_max_def)
    next
      case False
      then show ?thesis by (simp add: sql_max_def Max_Un)
    qed
    ultimately show ?thesis using l Cons by simp
  qed
qed

text \<open>The read paths agree. The fence a client compares its watermark with is the
  identifier of the last item history would show this viewer, or empty when there is none;
  and the gate for a single message admits exactly the messages history shows, in the
  channels the viewer may read.\<close>

theorem fence_and_gate_agree_with_history:
  assumes "schema_ok d"
  shows "latest_ulid d cid v =
      (case history_items d cid v of [] \<Rightarrow> [] | _ \<Rightarrow> item_id (last (history_items d cid v))) \<and>
    (visible_message d v (m_id m) = Some m \<longleftrightarrow>
       readable_channel d v (m_channel_id m) \<noteq> None \<and> MsgItem m \<in> set (history_items d (m_channel_id m) v))"
proof -
  have um: "get_message d (m_id m) = Some m" if "m \<in> set (messages d)"
    unfolding get_message_def by (rule find_unique [OF schema_okD(10) [OF assms] that])
  have "MsgItem m \<in> set (history_items d (m_channel_id m) v) \<longleftrightarrow>
      m \<in> set (messages d) \<and> m_deleted_at m = None \<and> not_blocked_predicate d v m"
    by (auto simp: history_items_def shown_messages_def image_iff)
  then have "visible_message d v (m_id m) = Some m \<longleftrightarrow>
       readable_channel d v (m_channel_id m) \<noteq> None \<and> MsgItem m \<in> set (history_items d (m_channel_id m) v)"
    using um get_message_SomeD [of d "m_id m" m]
    by (auto simp: visible_message_def not_blocked_iff split: option.splits if_splits)
  with latest_ulid_stream show ?thesis by blast
qed

section \<open>Sends\<close>

lemma sender_kind_of_value: "sender_kind_value (sender_kind_of k) = user_kind_value k"
  by (cases k) (simp_all add: sender_kind_of_def)

lemma outbound_row_sel [simp]:
  "m_id (outbound_row now i u c body k rt og me) = i"
  "m_channel_id (outbound_row now i u c body k rt og me) = ch_id c"
  "m_client_msg_id (outbound_row now i u c body k rt og me) = Some k"
  "m_sender_user_id (outbound_row now i u c body k rt og me) = Some (u_id u)"
  "m_deleted_at (outbound_row now i u c body k rt og me) = None"
  by (simp_all add: outbound_row_def)

lemma create_outbound_cases:
  assumes "create_outbound race now i k1 k2 u c body k rt og me d = Inr ((m, created), d')"
  obtains (resend) "message_by_client_id d (ch_id c) k = Some m" "\<not> created" "d' = d"
  | (fresh) d1 where "message_by_client_id d (ch_id c) k = None" "created" "\<not> dm_send_blocked d (u_id u) c"
      "record_origin race now k1 k2 (u_id u) og d = Inr d1" "m = outbound_row now i u c body k rt og me"
      "insert_message m d1 = Inr d'"
  using assms unfolding create_outbound_def
  by (auto simp: Let_def split: option.splits if_splits sum.splits)

lemma insert_message_found:
  assumes "insert_message m d = Inr d'" and "m_client_msg_id m = Some k"
  shows "message_by_client_id d' (m_channel_id m) k = Some m \<and> messages d' = messages d @ [m] \<and>
    signing_keys d' = signing_keys d"
proof -
  have d': "d' = d\<lparr>messages := messages d @ [m]\<rparr>"
    and new: "\<forall>r \<in> set (messages d). m_client_key r \<noteq> m_client_key m"
    using assms by (auto simp: insert_message_def list_ex_iff m_client_key_def split: if_splits)
  have "find (\<lambda>r. m_channel_id r = m_channel_id m \<and> m_client_msg_id r = Some k) (messages d) = None"
    using new assms(2) by (auto simp: row_simps m_client_key_def)
  with d' assms(2) show ?thesis by (simp add: message_by_client_id_def find_append)
qed

lemma record_origin_binds:
  assumes "record_origin race now k1 k2 uid og d = Inr d'" and "schema_ok (race d)"
    and "og = Some env" and "\<forall>x \<in> set (signing_keys (race d)). sk_id x \<noteq> k1"
  shows "\<exists>pk. jget ''sender_pubkey'' env = Some (JStr pk) \<and> get_key d' uid pk \<noteq> None"
proof -
  obtain pk kv where env: "jget ''sender_pubkey'' env = Some (JStr pk)" "jget ''key_version'' env = Some (JInt kv)"
    and r: "\<exists>x. record_signing_key (\<lambda>n. if n = 0 then race else id) now k1 k2 uid pk kv d = Inr (x, d')"
    using assms(1,3) by (auto simp: record_origin_def split: option.splits json.splits sum.splits prod.splits)
  have "\<exists>x e. record_attempts (\<lambda>_. id) 0 now [k1, k2] uid pk kv (race d) = Inr (x, e) \<and> get_key e uid pk = Some x \<and> schema_ok e"
    using assms(2,4) by (intro record_attempts_binds) auto
  moreover have "record_signing_key (\<lambda>n. if n = 0 then race else id) now k1 k2 uid pk kv d =
      record_attempts (\<lambda>_. id) 0 now [k1, k2] uid pk kv (race d)"
    by (simp add: record_signing_key_def Let_def split: sum.splits option.splits)
  ultimately show ?thesis using r env by auto
qed

text \<open>C5: sending is exactly-once per client message id and atomic with its key binding. A
  fresh send stores one row under the sender's account; when it carries a signature the
  signing key is bound to that account in the same commit; and every later send with that
  client message id in that channel, whatever else it carries, returns the first row and
  changes nothing.\<close>

theorem send_exactly_once:
  assumes "create_outbound race now i k1 k2 u c body k rt og me d = Inr ((m, True), d')"
    and "schema_ok (race d)" and "\<forall>x \<in> set (signing_keys (race d)). sk_id x \<noteq> k1"
  shows "m \<in> set (messages d') \<and> m_sender_user_id m = Some (u_id u) \<and> m_channel_id m = ch_id c \<and>
    (\<forall>env. og = Some env \<longrightarrow> (\<exists>pk. jget ''sender_pubkey'' env = Some (JStr pk) \<and> get_key d' (u_id u) pk \<noteq> None)) \<and>
    create_outbound race' now' i' k1' k2' u' c body' k rt' og' me' d' = Inr ((m, False), d')"
  using assms(1)
proof (cases rule: create_outbound_cases)
  case resend then show ?thesis by simp
next
  case (fresh d1)
  have f: "message_by_client_id d' (ch_id c) k = Some m" "messages d' = messages d1 @ [m]" "signing_keys d' = signing_keys d1"
    using insert_message_found [OF fresh(6), of k] fresh(5) by simp_all
  have "\<exists>pk. jget ''sender_pubkey'' env = Some (JStr pk) \<and> get_key d' (u_id u) pk \<noteq> None" if "og = Some env" for env
    using record_origin_binds [OF fresh(4) assms(2) that assms(3)] f(3) by (simp add: get_key_def)
  with f fresh(5) show ?thesis by (simp add: create_outbound_def)
qed

theorem send_exactly_once_witness:
  "\<exists>m d'. create_outbound id 5 ''m1'' ''k1'' ''k2'' (ex_user ''a'') (bus_channel 0 ''c1'' ''general'') ''hi'' ''x1''
       None (Some (JObj [(''sender_pubkey'', JStr ''z6Mk''), (''key_version'', JInt 1)])) None ex_bus = Inr ((m, True), d') \<and>
     get_key d' ''a'' ''z6Mk'' \<noteq> None"
proof -
  let ?env = "JObj [(''sender_pubkey'', JStr ''z6Mk''), (''key_version'', JInt 1)]"
  have ok: "schema_ok (id ex_bus)" "\<forall>x \<in> set (signing_keys (id ex_bus)). sk_id x \<noteq> ''k1''"
    by (simp_all add: schema_ok_def ex_bus_def empty_db_def bus_channel_def channel_checks_def plain_member_def mb_key_def)
  obtain m d' where s: "create_outbound id 5 ''m1'' ''k1'' ''k2'' (ex_user ''a'') (bus_channel 0 ''c1'' ''general'') ''hi'' ''x1''
       None (Some ?env) None ex_bus = Inr ((m, True), d')"
    by (simp add: create_outbound_def message_by_client_id_def ex_bus_def empty_db_def dm_send_blocked_def
        bus_channel_def record_origin_def record_signing_key_def insert_signing_key_def new_key_def
        insert_message_def Let_def)
  have u: "u_id (ex_user ''a'') = ''a''" by (simp add: ex_user_def)
  from send_exactly_once [OF s ok] have "\<exists>pk. jget ''sender_pubkey'' ?env = Some (JStr pk) \<and> get_key d' ''a'' pk \<noteq> None"
    unfolding u by blast
  with s show ?thesis by auto
qed

text \<open>A block between the two parties of a direct message stops new messages, both ways
  and only then: with an unused client message id, the send is refused as blocked exactly
  when either party blocks the other, read from the immutable pair in the channel key.\<close>

theorem dm_send_refused_iff_blocked:
  assumes "ulid_shape (u_id u)" and "ulid_shape b" and "ch_kind c = DM"
    and "ch_aiko_channel c = canonical_aiko_channel (u_id u) b"
    and "message_by_client_id d (ch_id c) k = None"
  shows "create_outbound race now i k1 k2 u c body k rt og me d = Inl BlockedDmSend \<longleftrightarrow>
    is_blocked_between d (u_id u) b"
proof -
  have p: "canonical_peer_ids (ch_aiko_channel c) (u_id u) = Some (if u_id u = b then [] else [b])"
    using dm_key_roundtrip [OF assms(1,2)] assms(4) by simp
  have "dm_send_blocked d (u_id u) c \<longleftrightarrow> is_blocked_between d (u_id u) b"
    using assms(3) by (auto simp: dm_send_blocked_def p is_blocked_between_iff)
  moreover have "create_outbound race now i k1 k2 u c body k rt og me d = Inl BlockedDmSend \<longleftrightarrow>
      dm_send_blocked d (u_id u) c"
    using assms(5)
    by (auto simp: create_outbound_def record_origin_def Let_def split: sum.splits option.splits json.splits)
  ultimately show ?thesis by blast
qed

definition ex_sender :: user where
  "ex_sender = (ex_user (replicate 26 CHR ''A''))"

text \<open>Idempotency of a send is a check followed by an insert. When a concurrent send with
  the same client message id commits in between, the call does not return that row: the
  uniqueness constraint refuses the insert and the error reaches the caller.\<close>

theorem racing_resend_raises:
  assumes "message_by_client_id d (ch_id c) k = None" and "\<not> dm_send_blocked d (u_id u) c"
    and "message_by_client_id (race d) (ch_id c) k = Some w"
  shows "create_outbound race now i k1 k2 u c body k rt None me d = Inl SendIntegrityError"
proof -
  have "w \<in> set (messages (race d))" "m_channel_id w = ch_id c" "m_client_msg_id w = Some k"
    using assms(3) by (auto simp: message_by_client_id_def dest: find_SomeD)
  then have "insert_message (outbound_row now i u c body k rt None me) (race d) = Inl IntegrityError"
    by (auto simp: insert_message_def list_ex_iff m_client_key_def)
  with assms(1,2) show ?thesis by (simp add: create_outbound_def record_origin_def)
qed

end
