(* ===== verification/ReadPositions.thy ===== *)
theory ReadPositions
  imports Messages
begin

text \<open>Per-user read positions (\<open>domain/read_positions_service.py\<close>): compare-and-swap on a
  version number the server increments. A batch is the list of a dictionary's items;
  \<open>race\<close> is what other sessions commit between the bound check and the writes, which run
  under the single writer.\<close>

section \<open>Definitions\<close>

datatype outcome = APPLIED | CONFLICT | SKIPPED

record entry_result =
  er_outcome :: outcome
  er_last_read :: "string option"
  er_seq :: "int option"

datatype read_position_error = InvalidReadPosition ident

type_synonym position = "ident \<times> (string \<times> int)"

definition MAX_BASE_SEQ :: int where
  "MAX_BASE_SEQ = 2 ^ 63 - 1 - 1"

text \<open>\<open>[0-7][0-9A-HJKMNP-TV-Z]{25}\<close>, matched in full.\<close>

definition crockford_char :: "char \<Rightarrow> bool" where
  "crockford_char c \<longleftrightarrow> c \<in> set ''0123456789ABCDEFGHJKMNPQRSTVWXYZ''"

definition canonical_ulid :: "string \<Rightarrow> bool" where
  "canonical_ulid s \<longleftrightarrow> length s = 26 \<and> hd s \<in> set ''01234567'' \<and> list_all crockford_char (tl s)"

definition validate_position :: "position \<Rightarrow> read_position_error + unit" where
  "validate_position p = (case p of (channel_id, (last_read, base_seq)) \<Rightarrow>
     if channel_id = [] then Inl (InvalidReadPosition channel_id)
     else if last_read \<noteq> [] \<and> \<not> canonical_ulid last_read then Inl (InvalidReadPosition channel_id)
     else if \<not> (0 \<le> base_seq \<and> base_seq \<le> MAX_BASE_SEQ) then Inl (InvalidReadPosition channel_id)
     else Inr ())"

definition stored_position :: "db \<Rightarrow> ident \<Rightarrow> ident \<Rightarrow> channel_read_position option" where
  "stored_position d user_id channel_id =
     find (\<lambda>p. rp_key p = (user_id, channel_id)) (channel_read_positions d)"

text \<open>The first entry past its bound is refused.\<close>

definition check_bounds :: "ident \<Rightarrow> position list \<Rightarrow> db \<Rightarrow> read_position_error + unit" where
  "check_bounds user_id positions d =
     (let ids = map fst (filter (\<lambda>(cid, (last_read, _)). last_read \<noteq> []) positions);
          readable = filter_readable_ids d user_id ids;
          visible = latest_ulids d readable user_id;
          bound = (\<lambda>cid. max (the (visible cid))
            (case stored_position d user_id cid of None \<Rightarrow> [] | Some p \<Rightarrow> rp_last_read p))
      in case find (\<lambda>cid. bound cid = [] \<or> fst (the (map_of positions cid)) > bound cid) readable of
           Some cid \<Rightarrow> Inl (InvalidReadPosition cid)
         | None \<Rightarrow> Inr ())"

definition write_position :: "instant \<Rightarrow> ident \<Rightarrow> ident \<Rightarrow> string \<Rightarrow> int \<Rightarrow> db \<Rightarrow> db" where
  "write_position now user_id channel_id last_read base_seq d =
     (let readable = (readable_channel d user_id channel_id \<noteq> None)
      in if base_seq = 0
         then (if readable \<and> get_user d user_id \<noteq> None \<and> stored_position d user_id channel_id = None
               then d\<lparr>channel_read_positions := channel_read_positions d @
                      [\<lparr>rp_user_id = user_id, rp_channel_id = channel_id, rp_last_read = last_read,
                        rp_seq = 1, rp_updated_at = now\<rparr>]\<rparr>
               else d)
         else d\<lparr>channel_read_positions := upd_where
                  (\<lambda>p. rp_key p = (user_id, channel_id) \<and> rp_seq p = base_seq \<and> readable)
                  (\<lambda>p. p\<lparr>rp_last_read := last_read, rp_seq := base_seq + 1, rp_updated_at := now\<rparr>)
                  (channel_read_positions d)\<rparr>)"

text \<open>One entry: the conditional statement, then the read-back that decides the outcome.\<close>

definition apply_entry :: "instant \<Rightarrow> ident \<Rightarrow> position \<Rightarrow> db \<Rightarrow> entry_result \<times> db" where
  "apply_entry now user_id p d = (case p of (channel_id, (last_read, base_seq)) \<Rightarrow>
     let d' = write_position now user_id channel_id last_read base_seq d
     in (case readable_channel d' user_id channel_id of
           None \<Rightarrow> \<lparr>er_outcome = SKIPPED, er_last_read = None, er_seq = None\<rparr>
         | Some _ \<Rightarrow>
             (case stored_position d' user_id channel_id of
                None \<Rightarrow> \<lparr>er_outcome = CONFLICT, er_last_read = None, er_seq = Some 0\<rparr>
              | Some row \<Rightarrow>
                  if rp_seq row = base_seq + 1 \<and> rp_last_read row = last_read
                  then \<lparr>er_outcome = APPLIED, er_last_read = Some (rp_last_read row), er_seq = Some (rp_seq row)\<rparr>
                  else \<lparr>er_outcome = CONFLICT, er_last_read = Some (rp_last_read row), er_seq = Some (rp_seq row)\<rparr>),
         d'))"

fun apply_entries :: "instant \<Rightarrow> ident \<Rightarrow> position list \<Rightarrow> db \<Rightarrow> (ident \<times> entry_result) list \<times> db" where
  "apply_entries now user_id [] d = ([], d)"
| "apply_entries now user_id (p # ps) d =
     (let (r, d1) = apply_entry now user_id p d; (rs, d2) = apply_entries now user_id ps d1
      in ((fst p, r) # rs, d2))"

fun validate_all :: "position list \<Rightarrow> read_position_error + unit" where
  "validate_all [] = Inr ()"
| "validate_all (p # ps) = (case validate_position p of Inl e \<Rightarrow> Inl e | Inr _ \<Rightarrow> validate_all ps)"

definition set_positions :: "(db \<Rightarrow> db) \<Rightarrow> instant \<Rightarrow> ident \<Rightarrow> position list \<Rightarrow> db \<Rightarrow>
    read_position_error + ((ident \<times> entry_result) list \<times> db)" where
  "set_positions race now user_id positions d =
     (case validate_all positions of
        Inl e \<Rightarrow> Inl e
      | Inr _ \<Rightarrow>
          if positions = [] then Inr ([], d)
          else case check_bounds user_id positions d of
                 Inl e \<Rightarrow> Inl e
               | Inr _ \<Rightarrow> Inr (apply_entries now user_id positions (race d)))"

definition get_positions :: "ident \<Rightarrow> db \<Rightarrow> (ident \<rightharpoonup> string \<times> int)" where
  "get_positions user_id d = map_of (map (\<lambda>p. (rp_channel_id p, (rp_last_read p, rp_seq p)))
     (filter (\<lambda>p. rp_user_id p = user_id) (channel_read_positions d)))"

section \<open>One entry\<close>

lemma write_position_frame [simp]:
  "channels (write_position now u c lr b d) = channels d"
  "memberships (write_position now u c lr b d) = memberships d"
  "users (write_position now u c lr b d) = users d"
  by (simp_all add: write_position_def Let_def)

lemma readable_write [simp]:
  "readable_channel (write_position now u c lr b d) v x = readable_channel d v x"
  by (simp add: readable_channel_def readable_predicate_def has_membership_def)

text \<open>The stored row after one entry: the swap happens exactly when the base is the version
  held, no row counting as version zero.\<close>

definition version :: "channel_read_position option \<Rightarrow> int" where
  "version po = (case po of None \<Rightarrow> 0 | Some p \<Rightarrow> rp_seq p)"

definition may_write :: "db \<Rightarrow> ident \<Rightarrow> ident \<Rightarrow> int \<Rightarrow> bool" where
  "may_write d u c b \<longleftrightarrow> readable_channel d u c \<noteq> None \<and> version (stored_position d u c) = b \<and>
     (b = 0 \<longrightarrow> get_user d u \<noteq> None)"

lemma stored_seq_pos: "schema_ok d \<Longrightarrow> stored_position d u c = Some p \<Longrightarrow> 1 \<le> rp_seq p"
  by (auto simp: schema_ok_def stored_position_def dest: find_SomeD)

lemma stored_position_SomeD: "stored_position d u c = Some p \<Longrightarrow> rp_user_id p = u \<and> rp_channel_id p = c"
  by (auto simp: stored_position_def rp_key_def dest: find_SomeD)

lemma stored_after_write:
  assumes "schema_ok d" and "0 \<le> b"
  shows "stored_position (write_position now u c lr b d) u' c' =
    (if (u', c') = (u, c) \<and> may_write d u c b
     then Some \<lparr>rp_user_id = u, rp_channel_id = c, rp_last_read = lr, rp_seq = b + 1, rp_updated_at = now\<rparr>
     else stored_position d u' c')"
proof (cases "b = 0")
  case True
  have "version (stored_position d u c) = 0 \<longleftrightarrow> stored_position d u c = None"
    using stored_seq_pos [OF assms(1), of u c] by (fastforce simp: version_def split: option.splits)
  then show ?thesis using True
    by (auto simp: write_position_def Let_def may_write_def stored_position_def find_append rp_key_def
        split: option.splits)
next
  case False
  let ?P = "\<lambda>p. rp_key p = (u, c) \<and> rp_seq p = b \<and> readable_channel d u c \<noteq> None"
  let ?f = "\<lambda>p. p\<lparr>rp_last_read := lr, rp_seq := b + 1, rp_updated_at := now\<rparr>"
  have "stored_position (write_position now u c lr b d) u' c' =
      map_option (\<lambda>p. if ?P p then ?f p else p) (stored_position d u' c')"
    using False by (simp add: write_position_def Let_def stored_position_def find_upd_where rp_key_def)
  note st = this
  show ?thesis
  proof (cases "stored_position d u' c'")
    case None
    then have "\<not> ((u', c') = (u, c) \<and> may_write d u c b)" using False by (auto simp: may_write_def version_def)
    with None st show ?thesis by simp
  next
    case (Some p)
    have k: "rp_user_id p = u'" "rp_channel_id p = c'" using stored_position_SomeD [OF Some] by simp_all
    have "?P p \<longleftrightarrow> (u', c') = (u, c) \<and> may_write d u c b"
      using Some False k by (auto simp: may_write_def version_def rp_key_def)
    with st Some k show ?thesis by (cases "?P p") (auto simp: rp_key_def)
  qed
qed

lemma write_position_ok:
  assumes "schema_ok d" and "0 \<le> b"
  shows "schema_ok (write_position now u c lr b d)"
proof -
  have "unique_on rp_key (channel_read_positions (write_position now u c lr b d))"
    using schema_okD(7) [OF assms(1)]
    by (auto simp: write_position_def Let_def stored_position_def row_simps unique_intros rp_key_def)
  moreover have "\<forall>p \<in> set (channel_read_positions (write_position now u c lr b d)). 1 \<le> rp_seq p"
    using assms by (auto simp: write_position_def Let_def schema_ok_def set_upd_where)
  ultimately show ?thesis using assms(1) by (simp add: schema_ok_def write_position_def Let_def)
qed

lemma apply_entry_cases:
  assumes "schema_ok d" and "0 \<le> b" and "apply_entry now u (c, (lr, b)) d = (r, d')"
  shows "schema_ok d'"
    and "stored_position d' u' c' =
      (if (u', c') = (u, c) \<and> may_write d u c b
       then Some \<lparr>rp_user_id = u, rp_channel_id = c, rp_last_read = lr, rp_seq = b + 1, rp_updated_at = now\<rparr>
       else stored_position d u' c')"
    and "er_outcome r = APPLIED \<Longrightarrow> \<exists>p. stored_position d' u c = Some p \<and> rp_seq p = b + 1 \<and> rp_last_read p = lr"
proof -
  have d': "d' = write_position now u c lr b d" using assms(3) by (simp add: apply_entry_def Let_def)
  show "schema_ok d'" unfolding d' by (rule write_position_ok [OF assms(1,2)])
  show "stored_position d' u' c' =
      (if (u', c') = (u, c) \<and> may_write d u c b
       then Some \<lparr>rp_user_id = u, rp_channel_id = c, rp_last_read = lr, rp_seq = b + 1, rp_updated_at = now\<rparr>
       else stored_position d u' c')"
    unfolding d' by (rule stored_after_write [OF assms(1,2)])
  show "er_outcome r = APPLIED \<Longrightarrow> \<exists>p. stored_position d' u c = Some p \<and> rp_seq p = b + 1 \<and> rp_last_read p = lr"
    using assms(3) d' by (auto simp: apply_entry_def Let_def split: option.splits if_splits)
qed

section \<open>Properties\<close>

text \<open>One entry is an exact compare-and-swap. It is skipped exactly when the channel is not
  readable; it is stored, as the next version, exactly when the base is the version held (no
  row being version zero); an applied answer describes the stored row; a conflict leaves the
  row as it was and reports it; and no other position changes.\<close>

theorem cas_entry_exact:
  assumes "schema_ok d" and "0 \<le> b" and "apply_entry now u (c, (lr, b)) d = (r, d')"
  shows "(er_outcome r = SKIPPED \<longleftrightarrow> readable_channel d u c = None) \<and>
    (may_write d u c b \<longrightarrow> er_outcome r = APPLIED) \<and>
    (er_outcome r = APPLIED \<longrightarrow> er_seq r = Some (b + 1) \<and> er_last_read r = Some lr \<and>
       (\<exists>p. stored_position d' u c = Some p \<and> rp_seq p = b + 1 \<and> rp_last_read p = lr)) \<and>
    (er_outcome r = CONFLICT \<longrightarrow> stored_position d' u c = stored_position d u c \<and>
       er_seq r = Some (version (stored_position d u c)) \<and>
       er_last_read r = map_option rp_last_read (stored_position d u c)) \<and>
    (\<forall>u' c'. (u', c') \<noteq> (u, c) \<longrightarrow> stored_position d' u' c' = stored_position d u' c')"
proof -
  have d': "d' = write_position now u c lr b d" using assms(3) by (simp add: apply_entry_def Let_def)
  note st = apply_entry_cases(2) [OF assms, of u c]
  have "er_outcome r = SKIPPED \<longleftrightarrow> readable_channel d u c = None"
    using assms(3) by (auto simp: apply_entry_def Let_def split: option.splits if_splits)
  moreover have "may_write d u c b \<longrightarrow> er_outcome r = APPLIED"
    using assms(3) st d' by (auto simp: apply_entry_def Let_def may_write_def split: option.splits if_splits)
  moreover have "er_outcome r = APPLIED \<longrightarrow> er_seq r = Some (b + 1) \<and> er_last_read r = Some lr"
    using assms(3) by (auto simp: apply_entry_def Let_def split: option.splits if_splits)
  moreover have "er_outcome r = CONFLICT \<longrightarrow> er_seq r = Some (version (stored_position d' u c)) \<and>
      er_last_read r = map_option rp_last_read (stored_position d' u c)"
    using assms(3) d' by (auto simp: apply_entry_def Let_def version_def split: option.splits if_splits)
  moreover have "er_outcome r = CONFLICT \<longrightarrow> stored_position d' u c = stored_position d u c"
    using st calculation(2) by auto
  ultimately show ?thesis using apply_entry_cases(2,3) [OF assms] by auto
qed

definition ex_pos :: db where
  "ex_pos = ex_hist\<lparr>users := [ex_user ''u'']\<rparr>"

lemma ex_pos_ok: "schema_ok ex_pos" "readable_channel ex_pos ''u'' ''c1'' \<noteq> None" "stored_position ex_pos ''u'' ''c1'' = None"
    "get_user ex_pos ''u'' \<noteq> None"
  using ex_hist_ok(1)
  by (simp_all add: ex_pos_def schema_ok_def ex_user_def readable_channel_def readable_predicate_def
      stored_position_def get_user_def ex_hist_def ex_bus_def bus_channel_def empty_db_def)

text \<open>A run of entries by any users.\<close>

fun position_run :: "(instant \<times> ident \<times> position) list \<Rightarrow> db \<Rightarrow> db" where
  "position_run [] d = d"
| "position_run ((now, u, p) # es) d = position_run es (snd (apply_entry now u p d))"

lemma position_run_keeps:
  assumes "schema_ok d" and "\<forall>(now, u', c', lr', b') \<in> set es. 0 \<le> b'"
    and "stored_position d u c = Some p"
  shows "schema_ok (position_run es d) \<and> (\<exists>q. stored_position (position_run es d) u c = Some q \<and>
    (q = p \<or> rp_seq p < rp_seq q))"
  using assms
proof (induction es arbitrary: d p)
  case (Cons e es)
  obtain now u' c' lr' b' where e: "e = (now, u', c', lr', b')" by (cases e) auto
  obtain r d1 where a: "apply_entry now u' (c', (lr', b')) d = (r, d1)" by fastforce
  have b': "0 \<le> b'" using Cons.prems(2) e by auto
  have ok: "schema_ok d1" using apply_entry_cases(1) [OF Cons.prems(1) b' a] .
  have "\<exists>q. stored_position d1 u c = Some q \<and> (q = p \<or> rp_seq p < rp_seq q)"
    unfolding apply_entry_cases(2) [OF Cons.prems(1) b' a] using Cons.prems(3)
    by (auto simp: may_write_def version_def)
  then obtain q where q: "stored_position d1 u c = Some q" "q = p \<or> rp_seq p < rp_seq q" by blast
  from Cons.IH [OF ok _ q(1)] Cons.prems(2) q(2) show ?case by (auto simp: e a)
qed simp

text \<open>No lost update. If two entries for the same user and channel edit the same version
  and both are answered as applied, they carry the same value, whatever entries of whatever
  devices run in between: two devices never both win with different positions.\<close>

theorem same_version_one_winner:
  assumes "schema_ok d" and "0 \<le> b" and "\<forall>(now, u', c', lr', b') \<in> set es. 0 \<le> b'"
    and "apply_entry now1 u (c, (lr1, b)) d = (r1, d1)" and "er_outcome r1 = APPLIED"
    and "apply_entry now2 u (c, (lr2, b)) (position_run es d1) = (r2, d2)" and "er_outcome r2 = APPLIED"
  shows "lr1 = lr2"
proof -
  obtain p where p: "stored_position d1 u c = Some p" "rp_seq p = b + 1" "rp_last_read p = lr1"
    using apply_entry_cases(3) [OF assms(1,2,4,5)] by blast
  have ok1: "schema_ok d1" using apply_entry_cases(1) [OF assms(1,2,4)] .
  obtain q where q: "stored_position (position_run es d1) u c = Some q" "q = p \<or> rp_seq p < rp_seq q"
      "schema_ok (position_run es d1)"
    using position_run_keeps [OF ok1 assms(3) p(1)] by blast
  obtain s where s: "stored_position d2 u c = Some s" "rp_seq s = b + 1" "rp_last_read s = lr2"
    using apply_entry_cases(3) [OF q(3) assms(2,6,7)] by blast
  have "s = q"
    using apply_entry_cases(2) [OF q(3) assms(2,6), of u c] s(1) q(1,2) p(2) assms(2)
    by (auto simp: may_write_def version_def)
  with s q(2) p show ?thesis by auto
qed

end
