(* ===== verification/Memberships.thy ===== *)
theory Memberships
  imports DirectMessages
begin

text \<open>
  Membership mutations (\<^verbatim>\<open>domain/memberships_service.py\<close>).  Each operation reads the store,
  decides, and issues one write; \<open>race\<close> is what other sessions commit between the reads
  and that write.  An error is a value of \<open>membership_error\<close> and leaves the store as it
  was, because the request's transaction is rolled back.
\<close>

section \<open>Operations\<close>

datatype membership_error =
    ChannelNotFound
  | NotChannelAdmin
  | NotAMember
  | LastAdmin
  | DmMembershipImmutable
  | MembershipIntegrityError
  | DmCreatedElsewhere

definition admins :: "db \<Rightarrow> ident \<Rightarrow> nat" where
  "admins d channel_id =
     rowcount (\<lambda>m. mb_channel_id m = channel_id \<and> mb_role m = ADMIN) (memberships d)"

definition delete_membership_unless_last_admin ::
  "db \<Rightarrow> ident \<Rightarrow> ident \<Rightarrow> bool \<Rightarrow> bool \<times> db" where
  "delete_membership_unless_last_admin d channel_id user_id is_admin =
     (let hit = (\<lambda>m. mb_channel_id m = channel_id \<and> mb_user_id m = user_id \<and>
                     (is_admin \<longrightarrow> admins d channel_id > 1))
      in if rowcount hit (memberships d) > 0
         then (True, d\<lparr>memberships := del_where hit (memberships d)\<rparr>)
         else (get_membership d channel_id user_id = None, d))"

definition insert_idempotent :: "membership \<Rightarrow> db \<Rightarrow> membership_error + (membership \<times> db)" where
  "insert_idempotent m d =
     (case insert_membership m d of
        Inr d' \<Rightarrow> Inr (m, d')
      | Inl _ \<Rightarrow>
          (case get_membership d (mb_channel_id m) (mb_user_id m) of
             Some existing \<Rightarrow> Inr (existing, d)
           | None \<Rightarrow> Inl MembershipIntegrityError))"

definition require_admin ::
  "db \<Rightarrow> ident \<Rightarrow> ident \<Rightarrow> channel option \<Rightarrow> membership_error + channel" where
  "require_admin d channel_id actor_id ch =
     (case (case ch of None \<Rightarrow> readable_channel d actor_id channel_id | Some c \<Rightarrow> Some c) of
        None \<Rightarrow> Inl ChannelNotFound
      | Some c \<Rightarrow>
          (case get_membership d channel_id actor_id of
             None \<Rightarrow> Inl NotChannelAdmin
           | Some actor \<Rightarrow> if mb_role actor \<noteq> ADMIN then Inl NotChannelAdmin else Inr c))"

definition membership_with_user :: "db \<Rightarrow> ident \<Rightarrow> ident \<Rightarrow> (membership \<times> user) option" where
  "membership_with_user d channel_id user_id =
     (case get_membership d channel_id user_id of
        None \<Rightarrow> None
      | Some m \<Rightarrow> map_option (\<lambda>u. (m, u)) (get_user d user_id))"

definition coerce_role :: "string \<Rightarrow> role" where
  "coerce_role s = (case enum_of Role_members role_value s of Some r \<Rightarrow> r | None \<Rightarrow> MEMBER)"

definition add_member :: "(db \<Rightarrow> db) \<Rightarrow> instant \<Rightarrow> ident \<Rightarrow> ident \<Rightarrow> ident \<Rightarrow> string \<Rightarrow> bool \<Rightarrow> db \<Rightarrow>
    membership_error + ((membership \<times> user) \<times> db)" where
  "add_member race now channel_id actor_id target_user_id role_arg can_post_arg d =
     (case readable_channel d actor_id channel_id of
        None \<Rightarrow> Inl ChannelNotFound
      | Some c \<Rightarrow>
          if ch_kind c = DM then Inl DmMembershipImmutable
          else (case require_admin d channel_id actor_id (Some c) of
                  Inl e \<Rightarrow> Inl e
                | Inr _ \<Rightarrow>
                    (case membership_with_user d channel_id target_user_id of
                       Some mu \<Rightarrow> Inr (mu, d)
                     | None \<Rightarrow>
                         (case get_user d target_user_id of
                            None \<Rightarrow> Inl NotAMember
                          | Some target \<Rightarrow>
                              let r = coerce_role role_arg;
                                  m = \<lparr>mb_channel_id = channel_id, mb_user_id = target_user_id,
                                       mb_role = r, mb_can_post = can_post_arg, mb_joined_at = now\<rparr>
                              in case insert_idempotent m (race d) of
                                   Inl e \<Rightarrow> Inl e
                                 | Inr (m', d') \<Rightarrow> Inr ((m', target), d')))))"

definition self_join :: "(db \<Rightarrow> db) \<Rightarrow> instant \<Rightarrow> ident \<Rightarrow> ident \<Rightarrow> db \<Rightarrow>
    membership_error + (membership \<times> db)" where
  "self_join race now channel_id actor_id d =
     (case find (\<lambda>c. ch_id c = channel_id \<and>
              (\<not> ch_is_private c \<or> ch_join_policy c = OPEN \<or> has_membership d (ch_id c) actor_id))
            (channels d) of
        None \<Rightarrow> Inl ChannelNotFound
      | Some c \<Rightarrow>
          (case get_membership d channel_id actor_id of
             Some existing \<Rightarrow> Inr (existing, d)
           | None \<Rightarrow>
               if ch_kind c = DM then Inl DmMembershipImmutable
               else insert_idempotent (plain_member now channel_id actor_id) (race d)))"

definition remove_member :: "(db \<Rightarrow> db) \<Rightarrow> ident \<Rightarrow> ident \<Rightarrow> ident \<Rightarrow> db \<Rightarrow> membership_error + db" where
  "remove_member race channel_id actor_id target_user_id d =
     (case readable_channel d actor_id channel_id of
        None \<Rightarrow> Inl ChannelNotFound
      | Some c \<Rightarrow>
          if ch_kind c = DM then Inl DmMembershipImmutable
          else (case require_admin d channel_id actor_id (Some c) of
                  Inl e \<Rightarrow> Inl e
                | Inr _ \<Rightarrow>
                    (case get_membership d channel_id target_user_id of
                       None \<Rightarrow> Inl NotAMember
                     | Some target \<Rightarrow>
                         (case delete_membership_unless_last_admin (race d) channel_id
                                 target_user_id (mb_role target = ADMIN) of
                            (deleted, d') \<Rightarrow> if \<not> deleted then Inl LastAdmin else Inr d'))))"

definition leave :: "(db \<Rightarrow> db) \<Rightarrow> ident \<Rightarrow> ident \<Rightarrow> db \<Rightarrow> membership_error + db" where
  "leave race channel_id actor_id d =
     (case get_membership d channel_id actor_id of
        None \<Rightarrow> Inl NotAMember
      | Some mine \<Rightarrow>
          (case delete_membership_unless_last_admin (race d) channel_id actor_id
                  (mb_role mine = ADMIN) of
             (deleted, d') \<Rightarrow> if \<not> deleted then Inl LastAdmin else Inr d'))"

definition list_members :: "ident \<Rightarrow> ident \<Rightarrow> db \<Rightarrow> membership_error + (membership \<times> user) list" where
  "list_members channel_id actor_id d =
     (case readable_channel d actor_id channel_id of
        None \<Rightarrow> Inl ChannelNotFound
      | Some _ \<Rightarrow>
          Inr (order_asc (mb_user_id \<circ> fst)
            (concat (map (\<lambda>m. map (\<lambda>u. (m, u)) (filter (\<lambda>u. u_id u = mb_user_id m) (users d)))
               (filter (\<lambda>m. mb_channel_id m = channel_id) (memberships d))))))"

definition create_channel :: "instant \<Rightarrow> ident \<Rightarrow> ident \<Rightarrow> string \<Rightarrow> bool \<Rightarrow> string \<Rightarrow> channel_kind \<Rightarrow>
    string option \<Rightarrow> db \<Rightarrow> membership_error + (channel \<times> db)" where
  "create_channel now new_id creator_id nm is_private join_policy_arg kind aiko d =
     (if kind = DM \<or> (case aiko of None \<Rightarrow> False | Some a \<Rightarrow> is_dm_channel_name a)
      then Inl DmCreatedElsewhere
      else
        let policy = (case enum_of JoinPolicy_members join_policy_value join_policy_arg of
                        Some p \<Rightarrow> p | None \<Rightarrow> INVITE_ONLY);
            c = \<lparr>ch_id = new_id, ch_name = nm, ch_kind = kind,
                 ch_aiko_channel = (case aiko of
                     None \<Rightarrow> ''ch_'' @ new_id | Some a \<Rightarrow> if a = [] then ''ch_'' @ new_id else a),
                 ch_is_private = is_private,
                 ch_join_policy = (if is_private then policy else OPEN),
                 ch_community_id = Some DEFAULT_COMMUNITY_ID, ch_created_at = now\<rparr>
        in case insert_channel c d of
             Inl _ \<Rightarrow> Inl MembershipIntegrityError
           | Inr d1 \<Rightarrow>
               (case insert_membership \<lparr>mb_channel_id = new_id, mb_user_id = creator_id,
                       mb_role = ADMIN, mb_can_post = True, mb_joined_at = now\<rparr> d1 of
                  Inl _ \<Rightarrow> Inl MembershipIntegrityError
                | Inr d2 \<Rightarrow> Inr (c, d2)))"

section \<open>The two write primitives\<close>

lemma admins_pos_iff:
  "0 < admins d cid \<longleftrightarrow> (\<exists>m \<in> set (memberships d). mb_channel_id m = cid \<and> mb_role m = ADMIN)"
  by (simp add: admins_def row_simps)

lemma admins_append:
  "admins (d\<lparr>memberships := memberships d @ [m]\<rparr>) cid =
     admins d cid + (if mb_channel_id m = cid \<and> mb_role m = ADMIN then 1 else 0)"
  by (simp add: admins_def)

lemma rowcount_remove_one:
  assumes "unique_on k rows" and "\<And>r. P r \<Longrightarrow> k r = key"
  shows "rowcount Q rows \<le> rowcount (\<lambda>r. Q r \<and> \<not> P r) rows + 1"
proof -
  have "rowcount Q rows = rowcount (\<lambda>r. Q r \<and> \<not> P r) rows + rowcount (\<lambda>r. Q r \<and> P r) rows"
    by (induction rows) auto
  moreover have "rowcount (\<lambda>r. Q r \<and> P r) rows \<le> 1"
    using assms by (intro rowcount_unique_le_1 [where k = k]) auto
  ultimately show ?thesis by simp
qed

text \<open>The conditional DELETE keeps an admin unless the row has become an admin's since the role it
  was given was read.\<close>

lemma delete_keeps_admin:
  assumes uniq: "unique_on mb_key (memberships d)"
    and role: "\<And>m. get_membership d cid uid = Some m \<Longrightarrow> mb_role m = ADMIN \<Longrightarrow> is_admin"
    and del: "delete_membership_unless_last_admin d cid uid is_admin = (b, d')"
    and pos: "0 < admins d x"
  shows "0 < admins d' x"
proof -
  let ?hit = "\<lambda>m. mb_channel_id m = cid \<and> mb_user_id m = uid \<and> (is_admin \<longrightarrow> admins d cid > 1)"
  show ?thesis
  proof (cases "rowcount ?hit (memberships d) > 0")
    case False
    then have "d' = d"
      using del unfolding delete_membership_unless_last_admin_def Let_def by (simp only: if_False prod.inject)
    with pos show ?thesis by simp
  next
    case True
    then have d': "d' = d\<lparr>memberships := del_where ?hit (memberships d)\<rparr>"
      using del unfolding delete_membership_unless_last_admin_def Let_def by (simp only: if_True prod.inject)
    let ?Q = "\<lambda>m. mb_channel_id m = x \<and> mb_role m = ADMIN"
    have left: "admins d' x = rowcount (\<lambda>m. ?Q m \<and> \<not> ?hit m) (memberships d)"
      by (simp add: d' admins_def)
    show ?thesis
    proof (cases "is_admin \<and> x = cid")
      case True
      have "admins d x \<le> rowcount (\<lambda>m. ?Q m \<and> \<not> ?hit m) (memberships d) + 1"
        unfolding admins_def
        by (rule rowcount_remove_one [OF uniq, where key = "(cid, uid)"]) (auto simp: mb_key_def)
      moreover have "admins d x > 1"
        using \<open>rowcount ?hit (memberships d) > 0\<close> True by (auto simp: rowcount_pos_iff)
      ultimately show ?thesis using left by linarith
    next
      case False
      have "\<not> (?Q m \<and> ?hit m)" if m: "m \<in> set (memberships d)" for m
      proof
        assume *: "?Q m \<and> ?hit m"
        then have "get_membership d cid uid = Some m"
          using get_membership_unique [OF uniq m] by auto
        with role * have "is_admin" by blast
        with * False show False by auto
      qed
      then have "rowcount (\<lambda>m. ?Q m \<and> \<not> ?hit m) (memberships d) = rowcount ?Q (memberships d)"
        by (intro rowcount_cong) blast
      then have "admins d' x = admins d x"
        unfolding left by (simp add: admins_def)
      with pos show ?thesis by simp
    qed
  qed
qed

lemma delete_keeps_admin_same:
  assumes "schema_ok d" and "get_membership d cid uid = Some m"
    and "delete_membership_unless_last_admin d cid uid (mb_role m = ADMIN) = (b, d')"
    and "0 < admins d x"
  shows "0 < admins d' x"
  using delete_keeps_admin [OF schema_okD(6) [OF assms(1)] _ assms(3,4)] assms(2) by simp

lemma delete_ok:
  "delete_membership_unless_last_admin d cid uid a = (b, d') \<Longrightarrow> schema_ok d \<Longrightarrow> schema_ok d'"
  by (auto simp: delete_membership_unless_last_admin_def Let_def schema_ok_def
      split: if_splits intro: unique_on_del_where)

lemma delete_frame:
  assumes "delete_membership_unless_last_admin d cid uid a = (b, d')"
  shows "channels d' = channels d" "users d' = users d"
    and "b \<Longrightarrow> has_membership d' c u \<longleftrightarrow> has_membership d c u \<and> (c, u) \<noteq> (cid, uid)"
  using assms
  by (auto simp: delete_membership_unless_last_admin_def Let_def has_membership_iff mb_key_def
      get_membership_None_iff rowcount_pos_iff split: if_splits)

lemma insert_idempotent_cases:
  assumes "insert_idempotent m d = Inr (m', d')"
  shows "m' = m \<and> d' = d\<lparr>memberships := memberships d @ [m]\<rparr> \<and>
           \<not> has_membership d (mb_channel_id m) (mb_user_id m) \<or>
         d' = d \<and> get_membership d (mb_channel_id m) (mb_user_id m) = Some m'"
proof (cases "insert_membership m d")
  case (Inl e)
  then show ?thesis using assms by (auto simp: insert_idempotent_def split: option.splits)
next
  case (Inr e)
  then have "e = d\<lparr>memberships := memberships d @ [m]\<rparr>"
      "\<not> has_membership d (mb_channel_id m) (mb_user_id m)"
    by (auto simp: insert_membership_def has_membership_def list_ex_iff mb_key_def split: if_splits)
  with Inr assms show ?thesis by (auto simp: insert_idempotent_def)
qed

lemma insert_idempotent_total: "\<exists>m' d'. insert_idempotent m d = Inr (m', d')"
proof (cases "insert_membership m d")
  case (Inl e)
  then have "has_membership d (mb_channel_id m) (mb_user_id m)"
    by (auto simp: insert_membership_def has_membership_def list_ex_iff mb_key_def split: if_splits)
  then obtain x where "get_membership d (mb_channel_id m) (mb_user_id m) = Some x"
    using get_membership_None_iff by (metis not_Some_eq)
  with Inl show ?thesis by (simp add: insert_idempotent_def)
next
  case (Inr d')
  then show ?thesis by (simp add: insert_idempotent_def)
qed

lemma insert_idempotent_ok: "insert_idempotent m d = Inr (m', d') \<Longrightarrow> schema_ok d \<Longrightarrow> schema_ok d'"
  by (auto simp: insert_idempotent_def split: sum.splits option.splits dest: insert_membership_ok)

lemma insert_idempotent_admins:
  "insert_idempotent m d = Inr (m', d') \<Longrightarrow> admins d cid \<le> admins d' cid"
  by (drule insert_idempotent_cases) (auto simp: admins_append)

section \<open>Effect of each operation\<close>

lemma add_member_cases:
  assumes "add_member race now cid actor target r cp d = Inr (mu, d')"
  obtains c where "readable_channel d actor cid = Some c" "ch_kind c \<noteq> DM" "d' = d"
        "membership_with_user d cid target = Some mu"
    | c where "readable_channel d actor cid = Some c" "ch_kind c \<noteq> DM"
        "insert_idempotent \<lparr>mb_channel_id = cid, mb_user_id = target, mb_role = coerce_role r,
           mb_can_post = cp, mb_joined_at = now\<rparr> (race d) = Inr (fst mu, d')"
  using assms unfolding add_member_def
  by (auto simp: Let_def split: option.splits if_splits sum.splits prod.splits)

lemma self_join_cases:
  assumes "self_join race now cid actor d = Inr (m, d')"
  obtains c where "c \<in> set (channels d)" "ch_id c = cid" "d' = d" "get_membership d cid actor = Some m"
    | c where "c \<in> set (channels d)" "ch_id c = cid" "ch_kind c \<noteq> DM"
        "insert_idempotent (plain_member now cid actor) (race d) = Inr (m, d')"
proof -
  obtain c where c: "find (\<lambda>c. ch_id c = cid \<and> (\<not> ch_is_private c \<or> ch_join_policy c = OPEN \<or>
      has_membership d (ch_id c) actor)) (channels d) = Some c"
    using assms by (auto simp: self_join_def split: option.splits)
  then have mem: "c \<in> set (channels d)" "ch_id c = cid" by (blast dest: find_SomeD)+
  show thesis
  proof (cases "get_membership d cid actor")
    case None
    with assms c have "ch_kind c \<noteq> DM"
        "insert_idempotent (plain_member now cid actor) (race d) = Inr (m, d')"
      by (simp_all add: self_join_def split: if_splits)
    with mem that(2) show thesis by blast
  next
    case (Some x)
    with assms c have "x = m" and "d' = d" by (simp_all add: self_join_def)
    with Some show thesis using that(1) [OF mem] by blast
  qed
qed

lemma remove_member_cases:
  assumes "remove_member race cid actor target d = Inr d'"
  obtains c m where "readable_channel d actor cid = Some c" "ch_kind c \<noteq> DM"
    "get_membership d cid target = Some m"
    "delete_membership_unless_last_admin (race d) cid target (mb_role m = ADMIN) = (True, d')"
  using assms unfolding remove_member_def
  by (auto split: option.splits if_splits sum.splits prod.splits)

lemma leave_cases:
  assumes "leave race cid actor d = Inr d'"
  obtains m where "get_membership d cid actor = Some m"
    "delete_membership_unless_last_admin (race d) cid actor (mb_role m = ADMIN) = (True, d')"
  using assms unfolding leave_def
  by (auto split: option.splits if_splits prod.splits)

lemma create_channel_cases:
  assumes "create_channel now i creator nm priv pol kind aiko d = Inr (c, d')"
  obtains d1 where "insert_channel c d = Inr d1" "ch_id c = i" "ch_kind c \<noteq> DM"
    "insert_membership \<lparr>mb_channel_id = i, mb_user_id = creator, mb_role = ADMIN,
       mb_can_post = True, mb_joined_at = now\<rparr> d1 = Inr d'"
  using assms unfolding create_channel_def
  by (auto simp: Let_def split: option.splits if_splits sum.splits)

section \<open>Steps of the membership state machine\<close>

inductive member_step :: "db \<Rightarrow> db \<Rightarrow> bool" where
  add: "add_member id now cid actor target r cp d = Inr (mu, d') \<Longrightarrow> member_step d d'"
| join: "self_join id now cid actor d = Inr (m, d') \<Longrightarrow> member_step d d'"
| remove: "remove_member id cid actor target d = Inr d' \<Longrightarrow> member_step d d'"
| leave: "leave id cid actor d = Inr d' \<Longrightarrow> member_step d d'"
| create: "create_channel now i creator nm priv pol kind aiko d = Inr (c, d') \<Longrightarrow>
    fresh_channel_id i d \<Longrightarrow> member_step d d'"
| dm: "get_or_create_dm id now i me target d = Inr (res, d') \<Longrightarrow> fresh_channel_id i d \<Longrightarrow>
    get_user d me \<noteq> None \<Longrightarrow> member_step d d'"

inductive_cases member_stepE: "member_step d d'"

text \<open>The same operations interleaved: between the reads of one and its write, other runs of any length,
  interleaved in the same way, may commit.  Left out is one race only: a leave or a removal of a member
  who was no admin when the row was read and is one when the DELETE runs.\<close>

definition promoted_between :: "ident \<Rightarrow> ident \<Rightarrow> db \<Rightarrow> db \<Rightarrow> bool" where
  "promoted_between cid uid d d' \<longleftrightarrow>
     (\<exists>m. get_membership d cid uid = Some m \<and> mb_role m \<noteq> ADMIN) \<and>
     (\<exists>m. get_membership d' cid uid = Some m \<and> mb_role m = ADMIN)"

inductive member_run :: "db \<Rightarrow> db \<Rightarrow> bool" where
  start: "member_run d d"
| run_add: "member_run d d1 \<Longrightarrow> member_run d1 (race d1) \<Longrightarrow>
    add_member race now cid actor target r cp d1 = Inr (mu, d2) \<Longrightarrow> member_run d d2"
| run_join: "member_run d d1 \<Longrightarrow> member_run d1 (race d1) \<Longrightarrow>
    self_join race now cid actor d1 = Inr (m, d2) \<Longrightarrow> member_run d d2"
| run_remove: "member_run d d1 \<Longrightarrow> member_run d1 (race d1) \<Longrightarrow> \<not> promoted_between cid target d1 (race d1) \<Longrightarrow>
    remove_member race cid actor target d1 = Inr d2 \<Longrightarrow> member_run d d2"
| run_leave: "member_run d d1 \<Longrightarrow> member_run d1 (race d1) \<Longrightarrow> \<not> promoted_between cid actor d1 (race d1) \<Longrightarrow>
    leave race cid actor d1 = Inr d2 \<Longrightarrow> member_run d d2"
| run_create: "member_run d d1 \<Longrightarrow>
    create_channel now i creator nm priv pol kind aiko d1 = Inr (c, d2) \<Longrightarrow> member_run d d2"
| run_dm: "member_run d d1 \<Longrightarrow> member_run d1 (race d1) \<Longrightarrow>
    get_or_create_dm race now i me target d1 = Inr (res, d2) \<Longrightarrow> member_run d d2"

lemma insert_channel_frame:
  "insert_channel c d = Inr d' \<Longrightarrow> channels d' = channels d @ [c] \<and> memberships d' = memberships d \<and>
     users d' = users d \<and> channel_checks c"
  by (auto simp: insert_channel_def split: if_splits)

lemma insert_membership_frame:
  "insert_membership m d = Inr d' \<Longrightarrow> channels d' = channels d \<and> users d' = users d \<and>
     memberships d' = memberships d @ [m]"
  by (auto simp: insert_membership_def split: if_splits)

lemma create_dm_cases:
  assumes "create_dm now i k uids d = Inr d'"
  shows "channels d' = channels d @ [dm_channel now i k] \<and> users d' = users d \<and>
    memberships d' = memberships d @ map (plain_member now i) uids"
proof -
  have ms: "insert_memberships ms e = Inr e' \<Longrightarrow>
      channels e' = channels e \<and> users e' = users e \<and> memberships e' = memberships e @ ms" for ms e e'
    by (induction ms arbitrary: e) (auto split: sum.splits dest: insert_membership_frame)
  from assms show ?thesis
    by (auto simp: create_dm_def split: sum.splits dest!: insert_channel_frame ms)
qed

lemma ensure_memberships_frame:
  "\<exists>ms. memberships (ensure_memberships now cid [uid] d) = memberships d @ ms \<and>
     users (ensure_memberships now cid [uid] d) = users d"
  by (auto simp: ensure_memberships_def ensure_step_def Let_def split: sum.splits
      dest: insert_membership_frame)

lemma get_or_create_dm_cases:
  assumes "get_or_create_dm id now i me target d = Inr (res, d')"
  obtains c where "channel_by_aiko d (canonical_aiko_channel me target) = Some c"
        "d' = ensure_memberships now (ch_id c) [me] d"
    | "create_dm now i (canonical_aiko_channel me target) (member_ids me target) d = Inr d'"
  using assms
  by (auto simp: get_or_create_dm_def adopt_dm_def Let_def
      split: option.splits sum.splits if_splits)

lemma rowcount_append_le: "rowcount P xs \<le> rowcount P (xs @ ys)"
  by simp

lemma member_step_ok: "member_step d d' \<Longrightarrow> schema_ok d \<Longrightarrow> schema_ok d'"
proof (erule member_stepE)
  fix now cid actor target r cp mu
  assume a: "add_member id now cid actor target r cp d = Inr (mu, d')" and ok: "schema_ok d"
  from a show "schema_ok d'"
    by (rule add_member_cases) (use ok in \<open>auto intro: insert_idempotent_ok\<close>)
next
  fix now cid actor m
  assume a: "self_join id now cid actor d = Inr (m, d')" and ok: "schema_ok d"
  from a show "schema_ok d'"
    by (rule self_join_cases) (use ok in \<open>auto intro: insert_idempotent_ok\<close>)
next
  fix cid actor target
  assume a: "remove_member id cid actor target d = Inr d'" and ok: "schema_ok d"
  from a show "schema_ok d'"
    by (rule remove_member_cases) (use ok in \<open>auto intro: delete_ok\<close>)
next
  fix cid actor
  assume a: "leave id cid actor d = Inr d'" and ok: "schema_ok d"
  from a show "schema_ok d'"
    by (rule leave_cases) (use ok in \<open>auto intro: delete_ok\<close>)
next
  fix now i creator nm priv pol kind aiko c
  assume a: "create_channel now i creator nm priv pol kind aiko d = Inr (c, d')" and ok: "schema_ok d"
  from a show "schema_ok d'"
    by (rule create_channel_cases) (use ok in \<open>blast intro: insert_channel_ok insert_membership_ok\<close>)
next
  fix now i me target res
  assume a: "get_or_create_dm id now i me target d = Inr (res, d')" and ok: "schema_ok d"
  from a show "schema_ok d'"
    by (rule get_or_create_dm_cases) (use ok in \<open>auto intro: create_dm_ok ensure_memberships_one\<close>)
qed

lemma member_step_admins:
  assumes "member_step d d'" and ok: "schema_ok d" and pos: "0 < admins d x"
  shows "0 < admins d' x"
  using assms(1)
proof (cases rule: member_step.cases)
  case (add now cid actor target r cp mu)
  from add show ?thesis
    by (rule add_member_cases)
      (use pos in \<open>auto dest: insert_idempotent_admins [where cid = x] intro: less_le_trans\<close>)
next
  case (join now cid actor m)
  from join show ?thesis
    by (rule self_join_cases)
      (use pos in \<open>auto dest: insert_idempotent_admins [where cid = x] intro: less_le_trans\<close>)
next
  case (remove cid actor target)
  from remove show ?thesis
    by (rule remove_member_cases)
      (auto intro: delete_keeps_admin_same [OF ok _ _ pos])
next
  case (leave cid actor)
  from leave show ?thesis
    by (rule leave_cases)
      (auto intro: delete_keeps_admin_same [OF ok _ _ pos])
next
  case (create now i creator nm priv pol kind aiko c)
  from create(1) show ?thesis
    by (rule create_channel_cases)
      (use pos in \<open>auto simp: admins_def dest!: insert_channel_frame insert_membership_frame\<close>)
next
  case (dm now i me target res)
  from dm(1) show ?thesis
  proof (rule get_or_create_dm_cases)
    fix c assume "d' = ensure_memberships now (ch_id c) [me] d"
    then obtain ms where "memberships d' = memberships d @ ms"
      using ensure_memberships_frame by metis
    with pos show ?thesis by (simp add: admins_def)
  next
    assume "create_dm now i (canonical_aiko_channel me target) (member_ids me target) d = Inr d'"
    with pos show ?thesis by (auto simp: admins_def dest!: create_dm_cases)
  qed
qed

lemma member_steps_keep:
  assumes "member_step\<^sup>*\<^sup>* d d'" and "schema_ok d" and "0 < admins d x"
  shows "schema_ok d' \<and> 0 < admins d' x"
  using assms by (induction rule: rtranclp_induct) (auto intro: member_step_ok member_step_admins)

text \<open>Interleaved runs.\<close>

lemma racing_dm_cases:
  assumes "get_or_create_dm race now i me target d = Inr (res, d')"
  obtains k where "d' = ensure_memberships now k [me] d"
    | k where "d' = ensure_memberships now k [me] (race d)"
    | "create_dm now i (canonical_aiko_channel me target) (member_ids me target) (race d) = Inr d'"
proof -
  have "(\<exists>k. d' = ensure_memberships now k [me] d) \<or>
      (\<exists>k. d' = ensure_memberships now k [me] (race d)) \<or>
      create_dm now i (canonical_aiko_channel me target) (member_ids me target) (race d) = Inr d'"
    using assms
    by (simp add: get_or_create_dm_def adopt_dm_def Let_def
        split: option.splits sum.splits if_splits) blast+
  then show thesis using that by blast
qed

definition keeps_admins :: "db \<Rightarrow> db \<Rightarrow> bool" where
  "keeps_admins d d' \<longleftrightarrow> (schema_ok d \<longrightarrow> schema_ok d' \<and> (\<forall>x. 0 < admins d x \<longrightarrow> 0 < admins d' x))"

lemma keeps_admins_refl: "keeps_admins d d"
  by (simp add: keeps_admins_def)

lemma keeps_admins_trans: "keeps_admins d1 d2 \<Longrightarrow> keeps_admins d2 d3 \<Longrightarrow> keeps_admins d1 d3"
  by (auto simp: keeps_admins_def)

lemma keeps_admins_grow:
  "(schema_ok d \<Longrightarrow> schema_ok d') \<Longrightarrow> memberships d' = memberships d @ ms \<Longrightarrow> keeps_admins d d'"
  by (simp add: keeps_admins_def admins_def)

lemma insert_idempotent_keeps: "insert_idempotent m d = Inr (m', d') \<Longrightarrow> keeps_admins d d'"
  unfolding keeps_admins_def by (meson insert_idempotent_ok insert_idempotent_admins less_le_trans)

lemma ensure_keeps: "keeps_admins d (ensure_memberships now cid [uid] d)"
  using ensure_memberships_frame [of now cid uid d] ensure_memberships_one
  by (auto intro: keeps_admins_grow)

lemma create_dm_keeps: "create_dm now i k uids d = Inr d' \<Longrightarrow> keeps_admins d d'"
  using create_dm_ok create_dm_cases by (blast intro: keeps_admins_grow)

lemma create_channel_keeps:
  assumes "create_channel now i creator nm priv pol kind aiko d = Inr (c, d')"
  shows "keeps_admins d d'"
  using assms
proof (rule create_channel_cases)
  fix d1
  assume *: "insert_channel c d = Inr d1" "insert_membership \<lparr>mb_channel_id = i, mb_user_id = creator, mb_role = ADMIN,
       mb_can_post = True, mb_joined_at = now\<rparr> d1 = Inr d'"
  then have "schema_ok d \<Longrightarrow> schema_ok d'" by (blast intro: insert_channel_ok insert_membership_ok)
  moreover have "memberships d' = memberships d @ [\<lparr>mb_channel_id = i, mb_user_id = creator, mb_role = ADMIN,
       mb_can_post = True, mb_joined_at = now\<rparr>]"
    using insert_channel_frame [OF *(1)] insert_membership_frame [OF *(2)] by simp
  ultimately show ?thesis by (rule keeps_admins_grow)
qed

lemma racing_delete_keeps:
  assumes "delete_membership_unless_last_admin e cid uid (mb_role m = ADMIN) = (b, d')"
    and "get_membership d cid uid = Some m" and "\<not> promoted_between cid uid d e"
  shows "keeps_admins e d'"
  unfolding keeps_admins_def
proof (intro impI conjI allI)
  assume ok: "schema_ok e"
  show "schema_ok d'" using delete_ok [OF assms(1) ok] .
  fix x assume "0 < admins e x"
  then show "0 < admins d' x"
    using delete_keeps_admin [OF schema_okD(6) [OF ok] _ assms(1)] assms(2,3)
    by (auto simp: promoted_between_def)
qed

lemma member_run_keeps: "member_run d d' \<Longrightarrow> keeps_admins d d'"
proof (induction rule: member_run.induct)
  case (start d)
  show ?case by (rule keeps_admins_refl)
next
  case (run_add d d1 race now cid actor target r cp mu d2)
  from run_add.hyps(3) have "d2 = d1 \<or> keeps_admins (race d1) d2"
    by (rule add_member_cases) (auto intro: insert_idempotent_keeps)
  with run_add.IH show ?case by (auto intro: keeps_admins_trans)
next
  case (run_join d d1 race now cid actor m d2)
  from run_join.hyps(3) have "d2 = d1 \<or> keeps_admins (race d1) d2"
    by (rule self_join_cases) (auto intro: insert_idempotent_keeps)
  with run_join.IH show ?case by (auto intro: keeps_admins_trans)
next
  case (run_remove d d1 race cid target actor d2)
  from run_remove.hyps(4) have "keeps_admins (race d1) d2"
    by (rule remove_member_cases) (rule racing_delete_keeps [OF _ _ run_remove.hyps(3)])
  with run_remove.IH show ?case by (auto intro: keeps_admins_trans)
next
  case (run_leave d d1 race cid actor d2)
  from run_leave.hyps(4) have "keeps_admins (race d1) d2"
    by (rule leave_cases) (rule racing_delete_keeps [OF _ _ run_leave.hyps(3)])
  with run_leave.IH show ?case by (auto intro: keeps_admins_trans)
next
  case (run_create d d1 now i creator nm priv pol kind aiko c d2)
  then show ?case by (auto intro: keeps_admins_trans create_channel_keeps)
next
  case (run_dm d d1 race now i me target res d2)
  from run_dm.hyps(3) have "keeps_admins d1 d2 \<or> keeps_admins (race d1) d2"
    by (rule racing_dm_cases) (auto intro: ensure_keeps create_dm_keeps)
  with run_dm.IH show ?case by (auto intro: keeps_admins_trans)
qed

section \<open>Direct messages stay within their pair\<close>

text \<open>Every direct-message channel is keyed by a pair of account ids and has no member
  outside that pair.\<close>

definition dm_inv :: "db \<Rightarrow> bool" where
  "dm_inv d \<longleftrightarrow> (\<forall>c \<in> set (channels d). ch_kind c = DM \<longrightarrow>
     (\<exists>a b. ulid_shape a \<and> ulid_shape b \<and> ch_aiko_channel c = canonical_aiko_channel a b \<and>
        (\<forall>u. has_membership d (ch_id c) u \<longrightarrow> u = a \<or> u = b)))"

definition users_shaped :: "db \<Rightarrow> bool" where
  "users_shaped d \<longleftrightarrow> (\<forall>u \<in> set (users d). ulid_shape (u_id u))"

lemma get_user_shaped: "users_shaped d \<Longrightarrow> get_user d i \<noteq> None \<Longrightarrow> ulid_shape i"
  by (auto simp: users_shaped_def get_user_def dest: find_SomeD)

lemma dm_inv_mono:
  assumes "dm_inv d" and "channels d' = channels d"
    and "\<And>c u. c \<in> set (channels d) \<Longrightarrow> ch_kind c = DM \<Longrightarrow> has_membership d' (ch_id c) u \<Longrightarrow>
           has_membership d (ch_id c) u"
  shows "dm_inv d'"
  using assms unfolding dm_inv_def by metis

lemma dm_inv_insert_non_dm:
  assumes inv: "dm_inv d" and ok: "schema_ok d" and c: "c \<in> set (channels d)" "ch_kind c \<noteq> DM"
    and ins: "insert_idempotent m d = Inr (m', d')" "mb_channel_id m = ch_id c"
  shows "dm_inv d'"
  using insert_idempotent_cases [OF ins(1)]
proof
  assume *: "m' = m \<and> d' = d\<lparr>memberships := memberships d @ [m]\<rparr> \<and>
      \<not> has_membership d (mb_channel_id m) (mb_user_id m)"
  show ?thesis
  proof (rule dm_inv_mono [OF inv])
    show "channels d' = channels d" using * by simp
    fix c' u assume "c' \<in> set (channels d)" "ch_kind c' = DM" "has_membership d' (ch_id c') u"
    moreover from this c have "ch_id c' \<noteq> ch_id c"
      using unique_onD [OF schema_okD(3) [OF ok], of c' c] by auto
    ultimately show "has_membership d (ch_id c') u"
      using * ins(2) by (auto simp: has_membership_def)
  qed
qed (use inv in simp)

lemma dm_inv_delete:
  assumes "dm_inv d" and "delete_membership_unless_last_admin d cid uid a = (True, d')"
  shows "dm_inv d'"
  using delete_frame [OF assms(2)] by (intro dm_inv_mono [OF assms(1)]) auto

lemma dm_inv_get_or_create:
  assumes inv: "dm_inv d" and ok: "schema_ok d" and shaped: "users_shaped d"
    and g: "get_or_create_dm id now i me target d = Inr (res, d')"
    and fresh: "fresh_channel_id i d" and me: "get_user d me \<noteq> None"
  shows "dm_inv d'"
proof -
  have "get_user d target \<noteq> None"
    using g by (auto simp: get_or_create_dm_def split: option.splits)
  then have sh: "ulid_shape me" "ulid_shape target"
    using me get_user_shaped [OF shaped] by auto
  from g show ?thesis
  proof (rule get_or_create_dm_cases)
    fix c
    assume c: "channel_by_aiko d (canonical_aiko_channel me target) = Some c"
      and d': "d' = ensure_memberships now (ch_id c) [me] d"
    have mem: "c \<in> set (channels d)" "ch_aiko_channel c = canonical_aiko_channel me target"
      using channel_by_aiko_SomeD [OF c] by auto
    show ?thesis
      unfolding dm_inv_def
    proof (intro ballI impI)
      fix c' assume c': "c' \<in> set (channels d')" "ch_kind c' = DM"
      then have c'd: "c' \<in> set (channels d)" by (simp add: d' ensure_memberships_one)
      obtain a b where ab: "ulid_shape a" "ulid_shape b" "ch_aiko_channel c' = canonical_aiko_channel a b"
          "\<forall>u. has_membership d (ch_id c') u \<longrightarrow> u = a \<or> u = b"
        using inv c'd c'(2) by (auto simp: dm_inv_def)
      have "u = a \<or> u = b" if "has_membership d' (ch_id c') u" for u
      proof (cases "has_membership d (ch_id c') u")
        case False
        with that have "ch_id c' = ch_id c" and u: "u = me"
          by (auto simp: d' ensure_memberships_one)
        then have "c' = c" using unique_onD [OF schema_okD(3) [OF ok] c'd mem(1)] by simp
        then have "{a, b} = {me, target}"
          using dm_key_pair [OF ab(1,2) sh] ab(3) mem(2) by simp
        with u show ?thesis by auto
      qed (use ab in blast)
      with ab show "\<exists>a b. ulid_shape a \<and> ulid_shape b \<and> ch_aiko_channel c' = canonical_aiko_channel a b \<and>
          (\<forall>u. has_membership d' (ch_id c') u \<longrightarrow> u = a \<or> u = b)" by blast
    qed
  next
    assume "create_dm now i (canonical_aiko_channel me target) (member_ids me target) d = Inr d'"
    then have fr: "channels d' = channels d @ [dm_channel now i (canonical_aiko_channel me target)]"
        "memberships d' = memberships d @ map (plain_member now i) (member_ids me target)"
      by (auto dest: create_dm_cases)
    have hm: "has_membership d' c u \<longleftrightarrow> has_membership d c u \<or> (c = i \<and> u \<in> {me, target})" for c u
      by (auto simp: has_membership_iff fr mb_key_def plain_member_def member_ids_def image_iff)
    show ?thesis
      unfolding dm_inv_def
    proof (intro ballI impI)
      fix c' assume c': "c' \<in> set (channels d')" "ch_kind c' = DM"
      show "\<exists>a b. ulid_shape a \<and> ulid_shape b \<and> ch_aiko_channel c' = canonical_aiko_channel a b \<and>
          (\<forall>u. has_membership d' (ch_id c') u \<longrightarrow> u = a \<or> u = b)"
      proof (cases "c' \<in> set (channels d)")
        case True
        then have "ch_id c' \<noteq> i" using fresh by (auto simp: fresh_channel_id_def)
        with inv True c'(2) show ?thesis unfolding dm_inv_def hm by blast
      next
        case False
        with c'(1) have "c' = dm_channel now i (canonical_aiko_channel me target)" by (simp add: fr)
        with sh fresh show ?thesis by (auto simp: hm fresh_channel_id_def)
      qed
    qed
  qed
qed

lemma member_step_users: "member_step d d' \<Longrightarrow> users d' = users d"
proof (erule member_stepE)
  fix now cid actor target r cp mu
  assume "add_member id now cid actor target r cp d = Inr (mu, d')"
  then show "users d' = users d"
    by (rule add_member_cases) (auto dest!: insert_idempotent_cases)
next
  fix now cid actor m
  assume "self_join id now cid actor d = Inr (m, d')"
  then show "users d' = users d"
    by (rule self_join_cases) (auto dest!: insert_idempotent_cases)
next
  fix cid actor target
  assume "remove_member id cid actor target d = Inr d'"
  then show "users d' = users d" by (rule remove_member_cases) (auto dest: delete_frame)
next
  fix cid actor
  assume "leave id cid actor d = Inr d'"
  then show "users d' = users d" by (rule leave_cases) (auto dest: delete_frame)
next
  fix now i creator nm priv pol kind aiko c
  assume "create_channel now i creator nm priv pol kind aiko d = Inr (c, d')"
  then show "users d' = users d"
    by (rule create_channel_cases) (auto dest!: insert_channel_frame insert_membership_frame)
next
  fix now i me target res
  assume "get_or_create_dm id now i me target d = Inr (res, d')"
  then show "users d' = users d"
  proof (rule get_or_create_dm_cases)
    fix c assume "d' = ensure_memberships now (ch_id c) [me] d"
    then show ?thesis using ensure_memberships_frame by metis
  qed (auto dest: create_dm_cases)
qed

lemma member_step_dm_inv:
  assumes "member_step d d'" and inv: "dm_inv d" and ok: "schema_ok d" and shaped: "users_shaped d"
  shows "dm_inv d'"
  using assms(1)
proof (cases rule: member_step.cases)
  case (add now cid actor target r cp mu)
  from add show ?thesis
  proof (rule add_member_cases)
    fix c
    assume *: "readable_channel d actor cid = Some c" "ch_kind c \<noteq> DM"
      "insert_idempotent \<lparr>mb_channel_id = cid, mb_user_id = target, mb_role = coerce_role r,
         mb_can_post = cp, mb_joined_at = now\<rparr> (id d) = Inr (fst mu, d')"
    then have "c \<in> set (channels d)" "ch_id c = cid" using acl.gate_sound by blast+
    with * show ?thesis by (auto intro: dm_inv_insert_non_dm [OF inv ok])
  qed (use inv in simp)
next
  case (join now cid actor m)
  from join show ?thesis
    by (rule self_join_cases)
      (use inv in \<open>auto simp: plain_member_def intro: dm_inv_insert_non_dm [OF inv ok]\<close>)
next
  case (remove cid actor target)
  from remove show ?thesis by (rule remove_member_cases) (auto intro: dm_inv_delete [OF inv])
next
  case (leave cid actor)
  from leave show ?thesis by (rule leave_cases) (auto intro: dm_inv_delete [OF inv])
next
  case (create now i creator nm priv pol kind aiko c)
  from create(1) show ?thesis
  proof (rule create_channel_cases)
    fix d1
    assume *: "insert_channel c d = Inr d1" "ch_id c = i" "ch_kind c \<noteq> DM"
      "insert_membership \<lparr>mb_channel_id = i, mb_user_id = creator, mb_role = ADMIN,
         mb_can_post = True, mb_joined_at = now\<rparr> d1 = Inr d'"
    have fr: "channels d' = channels d @ [c]"
        "has_membership d' x u \<longleftrightarrow> has_membership d x u \<or> (x = i \<and> u = creator)" for x u
      using insert_channel_frame [OF *(1)] insert_membership_frame [OF *(4)]
      by (auto simp: has_membership_iff mb_key_def)
    have ne: "ch_id c' \<noteq> i" if "c' \<in> set (channels d)" for c'
      using create(2) that by (auto simp: fresh_channel_id_def)
    show ?thesis
      unfolding dm_inv_def
    proof (intro ballI impI)
      fix c' assume "c' \<in> set (channels d')" "ch_kind c' = DM"
      with *(3) have c': "c' \<in> set (channels d)" "ch_kind c' = DM" by (auto simp: fr)
      with ne [OF c'(1)] inv show "\<exists>a b. ulid_shape a \<and> ulid_shape b \<and>
          ch_aiko_channel c' = canonical_aiko_channel a b \<and>
          (\<forall>u. has_membership d' (ch_id c') u \<longrightarrow> u = a \<or> u = b)"
        unfolding dm_inv_def fr(2) by blast
    qed
  qed
next
  case (dm now i me target res)
  from dm_inv_get_or_create [OF inv ok shaped dm] show ?thesis .
qed

section \<open>Properties\<close>

text \<open>C3: a channel created through the service keeps an admin in every state that adds, joins, removals,
  leaves, channel creations and direct-message openings reach, however they interleave: between the
  reads of each call and its write, other calls may commit, themselves interrupted, in any number.
  The one race left out is the one in which a leave or a removal read the role of a member who was
  made an admin before its DELETE ran; that race does orphan a channel, as the next property shows.\<close>

theorem created_channel_always_administered:
  assumes "schema_ok d" and "create_channel now i creator nm priv pol kind aiko d = Inr (c, d0)"
    and "member_run d0 d'"
  shows "0 < admins d' (ch_id c)"
proof -
  from assms(2) obtain d1 where d1: "insert_channel c d = Inr d1" "ch_id c = i"
      "insert_membership \<lparr>mb_channel_id = i, mb_user_id = creator, mb_role = ADMIN,
         mb_can_post = True, mb_joined_at = now\<rparr> d1 = Inr d0"
    by (rule create_channel_cases)
  have "schema_ok d0"
    using insert_membership_ok [OF d1(3) insert_channel_ok [OF d1(1) assms(1)]] .
  moreover have "0 < admins d0 (ch_id c)"
    using insert_membership_frame [OF d1(3)] d1(2) by (simp add: admins_def)
  ultimately show ?thesis using member_run_keeps [OF assms(3)] by (simp add: keeps_admins_def)
qed

text \<open>Two joins of one account overlap; the loser returns the winner's row.\<close>

theorem created_channel_always_administered_witness:
  "\<exists>c d0 d'. create_channel 0 ''r'' ''a'' ''n'' True ''open'' STANDARD None ex_two_users = Inr (c, d0) \<and>
     self_join id 1 ''r'' ''b'' d0 = Inr (plain_member 1 ''r'' ''b'', d') \<and>
     self_join (\<lambda>_. d') 2 ''r'' ''b'' d0 = Inr (plain_member 1 ''r'' ''b'', d') \<and> member_run d0 d' \<and> 0 < admins d' ''r''"
proof -
  obtain c d0 where cr: "create_channel 0 ''r'' ''a'' ''n'' True ''open'' STANDARD None ex_two_users =
      Inr (c, d0)" and c: "ch_id c = ''r''" and ch: "channels d0 = [c]" "ch_join_policy c = OPEN"
      "ch_kind c = STANDARD" and ms: "memberships d0 = [\<lparr>mb_channel_id = ''r'', mb_user_id = ''a'',
         mb_role = ADMIN, mb_can_post = True, mb_joined_at = 0\<rparr>]"
    by (simp add: create_channel_def enum_of_def JoinPolicy_members_def insert_channel_def
        insert_membership_def ex_two_users_def empty_db_def channel_checks_def
        DEFAULT_COMMUNITY_ID_def numeral_3_eq_3 Let_def)
  obtain d' where j: "self_join id 1 ''r'' ''b'' d0 = Inr (plain_member 1 ''r'' ''b'', d')"
      "memberships d' = memberships d0 @ [plain_member 1 ''r'' ''b'']"
    by (simp add: self_join_def ch c ms get_membership_def insert_idempotent_def
        insert_membership_def mb_key_def plain_member_def)
  have first: "member_run d0 d'" by (rule run_join [OF start _ j(1)]) (simp add: start)
  have late: "self_join (\<lambda>_. d') 2 ''r'' ''b'' d0 = Inr (plain_member 1 ''r'' ''b'', d')"
    by (simp add: self_join_def ch c ms j(2) get_membership_def insert_idempotent_def
        insert_membership_def mb_key_def plain_member_def)
  have "member_run d0 d'" by (rule run_join [OF start _ late]) (rule first)
  with created_channel_always_administered [OF ex_two_users_ok(1) cr] c cr j(1) late show ?thesis by metis
qed

text \<open>No sequence of these operations puts anyone outside the pair into a direct
  message: its members are always among the two accounts its key names.\<close>

theorem dm_members_within_pair:
  assumes "member_step\<^sup>*\<^sup>* d d'" and "schema_ok d" and "users_shaped d" and "dm_inv d"
    and "c \<in> set (channels d')" and "ch_kind c = DM"
  shows "\<exists>a b. ch_aiko_channel c = canonical_aiko_channel a b \<and> set (members_of d' (ch_id c)) \<subseteq> {a, b}"
proof -
  have "schema_ok d' \<and> users_shaped d' \<and> dm_inv d'"
    using assms(1)
  proof (induction rule: rtranclp_induct)
    case base then show ?case using assms(2-4) by simp
  next
    case (step x y)
    have "schema_ok y" and "users_shaped y" and "dm_inv y"
      using step member_step_ok member_step_users member_step_dm_inv
      by (auto simp: users_shaped_def)
    then show ?case by simp
  qed
  then obtain a b where "ch_aiko_channel c = canonical_aiko_channel a b"
      "\<forall>u. has_membership d' (ch_id c) u \<longrightarrow> u = a \<or> u = b"
    using assms(5,6) unfolding dm_inv_def by blast
  then show ?thesis unfolding members_of_set by blast
qed

definition ex_ua :: ident where "ex_ua = replicate 26 CHR ''A''"
definition ex_ub :: ident where "ex_ub = replicate 26 CHR ''B''"

definition ex_shaped :: db where
  "ex_shaped = empty_db\<lparr>users := [ex_user ex_ua, ex_user ex_ub]\<rparr>"

text \<open>Two admins who leave at the same time do not both succeed: when the other one's
  leave commits between this call's read and its DELETE, and they were the last two, this
  leave is refused with \<open>LastAdmin\<close>.\<close>

theorem concurrent_leaves_refuse_last_admin:
  assumes "schema_ok d" and "a \<noteq> b" and "admins d cid = 2"
    and "get_membership d cid a = Some ma" and "mb_role ma = ADMIN"
    and "get_membership d cid b = Some mb" and "mb_role mb = ADMIN"
    and "leave id cid b d = Inr db"
  shows "leave (\<lambda>_. db) cid a d = Inl LastAdmin"
proof -
  have u: "unique_on mb_key (memberships d)" using assms(1) by (rule schema_okD)
  let ?hit = "\<lambda>m. mb_channel_id m = cid \<and> mb_user_id m = b \<and> (True \<longrightarrow> admins d cid > 1)"
  have mbin: "mb \<in> set (memberships d)" "mb_channel_id mb = cid" "mb_user_id mb = b"
    using get_membership_SomeD [OF assms(6)] by auto
  have db: "db = d\<lparr>memberships := del_where (\<lambda>m. mb_channel_id m = cid \<and> mb_user_id m = b) (memberships d)\<rparr>"
    using assms(3,6,7,8) mbin
    by (auto simp: leave_def delete_membership_unless_last_admin_def Let_def rowcount_pos_iff
        split: if_splits)
  have "admins d cid = admins db cid +
      rowcount (\<lambda>m. (mb_channel_id m = cid \<and> mb_role m = ADMIN) \<and> mb_user_id m = b) (memberships d)"
    unfolding admins_def db
    by (subst rowcount_split [where P = "\<lambda>m. mb_channel_id m = cid \<and> mb_user_id m = b"])
      (simp add: conj_ac cong: conj_cong)
  moreover have "rowcount (\<lambda>m. (mb_channel_id m = cid \<and> mb_role m = ADMIN) \<and> mb_user_id m = b)
      (memberships d) > 0"
    using mbin assms(7) by (auto simp: rowcount_pos_iff)
  ultimately have one: "\<not> 1 < admins db cid" using assms(3) by linarith
  have "get_membership db cid a = Some ma"
    using assms(2,4) find_del_where_disjoint [of "\<lambda>m. mb_channel_id m = cid \<and> mb_user_id m = b"
        "\<lambda>m. mb_channel_id m = cid \<and> mb_user_id m = a" "memberships d"]
    unfolding db get_membership_def by auto
  with one assms(4,5) show ?thesis
    by (simp add: leave_def delete_membership_unless_last_admin_def Let_def)
qed

definition ex_admin :: "ident \<Rightarrow> membership" where
  "ex_admin u = \<lparr>mb_channel_id = ''r'', mb_user_id = u, mb_role = ADMIN, mb_can_post = True,
     mb_joined_at = 0\<rparr>"

definition ex_two_admins :: db where
  "ex_two_admins = empty_db\<lparr>memberships := [ex_admin ''a'', ex_admin ''b'']\<rparr>"

text \<open>A join or an add that loses a race is not an error: if another session commits a
  row for the same member in between, the call returns that row and writes nothing.\<close>

theorem racing_join_returns_winner:
  assumes "c \<in> set (channels d)" and "unique_on ch_id (channels d)" and "ch_kind c \<noteq> DM"
    and "\<not> ch_is_private c \<or> ch_join_policy c = OPEN"
    and "get_membership d (ch_id c) actor = None"
    and "get_membership (race d) (ch_id c) actor = Some w"
  shows "self_join race now (ch_id c) actor d = Inr (w, race d)"
proof -
  let ?P = "\<lambda>x. ch_id x = ch_id c \<and> (\<not> ch_is_private x \<or> ch_join_policy x = OPEN \<or>
      has_membership d (ch_id x) actor)"
  obtain x where x: "find ?P (channels d) = Some x" using find_ex [of c _ ?P] assms(1,4) by auto
  then have "x = c"
    using unique_onD [OF assms(2) _ assms(1)] find_SomeD [OF x] by blast
  moreover have "insert_membership (plain_member now (ch_id c) actor) (race d) = Inl IntegrityError"
    using get_membership_SomeD [OF assms(6)]
    by (auto simp: insert_membership_def list_ex_iff mb_key_def plain_member_def)
  ultimately show ?thesis
    using x assms(3,5,6) by (simp add: self_join_def insert_idempotent_def plain_member_def)
qed

definition ex_open_channel :: channel where
  "ex_open_channel = ex_acl_channel\<lparr>ch_join_policy := OPEN\<rparr>"

definition ex_stale :: db where
  "ex_stale = ex_two_users\<lparr>channels := [ex_acl_channel\<lparr>ch_id := ''r''\<rparr>],
     memberships := [plain_member 0 ''r'' ''a'', ex_admin ''b'']\<rparr>"

text \<open>C4: the last-admin guard applies to the role read before the DELETE. A run of the
  service's own operations, committed between the two, that removes a member and adds the
  account back as the only admin is not seen by that member's leave, and the channel is left
  without an admin.\<close>

theorem stale_role_orphans:
  "\<exists>dr d'. get_membership ex_stale ''r'' ''a'' = Some (plain_member 0 ''r'' ''a'') \<and>
     member_step\<^sup>*\<^sup>* ex_stale dr \<and> admins dr ''r'' = 1 \<and>
     leave (\<lambda>_. dr) ''r'' ''a'' ex_stale = Inr d' \<and> admins d' ''r'' = 0"
proof -
  let ?d1 = "ex_stale\<lparr>memberships := [ex_admin ''b'']\<rparr>"
  let ?d2 = "ex_stale\<lparr>memberships := [ex_admin ''b'', ex_admin ''a'']\<rparr>"
  let ?d3 = "ex_stale\<lparr>memberships := [ex_admin ''a'']\<rparr>"
  note defs = ex_stale_def ex_two_users_def empty_db_def ex_user_def ex_admin_def plain_member_def
    get_membership_def readable_channel_def readable_predicate_def has_membership_def get_user_def
    require_admin_def delete_membership_unless_last_admin_def admins_def ex_acl_channel_def
    membership_with_user_def coerce_role_def enum_of_def Role_members_def insert_idempotent_def
    insert_membership_def mb_key_def Let_def
  have r: "remove_member id ''r'' ''b'' ''a'' ex_stale = Inr ?d1"
    by (simp add: remove_member_def defs)
  have j: "add_member id 0 ''r'' ''b'' ''a'' ''admin'' True ?d1 = Inr ((ex_admin ''a'', ex_user ''a''), ?d2)"
    by (simp add: add_member_def defs)
  have l: "leave id ''r'' ''b'' ?d2 = Inr ?d3"
    by (simp add: leave_def defs)
  have "member_step\<^sup>*\<^sup>* ex_stale ?d3"
    using member_step.remove [OF r] member_step.add [OF j] member_step.leave [OF l] by auto
  moreover have "leave (\<lambda>_. ?d3) ''r'' ''a'' ex_stale = Inr (ex_stale\<lparr>memberships := []\<rparr>)"
    by (simp add: leave_def defs)
  moreover have "get_membership ex_stale ''r'' ''a'' = Some (plain_member 0 ''r'' ''a'')"
    "admins ?d3 ''r'' = 1" "admins (ex_stale\<lparr>memberships := []\<rparr>) ''r'' = 0"
    by (simp_all add: defs)
  ultimately show ?thesis by blast
qed

end
