(* ===== verification/OneTime.thy ===== *)
theory OneTime
  imports Model
begin

text \<open>The single-use token stores of the sign-in flows: native social nonces
  (\<open>domain/nonce_service.py\<close>), OAuth state nonces (\<open>domain/state_service.py\<close>) and handoff
  codes (\<open>domain/handoff_service.py\<close>). Each redeems a row with one conditional UPDATE
  arbitrated by its row count. The contract they share is a locale; each store interprets
  it, and the single-use theorem is proved once, over any interleaving of issues and
  redemptions. Fresh random tokens, the clock (one reading per call) and the configured
  time-to-live are arguments. \<open>json.dumps\<close> and \<open>json.loads\<close> are arguments too.\<close>

section \<open>Social nonces\<close>

definition issue_nonce :: "int \<Rightarrow> instant \<Rightarrow> string \<Rightarrow> db \<Rightarrow> db_error + db" where
  "issue_nonce ttl now nonce d =
     (let rows = del_where (\<lambda>r. sn_expires_at r \<le> now) (social_nonces d);
          row = \<lparr>sn_nonce = nonce, sn_expires_at = now + ttl, sn_consumed = False, sn_created_at = now\<rparr>
      in if list_ex (\<lambda>r. sn_nonce r = nonce) rows then Inl IntegrityError
         else Inr (d\<lparr>social_nonces := rows @ [row]\<rparr>))"

definition consume_nonce :: "instant \<Rightarrow> string \<Rightarrow> db \<Rightarrow> bool \<times> db" where
  "consume_nonce now nonce d =
     (let hit = (\<lambda>r. sn_nonce r = nonce \<and> \<not> sn_consumed r \<and> sn_expires_at r > now)
      in (rowcount hit (social_nonces d) = 1,
          d\<lparr>social_nonces := upd_where hit (\<lambda>r. r\<lparr>sn_consumed := True\<rparr>) (social_nonces d)\<rparr>))"

section \<open>OAuth state\<close>

definition create_state :: "int \<Rightarrow> instant \<Rightarrow> string \<times> string option \<times> string option \<Rightarrow> string \<Rightarrow> db \<Rightarrow>
    db_error + db" where
  "create_state ttl now payload nonce d =
     (case payload of (provider, code_verifier, app_challenge) \<Rightarrow>
        if list_ex (\<lambda>r. st_nonce r = nonce) (oauth_states d) then Inl IntegrityError
        else Inr (d\<lparr>oauth_states := oauth_states d @ [\<lparr>st_nonce = nonce, st_provider = provider,
               st_code_verifier = code_verifier, st_app_challenge = app_challenge,
               st_expires_at = now + ttl, st_consumed = False, st_created_at = now\<rparr>]\<rparr>))"

definition consume_state :: "instant \<Rightarrow> string \<Rightarrow> db \<Rightarrow>
    (string \<times> string option \<times> string option) option \<times> db" where
  "consume_state now nonce d =
     (let hit = (\<lambda>r. st_nonce r = nonce \<and> \<not> st_consumed r \<and> st_expires_at r > now);
          d' = d\<lparr>oauth_states := upd_where hit (\<lambda>r. r\<lparr>st_consumed := True\<rparr>) (oauth_states d)\<rparr>
      in if rowcount hit (oauth_states d) \<noteq> 1 then (None, d')
         else case find (\<lambda>r. st_nonce r = nonce) (oauth_states d') of
                None \<Rightarrow> (None, d')
              | Some row \<Rightarrow>
                  (Some (st_provider row, st_code_verifier row, st_app_challenge row), d'))"

section \<open>Handoff codes\<close>

definition create_handoff :: "(json \<Rightarrow> string) \<Rightarrow> int \<Rightarrow> instant \<Rightarrow> json \<Rightarrow> string \<Rightarrow> db \<Rightarrow> db_error + db" where
  "create_handoff dumps ttl now payload code d =
     (if list_ex (\<lambda>r. ho_code r = code) (oauth_handoffs d) then Inl IntegrityError
      else Inr (d\<lparr>oauth_handoffs := oauth_handoffs d @ [\<lparr>ho_code = code, ho_payload = dumps payload,
             ho_expires_at = now + ttl, ho_consumed = False, ho_created_at = now\<rparr>]\<rparr>))"

definition consume_handoff :: "(string \<Rightarrow> json option) \<Rightarrow> instant \<Rightarrow> string \<Rightarrow> db \<Rightarrow> json option \<times> db" where
  "consume_handoff loads now code d =
     (let hit = (\<lambda>r. ho_code r = code \<and> \<not> ho_consumed r \<and> ho_expires_at r > now);
          d' = d\<lparr>oauth_handoffs := upd_where hit (\<lambda>r. r\<lparr>ho_consumed := True\<rparr>) (oauth_handoffs d)\<rparr>
      in if rowcount hit (oauth_handoffs d) \<noteq> 1 then (None, d')
         else case find (\<lambda>r. ho_code r = code) (oauth_handoffs d') of
                None \<Rightarrow> (None, d')
              | Some row \<Rightarrow> (loads (ho_payload row), d'))"

section \<open>The contract\<close>

text \<open>Events of a store, and its answers.\<close>

datatype 'p token_event = Issue instant 'p string | Redeem instant string

fun issues_of :: "string \<Rightarrow> 'p token_event \<Rightarrow> bool" where
  "issues_of t (Issue _ _ t') = (t' = t)"
| "issues_of t (Redeem _ _) = False"

text \<open>A run against a store: a failed issue is rolled back.\<close>

fun token_run :: "(instant \<Rightarrow> 'p \<Rightarrow> string \<Rightarrow> 's \<Rightarrow> 'e + 's) \<Rightarrow> (instant \<Rightarrow> string \<Rightarrow> 's \<Rightarrow> 'r option \<times> 's) \<Rightarrow>
    'p token_event list \<Rightarrow> 's \<Rightarrow> (string \<times> 'r) list \<times> 's" where
  "token_run iss red [] s = ([], s)"
| "token_run iss red (Issue now p t # es) s =
     token_run iss red es (case iss now p t s of Inl _ \<Rightarrow> s | Inr s' \<Rightarrow> s')"
| "token_run iss red (Redeem now t # es) s =
     (let (r, s') = red now t s; (rs, s'') = token_run iss red es s'
      in ((case r of None \<Rightarrow> rs | Some x \<Rightarrow> (t, x) # rs), s''))"

locale one_time_store =
  fixes iss :: "instant \<Rightarrow> 'p \<Rightarrow> string \<Rightarrow> 's \<Rightarrow> 'e + 's"
    and red :: "instant \<Rightarrow> string \<Rightarrow> 's \<Rightarrow> 'r option \<times> 's"
    and inv :: "'s \<Rightarrow> bool"
    and unspent :: "'s \<Rightarrow> string \<Rightarrow> bool"
  assumes spend: "inv s \<Longrightarrow> red now t s = (Some r, s') \<Longrightarrow> unspent s t \<and> \<not> unspent s' t"
    and keep: "inv s \<Longrightarrow> red now t s = (ro, s') \<Longrightarrow> unspent s' t' \<Longrightarrow> unspent s t'"
    and fresh: "inv s \<Longrightarrow> iss now p t s = Inr s' \<Longrightarrow> unspent s' t' \<Longrightarrow> t' = t \<or> unspent s t'"
    and red_inv: "inv s \<Longrightarrow> red now t s = (ro, s') \<Longrightarrow> inv s'"
    and iss_inv: "inv s \<Longrightarrow> iss now p t s = Inr s' \<Longrightarrow> inv s'"
begin

text \<open>Redemptions of a token never outnumber the times it was issued.\<close>

lemma token_budget:
  "inv s \<Longrightarrow> token_run iss red es s = (rs, s') \<Longrightarrow>
     length (filter (\<lambda>(t', _). t' = t) rs) \<le> (if unspent s t then 1 else 0) + length (filter (issues_of t) es)"
proof (induction es arbitrary: s rs s')
  case Nil then show ?case by simp
next
  case (Cons e es)
  show ?case
  proof (cases e)
    case (Issue now p t')
    show ?thesis
    proof (cases "iss now p t' s")
      case (Inl x)
      with Cons.IH [OF Cons.prems(1)] Cons.prems(2) Issue show ?thesis by fastforce
    next
      case (Inr s1)
      with Cons.IH [OF iss_inv [OF Cons.prems(1) Inr]] Cons.prems(2) Issue
        fresh [OF Cons.prems(1) Inr, of t] show ?thesis by (fastforce split: if_splits)
    qed
  next
    case (Redeem now t')
    obtain ro s1 rs1 where r: "red now t' s = (ro, s1)" "token_run iss red es s1 = (rs1, s')"
        "rs = (case ro of None \<Rightarrow> rs1 | Some x \<Rightarrow> (t', x) # rs1)"
      using Cons.prems(2) Redeem by (auto split: prod.splits)
    note IH = Cons.IH [OF red_inv [OF Cons.prems(1) r(1)] r(2)]
    note kp = keep [OF Cons.prems(1) r(1), of t]
    show ?thesis
    proof (cases ro)
      case None
      with IH r kp Redeem show ?thesis by (auto split: if_splits)
    next
      case (Some x)
      with r have "red now t' s = (Some x, s1)" by simp
      from spend [OF Cons.prems(1) this] IH r Some kp Redeem show ?thesis
        by (auto split: if_splits)
    qed
  qed
qed

lemma single_use:
  "inv s \<Longrightarrow> \<not> unspent s t \<Longrightarrow> length (filter (issues_of t) es) \<le> 1 \<Longrightarrow>
     length (filter (\<lambda>(t', _). t' = t) (fst (token_run iss red es s))) \<le> 1"
  using token_budget [of s es "fst (token_run iss red es s)" "snd (token_run iss red es s)" t] by simp

end

section \<open>The stores implement the contract\<close>

definition unspent_nonce :: "db \<Rightarrow> string \<Rightarrow> bool" where
  "unspent_nonce d t \<longleftrightarrow> (\<exists>r \<in> set (social_nonces d). sn_nonce r = t \<and> \<not> sn_consumed r)"

definition unspent_state :: "db \<Rightarrow> string \<Rightarrow> bool" where
  "unspent_state d t \<longleftrightarrow> (\<exists>r \<in> set (oauth_states d). st_nonce r = t \<and> \<not> st_consumed r)"

definition unspent_handoff :: "db \<Rightarrow> string \<Rightarrow> bool" where
  "unspent_handoff d t \<longleftrightarrow> (\<exists>r \<in> set (oauth_handoffs d). ho_code r = t \<and> \<not> ho_consumed r)"

definition redeem_nonce :: "instant \<Rightarrow> string \<Rightarrow> db \<Rightarrow> unit option \<times> db" where
  "redeem_nonce now t d = (case consume_nonce now t d of (ok, d') \<Rightarrow> (if ok then Some () else None, d'))"

text \<open>A table whose rows have a key, an expiry and a one-way consumed flag, and what one
  conditional UPDATE does to it.\<close>

locale burn_table =
  fixes key :: "'r \<Rightarrow> string" and consumed :: "'r \<Rightarrow> bool" and expires :: "'r \<Rightarrow> instant"
    and burn :: "'r \<Rightarrow> 'r"
  assumes key_burn: "key (burn r) = key r" and consumed_burn: "consumed (burn r)"
begin

lemma burn_wins:
  assumes "unique_on key rows"
    and "rowcount (\<lambda>r. key r = t \<and> \<not> consumed r \<and> expires r > now) rows = 1"
  shows "(\<exists>r \<in> set rows. key r = t \<and> \<not> consumed r) \<and>
    \<not> (\<exists>r \<in> set (upd_where (\<lambda>r. key r = t \<and> \<not> consumed r \<and> expires r > now) burn rows).
         key r = t \<and> \<not> consumed r)"
proof -
  obtain x where x: "x \<in> set rows" "key x = t \<and> \<not> consumed x \<and> expires x > now"
    using assms(2) rowcount_pos_iff [of "\<lambda>r. key r = t \<and> \<not> consumed r \<and> expires r > now" rows] by auto
  have "r = x" if "r \<in> set rows" "key r = t" for r
    using unique_onD [OF assms(1) that(1) x(1)] that(2) x(2) by simp
  with x key_burn consumed_burn show ?thesis by (auto simp: set_upd_where)
qed

lemma burn_keeps: "x \<in> set (upd_where hit burn rows) \<Longrightarrow> \<not> consumed x \<Longrightarrow> x \<in> set rows"
  using consumed_burn by (auto simp: set_upd_where split: if_splits)

lemma burn_unique: "unique_on key rows \<Longrightarrow> unique_on key (upd_where hit burn rows)"
  by (simp add: unique_on_upd_where key_burn)

text \<open>A live row is matched by its key.\<close>

lemma burn_live:
  assumes "unique_on key rows" and "r \<in> set rows" and "\<not> consumed r" and "expires r > now"
  shows "rowcount (\<lambda>x. key x = key r \<and> \<not> consumed x \<and> expires x > now) rows = 1 \<and>
    find (\<lambda>x. key x = key r)
      (upd_where (\<lambda>x. key x = key r \<and> \<not> consumed x \<and> expires x > now) burn rows) = Some (burn r)"
proof -
  have "rowcount (\<lambda>x. key x = key r \<and> \<not> consumed x \<and> expires x > now) rows \<le> 1"
    using assms(1) by (rule rowcount_unique_le_1) auto
  moreover have "0 < rowcount (\<lambda>x. key x = key r \<and> \<not> consumed x \<and> expires x > now) rows"
    using assms by (auto simp: rowcount_pos_iff)
  moreover have "burn r \<in> set (upd_where (\<lambda>x. key x = key r \<and> \<not> consumed x \<and> expires x > now) burn rows)"
    using assms by (auto simp: set_upd_where image_iff)
  then have "find (\<lambda>x. key x = key (burn r))
      (upd_where (\<lambda>x. key x = key r \<and> \<not> consumed x \<and> expires x > now) burn rows) = Some (burn r)"
    by (intro find_unique burn_unique assms(1))
  ultimately show ?thesis by (simp add: key_burn)
qed

end

interpretation nonce_rows: burn_table sn_nonce sn_consumed sn_expires_at "\<lambda>r. r\<lparr>sn_consumed := True\<rparr>"
  by unfold_locales simp_all

interpretation state_rows: burn_table st_nonce st_consumed st_expires_at "\<lambda>r. r\<lparr>st_consumed := True\<rparr>"
  by unfold_locales simp_all

interpretation handoff_rows: burn_table ho_code ho_consumed ho_expires_at "\<lambda>r. r\<lparr>ho_consumed := True\<rparr>"
  by unfold_locales simp_all

lemmas redeem_defs = redeem_nonce_def consume_nonce_def consume_state_def consume_handoff_def
  unspent_nonce_def unspent_state_def unspent_handoff_def Let_def

interpretation nonces: one_time_store "\<lambda>now (_ :: unit) t. issue_nonce ttl now t" redeem_nonce
  "\<lambda>d. unique_on sn_nonce (social_nonces d)" unspent_nonce for ttl
proof (unfold_locales, goal_cases)
  case (1 s now t r s')
  then show ?case using nonce_rows.burn_wins [of "social_nonces s" t now]
    by (auto simp: redeem_defs split: if_splits)
next
  case (2 s now t ro s' t')
  then show ?case by (auto simp: redeem_defs dest!: nonce_rows.burn_keeps)
next
  case (3 s now p t s' t')
  then show ?case by (auto simp: issue_nonce_def redeem_defs split: if_splits)
next
  case (4 s now t ro s')
  then show ?case by (auto simp: redeem_defs intro: nonce_rows.burn_unique)
next
  case (5 s now p t s')
  then show ?case by (auto simp: issue_nonce_def Let_def list_ex_iff unique_intros split: if_splits)
qed

interpretation states: one_time_store "create_state ttl" consume_state
  "\<lambda>d. unique_on st_nonce (oauth_states d)" unspent_state for ttl
proof (unfold_locales, goal_cases)
  case (1 s now t r s')
  then show ?case using state_rows.burn_wins [of "oauth_states s" t now]
    by (auto simp: redeem_defs split: if_splits option.splits)
next
  case (2 s now t ro s' t')
  then show ?case
    by (auto simp: redeem_defs split: if_splits option.splits dest!: state_rows.burn_keeps)
next
  case (3 s now p t s' t')
  then show ?case by (auto simp: create_state_def redeem_defs split: if_splits prod.splits)
next
  case (4 s now t ro s')
  then show ?case by (auto simp: redeem_defs intro: state_rows.burn_unique split: if_splits option.splits)
next
  case (5 s now p t s')
  then show ?case by (auto simp: create_state_def list_ex_iff split: if_splits prod.splits)
qed

interpretation handoffs: one_time_store "create_handoff dumps ttl" "consume_handoff loads"
  "\<lambda>d. unique_on ho_code (oauth_handoffs d)" unspent_handoff for dumps ttl loads
proof (unfold_locales, goal_cases)
  case (1 s now t r s')
  then show ?case using handoff_rows.burn_wins [of "oauth_handoffs s" t now]
    by (auto simp: redeem_defs split: if_splits option.splits)
next
  case (2 s now t ro s' t')
  then show ?case
    by (auto simp: redeem_defs split: if_splits option.splits dest!: handoff_rows.burn_keeps)
next
  case (3 s now p t s' t')
  then show ?case by (auto simp: create_handoff_def redeem_defs split: if_splits)
next
  case (4 s now t ro s')
  then show ?case by (auto simp: redeem_defs intro: handoff_rows.burn_unique split: if_splits option.splits)
next
  case (5 s now p t s')
  then show ?case by (auto simp: create_handoff_def list_ex_iff split: if_splits)
qed

section \<open>Properties\<close>

text \<open>C8: a sign-in nonce, an OAuth state and a handoff code are redeemed at most once.
  Whatever is issued and redeemed in whatever order and at whatever times, a token that is
  not yet in its store and is minted once in the run is accepted at most once in it: a
  captured request cannot be replayed.\<close>

theorem tokens_single_use:
  assumes "unique_on sn_nonce (social_nonces d)" and "unique_on st_nonce (oauth_states d)"
    and "unique_on ho_code (oauth_handoffs d)"
    and "\<not> unspent_nonce d t" and "\<not> unspent_state d t" and "\<not> unspent_handoff d t"
    and "length (filter (issues_of t) ns) \<le> 1" and "length (filter (issues_of t) ss) \<le> 1"
    and "length (filter (issues_of t) hs) \<le> 1"
  shows "length (filter (\<lambda>(t', _). t' = t)
      (fst (token_run (\<lambda>now _ t. issue_nonce ttl now t) redeem_nonce (ns :: unit token_event list) d))) \<le> 1 \<and>
    length (filter (\<lambda>(t', _). t' = t) (fst (token_run (create_state ttl) consume_state ss d))) \<le> 1 \<and>
    length (filter (\<lambda>(t', _). t' = t)
      (fst (token_run (create_handoff dumps ttl) (consume_handoff loads) hs d))) \<le> 1"
  using nonces.single_use [OF assms(1,4,7)] states.single_use [OF assms(2,5,8)]
    handoffs.single_use [OF assms(3,6,9)] by blast

theorem tokens_single_use_witness:
  "length (filter (\<lambda>(t', _). t' = ''t'') (fst (token_run (create_state 60) consume_state
     [Issue 0 (''google'', None, None) ''t'', Redeem 1 ''t'', Redeem 2 ''t''] empty_db))) \<le> 1"
  by (rule tokens_single_use [where ns = "[]" and hs = "[]", THEN conjunct2, THEN conjunct1])
    (simp_all add: empty_db_def unspent_nonce_def unspent_state_def unspent_handoff_def)

text \<open>What was stored under a token comes back on its first redemption before the
  expiry, unchanged, and a later redemption of it gets nothing.\<close>

theorem state_roundtrip:
  assumes "unique_on st_nonce (oauth_states d)" and "create_state ttl now p t d = Inr d1"
    and "later < now + ttl"
  shows "\<exists>d2. consume_state later t d1 = (Some p, d2) \<and> fst (consume_state again t d2) = None"
proof -
  obtain pr cv ac where p: "p = (pr, cv, ac)" by (cases p)
  define r where "r = \<lparr>st_nonce = t, st_provider = pr, st_code_verifier = cv, st_app_challenge = ac,
     st_expires_at = now + ttl, st_consumed = False, st_created_at = now\<rparr>"
  have d1: "oauth_states d1 = oauth_states d @ [r]"
    using assms(2) by (auto simp: create_state_def p r_def split: if_splits)
  have inv: "unique_on st_nonce (oauth_states d1)" using states.iss_inv [OF assms(1,2)] .
  have "rowcount (\<lambda>x. st_nonce x = t \<and> \<not> st_consumed x \<and> st_expires_at x > later) (oauth_states d1) = 1 \<and>
    find (\<lambda>x. st_nonce x = t) (upd_where (\<lambda>x. st_nonce x = t \<and> \<not> st_consumed x \<and> st_expires_at x > later)
      (\<lambda>r. r\<lparr>st_consumed := True\<rparr>) (oauth_states d1)) = Some (r\<lparr>st_consumed := True\<rparr>)"
    using state_rows.burn_live [OF inv, of r later] assms(3) by (simp add: d1 r_def)
  then obtain d2 where c: "consume_state later t d1 = (Some p, d2)"
    by (simp add: consume_state_def Let_def p r_def)
  have "\<not> unspent_state d2 t" "unique_on st_nonce (oauth_states d2)"
    using states.spend [OF inv c] states.red_inv [OF inv c] by simp_all
  then have "fst (consume_state again t d2) = None"
    using states.spend [of d2 again t] by (metis not_None_eq prod.collapse)
  with c show ?thesis by blast
qed

end
