(* ===== verification/Ids.thy ===== *)
theory Ids
  imports DirectMessages "HOL-Library.Word"
begin

text \<open>Identifier minting (\<open>domain/ids.py\<close>): the Crockford base-32 encoder and \<open>new_ulid\<close>.
  The clock reading and the ten bytes of \<open>os.urandom\<close> are arguments. The module relies on a
  ULID being both a key and a sort key; the theorems are that minted ids sort by time, that
  they lose no bit of their inputs, and that they have the shape the direct-message key
  needs.\<close>

section \<open>Definitions\<close>

definition CROCKFORD :: string where
  "CROCKFORD = ''0123456789ABCDEFGHJKMNPQRSTVWXYZ''"

unbundle bit_operations_syntax

fun encode_loop :: "nat \<Rightarrow> int \<Rightarrow> string \<Rightarrow> string" where
  "encode_loop 0 v chars = chars"
| "encode_loop (Suc n) v chars =
     encode_loop n (drop_bit 5 v) (chars @ [CROCKFORD ! nat (v AND 31)])"

definition encode :: "int \<Rightarrow> nat \<Rightarrow> string" where
  "encode v n = rev (encode_loop n v [])"

definition from_bytes_big :: "8 word list \<Rightarrow> int" where
  "from_bytes_big bs = foldl (\<lambda>acc b. acc * 256 + uint b) 0 bs"

definition new_ulid :: "int \<Rightarrow> 8 word list \<Rightarrow> ident" where
  "new_ulid ts_ms urandom = encode ts_ms 10 @ encode (from_bytes_big urandom) 16"

text \<open>What a decoder reads back: the digit of a character and the value of a string.\<close>

definition digit_of :: "char \<Rightarrow> int" where
  "digit_of c = int (length (takeWhile (\<lambda>x. x \<noteq> c) CROCKFORD))"

definition decode :: "string \<Rightarrow> int" where
  "decode s = foldl (\<lambda>acc c. acc * 32 + digit_of c) 0 s"

section \<open>The encoder as digits\<close>

definition digit :: "int \<Rightarrow> char" where
  "digit i = CROCKFORD ! nat (i mod 32)"

fun digits :: "nat \<Rightarrow> int \<Rightarrow> string" where
  "digits 0 v = []"
| "digits (Suc n) v = digits n (v div 32) @ [digit v]"

lemma low_bits: "v AND 31 = v mod (32 :: int)"
  using take_bit_eq_mask [of 5 v] take_bit_eq_mod [of 5 v] by (simp add: mask_numeral)

lemma shift_bits: "drop_bit 5 v = v div (32 :: int)"
  by (simp add: drop_bit_eq_div)

lemma encode_loop_digits: "rev (encode_loop n v chars) = digits n v @ rev chars"
  by (induction n arbitrary: v chars) (simp_all add: low_bits shift_bits digit_def)

lemma encode_digits: "encode v n = digits n v"
  by (simp add: encode_def encode_loop_digits)

lemma length_digits [simp]: "length (digits n v) = n"
  by (induction n arbitrary: v) simp_all

lemma length_CROCKFORD [simp]: "length CROCKFORD = 32"
  by (simp add: CROCKFORD_def)

lemma CROCKFORD_sorted: "sorted_wrt (<) CROCKFORD"
  by (simp add: CROCKFORD_def less_char_def)

lemma digit_less: "0 \<le> a \<Longrightarrow> a < b \<Longrightarrow> b < 32 \<Longrightarrow> digit a < digit b"
  using sorted_wrt_nth_less [OF CROCKFORD_sorted, of "nat a" "nat b"]
  by (simp add: digit_def nat_less_iff)

lemma digit_of_digit: "digit_of (digit v) = v mod 32"
proof -
  have "nat (v mod 32) < 32" by (simp add: nat_less_iff)
  moreover have "\<forall>i < 32. length (takeWhile (\<lambda>x. x \<noteq> CROCKFORD ! i) CROCKFORD) = i"
  proof (intro allI impI)
    fix i :: nat assume i: "i < 32"
    have "distinct CROCKFORD" using CROCKFORD_sorted strict_sorted_iff by blast
    then have "takeWhile (\<lambda>x. x \<noteq> CROCKFORD ! i) CROCKFORD = take i CROCKFORD"
      using i by (intro takeWhile_eq_take_P_nth) (auto simp: nth_eq_iff_index_eq)
    then show "length (takeWhile (\<lambda>x. x \<noteq> CROCKFORD ! i) CROCKFORD) = i" using i by simp
  qed
  ultimately show ?thesis by (simp add: digit_of_def digit_def)
qed

lemma decode_digits: "decode (digits n v) = v mod 32 ^ n"
proof (induction n arbitrary: v)
  case 0 then show ?case by (simp add: decode_def)
next
  case (Suc n)
  have "decode (digits (Suc n) v) = (v div 32) mod 32 ^ n * 32 + v mod 32"
    using Suc.IH [of "v div 32"] by (simp add: decode_def digit_of_digit)
  also have "\<dots> = v mod 32 ^ Suc n"
    using zmod_zmult2_eq [of "32 ^ n" v 32] by (simp add: mult.commute)
  finally show ?case .
qed

section \<open>Order and injectivity\<close>

lemma append_less_append:
  fixes xs ys :: "'a :: linorder list"
  assumes "length xs = length ys" and "xs < ys"
  shows "xs @ us < ys @ vs"
  using assms by (induction xs ys rule: list_induct2) auto

lemma append_same_less:
  fixes us vs :: "'a :: linorder list"
  shows "xs @ us < xs @ vs \<longleftrightarrow> us < vs"
  by (induction xs) auto

lemma digits_less: "0 \<le> a \<Longrightarrow> a < b \<Longrightarrow> b < 32 ^ n \<Longrightarrow> digits n a < digits n b"
proof (induction n arbitrary: a b)
  case 0 then show ?case by simp
next
  case (Suc n)
  have b: "b div 32 < 32 ^ n" using Suc.prems by (simp add: div_less_iff_less_mult)
  show ?case
  proof (cases "a div 32 < b div 32")
    case True
    with Suc.IH [of "a div 32" "b div 32"] Suc.prems b show ?thesis
      by (simp add: append_less_append)
  next
    case False
    then have q: "a div 32 = b div 32" using Suc.prems zdiv_mono1 [of a b 32] by simp
    then have "a mod 32 < b mod 32"
      using Suc.prems by (metis add_less_cancel_left mult_div_mod_eq)
    then have "digit a < digit b"
      using digit_less [of "a mod 32" "b mod 32"] by (simp add: digit_def)
    with q show ?thesis by (simp add: append_same_less)
  qed
qed

lemma base_256_unique:
  fixes x y u v :: int
  assumes "x * 256 + u = y * 256 + v" and "0 \<le> u" "u < 256" "0 \<le> v" "v < 256"
  shows "x = y \<and> u = v"
proof -
  have "x = (x * 256 + u) div 256" "(y * 256 + v) div 256 = y" using assms by simp_all
  then have "x = y" using assms(1) by metis
  with assms(1) show ?thesis by simp
qed

lemma from_bytes_big_snoc: "from_bytes_big (bs @ [b]) = from_bytes_big bs * 256 + uint b"
  by (simp add: from_bytes_big_def)

lemma from_bytes_big_bounds: "0 \<le> from_bytes_big bs \<and> from_bytes_big bs < 256 ^ length bs"
proof (induction bs rule: rev_induct)
  case Nil then show ?case by (simp add: from_bytes_big_def)
next
  case (snoc b bs)
  have "uint b < 256" using uint_lt2p [of b] by simp
  with snoc show ?case by (simp add: from_bytes_big_snoc)
qed

lemma from_bytes_big_inj:
  "length bs = length cs \<Longrightarrow> from_bytes_big bs = from_bytes_big cs \<Longrightarrow> bs = cs"
proof (induction bs arbitrary: cs rule: rev_induct)
  case Nil then show ?case by simp
next
  case (snoc b bs)
  then obtain ds d where cs: "cs = ds @ [d]" by (cases cs rule: rev_cases) auto
  have u: "0 \<le> uint b" "uint b < 256" "0 \<le> uint d" "uint d < 256"
    using uint_lt2p [of b] uint_lt2p [of d] by simp_all
  have eq: "from_bytes_big bs * 256 + uint b = from_bytes_big ds * 256 + uint d"
    using snoc.prems(2) by (simp add: cs from_bytes_big_snoc)
  then have "from_bytes_big bs = from_bytes_big ds" "uint b = uint d"
    using base_256_unique [OF eq u] by blast+
  then have "bs = ds" "b = d" using snoc cs by (auto simp: word_uint_eq_iff)
  with cs show ?case by simp
qed

lemma set_digits: "set (digits n v) \<subseteq> set CROCKFORD"
proof (induction n arbitrary: v)
  case (Suc n)
  have "digit v \<in> set CROCKFORD" by (simp add: digit_def nat_less_iff)
  with Suc show ?case by auto
qed simp

text \<open>Ids minted at different milliseconds sort by time, whatever the random tails: up to
  the year 37648 (50 bits of milliseconds) the earlier id is lexicographically smaller. This
  is what lets an id serve as the history order and the paging cursor.\<close>

theorem new_ulid_sorts_by_time:
  assumes "0 \<le> t1" and "t1 < t2" and "t2 < 2 ^ 50"
  shows "new_ulid t1 r1 < new_ulid t2 r2"
  using assms by (simp add: new_ulid_def encode_digits append_less_append digits_less)

text \<open>Minting loses nothing: a decoder reads the millisecond and the eighty random bits
  back from the two parts of the id, so two ids are equal only if both inputs are.\<close>

theorem new_ulid_roundtrip:
  assumes "0 \<le> t" and "t < 2 ^ 50" and "length r = 10"
  shows "decode (take 10 (new_ulid t r)) = t \<and>
    decode (drop 10 (new_ulid t r)) = from_bytes_big r \<and>
    (\<forall>t' r'. 0 \<le> t' \<and> t' < 2 ^ 50 \<and> length r' = 10 \<and> new_ulid t' r' = new_ulid t r \<longrightarrow> t' = t \<and> r' = r)"
proof -
  have dec: "decode (take 10 (new_ulid x y)) = x \<and> decode (drop 10 (new_ulid x y)) = from_bytes_big y"
    if "0 \<le> x" "x < 2 ^ 50" "length y = 10" for x y
    using that from_bytes_big_bounds [of y]
    by (simp add: new_ulid_def encode_digits decode_digits)
  show ?thesis using dec assms by (metis from_bytes_big_inj)
qed

text \<open>Every minted id has 26 characters of the Crockford alphabet; in particular it has
  the shape on which the direct-message key is injective and decodable.\<close>

theorem new_ulid_shape:
  "set (new_ulid t r) \<subseteq> set CROCKFORD \<and> ulid_shape (new_ulid t r)"
proof -
  have "set (new_ulid t r) \<subseteq> set CROCKFORD"
    using set_digits by (auto simp: new_ulid_def encode_digits)
  moreover have "CHR '':'' \<notin> set CROCKFORD" by (simp add: CROCKFORD_def)
  ultimately show ?thesis by (auto simp: ulid_shape_def new_ulid_def encode_digits)
qed

end
