(* ===== verification/Echo.thy ===== *)
theory Echo
  imports Prelude Complex_Main
begin

text \<open>Echo suppression (\<open>domain/echo.py\<close>): the in-memory record of what the gateway has just
  published, consulted when the bus sends it back. The dictionary is a finite map from the
  content key to the list of pending expiries; the clock readings of \<open>time.time()\<close> are
  arguments. A run is a list of clocked events.\<close>

section \<open>Definitions\<close>

type_synonym echo_key = "string \<times> string \<times> string"
type_synonym seen = "echo_key \<rightharpoonup> real list"

definition TTL_SECONDS :: real where
  "TTL_SECONDS = 30"

definition seen_key :: "string \<Rightarrow> string \<Rightarrow> string \<Rightarrow> echo_key" where
  "seen_key aiko_channel aiko_username body = (aiko_channel, aiko_username, body)"

definition evict :: "real \<Rightarrow> seen \<Rightarrow> seen" where
  "evict now s = (\<lambda>k. case s k of
       None \<Rightarrow> None
     | Some exps \<Rightarrow>
         let live = filter (\<lambda>e. e > now) exps
         in if live \<noteq> [] then Some live else None)"

definition mark_sent :: "real \<Rightarrow> string \<Rightarrow> string \<Rightarrow> string \<Rightarrow> seen \<Rightarrow> seen" where
  "mark_sent now aiko_channel aiko_username body s =
     (let s' = evict now s;
          key = seen_key aiko_channel aiko_username body;
          slot = (case s' key of None \<Rightarrow> [] | Some exps \<Rightarrow> exps)
      in s'(key \<mapsto> slot @ [now + TTL_SECONDS]))"

definition is_own_echo :: "real \<Rightarrow> string \<Rightarrow> string option \<Rightarrow> string \<Rightarrow> seen \<Rightarrow> bool \<times> seen" where
  "is_own_echo now aiko_channel aiko_username body s =
     (case aiko_username of
        None \<Rightarrow> (False, s)
      | Some u \<Rightarrow>
          let s' = evict now s;
              key = seen_key aiko_channel u body
          in case s' key of
               None \<Rightarrow> (False, s')
             | Some [] \<Rightarrow> (False, s')
             | Some (_ # rest) \<Rightarrow>
                 (True, if rest = [] then s'(key := None) else s'(key \<mapsto> rest)))"

section \<open>Runs\<close>

datatype echo_event = Sent real string string string | Inbound real string "string option" string

fun echo_step :: "echo_event \<Rightarrow> seen \<Rightarrow> bool \<times> seen" where
  "echo_step (Sent now c u b) s = (False, mark_sent now c u b s)"
| "echo_step (Inbound now c u b) s = is_own_echo now c u b s"

text \<open>The answers of a run, in order, and its final state.\<close>

fun echo_run :: "echo_event list \<Rightarrow> seen \<Rightarrow> bool list \<times> seen" where
  "echo_run [] s = ([], s)"
| "echo_run (e # es) s =
     (let (r, s') = echo_step e s; (rs, s'') = echo_run es s' in (r # rs, s''))"

fun event_time :: "echo_event \<Rightarrow> real" where
  "event_time (Sent now _ _ _) = now"
| "event_time (Inbound now _ _ _) = now"

fun sends_of :: "echo_key \<Rightarrow> echo_event \<Rightarrow> bool" where
  "sends_of k (Sent _ c u b) = (seen_key c u b = k)"
| "sends_of k (Inbound _ _ _ _) = False"

fun inbound_of :: "echo_key \<Rightarrow> echo_event \<Rightarrow> bool" where
  "inbound_of k (Sent _ _ _ _) = False"
| "inbound_of k (Inbound _ c u b) = (\<exists>u'. u = Some u' \<and> seen_key c u' b = k)"

text \<open>How many of the inbound messages with content \<open>k\<close> a run dropped.\<close>

definition dropped :: "echo_key \<Rightarrow> echo_event list \<Rightarrow> bool list \<Rightarrow> nat" where
  "dropped k es rs = length (filter (\<lambda>(e, r). inbound_of k e \<and> r) (zip es rs))"

section \<open>The pending expiries as a total function\<close>

definition pending :: "seen \<Rightarrow> echo_key \<Rightarrow> real list" where
  "pending s k = (case s k of None \<Rightarrow> [] | Some exps \<Rightarrow> exps)"

lemma pending_evict [simp]: "pending (evict now s) k = filter (\<lambda>e. e > now) (pending s k)"
  by (simp add: pending_def evict_def Let_def split: option.splits)

lemma pending_upd [simp]:
  "pending (m(key := v)) k = (if k = key then (case v of None \<Rightarrow> [] | Some x \<Rightarrow> x) else pending m k)"
  by (simp add: pending_def)

lemma pending_Some: "m k = Some x \<Longrightarrow> pending m k = x" and pending_None: "m k = None \<Longrightarrow> pending m k = []"
  by (simp_all add: pending_def)

lemma pending_mark_sent:
  "pending (mark_sent now c u b s) k =
     filter (\<lambda>e. e > now) (pending s k) @ (if seen_key c u b = k then [now + TTL_SECONDS] else [])"
proof -
  have "mark_sent now c u b s = (evict now s)(seen_key c u b \<mapsto>
      pending (evict now s) (seen_key c u b) @ [now + TTL_SECONDS])"
    by (simp add: mark_sent_def Let_def pending_def)
  then show ?thesis by auto
qed

lemma is_own_echo_refines:
  assumes "is_own_echo now c (Some u) b s = (r, s')"
  shows "(r \<longleftrightarrow> filter (\<lambda>e. e > now) (pending s (seen_key c u b)) \<noteq> []) \<and>
     pending s' k = (if seen_key c u b = k then tl (filter (\<lambda>e. e > now) (pending s k))
       else filter (\<lambda>e. e > now) (pending s k))"
proof -
  let ?k = "seen_key c u b" and ?s = "evict now s"
  consider "?s ?k = None" "r = False" "s' = ?s"
    | "?s ?k = Some []" "r = False" "s' = ?s"
    | x rest where "?s ?k = Some (x # rest)" "r = True"
        "s' = (if rest = [] then ?s(?k := None) else ?s(?k \<mapsto> rest))"
    using assms by (auto simp: is_own_echo_def Let_def split: option.splits list.splits)
  then show ?thesis
  proof cases
    case 1
    then have "filter (\<lambda>e. e > now) (pending s ?k) = []"
      using pending_evict [of now s ?k] pending_None [of ?s ?k] by simp
    with 1 show ?thesis by auto
  next
    case 2
    then have "filter (\<lambda>e. e > now) (pending s ?k) = []"
      using pending_evict [of now s ?k] pending_Some [of ?s ?k] by simp
    with 2 show ?thesis by auto
  next
    case 3
    then have "filter (\<lambda>e. e > now) (pending s ?k) = x # rest"
      using pending_evict [of now s ?k] pending_Some [of ?s ?k] by simp
    with 3 show ?thesis by auto
  qed
qed

lemma is_own_echo_anonymous [simp]: "is_own_echo now c None b s = (False, s)"
  by (simp add: is_own_echo_def)

lemma in_set_tlD: "x \<in> set (tl xs) \<Longrightarrow> x \<in> set xs"
  by (cases xs) auto

text \<open>Inside one time-to-live nothing expires, and pending counts publishes minus echoes.\<close>

lemma no_expiry:
  "\<forall>e \<in> set (pending s k). t0 + TTL_SECONDS \<le> e \<Longrightarrow> now < t0 + TTL_SECONDS \<Longrightarrow>
    filter (\<lambda>e. e > now) (pending s k) = pending s k"
  by (auto simp: filter_id_conv)

lemma echo_run_counts:
  assumes "\<forall>e \<in> set es. t0 \<le> event_time e \<and> event_time e < t0 + TTL_SECONDS"
    and "\<forall>k. \<forall>e \<in> set (pending s k). t0 + TTL_SECONDS \<le> e"
    and "echo_run es s = (rs, s')"
  shows "length (pending s' k) + dropped k es rs = length (pending s k) + length (filter (sends_of k) es) \<and>
    (\<forall>k. \<forall>e \<in> set (pending s' k). t0 + TTL_SECONDS \<le> e)"
  using assms
proof (induction es arbitrary: s rs)
  case Nil then show ?case by (simp add: dropped_def)
next
  case (Cons e es)
  obtain r s1 rs1 where st: "echo_step e s = (r, s1)" and run: "echo_run es s1 = (rs1, s')"
      and rs: "rs = r # rs1"
    using Cons.prems(3) by (auto split: prod.splits)
  note keep = no_expiry [of s _ t0 "event_time e"]
  have now: "t0 \<le> event_time e" "event_time e < t0 + TTL_SECONDS" using Cons.prems(1) by simp_all
  have one: "length (pending s1 k) + (if inbound_of k e \<and> r then 1 else 0) =
      length (pending s k) + (if sends_of k e then 1 else 0) \<and>
      (\<forall>x \<in> set (pending s1 k). t0 + TTL_SECONDS \<le> x)" for k
  proof (cases e)
    case (Sent t c u b)
    with st keep [of k] now Cons.prems(2) show ?thesis
      by (auto simp: pending_mark_sent simp del: split_paired_All)
  next
    case (Inbound t c u b)
    show ?thesis
    proof (cases u)
      case None
      with Inbound st Cons.prems(2) show ?thesis
        by (simp del: split_paired_All)
    next
      case (Some v)
      with Inbound st have "is_own_echo t c (Some v) b s = (r, s1)" by simp
      from is_own_echo_refines [OF this, of k] keep [of k] now Cons.prems(2) Inbound Some
      show ?thesis by (auto dest!: in_set_tlD simp del: split_paired_All)
    qed
  qed
  then have "\<forall>k. \<forall>x \<in> set (pending s1 k). t0 + TTL_SECONDS \<le> x" by blast
  with Cons.IH [OF _ _ run] Cons.prems(1) have
    "length (pending s' k) + dropped k es rs1 = length (pending s1 k) + length (filter (sends_of k) es) \<and>
      (\<forall>k. \<forall>e \<in> set (pending s' k). t0 + TTL_SECONDS \<le> e)" by simp
  with one [of k] show ?case by (auto simp: rs dropped_def)
qed

text \<open>C9: identical sends are counted, not collapsed. In a run that lasts less than the
  time-to-live, the next inbound message is dropped as an echo exactly when fewer messages
  with that content have been dropped than the gateway has published: \<open>n\<close> identical sends
  suppress \<open>n\<close> echoes, and the one after that is delivered.\<close>

theorem echoes_match_sends:
  assumes "\<forall>e \<in> set es. t0 \<le> event_time e \<and> event_time e < t0 + TTL_SECONDS"
    and "t0 \<le> now" and "now < t0 + TTL_SECONDS"
    and "echo_run es Map.empty = (rs, s)"
  shows "fst (is_own_echo now c (Some u) b s) \<longleftrightarrow>
    dropped (seen_key c u b) es rs < length (filter (sends_of (seen_key c u b)) es)"
proof -
  let ?k = "seen_key c u b"
  have n: "length (pending s ?k) + dropped ?k es rs = length (filter (sends_of ?k) es)"
    and p: "\<forall>e \<in> set (pending s ?k). t0 + TTL_SECONDS \<le> e"
    using echo_run_counts [OF assms(1) _ assms(4), of ?k] pending_None [of Map.empty]
    by (auto simp del: split_paired_All)
  obtain r s' where io: "is_own_echo now c (Some u) b s = (r, s')" by fastforce
  then have "r \<longleftrightarrow> pending s ?k \<noteq> []"
    using is_own_echo_refines [OF io, of ?k] no_expiry [OF p assms(3)] by simp
  moreover have "pending s ?k \<noteq> [] \<longleftrightarrow> 0 < length (pending s ?k)" by simp
  ultimately show ?thesis unfolding io using n by (simp only: fst_conv) linarith
qed

theorem echoes_match_sends_witness:
  "\<exists>rs s. echo_run [Sent 0 ''c'' ''u'' ''hi'', Sent 1 ''c'' ''u'' ''hi'', Inbound 2 ''c'' (Some ''u'') ''hi'']
      Map.empty = (rs, s) \<and> fst (is_own_echo 3 ''c'' (Some ''u'') ''hi'' s)"
proof -
  let ?es = "[Sent 0 ''c'' ''u'' ''hi'', Sent 1 ''c'' ''u'' ''hi'', Inbound 2 ''c'' (Some ''u'') ''hi'']"
  obtain rs s where r: "echo_run ?es Map.empty = (rs, s)" by fastforce
  have "length rs = 3" using r by (auto split: prod.splits)
  then have "dropped (seen_key ''c'' ''u'' ''hi'') ?es rs < 2"
    by (auto simp: dropped_def length_Suc_conv numeral_3_eq_3)
  with echoes_match_sends [OF _ _ _ r, of 0 3 "''c''" "''u''" "''hi''"] r show ?thesis
    by (simp add: TTL_SECONDS_def)
qed

text \<open>An echo that comes back after the time-to-live is not suppressed: when every
  publish of that content is at least thirty seconds old, the message is delivered.\<close>

theorem stale_sends_do_not_suppress:
  assumes "\<forall>e \<in> set es. sends_of (seen_key c u b) e \<longrightarrow> event_time e + TTL_SECONDS \<le> now"
  shows "\<not> fst (is_own_echo now c (Some u) b (snd (echo_run es Map.empty)))"
proof -
  let ?k = "seen_key c u b"
  have "\<forall>x \<in> set (pending (snd (echo_run es s)) ?k). x \<le> now"
    if "\<forall>x \<in> set (pending s ?k). x \<le> now" for s
    using assms that
  proof (induction es arbitrary: s)
    case (Cons e es)
    obtain r s1 where st: "echo_step e s = (r, s1)" by fastforce
    have "\<forall>x \<in> set (pending s1 ?k). x \<le> now"
    proof (cases e)
      case (Sent t c' u' b')
      with st Cons.prems show ?thesis by (auto simp: pending_mark_sent)
    next
      case (Inbound t c' u' b')
      with st Cons.prems is_own_echo_refines [of t c' _ b' s r s1 ?k] show ?thesis
        by (cases u') (auto dest!: in_set_tlD simp del: split_paired_All split: if_splits)
    qed
    with Cons st show ?case by (auto split: prod.splits)
  qed simp
  note run = this
  have old: "\<forall>x \<in> set (pending (snd (echo_run es Map.empty)) ?k). x \<le> now"
    by (rule run) (simp add: pending_None)
  obtain r s' where io: "is_own_echo now c (Some u) b (snd (echo_run es Map.empty)) = (r, s')" by fastforce
  then show ?thesis using is_own_echo_refines [OF io, of ?k] old by (fastforce simp: filter_empty_conv)
qed

theorem stale_sends_do_not_suppress_witness:
  "\<not> fst (is_own_echo 30 ''c'' (Some ''u'') ''hi'' (snd (echo_run [Sent 0 ''c'' ''u'' ''hi''] Map.empty)))"
  by (rule stale_sends_do_not_suppress) (simp add: TTL_SECONDS_def)

end
