(* ===== verification/RateLimit.thy ===== *)
theory RateLimit
  imports Prelude Complex_Main
begin

text \<open>Rate limiting (\<open>domain/rate_limit.py\<close>): the client-address extraction, the
  fixed-window counter over an \<open>OrderedDict\<close> in least-recently-used order, and the route
  dependency. The ordered dictionary is an association list, oldest first; the monotonic
  clock is an argument. Header values are Latin-1 strings, which is what the HTTP layer
  hands the code.\<close>

section \<open>Definitions\<close>

type_synonym rl_key = "string \<times> string"
type_synonym windows = "(rl_key \<times> (real \<times> int)) list"

definition MAX_KEYS :: nat where
  "MAX_KEYS = 100000"

text \<open>\<open>str.strip()\<close> on Latin-1: the characters for which \<open>str.isspace\<close> holds.\<close>

definition is_space :: "char \<Rightarrow> bool" where
  "is_space c \<longleftrightarrow> of_char c \<in> {9 :: nat, 10, 11, 12, 13, 28, 29, 30, 31, 32, 133, 160}"

definition py_strip :: "string \<Rightarrow> string" where
  "py_strip s = rev (dropWhile is_space (rev (dropWhile is_space s)))"

definition client_ip :: "string option \<Rightarrow> string option \<Rightarrow> string" where
  "client_ip xff client_host =
     (let fallback = (case client_host of Some h \<Rightarrow> h | None \<Rightarrow> ''unknown'')
      in case xff of
           None \<Rightarrow> fallback
         | Some x \<Rightarrow>
             if x = [] then fallback
             else let parts = filter (\<lambda>p. p \<noteq> []) (map py_strip (split_on (CHR '','') x))
                  in if parts \<noteq> [] then last parts else fallback)"

text \<open>The operations of \<open>OrderedDict\<close> the limiter uses.\<close>

definition od_get :: "rl_key \<Rightarrow> windows \<Rightarrow> (real \<times> int) option" where
  "od_get k ws = map_of ws k"

fun od_set :: "rl_key \<Rightarrow> real \<times> int \<Rightarrow> windows \<Rightarrow> windows" where
  "od_set k v [] = [(k, v)]"
| "od_set k v ((k', v') # ws) = (if k' = k then (k, v) # ws else (k', v') # od_set k v ws)"

definition od_move_to_end :: "rl_key \<Rightarrow> windows \<Rightarrow> windows" where
  "od_move_to_end k ws = filter (\<lambda>p. fst p \<noteq> k) ws @ filter (\<lambda>p. fst p = k) ws"

fun evict_lru :: "windows \<Rightarrow> windows" where
  "evict_lru [] = []"
| "evict_lru (w # ws) = (if length (w # ws) > MAX_KEYS then evict_lru ws else w # ws)"

text \<open>\<open>int(x)\<close> truncates towards zero.\<close>

definition py_int :: "real \<Rightarrow> int" where
  "py_int x = (if 0 \<le> x then \<lfloor>x\<rfloor> else \<lceil>x\<rceil>)"

definition hit :: "real \<Rightarrow> string \<Rightarrow> string \<Rightarrow> int \<Rightarrow> real \<Rightarrow> windows \<Rightarrow> (bool \<times> int) \<times> windows" where
  "hit now bucket ip limit window ws =
     (let key = (bucket, ip);
          (start0, count0) = (case od_get key ws of None \<Rightarrow> (now, 0) | Some v \<Rightarrow> v);
          (start, count1) = (if now - start0 \<ge> window then (now, 0) else (start0, count0));
          count = count1 + 1;
          ws' = evict_lru (od_move_to_end key (od_set key (start, count) ws))
      in if count > limit
         then ((False, max (py_int (window - (now - start)) + 1) 1), ws')
         else ((True, 0), ws'))"

definition reset :: "windows \<Rightarrow> windows" where
  "reset ws = []"

record rl_settings =
  rate_limit_enabled :: bool
  auth_rate_limit :: int
  auth_rate_limit_window_seconds :: real

datatype rl_error = TooManyRequests int

definition rate_limit :: "rl_settings \<Rightarrow> string \<Rightarrow> int option \<Rightarrow> real option \<Rightarrow> real \<Rightarrow> string option \<Rightarrow>
    string option \<Rightarrow> windows \<Rightarrow> (rl_error + unit) \<times> windows" where
  "rate_limit cfg bucket limit window now xff client_host ws =
     (if \<not> rate_limit_enabled cfg then (Inr (), ws)
      else case hit now bucket (client_ip xff client_host)
                  (case limit of None \<Rightarrow> auth_rate_limit cfg | Some l \<Rightarrow> l)
                  (case window of None \<Rightarrow> auth_rate_limit_window_seconds cfg | Some w \<Rightarrow> w) ws of
             ((allowed, retry_after), ws') \<Rightarrow>
               (if \<not> allowed then Inl (TooManyRequests retry_after) else Inr (), ws'))"

section \<open>The ordered dictionary\<close>

definition windows_ok :: "windows \<Rightarrow> bool" where
  "windows_ok ws \<longleftrightarrow> distinct (map fst ws) \<and> length ws \<le> MAX_KEYS"

lemma keys_od_set: "set (map fst (od_set k v ws)) = insert k (set (map fst ws))"
  by (induction k v ws rule: od_set.induct) auto

lemma distinct_od_set: "distinct (map fst ws) \<Longrightarrow> distinct (map fst (od_set k v ws))"
proof (induction k v ws rule: od_set.induct)
  case (2 k v k' v' ws)
  then show ?case using keys_od_set [of k v ws] by auto
qed simp

lemma od_set_touch:
  "distinct (map fst ws) \<Longrightarrow>
     od_move_to_end k (od_set k v ws) = filter (\<lambda>p. fst p \<noteq> k) ws @ [(k, v)]"
proof (induction ws)
  case Nil then show ?case by (simp add: od_move_to_end_def)
next
  case (Cons p ws)
  have "k \<notin> set (map fst ws) \<Longrightarrow> filter (\<lambda>q. fst q \<noteq> k) ws = ws \<and> filter (\<lambda>q. fst q = k) ws = []"
    by (force simp: filter_id_conv filter_empty_conv)
  with Cons show ?case by (cases p) (auto simp: od_move_to_end_def)
qed

lemma evict_lru_drop: "evict_lru ws = drop (length ws - MAX_KEYS) ws"
  by (induction ws) (auto simp: Suc_diff_le not_le)

lemma MAX_KEYS_pos: "0 < MAX_KEYS"
  by (simp add: MAX_KEYS_def)

text \<open>The touched key is last, so eviction only ever drops a proper prefix.\<close>

lemma evict_lru_snoc: "evict_lru (ws @ [w]) = drop (Suc (length ws) - MAX_KEYS) ws @ [w]"
  using MAX_KEYS_pos by (simp add: evict_lru_drop)

definition others :: "rl_key \<Rightarrow> windows \<Rightarrow> windows" where
  "others k ws = filter (\<lambda>p. fst p \<noteq> k) ws"

lemma others_keys: "k \<notin> fst ` set (others k ws)" "fst ` set (others k ws) \<subseteq> fst ` set ws"
  by (auto simp: others_def)

lemma others_distinct: "distinct (map fst ws) \<Longrightarrow> distinct (map fst (others k ws))"
  by (simp add: others_def distinct_map_filter)

lemma od_get_others: "k' \<noteq> k \<Longrightarrow> od_get k' (others k ws @ [(k, v)]) = od_get k' ws"
  unfolding od_get_def others_def by (induction ws) auto

lemma od_get_snoc: "k \<notin> fst ` set ws \<Longrightarrow> od_get k (ws @ [(k, v)]) = Some v"
  unfolding od_get_def by (induction ws) auto

text \<open>What one hit does, as a function of what the store holds for the key.\<close>

definition bump :: "real \<Rightarrow> real \<Rightarrow> (real \<times> int) option \<Rightarrow> real \<times> int" where
  "bump now window old = (case old of
       None \<Rightarrow> (now, 1)
     | Some (start, cnt) \<Rightarrow> if now - start \<ge> window then (now, 1) else (start, cnt + 1))"

lemma hit_eq:
  assumes "distinct (map fst ws)"
  shows "hit now bucket ip limit window ws =
    (let (start, cnt) = bump now window (od_get (bucket, ip) ws);
         rest = others (bucket, ip) ws;
         ws' = drop (Suc (length rest) - MAX_KEYS) rest @ [((bucket, ip), (start, cnt))]
     in if cnt > limit then ((False, max (py_int (window - (now - start)) + 1) 1), ws')
        else ((True, 0), ws'))"
  by (auto simp: hit_def bump_def Let_def od_set_touch [OF assms] evict_lru_snoc others_def
      split: prod.splits option.splits if_splits)

lemma hit_snd:
  assumes "distinct (map fst ws)"
  shows "snd (hit now bucket ip limit window ws) =
    drop (Suc (length (others (bucket, ip) ws)) - MAX_KEYS) (others (bucket, ip) ws)
      @ [((bucket, ip), bump now window (od_get (bucket, ip) ws))]"
  by (simp add: hit_eq [OF assms] Let_def split: prod.splits)

lemma hit_fst:
  assumes "distinct (map fst ws)"
  shows "fst (fst (hit now bucket ip limit window ws)) \<longleftrightarrow>
    snd (bump now window (od_get (bucket, ip) ws)) \<le> limit"
  by (simp add: hit_eq [OF assms] Let_def split: prod.splits)

lemma hit_get:
  assumes "distinct (map fst ws)"
  shows "od_get (bucket, ip) (snd (hit now bucket ip limit window ws)) =
    Some (bump now window (od_get (bucket, ip) ws))"
  unfolding hit_snd [OF assms] using others_keys [of "(bucket, ip)" ws]
  by (intro od_get_snoc) (auto dest: in_set_dropD)

lemma hit_windows_ok:
  assumes "windows_ok ws"
  shows "windows_ok (snd (hit now bucket ip limit window ws))"
proof -
  have d: "distinct (map fst ws)" using assms by (simp add: windows_ok_def)
  define r where "r = others (bucket, ip) ws"
  have r: "(bucket, ip) \<notin> fst ` set r" "distinct (map fst r)"
    using others_keys others_distinct [OF d] by (simp_all add: r_def)
  have "distinct (map fst (drop n r @ [((bucket, ip), v)]))" for n v
    using r in_set_dropD [of "(bucket, ip)" n "map fst r"] by (auto simp: drop_map [symmetric])
  moreover have "length (drop (Suc (length r) - MAX_KEYS) r @ [w]) \<le> MAX_KEYS" for w
    using MAX_KEYS_pos by simp
  ultimately show ?thesis by (simp only: windows_ok_def hit_snd [OF d] r_def [symmetric])
qed

section \<open>Runs\<close>

record rl_request =
  rq_now :: real
  rq_bucket :: string
  rq_ip :: string
  rq_limit :: int
  rq_window :: real

definition rq_key :: "rl_request \<Rightarrow> rl_key" where
  "rq_key q = (rq_bucket q, rq_ip q)"

fun rl_run :: "rl_request list \<Rightarrow> windows \<Rightarrow> bool list \<times> windows" where
  "rl_run [] ws = ([], ws)"
| "rl_run (q # qs) ws =
     (let ((allowed, _), ws') = hit (rq_now q) (rq_bucket q) (rq_ip q) (rq_limit q) (rq_window q) ws;
          (rs, ws'') = rl_run qs ws'
      in (allowed # rs, ws''))"

definition admitted :: "rl_key \<Rightarrow> rl_request list \<Rightarrow> bool list \<Rightarrow> nat" where
  "admitted k qs rs = length (filter (\<lambda>(q, r). rq_key q = k \<and> r) (zip qs rs))"

lemma rl_run_ok: "windows_ok ws \<Longrightarrow> windows_ok (snd (rl_run qs ws))"
proof (induction qs arbitrary: ws)
  case (Cons q qs)
  obtain a r ws' where h: "hit (rq_now q) (rq_bucket q) (rq_ip q) (rq_limit q) (rq_window q) ws = ((a, r), ws')"
    by (metis prod.exhaust)
  then have "windows_ok ws'" using hit_windows_ok [OF Cons.prems] by (metis snd_conv)
  with Cons.IH h show ?case by (simp split: prod.splits) (metis snd_conv)
qed simp

text \<open>While the keys in play fit the store, a hit on one key leaves the others alone.\<close>

lemma hit_other:
  assumes "windows_ok ws" and "insert (b, ip) (fst ` set ws) \<subseteq> S" and "finite S" and "card S \<le> MAX_KEYS"
  shows "snd (hit now b ip limit window ws) =
    others (b, ip) ws @ [((b, ip), bump now window (od_get (b, ip) ws))]"
proof -
  have d: "distinct (map fst ws)" using assms(1) by (simp add: windows_ok_def)
  have "card (insert (b, ip) (fst ` set (others (b, ip) ws))) \<le> card S"
    using assms(2,3) others_keys(2) [of "(b, ip)" ws] by (intro card_mono) auto
  moreover have "card (fst ` set (others (b, ip) ws)) = length (others (b, ip) ws)"
    using distinct_card [OF others_distinct [OF d, of "(b, ip)"]] by simp
  ultimately have "Suc (length (others (b, ip) ws)) - MAX_KEYS = 0"
    using others_keys(1) [of "(b, ip)" ws] assms(4) by simp
  then show ?thesis by (simp add: hit_snd [OF d])
qed

text \<open>Inside one window the stored count of a key is the number of its hits.\<close>

definition counted :: "rl_key \<Rightarrow> real \<Rightarrow> nat \<Rightarrow> windows \<Rightarrow> bool" where
  "counted k t0 n ws \<longleftrightarrow> (case od_get k ws of
       None \<Rightarrow> n = 0
     | Some (start, cnt) \<Rightarrow> 0 < n \<and> cnt = int n \<and> t0 \<le> start)"

lemma bump_counted:
  assumes "counted k t0 n ws" and "t0 \<le> now" and "now < t0 + window"
  shows "\<exists>start \<ge> t0. bump now window (od_get k ws) = (start, int (Suc n))"
  using assms by (auto simp: counted_def bump_def split: option.splits prod.splits)

lemma rl_run_budget:
  assumes "\<forall>q \<in> set qs. rq_key q = k \<longrightarrow> rq_limit q = int L \<and> rq_window q = W \<and> t0 \<le> rq_now q \<and> rq_now q < t0 + W"
    and "rq_key ` set qs \<union> fst ` set ws \<subseteq> S" and "finite S" and "card S \<le> MAX_KEYS"
    and "windows_ok ws" and "counted k t0 n ws"
  shows "admitted k qs (fst (rl_run qs ws)) = min (L - n) (length (filter (\<lambda>q. rq_key q = k) qs))"
  using assms(1,2,5,6)
proof (induction qs arbitrary: ws n)
  case Nil then show ?case by (simp add: admitted_def)
next
  case (Cons q qs)
  let ?h = "hit (rq_now q) (rq_bucket q) (rq_ip q) (rq_limit q) (rq_window q) ws"
  obtain a r ws' where h: "?h = ((a, r), ws')" by (metis prod.exhaust)
  have d: "distinct (map fst ws)" using Cons.prems(3) by (simp add: windows_ok_def)
  have kq: "rq_key q = (rq_bucket q, rq_ip q)" by (simp add: rq_key_def)
  have ws': "ws' = others (rq_key q) ws @ [(rq_key q, bump (rq_now q) (rq_window q) (od_get (rq_key q) ws))]"
    using hit_other [of ws "rq_bucket q" "rq_ip q" S "rq_now q" "rq_limit q" "rq_window q"]
      Cons.prems(2,3) assms(3,4) by (simp add: kq h)
  have keys: "rq_key ` set qs \<union> fst ` set ws' \<subseteq> S"
    using Cons.prems(2) subset_trans [OF others_keys(2) [of "rq_key q" ws]] by (simp add: ws')
  have ok: "windows_ok ws'" using hit_windows_ok [OF Cons.prems(3)] h by (metis snd_conv)
  have run: "fst (rl_run (q # qs) ws) = a # fst (rl_run qs ws')" by (simp add: h split: prod.splits)
  show ?case
  proof (cases "rq_key q = k")
    case True
    then have q: "rq_limit q = int L" "rq_window q = W" "t0 \<le> rq_now q" "rq_now q < t0 + W"
      using Cons.prems(1) by simp_all
    obtain start where b: "t0 \<le> start" "bump (rq_now q) W (od_get k ws) = (start, int (Suc n))"
      using bump_counted [OF Cons.prems(4) q(3,4)] by blast
    have "counted k t0 (Suc n) ws'"
      using od_get_snoc [OF others_keys(1), of k ws] b True q(2) by (simp add: counted_def ws')
    moreover have "a \<longleftrightarrow> Suc n \<le> L"
      using hit_fst [OF d, of "rq_now q" "rq_bucket q" "rq_ip q" "rq_limit q" "rq_window q"] b(2) True kq q h
      by auto
    ultimately show ?thesis
      using Cons.IH [of ws' "Suc n"] Cons.prems(1) keys ok True run by (auto simp: admitted_def)
  next
    case False
    then have "od_get k ws' = od_get k ws" unfolding ws' by (intro od_get_others) simp
    then have "counted k t0 n ws'" using Cons.prems(4) by (simp add: counted_def)
    then show ?thesis
      using Cons.IH [of ws' n] Cons.prems(1) keys ok False run by (simp add: admitted_def)
  qed
qed

section \<open>Properties\<close>

text \<open>The limit is exact. From a fresh limiter, in a run of requests by any clients with
  at most \<open>MAX_KEYS\<close> distinct (bucket, address) pairs, of the requests one pair makes inside
  one window exactly the first \<open>limit\<close> are admitted.\<close>

theorem window_budget_exact:
  assumes "\<forall>q \<in> set qs. rq_key q = k \<longrightarrow>
      rq_limit q = int L \<and> rq_window q = W \<and> t0 \<le> rq_now q \<and> rq_now q < t0 + W"
    and "card (rq_key ` set qs) \<le> MAX_KEYS"
  shows "admitted k qs (fst (rl_run qs [])) = min L (length (filter (\<lambda>q. rq_key q = k) qs))"
  using rl_run_budget [OF assms(1), of "[]" "rq_key ` set qs" 0] assms(2)
  by (simp add: windows_ok_def counted_def od_get_def)

definition ex_request :: "real \<Rightarrow> string \<Rightarrow> rl_request" where
  "ex_request now ip = \<lparr>rq_now = now, rq_bucket = ''login'', rq_ip = ip, rq_limit = 2, rq_window = 60\<rparr>"

text \<open>The store is bounded by \<open>MAX_KEYS\<close> whatever the clients do, and the key a request
  has just touched is never the one evicted: its counter is the stored one plus one, or a
  fresh window.\<close>

theorem limiter_bounded:
  "length (snd (rl_run qs [])) \<le> MAX_KEYS \<and>
   od_get (b, ip) (snd (hit now b ip limit window (snd (rl_run qs [])))) =
     Some (bump now window (od_get (b, ip) (snd (rl_run qs []))))"
proof -
  have "windows_ok (snd (rl_run qs []))" by (rule rl_run_ok) (simp add: windows_ok_def)
  then show ?thesis using hit_get unfolding windows_ok_def by blast
qed

text \<open>The header \<open>Retry-After\<close> is honest: a client that was refused and waits at least the
  seconds it was told is admitted.\<close>

theorem retry_after_suffices:
  assumes "windows_ok ws" and "hit now b ip limit window ws = ((False, retry), ws')"
    and "now + of_int retry \<le> later" and "1 \<le> limit"
  shows "1 \<le> retry \<and> fst (hit later b ip limit window ws') = (True, 0)"
proof -
  have d: "distinct (map fst ws)" "distinct (map fst ws')"
    using assms(1) hit_windows_ok [OF assms(1), of now b ip limit window] assms(2)
    by (simp_all add: windows_ok_def)
  obtain start cnt where b: "bump now window (od_get (b, ip) ws) = (start, cnt)" by fastforce
  then have r: "retry = max (py_int (window - (now - start)) + 1) 1"
    using assms(2) by (auto simp: hit_eq [OF d(1)] Let_def split: if_splits)
  have "window - (now - start) \<le> of_int retry" unfolding r py_int_def by (simp; linarith)
  then have "window \<le> later - start" using assms(3) by simp
  moreover have "od_get (b, ip) ws' = Some (start, cnt)"
    using hit_get [OF d(1), of b ip now limit window] assms(2) b by simp
  ultimately have "bump later window (od_get (b, ip) ws') = (later, 1)" by (simp add: bump_def)
  then show ?thesis using r assms(4) by (simp add: hit_eq [OF d(2)] Let_def)
qed

text \<open>The address a request is limited by is the one the reverse proxy appended: nothing
  a client puts in front of it in \<open>X-Forwarded-For\<close> changes the key.\<close>

theorem client_ip_is_proxy_entry:
  assumes "peer \<noteq> []" and "CHR '','' \<notin> set peer" and "\<forall>c \<in> set peer. \<not> is_space c"
  shows "client_ip (Some (claimed @ '', '' @ peer)) host = peer \<and> client_ip (Some peer) host = peer"
proof -
  have last_split: "split_on c (xs @ c # ys) = split_on c xs @ split_on c ys" for c xs ys
    by (induction xs) (auto split: list.splits)
  have sp: "is_space (CHR '' '')" by (simp add: is_space_def)
  have "dropWhile is_space (rev peer) = rev peer" "dropWhile is_space peer = peer"
    using assms(1,3) by (simp_all add: dropWhile_eq_self_iff hd_rev)
  then have st: "py_strip peer = peer" "py_strip ('' '' @ peer) = peer"
    by (simp_all add: py_strip_def sp)
  have "split_on (CHR '','') (claimed @ '', '' @ peer) = split_on (CHR '','') claimed @ ['' '' @ peer]"
    using last_split [of "CHR '',''" claimed "'' '' @ peer"] split_on_free [of "CHR '',''" "'' '' @ peer"] assms(2)
    by simp
  with st assms show ?thesis by (simp add: client_ip_def split_on_free Let_def)
qed

end
