(* ===== verification/UtcDateTime.thy ===== *)
theory UtcDateTime
  imports Prelude
begin

text \<open>The \<open>UtcDateTime\<close> column type (\<open>domain/types.py\<close>). A \<open>datetime\<close> is its wall-clock
  reading, in microseconds since \<open>datetime.min\<close>, and its \<open>tzinfo\<close>; a \<open>tzinfo\<close> may answer
  \<open>None\<close> to \<open>utcoffset\<close>, which Python treats as naive. Conversions to UTC raise
  \<open>OverflowError\<close> when the result leaves the years 1 to 9999.\<close>

section \<open>Definitions\<close>

record datetime =
  wall :: int
  tz :: "int option option"

text \<open>What a statement may bind: nothing, a datetime, or some other Python object.\<close>

datatype bound = BNone | BDatetime datetime | BOther

datatype bind_error = NaiveDatetimeRejected | OverflowError

definition wall_max :: int where
  "wall_max = 3652059 * 86400 * 1000000"

definition in_range :: "int \<Rightarrow> bool" where
  "in_range w \<longleftrightarrow> 0 \<le> w \<and> w < wall_max"

definition utcoffset :: "datetime \<Rightarrow> int option" where
  "utcoffset v = (case tz v of None \<Rightarrow> None | Some off \<Rightarrow> off)"

text \<open>\<open>value.astimezone(timezone.utc)\<close> for an aware value.\<close>

definition astimezone_utc :: "int \<Rightarrow> int \<Rightarrow> bind_error + datetime" where
  "astimezone_utc w off =
     (if in_range (w - off) then Inr \<lparr>wall = w - off, tz = Some (Some 0)\<rparr> else Inl OverflowError)"

definition process_bind_param :: "bound \<Rightarrow> bind_error + datetime option" where
  "process_bind_param value =
     (case value of
        BNone \<Rightarrow> Inr None
      | BOther \<Rightarrow> Inl NaiveDatetimeRejected
      | BDatetime v \<Rightarrow>
          (case utcoffset v of
             None \<Rightarrow> Inl NaiveDatetimeRejected
           | Some off \<Rightarrow>
               (case astimezone_utc (wall v) off of
                  Inl e \<Rightarrow> Inl e
                | Inr u \<Rightarrow> Inr (Some (u\<lparr>tz := None\<rparr>)))))"

text \<open>An engine that hands back a zoned value has it converted (\<open>astimezone\<close> reads a zone
  without an offset as the system's local time, an argument here). A naive one is labelled
  UTC.\<close>

definition process_result_value :: "(int \<Rightarrow> int) \<Rightarrow> datetime option \<Rightarrow> bind_error + datetime option" where
  "process_result_value local_offset value =
     (case value of
        None \<Rightarrow> Inr None
      | Some v \<Rightarrow>
          (case tz v of
             Some off \<Rightarrow>
               (case astimezone_utc (wall v) (case off of None \<Rightarrow> local_offset (wall v) | Some x \<Rightarrow> x) of
                  Inl e \<Rightarrow> Inl e | Inr u \<Rightarrow> Inr (Some u))
           | None \<Rightarrow> Inr (Some (v\<lparr>tz := Some (Some 0)\<rparr>))))"

text \<open>The point in time an aware value denotes.\<close>

definition moment :: "datetime \<Rightarrow> int option" where
  "moment v = map_option (\<lambda>off. wall v - off) (utcoffset v)"

section \<open>Properties\<close>

text \<open>Writing and reading back keeps the instant. An aware value whose UTC reading is a
  legal date is stored without a zone and comes back labelled UTC, denoting the same moment;
  a naive value, and anything that is not a datetime, is refused.\<close>

theorem utc_roundtrip:
  "(case moment v of
      None \<Rightarrow> process_bind_param (BDatetime v) = Inl NaiveDatetimeRejected
    | Some t \<Rightarrow>
        if in_range t
        then \<exists>stored back. process_bind_param (BDatetime v) = Inr (Some stored) \<and> tz stored = None \<and>
               process_result_value local_offset (Some stored) = Inr (Some back) \<and>
               utcoffset back = Some 0 \<and> moment back = Some t
        else process_bind_param (BDatetime v) = Inl OverflowError) \<and>
   process_bind_param BOther = Inl NaiveDatetimeRejected"
  by (simp add: process_bind_param_def process_result_value_def astimezone_utc_def moment_def
      utcoffset_def split: option.splits)

text \<open>Comparisons made by the database on stored values are comparisons of instants,
  whatever zones the writers used.\<close>

theorem stored_order_is_time_order:
  assumes "process_bind_param (BDatetime v) = Inr (Some s)"
    and "process_bind_param (BDatetime w) = Inr (Some t)"
  shows "wall s < wall t \<longleftrightarrow> the (moment v) < the (moment w)"
  using assms
  by (auto simp: process_bind_param_def astimezone_utc_def moment_def split: option.splits if_splits)

theorem stored_order_is_time_order_witness:
  "\<exists>s t. process_bind_param (BDatetime \<lparr>wall = 50000000000, tz = Some (Some 25200000000)\<rparr>) = Inr (Some s) \<and>
     process_bind_param (BDatetime \<lparr>wall = 40000000000, tz = Some (Some 0)\<rparr>) = Inr (Some t) \<and>
     wall s < wall t"
proof -
  let ?s = "\<lparr>wall = 24800000000, tz = None\<rparr>" and ?t = "\<lparr>wall = 40000000000, tz = None\<rparr>"
  have s: "process_bind_param (BDatetime \<lparr>wall = 50000000000, tz = Some (Some 25200000000)\<rparr>) = Inr (Some ?s)"
    and t: "process_bind_param (BDatetime \<lparr>wall = 40000000000, tz = Some (Some 0)\<rparr>) = Inr (Some ?t)"
    by (simp_all add: process_bind_param_def astimezone_utc_def utcoffset_def in_range_def wall_max_def)
  with stored_order_is_time_order [OF s t] show ?thesis
    by (simp add: moment_def utcoffset_def)
qed

end
