(* ===== verification/Users.thy ===== *)
theory Users
  imports DirectMessages
begin

text \<open>Accounts and their credentials (\<open>domain/users_service.py\<close>): password, social and
  passkey accounts, the link door, and the one statement that changes a profile. Argon2 is
  the argument \<open>hash_password\<close> / \<open>verify_password\<close>; identifiers, handles and clocks are
  arguments. An instant is in microseconds, so a second is \<open>10 ^ 6\<close>.\<close>

section \<open>Definitions\<close>

definition second :: int where "second = 10 ^ 6"

definition MAX_HANDLE_ATTEMPTS :: nat where "MAX_HANDLE_ATTEMPTS = 5"

text \<open>\<open>[^A-Za-z0-9_]\<close> replaced by an underscore.\<close>

definition handle_char :: "char \<Rightarrow> bool" where
  "handle_char c \<longleftrightarrow> CHR ''A'' \<le> c \<and> c \<le> CHR ''Z'' \<or> CHR ''a'' \<le> c \<and> c \<le> CHR ''z'' \<or>
     CHR ''0'' \<le> c \<and> c \<le> CHR ''9'' \<or> c = CHR ''_''"

definition sanitize_aiko_username :: "string \<Rightarrow> string" where
  "sanitize_aiko_username s = map (\<lambda>c. if handle_char c then c else CHR ''_'') s"

datatype users_error =
    UsersIntegrityError
  | HandleAllocationExhausted
  | CredentialAlreadyRegistered "ident option"
  | HandleTaken
  | HandleChangeCooldown int
  | AccountGone
  | ProfileValueError

text \<open>Verified passkey material.\<close>

record material =
  mat_credential_id :: string
  mat_public_key :: string
  mat_sign_count :: int
  mat_transports :: "string option"
  mat_aaguid :: "string option"

definition si_key :: "social_identity \<Rightarrow> string \<times> string" where
  "si_key s = (si_provider s, si_provider_sub s)"

definition insert_user :: "user \<Rightarrow> db \<Rightarrow> db_error + db" where
  "insert_user u d =
     (if list_ex (\<lambda>r. u_id r = u_id u \<or> u_username r = u_username u \<or> u_aiko_username r = u_aiko_username u) (users d)
      then Inl IntegrityError else Inr (d\<lparr>users := users d @ [u]\<rparr>))"

definition insert_social :: "social_identity \<Rightarrow> db \<Rightarrow> db_error + db" where
  "insert_social s d =
     (if list_ex (\<lambda>r. si_id r = si_id s \<or> si_key r = si_key s) (social_identities d)
      then Inl IntegrityError else Inr (d\<lparr>social_identities := social_identities d @ [s]\<rparr>))"

definition insert_credential :: "passkey_credential \<Rightarrow> db \<Rightarrow> db_error + db" where
  "insert_credential c d =
     (if list_ex (\<lambda>r. pk_id r = pk_id c \<or> pk_credential_id r = pk_credential_id c) (passkey_credentials d)
      then Inl IntegrityError else Inr (d\<lparr>passkey_credentials := passkey_credentials d @ [c]\<rparr>))"

text \<open>A user row with the column defaults.\<close>

definition new_user :: "instant \<Rightarrow> ident \<Rightarrow> string \<Rightarrow> string \<Rightarrow> string option \<Rightarrow> string option \<Rightarrow> bool \<Rightarrow> user" where
  "new_user now new_id handle display_name password_hash email assigned =
     \<lparr>u_id = new_id, u_username = handle, u_display_name = (if display_name = [] then handle else display_name),
      u_password_hash = password_hash, u_aiko_username = sanitize_aiko_username handle, u_email = email,
      u_created_at = now, u_banned_at = None, u_token_generation = 0, u_handle_changed_at = None,
      u_handle_assigned = assigned, u_kind = HUMAN\<rparr>"

definition create_user :: "(string \<Rightarrow> string) \<Rightarrow> instant \<Rightarrow> ident \<Rightarrow> string \<Rightarrow> string \<Rightarrow> string \<Rightarrow> db \<Rightarrow> users_error + (user \<times> db)" where
  "create_user hash_password now new_id username display_name password d =
     (let u = new_user now new_id username display_name (Some (hash_password password)) None False
      in case insert_user u d of Inl _ \<Rightarrow> Inl UsersIntegrityError | Inr d' \<Rightarrow> Inr (u, d'))"

definition is_banned :: "user \<Rightarrow> bool" where
  "is_banned u \<longleftrightarrow> u_banned_at u \<noteq> None"

definition handle_is_auto :: "user \<Rightarrow> bool" where
  "handle_is_auto u = u_handle_assigned u"

definition authenticate :: "(string \<Rightarrow> string \<Rightarrow> bool) \<Rightarrow> string \<Rightarrow> string \<Rightarrow> db \<Rightarrow> user option" where
  "authenticate verify_password username password d =
     (case find (\<lambda>u. u_username u = username) (users d) of
        None \<Rightarrow> None
      | Some u \<Rightarrow>
          (case u_password_hash u of
             None \<Rightarrow> None
           | Some h \<Rightarrow> if verify_password password h then Some u else None))"

definition get_user_by_social :: "string \<Rightarrow> string \<Rightarrow> db \<Rightarrow> user option" where
  "get_user_by_social provider provider_sub d =
     (case find (\<lambda>s. si_key s = (provider, provider_sub)) (social_identities d) of
        None \<Rightarrow> None
      | Some row \<Rightarrow> get_user d (si_user_id row))"

definition create_social_user :: "instant \<Rightarrow> ident \<Rightarrow> ident \<Rightarrow> string \<Rightarrow> string \<Rightarrow> string \<Rightarrow> string \<Rightarrow> string option \<Rightarrow> db \<Rightarrow>
    users_error + (user \<times> db)" where
  "create_social_user now user_id si provider provider_sub handle display_name email d =
     (let u = new_user now user_id handle display_name None email False;
          s = \<lparr>si_id = si, si_provider = provider, si_provider_sub = provider_sub, si_user_id = user_id, si_created_at = now\<rparr>
      in case insert_user u d of
           Inl _ \<Rightarrow> Inl UsersIntegrityError
         | Inr d1 \<Rightarrow> (case insert_social s d1 of Inl _ \<Rightarrow> Inl UsersIntegrityError | Inr d2 \<Rightarrow> Inr (u, d2)))"

definition passkey_credential_row :: "instant \<Rightarrow> ident \<Rightarrow> ident \<Rightarrow> material \<Rightarrow> passkey_credential" where
  "passkey_credential_row now new_id user_id m =
     \<lparr>pk_id = new_id, pk_credential_id = mat_credential_id m, pk_user_id = user_id, pk_public_key = mat_public_key m,
      pk_sign_count = mat_sign_count m, pk_transports = mat_transports m, pk_aaguid = mat_aaguid m,
      pk_created_at = now, pk_last_used_at = None\<rparr>"

definition create_passkey_user :: "instant \<Rightarrow> ident \<Rightarrow> ident \<Rightarrow> string \<Rightarrow> string \<Rightarrow> string option \<Rightarrow> material \<Rightarrow> db \<Rightarrow>
    users_error + (user \<times> db)" where
  "create_passkey_user now user_id pk handle display_name email m d =
     (let u = new_user now user_id handle display_name None email False
      in case insert_user u d of
           Inl _ \<Rightarrow> Inl UsersIntegrityError
         | Inr d1 \<Rightarrow>
             (case insert_credential (passkey_credential_row now pk user_id m) d1 of
                Inl _ \<Rightarrow> Inl UsersIntegrityError | Inr d2 \<Rightarrow> Inr (u, d2)))"

definition link_passkey_credential :: "instant \<Rightarrow> ident \<Rightarrow> ident \<Rightarrow> material \<Rightarrow> db \<Rightarrow> users_error + db" where
  "link_passkey_credential now pk user_id m d =
     (case insert_credential (passkey_credential_row now pk user_id m) d of
        Inl _ \<Rightarrow> Inl UsersIntegrityError | Inr d' \<Rightarrow> Inr d')"

definition credential_owner :: "string \<Rightarrow> db \<Rightarrow> ident option" where
  "credential_owner credential_id d =
     map_option pk_user_id (find (\<lambda>c. pk_credential_id c = credential_id) (passkey_credentials d))"

text \<open>One attempt is a savepoint: a clash on the credential ends the call, any other clash
  rolls the attempt back and the next handle is tried. An attempt comes with what other
  sessions commit before it, a handle, and the identifiers of its two rows.\<close>

type_synonym attempt = "(db \<Rightarrow> db) \<times> string \<times> ident \<times> ident"

fun handle_attempts :: "instant \<Rightarrow> material \<Rightarrow> string \<Rightarrow> attempt list \<Rightarrow> db \<Rightarrow> users_error + (user \<times> db)" where
  "handle_attempts now m display_name [] d = Inl HandleAllocationExhausted"
| "handle_attempts now m display_name ((race, handle, user_id, pk) # as) d =
     (let d0 = race d;
          u = new_user now user_id handle display_name None None True;
          c = passkey_credential_row now pk user_id m
      in case insert_user u d0 of
           Inl _ \<Rightarrow> handle_attempts now m display_name as d0
         | Inr d1 \<Rightarrow>
             (case insert_credential c d1 of
                Inr d2 \<Rightarrow> Inr (u, d2)
              | Inl _ \<Rightarrow>
                  if credential_owner (mat_credential_id m) d1 \<noteq> None
                  then Inl (CredentialAlreadyRegistered (credential_owner (mat_credential_id m) d0))
                  else handle_attempts now m display_name as d0))"

definition create_passkey_account :: "instant \<Rightarrow> material \<Rightarrow> string \<Rightarrow> attempt list \<Rightarrow> db \<Rightarrow> users_error + (user \<times> db)" where
  "create_passkey_account now m display_name attempts d =
     (case credential_owner (mat_credential_id m) d of
        Some existing \<Rightarrow> Inl (CredentialAlreadyRegistered (Some existing))
      | None \<Rightarrow> handle_attempts now m display_name (take MAX_HANDLE_ATTEMPTS attempts) d)"

subsection \<open>Profile changes\<close>

definition handle_changes :: "instant \<Rightarrow> string \<Rightarrow> user \<Rightarrow> bool" where
  "handle_changes cutoff handle u \<longleftrightarrow>
     u_username u \<noteq> handle \<and> (case u_handle_changed_at u of None \<Rightarrow> True | Some t \<Rightarrow> t \<le> cutoff)"

text \<open>The SET clause, evaluated against the old row.\<close>

definition profile_values :: "instant \<Rightarrow> instant \<Rightarrow> string option \<Rightarrow> string option \<Rightarrow> user \<Rightarrow> user" where
  "profile_values now cutoff handle display_name u =
     (case handle of
        None \<Rightarrow> (case display_name of None \<Rightarrow> u | Some n \<Rightarrow> u\<lparr>u_display_name := n\<rparr>)
      | Some h \<Rightarrow>
          let same = (u_username u = h); change = handle_changes cutoff h u
          in u\<lparr>u_username := (if change then h else u_username u),
               u_aiko_username := (if change then sanitize_aiko_username h else u_aiko_username u),
               u_handle_changed_at := (if change \<and> \<not> u_handle_assigned u then Some now else u_handle_changed_at u),
               u_handle_assigned := (if change then False else u_handle_assigned u),
               u_display_name := (case display_name of
                   None \<Rightarrow> u_display_name u
                 | Some n \<Rightarrow> if same \<or> change then n else u_display_name u)\<rparr>)"

text \<open>\<open>math.ceil(cooldown - elapsed)\<close> in seconds, clamped to \<open>1 .. cooldown\<close>.\<close>

definition cooldown_left :: "int \<Rightarrow> instant \<Rightarrow> instant \<Rightarrow> int" where
  "cooldown_left cooldown clock stamp =
     max 1 (min cooldown (- ((clock - stamp - cooldown * second) div second)))"

definition update_profile :: "int \<Rightarrow> instant \<Rightarrow> instant \<Rightarrow> ident \<Rightarrow> string option \<Rightarrow> string option \<Rightarrow> db \<Rightarrow>
    users_error + (user \<times> db)" where
  "update_profile cooldown now clock user_id handle display_name d =
     (if handle = None \<and> display_name = None then Inl ProfileValueError
      else let f = profile_values now (now - cooldown * second) handle display_name
           in case get_user d user_id of
                None \<Rightarrow> Inl AccountGone
              | Some u \<Rightarrow>
                  if list_ex (\<lambda>r. u_id r \<noteq> user_id \<and>
                       (u_username r = u_username (f u) \<or> u_aiko_username r = u_aiko_username (f u))) (users d)
                  then Inl HandleTaken
                  else if handle \<noteq> None \<and> u_username (f u) \<noteq> the handle
                  then Inl (HandleChangeCooldown (cooldown_left cooldown clock (the (u_handle_changed_at (f u)))))
                  else Inr (f u, d\<lparr>users := upd_where (\<lambda>r. u_id r = user_id) f (users d)\<rparr>))"

section \<open>Invariant\<close>

text \<open>What the keys of the three tables guarantee.\<close>

definition auth_ok :: "db \<Rightarrow> bool" where
  "auth_ok d \<longleftrightarrow>
     unique_on u_id (users d) \<and> unique_on u_username (users d) \<and> unique_on u_aiko_username (users d) \<and>
     unique_on si_id (social_identities d) \<and> unique_on si_key (social_identities d) \<and>
     unique_on pk_id (passkey_credentials d) \<and> unique_on pk_credential_id (passkey_credentials d)"

lemma insert_user_cases:
  assumes "insert_user u d = Inr d'"
  obtains "d' = d\<lparr>users := users d @ [u]\<rparr>"
    "\<forall>r \<in> set (users d). u_id r \<noteq> u_id u \<and> u_username r \<noteq> u_username u \<and> u_aiko_username r \<noteq> u_aiko_username u"
  using assms by (auto simp: insert_user_def list_ex_iff split: if_splits)

lemma insert_social_cases:
  assumes "insert_social s d = Inr d'"
  obtains "d' = d\<lparr>social_identities := social_identities d @ [s]\<rparr>"
    "\<forall>r \<in> set (social_identities d). si_id r \<noteq> si_id s \<and> si_key r \<noteq> si_key s"
  using assms by (auto simp: insert_social_def list_ex_iff split: if_splits)

lemma insert_credential_cases:
  assumes "insert_credential c d = Inr d'"
  obtains "d' = d\<lparr>passkey_credentials := passkey_credentials d @ [c]\<rparr>"
    "\<forall>r \<in> set (passkey_credentials d). pk_id r \<noteq> pk_id c \<and> pk_credential_id r \<noteq> pk_credential_id c"
  using assms by (auto simp: insert_credential_def list_ex_iff split: if_splits)

lemma insert_user_ok: "insert_user u d = Inr d' \<Longrightarrow> auth_ok d \<Longrightarrow> auth_ok d'"
  by (erule insert_user_cases) (simp add: auth_ok_def)

lemma insert_social_ok: "insert_social s d = Inr d' \<Longrightarrow> auth_ok d \<Longrightarrow> auth_ok d'"
  by (erule insert_social_cases) (simp add: auth_ok_def)

lemma insert_credential_ok: "insert_credential c d = Inr d' \<Longrightarrow> auth_ok d \<Longrightarrow> auth_ok d'"
  by (erule insert_credential_cases) (simp add: auth_ok_def)

lemma get_user_insert: "insert_user u d = Inr d' \<Longrightarrow> get_user d' (u_id u) = Some u"
  by (erule insert_user_cases) (auto simp: get_user_def find_append split: option.split dest: find_SomeD)

lemma credential_owner_insert:
  assumes "insert_credential c d = Inr d'"
  shows "credential_owner x d' = (if x = pk_credential_id c then Some (pk_user_id c) else credential_owner x d)"
  using assms
  by (auto elim!: insert_credential_cases simp: credential_owner_def find_append row_simps split: option.splits
      dest!: find_SomeD)

lemma credential_owner_users [simp]: "credential_owner x (d\<lparr>users := us\<rparr>) = credential_owner x d"
  by (simp add: credential_owner_def)

lemma get_user_credentials [simp]: "get_user (d\<lparr>passkey_credentials := cs\<rparr>) u = get_user d u"
  "get_user (d\<lparr>social_identities := ss\<rparr>) u = get_user d u"
  by (simp_all add: get_user_def)

section \<open>Accounts\<close>

lemma new_user_sel [simp]:
  "u_id (new_user now i h n ph e a) = i" "u_username (new_user now i h n ph e a) = h"
  "u_password_hash (new_user now i h n ph e a) = ph" "u_handle_assigned (new_user now i h n ph e a) = a"
  "u_token_generation (new_user now i h n ph e a) = 0" "u_banned_at (new_user now i h n ph e a) = None"
  by (simp_all add: new_user_def)

lemma passkey_credential_row_sel [simp]:
  "pk_credential_id (passkey_credential_row now i u m) = mat_credential_id m"
  "pk_user_id (passkey_credential_row now i u m) = u" "pk_id (passkey_credential_row now i u m) = i"
  by (simp_all add: passkey_credential_row_def)

text \<open>What a successful passkey sign-up leaves, whatever was committed while it ran.\<close>

lemma handle_attempts_ok:
  assumes "\<forall>(race, _) \<in> set as. \<forall>x. auth_ok x \<longrightarrow> auth_ok (race x)" and "auth_ok d"
    and "handle_attempts now m n as d = Inr (u, d')"
  shows "auth_ok d' \<and> get_user d' (u_id u) = Some u \<and> credential_owner (mat_credential_id m) d' = Some (u_id u) \<and>
    handle_is_auto u \<and> u_password_hash u = None \<and> u_username u \<in> (fst \<circ> snd) ` set as"
  using assms
proof (induction as arbitrary: d)
  case (Cons a as)
  obtain race h i pk where a: "a = (race, h, i, pk)" by (cases a) auto
  let ?u = "new_user now i h n None None True" and ?c = "passkey_credential_row now pk i m"
  have ok0: "auth_ok (race d)" using Cons.prems(1,2) a by auto
  have IH: "?case" if "handle_attempts now m n as (race d) = Inr (u, d')"
    using Cons.IH [OF _ ok0 that] Cons.prems(1) by auto
  show ?case
  proof (cases "insert_user ?u (race d)")
    case (Inl e) with Cons.prems(3) a IH show ?thesis by (simp add: Let_def)
  next
    case (Inr d1)
    show ?thesis
    proof (cases "insert_credential ?c d1")
      case (Inl e)
      with Inr Cons.prems(3) a IH show ?thesis by (simp add: Let_def split: if_splits)
    next
      case (Inr d2)
      with \<open>insert_user ?u (race d) = Inr d1\<close> Cons.prems(3) a have e: "u = ?u" "d' = d2" by (simp_all add: Let_def)
      have "auth_ok d2" using insert_credential_ok [OF Inr] insert_user_ok [OF \<open>insert_user ?u (race d) = Inr d1\<close>] ok0 by blast
      moreover have "get_user d2 (u_id ?u) = Some ?u"
        using get_user_insert [OF \<open>insert_user ?u (race d) = Inr d1\<close>] Inr by (elim insert_credential_cases) simp
      ultimately show ?thesis using e a credential_owner_insert [OF Inr] by (simp add: handle_is_auto_def)
    qed
  qed
qed simp

lemma get_user_by_social_insert:
  assumes "insert_social s d = Inr d'"
  shows "get_user_by_social (si_provider s) (si_provider_sub s) d' = get_user d (si_user_id s)"
  using assms
  by (auto elim!: insert_social_cases simp: get_user_by_social_def find_append si_key_def split: option.splits
      dest!: find_SomeD)

text \<open>A credential opens the account it was enrolled for. A password, social or passkey
  sign-up that succeeds creates an account that its own credential then finds; linking a
  passkey gives it to the linking account; and no door replaces an owner: a credential that
  already belongs to an account is refused at every door.\<close>

theorem credential_opens_own_account:
  assumes "auth_ok d" and "\<And>p. verify_password p (hash_password p)"
    and "\<forall>(race, _) \<in> set as. \<forall>x. auth_ok x \<longrightarrow> auth_ok (race x)"
  shows "(create_user hash_password now i h n pw d = Inr (u, d1) \<longrightarrow>
      authenticate verify_password h pw d1 = Some u \<and> auth_ok d1) \<and>
    (create_social_user now i si pv sub h n e d = Inr (u, d1) \<longrightarrow>
      get_user_by_social pv sub d1 = Some u \<and> auth_ok d1) \<and>
    (create_passkey_account now m n as d = Inr (u, d1) \<longrightarrow>
      credential_owner (mat_credential_id m) d1 = Some (u_id u) \<and> get_user d1 (u_id u) = Some u \<and> auth_ok d1) \<and>
    (link_passkey_credential now pk w m d = Inr d1 \<longrightarrow>
      credential_owner (mat_credential_id m) d1 = Some w \<and> auth_ok d1) \<and>
    (credential_owner (mat_credential_id m) d \<noteq> None \<longrightarrow>
      link_passkey_credential now pk w m d = Inl UsersIntegrityError \<and>
      create_passkey_account now m n as d = Inl (CredentialAlreadyRegistered (credential_owner (mat_credential_id m) d))) \<and>
    (get_user_by_social pv sub d \<noteq> None \<longrightarrow> create_social_user now i si pv sub h n e d = Inl UsersIntegrityError)"
proof (intro conjI impI)
  assume "create_user hash_password now i h n pw d = Inr (u, d1)"
  then have u: "u = new_user now i h n (Some (hash_password pw)) None False" and ins: "insert_user u d = Inr d1"
    by (auto simp: create_user_def Let_def split: sum.splits)
  have "find (\<lambda>r. u_username r = h) (users d1) = Some u"
    using ins u by (auto elim!: insert_user_cases simp: find_append split: option.split dest!: find_SomeD)
  then show "authenticate verify_password h pw d1 = Some u" using u assms(2) by (simp add: authenticate_def)
  show "auth_ok d1" using insert_user_ok [OF ins assms(1)] .
next
  assume "create_social_user now i si pv sub h n e d = Inr (u, d1)"
  then obtain d2 where u: "u = new_user now i h n None e False" "insert_user u d = Inr d2"
      "insert_social \<lparr>si_id = si, si_provider = pv, si_provider_sub = sub, si_user_id = i, si_created_at = now\<rparr> d2 = Inr d1"
    by (auto simp: create_social_user_def Let_def split: sum.splits)
  show "get_user_by_social pv sub d1 = Some u"
    using get_user_by_social_insert [OF u(3)] get_user_insert [OF u(2)] u(1) by simp
  show "auth_ok d1" using insert_social_ok [OF u(3)] insert_user_ok [OF u(2) assms(1)] by blast
next
  assume "create_passkey_account now m n as d = Inr (u, d1)"
  then have "handle_attempts now m n (take MAX_HANDLE_ATTEMPTS as) d = Inr (u, d1)"
    by (auto simp: create_passkey_account_def split: option.splits)
  moreover have "\<forall>(race, _) \<in> set (take MAX_HANDLE_ATTEMPTS as). \<forall>x. auth_ok x \<longrightarrow> auth_ok (race x)"
    using assms(3) by (blast dest: in_set_takeD)
  ultimately show "credential_owner (mat_credential_id m) d1 = Some (u_id u)" "get_user d1 (u_id u) = Some u" "auth_ok d1"
    using handle_attempts_ok assms(1) by blast+
next
  assume "link_passkey_credential now pk w m d = Inr d1"
  then have ins: "insert_credential (passkey_credential_row now pk w m) d = Inr d1"
    by (auto simp: link_passkey_credential_def split: sum.splits)
  show "credential_owner (mat_credential_id m) d1 = Some w" "auth_ok d1"
    using credential_owner_insert [OF ins] insert_credential_ok [OF ins assms(1)] by simp_all
next
  assume "credential_owner (mat_credential_id m) d \<noteq> None"
  then show "create_passkey_account now m n as d = Inl (CredentialAlreadyRegistered (credential_owner (mat_credential_id m) d))"
    by (auto simp: create_passkey_account_def)
  assume "credential_owner (mat_credential_id m) d \<noteq> None"
  then show "link_passkey_credential now pk w m d = Inl UsersIntegrityError"
    by (auto simp: link_passkey_credential_def insert_credential_def list_ex_iff credential_owner_def dest!: find_SomeD)
next
  assume "get_user_by_social pv sub d \<noteq> None"
  then obtain s where "s \<in> set (social_identities d)" "si_key s = (pv, sub)"
    by (auto simp: get_user_by_social_def dest!: find_SomeD split: option.splits)
  then have "insert_social \<lparr>si_id = si, si_provider = pv, si_provider_sub = sub, si_user_id = i, si_created_at = now\<rparr>
      (d\<lparr>users := us\<rparr>) = Inl IntegrityError" for us
    by (auto simp: insert_social_def list_ex_iff si_key_def)
  then show "create_social_user now i si pv sub h n e d = Inl UsersIntegrityError"
    by (auto simp: create_social_user_def Let_def elim!: insert_user_cases split: sum.splits)
qed

lemma handle_attempts_fresh: "handle_attempts now m n as d = Inr (u, d') \<Longrightarrow> u_banned_at u = None \<and> u_token_generation u = 0"
  by (induction as arbitrary: d) (auto simp: Let_def split: sum.splits if_splits)

section \<open>Profile changes\<close>

lemma profile_values_sel [simp]:
  "u_id (profile_values now cutoff h n u) = u_id u"
  "u_token_generation (profile_values now cutoff h n u) = u_token_generation u"
  "u_banned_at (profile_values now cutoff h n u) = u_banned_at u"
  "u_password_hash (profile_values now cutoff h n u) = u_password_hash u"
  by (simp_all add: profile_values_def Let_def split: option.splits)

text \<open>A refused statement writes back what was there.\<close>

lemma profile_values_refused:
  "u_username (profile_values now cutoff (Some h) n u) \<noteq> h \<Longrightarrow> profile_values now cutoff (Some h) n u = u"
  by (auto simp: profile_values_def Let_def split: option.splits if_splits)

lemma profile_values_kept:
  "u_username (profile_values now cutoff h n u) = u_username u \<Longrightarrow>
     u_aiko_username (profile_values now cutoff h n u) = u_aiko_username u \<and>
     u_handle_changed_at (profile_values now cutoff h n u) = u_handle_changed_at u \<and>
     u_handle_assigned (profile_values now cutoff h n u) = u_handle_assigned u"
  by (auto simp: profile_values_def Let_def handle_changes_def split: option.splits if_splits)

lemma get_user_upd:
  "(\<And>r. u_id (f r) = u_id r) \<Longrightarrow>
     get_user (d\<lparr>users := upd_where (\<lambda>r. u_id r = i) f (users d)\<rparr>) j =
       map_option (\<lambda>r. if j = i then f r else r) (get_user d j)"
  by (auto simp: get_user_def find_upd_where dest: find_SomeD split: option.splits if_splits
      intro!: map_option_cong)

lemma update_profile_cases:
  assumes "update_profile cd now clock i h n d = Inr (r, d')"
  obtains u where "get_user d i = Some u" "r = profile_values now (now - cd * second) h n u"
    "d' = d\<lparr>users := upd_where (\<lambda>r. u_id r = i) (profile_values now (now - cd * second) h n) (users d)\<rparr>"
    "\<forall>x \<in> set (users d). u_id x \<noteq> i \<longrightarrow> u_username x \<noteq> u_username r \<and> u_aiko_username x \<noteq> u_aiko_username r"
    "h \<noteq> None \<longrightarrow> u_username r = the h"
  using assms by (auto simp: update_profile_def Let_def list_ex_iff split: if_splits option.splits)

lemma cooldown_left_bounds: "0 < cd \<Longrightarrow> 1 \<le> cooldown_left cd clock t \<and> cooldown_left cd clock t \<le> cd"
  by (simp add: cooldown_left_def)

lemma cooldown_left_suffices:
  assumes "t \<le> clock" and "clock + cooldown_left cd clock t * second \<le> now"
  shows "t \<le> now - cd * second"
proof -
  let ?q = "(clock - t - cd * second) div second"
  have s: "second > 0" by (simp add: second_def)
  show ?thesis
  proof (cases "cd \<le> - ?q")
    case True
    then have "cd \<le> cooldown_left cd clock t" by (simp add: cooldown_left_def)
    then have "cd * second \<le> cooldown_left cd clock t * second" using s by simp
    with assms show ?thesis by linarith
  next
    case False
    have q: "?q * second \<le> clock - t - cd * second" using s by (simp add: minus_mod_eq_div_mult [symmetric])
    have "- ?q \<le> cooldown_left cd clock t" using False by (simp add: cooldown_left_def)
    then have "- ?q * second \<le> cooldown_left cd clock t * second" using s mult_right_mono by (metis less_imp_le)
    with assms q show ?thesis by (simp add: algebra_simps)
  qed
qed

text \<open>The outcome of asking for a handle, on every branch. It is an exact function of the
  row and the clock: the current handle is a no-op, a changed one is refused while the
  cooldown runs, refused when another account holds it or its wire form, and otherwise
  taken. A refusal names a wait between one second and the cooldown, and after waiting it
  the cooldown no longer refuses.\<close>

theorem handle_request_outcome:
  assumes "auth_ok d" and "get_user d i = Some u" and "0 < cd" and "u_username u \<noteq> h"
  shows "(\<forall>t. u_handle_changed_at u = Some t \<and> now - cd * second < t \<longrightarrow>
      (\<exists>r. update_profile cd now clock i (Some h) n d = Inl (HandleChangeCooldown r) \<and> 1 \<le> r \<and> r \<le> cd \<and>
        (\<forall>now' clock' r'. t \<le> clock \<and> clock + r * second \<le> now' \<longrightarrow>
           update_profile cd now' clock' i (Some h) n d \<noteq> Inl (HandleChangeCooldown r')))) \<and>
    ((\<forall>t. u_handle_changed_at u = Some t \<longrightarrow> t \<le> now - cd * second) \<longrightarrow>
      (if \<exists>x \<in> set (users d). u_id x \<noteq> i \<and> (u_username x = h \<or> u_aiko_username x = sanitize_aiko_username h)
       then update_profile cd now clock i (Some h) n d = Inl HandleTaken
       else \<exists>r d'. update_profile cd now clock i (Some h) n d = Inr (r, d') \<and> get_user d' i = Some r \<and>
         u_username r = h \<and> u_aiko_username r = sanitize_aiko_username h \<and> u_id r = i \<and> \<not> handle_is_auto r))"
proof -
  have i: "u_id u = i" "u \<in> set (users d)" using assms(2) by (auto simp: get_user_def dest: find_SomeD)
  have own: "\<not> list_ex (\<lambda>r. u_id r \<noteq> i \<and> (u_username r = u_username u \<or> u_aiko_username r = u_aiko_username u)) (users d)"
    using assms(1) i unfolding auth_ok_def list_ex_iff by (metis unique_onD)
  have refused: "update_profile cd now clock i (Some h) n d = Inl (HandleChangeCooldown (cooldown_left cd clock t))"
    if "u_handle_changed_at u = Some t" "now - cd * second < t" for t now clock
  proof -
    have "profile_values now (now - cd * second) (Some h) n u = u"
      by (rule profile_values_refused) (use that assms(4) in \<open>simp add: profile_values_def Let_def handle_changes_def\<close>)
    with own that assms(2,4) show ?thesis by (simp add: update_profile_def)
  qed
  have lapsed: "if \<exists>x \<in> set (users d). u_id x \<noteq> i \<and> (u_username x = h \<or> u_aiko_username x = sanitize_aiko_username h)
       then update_profile cd now clock i (Some h) n d = Inl HandleTaken
       else \<exists>r d'. update_profile cd now clock i (Some h) n d = Inr (r, d') \<and> get_user d' i = Some r \<and>
         u_username r = h \<and> u_aiko_username r = sanitize_aiko_username h \<and> u_id r = i \<and> \<not> handle_is_auto r"
    if "\<forall>t. u_handle_changed_at u = Some t \<longrightarrow> t \<le> now - cd * second" for now clock
  proof -
    let ?f = "profile_values now (now - cd * second) (Some h) n"
    have f: "u_username (?f u) = h" "u_aiko_username (?f u) = sanitize_aiko_username h" "\<not> handle_is_auto (?f u)" "u_id (?f u) = i"
      using that assms(4) i by (auto simp: profile_values_def Let_def handle_changes_def handle_is_auto_def split: option.splits)
    show ?thesis
    proof (cases "\<exists>x \<in> set (users d). u_id x \<noteq> i \<and> (u_username x = h \<or> u_aiko_username x = sanitize_aiko_username h)")
      case True
      with f assms(2) show ?thesis by (auto simp: update_profile_def list_ex_iff Let_def)
    next
      case False
      then have "update_profile cd now clock i (Some h) n d =
          Inr (?f u, d\<lparr>users := upd_where (\<lambda>r. u_id r = i) ?f (users d)\<rparr>)"
        using f assms(2) by (auto simp: update_profile_def list_ex_iff Let_def)
      with f False assms(2) show ?thesis by (simp add: get_user_upd)
    qed
  qed
  show ?thesis
  proof (intro conjI allI impI)
    fix t assume t: "u_handle_changed_at u = Some t \<and> now - cd * second < t"
    show "\<exists>r. update_profile cd now clock i (Some h) n d = Inl (HandleChangeCooldown r) \<and> 1 \<le> r \<and> r \<le> cd \<and>
        (\<forall>now' clock' r'. t \<le> clock \<and> clock + r * second \<le> now' \<longrightarrow>
           update_profile cd now' clock' i (Some h) n d \<noteq> Inl (HandleChangeCooldown r'))"
    proof (intro exI conjI allI impI)
      show "update_profile cd now clock i (Some h) n d = Inl (HandleChangeCooldown (cooldown_left cd clock t))"
        using refused t by blast
      show "1 \<le> cooldown_left cd clock t" "cooldown_left cd clock t \<le> cd" using cooldown_left_bounds [OF assms(3)] by blast+
      fix now' clock' r' assume "t \<le> clock \<and> clock + cooldown_left cd clock t * second \<le> now'"
      then have "t \<le> now' - cd * second" using cooldown_left_suffices by blast
      then show "update_profile cd now' clock' i (Some h) n d \<noteq> Inl (HandleChangeCooldown r')"
        using lapsed [of now' clock'] t by (auto split: if_splits)
    qed
  qed (use lapsed in blast)
qed

text \<open>A run of profile requests by any users, each with its clock readings, and how often a
  given user's handle changes in it.\<close>

type_synonym profile_request = "instant \<times> instant \<times> ident \<times> string option \<times> string option"

fun handle_change_count :: "int \<Rightarrow> ident \<Rightarrow> profile_request list \<Rightarrow> db \<Rightarrow> nat" where
  "handle_change_count cd i [] d = 0"
| "handle_change_count cd i ((now, clock, j, h, n) # rs) d =
     (case update_profile cd now clock j h n d of
        Inl _ \<Rightarrow> handle_change_count cd i rs d
      | Inr (_, d') \<Rightarrow>
          (if map_option u_username (get_user d' i) \<noteq> map_option u_username (get_user d i) then 1 else 0) +
          handle_change_count cd i rs d')"

definition change_budget :: "instant \<Rightarrow> user option \<Rightarrow> nat" where
  "change_budget t0 uo =
     (case uo of
        None \<Rightarrow> 0
      | Some u \<Rightarrow>
          (case u_handle_changed_at u of
             Some t \<Rightarrow> if t0 \<le> t then 0 else if u_handle_assigned u then 2 else 1
           | None \<Rightarrow> if u_handle_assigned u then 2 else 1))"

lemma budget_step:
  assumes "t0 \<le> now" and "now < t0 + cd * second"
  shows "change_budget t0 (Some (profile_values now (now - cd * second) h n u)) +
      (if u_username (profile_values now (now - cd * second) h n u) \<noteq> u_username u then 1 else 0)
    \<le> change_budget t0 (Some u)"
proof (cases "u_username (profile_values now (now - cd * second) h n u) = u_username u")
  case True
  with profile_values_kept [OF this] show ?thesis by (simp add: change_budget_def)
next
  case False
  then obtain x where x: "h = Some x" "handle_changes (now - cd * second) x u"
    by (auto simp: profile_values_def Let_def split: option.splits if_splits)
  with assms show ?thesis
    by (auto simp: change_budget_def profile_values_def Let_def handle_changes_def split: option.splits)
qed

lemma change_count_budget:
  assumes "\<forall>(now, _) \<in> set rs. t0 \<le> now \<and> now < t0 + cd * second"
  shows "handle_change_count cd i rs d \<le> change_budget t0 (get_user d i)"
  using assms
proof (induction rs arbitrary: d)
  case (Cons r rs)
  obtain now clock j h n where r: "r = (now, clock, j, h, n)" by (cases r) auto
  have w: "t0 \<le> now" "now < t0 + cd * second" using Cons.prems r by auto
  show ?case
  proof (cases "update_profile cd now clock j h n d")
    case (Inl e)
    with Cons r show ?thesis by simp
  next
    case (Inr p)
    obtain v d' where p: "p = (v, d')" by (cases p)
    let ?f = "profile_values now (now - cd * second) h n"
    have g: "get_user d' i = map_option (\<lambda>r. if i = j then ?f r else r) (get_user d i)"
      using Inr unfolding p by (elim update_profile_cases) (simp add: get_user_upd)
    have IH: "handle_change_count cd i rs d' \<le> change_budget t0 (get_user d' i)" using Cons by simp
    show ?thesis
    proof (cases "get_user d i")
      case None
      with g IH Inr p r show ?thesis by simp
    next
      case (Some u)
      with g IH Inr p r budget_step [OF w, of h n u] show ?thesis by (cases "i = j") auto
    qed
  qed
qed simp

text \<open>The cooldown is a rate limit no race can beat. Whatever requests from whatever
  devices run, in whatever order their clocks were read inside a window of one cooldown, a
  user's handle changes at most once, or twice when the account still carries the handle it
  was assigned at sign-up.\<close>

theorem handle_changes_bounded:
  assumes "\<forall>(now, _) \<in> set rs. t0 \<le> now \<and> now < t0 + cd * second" and "get_user d i = Some u"
  shows "handle_change_count cd i rs d \<le> (if handle_is_auto u then 2 else 1)"
  using change_count_budget [OF assms(1), of i d] assms(2)
  by (auto simp: change_budget_def handle_is_auto_def split: option.splits if_splits)

section \<open>Concrete runs\<close>

definition ex_mat :: material where
  "ex_mat = \<lparr>mat_credential_id = ''cred'', mat_public_key = ''pub'', mat_sign_count = 0, mat_transports = None, mat_aaguid = None\<rparr>"

definition ex_signup :: "users_error + (user \<times> db)" where
  "ex_signup = create_passkey_account 0 ex_mat [] [(id, ''aiko-1'', ''u1'', ''p1'')] empty_db"

lemma empty_auth_ok: "auth_ok empty_db"
  by (simp add: auth_ok_def empty_db_def)

definition ex_profile :: db where
  "ex_profile = empty_db\<lparr>users := [new_user 0 ''u1'' ''ann'' [] None None False]\<rparr>"

lemma ex_profile_ok: "auth_ok ex_profile" "get_user ex_profile ''u1'' = Some (new_user 0 ''u1'' ''ann'' [] None None False)"
  by (simp_all add: auth_ok_def ex_profile_def empty_db_def get_user_def)

end
