(* ===== verification/Signing.thy ===== *)
theory Signing
  imports Model "HOL-Library.Word"
begin

text \<open>The sovereign-signing codecs (\<open>domain/signing.py\<close>): base58btc and Multikey, strict
  unpadded base64url, the canonical bytes a message or reaction signature covers, and the
  validation of an \<open>origin\<close> envelope at the trust boundary. Bytes are \<open>8 word\<close>. The text
  fields of the signed bytes are lists of Unicode code points with Python's UTF-8 encoder
  (which refuses surrogates); the strings of an envelope are character lists. \<open>struct.pack\<close>
  refuses what does not fit its width.\<close>

section \<open>Definitions\<close>

type_synonym byte = "8 word"

definition DOMAIN_TAG :: string where "DOMAIN_TAG = ''aikochat:msg:v1:EdDSA''"
definition REACT_DOMAIN_TAG :: string where "REACT_DOMAIN_TAG = ''aikochat:react:v1:EdDSA''"
definition ALG :: string where "ALG = ''EdDSA''"
definition SUPPORTED_V :: int where "SUPPORTED_V = 1"
definition MULTICODEC_ED25519 :: "byte list" where "MULTICODEC_ED25519 = [0xED, 0x01]"
definition PUBKEY_RAW_LEN :: nat where "PUBKEY_RAW_LEN = 32"
definition SIG_RAW_LEN :: nat where "SIG_RAW_LEN = 64"
definition MAX_PUBKEY_STR :: nat where "MAX_PUBKEY_STR = 128"
definition MAX_SIG_STR :: nat where "MAX_SIG_STR = 128"
definition MAX_CLIENT_MSG_ID :: nat where "MAX_CLIENT_MSG_ID = 64"
definition MAX_SIGNED_AT_MS :: int where "MAX_SIGNED_AT_MS = 2 ^ 62"
definition MAX_B58_STR :: nat where "MAX_B58_STR = 128"

definition B58_ALPHABET :: string where
  "B58_ALPHABET = ''123456789ABCDEFGHJKLMNPQRSTUVWXYZabcdefghijkmnopqrstuvwxyz''"

datatype origin_error = OriginError

text \<open>\<open>_B58_INDEX\<close>.\<close>

definition b58_index :: "char \<Rightarrow> nat option" where
  "b58_index c = (if c \<in> set B58_ALPHABET
     then Some (length (takeWhile (\<lambda>x. x \<noteq> c) B58_ALPHABET)) else None)"

text \<open>Big-endian digits of a number, most significant first, none for zero:
  \<open>int.to_bytes\<close> of minimal length in base 256, the divmod loop in base 58.\<close>

function base_digits :: "nat \<Rightarrow> nat \<Rightarrow> nat list" where
  "base_digits b n = (if n = 0 \<or> b < 2 then [] else base_digits b (n div b) @ [n mod b])"
  by pat_completeness auto
termination by (relation "measure snd") auto

declare base_digits.simps [simp del]

definition of_digits :: "nat \<Rightarrow> nat list \<Rightarrow> nat" where
  "of_digits b ds = foldl (\<lambda>acc x. acc * b + x) 0 ds"

definition byte_of :: "nat \<Rightarrow> byte" where "byte_of n = of_nat n"

definition bytes_to_nat :: "byte list \<Rightarrow> nat" where
  "bytes_to_nat bs = of_digits 256 (map unat bs)"

definition nat_to_bytes :: "nat \<Rightarrow> byte list" where
  "nat_to_bytes n = map byte_of (base_digits 256 n)"

definition b58decode :: "string \<Rightarrow> origin_error + byte list" where
  "b58decode s =
     (if list_ex (\<lambda>c. b58_index c = None) s then Inl OriginError
      else let num = of_digits 58 (map (\<lambda>c. the (b58_index c)) s);
               pad = length s - length (dropWhile (\<lambda>c. c = CHR ''1'') s)
           in Inr (replicate pad 0 @ nat_to_bytes num))"

definition b58encode :: "byte list \<Rightarrow> string" where
  "b58encode b =
     (let n_pad = length b - length (dropWhile (\<lambda>x. x = 0) b)
      in replicate n_pad (CHR ''1'') @ map (\<lambda>i. B58_ALPHABET ! i) (base_digits 58 (bytes_to_nat b)))"

definition encode_multikey :: "byte list \<Rightarrow> origin_error + string" where
  "encode_multikey raw =
     (if length raw \<noteq> PUBKEY_RAW_LEN then Inl OriginError
      else Inr (''z'' @ b58encode (MULTICODEC_ED25519 @ raw)))"

definition decode_multikey :: "string \<Rightarrow> origin_error + byte list" where
  "decode_multikey s =
     (if s = [] \<or> hd s \<noteq> CHR ''z'' then Inl OriginError
      else if length s > MAX_B58_STR then Inl OriginError
      else case b58decode (tl s) of
             Inl e \<Rightarrow> Inl e
           | Inr decoded \<Rightarrow>
               if take 2 decoded \<noteq> MULTICODEC_ED25519 then Inl OriginError
               else let raw = drop 2 decoded
                    in if length raw \<noteq> PUBKEY_RAW_LEN then Inl OriginError else Inr raw)"

section \<open>Positional notation\<close>

lemma of_digits_snoc [simp]: "of_digits b (ds @ [x]) = of_digits b ds * b + x"
  and of_digits_Nil [simp]: "of_digits b [] = 0"
  by (simp_all add: of_digits_def)

lemma of_base_digits: "2 \<le> b \<Longrightarrow> of_digits b (base_digits b n) = n"
proof (induction b n rule: base_digits.induct)
  case (1 b n)
  then show ?case by (subst base_digits.simps) (auto simp: base_digits.simps [of b 0])
qed

lemma base_digits_0 [simp]: "base_digits b 0 = []"
  by (simp add: base_digits.simps)

text \<open>A digit list without a leading zero is the one the loop produces.\<close>

definition minimal :: "nat \<Rightarrow> nat list \<Rightarrow> bool" where
  "minimal b ds \<longleftrightarrow> (\<forall>x \<in> set ds. x < b) \<and> (ds = [] \<or> hd ds \<noteq> 0)"

lemma of_digits_pos: "minimal b ds \<Longrightarrow> ds \<noteq> [] \<Longrightarrow> 0 < of_digits b ds"
proof (induction ds rule: rev_induct)
  case (snoc x ds)
  show ?case
  proof (cases "ds = []")
    case True with snoc.prems show ?thesis by (simp add: minimal_def of_digits_def)
  next
    case False
    with snoc have "0 < of_digits b ds" by (simp add: minimal_def)
    moreover have "0 < b" using snoc.prems by (auto simp: minimal_def)
    ultimately show ?thesis by simp
  qed
qed simp

lemma base_digits_of: "2 \<le> b \<Longrightarrow> minimal b ds \<Longrightarrow> base_digits b (of_digits b ds) = ds"
proof (induction ds rule: rev_induct)
  case (snoc x ds)
  have x: "x < b" and ds: "minimal b ds" using snoc.prems by (cases ds; simp add: minimal_def)+
  have pos: "0 < of_digits b (ds @ [x])" using of_digits_pos [OF snoc.prems(2)] by simp
  show ?case using pos x snoc.IH [OF snoc.prems(1) ds] snoc.prems(1)
    by (subst base_digits.simps) simp
qed simp

lemma base_digits_minimal: "2 \<le> b \<Longrightarrow> minimal b (base_digits b n)"
proof (induction b n rule: base_digits.induct)
  case (1 b n)
  show ?case
  proof (cases "n = 0")
    case True then show ?thesis by (simp add: minimal_def)
  next
    case False
    have IH: "minimal b (base_digits b (n div b))" using 1 False by simp
    have eq: "base_digits b n = base_digits b (n div b) @ [n mod b]"
      using False 1(2) by (subst base_digits.simps) simp
    show ?thesis
    proof (cases "n div b = 0")
      case True
      then have "n < b" using 1(2) by (simp add: div_eq_0_iff)
      with True eq False show ?thesis by (simp add: minimal_def)
    next
      case False
      then have "base_digits b (n div b) \<noteq> []" using 1(2) by (subst base_digits.simps) simp
      with IH eq 1(2) show ?thesis by (auto simp: minimal_def)
    qed
  qed
qed

lemma of_digits_leading: "of_digits b (replicate k 0 @ ds) = of_digits b ds"
proof -
  have "foldl (\<lambda>acc x. acc * b + x) 0 (replicate k 0) = (0 :: nat)" by (induction k) simp_all
  then show ?thesis by (simp add: of_digits_def)
qed

lemma split_leading: "replicate (length xs - length (dropWhile (\<lambda>x. x = z) xs)) z @ dropWhile (\<lambda>x. x = z) xs = xs"
  by (induction xs) (auto simp: Suc_diff_le length_dropWhile_le)

lemma hd_dropWhile_ne: "dropWhile (\<lambda>x. x = z) xs \<noteq> [] \<Longrightarrow> hd (dropWhile (\<lambda>x. x = z) xs) \<noteq> z"
  using hd_dropWhile [of "\<lambda>x. x = z" xs] by blast

lemma drop_leading:
  assumes "ys = [] \<or> hd ys \<noteq> z"
  shows "dropWhile (\<lambda>x. x = z) (replicate k z @ ys) = ys"
  using assms by (induction k) (cases ys; simp)+

section \<open>Base 58\<close>

lemma B58_distinct: "distinct B58_ALPHABET" and B58_length: "length B58_ALPHABET = 58"
  by (simp_all add: B58_ALPHABET_def)

lemma b58_index_nth: "i < 58 \<Longrightarrow> b58_index (B58_ALPHABET ! i) = Some i"
proof -
  assume i: "i < 58"
  then have "takeWhile (\<lambda>x. x \<noteq> B58_ALPHABET ! i) B58_ALPHABET = take i B58_ALPHABET"
    using B58_distinct B58_length by (intro takeWhile_eq_take_P_nth) (auto simp: nth_eq_iff_index_eq)
  with i show ?thesis by (simp add: b58_index_def B58_length)
qed

lemma b58_index_SomeD: "b58_index c = Some i \<Longrightarrow> i < 58 \<and> B58_ALPHABET ! i = c"
proof -
  assume a: "b58_index c = Some i"
  then have "c \<in> set B58_ALPHABET" by (simp add: b58_index_def split: if_splits)
  then obtain j where j: "j < 58" "B58_ALPHABET ! j = c" using B58_length by (metis in_set_conv_nth)
  with a b58_index_nth [of j] show ?thesis by simp
qed

lemma b58_one: "B58_ALPHABET ! 0 = CHR ''1''"
  by (simp add: B58_ALPHABET_def)

lemma b58_index_one: "b58_index c = Some i \<Longrightarrow> i = 0 \<longleftrightarrow> c = CHR ''1''"
  using b58_index_SomeD [of c i] b58_index_nth [of 0] b58_one by auto

lemma unat_byte_of: "n < 256 \<Longrightarrow> unat (byte_of n) = n"
  by (simp add: byte_of_def unat_of_nat take_bit_nat_eq_self)

lemma byte_of_unat [simp]: "byte_of (unat b) = b"
  by (simp add: byte_of_def)

lemma unat_lt_256: "unat (b :: byte) < 256"
  by (rule order_less_le_trans [OF unsigned_less]) simp

lemma map_unat_byte_of: "\<forall>x \<in> set ds. x < 256 \<Longrightarrow> map unat (map byte_of ds) = ds"
  by (induction ds) (auto simp: unat_byte_of)

lemma b58decode_digits:
  assumes "minimal 58 ds"
  shows "b58decode (replicate p (CHR ''1'') @ map (\<lambda>i. B58_ALPHABET ! i) ds) =
    Inr (replicate p 0 @ nat_to_bytes (of_digits 58 ds))"
proof -
  let ?t = "map (\<lambda>i. B58_ALPHABET ! i) ds"
  have one: "b58_index (CHR ''1'') = Some 0" using b58_index_nth [of 0] b58_one by simp
  have idx: "map (\<lambda>c. the (b58_index c)) ?t = ds"
    using assms by (auto simp: minimal_def b58_index_nth intro!: map_idI)
  have "?t = [] \<or> hd ?t \<noteq> CHR ''1''"
    using assms b58_index_one [OF b58_index_nth] by (cases ds) (auto simp: minimal_def)
  then have dw: "dropWhile (\<lambda>c. c = CHR ''1'') (replicate p (CHR ''1'') @ ?t) = ?t" by (rule drop_leading)
  have "\<not> list_ex (\<lambda>c. b58_index c = None) (replicate p (CHR ''1'') @ ?t)"
    using assms one by (auto simp: list_ex_iff minimal_def b58_index_nth)
  then show ?thesis using dw idx one by (simp add: b58decode_def Let_def map_replicate_const of_digits_leading)
qed

lemma b58_decode_encode: "b58decode (b58encode b) = Inr b"
proof -
  let ?b' = "dropWhile (\<lambda>x. x = 0) b"
  let ?p = "length b - length ?b'"
  have b: "b = replicate ?p 0 @ ?b'" by (rule split_leading [symmetric])
  have min: "minimal 256 (map unat ?b')"
    using hd_dropWhile_ne [of 0 b] by (cases "?b'") (auto simp: minimal_def unat_lt_256 unat_eq_zero)
  have n: "bytes_to_nat b = of_digits 256 (map unat ?b')"
    by (subst b) (simp add: bytes_to_nat_def of_digits_leading)
  have "b58decode (b58encode b) = Inr (replicate ?p 0 @ nat_to_bytes (bytes_to_nat b))"
    unfolding b58encode_def Let_def
    by (simp add: b58decode_digits base_digits_minimal of_base_digits)
  also have "nat_to_bytes (bytes_to_nat b) = ?b'"
    using base_digits_of [OF _ min] by (simp add: nat_to_bytes_def n comp_def)
  finally show ?thesis using b by simp
qed

lemma b58_encode_decode: "b58decode s = Inr b \<Longrightarrow> b58encode b = s"
proof -
  assume a: "b58decode s = Inr b"
  let ?s' = "dropWhile (\<lambda>c. c = CHR ''1'') s"
  let ?p = "length s - length ?s'"
  let ?ds = "map (\<lambda>c. the (b58_index c)) ?s'"
  have s: "s = replicate ?p (CHR ''1'') @ ?s'" by (rule split_leading [symmetric])
  have ok: "\<forall>c \<in> set s. b58_index c \<noteq> None" using a by (auto simp: b58decode_def list_ex_iff split: if_splits)
  then have ok': "\<forall>c \<in> set ?s'. \<exists>i. b58_index c = Some i" by (auto dest: set_dropWhileD)
  have min: "minimal 58 ?ds"
    unfolding minimal_def
  proof
    show "\<forall>x \<in> set ?ds. x < 58" using ok' b58_index_SomeD by fastforce
    show "?ds = [] \<or> hd ?ds \<noteq> 0"
    proof (cases "?s' = []")
      case False
      then obtain i where "b58_index (hd ?s') = Some i" using ok' hd_in_set by blast
      with hd_dropWhile_ne [OF False] b58_index_one [OF this] False show ?thesis by (simp add: hd_map)
    qed simp
  qed
  have bk: "map (\<lambda>i. B58_ALPHABET ! i) ?ds = ?s'"
    using ok' b58_index_SomeD by (fastforce intro!: map_idI simp: comp_def)
  have b: "b = replicate ?p 0 @ nat_to_bytes (of_digits 58 ?ds)"
    using a b58decode_digits [OF min, of ?p] bk s by (metis sum.inject(2))
  have m2: "minimal 256 (base_digits 256 (of_digits 58 ?ds))" by (simp add: base_digits_minimal)
  then have u: "map unat (nat_to_bytes (of_digits 58 ?ds)) = base_digits 256 (of_digits 58 ?ds)"
    by (simp add: nat_to_bytes_def map_unat_byte_of minimal_def del: map_map)
  have "minimal 256 (map unat (nat_to_bytes (of_digits 58 ?ds)))" unfolding u by (rule m2)
  then have "nat_to_bytes (of_digits 58 ?ds) = [] \<or> hd (nat_to_bytes (of_digits 58 ?ds)) \<noteq> 0"
    by (cases "nat_to_bytes (of_digits 58 ?ds)") (auto simp: minimal_def)
  then have "dropWhile (\<lambda>x. x = 0) b = nat_to_bytes (of_digits 58 ?ds)" unfolding b by (rule drop_leading)
  moreover have "bytes_to_nat b = of_digits 58 ?ds"
    unfolding b by (simp add: bytes_to_nat_def of_digits_leading u of_base_digits)
  ultimately have "b58encode b = replicate ?p (CHR ''1'') @ map (\<lambda>i. B58_ALPHABET ! i) ?ds"
    unfolding b58encode_def Let_def using b base_digits_of [OF _ min] by simp
  with bk s show ?thesis by simp
qed

section \<open>Multikey\<close>

lemma length_base_digits: "2 \<le> b \<Longrightarrow> n < b ^ k \<Longrightarrow> length (base_digits b n) \<le> k"
proof (induction k arbitrary: n)
  case (Suc k)
  then have "n div b < b ^ k" by (simp add: div_less_iff_less_mult mult.commute)
  with Suc show ?case by (subst base_digits.simps) simp
qed simp

lemma of_digits_bound: "\<forall>x \<in> set ds. x < b \<Longrightarrow> of_digits b ds < b ^ length ds"
proof (induction ds rule: rev_induct)
  case (snoc x ds)
  then have "Suc (of_digits b ds) \<le> b ^ length ds" "x < b" by auto
  then have "Suc (of_digits b ds) * b \<le> b ^ length ds * b" by (rule_tac mult_le_mono1)
  with \<open>x < b\<close> show ?case by (simp add: mult.commute)
qed simp

lemma multikey_length:
  assumes "length raw = PUBKEY_RAW_LEN"
  shows "length (''z'' @ b58encode (MULTICODEC_ED25519 @ raw)) \<le> MAX_B58_STR"
proof -
  have "bytes_to_nat (MULTICODEC_ED25519 @ raw) < 256 ^ length (map unat (MULTICODEC_ED25519 @ raw))"
    unfolding bytes_to_nat_def by (rule of_digits_bound) (auto simp: unat_lt_256)
  also have "\<dots> = 256 ^ 34" using assms by (simp add: MULTICODEC_ED25519_def PUBKEY_RAW_LEN_def)
  also have "\<dots> < (58 :: nat) ^ 47" by simp
  finally have "length (base_digits 58 (bytes_to_nat (MULTICODEC_ED25519 @ raw))) \<le> 47"
    by (intro length_base_digits) simp_all
  moreover have "dropWhile (\<lambda>x. x = 0) (MULTICODEC_ED25519 @ raw) = MULTICODEC_ED25519 @ raw"
    by (simp add: MULTICODEC_ED25519_def)
  ultimately show ?thesis by (simp add: b58encode_def MAX_B58_STR_def)
qed

lemma decode_encode_multikey: "encode_multikey raw = Inr s \<Longrightarrow> decode_multikey s = Inr raw"
  using multikey_length [of raw]
  by (auto simp: encode_multikey_def decode_multikey_def b58_decode_encode MULTICODEC_ED25519_def Let_def
      split: if_splits)

lemma decode_multikey_unique: "decode_multikey s = Inr raw \<Longrightarrow> encode_multikey raw = Inr s"
proof -
  assume a: "decode_multikey s = Inr raw"
  then obtain t d where s: "s = CHR ''z'' # t" and d: "b58decode t = Inr d" "take 2 d = MULTICODEC_ED25519"
      "raw = drop 2 d" "length raw = PUBKEY_RAW_LEN"
    by (cases s) (auto simp: decode_multikey_def Let_def split: if_splits sum.splits)
  have "d = MULTICODEC_ED25519 @ raw" using d(2,3) by (metis append_take_drop_id)
  with b58_encode_decode [OF d(1)] s d(4) show ?thesis by (simp add: encode_multikey_def)
qed

text \<open>A public key has exactly one spelling. Encoding a 32-byte key and decoding it gives
  the key back, and a string that decodes is the encoding of what it decodes to: no two
  accepted strings name the same key, so one row per (user, pubkey) is one row per key.\<close>

theorem multikey_bijective:
  "(length raw = PUBKEY_RAW_LEN \<longleftrightarrow> (\<exists>s. encode_multikey raw = Inr s)) \<and>
   (decode_multikey s = Inr raw \<longleftrightarrow> encode_multikey raw = Inr s)"
proof
  show "length raw = PUBKEY_RAW_LEN \<longleftrightarrow> (\<exists>s. encode_multikey raw = Inr s)" by (simp add: encode_multikey_def)
  show "decode_multikey s = Inr raw \<longleftrightarrow> encode_multikey raw = Inr s"
    using decode_encode_multikey decode_multikey_unique by blast
qed

section \<open>Base 64\<close>

definition B64URL_ALPHABET :: string where
  "B64URL_ALPHABET = ''ABCDEFGHIJKLMNOPQRSTUVWXYZabcdefghijklmnopqrstuvwxyz0123456789-_''"

definition b64_char :: "nat \<Rightarrow> char" where
  "b64_char i = B64URL_ALPHABET ! i"

text \<open>\<open>base64.urlsafe_b64encode(raw).rstrip(b"=")\<close>.\<close>

fun b64url_nopad :: "byte list \<Rightarrow> string" where
  "b64url_nopad [] = []"
| "b64url_nopad [a] = [b64_char (unat a div 4), b64_char (unat a mod 4 * 16)]"
| "b64url_nopad [a, b] = [b64_char (unat a div 4), b64_char (unat a mod 4 * 16 + unat b div 16),
     b64_char (unat b mod 16 * 4)]"
| "b64url_nopad (a # b # c # rest) = [b64_char (unat a div 4), b64_char (unat a mod 4 * 16 + unat b div 16),
     b64_char (unat b mod 16 * 4 + unat c div 64), b64_char (unat c mod 64)] @ b64url_nopad rest"

definition b64_value :: "char \<Rightarrow> nat" where
  "b64_value c = length (takeWhile (\<lambda>x. x \<noteq> c) B64URL_ALPHABET)"

text \<open>\<open>base64.urlsafe_b64decode\<close>: characters outside the alphabet are discarded, a lone
  character in the last group is an error, as is too little padding.\<close>

fun b64_groups :: "nat \<Rightarrow> nat list \<Rightarrow> byte list option" where
  "b64_groups pads [] = Some []"
| "b64_groups pads [x] = None"
| "b64_groups pads [x, y] = (if pads \<ge> 2 then Some [byte_of (x * 4 + y div 16)] else None)"
| "b64_groups pads [x, y, z] = (if pads \<ge> 1
     then Some [byte_of (x * 4 + y div 16), byte_of (y mod 16 * 16 + z div 4)] else None)"
| "b64_groups pads (x # y # z # w # rest) =
     map_option (\<lambda>bs. byte_of (x * 4 + y div 16) # byte_of (y mod 16 * 16 + z div 4) # byte_of (z mod 4 * 64 + w) # bs)
       (b64_groups pads rest)"

definition urlsafe_b64decode :: "string \<Rightarrow> nat \<Rightarrow> byte list option" where
  "urlsafe_b64decode s pads = b64_groups pads (map b64_value (filter (\<lambda>c. c \<in> set B64URL_ALPHABET) s))"

text \<open>\<open>^[A-Za-z0-9_-]+$\<close> with \<open>match\<close>: the dollar also matches before a final newline.\<close>

definition b64url_unpadded_re :: "string \<Rightarrow> bool" where
  "b64url_unpadded_re s \<longleftrightarrow>
     (let t = (if s \<noteq> [] \<and> last s = CHR 0x0A then butlast s else s)
      in t \<noteq> [] \<and> list_all (\<lambda>c. c \<in> set B64URL_ALPHABET) t)"

definition b64url_raw :: "string \<Rightarrow> nat \<Rightarrow> origin_error + byte list" where
  "b64url_raw s expect_len =
     (if length s > (expect_len * 8 + 5) div 6 then Inl OriginError
      else if \<not> b64url_unpadded_re s then Inl OriginError
      else case urlsafe_b64decode s ((4 - length s mod 4) mod 4) of
             None \<Rightarrow> Inl OriginError
           | Some raw \<Rightarrow>
               if length raw \<noteq> expect_len then Inl OriginError
               else if b64url_nopad raw \<noteq> s then Inl OriginError
               else Inr raw)"

lemma B64_distinct: "distinct B64URL_ALPHABET" and B64_length: "length B64URL_ALPHABET = 64"
  by (simp_all add: B64URL_ALPHABET_def)

lemma b64_value_char [simp]: "i < 64 \<Longrightarrow> b64_value (b64_char i) = i"
proof -
  assume i: "i < 64"
  then have "takeWhile (\<lambda>x. x \<noteq> B64URL_ALPHABET ! i) B64URL_ALPHABET = take i B64URL_ALPHABET"
    using B64_distinct B64_length by (intro takeWhile_eq_take_P_nth) (auto simp: nth_eq_iff_index_eq)
  with i show ?thesis by (simp add: b64_value_def b64_char_def B64_length)
qed

lemma b64_char_in [simp]: "i < 64 \<Longrightarrow> b64_char i \<in> set B64URL_ALPHABET"
  by (simp add: b64_char_def B64_length)

lemma unat_parts:
  "unat (a :: byte) div 4 < 64" "unat a mod 4 * 16 < 64" "unat a mod 4 * 16 + unat b div 16 < 64"
  "unat b mod 16 * 4 + unat (c :: byte) div 64 < 64" "unat (b :: byte) mod 16 * 4 < 64" "unat c mod 64 < 64"
  using unat_lt_256 [of a] unat_lt_256 [of b] unat_lt_256 [of c] by auto

lemma set_b64url_nopad: "set (b64url_nopad raw) \<subseteq> set B64URL_ALPHABET"
  by (induction raw rule: b64url_nopad.induct) (auto simp: unat_parts)

lemma length_b64url_nopad: "length (b64url_nopad raw) = (length raw * 8 + 5) div 6"
  by (induction raw rule: b64url_nopad.induct) auto

lemma mod_block: "Suc (Suc (Suc (Suc x))) mod 4 = x mod 4" "Suc (Suc (Suc y)) mod 3 = y mod 3"
  by presburger+

lemma length_b64url_nopad_mod:
  "length (b64url_nopad raw) mod 4 =
     (if length raw mod 3 = 0 then 0 else if length raw mod 3 = 1 then 2 else 3)"
  by (induction raw rule: b64url_nopad.induct) (simp_all only: b64url_nopad.simps list.size mod_block add_0 add_Suc_right add_0_right One_nat_def, simp_all)

lemma unat_small: "unat (b :: byte) div 16 < 16" "unat b div 64 < 4"
  using unat_lt_256 [of b] by auto

lemma unat_nibbles:
  "unat (b :: byte) div 16 div 16 = 0" "unat b div 16 mod 16 = unat b div 16"
  "unat b div 64 div 4 = 0" "unat b div 64 mod 4 = unat b div 64"
  using unat_small [of b] by simp_all

lemma b64_groups_nopad:
  "length raw mod 3 = 1 \<longrightarrow> 2 \<le> pads \<Longrightarrow> length raw mod 3 = 2 \<longrightarrow> 1 \<le> pads \<Longrightarrow>
     b64_groups pads (map b64_value (b64url_nopad raw)) = Some raw"
proof (induction raw rule: b64url_nopad.induct)
  case (4 a b c rest)
  then have "b64_groups pads (map b64_value (b64url_nopad rest)) = Some rest" by simp
  then show ?case by (simp add: unat_parts unat_nibbles)
qed (simp_all add: unat_parts unat_nibbles)

text \<open>Signatures and seeds have exactly one accepted spelling. The strict decoder accepts
  a string for an expected length exactly when it is the unpadded encoding of that many
  bytes, and returns those bytes; padding, foreign characters and the aliases that differ in
  the unused bits of the last character are all refused.\<close>

lemma b64url_raw_exact:
  "b64url_raw s n = Inr raw \<longleftrightarrow> s = b64url_nopad raw \<and> length raw = n \<and> 0 < n"
proof
  assume "b64url_raw s n = Inr raw"
  then have r: "b64url_nopad raw = s" "length raw = n" "b64url_unpadded_re s"
    by (auto simp: b64url_raw_def split: if_splits option.splits)
  then show "s = b64url_nopad raw \<and> length raw = n \<and> 0 < n"
    by (cases raw) (auto simp: b64url_unpadded_re_def)
next
  assume a: "s = b64url_nopad raw \<and> length raw = n \<and> 0 < n"
  then have s: "s = b64url_nopad raw" and n: "length raw = n" "0 < n" by simp_all
  have len: "length s = (n * 8 + 5) div 6" by (simp add: s length_b64url_nopad n)
  then have ne: "s \<noteq> []" using n(2) by auto
  have al: "set s \<subseteq> set B64URL_ALPHABET" using set_b64url_nopad s by simp
  have "CHR 0x0A \<notin> set B64URL_ALPHABET" by (simp add: B64URL_ALPHABET_def)
  then have "last s \<noteq> CHR 0x0A" using subsetD [OF al last_in_set [OF ne]] by metis
  then have re: "b64url_unpadded_re s" using ne al by (auto simp: b64url_unpadded_re_def list_all_iff)
  have f: "filter (\<lambda>c. c \<in> set B64URL_ALPHABET) s = s" using al by (auto simp: filter_id_conv)
  have "n mod 3 = 1 \<longrightarrow> 2 \<le> (4 - length s mod 4) mod 4" "n mod 3 = 2 \<longrightarrow> 1 \<le> (4 - length s mod 4) mod 4"
    by (simp_all add: s length_b64url_nopad_mod n(1))
  then have "urlsafe_b64decode s ((4 - length s mod 4) mod 4) = Some raw"
    using b64_groups_nopad [of raw "(4 - length s mod 4) mod 4"] n(1) f by (simp add: urlsafe_b64decode_def s)
  with len re s n show "b64url_raw s n = Inr raw" by (simp add: b64url_raw_def)
qed

section \<open>The signed bytes\<close>

text \<open>A Python \<open>str\<close> as its code points, and \<open>str.encode()\<close>: strict UTF-8, which refuses
  surrogates.\<close>

type_synonym code_points = "nat list"

definition utf8_char :: "nat \<Rightarrow> nat list option" where
  "utf8_char c =
     (if c < 0x80 then Some [c]
      else if c < 0x800 then Some [0xC0 + c div 64, 0x80 + c mod 64]
      else if 0xD800 \<le> c \<and> c < 0xE000 then None
      else if c < 0x10000 then Some [0xE0 + c div 64 div 64, 0x80 + c div 64 mod 64, 0x80 + c mod 64]
      else if c < 0x110000 then
        Some [0xF0 + c div 64 div 64 div 64, 0x80 + c div 64 div 64 mod 64, 0x80 + c div 64 mod 64, 0x80 + c mod 64]
      else None)"

primrec utf8_nats :: "code_points \<Rightarrow> nat list option" where
  "utf8_nats [] = Some []"
| "utf8_nats (c # cs) =
     (case utf8_char c of
        None \<Rightarrow> None
      | Some x \<Rightarrow> map_option (\<lambda>rest. x @ rest) (utf8_nats cs))"

definition str_encode :: "code_points \<Rightarrow> byte list option" where
  "str_encode s = map_option (map byte_of) (utf8_nats s)"

definition points :: "string \<Rightarrow> code_points" where
  "points s = map of_char s"

text \<open>\<open>struct.pack\<close> with \<open>>I\<close> and \<open>>Q\<close>: big-endian, refusing what does not fit.\<close>

primrec be_bytes :: "nat \<Rightarrow> nat \<Rightarrow> byte list" where
  "be_bytes 0 n = []"
| "be_bytes (Suc k) n = be_bytes k (n div 256) @ [byte_of (n mod 256)]"

definition pack :: "nat \<Rightarrow> int \<Rightarrow> byte list option" where
  "pack k i = (if 0 \<le> i \<and> i < 256 ^ k then Some (be_bytes k (nat i)) else None)"

definition lp :: "byte list \<Rightarrow> byte list option" where
  "lp b = map_option (\<lambda>n. n @ b) (pack 4 (int (length b)))"

definition lp_str :: "code_points \<Rightarrow> byte list option" where
  "lp_str s = (case str_encode s of None \<Rightarrow> None | Some b \<Rightarrow> lp b)"

text \<open>\<open>b"".join\<close> of parts any of which may raise.\<close>

definition join_parts :: "byte list option list \<Rightarrow> byte list option" where
  "join_parts ps = map_option concat (those ps)"

definition signing_bytes :: "byte list \<Rightarrow> code_points \<Rightarrow> code_points \<Rightarrow> int \<Rightarrow> code_points \<Rightarrow>
    code_points option \<Rightarrow> byte list option" where
  "signing_bytes raw_pubkey channel_id client_msg_id signed_at_ms body reply_to =
     join_parts
       [lp_str (points DOMAIN_TAG),
        lp raw_pubkey,
        lp_str channel_id,
        lp_str client_msg_id,
        pack 8 signed_at_ms,
        lp_str body,
        lp_str (case reply_to of None \<Rightarrow> [] | Some r \<Rightarrow> r)]"

definition reaction_signing_bytes :: "byte list \<Rightarrow> code_points \<Rightarrow> code_points \<Rightarrow> int \<Rightarrow> code_points \<Rightarrow>
    code_points \<Rightarrow> code_points \<Rightarrow> byte list option" where
  "reaction_signing_bytes raw_pubkey channel_id client_msg_id signed_at_ms target_msg_id emoji action =
     join_parts
       [lp_str (points REACT_DOMAIN_TAG),
        lp raw_pubkey,
        lp_str channel_id,
        lp_str client_msg_id,
        pack 8 signed_at_ms,
        lp_str target_msg_id,
        lp_str emoji,
        lp_str action]"

lemma div_mod_64: "(c :: nat) div 64 * 64 + c mod 64 = c"
  by (rule div_mult_mod_eq)

lemma utf8_charE:
  assumes "utf8_char c = Some x"
  obtains "c < 0x80" "x = [c]"
  | a b where "a < 0x20" "b < 64" "c = a * 64 + b" "x = [0xC0 + a, 0x80 + b]"
  | a b e where "a < 0x10" "b < 64" "e < 64" "c = (a * 64 + b) * 64 + e" "x = [0xE0 + a, 0x80 + b, 0x80 + e]"
  | a b e f where "a < 0x10" "b < 64" "e < 64" "f < 64" "c = ((a * 64 + b) * 64 + e) * 64 + f"
      "x = [0xF0 + a, 0x80 + b, 0x80 + e, 0x80 + f]"
proof -
  consider "c < 0x80" "x = [c]"
    | "c div 64 < 0x20" "x = [0xC0 + c div 64, 0x80 + c mod 64]"
    | "c div 64 div 64 < 0x10" "x = [0xE0 + c div 64 div 64, 0x80 + c div 64 mod 64, 0x80 + c mod 64]"
    | "c div 64 div 64 div 64 < 0x10" "x = [0xF0 + c div 64 div 64 div 64, 0x80 + c div 64 div 64 mod 64,
        0x80 + c div 64 mod 64, 0x80 + c mod 64]"
    using assms by (simp add: utf8_char_def div_less_iff_less_mult split: if_splits)
  then show thesis
  proof cases
    case 1 then show thesis by (rule that(1))
  next
    case 2 show thesis by (rule that(2) [OF 2(1) _ _ 2(2)]) (simp_all only: div_mod_64 mod_less_divisor zero_less_numeral)
  next
    case 3 show thesis by (rule that(3) [OF 3(1) _ _ _ 3(2)]) (simp_all only: div_mod_64 mod_less_divisor zero_less_numeral)
  next
    case 4 show thesis by (rule that(4) [OF 4(1) _ _ _ _ 4(2)]) (simp_all only: div_mod_64 mod_less_divisor zero_less_numeral)
  qed
qed

lemma utf8_units: "utf8_char c = Some x \<Longrightarrow> x \<noteq> [] \<and> (\<forall>n \<in> set x. n < 256)"
  by (erule utf8_charE) simp_all

text \<open>Each encoded character announces its own length, so the code is uniquely decodable.\<close>

lemma utf8_char_prefix_free:
  assumes "utf8_char c = Some x" "utf8_char d = Some y" "x @ u = y @ v"
  shows "c = d \<and> u = v"
  using assms(1)
proof (cases rule: utf8_charE)
  case 1
  from assms(2) show ?thesis by (cases rule: utf8_charE) (use 1 assms(3) in simp_all)
next
  case (2 a b)
  from assms(2) show ?thesis by (cases rule: utf8_charE) (use 2 assms(3) in simp_all)
next
  case (3 a b e)
  from assms(2) show ?thesis by (cases rule: utf8_charE) (use 3 assms(3) in simp_all)
next
  case (4 a b e f)
  from assms(2) show ?thesis by (cases rule: utf8_charE) (use 4 assms(3) in simp_all)
qed

lemma utf8_nats_inj: "utf8_nats s = Some b \<Longrightarrow> utf8_nats t = Some b \<Longrightarrow> s = t"
proof (induction s arbitrary: b t)
  case Nil
  then show ?case by (cases t) (auto dest: utf8_units split: option.splits)
next
  case (Cons c cs)
  then obtain x r where x: "utf8_char c = Some x" "utf8_nats cs = Some r" "b = x @ r"
    by (auto split: option.splits)
  with utf8_units [OF x(1)] Cons.prems(2) obtain d ds y r' where
    y: "t = d # ds" "utf8_char d = Some y" "utf8_nats ds = Some r'" "b = y @ r'"
    by (cases t) (auto split: option.splits)
  have "c = d \<and> r = r'" using utf8_char_prefix_free x(1) y(2) x(3) y(4) by metis
  with Cons.IH x(2) y(1,3) show ?case by blast
qed

lemma utf8_nats_bytes: "utf8_nats s = Some ns \<Longrightarrow> \<forall>n \<in> set ns. n < 256"
  by (induction s arbitrary: ns) (auto split: option.splits dest!: utf8_units)

lemma str_encode_inj: "str_encode s = Some b \<Longrightarrow> str_encode t = Some b \<Longrightarrow> s = t"
proof -
  assume "str_encode s = Some b" "str_encode t = Some b"
  then obtain m n where mn: "utf8_nats s = Some m" "utf8_nats t = Some n" "map byte_of m = map byte_of n"
    by (auto simp: str_encode_def)
  then have "m = n" by (metis map_unat_byte_of utf8_nats_bytes)
  with mn show "s = t" using utf8_nats_inj by blast
qed

lemma length_be_bytes [simp]: "length (be_bytes k n) = k"
  by (induction k arbitrary: n) simp_all

lemma be_bytes_inj: "m < 256 ^ k \<Longrightarrow> n < 256 ^ k \<Longrightarrow> be_bytes k m = be_bytes k n \<Longrightarrow> m = n"
proof (induction k arbitrary: m n)
  case (Suc k)
  have "m div 256 < 256 ^ k" "n div 256 < 256 ^ k" using Suc.prems by (simp_all add: div_less_iff_less_mult mult.commute)
  then have "m div 256 = n div 256" using Suc by simp
  moreover have "byte_of (m mod 256) = byte_of (n mod 256)" using Suc.prems(3) by (simp only: be_bytes.simps append1_eq_conv)
  then have "m mod 256 = n mod 256" by (metis unat_byte_of mod_less_divisor zero_less_numeral)
  ultimately show ?case by (metis div_mult_mod_eq)
qed simp

text \<open>Every part of the signed layout can be split off the front of what follows it.\<close>

lemma pack_split:
  assumes "pack k i = Some x" "pack k j = Some y" "x @ u = y @ v"
  shows "i = j \<and> u = v"
proof -
  have r: "0 \<le> i" "i < 256 ^ k" "0 \<le> j" "j < 256 ^ k" "x = be_bytes k (nat i)" "y = be_bytes k (nat j)"
    using assms(1,2) by (auto simp: pack_def split: if_splits)
  have e: "x = y" "u = v" using assms(3) r by (auto simp: append_eq_append_conv)
  have "nat i < 256 ^ k" "nat j < 256 ^ k" using r by (simp_all add: nat_less_iff)
  then have "nat i = nat j" using be_bytes_inj r e by blast
  with r e show ?thesis by simp
qed

lemma lp_split: "lp a = Some x \<Longrightarrow> lp b = Some y \<Longrightarrow> x @ u = y @ v \<Longrightarrow> a = b \<and> u = v"
proof -
  assume "lp a = Some x" "lp b = Some y" and e: "x @ u = y @ v"
  then obtain p q where p: "pack 4 (int (length a)) = Some p" "x = p @ a" "pack 4 (int (length b)) = Some q" "y = q @ b"
    by (auto simp: lp_def)
  then have "int (length a) = int (length b) \<and> a @ u = b @ v" using pack_split [OF p(1,3)] e by simp
  then show "a = b \<and> u = v" by (metis append_eq_append_conv of_nat_eq_iff)
qed

lemma lp_str_split: "lp_str s = Some x \<Longrightarrow> lp_str t = Some y \<Longrightarrow> x @ u = y @ v \<Longrightarrow> s = t \<and> u = v"
  by (auto simp: lp_str_def dest: lp_split str_encode_inj split: option.splits)

lemma join_parts_Cons:
  "join_parts (p # ps) = Some b \<longleftrightarrow> (\<exists>x r. p = Some x \<and> join_parts ps = Some r \<and> b = x @ r)"
  by (auto simp: join_parts_def split: option.splits)

lemma join_parts_Nil: "join_parts [] = Some b \<longleftrightarrow> b = []"
  by (auto simp: join_parts_def)

lemma join_lp: "join_parts (lp a # ps) = Some b \<Longrightarrow> join_parts (lp a' # ps') = Some b \<Longrightarrow>
    a = a' \<and> (\<exists>r. join_parts ps = Some r \<and> join_parts ps' = Some r)"
  unfolding join_parts_Cons using lp_split by blast

lemma join_lp_str: "join_parts (lp_str a # ps) = Some b \<Longrightarrow> join_parts (lp_str a' # ps') = Some b \<Longrightarrow>
    a = a' \<and> (\<exists>r. join_parts ps = Some r \<and> join_parts ps' = Some r)"
  unfolding join_parts_Cons using lp_str_split by blast

lemma join_pack: "join_parts (pack k a # ps) = Some b \<Longrightarrow> join_parts (pack k a' # ps') = Some b \<Longrightarrow>
    a = a' \<and> (\<exists>r. join_parts ps = Some r \<and> join_parts ps' = Some r)"
  unfolding join_parts_Cons using pack_split by blast

text \<open>The spine both layouts share.\<close>

lemma join_spine:
  assumes "join_parts (lp_str d # lp p # lp_str c # lp_str m # pack 8 t # ps) = Some b"
    and "join_parts (lp_str d' # lp p' # lp_str c' # lp_str m' # pack 8 t' # ps') = Some b"
  shows "d = d' \<and> p = p' \<and> c = c' \<and> m = m' \<and> t = t' \<and> (\<exists>r. join_parts ps = Some r \<and> join_parts ps' = Some r)"
proof -
  obtain r1 where 1: "d = d'" "join_parts (lp p # lp_str c # lp_str m # pack 8 t # ps) = Some r1"
    "join_parts (lp p' # lp_str c' # lp_str m' # pack 8 t' # ps') = Some r1" using join_lp_str [OF assms] by blast
  obtain r2 where 2: "p = p'" "join_parts (lp_str c # lp_str m # pack 8 t # ps) = Some r2"
    "join_parts (lp_str c' # lp_str m' # pack 8 t' # ps') = Some r2" using join_lp [OF 1(2,3)] by blast
  obtain r3 where 3: "c = c'" "join_parts (lp_str m # pack 8 t # ps) = Some r3"
    "join_parts (lp_str m' # pack 8 t' # ps') = Some r3" using join_lp_str [OF 2(2,3)] by blast
  obtain r4 where 4: "m = m'" "join_parts (pack 8 t # ps) = Some r4"
    "join_parts (pack 8 t' # ps') = Some r4" using join_lp_str [OF 3(2,3)] by blast
  from join_pack [OF 4(2,3)] 1 2 3 4 show ?thesis by blast
qed

text \<open>Signatures cannot be transplanted. The bytes a message signature covers determine
  the key, channel, client id, timestamp, body and reply target, an absent reply target
  being the same as an empty one; the bytes of a reaction determine the key, channel, client
  id, timestamp, target, emoji and action; and no message shares its bytes with a reaction.\<close>

theorem signed_bytes_unambiguous:
  "(signing_bytes p c m t b r = Some x \<and> signing_bytes p' c' m' t' b' r' = Some x \<longrightarrow>
      p = p' \<and> c = c' \<and> m = m' \<and> t = t' \<and> b = b' \<and>
      (r = r' \<or> {r, r'} = {None, Some []})) \<and>
   (reaction_signing_bytes p c m t g e a = Some y \<and> reaction_signing_bytes p' c' m' t' g' e' a' = Some y \<longrightarrow>
      p = p' \<and> c = c' \<and> m = m' \<and> t = t' \<and> g = g' \<and> e = e' \<and> a = a') \<and>
   \<not> (signing_bytes p c m t b r = Some z \<and> reaction_signing_bytes p' c' m' t' g' e' a' = Some z)"
proof (intro conjI impI notI; elim conjE)
  assume "signing_bytes p c m t b r = Some x" "signing_bytes p' c' m' t' b' r' = Some x"
  then have "p = p' \<and> c = c' \<and> m = m' \<and> t = t' \<and> b = b' \<and>
      (case r of None \<Rightarrow> [] | Some r \<Rightarrow> r) = (case r' of None \<Rightarrow> [] | Some r \<Rightarrow> r)"
    unfolding signing_bytes_def by (blast dest: join_spine join_lp_str)
  then show "p = p'" "c = c'" "m = m'" "t = t'" "b = b'" "r = r' \<or> {r, r'} = {None, Some []}"
    by (auto split: option.splits)
next
  assume "reaction_signing_bytes p c m t g e a = Some y" "reaction_signing_bytes p' c' m' t' g' e' a' = Some y"
  then obtain q where s: "p = p'" "c = c'" "m = m'" "t = t'" "join_parts [lp_str g, lp_str e, lp_str a] = Some q"
    "join_parts [lp_str g', lp_str e', lp_str a'] = Some q"
    unfolding reaction_signing_bytes_def by (blast dest: join_spine)
  then obtain q' where "g = g'" "join_parts [lp_str e, lp_str a] = Some q'" "join_parts [lp_str e', lp_str a'] = Some q'"
    by (blast dest: join_lp_str)
  then have "g = g' \<and> e = e' \<and> a = a'" by (blast dest: join_lp_str)
  with s have "p = p' \<and> c = c' \<and> m = m' \<and> t = t' \<and> g = g' \<and> e = e' \<and> a = a'" by simp
  then show "p = p'" "c = c'" "m = m'" "t = t'" "g = g'" "e = e'" "a = a'" by simp_all
next
  assume "signing_bytes p c m t b r = Some z" "reaction_signing_bytes p' c' m' t' g' e' a' = Some z"
  then have "points DOMAIN_TAG = points REACT_DOMAIN_TAG"
    unfolding signing_bytes_def reaction_signing_bytes_def using join_lp_str by blast
  then show False by (simp add: points_def DOMAIN_TAG_def REACT_DOMAIN_TAG_def)
qed

text \<open>The golden vectors of the signing specification, one per layout.\<close>

definition golden_key :: "byte list" where
  "golden_key = map byte_of [0..<32]"

definition golden_message :: "byte list" where
  "golden_message =
     [0, 0, 0, 21, 97, 105, 107, 111, 99, 104, 97, 116, 58, 109, 115, 103, 58, 118, 49, 58, 69, 100, 68,
      83, 65, 0, 0, 0, 32, 0, 1, 2, 3, 4, 5, 6, 7, 8, 9, 10, 11, 12, 13, 14, 15, 16, 17, 18, 19, 20, 21,
      22, 23, 24, 25, 26, 27, 28, 29, 30, 31, 0, 0, 0, 6, 99, 104, 97, 110, 45, 49, 0, 0, 0, 7, 116, 109,
      112, 45, 97, 98, 99, 0, 0, 1, 144, 119, 253, 48, 0, 0, 0, 0, 11, 104, 101, 108, 108, 111, 32, 119,
      111, 114, 108, 100, 0, 0, 0, 0]"

definition golden_reaction :: "byte list" where
  "golden_reaction =
     [0, 0, 0, 23, 97, 105, 107, 111, 99, 104, 97, 116, 58, 114, 101, 97, 99, 116, 58, 118, 49, 58, 69,
      100, 68, 83, 65, 0, 0, 0, 32, 0, 1, 2, 3, 4, 5, 6, 7, 8, 9, 10, 11, 12, 13, 14, 15, 16, 17, 18, 19,
      20, 21, 22, 23, 24, 25, 26, 27, 28, 29, 30, 31, 0, 0, 0, 6, 99, 104, 97, 110, 45, 49, 0, 0, 0, 7,
      114, 120, 110, 45, 97, 98, 99, 0, 0, 1, 144, 119, 253, 48, 0, 0, 0, 0, 7, 109, 115, 103, 45, 120,
      121, 122, 0, 0, 0, 4, 240, 159, 145, 141, 0, 0, 0, 3, 97, 100, 100]"

lemma be_bytes_numeral:
  "be_bytes (numeral k) n = be_bytes (pred_numeral k) (n div 256) @ [byte_of (n mod 256)]"
  by (simp only: numeral_eq_Suc [of k] be_bytes.simps)

lemmas signed_layout = signing_bytes_def reaction_signing_bytes_def join_parts_def lp_str_def lp_def pack_def
  str_encode_def utf8_char_def points_def be_bytes_numeral byte_of_def

lemma golden_message_ok:
  "signing_bytes golden_key (points ''chan-1'') (points ''tmp-abc'') 1720000000000 (points ''hello world'') None =
     Some golden_message"
  by (simp add: signed_layout DOMAIN_TAG_def golden_key_def golden_message_def upt_rec)

lemma golden_reaction_ok:
  "reaction_signing_bytes golden_key (points ''chan-1'') (points ''rxn-abc'') 1720000000000 (points ''msg-xyz'')
     [0x1F44D] (points ''add'') = Some golden_reaction"
  by (simp add: signed_layout REACT_DOMAIN_TAG_def golden_key_def golden_reaction_def upt_rec)

section \<open>The origin envelope\<close>

definition REQUIRED_KEYS :: "string list" where
  "REQUIRED_KEYS = [''v'', ''alg'', ''key_version'', ''sender_pubkey'', ''client_msg_id'', ''signed_at_ms'', ''sig'']"

text \<open>\<open>isinstance(x, int)\<close> without \<open>bool\<close>, \<open>isinstance(x, str)\<close>, each with the condition that follows.\<close>

definition int_at :: "(string \<times> json) list \<Rightarrow> string \<Rightarrow> (int \<Rightarrow> bool) \<Rightarrow> bool" where
  "int_at kvs k P = (case map_of kvs k of Some (JInt i) \<Rightarrow> P i | _ \<Rightarrow> False)"

definition str_at :: "(string \<times> json) list \<Rightarrow> string \<Rightarrow> (string \<Rightarrow> bool) \<Rightarrow> bool" where
  "str_at kvs k P = (case map_of kvs k of Some (JStr x) \<Rightarrow> P x | _ \<Rightarrow> False)"

text \<open>The returned dict holds the required keys; their order is the iteration order of a
  \<open>frozenset\<close>, fixed here to the order of its literal.\<close>

definition validate_origin :: "json \<Rightarrow> string \<Rightarrow> origin_error + json option" where
  "validate_origin raw frame_client_msg_id =
     (case raw of
        JNull \<Rightarrow> Inr None
      | JObj kvs \<Rightarrow>
          (if set (map fst kvs) \<noteq> set REQUIRED_KEYS then Inl OriginError
           else if \<not> int_at kvs ''v'' (\<lambda>v. v = SUPPORTED_V) then Inl OriginError
           else if \<not> str_at kvs ''alg'' (\<lambda>alg. alg = ALG) then Inl OriginError
           else if \<not> int_at kvs ''key_version'' (\<lambda>kv. \<not> kv < 1) then Inl OriginError
           else if \<not> str_at kvs ''sender_pubkey'' (\<lambda>pubkey. length pubkey \<le> MAX_PUBKEY_STR) then Inl OriginError
           else if \<not> str_at kvs ''sender_pubkey'' (\<lambda>pubkey. \<not> isl (decode_multikey pubkey)) then Inl OriginError
           else if \<not> str_at kvs ''client_msg_id'' (\<lambda>cmid. length cmid \<le> MAX_CLIENT_MSG_ID) then Inl OriginError
           else if \<not> str_at kvs ''client_msg_id'' (\<lambda>cmid. cmid = frame_client_msg_id) then Inl OriginError
           else if \<not> int_at kvs ''signed_at_ms'' (\<lambda>ts. \<not> ts < 0 \<and> \<not> ts > MAX_SIGNED_AT_MS) then Inl OriginError
           else if \<not> str_at kvs ''sig'' (\<lambda>sig. length sig \<le> MAX_SIG_STR) then Inl OriginError
           else if \<not> str_at kvs ''sig'' (\<lambda>sig. \<not> isl (b64url_raw sig SIG_RAW_LEN)) then Inl OriginError
           else Inr (Some (JObj (map (\<lambda>k. (k, the (map_of kvs k))) REQUIRED_KEYS))))
      | _ \<Rightarrow> Inl OriginError)"

text \<open>The envelope a signer emits for a key, a client id, a timestamp and a signature.\<close>

definition envelope :: "int \<Rightarrow> byte list \<Rightarrow> string \<Rightarrow> int \<Rightarrow> byte list \<Rightarrow> json" where
  "envelope kv key cmid ts sig = JObj
     [(''v'', JInt 1), (''alg'', JStr ''EdDSA''), (''key_version'', JInt kv),
      (''sender_pubkey'', JStr (projr (encode_multikey key))), (''client_msg_id'', JStr cmid),
      (''signed_at_ms'', JInt ts), (''sig'', JStr (b64url_nopad sig))]"

lemma int_atE: "int_at kvs k P \<longleftrightarrow> (\<exists>i. map_of kvs k = Some (JInt i) \<and> P i)"
  and str_atE: "str_at kvs k Q \<longleftrightarrow> (\<exists>x. map_of kvs k = Some (JStr x) \<and> Q x)"
  by (auto simp: int_at_def str_at_def split: option.splits json.splits)

lemma multikey_spelling:
  "\<not> isl (decode_multikey s) \<longleftrightarrow> (\<exists>key. length key = PUBKEY_RAW_LEN \<and> s = projr (encode_multikey key))"
proof
  assume "\<not> isl (decode_multikey s)"
  then obtain key where "decode_multikey s = Inr key" by (cases "decode_multikey s") auto
  from decode_multikey_unique [OF this] show "\<exists>key. length key = PUBKEY_RAW_LEN \<and> s = projr (encode_multikey key)"
    by (auto simp: encode_multikey_def split: if_splits)
next
  assume "\<exists>key. length key = PUBKEY_RAW_LEN \<and> s = projr (encode_multikey key)"
  then obtain key where "length key = PUBKEY_RAW_LEN" "s = projr (encode_multikey key)" by blast
  then have "encode_multikey key = Inr s" by (simp add: encode_multikey_def)
  from decode_encode_multikey [OF this] show "\<not> isl (decode_multikey s)" by simp
qed

lemma signature_spelling:
  "\<not> isl (b64url_raw s SIG_RAW_LEN) \<longleftrightarrow> (\<exists>sig. length sig = SIG_RAW_LEN \<and> s = b64url_nopad sig)"
proof -
  have "\<not> isl (b64url_raw s SIG_RAW_LEN) \<longleftrightarrow> (\<exists>sig. b64url_raw s SIG_RAW_LEN = Inr sig)"
    by (cases "b64url_raw s SIG_RAW_LEN") simp_all
  moreover have "0 < SIG_RAW_LEN" by (simp add: SIG_RAW_LEN_def)
  ultimately show ?thesis unfolding b64url_raw_exact by blast
qed

lemma origin_projection:
  assumes "set (map fst kvs) = set REQUIRED_KEYS" "JObj (map (\<lambda>k. (k, the (map_of kvs k))) REQUIRED_KEYS) = r"
  shows "jget k (JObj kvs) = jget k r"
proof (cases "k \<in> set REQUIRED_KEYS")
  case True
  then obtain v where "map_of kvs k = Some v" using assms(1) by (metis list.set_map map_of_eq_None_iff not_Some_eq)
  moreover have "map_of (map (\<lambda>k. (k, the (map_of kvs k))) REQUIRED_KEYS) k = Some (the (map_of kvs k))"
    using True by (simp add: map_of_map_restrict)
  ultimately show ?thesis using assms(2) by auto
next
  case False
  then have "map_of kvs k = None" using assms(1) by (metis list.set_map map_of_eq_None_iff)
  moreover have "map_of (map (\<lambda>k. (k, the (map_of kvs k))) REQUIRED_KEYS) k = None"
    using False by (simp add: map_of_eq_None_iff image_image)
  ultimately show ?thesis using assms(2) by auto
qed

text \<open>C10: the trust boundary admits exactly the envelopes a signer can emit for this frame.
  A value is accepted, and stored as \<open>r\<close>, exactly when it is an object with the frozen keys
  whose fields are those of an envelope for some 32-byte key, 64-byte signature and
  timestamp in range that names the frame's own client id; its algorithm and version are
  fixed, and key and signature have their one canonical spelling. The key version is bounded
  below only.\<close>

theorem origin_accepted_exactly:
  "validate_origin raw frame_id = Inr (Some r) \<longleftrightarrow>
     (\<exists>kvs kv key ts sig.
        raw = JObj kvs \<and> set (map fst kvs) = set REQUIRED_KEYS \<and> (\<forall>k. jget k raw = jget k r) \<and>
        r = envelope kv key frame_id ts sig \<and> 1 \<le> kv \<and> length key = 32 \<and> length sig = 64 \<and>
        0 \<le> ts \<and> ts \<le> 2 ^ 62 \<and> length frame_id \<le> 64)"
  (is "?accepted \<longleftrightarrow> ?emitted")
proof
  assume a: ?accepted
  then obtain kvs where k: "raw = JObj kvs" "set (map fst kvs) = set REQUIRED_KEYS"
    and r: "JObj (map (\<lambda>k. (k, the (map_of kvs k))) REQUIRED_KEYS) = r"
    by (auto simp: validate_origin_def split: json.splits if_splits)
  from a k obtain kv pk ts sg where f: "map_of kvs ''v'' = Some (JInt 1)" "map_of kvs ''alg'' = Some (JStr ''EdDSA'')"
      "map_of kvs ''key_version'' = Some (JInt kv)" "1 \<le> kv" "map_of kvs ''sender_pubkey'' = Some (JStr pk)"
      "\<not> isl (decode_multikey pk)" "map_of kvs ''client_msg_id'' = Some (JStr frame_id)" "length frame_id \<le> 64"
      "map_of kvs ''signed_at_ms'' = Some (JInt ts)" "0 \<le> ts" "ts \<le> 2 ^ 62"
      "map_of kvs ''sig'' = Some (JStr sg)" "\<not> isl (b64url_raw sg SIG_RAW_LEN)"
    by (auto simp: validate_origin_def int_atE str_atE SUPPORTED_V_def ALG_def MAX_CLIENT_MSG_ID_def
        MAX_SIGNED_AT_MS_def not_less split: if_splits)
  obtain key sig where ks: "length key = 32" "pk = projr (encode_multikey key)" "length sig = 64" "sg = b64url_nopad sig"
    using f(6,13) unfolding multikey_spelling signature_spelling by (auto simp: PUBKEY_RAW_LEN_def SIG_RAW_LEN_def)
  have "r = envelope kv key frame_id ts sig" using r f ks by (simp add: envelope_def REQUIRED_KEYS_def)
  then show ?emitted using k f ks origin_projection [OF k(2) r] by blast
next
  assume ?emitted
  then obtain kvs kv key ts sig where k: "raw = JObj kvs" "set (map fst kvs) = set REQUIRED_KEYS"
    "\<And>k. map_of kvs k = jget k r" and r: "r = envelope kv key frame_id ts sig"
    and f: "1 \<le> kv" "length key = 32" "length sig = 64" "0 \<le> ts" "ts \<le> 2 ^ 62" "length frame_id \<le> 64"
    by auto
  have key: "\<not> isl (decode_multikey (projr (encode_multikey key)))" and sig: "\<not> isl (b64url_raw (b64url_nopad sig) SIG_RAW_LEN)"
    using f multikey_spelling [of "projr (encode_multikey key)"] signature_spelling [of "b64url_nopad sig"]
    by (auto simp: PUBKEY_RAW_LEN_def SIG_RAW_LEN_def)
  have lens: "length (projr (encode_multikey key)) \<le> MAX_PUBKEY_STR" "length (b64url_nopad sig) \<le> MAX_SIG_STR"
    using f multikey_length [of key]
    by (simp_all add: encode_multikey_def PUBKEY_RAW_LEN_def MAX_B58_STR_def MAX_PUBKEY_STR_def MAX_SIG_STR_def length_b64url_nopad)
  show ?accepted using k(1,2) f key sig lens
    by (simp add: validate_origin_def int_at_def str_at_def k(3) r envelope_def SUPPORTED_V_def ALG_def
        MAX_CLIENT_MSG_ID_def MAX_SIGNED_AT_MS_def REQUIRED_KEYS_def)
qed

end
