(* ===== verification/Passkeys.thy ===== *)
theory Passkeys
  imports Users OneTime Signing
begin

text \<open>Passkey ceremonies (\<open>domain/passkey_service.py\<close>): the challenge store, the label a
  caller asks for, the two verifications and the credential table. py_webauthn is a set of
  arguments: what \<open>verify_registration_response\<close>, \<open>verify_authentication_response\<close>, the
  key check and the assertion parser do is an outcome, a value or the class of exception
  raised; \<open>bytes_to_base64url\<close> and \<open>base64url_to_bytes\<close> are \<open>b64\<close> and \<open>unb64\<close>. The label
  is a list of code points, with the character database as the argument \<open>category\<close>.\<close>

section \<open>Challenges\<close>

definition insert_challenge :: "int \<Rightarrow> instant \<Rightarrow> passkey_operation \<Rightarrow> string \<Rightarrow> db \<Rightarrow> db_error + db" where
  "insert_challenge ttl now operation state d =
     (let rows = del_where (\<lambda>r. pc_expires_at r \<le> now) (passkey_challenges d);
          row = \<lparr>pc_state = state, pc_operation = operation, pc_expires_at = now + ttl * second, pc_consumed = False, pc_created_at = now\<rparr>
      in if list_ex (\<lambda>r. pc_state r = state) rows then Inl IntegrityError
         else Inr (d\<lparr>passkey_challenges := rows @ [row]\<rparr>))"

definition store_challenge :: "(byte list \<Rightarrow> string) \<Rightarrow> int \<Rightarrow> instant \<Rightarrow> byte list \<Rightarrow> passkey_operation \<Rightarrow> db \<Rightarrow>
    db_error + (string \<times> db)" where
  "store_challenge b64 ttl now raw operation d =
     (let state = b64 raw
      in case insert_challenge ttl now operation state d of Inl e \<Rightarrow> Inl e | Inr d' \<Rightarrow> Inr (state, d'))"

text \<open>The caller commits or rolls back.\<close>

definition consume_challenge :: "(string \<Rightarrow> byte list) \<Rightarrow> instant \<Rightarrow> string \<Rightarrow> passkey_operation \<Rightarrow> db \<Rightarrow>
    byte list option \<times> db" where
  "consume_challenge unb64 now state operation d =
     (let hit = (\<lambda>r. pc_state r = state \<and> \<not> pc_consumed r \<and> pc_expires_at r > now \<and> pc_operation r = operation);
          d' = d\<lparr>passkey_challenges := upd_where hit (\<lambda>r. r\<lparr>pc_consumed := True\<rparr>) (passkey_challenges d)\<rparr>
      in (if rowcount hit (passkey_challenges d) \<noteq> 1 then None else Some (unb64 state), d'))"

definition start_registration :: "(byte list \<Rightarrow> string) \<Rightarrow> int \<Rightarrow> instant \<Rightarrow> byte list \<Rightarrow> db \<Rightarrow> db_error + (string \<times> db)" where
  "start_registration b64 ttl now raw d = store_challenge b64 ttl now raw REGISTER d"

definition start_authentication :: "(byte list \<Rightarrow> string) \<Rightarrow> int \<Rightarrow> instant \<Rightarrow> byte list \<Rightarrow> db \<Rightarrow> db_error + (string \<times> db)" where
  "start_authentication b64 ttl now raw d = store_challenge b64 ttl now raw AUTHENTICATE d"

section \<open>Labels\<close>

definition PASSKEY_LABEL_MAX_BYTES :: nat where "PASSKEY_LABEL_MAX_BYTES = 64"

datatype label_status = Given | Absent | Malformed | Rejected

definition LABEL_REFUSED_CATEGORIES :: "string list" where
  "LABEL_REFUSED_CATEGORIES = [''Cc'', ''Cs'', ''Zl'', ''Zp'']"

definition LABEL_INVISIBLE_CATEGORIES :: "string list" where
  "LABEL_INVISIBLE_CATEGORIES = [''Cf'', ''Mn'', ''Me'', ''Zs'']"

text \<open>The code points \<open>str.strip\<close> removes.\<close>

definition uni_space :: "nat \<Rightarrow> bool" where
  "uni_space c \<longleftrightarrow> 9 \<le> c \<and> c \<le> 13 \<or> 28 \<le> c \<and> c \<le> 32 \<or> c \<in> {133, 160, 5760, 8232, 8233, 8239, 8287, 12288} \<or>
     8192 \<le> c \<and> c \<le> 8202"

definition uni_strip :: "code_points \<Rightarrow> code_points" where
  "uni_strip s = rev (dropWhile uni_space (rev (dropWhile uni_space s)))"

definition utf8_len :: "code_points \<Rightarrow> nat" where
  "utf8_len s = (case utf8_nats s of None \<Rightarrow> 0 | Some b \<Rightarrow> length b)"

text \<open>\<open>encoded[:n].decode("utf-8", errors="ignore")\<close> of a valid encoding: the decoder drops
  the bytes of a last character that was cut.\<close>

fun utf8_cut :: "nat \<Rightarrow> code_points \<Rightarrow> code_points" where
  "utf8_cut n [] = []"
| "utf8_cut n (c # cs) = (if utf8_len [c] \<le> n then c # utf8_cut (n - utf8_len [c]) cs else [])"

definition rstrip_joiner :: "code_points \<Rightarrow> code_points" where
  "rstrip_joiner s = rev (dropWhile (\<lambda>c. c = 0x200D) (rev s))"

datatype label_input = NoLabel | NotString | Text code_points

definition passkey_label :: "(nat \<Rightarrow> string) \<Rightarrow> label_input \<Rightarrow> code_points option \<times> label_status" where
  "passkey_label category raw =
     (case raw of
        NoLabel \<Rightarrow> (None, Absent)
      | NotString \<Rightarrow> (None, Rejected)
      | Text s \<Rightarrow>
          let text = uni_strip s
          in if text = [] \<or> list_ex (\<lambda>c. category c \<in> set LABEL_REFUSED_CATEGORIES) text then (None, Rejected)
             else let label = (if utf8_len text > PASSKEY_LABEL_MAX_BYTES
                               then rstrip_joiner (utf8_cut PASSKEY_LABEL_MAX_BYTES text) else text)
                  in if list_all (\<lambda>c. category c \<in> set LABEL_INVISIBLE_CATEGORIES) label then (None, Rejected)
                     else (Some label, Given))"

section \<open>Verification\<close>

text \<open>What a call into py_webauthn ends in.\<close>

datatype 'v webauthn_outcome = Verified 'v | RaisesJSONStructure | RaisesResponse | RaisesOther

datatype passkey_error = InvalidJSONStructure | InvalidRegistrationResponse | InvalidAuthenticationResponse | UnexpectedError

record verified_registration =
  vr_credential_id :: "byte list"
  vr_public_key :: "byte list"
  vr_sign_count :: int
  vr_aaguid :: "string option"

text \<open>The transports the client lists, when there are any.\<close>

definition transports_of :: "(json \<Rightarrow> string) \<Rightarrow> json \<Rightarrow> string option" where
  "transports_of dumps credential =
     (case jget ''response'' credential of
        None \<Rightarrow> None
      | Some response \<Rightarrow>
          (case jget ''transports'' response of
             Some (JList ts) \<Rightarrow> if ts \<noteq> [] then Some (dumps (JList ts)) else None
           | _ \<Rightarrow> None))"

definition verify_registration :: "(byte list \<Rightarrow> json \<Rightarrow> verified_registration webauthn_outcome) \<Rightarrow>
    (byte list \<Rightarrow> unit webauthn_outcome) \<Rightarrow> (byte list \<Rightarrow> string) \<Rightarrow> (json \<Rightarrow> string) \<Rightarrow> byte list \<Rightarrow> json \<Rightarrow> passkey_error + material" where
  "verify_registration verify_response assert_can_verify b64 dumps raw_challenge credential =
     (case verify_response raw_challenge credential of
        RaisesJSONStructure \<Rightarrow> Inl InvalidJSONStructure
      | RaisesResponse \<Rightarrow> Inl InvalidRegistrationResponse
      | RaisesOther \<Rightarrow> Inl InvalidRegistrationResponse
      | Verified v \<Rightarrow>
          (case assert_can_verify (vr_public_key v) of
             RaisesJSONStructure \<Rightarrow> Inl InvalidJSONStructure
           | RaisesResponse \<Rightarrow> Inl InvalidRegistrationResponse
           | RaisesOther \<Rightarrow> Inl InvalidRegistrationResponse
           | Verified _ \<Rightarrow>
               Inr \<lparr>mat_credential_id = b64 (vr_credential_id v), mat_public_key = b64 (vr_public_key v),
                    mat_sign_count = vr_sign_count v, mat_transports = transports_of dumps credential,
                    mat_aaguid = vr_aaguid v\<rparr>))"

definition parse_assertion :: "(json \<Rightarrow> 'a webauthn_outcome) \<Rightarrow> json \<Rightarrow> passkey_error + 'a" where
  "parse_assertion parse credential =
     (case parse credential of Verified a \<Rightarrow> Inr a | _ \<Rightarrow> Inl InvalidJSONStructure)"

text \<open>The new signature counter, or the refusal; the library's own rule decides about clones.
  \<open>RaisesResponse\<close> covers \<open>InvalidBackupFlags\<close>, which the code turns into the same refusal;
  any other exception escapes.\<close>

definition verify_authentication :: "(byte list \<Rightarrow> 'a \<Rightarrow> string \<Rightarrow> int \<Rightarrow> int webauthn_outcome) \<Rightarrow> byte list \<Rightarrow> 'a \<Rightarrow> string \<Rightarrow>
    int \<Rightarrow> passkey_error + int" where
  "verify_authentication verify_response raw_challenge assertion public_key current_sign_count =
     (case verify_response raw_challenge assertion public_key current_sign_count of
        Verified new_sign_count \<Rightarrow> Inr new_sign_count
      | RaisesResponse \<Rightarrow> Inl InvalidAuthenticationResponse
      | RaisesJSONStructure \<Rightarrow> Inl InvalidJSONStructure
      | RaisesOther \<Rightarrow> Inl UnexpectedError)"

section \<open>Credentials\<close>

definition get_credential :: "string \<Rightarrow> db \<Rightarrow> passkey_credential option" where
  "get_credential credential_id d = find (\<lambda>c. pk_credential_id c = credential_id) (passkey_credentials d)"

definition purge_user_credentials :: "ident \<Rightarrow> db \<Rightarrow> db" where
  "purge_user_credentials user_id d =
     d\<lparr>passkey_credentials := del_where (\<lambda>c. pk_user_id c = user_id) (passkey_credentials d)\<rparr>"

section \<open>The challenge store is a one-time store\<close>

definition unspent_challenge :: "db \<Rightarrow> string \<Rightarrow> bool" where
  "unspent_challenge d t \<longleftrightarrow> (\<exists>r \<in> set (passkey_challenges d). pc_state r = t \<and> \<not> pc_consumed r)"

interpretation challenge_rows: burn_table pc_state pc_consumed pc_expires_at "\<lambda>r. r\<lparr>pc_consumed := True\<rparr>"
  by unfold_locales simp_all

lemma consume_challenge_wins:
  assumes "unique_on pc_state (passkey_challenges d)" and "consume_challenge unb64 now t op d = (Some r, d')"
  shows "unspent_challenge d t \<and> \<not> unspent_challenge d' t \<and> r = unb64 t \<and>
    (\<exists>c \<in> set (passkey_challenges d). pc_state c = t \<and> pc_operation c = op \<and> \<not> pc_consumed c \<and> now < pc_expires_at c)"
proof -
  let ?hit = "\<lambda>r. pc_state r = t \<and> \<not> pc_consumed r \<and> pc_expires_at r > now \<and> pc_operation r = op"
  have h: "rowcount ?hit (passkey_challenges d) = 1" "r = unb64 t"
      "d' = d\<lparr>passkey_challenges := upd_where ?hit (\<lambda>r. r\<lparr>pc_consumed := True\<rparr>) (passkey_challenges d)\<rparr>"
    using assms(2) by (auto simp: consume_challenge_def Let_def split: if_splits)
  then obtain c where c: "c \<in> set (passkey_challenges d)" "?hit c"
    using rowcount_pos_iff [of ?hit "passkey_challenges d"] by auto
  have "x = c" if "x \<in> set (passkey_challenges d)" "pc_state x = t" for x
    using unique_onD [OF assms(1) that(1) c(1)] that(2) c(2) by simp
  then have "\<not> unspent_challenge d' t" using c(2) h(3) by (auto simp: unspent_challenge_def set_upd_where)
  with c h show ?thesis by (auto simp: unspent_challenge_def)
qed

interpretation challenges: one_time_store "insert_challenge ttl" "\<lambda>now t. consume_challenge unb64 now t op"
  "\<lambda>d. unique_on pc_state (passkey_challenges d)" unspent_challenge for ttl unb64 op
proof (unfold_locales, goal_cases)
  case (1 s now t r s')
  then show ?case using consume_challenge_wins by blast
next
  case (2 s now t ro s' t')
  then show ?case by (auto simp: consume_challenge_def Let_def unspent_challenge_def dest!: challenge_rows.burn_keeps)
next
  case (3 s now p t s' t')
  then show ?case by (auto simp: insert_challenge_def Let_def unspent_challenge_def split: if_splits)
next
  case (4 s now t ro s')
  then show ?case by (auto simp: consume_challenge_def Let_def intro: challenge_rows.burn_unique)
next
  case (5 s now p t s')
  then show ?case by (auto simp: insert_challenge_def Let_def list_ex_iff unique_intros split: if_splits)
qed

section \<open>The label\<close>

definition encodable :: "nat \<Rightarrow> bool" where
  "encodable c \<longleftrightarrow> utf8_char c \<noteq> None"

lemma utf8_nats_encodable: "\<forall>c \<in> set s. encodable c \<Longrightarrow> \<exists>b. utf8_nats s = Some b \<and> length b = utf8_len s"
  by (induction s) (auto simp: encodable_def utf8_len_def)

lemma utf8_len_Cons: "\<forall>x \<in> set (c # cs). encodable x \<Longrightarrow> utf8_len (c # cs) = utf8_len [c] + utf8_len cs"
  using utf8_nats_encodable [of cs] by (auto simp: encodable_def utf8_len_def)

lemma utf8_len_Nil [simp]: "utf8_len [] = 0"
  by (simp add: utf8_len_def)

lemma utf8_cut_prefix: "\<exists>rest. s = utf8_cut n s @ rest"
  by (induction s arbitrary: n) auto

lemma utf8_cut_len: "\<forall>c \<in> set s. encodable c \<Longrightarrow> utf8_len (utf8_cut n s) \<le> n"
proof (induction s arbitrary: n)
  case (Cons c cs)
  have e: "\<forall>x \<in> set (c # utf8_cut m cs). encodable x" for m
  proof -
    obtain rest where "cs = utf8_cut m cs @ rest" using utf8_cut_prefix by blast
    then have "set (utf8_cut m cs) \<subseteq> set cs" by (metis Un_upper1 set_append)
    with Cons.prems show ?thesis by auto
  qed
  from Cons.IH [of "n - utf8_len [c]"] Cons.prems utf8_len_Cons [OF e] show ?case by auto
qed simp

lemma rstrip_joiner_prefix: "\<exists>rest. s = rstrip_joiner s @ rest"
proof -
  have "rev s = takeWhile (\<lambda>c. c = 0x200D) (rev s) @ dropWhile (\<lambda>c. c = 0x200D) (rev s)" by simp
  then have "s = rstrip_joiner s @ rev (takeWhile (\<lambda>c. c = 0x200D) (rev s))"
    unfolding rstrip_joiner_def by (metis rev_append rev_rev_ident)
  then show ?thesis by blast
qed

lemma utf8_len_prefix: "\<forall>c \<in> set (s @ t). encodable c \<Longrightarrow> utf8_len s \<le> utf8_len (s @ t)"
proof (induction s)
  case (Cons c s)
  then show ?case using utf8_len_Cons [of c s] utf8_len_Cons [of c "s @ t"] by auto
qed simp

lemma set_uni_strip: "set (uni_strip s) \<subseteq> set s"
  unfolding uni_strip_def by (metis set_dropWhileD set_rev subsetI)

text \<open>A label shown in the phone's password list is the caller's own text. It is a prefix
  of what was sent with the outer blanks removed, takes at most 64 bytes of UTF-8, holds no
  control, surrogate or separator character and at least one visible one, and it is the whole
  text whenever that fits.\<close>

theorem passkey_label_sound:
  assumes "\<forall>c \<in> set s. c < 0x110000" and "\<And>c. 0xD800 \<le> c \<Longrightarrow> c < 0xE000 \<Longrightarrow> category c = ''Cs''"
    and "passkey_label category (Text s) = (Some label, status)"
  shows "status = Given \<and> (\<exists>rest. uni_strip s = label @ rest) \<and>
    (\<exists>b. str_encode label = Some b \<and> length b \<le> 64) \<and>
    (\<forall>c \<in> set label. category c \<notin> set LABEL_REFUSED_CATEGORIES) \<and>
    (\<exists>c \<in> set label. category c \<notin> set LABEL_INVISIBLE_CATEGORIES) \<and>
    (utf8_len (uni_strip s) \<le> 64 \<longrightarrow> label = uni_strip s)"
proof -
  let ?t = "uni_strip s"
  define cut where "cut = rstrip_joiner (utf8_cut PASSKEY_LABEL_MAX_BYTES ?t)"
  have l: "label = (if utf8_len ?t > 64 then cut else ?t)" "status = Given"
    and ok: "\<forall>c \<in> set ?t. category c \<notin> set LABEL_REFUSED_CATEGORIES"
    and vis: "\<exists>c \<in> set label. category c \<notin> set LABEL_INVISIBLE_CATEGORIES"
    using assms(3) by (auto simp: passkey_label_def Let_def cut_def PASSKEY_LABEL_MAX_BYTES_def list_ex_iff list_all_iff
        split: if_splits)
  have enc: "\<forall>c \<in> set ?t. encodable c"
  proof
    fix c assume c: "c \<in> set ?t"
    then have "\<not> (0xD800 \<le> c \<and> c < 0xE000)" using ok assms(2) [of c] by (auto simp: LABEL_REFUSED_CATEGORIES_def)
    moreover have "c < 0x110000" using assms(1) c set_uni_strip by blast
    ultimately show "encodable c" by (auto simp: encodable_def utf8_char_def)
  qed
  obtain r1 where r1: "?t = utf8_cut PASSKEY_LABEL_MAX_BYTES ?t @ r1" using utf8_cut_prefix by blast
  obtain r2 where r2: "utf8_cut PASSKEY_LABEL_MAX_BYTES ?t = cut @ r2" unfolding cut_def using rstrip_joiner_prefix by blast
  have "utf8_len cut \<le> utf8_len (utf8_cut PASSKEY_LABEL_MAX_BYTES ?t)"
    unfolding r2 by (rule utf8_len_prefix) (use enc r1 r2 in \<open>metis Un_iff set_append\<close>)
  also have "\<dots> \<le> 64" using utf8_cut_len [OF enc, of PASSKEY_LABEL_MAX_BYTES] by (simp add: PASSKEY_LABEL_MAX_BYTES_def)
  finally have len: "utf8_len label \<le> 64" using l by auto
  have pre: "\<exists>rest. ?t = label @ rest" using l r1 r2 by (metis append.assoc append_Nil2)
  then have sub: "set label \<subseteq> set ?t" by (metis Un_upper1 set_append)
  have "\<forall>c \<in> set label. encodable c" using enc sub by blast
  then obtain b where "utf8_nats label = Some b" "length b = utf8_len label" using utf8_nats_encodable by blast
  then have "\<exists>b. str_encode label = Some b \<and> length b \<le> 64" using len by (simp add: str_encode_def)
  with l ok vis pre sub show ?thesis by auto
qed

definition ex_category :: "nat \<Rightarrow> string" where
  "ex_category c = (if 0xD800 \<le> c \<and> c < 0xE000 then ''Cs'' else if c = 32 then ''Zs'' else ''Ll'')"

lemma ex_label: "passkey_label ex_category (Text [32, 97, 98]) = (Some [97, 98], Given)"
  by (simp add: passkey_label_def uni_strip_def uni_space_def ex_category_def utf8_len_def utf8_char_def
      PASSKEY_LABEL_MAX_BYTES_def LABEL_REFUSED_CATEGORIES_def LABEL_INVISIBLE_CATEGORIES_def)

end
