(* ===== verification/Sessions.thy ===== *)
theory Sessions
  imports Users Moderation RateLimit "HOL-Library.Countable"
begin

text \<open>Session tokens and the ingress every authenticated request passes
  (\<open>domain/security.py\<close>, \<open>domain/auth_session.py\<close>, \<open>rest/deps.py\<close>). PyJWT is a pair of
  arguments: \<open>jwt_encode\<close> signs a payload, \<open>jwt_decode\<close> at a time returns the payload or
  nothing for any \<open>InvalidTokenError\<close>; the configured secret and algorithm are inside them.
  What the code relies on is \<open>jwt_honest\<close>: a signed payload is returned exactly while its
  own \<open>iat\<close> and \<open>exp\<close> claims admit the time.\<close>

section \<open>Definitions\<close>

datatype token_error = InvalidTokenError
datatype session_error = InvalidSession | SessionBanned

definition session_payload :: "ident \<Rightarrow> string \<Rightarrow> int \<Rightarrow> int \<Rightarrow> instant \<Rightarrow> json" where
  "session_payload user_id token_type ttl_seconds gen now = JObj
     [(''sub'', JStr user_id), (''type'', JStr token_type), (''gen'', JInt gen),
      (''iat'', JInt (now div second)), (''exp'', JInt ((now + ttl_seconds * second) div second))]"

definition issue :: "(json \<Rightarrow> string) \<Rightarrow> ident \<Rightarrow> string \<Rightarrow> int \<Rightarrow> int \<Rightarrow> instant \<Rightarrow> string" where
  "issue jwt_encode user_id token_type ttl_seconds gen now =
     jwt_encode (session_payload user_id token_type ttl_seconds gen now)"

definition issue_access :: "(json \<Rightarrow> string) \<Rightarrow> int \<Rightarrow> ident \<Rightarrow> int \<Rightarrow> instant \<Rightarrow> string" where
  "issue_access jwt_encode access_ttl user_id gen now = issue jwt_encode user_id ''access'' access_ttl gen now"

definition issue_refresh :: "(json \<Rightarrow> string) \<Rightarrow> int \<Rightarrow> ident \<Rightarrow> int \<Rightarrow> instant \<Rightarrow> string" where
  "issue_refresh jwt_encode refresh_ttl user_id gen now = issue jwt_encode user_id ''refresh'' refresh_ttl gen now"

text \<open>PyJWT refuses a \<open>sub\<close> claim that is not a string.\<close>

definition decode_token :: "(instant \<Rightarrow> string \<Rightarrow> json option) \<Rightarrow> instant \<Rightarrow> string \<Rightarrow> string \<Rightarrow>
    token_error + (ident \<times> int)" where
  "decode_token jwt_decode now token expected_type =
     (case jwt_decode now token of
        None \<Rightarrow> Inl InvalidTokenError
      | Some payload \<Rightarrow>
          if jget ''type'' payload \<noteq> Some (JStr expected_type) then Inl InvalidTokenError
          else case jget ''sub'' payload of
                 Some (JStr sub) \<Rightarrow>
                   if sub = [] then Inl InvalidTokenError
                   else (case (case jget ''gen'' payload of None \<Rightarrow> JInt 0 | Some g \<Rightarrow> g) of
                           JInt gen \<Rightarrow> if gen < 0 then Inl InvalidTokenError else Inr (sub, gen)
                         | _ \<Rightarrow> Inl InvalidTokenError)
               | _ \<Rightarrow> Inl InvalidTokenError)"

subsection \<open>Provisioning tokens\<close>

definition PROVISIONING_TYPE :: string where "PROVISIONING_TYPE = ''provisioning''"

record provisioning =
  pv_provider :: string
  pv_provider_sub :: string
  pv_suggested_name :: "string option"
  pv_email :: "string option"

definition opt_str :: "string option \<Rightarrow> json" where
  "opt_str x = (case x of None \<Rightarrow> JNull | Some s \<Rightarrow> JStr s)"

definition str_of :: "json option \<Rightarrow> string option" where
  "str_of j = (case j of Some (JStr s) \<Rightarrow> Some s | _ \<Rightarrow> None)"

definition provisioning_payload :: "int \<Rightarrow> instant \<Rightarrow> provisioning \<Rightarrow> json" where
  "provisioning_payload provisioning_ttl now p = JObj
     [(''type'', JStr PROVISIONING_TYPE), (''provider'', JStr (pv_provider p)), (''provider_sub'', JStr (pv_provider_sub p)),
      (''suggested_name'', opt_str (pv_suggested_name p)), (''email'', opt_str (pv_email p)),
      (''iat'', JInt (now div second)), (''exp'', JInt ((now + provisioning_ttl * second) div second))]"

definition issue_provisioning :: "(json \<Rightarrow> string) \<Rightarrow> int \<Rightarrow> instant \<Rightarrow> provisioning \<Rightarrow> string" where
  "issue_provisioning jwt_encode provisioning_ttl now p = jwt_encode (provisioning_payload provisioning_ttl now p)"

definition decode_provisioning :: "(instant \<Rightarrow> string \<Rightarrow> json option) \<Rightarrow> instant \<Rightarrow> string \<Rightarrow> token_error + provisioning" where
  "decode_provisioning jwt_decode now token =
     (case jwt_decode now token of
        None \<Rightarrow> Inl InvalidTokenError
      | Some payload \<Rightarrow>
          if jget ''type'' payload \<noteq> Some (JStr PROVISIONING_TYPE) then Inl InvalidTokenError
          else case (str_of (jget ''provider'' payload), str_of (jget ''provider_sub'' payload)) of
                 (Some provider, Some provider_sub) \<Rightarrow>
                   if provider = [] \<or> provider_sub = [] then Inl InvalidTokenError
                   else Inr \<lparr>pv_provider = provider, pv_provider_sub = provider_sub,
                          pv_suggested_name = str_of (jget ''suggested_name'' payload),
                          pv_email = str_of (jget ''email'' payload)\<rparr>
               | _ \<Rightarrow> Inl InvalidTokenError)"

subsection \<open>The ingress\<close>

definition resolve_session_user :: "(instant \<Rightarrow> string \<Rightarrow> json option) \<Rightarrow> instant \<Rightarrow> string \<Rightarrow> string \<Rightarrow> db \<Rightarrow>
    session_error + user" where
  "resolve_session_user jwt_decode now token expected_type d =
     (case decode_token jwt_decode now token expected_type of
        Inl _ \<Rightarrow> Inl InvalidSession
      | Inr (user_id, token_gen) \<Rightarrow>
          (case get_user d user_id of
             None \<Rightarrow> Inl InvalidSession
           | Some u \<Rightarrow>
               if token_gen \<noteq> u_token_generation u then Inl InvalidSession
               else if is_banned u then Inl SessionBanned
               else Inr u))"

datatype http_error = Http nat | AccountSuspended | HttpRetry nat int

definition get_current_user :: "(instant \<Rightarrow> string \<Rightarrow> json option) \<Rightarrow> instant \<Rightarrow> string \<Rightarrow> db \<Rightarrow> http_error + user" where
  "get_current_user jwt_decode now token d =
     (case resolve_session_user jwt_decode now token ''access'' d of
        Inl InvalidSession \<Rightarrow> Inl (Http 401)
      | Inl SessionBanned \<Rightarrow> Inl AccountSuspended
      | Inr u \<Rightarrow> Inr u)"

definition require_moderator :: "ident list \<Rightarrow> user \<Rightarrow> http_error + user" where
  "require_moderator moderator_user_ids u =
     (if \<not> is_moderator moderator_user_ids (u_id u) then Inl (Http 403) else Inr u)"

definition rate_limit_user :: "rl_settings \<Rightarrow> string \<Rightarrow> int option \<Rightarrow> real option \<Rightarrow> real \<Rightarrow> user \<Rightarrow>
    windows \<Rightarrow> (http_error + unit) \<times> windows" where
  "rate_limit_user cfg bucket limit window now u ws =
     (if \<not> rate_limit_enabled cfg then (Inr (), ws)
      else case hit now bucket (''u:'' @ u_id u)
                  (case limit of None \<Rightarrow> auth_rate_limit cfg | Some l \<Rightarrow> l)
                  (case window of None \<Rightarrow> auth_rate_limit_window_seconds cfg | Some w \<Rightarrow> w) ws of
             ((allowed, retry_after), ws') \<Rightarrow>
               (if \<not> allowed then Inl (HttpRetry 429 retry_after) else Inr (), ws'))"

section \<open>What is relied on\<close>

definition claims_admit :: "instant \<Rightarrow> json \<Rightarrow> bool" where
  "claims_admit now p =
     (case (jget ''iat'' p, jget ''exp'' p) of
        (Some (JInt iat), Some (JInt expiry)) \<Rightarrow> iat * second \<le> now \<and> now < expiry * second
      | _ \<Rightarrow> False)"

definition jwt_honest :: "(json \<Rightarrow> string) \<Rightarrow> (instant \<Rightarrow> string \<Rightarrow> json option) \<Rightarrow> bool" where
  "jwt_honest jwt_encode jwt_decode \<longleftrightarrow>
     (\<forall>now iat expiry kvs. jget ''iat'' (JObj kvs) = Some (JInt iat) \<longrightarrow> jget ''exp'' (JObj kvs) = Some (JInt expiry) \<longrightarrow>
        jwt_decode now (jwt_encode (JObj kvs)) = (if claims_admit now (JObj kvs) then Some (JObj kvs) else None))"

definition window_open :: "int \<Rightarrow> instant \<Rightarrow> instant \<Rightarrow> bool" where
  "window_open ttl issued now \<longleftrightarrow>
     issued div second * second \<le> now \<and> now < (issued + ttl * second) div second * second"

lemma decode_session_payload:
  "jwt_honest enc dec \<Longrightarrow> dec now (issue enc i ty ttl g t) =
     (if window_open ttl t now then Some (session_payload i ty ttl g t) else None)"
  by (auto simp: jwt_honest_def issue_def session_payload_def claims_admit_def window_open_def)

lemma decode_provisioning_payload:
  "jwt_honest enc dec \<Longrightarrow> dec now (issue_provisioning enc ttl t p) =
     (if window_open ttl t now then Some (provisioning_payload ttl t p) else None)"
  by (auto simp: jwt_honest_def issue_provisioning_def provisioning_payload_def claims_admit_def window_open_def)

lemma str_of_opt_str [simp]: "str_of (Some (opt_str x)) = x" "str_of (Some (JStr s)) = Some s"
  by (cases x) (simp_all add: str_of_def opt_str_def)

lemma decode_issued:
  assumes "jwt_honest enc dec" and "i \<noteq> []" and "0 \<le> g"
  shows "decode_token dec now (issue enc i ty ttl g t) ty' =
     (if window_open ttl t now \<and> ty' = ty then Inr (i, g) else Inl InvalidTokenError)"
  using assms(2,3) by (auto simp: decode_token_def decode_session_payload [OF assms(1)] session_payload_def)

text \<open>C11: a token opens exactly the session it was issued for. An issued access or refresh
  token resolves, while its lifetime lasts and under its own type only, to the account it
  names, and it does so exactly when that account exists, has the generation the token
  carries and is not banned; a ban is reported as such. Neither kind passes for the other or
  for a provisioning token, and a provisioning token opens no session but returns what it
  was issued with.\<close>

theorem session_token_exact:
  assumes "jwt_honest enc dec" and "i \<noteq> []" and "0 \<le> g" and "ty \<in> {''access'', ''refresh''}"
    and "pv_provider p \<noteq> []" and "pv_provider_sub p \<noteq> []"
  shows "(\<forall>now ty'. resolve_session_user dec now (issue enc i ty ttl g t) ty' d =
      (if \<not> (window_open ttl t now \<and> ty' = ty) then Inl InvalidSession
       else case get_user d i of
              None \<Rightarrow> Inl InvalidSession
            | Some u \<Rightarrow> if u_token_generation u \<noteq> g then Inl InvalidSession
                        else if is_banned u then Inl SessionBanned else Inr u)) \<and>
    (\<forall>now. decode_provisioning dec now (issue enc i ty ttl g t) = Inl InvalidTokenError) \<and>
    (\<forall>now ty'. ty' \<in> {''access'', ''refresh''} \<longrightarrow>
      resolve_session_user dec now (issue_provisioning enc ttl t p) ty' d = Inl InvalidSession) \<and>
    (\<forall>now. decode_provisioning dec now (issue_provisioning enc ttl t p) =
      (if window_open ttl t now then Inr p else Inl InvalidTokenError))"
proof (intro conjI allI impI)
  fix now ty'
  show "resolve_session_user dec now (issue enc i ty ttl g t) ty' d =
      (if \<not> (window_open ttl t now \<and> ty' = ty) then Inl InvalidSession
       else case get_user d i of
              None \<Rightarrow> Inl InvalidSession
            | Some u \<Rightarrow> if u_token_generation u \<noteq> g then Inl InvalidSession
                        else if is_banned u then Inl SessionBanned else Inr u)"
    by (simp add: resolve_session_user_def decode_issued [OF assms(1-3)] split: option.split)
next
  fix now
  show "decode_provisioning dec now (issue enc i ty ttl g t) = Inl InvalidTokenError"
    using assms(4) by (auto simp: decode_provisioning_def decode_session_payload [OF assms(1)] session_payload_def PROVISIONING_TYPE_def)
next
  fix now ty'
  assume "ty' \<in> {''access'', ''refresh''}"
  then show "resolve_session_user dec now (issue_provisioning enc ttl t p) ty' d = Inl InvalidSession"
    by (auto simp: resolve_session_user_def decode_token_def decode_provisioning_payload [OF assms(1)] provisioning_payload_def
        PROVISIONING_TYPE_def)
next
  fix now
  show "decode_provisioning dec now (issue_provisioning enc ttl t p) =
      (if window_open ttl t now then Inr p else Inl InvalidTokenError)"
    using assms(5,6) by (simp add: decode_provisioning_def decode_provisioning_payload [OF assms(1)] provisioning_payload_def)
qed

section \<open>A concrete run\<close>

text \<open>A codec that numbers the payloads, to see that the assumption on PyJWT can hold.\<close>

instance json :: countable
  by countable_datatype

definition ex_encode :: "json \<Rightarrow> string" where
  "ex_encode p = replicate (to_nat p) CHR ''.''"

definition ex_decode :: "instant \<Rightarrow> string \<Rightarrow> json option" where
  "ex_decode now s = (let p = from_nat (length s) in if claims_admit now p then Some p else None)"

lemma ex_codec: "jwt_honest ex_encode ex_decode"
  by (simp add: jwt_honest_def ex_encode_def ex_decode_def)

theorem session_token_exact_witness:
  "resolve_session_user ex_decode 7 (issue ex_encode ''u1'' ''access'' 60 0 5) ''access'' ex_profile =
     Inr (new_user 0 ''u1'' ''ann'' [] None None False) \<and>
   resolve_session_user ex_decode 7 (issue ex_encode ''u1'' ''access'' 60 0 5) ''refresh'' ex_profile = Inl InvalidSession"
  using session_token_exact [OF ex_codec, of "''u1''" 0 "''access''"
      "\<lparr>pv_provider = ''apple'', pv_provider_sub = ''s'', pv_suggested_name = None, pv_email = None\<rparr>" 60 5 ex_profile]
    ex_profile_ok(2)
  by (simp add: window_open_def second_def is_banned_def)

end
