(* ===== verification/Recovery.thy ===== *)
theory Recovery
  imports Passkeys Sessions SigningKeys
begin

text \<open>Social recovery (\<open>domain/recovery_service.py\<close>): guardians enrolled once, a quorum of
  signed approvals over the new credential, a veto window, and the guarded DELETE that
  re-keys the account. Ed25519 verification is the argument \<open>ed25519_verify\<close> (false for any
  exception), SHA-256 in hexadecimal the argument \<open>sha256_hex\<close>; WebAuthn verification of the
  new credential is an argument that ends in material or in a refusal. \<open>race\<close> is what other
  sessions commit between the policy read of a finish and its first write; from then on the
  call holds the write lock. An error stands for a rolled-back transaction.\<close>

section \<open>Definitions\<close>

definition RECOVER_DOMAIN_TAG :: string where "RECOVER_DOMAIN_TAG = ''aikochat:recover:v1''"
definition MAX_APPROVERS :: nat where "MAX_APPROVERS = 32"

datatype recovery_error =
    PolicyExists
  | NoRecoveryPolicy
  | QuorumRejected
  | RecoveryAlreadyPending
  | InvalidEnrollment
  | RecoveryAttestation passkey_error
  | RecoveryEncodingError
  | RecoveryIntegrityError

definition approval_bytes :: "byte list \<Rightarrow> ident \<Rightarrow> string \<Rightarrow> string \<Rightarrow> byte list option" where
  "approval_bytes server_nonce account_id new_credential_id new_public_key =
     join_parts
       [lp_str (points RECOVER_DOMAIN_TAG),
        lp server_nonce,
        lp_str (points account_id),
        lp_str (points new_credential_id),
        lp_str (points new_public_key)]"

definition policy_of :: "db \<Rightarrow> ident \<Rightarrow> recovery_policy option" where
  "policy_of d user_id = find (\<lambda>p. rpol_user_id p = user_id) (recovery_policies d)"

definition get_policy :: "db \<Rightarrow> ident \<Rightarrow> recovery_policy option \<times> recovery_approver list" where
  "get_policy d user_id =
     (case policy_of d user_id of
        None \<Rightarrow> (None, [])
      | Some p \<Rightarrow> (Some p, order_asc ra_created_at (order_asc ra_id
                     (filter (\<lambda>a. ra_user_id a = user_id) (recovery_approvers d)))))"

fun distinct_keys :: "string list \<Rightarrow> string list \<Rightarrow> bool" where
  "distinct_keys seen [] = True"
| "distinct_keys seen (pk # pks) =
     (if isl (decode_multikey pk) then False
      else if pk \<in> set seen then False
      else distinct_keys (pk # seen) pks)"

definition validate_enrollment :: "string list \<Rightarrow> int \<Rightarrow> recovery_error + string list" where
  "validate_enrollment approver_pubkeys k =
     (if approver_pubkeys = [] then Inl InvalidEnrollment
      else if length approver_pubkeys > MAX_APPROVERS then Inl InvalidEnrollment
      else if \<not> distinct_keys [] approver_pubkeys then Inl InvalidEnrollment
      else if \<not> (1 \<le> k \<and> k \<le> int (length approver_pubkeys)) then Inl InvalidEnrollment
      else Inr approver_pubkeys)"

text \<open>\<open>ids\<close> are fresh identifiers, one per approver.\<close>

definition approver_rows :: "instant \<Rightarrow> ident \<Rightarrow> ident list \<Rightarrow> string list \<Rightarrow> recovery_approver list" where
  "approver_rows now user_id ids pks =
     map (\<lambda>(i, pk). \<lparr>ra_id = i, ra_user_id = user_id, ra_approver_pubkey = pk, ra_label = None, ra_created_at = now\<rparr>) (zip ids pks)"

definition ra_key :: "recovery_approver \<Rightarrow> ident \<times> string" where
  "ra_key a = (ra_user_id a, ra_approver_pubkey a)"

definition enroll_policy :: "instant \<Rightarrow> ident \<Rightarrow> ident list \<Rightarrow> ident \<Rightarrow> string list \<Rightarrow> int \<Rightarrow> db \<Rightarrow> recovery_error + db" where
  "enroll_policy now policy_id ids user_id approver_pubkeys k d =
     (case validate_enrollment approver_pubkeys k of
        Inl e \<Rightarrow> Inl e
      | Inr pks \<Rightarrow>
          if policy_of d user_id \<noteq> None then Inl PolicyExists
          else let d' = d\<lparr>recovery_policies := recovery_policies d @
                        [\<lparr>rpol_id = policy_id, rpol_user_id = user_id, rpol_threshold_k = k, rpol_created_at = now\<rparr>],
                      recovery_approvers := recovery_approvers d @ approver_rows now user_id ids pks\<rparr>
               in if unique_on rpol_id (recovery_policies d') \<and> unique_on ra_id (recovery_approvers d') \<and>
                     unique_on ra_key (recovery_approvers d')
                  then Inr d' else Inl RecoveryIntegrityError)"

definition start_recovery :: "(byte list \<Rightarrow> string) \<Rightarrow> int \<Rightarrow> instant \<Rightarrow> byte list \<Rightarrow> ident \<Rightarrow> db \<Rightarrow>
    recovery_error + ((string \<times> int) \<times> db)" where
  "start_recovery b64 ttl now raw user_id d =
     (case policy_of d user_id of
        None \<Rightarrow> Inl NoRecoveryPolicy
      | Some p \<Rightarrow>
          (case store_challenge b64 ttl now raw RECOVER d of
             Inl _ \<Rightarrow> Inl RecoveryIntegrityError
           | Inr (state, d') \<Rightarrow> Inr ((state, rpol_threshold_k p), d')))"

subsection \<open>The quorum\<close>

definition approval_fields :: "json \<Rightarrow> (string \<times> string) option" where
  "approval_fields a =
     (case (jget ''approver_pubkey'' a, jget ''sig'' a) of
        (Some (JStr pk), Some (JStr sg)) \<Rightarrow> Some (pk, sg)
      | _ \<Rightarrow> None)"

definition signature_ok :: "(byte list \<Rightarrow> byte list \<Rightarrow> byte list \<Rightarrow> bool) \<Rightarrow> byte list \<Rightarrow> string \<Rightarrow> string \<Rightarrow> bool" where
  "signature_ok ed25519_verify msg pk sig_b64 =
     (case (decode_multikey pk, b64url_raw sig_b64 SIG_RAW_LEN) of
        (Inr raw_pub, Inr sig) \<Rightarrow> ed25519_verify raw_pub sig msg
      | _ \<Rightarrow> False)"

fun quorum_loop :: "(byte list \<Rightarrow> byte list \<Rightarrow> byte list \<Rightarrow> bool) \<Rightarrow> string list \<Rightarrow> byte list \<Rightarrow> int \<Rightarrow> json list \<Rightarrow>
    string list \<Rightarrow> recovery_error + unit" where
  "quorum_loop ed registered msg k [] satisfied = Inl QuorumRejected"
| "quorum_loop ed registered msg k (a # as) satisfied =
     (case approval_fields a of
        None \<Rightarrow> quorum_loop ed registered msg k as satisfied
      | Some (pk, sg) \<Rightarrow>
          if pk \<in> set satisfied then quorum_loop ed registered msg k as satisfied
          else if pk \<notin> set registered then quorum_loop ed registered msg k as satisfied
          else if \<not> signature_ok ed msg pk sg then quorum_loop ed registered msg k as satisfied
          else if int (length (pk # satisfied)) \<ge> k then Inr ()
          else quorum_loop ed registered msg k as (pk # satisfied))"

definition verify_quorum :: "(byte list \<Rightarrow> byte list \<Rightarrow> byte list \<Rightarrow> bool) \<Rightarrow> recovery_approver list \<Rightarrow> json list \<Rightarrow>
    byte list \<Rightarrow> int \<Rightarrow> recovery_error + unit" where
  "verify_quorum ed25519_verify approvers approvals msg threshold_k =
     quorum_loop ed25519_verify (map ra_approver_pubkey approvers) msg threshold_k approvals []"

subsection \<open>Finish, veto, finalize\<close>

definition pending_row :: "(string \<Rightarrow> string) \<Rightarrow> int \<Rightarrow> instant \<Rightarrow> ident \<Rightarrow> string \<Rightarrow> ident \<Rightarrow> material \<Rightarrow> pending_recovery" where
  "pending_row sha256_hex veto_window now new_id raw_token user_id m =
     \<lparr>pr_id = new_id, pr_user_id = user_id, pr_staged_credential_id = mat_credential_id m,
      pr_staged_public_key = mat_public_key m, pr_staged_sign_count = mat_sign_count m,
      pr_veto_deadline = now + veto_window * second, pr_finalize_token_hash = sha256_hex raw_token, pr_created_at = now\<rparr>"

text \<open>One reading of the clock serves the sweep of expired rows, the nonce and the deadline of a finish.\<close>

definition finish_recovery :: "(byte list \<Rightarrow> byte list \<Rightarrow> byte list \<Rightarrow> bool) \<Rightarrow> (string \<Rightarrow> byte list) \<Rightarrow>
    (byte list \<Rightarrow> json \<Rightarrow> passkey_error + material) \<Rightarrow> (string \<Rightarrow> string) \<Rightarrow> int \<Rightarrow> (db \<Rightarrow> db) \<Rightarrow> instant \<Rightarrow> ident \<Rightarrow> string \<Rightarrow>
    ident \<Rightarrow> string \<Rightarrow> json \<Rightarrow> json list \<Rightarrow> db \<Rightarrow> recovery_error + (pending_recovery \<times> db)" where
  "finish_recovery ed unb64 attest sha256_hex veto_window race now new_id raw_token user_id server_nonce attestation approvals d =
     (case get_policy d user_id of
        (None, _) \<Rightarrow> Inl NoRecoveryPolicy
      | (Some policy, approvers) \<Rightarrow>
          (case consume_challenge unb64 now server_nonce RECOVER (race d) of
             (None, _) \<Rightarrow> Inl QuorumRejected
           | (Some raw, d1) \<Rightarrow>
               (case attest raw attestation of
                  Inl e \<Rightarrow> Inl (RecoveryAttestation e)
                | Inr m \<Rightarrow>
                    (case approval_bytes raw user_id (mat_credential_id m) (mat_public_key m) of
                       None \<Rightarrow> Inl RecoveryEncodingError
                     | Some msg \<Rightarrow>
                         (case verify_quorum ed approvers approvals msg (rpol_threshold_k policy) of
                            Inl e \<Rightarrow> Inl e
                          | Inr _ \<Rightarrow>
                              let rows = del_where (\<lambda>p. pr_user_id p = user_id \<and> pr_veto_deadline p \<le> now) (pending_recoveries d1);
                                  row = pending_row sha256_hex veto_window now new_id raw_token user_id m
                              in if list_ex (\<lambda>p. pr_user_id p = user_id) rows then Inl RecoveryAlreadyPending
                                 else if list_ex (\<lambda>p. pr_id p = new_id) rows then Inl RecoveryAlreadyPending
                                 else Inr (row, d1\<lparr>pending_recoveries := rows @ [row]\<rparr>))))))"

definition cancel_recovery :: "ident \<Rightarrow> db \<Rightarrow> bool \<times> db" where
  "cancel_recovery user_id d =
     (rowcount (\<lambda>p. pr_user_id p = user_id) (pending_recoveries d) > 0,
      d\<lparr>pending_recoveries := del_where (\<lambda>p. pr_user_id p = user_id) (pending_recoveries d)\<rparr>)"

definition recovery_status :: "ident \<Rightarrow> db \<Rightarrow> (ident \<times> instant) option" where
  "recovery_status user_id d =
     map_option (\<lambda>p. (pr_id p, pr_veto_deadline p)) (find (\<lambda>p. pr_user_id p = user_id) (pending_recoveries d))"

definition staged_material :: "pending_recovery \<Rightarrow> material" where
  "staged_material p =
     \<lparr>mat_credential_id = pr_staged_credential_id p, mat_public_key = pr_staged_public_key p,
      mat_sign_count = pr_staged_sign_count p, mat_transports = None, mat_aaguid = None\<rparr>"

definition bump_generation :: "ident \<Rightarrow> db \<Rightarrow> db" where
  "bump_generation user_id d =
     d\<lparr>users := upd_where (\<lambda>u. u_id u = user_id) (\<lambda>u. u\<lparr>u_token_generation := u_token_generation u + 1\<rparr>) (users d)\<rparr>"

text \<open>The two tokens and the account.\<close>

definition finalize_recovery :: "(json \<Rightarrow> string) \<Rightarrow> int \<Rightarrow> int \<Rightarrow> (string \<Rightarrow> string) \<Rightarrow> instant \<Rightarrow> ident \<Rightarrow> ident \<Rightarrow> string \<Rightarrow> db \<Rightarrow>
    (string \<times> string \<times> user) option \<times> db" where
  "finalize_recovery jwt_encode access_ttl refresh_ttl sha256_hex now pk recovery_id finalize_token d =
     (let hit = (\<lambda>p. pr_id p = recovery_id \<and> pr_finalize_token_hash p = sha256_hex finalize_token \<and> pr_veto_deadline p \<le> now)
      in case find hit (pending_recoveries d) of
           None \<Rightarrow> (None, d)
         | Some p \<Rightarrow>
             let d1 = d\<lparr>pending_recoveries := del_where hit (pending_recoveries d)\<rparr>
             in case get_user d1 (pr_user_id p) of
                  None \<Rightarrow> (None, d1)
                | Some u \<Rightarrow>
                    let d2 = purge_user_credentials (u_id u) d1;
                        d3 = purge_user_keys (u_id u) d2
                    in case insert_credential (passkey_credential_row now pk (u_id u) (staged_material p)) d3 of
                         Inl _ \<Rightarrow> (None, d)
                       | Inr d4 \<Rightarrow>
                           let d5 = bump_generation (u_id u) d4; gen = u_token_generation u + 1
                           in (Some (issue_access jwt_encode access_ttl (u_id u) gen now,
                                     issue_refresh jwt_encode refresh_ttl (u_id u) gen now, u), d5))"

definition purge_user_recovery :: "ident \<Rightarrow> db \<Rightarrow> db" where
  "purge_user_recovery user_id d =
     d\<lparr>pending_recoveries := del_where (\<lambda>p. pr_user_id p = user_id) (pending_recoveries d),
       recovery_approvers := del_where (\<lambda>a. ra_user_id a = user_id) (recovery_approvers d),
       recovery_policies := del_where (\<lambda>p. rpol_user_id p = user_id) (recovery_policies d)\<rparr>"

section \<open>The quorum is a count of distinct guardians\<close>

definition vouches :: "(byte list \<Rightarrow> byte list \<Rightarrow> byte list \<Rightarrow> bool) \<Rightarrow> byte list \<Rightarrow> json list \<Rightarrow> string \<Rightarrow> bool" where
  "vouches ed msg approvals pk \<longleftrightarrow> (\<exists>a \<in> set approvals. \<exists>sg. approval_fields a = Some (pk, sg) \<and> signature_ok ed msg pk sg)"

definition vouching :: "(byte list \<Rightarrow> byte list \<Rightarrow> byte list \<Rightarrow> bool) \<Rightarrow> byte list \<Rightarrow> json list \<Rightarrow> string list \<Rightarrow> string set" where
  "vouching ed msg approvals registered = {pk \<in> set registered. vouches ed msg approvals pk}"

lemma vouching_Cons:
  "vouching ed msg (a # as) reg =
     (case approval_fields a of
        Some (pk, sg) \<Rightarrow> if pk \<in> set reg \<and> signature_ok ed msg pk sg then insert pk (vouching ed msg as reg) else vouching ed msg as reg
      | None \<Rightarrow> vouching ed msg as reg)"
  by (auto simp: vouching_def vouches_def split: option.splits if_splits)

lemma finite_vouching [simp]: "finite (vouching ed msg as reg)"
  by (simp add: vouching_def)

lemma quorum_loop_exact:
  assumes "distinct sat" and "int (length sat) < k"
  shows "quorum_loop ed reg msg k as sat = Inr () \<longleftrightarrow> k \<le> int (card (set sat \<union> vouching ed msg as reg))"
  using assms
proof (induction as arbitrary: sat)
  case Nil
  then show ?case by (simp add: vouching_def vouches_def distinct_card)
next
  case (Cons a as)
  show ?case
  proof (cases "approval_fields a")
    case None
    with Cons show ?thesis by (simp add: vouching_Cons)
  next
    case (Some p)
    obtain pk sg where p: "p = (pk, sg)" by (cases p)
    show ?thesis
    proof (cases "pk \<in> set sat \<or> pk \<notin> set reg \<or> \<not> signature_ok ed msg pk sg")
      case True
      with Cons Some p show ?thesis by (auto simp: vouching_Cons insert_absorb)
    next
      case False
      then have v: "set sat \<union> vouching ed msg (a # as) reg = set (pk # sat) \<union> vouching ed msg as reg"
        using Some p by (simp add: vouching_Cons)
      show ?thesis
      proof (cases "int (length (pk # sat)) \<ge> k")
        case True
        have "card (set (pk # sat)) \<le> card (set (pk # sat) \<union> vouching ed msg as reg)" by (rule card_mono) auto
        then have "length (pk # sat) \<le> card (set (pk # sat) \<union> vouching ed msg as reg)"
          using distinct_card [of "pk # sat"] Cons.prems(1) False by simp
        with True have "k \<le> int (card (set sat \<union> vouching ed msg (a # as) reg))" unfolding v by linarith
        with False True Some p show ?thesis by simp
      next
        case no: False
        have "quorum_loop ed reg msg k as (pk # sat) = Inr () \<longleftrightarrow> k \<le> int (card (set (pk # sat) \<union> vouching ed msg as reg))"
          using Cons.prems(1) False no by (intro Cons.IH) auto
        with False no Some p v show ?thesis by simp
      qed
    qed
  qed
qed

text \<open>The quorum is exact. Approvals authorize a recovery exactly when at least \<open>k\<close> different
  enrolled guardians have one valid signature each over the given bytes: repeats, strangers,
  junk entries and bad signatures neither help nor hurt, in any order.\<close>

theorem verify_quorum_exact:
  assumes "1 \<le> k"
  shows "verify_quorum ed approvers approvals msg k = Inr () \<longleftrightarrow>
    k \<le> int (card (vouching ed msg approvals (map ra_approver_pubkey approvers)))"
  using quorum_loop_exact [of "[]" k ed "map ra_approver_pubkey approvers" msg approvals] assms
  by (simp add: verify_quorum_def)

section \<open>Finalizing\<close>

lemma finalize_cases:
  assumes "finalize_recovery enc attl rttl sha now pk rid tok d = (Some (a, r, u), d')"
  obtains p d3 d4 where "p \<in> set (pending_recoveries d)" "pr_id p = rid" "pr_finalize_token_hash p = sha tok"
    "pr_veto_deadline p \<le> now" "get_user d (pr_user_id p) = Some u" "u_id u = pr_user_id p"
    "d3 = purge_user_keys (u_id u) (purge_user_credentials (u_id u) (d\<lparr>pending_recoveries :=
       del_where (\<lambda>p. pr_id p = rid \<and> pr_finalize_token_hash p = sha tok \<and> pr_veto_deadline p \<le> now) (pending_recoveries d)\<rparr>))"
    "insert_credential (passkey_credential_row now pk (u_id u) (staged_material p)) d3 = Inr d4"
    "d' = bump_generation (u_id u) d4" "a = issue_access enc attl (u_id u) (u_token_generation u + 1) now"
    "r = issue_refresh enc rttl (u_id u) (u_token_generation u + 1) now"
proof -
  let ?hit = "\<lambda>p. pr_id p = rid \<and> pr_finalize_token_hash p = sha tok \<and> pr_veto_deadline p \<le> now"
  obtain p where p: "find ?hit (pending_recoveries d) = Some p"
    using assms by (auto simp: finalize_recovery_def Let_def split: option.splits)
  let ?d1 = "d\<lparr>pending_recoveries := del_where ?hit (pending_recoveries d)\<rparr>"
  have g: "get_user ?d1 i = get_user d i" for i by (simp add: get_user_def)
  obtain v where v: "get_user d (pr_user_id p) = Some v"
    using assms p by (auto simp: finalize_recovery_def Let_def g split: option.splits)
  let ?d3 = "purge_user_keys (u_id v) (purge_user_credentials (u_id v) ?d1)"
  obtain d4 where d4: "insert_credential (passkey_credential_row now pk (u_id v) (staged_material p)) ?d3 = Inr d4"
    using assms p v by (auto simp: finalize_recovery_def Let_def g split: sum.splits)
  have out: "a = issue_access enc attl (u_id v) (u_token_generation v + 1) now"
      "r = issue_refresh enc rttl (u_id v) (u_token_generation v + 1) now" "u = v" "d' = bump_generation (u_id v) d4"
    using assms p v d4 by (auto simp: finalize_recovery_def Let_def g)
  have "u_id v = pr_user_id p" using v by (auto simp: get_user_def dest: find_SomeD)
  then show thesis using that find_SomeD [OF p] v d4 out by blast
qed

lemma bump_generation_get:
  "get_user (bump_generation i d) j =
     map_option (\<lambda>u. if j = i then u\<lparr>u_token_generation := u_token_generation u + 1\<rparr> else u) (get_user d j)"
  by (simp add: bump_generation_def get_user_upd)

lemma bump_generation_frame [simp]:
  "passkey_credentials (bump_generation i d) = passkey_credentials d" "signing_keys (bump_generation i d) = signing_keys d"
  "pending_recoveries (bump_generation i d) = pending_recoveries d"
  by (simp_all add: bump_generation_def)

text \<open>A finalized recovery re-keys the account and nothing else. The account's only passkey
  is the staged one, its signing keys are gone, the pending row is spent, every session token
  issued for the account before is dead and the returned ones are live; rows of other accounts
  are untouched.\<close>

theorem finalize_rekeys:
  assumes "jwt_honest enc dec" and "finalize_recovery enc attl rttl sha now pk rid tok d = (Some (a, r, u), d')"
    and "u_id u \<noteq> []" and "0 \<le> u_token_generation u" and "\<not> is_banned u" and "unique_on pr_id (pending_recoveries d)"
  shows "(\<exists>p \<in> set (pending_recoveries d). pr_id p = rid \<and> pr_user_id p = u_id u \<and> pr_veto_deadline p \<le> now \<and>
      filter (\<lambda>c. pk_user_id c = u_id u) (passkey_credentials d') = [passkey_credential_row now pk (u_id u) (staged_material p)]) \<and>
    filter (\<lambda>c. pk_user_id c \<noteq> u_id u) (passkey_credentials d') = filter (\<lambda>c. pk_user_id c \<noteq> u_id u) (passkey_credentials d) \<and>
    signing_keys d' = filter (\<lambda>k. sk_user_id k \<noteq> u_id u) (signing_keys d) \<and>
    (\<forall>i. i \<noteq> u_id u \<longrightarrow> get_user d' i = get_user d i) \<and>
    fst (finalize_recovery enc attl rttl sha later pk' rid tok d') = None \<and>
    (\<forall>g ty ttl t now'. 0 \<le> g \<and> g \<le> u_token_generation u \<longrightarrow>
      resolve_session_user dec now' (issue enc (u_id u) ty ttl g t) ty d' = Inl InvalidSession) \<and>
    (\<forall>now'. window_open attl now now' \<longrightarrow>
      resolve_session_user dec now' a ''access'' d' = Inr (u\<lparr>u_token_generation := u_token_generation u + 1\<rparr>))"
proof -
  obtain p d3 d4 where f: "p \<in> set (pending_recoveries d)" "pr_id p = rid \<and> pr_finalize_token_hash p = sha tok" "pr_veto_deadline p \<le> now"
    "get_user d (pr_user_id p) = Some u" "u_id u = pr_user_id p"
    "d3 = purge_user_keys (u_id u) (purge_user_credentials (u_id u) (d\<lparr>pending_recoveries :=
       del_where (\<lambda>p. pr_id p = rid \<and> pr_finalize_token_hash p = sha tok \<and> pr_veto_deadline p \<le> now) (pending_recoveries d)\<rparr>))"
    "insert_credential (passkey_credential_row now pk (u_id u) (staged_material p)) d3 = Inr d4"
    "d' = bump_generation (u_id u) d4" "a = issue_access enc attl (u_id u) (u_token_generation u + 1) now"
    by (rule finalize_cases [OF assms(2)]) blast
  from f(7) have d4: "d4 = d3\<lparr>passkey_credentials := passkey_credentials d3 @ [passkey_credential_row now pk (u_id u) (staged_material p)]\<rparr>"
    by (elim insert_credential_cases)
  have creds: "passkey_credentials d' = del_where (\<lambda>c. pk_user_id c = u_id u) (passkey_credentials d) @
      [passkey_credential_row now pk (u_id u) (staged_material p)]"
    and keys: "signing_keys d' = del_where (\<lambda>k. sk_user_id k = u_id u) (signing_keys d)"
    and pend: "pending_recoveries d' = del_where (\<lambda>p. pr_id p = rid \<and> pr_finalize_token_hash p = sha tok \<and> pr_veto_deadline p \<le> now) (pending_recoveries d)"
    using f(6,8) d4 by (simp_all add: purge_user_keys_def purge_user_credentials_def)
  have usr: "get_user d4 j = get_user d j" for j
    using f(6) d4 by (simp add: get_user_def purge_user_keys_def purge_user_credentials_def)
  have me: "get_user d' (u_id u) = Some (u\<lparr>u_token_generation := u_token_generation u + 1\<rparr>)"
    using usr f(4,5,8) by (simp add: bump_generation_get)
  have oth: "get_user d' j = get_user d j" if "j \<noteq> u_id u" for j
    using f(8) that usr by (simp add: bump_generation_get option.map_ident)
  have dead: "resolve_session_user dec now' (issue enc (u_id u) ty ttl g t) ty d' = Inl InvalidSession"
    if "0 \<le> g" "g \<le> u_token_generation u" for g ty ttl t now'
    using that me by (simp add: resolve_session_user_def decode_issued [OF assms(1,3)] split: option.splits)
  have live: "resolve_session_user dec now' a ''access'' d' = Inr (u\<lparr>u_token_generation := u_token_generation u + 1\<rparr>)"
    if "window_open attl now now'" for now'
    using that me assms(4,5) f(9)
    by (simp add: resolve_session_user_def issue_access_def decode_issued [OF assms(1,3)] is_banned_def)
  have "pr_id q \<noteq> rid" if "q \<in> set (pending_recoveries d')" for q
    using that pend f(1-3) unique_onD [OF assms(6), of q p] by auto
  then have spent: "fst (finalize_recovery enc attl rttl sha later pk' rid tok d') = None"
    by (auto simp: finalize_recovery_def Let_def dest!: find_SomeD split: option.split)
  have row: "pk_user_id (passkey_credential_row now pk (u_id u) (staged_material p)) = u_id u" by simp
  have "filter (\<lambda>c. pk_user_id c = u_id u) (passkey_credentials d') = [passkey_credential_row now pk (u_id u) (staged_material p)]"
    "filter (\<lambda>c. pk_user_id c \<noteq> u_id u) (passkey_credentials d') = filter (\<lambda>c. pk_user_id c \<noteq> u_id u) (passkey_credentials d)"
    unfolding creds by (simp_all add: del_where_def filter_empty_conv row)
  moreover have "signing_keys d' = filter (\<lambda>k. sk_user_id k \<noteq> u_id u) (signing_keys d)" using keys by (simp add: del_where_def)
  ultimately show ?thesis using f(1-5) dead live oth spent by (intro conjI bexI [of _ p]) auto
qed

text \<open>A recovery that is due always completes. When a pending row's deadline has passed, its
  account exists and no other account holds the staged credential, presenting the row's
  token re-keys the account and returns a session. The account's standing is not consulted:
  this holds of a banned account as of any other, whose new passkey is enrolled and whose
  tokens are minted, to be refused at the ingress for as long as the ban lasts.\<close>

theorem finalize_complete:
  assumes "p \<in> set (pending_recoveries d)" and "unique_on pr_id (pending_recoveries d)" and "pr_veto_deadline p \<le> now"
    and "pr_finalize_token_hash p = sha tok" and "get_user d (pr_user_id p) = Some u"
    and "\<forall>c \<in> set (passkey_credentials d). pk_user_id c \<noteq> pr_user_id p \<longrightarrow> pk_credential_id c \<noteq> pr_staged_credential_id p \<and> pk_id c \<noteq> pk"
  shows "\<exists>a r d'. finalize_recovery enc attl rttl sha now pk (pr_id p) tok d = (Some (a, r, u), d') \<and>
    credential_owner (pr_staged_credential_id p) d' = Some (u_id u) \<and>
    (jwt_honest enc dec \<and> u_id u \<noteq> [] \<and> 0 \<le> u_token_generation u \<and> is_banned u \<and> window_open attl now now' \<longrightarrow>
      resolve_session_user dec now' a ''access'' d' = Inl SessionBanned)"
proof -
  let ?hit = "\<lambda>q. pr_id q = pr_id p \<and> pr_finalize_token_hash q = sha tok \<and> pr_veto_deadline q \<le> now"
  have "?hit p" using assms(3,4) by simp
  from find_ex [OF assms(1), of ?hit, OF this] obtain q where q: "find ?hit (pending_recoveries d) = Some q" ..
  have "q = p" using unique_onD [OF assms(2) _ assms(1), of q] find_SomeD [OF q] by simp
  have u: "u_id u = pr_user_id p" using assms(5) by (auto simp: get_user_def dest: find_SomeD)
  let ?d1 = "d\<lparr>pending_recoveries := del_where ?hit (pending_recoveries d)\<rparr>"
  let ?d3 = "purge_user_keys (u_id u) (purge_user_credentials (u_id u) ?d1)"
  have g: "get_user ?d1 i = get_user d i" "get_user ?d3 i = get_user d i" for i
    by (simp_all add: get_user_def purge_user_keys_def purge_user_credentials_def)
  obtain d4 where d4: "insert_credential (passkey_credential_row now pk (u_id u) (staged_material p)) ?d3 = Inr d4"
    using assms(6) u by (auto simp: insert_credential_def list_ex_iff purge_user_keys_def purge_user_credentials_def staged_material_def)
  then have g4: "get_user d4 i = get_user d i" for i using g(2) by (elim insert_credential_cases) (simp add: get_user_def)
  have "finalize_recovery enc attl rttl sha now pk (pr_id p) tok d =
      (Some (issue_access enc attl (u_id u) (u_token_generation u + 1) now,
             issue_refresh enc rttl (u_id u) (u_token_generation u + 1) now, u), bump_generation (u_id u) d4)"
    unfolding finalize_recovery_def Let_def q \<open>q = p\<close> option.case g(1) assms(5) d4 sum.case ..
  moreover have "credential_owner (pr_staged_credential_id p) (bump_generation (u_id u) d4) = Some (u_id u)"
    using credential_owner_insert [OF d4] by (simp add: staged_material_def credential_owner_def)
  moreover have "resolve_session_user dec now' (issue_access enc attl (u_id u) (u_token_generation u + 1) now) ''access''
      (bump_generation (u_id u) d4) = Inl SessionBanned"
    if "jwt_honest enc dec \<and> u_id u \<noteq> [] \<and> 0 \<le> u_token_generation u \<and> is_banned u \<and> window_open attl now now'"
    using that g4 assms(5) u
    by (simp add: resolve_session_user_def issue_access_def decode_issued bump_generation_get is_banned_def)
  ultimately show ?thesis by blast
qed

section \<open>Runs\<close>

text \<open>What can happen to the pending rows. An opening may have read its policy in an earlier
  state \<open>d0\<close>; every operation of the service that leaves the pending rows alone is
  \<open>Elsewhere\<close>.\<close>

datatype rec_event =
    Opened instant pending_recovery db "json list"
  | Cancelled ident
  | Finalized instant ident string
  | Elsewhere

inductive rec_step :: "(byte list \<Rightarrow> byte list \<Rightarrow> byte list \<Rightarrow> bool) \<Rightarrow> (string \<Rightarrow> byte list) \<Rightarrow>
    (byte list \<Rightarrow> json \<Rightarrow> passkey_error + material) \<Rightarrow> (string \<Rightarrow> string) \<Rightarrow> int \<Rightarrow> db \<Rightarrow> rec_event \<Rightarrow> db \<Rightarrow> bool"
  for ed unb64 attest sha win where
  opened: "finish_recovery ed unb64 attest sha win (\<lambda>_. d) now new_id tok u nonce att apps d0 = Inr (p, d') \<Longrightarrow>
     rec_step ed unb64 attest sha win d (Opened now p d0 apps) d'"
| cancelled: "cancel_recovery u d = (b, d') \<Longrightarrow> rec_step ed unb64 attest sha win d (Cancelled u) d'"
| purged: "rec_step ed unb64 attest sha win d (Cancelled u) (purge_user_recovery u d)"
| finalized: "finalize_recovery enc attl rttl sha now pk rid tok d = (out, d') \<Longrightarrow>
     rec_step ed unb64 attest sha win d (Finalized now rid tok) d'"
| elsewhere: "pending_recoveries d' = pending_recoveries d \<Longrightarrow> rec_step ed unb64 attest sha win d Elsewhere d'"

inductive rec_run :: "(byte list \<Rightarrow> byte list \<Rightarrow> byte list \<Rightarrow> bool) \<Rightarrow> (string \<Rightarrow> byte list) \<Rightarrow>
    (byte list \<Rightarrow> json \<Rightarrow> passkey_error + material) \<Rightarrow> (string \<Rightarrow> string) \<Rightarrow> int \<Rightarrow> db \<Rightarrow> rec_event list \<Rightarrow> db \<Rightarrow> bool"
  for ed unb64 attest sha win d where
  run_start: "rec_run ed unb64 attest sha win d [] d"
| run_step: "rec_run ed unb64 attest sha win d es d1 \<Longrightarrow> rec_step ed unb64 attest sha win d1 e d2 \<Longrightarrow>
     rec_run ed unb64 attest sha win d (es @ [e]) d2"

text \<open>The guardians' quorum behind an opened recovery: over the bytes that name this account
  and this credential.\<close>

definition quorum_backed :: "(byte list \<Rightarrow> byte list \<Rightarrow> byte list \<Rightarrow> bool) \<Rightarrow> pending_recovery \<Rightarrow> db \<Rightarrow> json list \<Rightarrow> bool" where
  "quorum_backed ed p d0 apps \<longleftrightarrow>
     (\<exists>policy nonce msg. policy_of d0 (pr_user_id p) = Some policy \<and>
        approval_bytes nonce (pr_user_id p) (pr_staged_credential_id p) (pr_staged_public_key p) = Some msg \<and>
        rpol_threshold_k policy \<le>
          int (card (vouching ed msg apps (map ra_approver_pubkey (snd (get_policy d0 (pr_user_id p)))))))"

definition opened_ok :: "(byte list \<Rightarrow> byte list \<Rightarrow> byte list \<Rightarrow> bool) \<Rightarrow> int \<Rightarrow> rec_event list \<Rightarrow> pending_recovery \<Rightarrow> bool" where
  "opened_ok ed win es p \<longleftrightarrow>
     (\<exists>pre t d0 apps post. es = pre @ Opened t p d0 apps # post \<and> Cancelled (pr_user_id p) \<notin> set post \<and>
        pr_veto_deadline p = t + win * second \<and> quorum_backed ed p d0 apps)"

lemma guards_passed:
  "(if A then Inl e else if B then Inl e' else Inr (x, y)) = Inr (p, d') \<Longrightarrow> \<not> A \<and> \<not> B \<and> p = x \<and> d' = y"
  by (auto split: if_splits)

lemma finish_recovery_cases:
  assumes "finish_recovery ed unb64 attest sha win race now i tok u nonce att apps d = Inr (p, d')"
  obtains policy raw d1 m msg where "policy_of d u = Some policy" "consume_challenge unb64 now nonce RECOVER (race d) = (Some raw, d1)"
    "attest raw att = Inr m" "approval_bytes raw u (mat_credential_id m) (mat_public_key m) = Some msg"
    "verify_quorum ed (snd (get_policy d u)) apps msg (rpol_threshold_k policy) = Inr ()"
    "p = pending_row sha win now i tok u m"
    "d' = d1\<lparr>pending_recoveries := del_where (\<lambda>p. pr_user_id p = u \<and> pr_veto_deadline p \<le> now) (pending_recoveries d1) @ [p]\<rparr>"
    "\<forall>q \<in> set (del_where (\<lambda>p. pr_user_id p = u \<and> pr_veto_deadline p \<le> now) (pending_recoveries d1)). pr_user_id q \<noteq> u \<and> pr_id q \<noteq> i"
proof -
  obtain policy where p: "policy_of d u = Some policy" "get_policy d u = (Some policy, snd (get_policy d u))"
    using assms by (cases "policy_of d u") (auto simp: finish_recovery_def get_policy_def)
  obtain raw d1 where c: "consume_challenge unb64 now nonce RECOVER (race d) = (Some raw, d1)"
    using assms p(2) by (cases "consume_challenge unb64 now nonce RECOVER (race d)")
      (auto simp: finish_recovery_def split: prod.splits option.splits)
  obtain m where m: "attest raw att = Inr m"
    using assms p(2) c by (cases "attest raw att") (auto simp: finish_recovery_def split: prod.splits)
  obtain msg where msg: "approval_bytes raw u (mat_credential_id m) (mat_public_key m) = Some msg"
    using assms p(2) c m by (cases "approval_bytes raw u (mat_credential_id m) (mat_public_key m)")
      (auto simp: finish_recovery_def split: prod.splits)
  have q: "verify_quorum ed (snd (get_policy d u)) apps msg (rpol_threshold_k policy) = Inr ()"
    using assms p(2) c m msg by (cases "verify_quorum ed (snd (get_policy d u)) apps msg (rpol_threshold_k policy)")
      (auto simp: finish_recovery_def split: prod.splits)
  let ?rows = "del_where (\<lambda>p. pr_user_id p = u \<and> pr_veto_deadline p \<le> now) (pending_recoveries d1)"
  have "finish_recovery ed unb64 attest sha win race now i tok u nonce att apps d =
      (if list_ex (\<lambda>p. pr_user_id p = u) ?rows then Inl RecoveryAlreadyPending
       else if list_ex (\<lambda>p. pr_id p = i) ?rows then Inl RecoveryAlreadyPending
       else Inr (pending_row sha win now i tok u m, d1\<lparr>pending_recoveries := ?rows @ [pending_row sha win now i tok u m]\<rparr>))"
    using c m msg q by (subst finish_recovery_def, subst p(2)) (simp add: Let_def)
  note g = guards_passed [OF this [symmetric, unfolded assms]]
  show thesis
  proof (rule that [OF p(1) c m msg q])
    show row: "p = pending_row sha win now i tok u m" using g by blast
    show "d' = d1\<lparr>pending_recoveries := ?rows @ [p]\<rparr>" unfolding row using g by blast
    show "\<forall>q \<in> set ?rows. pr_user_id q \<noteq> u \<and> pr_id q \<noteq> i" using g unfolding list_ex_iff by blast
  qed
qed

lemma consume_challenge_frame: "consume_challenge unb64 now s op d = (r, d') \<Longrightarrow> pending_recoveries d' = pending_recoveries d"
  by (auto simp: consume_challenge_def Let_def)

lemma finish_recovery_opens:
  assumes "finish_recovery ed unb64 attest sha win race now i tok u nonce att apps d = Inr (p, d')"
  shows "pr_veto_deadline p = now + win * second \<and> quorum_backed ed p d apps \<and>
    set (pending_recoveries d') \<subseteq> insert p (set (pending_recoveries (race d)))"
proof -
  obtain policy raw d1 m msg where f: "policy_of d u = Some policy" "consume_challenge unb64 now nonce RECOVER (race d) = (Some raw, d1)"
    "approval_bytes raw u (mat_credential_id m) (mat_public_key m) = Some msg"
    "verify_quorum ed (snd (get_policy d u)) apps msg (rpol_threshold_k policy) = Inr ()"
    "p = pending_row sha win now i tok u m"
    "d' = d1\<lparr>pending_recoveries := del_where (\<lambda>p. pr_user_id p = u \<and> pr_veto_deadline p \<le> now) (pending_recoveries d1) @ [p]\<rparr>"
    by (rule finish_recovery_cases [OF assms]) blast
  have "rpol_threshold_k policy \<le> int (card (vouching ed msg apps (map ra_approver_pubkey (snd (get_policy d u)))))"
  proof (cases "1 \<le> rpol_threshold_k policy")
    case True
    with f(4) quorum_loop_exact [of "[]" "rpol_threshold_k policy"] show ?thesis by (simp add: verify_quorum_def)
  qed linarith
  then have "quorum_backed ed p d apps" using f(1,3,5) by (auto simp: quorum_backed_def pending_row_def)
  with f(5,6) consume_challenge_frame [OF f(2)] show ?thesis by (auto simp: pending_row_def)
qed

lemma finalize_frame: "finalize_recovery enc attl rttl sha now pk rid tok d = (out, d') \<Longrightarrow>
    set (pending_recoveries d') \<subseteq> set (pending_recoveries d)"
  by (auto simp: finalize_recovery_def Let_def purge_user_keys_def purge_user_credentials_def elim!: insert_credential_cases
      split: option.splits sum.splits)

lemma opened_ok_here: "pr_veto_deadline p = t + win * second \<Longrightarrow> quorum_backed ed p d0 apps \<Longrightarrow>
    opened_ok ed win (es @ [Opened t p d0 apps]) p"
  unfolding opened_ok_def by (rule exI [of _ es], rule exI [of _ t], rule exI [of _ d0], rule exI [of _ apps], rule exI [of _ "[]"]) simp

lemma opened_ok_snoc: "opened_ok ed win es p \<Longrightarrow> e \<noteq> Cancelled (pr_user_id p) \<Longrightarrow> opened_ok ed win (es @ [e]) p"
  unfolding opened_ok_def by fastforce

lemma pending_opened:
  assumes "rec_run ed unb64 attest sha win d es d1" and "pending_recoveries d = []" and "p \<in> set (pending_recoveries d1)"
  shows "opened_ok ed win es p"
  using assms
proof (induction arbitrary: p rule: rec_run.induct)
  case (run_step es d1 e d2)
  from run_step.hyps(2) show ?case
  proof cases
    case (opened now i tok u nonce att apps d0 q)
    note o = finish_recovery_opens [OF opened(2)]
    show ?thesis
    proof (cases "p = q")
      case True
      with o opened(1) show ?thesis by (simp add: opened_ok_here)
    next
      case False
      with o run_step.prems(2) have "p \<in> set (pending_recoveries d1)" by auto
      with run_step.IH run_step.prems(1) opened(1) show ?thesis by (simp add: opened_ok_snoc)
    qed
  next
    case (cancelled u b)
    with run_step.prems(2) have "p \<in> set (pending_recoveries d1)" "pr_user_id p \<noteq> u" by (auto simp: cancel_recovery_def)
    with run_step.IH run_step.prems(1) cancelled(1) show ?thesis by (simp add: opened_ok_snoc)
  next
    case (purged u)
    with run_step.prems(2) have "p \<in> set (pending_recoveries d1)" "pr_user_id p \<noteq> u" by (auto simp: purge_user_recovery_def)
    with run_step.IH run_step.prems(1) purged(1) show ?thesis by (simp add: opened_ok_snoc)
  next
    case (finalized enc attl rttl now pk rid tok out)
    with run_step.prems(2) finalize_frame [OF finalized(2)] have "p \<in> set (pending_recoveries d1)" by auto
    with run_step.IH run_step.prems(1) finalized(1) show ?thesis by (simp add: opened_ok_snoc)
  next
    case elsewhere
    with run_step.IH run_step.prems show ?thesis by (simp add: opened_ok_snoc)
  qed
qed simp

text \<open>C12: an account is taken over only through its guardians and past its owner. Whatever ran
  before, a finalize that succeeds was preceded by a finish for the same account and
  credential whose approvals met the account's quorum, at least the whole veto window
  earlier, and by no cancellation of that account's recovery since.\<close>

theorem recovery_needs_quorum_and_window:
  assumes "rec_run ed unb64 attest sha win d es d1" and "pending_recoveries d = []"
    and "finalize_recovery enc attl rttl sha now pk rid tok d1 = (Some (a, r, u), d2)"
  shows "\<exists>pre t p d0 apps post. es = pre @ Opened t p d0 apps # post \<and> Cancelled (u_id u) \<notin> set post \<and>
    t + win * second \<le> now \<and> pr_id p = rid \<and> pr_user_id p = u_id u \<and> pr_finalize_token_hash p = sha tok \<and>
    quorum_backed ed p d0 apps \<and> credential_owner (pr_staged_credential_id p) d2 = Some (u_id u)"
proof -
  obtain p d3 d4 where f: "p \<in> set (pending_recoveries d1)" "pr_id p = rid" "pr_finalize_token_hash p = sha tok"
    "pr_veto_deadline p \<le> now" "u_id u = pr_user_id p"
    "insert_credential (passkey_credential_row now pk (u_id u) (staged_material p)) d3 = Inr d4" "d2 = bump_generation (u_id u) d4"
    by (rule finalize_cases [OF assms(3)]) blast
  have "credential_owner (pr_staged_credential_id p) d2 = Some (u_id u)"
    using credential_owner_insert [OF f(6)] f(7) by (simp add: staged_material_def credential_owner_def)
  with pending_opened [OF assms(1,2) f(1)] f show ?thesis unfolding opened_ok_def by force
qed

section \<open>A concrete recovery\<close>

definition ex_guardian :: string where "ex_guardian = projr (encode_multikey (replicate 32 0))"
definition ex_sig :: string where "ex_sig = b64url_nopad (replicate 64 0)"
definition ex_approvals :: "json list" where
  "ex_approvals = [JObj [(''approver_pubkey'', JStr ex_guardian), (''sig'', JStr ex_sig)]]"
definition ex_approver :: recovery_approver where
  "ex_approver = \<lparr>ra_id = ''a1'', ra_user_id = ''u1'', ra_approver_pubkey = ex_guardian, ra_label = None, ra_created_at = 0\<rparr>"

definition ex_rec :: db where
  "ex_rec = ex_profile\<lparr>
     recovery_policies := [\<lparr>rpol_id = ''p1'', rpol_user_id = ''u1'', rpol_threshold_k = 1, rpol_created_at = 0\<rparr>],
     recovery_approvers := [ex_approver],
     passkey_challenges := [\<lparr>pc_state = ''n'', pc_operation = RECOVER, pc_expires_at = 9, pc_consumed = False, pc_created_at = 0\<rparr>]\<rparr>"

lemma ex_signature: "signature_ok (\<lambda>_ _ _. True) msg ex_guardian ex_sig"
proof -
  have "\<not> isl (decode_multikey ex_guardian)"
    unfolding multikey_spelling ex_guardian_def by (rule exI [of _ "replicate 32 0"]) (simp add: PUBKEY_RAW_LEN_def)
  moreover have "\<not> isl (b64url_raw ex_sig SIG_RAW_LEN)"
    unfolding signature_spelling ex_sig_def by (rule exI [of _ "replicate 64 0"]) (simp add: SIG_RAW_LEN_def)
  ultimately show ?thesis
    by (cases "decode_multikey ex_guardian"; cases "b64url_raw ex_sig SIG_RAW_LEN") (simp_all add: signature_ok_def)
qed

lemma ex_quorum: "verify_quorum (\<lambda>_ _ _. True) [ex_approver] ex_approvals msg 1 = Inr ()"
  using ex_signature by (simp add: verify_quorum_def ex_approvals_def ex_approver_def approval_fields_def)

definition ex_pending :: pending_recovery where
  "ex_pending = pending_row id 60 5 ''r1'' ''tok'' ''u1'' ex_mat"

lemma ex_bytes: "\<exists>msg. approval_bytes [] ''u1'' ''cred'' ''pub'' = Some msg"
  by (simp add: approval_bytes_def signed_layout RECOVER_DOMAIN_TAG_def)

definition ex_opened :: db where
  "ex_opened = ex_rec\<lparr>passkey_challenges := [\<lparr>pc_state = ''n'', pc_operation = RECOVER, pc_expires_at = 9, pc_consumed = True, pc_created_at = 0\<rparr>],
     pending_recoveries := [ex_pending]\<rparr>"

lemma ex_finish:
  "finish_recovery (\<lambda>_ _ _. True) (\<lambda>_. []) (\<lambda>_ _. Inr ex_mat) id 60 (\<lambda>_. ex_rec) 5 ''r1'' ''tok'' ''u1'' ''n'' JNull ex_approvals ex_rec =
     Inr (ex_pending, ex_opened)"
proof -
  obtain msg where "approval_bytes [] ''u1'' ''cred'' ''pub'' = Some msg" using ex_bytes by blast
  moreover have "get_policy ex_rec ''u1'' = (Some \<lparr>rpol_id = ''p1'', rpol_user_id = ''u1'', rpol_threshold_k = 1, rpol_created_at = 0\<rparr>, [ex_approver])"
    by (simp add: get_policy_def policy_of_def ex_rec_def ex_approver_def order_asc_def)
  moreover have "consume_challenge (\<lambda>_. []) 5 ''n'' RECOVER ex_rec = (Some [], ex_opened\<lparr>pending_recoveries := []\<rparr>)"
    by (simp add: consume_challenge_def ex_rec_def ex_opened_def ex_profile_def empty_db_def)
  ultimately show ?thesis
    by (simp add: finish_recovery_def ex_quorum ex_mat_def [symmetric])
       (simp add: ex_mat_def ex_quorum ex_pending_def ex_opened_def Let_def)
qed

lemma ex_finalize: "\<exists>a r u d. finalize_recovery ex_encode 60 60 id (6 + 60 * second) ''k1'' ''r1'' ''tok'' ex_opened = (Some (a, r, u), d) \<and>
    u = new_user 0 ''u1'' ''ann'' [] None None False"
  by (simp add: finalize_recovery_def ex_opened_def ex_pending_def pending_row_def ex_rec_def ex_profile_def empty_db_def
      get_user_def purge_user_credentials_def purge_user_keys_def insert_credential_def second_def)

theorem recovery_needs_quorum_and_window_witness:
  "\<exists>pre t p d0 apps post. [Opened 5 ex_pending ex_rec ex_approvals] = pre @ Opened t p d0 apps # post \<and>
     t + 60 * second \<le> 6 + 60 * second \<and> quorum_backed (\<lambda>_ _ _. True) p d0 apps"
proof -
  have run: "rec_run (\<lambda>_ _ _. True) (\<lambda>_. []) (\<lambda>_ _. Inr ex_mat) id 60 ex_rec ([] @ [Opened 5 ex_pending ex_rec ex_approvals]) ex_opened"
    by (rule rec_run.run_step [OF rec_run.run_start rec_step.opened [OF ex_finish]])
  have none: "pending_recoveries ex_rec = []" by (simp add: ex_rec_def ex_profile_def empty_db_def)
  obtain a r u d where f: "finalize_recovery ex_encode 60 60 id (6 + 60 * second) ''k1'' ''r1'' ''tok'' ex_opened = (Some (a, r, u), d)"
    using ex_finalize by blast
  from recovery_needs_quorum_and_window [OF run none f] show ?thesis unfolding append_Nil by blast
qed

text \<open>The account is banned after the recovery was opened; the recovery completes.\<close>

definition ex_banned :: db where
  "ex_banned = projr (ban_user [] 7 ''u1'' ''mod'' ex_opened)"

end
