(* ===== verification/SignIn.thy ===== *)
theory SignIn
  imports Recovery
begin

text \<open>The sign-in routes (\<open>rest/auth.py\<close>) and the PKCE binding (\<open>domain/pkce.py\<close>): every door
  that mints a session, composed from the token stores, the account service and the passkey
  ceremonies. Identity providers are arguments: what \<open>oauth.verify_id_token\<close> and
  \<open>oauth_broker.exchange_code\<close> answer; so is SHA-256. A route returns its answer and the
  state it leaves committed.\<close>

section \<open>Definitions\<close>

subsection \<open>PKCE\<close>

definition ascii_bytes :: "string \<Rightarrow> byte list option" where
  "ascii_bytes s = (if list_all (\<lambda>c. of_char c < (128 :: nat)) s then Some (map (\<lambda>c. byte_of (of_char c)) s) else None)"

definition is_valid_app_challenge :: "string \<Rightarrow> bool" where
  "is_valid_app_challenge challenge \<longleftrightarrow> length challenge = 43 \<and> list_all (\<lambda>c. c \<in> set B64URL_ALPHABET) challenge"

definition app_challenge_for :: "(byte list \<Rightarrow> byte list) \<Rightarrow> string \<Rightarrow> string option" where
  "app_challenge_for sha256 verifier = map_option (\<lambda>b. b64url_nopad (sha256 b)) (ascii_bytes verifier)"

definition verify_app_challenge :: "(byte list \<Rightarrow> byte list) \<Rightarrow> string \<Rightarrow> string \<Rightarrow> bool" where
  "verify_app_challenge sha256 verifier challenge =
     (case app_challenge_for sha256 verifier of
        None \<Rightarrow> False
      | Some computed \<Rightarrow>
          if \<not> list_all (\<lambda>c. of_char c < (128 :: nat)) challenge then False else computed = challenge)"

definition make_pkce_pair :: "(byte list \<Rightarrow> byte list) \<Rightarrow> byte list \<Rightarrow> string \<times> string option" where
  "make_pkce_pair sha256 raw = (let verifier = b64url_nopad raw in (verifier, app_challenge_for sha256 verifier))"

subsection \<open>Sessions\<close>

record auth_settings =
  social_signin_enabled :: bool
  social_nonce_required :: bool
  open_registration :: bool
  access_ttl :: int
  refresh_ttl :: int
  provisioning_ttl :: int
  state_ttl :: int
  handoff_ttl :: int
  handle_cooldown :: int

datatype signin = SignedIn string string user | Provisioned string provisioning | Viewed user

definition signed_in :: "(json \<Rightarrow> string) \<Rightarrow> auth_settings \<Rightarrow> instant \<Rightarrow> user \<Rightarrow> signin" where
  "signed_in enc cfg now u =
     SignedIn (issue_access enc (access_ttl cfg) (u_id u) (u_token_generation u) now)
       (issue_refresh enc (refresh_ttl cfg) (u_id u) (u_token_generation u) now) u"

definition deny_if_banned :: "user \<Rightarrow> http_error + unit" where
  "deny_if_banned u = (if is_banned u then Inl AccountSuspended else Inr ())"

datatype door = PasswordDoor | PasskeyDoor | SocialDoor

definition require_may_provision_account :: "auth_settings \<Rightarrow> door \<Rightarrow> http_error + unit" where
  "require_may_provision_account cfg dr =
     (case dr of
        SocialDoor \<Rightarrow> if social_signin_enabled cfg then Inr () else Inl (Http 403)
      | _ \<Rightarrow> if open_registration cfg then Inr () else Inl (Http 403))"

type_synonym 'a route = "(http_error + 'a) \<times> db"

definition register :: "(json \<Rightarrow> string) \<Rightarrow> (string \<Rightarrow> string) \<Rightarrow> auth_settings \<Rightarrow> instant \<Rightarrow> ident \<Rightarrow> string \<Rightarrow> string \<Rightarrow> string \<Rightarrow> db \<Rightarrow> signin route" where
  "register enc hash cfg now new_id username display_name password d =
     (case require_may_provision_account cfg PasswordDoor of
        Inl e \<Rightarrow> (Inl e, d)
      | Inr _ \<Rightarrow>
          (case create_user hash now new_id username display_name password d of
             Inl _ \<Rightarrow> (Inl (Http 409), d)
           | Inr (u, d') \<Rightarrow> (Inr (signed_in enc cfg now u), d')))"

definition login :: "(json \<Rightarrow> string) \<Rightarrow> (string \<Rightarrow> string \<Rightarrow> bool) \<Rightarrow> auth_settings \<Rightarrow> instant \<Rightarrow> string \<Rightarrow> string \<Rightarrow> db \<Rightarrow> signin route" where
  "login enc verify cfg now username password d =
     (case authenticate verify username password d of
        None \<Rightarrow> (Inl (Http 401), d)
      | Some u \<Rightarrow>
          (case deny_if_banned u of Inl e \<Rightarrow> (Inl e, d) | Inr _ \<Rightarrow> (Inr (signed_in enc cfg now u), d)))"

text \<open>An identity a provider vouches for; \<open>provisioning\<close> holds the same fields.\<close>

definition resolve_identity :: "(json \<Rightarrow> string) \<Rightarrow> auth_settings \<Rightarrow> instant \<Rightarrow> provisioning \<Rightarrow> db \<Rightarrow> http_error + signin" where
  "resolve_identity enc cfg now identity d =
     (case get_user_by_social (pv_provider identity) (pv_provider_sub identity) d of
        Some u \<Rightarrow> (case deny_if_banned u of Inl e \<Rightarrow> Inl e | Inr _ \<Rightarrow> Inr (signed_in enc cfg now u))
      | None \<Rightarrow> Inr (Provisioned (issue_provisioning enc (provisioning_ttl cfg) now identity) identity))"

datatype provider_outcome = Identity provisioning | UnknownProvider | ProviderUnavailable | InvalidProviderToken

definition social :: "(json \<Rightarrow> string) \<Rightarrow> (string option \<Rightarrow> provider_outcome) \<Rightarrow> auth_settings \<Rightarrow> instant \<Rightarrow> string option \<Rightarrow> db \<Rightarrow> signin route" where
  "social enc verify_id_token cfg now nonce d =
     (if \<not> social_signin_enabled cfg then (Inl (Http 403), d)
      else if social_nonce_required cfg \<and> (nonce = None \<or> nonce = Some []) then (Inl (Http 401), d)
      else case verify_id_token nonce of
             UnknownProvider \<Rightarrow> (Inl (Http 400), d)
           | ProviderUnavailable \<Rightarrow> (Inl (Http 503), d)
           | InvalidProviderToken \<Rightarrow> (Inl (Http 401), d)
           | Identity identity \<Rightarrow>
               (case (if social_nonce_required cfg then consume_nonce now (the nonce) d else (True, d)) of
                  (ok, d1) \<Rightarrow>
                    if \<not> ok then (Inl (Http 401), d)
                    else case resolve_identity enc cfg now identity d1 of
                           Inl e \<Rightarrow> (Inl e, d)
                         | Inr out \<Rightarrow> (Inr out, d1)))"

definition social_claim :: "(json \<Rightarrow> string) \<Rightarrow> (instant \<Rightarrow> string \<Rightarrow> json option) \<Rightarrow> auth_settings \<Rightarrow> instant \<Rightarrow> ident \<Rightarrow> ident \<Rightarrow>
    string \<Rightarrow> string \<Rightarrow> string \<Rightarrow> db \<Rightarrow> signin route" where
  "social_claim enc dec cfg now user_id si provisioning_token handle display_name d =
     (case decode_provisioning dec now provisioning_token of
        Inl _ \<Rightarrow> (Inl (Http 401), d)
      | Inr pending \<Rightarrow>
          if pv_provider pending = ''passkey'' then (Inl (Http 401), d)
          else if \<not> social_signin_enabled cfg then (Inl (Http 403), d)
          else case require_may_provision_account cfg SocialDoor of
                 Inl e \<Rightarrow> (Inl e, d)
               | Inr _ \<Rightarrow>
                   (case create_social_user now user_id si (pv_provider pending) (pv_provider_sub pending) handle display_name (pv_email pending) d of
                      Inl _ \<Rightarrow> (Inl (Http 409), d)
                    | Inr (u, d') \<Rightarrow> (Inr (signed_in enc cfg now u), d')))"

subsection \<open>Passkeys\<close>

definition attestation_status :: "passkey_error \<Rightarrow> http_error" where
  "attestation_status e = (case e of InvalidJSONStructure \<Rightarrow> Http 400 | UnexpectedError \<Rightarrow> Http 500 | _ \<Rightarrow> Http 401)"

definition passkey_register_finish :: "(json \<Rightarrow> string) \<Rightarrow> (string \<Rightarrow> byte list) \<Rightarrow> (byte list \<Rightarrow> json \<Rightarrow> passkey_error + material) \<Rightarrow>
    auth_settings \<Rightarrow> instant \<Rightarrow> attempt list \<Rightarrow> string \<Rightarrow> json \<Rightarrow> db \<Rightarrow> signin route" where
  "passkey_register_finish enc unb64 attest cfg now attempts state credential d =
     (case require_may_provision_account cfg PasskeyDoor of
        Inl e \<Rightarrow> (Inl e, d)
      | Inr _ \<Rightarrow>
          (case consume_challenge unb64 now state REGISTER d of
             (None, _) \<Rightarrow> (Inl (Http 400), d)
           | (Some raw, d1) \<Rightarrow>
               (case attest raw credential of
                  Inl e \<Rightarrow> (Inl (attestation_status e), d)
                | Inr m \<Rightarrow>
                    (case create_passkey_account now m [] attempts d1 of
                       Inl HandleAllocationExhausted \<Rightarrow> (Inl (Http 503), d)
                     | Inl _ \<Rightarrow> (Inl (Http 409), d)
                     | Inr (u, d2) \<Rightarrow> (Inr (signed_in enc cfg now u), d2)))))"

definition passkey_add_finish :: "(string \<Rightarrow> byte list) \<Rightarrow> (byte list \<Rightarrow> json \<Rightarrow> passkey_error + material) \<Rightarrow> instant \<Rightarrow> ident \<Rightarrow>
    user \<Rightarrow> string \<Rightarrow> json \<Rightarrow> db \<Rightarrow> signin route" where
  "passkey_add_finish unb64 attest now pk u state credential d =
     (case consume_challenge unb64 now state REGISTER d of
        (None, _) \<Rightarrow> (Inl (Http 400), d)
      | (Some raw, d1) \<Rightarrow>
          (case attest raw credential of
             Inl e \<Rightarrow> (Inl (attestation_status e), d)
           | Inr m \<Rightarrow>
               (case link_passkey_credential now pk (u_id u) m d1 of
                  Inl _ \<Rightarrow> (Inl (Http 409), d)
                | Inr d2 \<Rightarrow> (Inr (Viewed u), d2))))"

definition touch_credential :: "string \<Rightarrow> int \<Rightarrow> instant \<Rightarrow> db \<Rightarrow> db" where
  "touch_credential credential_id new_count now d =
     d\<lparr>passkey_credentials := upd_where (\<lambda>c. pk_credential_id c = credential_id)
         (\<lambda>c. c\<lparr>pk_sign_count := new_count, pk_last_used_at := Some now\<rparr>) (passkey_credentials d)\<rparr>"

definition passkey_authenticate_finish :: "(json \<Rightarrow> string) \<Rightarrow> (string \<Rightarrow> byte list) \<Rightarrow> (json \<Rightarrow> 'a webauthn_outcome) \<Rightarrow> ('a \<Rightarrow> string) \<Rightarrow>
    (byte list \<Rightarrow> 'a \<Rightarrow> string \<Rightarrow> int \<Rightarrow> int webauthn_outcome) \<Rightarrow> auth_settings \<Rightarrow> instant \<Rightarrow> string \<Rightarrow> json \<Rightarrow> db \<Rightarrow> signin route" where
  "passkey_authenticate_finish enc unb64 parse credential_id_of verify cfg now state credential d =
     (case consume_challenge unb64 now state AUTHENTICATE d of
        (None, _) \<Rightarrow> (Inl (Http 400), d)
      | (Some raw, d1) \<Rightarrow>
          (case parse_assertion parse credential of
             Inl _ \<Rightarrow> (Inl (Http 400), d)
           | Inr assertion \<Rightarrow>
               (case get_credential (credential_id_of assertion) d1 of
                  None \<Rightarrow> (Inl (Http 401), d)
                | Some cred \<Rightarrow>
                    (case verify_authentication verify raw assertion (pk_public_key cred) (pk_sign_count cred) of
                       Inl InvalidAuthenticationResponse \<Rightarrow> (Inl (Http 401), d)
                     | Inl _ \<Rightarrow> (Inl (Http 500), d)
                     | Inr new_count \<Rightarrow>
                         (case get_user d1 (pk_user_id cred) of
                            None \<Rightarrow> (Inl (Http 401), d)
                          | Some u \<Rightarrow>
                              (case deny_if_banned u of
                                 Inl e \<Rightarrow> (Inl e, d)
                               | Inr _ \<Rightarrow> (Inr (signed_in enc cfg now u), touch_credential (pk_credential_id cred) new_count now d1)))))))"

definition refresh :: "(json \<Rightarrow> string) \<Rightarrow> (instant \<Rightarrow> string \<Rightarrow> json option) \<Rightarrow> auth_settings \<Rightarrow> instant \<Rightarrow> string \<Rightarrow> db \<Rightarrow> http_error + string" where
  "refresh enc dec cfg now refresh_token d =
     (case resolve_session_user dec now refresh_token ''refresh'' d of
        Inl InvalidSession \<Rightarrow> Inl (Http 401)
      | Inl SessionBanned \<Rightarrow> Inl AccountSuspended
      | Inr u \<Rightarrow> Inr (issue_access enc (access_ttl cfg) (u_id u) (u_token_generation u) now))"

subsection \<open>The OAuth broker\<close>

record broker =
  br_slug :: string
  br_supports_pkce :: bool

definition oauth_start :: "(byte list \<Rightarrow> byte list) \<Rightarrow> auth_settings \<Rightarrow> broker option \<Rightarrow> instant \<Rightarrow> byte list \<Rightarrow> string \<Rightarrow> string option \<Rightarrow> db \<Rightarrow>
    string route" where
  "oauth_start sha256 cfg prov now pkce_raw nonce app_challenge d =
     (if \<not> social_signin_enabled cfg then (Inl (Http 403), d)
      else case prov of
             None \<Rightarrow> (Inl (Http 404), d)
           | Some p \<Rightarrow>
               (case app_challenge of
                  None \<Rightarrow> (Inl (Http 400), d)
                | Some c \<Rightarrow>
                    if c = [] \<or> \<not> is_valid_app_challenge c then (Inl (Http 400), d)
                    else let verifier = (if br_supports_pkce p then Some (fst (make_pkce_pair sha256 pkce_raw)) else None)
                         in case create_state (state_ttl cfg * second) now (br_slug p, verifier, Some c) nonce d of
                              Inl _ \<Rightarrow> (Inl (Http 500), d)
                            | Inr d' \<Rightarrow> (Inr nonce, d')))"

datatype callback_answer = RedirectCode string | RedirectError string

datatype broker_outcome = Exchanged provisioning | BrokerInvalidExchange | BrokerUnavailable | BrokerError

definition callback_payload :: "signin \<Rightarrow> string \<Rightarrow> json" where
  "callback_payload out challenge =
     JObj ((case out of
              SignedIn _ _ u \<Rightarrow> [(''kind'', JStr ''authenticated''), (''user_id'', JStr (u_id u))]
            | Provisioned _ p \<Rightarrow> [(''kind'', JStr ''provisioning''), (''provider'', JStr (pv_provider p)),
                 (''provider_sub'', JStr (pv_provider_sub p)), (''suggested_name'', opt_str (pv_suggested_name p)),
                 (''email'', opt_str (pv_email p))]
            | Viewed _ \<Rightarrow> [])
           @ [(''app_challenge'', JStr challenge)])"

text \<open>What the callback does once the state is redeemed: the code exchange and its answer.\<close>

definition broker_tail :: "(json \<Rightarrow> string) \<Rightarrow> (json \<Rightarrow> string) \<Rightarrow> auth_settings \<Rightarrow> instant \<Rightarrow> string \<Rightarrow> broker_outcome \<Rightarrow> string \<Rightarrow> db \<Rightarrow>
    callback_answer route" where
  "broker_tail enc dumps cfg now handoff_code exchanged challenge d1 =
     (case exchanged of
        BrokerInvalidExchange \<Rightarrow> (Inr (RedirectError ''exchange_failed''), d1)
      | BrokerUnavailable \<Rightarrow> (Inr (RedirectError ''provider_unavailable''), d1)
      | BrokerError \<Rightarrow> (Inr (RedirectError ''oauth_failed''), d1)
      | Exchanged identity \<Rightarrow>
          (case resolve_identity enc cfg now identity d1 of
             Inl e \<Rightarrow> (Inl e, d1)
           | Inr out \<Rightarrow>
               (case create_handoff dumps (handoff_ttl cfg * second) now (callback_payload out challenge) handoff_code d1 of
                  Inl _ \<Rightarrow> (Inl (Http 500), d1)
                | Inr d2 \<Rightarrow> (Inr (RedirectCode handoff_code), d2))))"

definition oauth_callback :: "(json \<Rightarrow> string) \<Rightarrow> (json \<Rightarrow> string) \<Rightarrow> (string \<Rightarrow> string option \<Rightarrow> broker_outcome) \<Rightarrow> auth_settings \<Rightarrow> broker option \<Rightarrow>
    instant \<Rightarrow> string \<Rightarrow> string option \<Rightarrow> string option \<Rightarrow> string option \<Rightarrow> db \<Rightarrow> callback_answer route" where
  "oauth_callback enc dumps exchange_code cfg prov now handoff_code code state err d =
     (if \<not> social_signin_enabled cfg then (Inl (Http 403), d)
      else case prov of
             None \<Rightarrow> (Inl (Http 404), d)
           | Some p \<Rightarrow>
               if err \<noteq> None \<and> err \<noteq> Some [] then (Inr (RedirectError ''provider_denied''), d)
               else if code = None \<or> code = Some [] \<or> state = None \<or> state = Some [] then (Inr (RedirectError ''missing_code''), d)
               else (case consume_state now (the state) d of
                       (None, d1) \<Rightarrow> (Inr (RedirectError ''bad_state''), d1)
                     | (Some (provider, verifier, challenge), d1) \<Rightarrow>
                         if provider \<noteq> br_slug p then (Inr (RedirectError ''state_provider_mismatch''), d1)
                         else if challenge = None \<or> challenge = Some [] then (Inr (RedirectError ''bad_state''), d1)
                         else broker_tail enc dumps cfg now handoff_code (exchange_code (the code) verifier) (the challenge) d1))"

definition exchange_payload :: "(json \<Rightarrow> string) \<Rightarrow> auth_settings \<Rightarrow> instant \<Rightarrow> json \<Rightarrow> db \<Rightarrow> http_error + signin" where
  "exchange_payload enc cfg now payload d =
     (if str_of (jget ''kind'' payload) = Some ''authenticated''
      then (case str_of (jget ''user_id'' payload) of
              None \<Rightarrow> Inl (Http 401)
            | Some user_id \<Rightarrow>
                if user_id = [] then Inl (Http 401)
                else case get_user d user_id of
                       None \<Rightarrow> Inl (Http 401)
                     | Some u \<Rightarrow> (case deny_if_banned u of Inl e \<Rightarrow> Inl e | Inr _ \<Rightarrow> Inr (signed_in enc cfg now u)))
      else if str_of (jget ''kind'' payload) = Some ''provisioning''
      then (case (str_of (jget ''provider'' payload), str_of (jget ''provider_sub'' payload)) of
              (Some provider, Some provider_sub) \<Rightarrow>
                if provider = [] \<or> provider_sub = [] then Inl (Http 401)
                else let p = \<lparr>pv_provider = provider, pv_provider_sub = provider_sub,
                         pv_suggested_name = str_of (jget ''suggested_name'' payload), pv_email = str_of (jget ''email'' payload)\<rparr>
                     in Inr (Provisioned (issue_provisioning enc (provisioning_ttl cfg) now p) p)
            | _ \<Rightarrow> Inl (Http 401))
      else Inl (Http 401))"

text \<open>The code is burned whatever follows.\<close>

definition oauth_exchange :: "(json \<Rightarrow> string) \<Rightarrow> (string \<Rightarrow> json option) \<Rightarrow> (byte list \<Rightarrow> byte list) \<Rightarrow> auth_settings \<Rightarrow> instant \<Rightarrow> string \<Rightarrow>
    string option \<Rightarrow> db \<Rightarrow> signin route" where
  "oauth_exchange enc loads sha256 cfg now code app_verifier d =
     (if \<not> social_signin_enabled cfg then (Inl (Http 403), d)
      else case consume_handoff loads now code d of
             (None, d1) \<Rightarrow> (Inl (Http 401), d1)
           | (Some payload, d1) \<Rightarrow>
               (case str_of (jget ''app_challenge'' payload) of
                  Some challenge \<Rightarrow>
                    if challenge \<noteq> [] \<and> (app_verifier = None \<or> app_verifier = Some [] \<or> \<not> verify_app_challenge sha256 (the app_verifier) challenge)
                    then (Inl (Http 401), d1) else (exchange_payload enc cfg now payload d1, d1)
                | None \<Rightarrow> (exchange_payload enc cfg now payload d1, d1)))"

subsection \<open>The profile route\<close>

text \<open>Field limits apply to the text as sent, then it is stripped and must not be blank.\<close>

definition patch_field :: "nat \<Rightarrow> nat \<Rightarrow> string option \<Rightarrow> http_error + string option" where
  "patch_field lo hi v =
     (case v of
        None \<Rightarrow> Inr None
      | Some s \<Rightarrow> if length s < lo \<or> length s > hi \<or> py_strip s = [] then Inl (Http 422) else Inr (Some (py_strip s)))"

definition patch_me :: "auth_settings \<Rightarrow> instant \<Rightarrow> instant \<Rightarrow> user \<Rightarrow> string option \<Rightarrow> string option \<Rightarrow> db \<Rightarrow> signin route" where
  "patch_me cfg now clock u handle display_name d =
     (case (patch_field 1 64 handle, patch_field 0 128 display_name) of
        (Inr h, Inr n) \<Rightarrow>
          if h = None \<and> n = None then (Inl (Http 400), d)
          else (case update_profile (handle_cooldown cfg) now clock (u_id u) h n d of
                  Inl HandleTaken \<Rightarrow> (Inl (Http 409), d)
                | Inl AccountGone \<Rightarrow> (Inl (Http 401), d)
                | Inl (HandleChangeCooldown r) \<Rightarrow> (Inl (HttpRetry 429 r), d)
                | Inl _ \<Rightarrow> (Inl (Http 500), d)
                | Inr (u', d') \<Rightarrow> (Inr (Viewed u'), d'))
      | _ \<Rightarrow> (Inl (Http 422), d))"

section \<open>Every minted session is live\<close>

text \<open>The routes that answer with a session, one rule per route.\<close>

inductive mints :: "(json \<Rightarrow> string) \<Rightarrow> (instant \<Rightarrow> string \<Rightarrow> json option) \<Rightarrow> auth_settings \<Rightarrow> instant \<Rightarrow> db \<Rightarrow> signin \<Rightarrow> db \<Rightarrow> bool"
  for enc dec cfg now d where
  by_register: "register enc hash cfg now i un n pw d = (Inr out, d') \<Longrightarrow> mints enc dec cfg now d out d'"
| by_login: "login enc verify cfg now un pw d = (Inr out, d') \<Longrightarrow> mints enc dec cfg now d out d'"
| by_social: "social enc idt cfg now nonce d = (Inr out, d') \<Longrightarrow> mints enc dec cfg now d out d'"
| by_claim: "social_claim enc dec cfg now i si tok h n d = (Inr out, d') \<Longrightarrow> mints enc dec cfg now d out d'"
| by_passkey_register: "passkey_register_finish enc unb64 attest cfg now as st cr d = (Inr out, d') \<Longrightarrow>
    (\<forall>(race, _) \<in> set as. \<forall>x. auth_ok x \<longrightarrow> auth_ok (race x)) \<Longrightarrow> mints enc dec cfg now d out d'"
| by_passkey: "passkey_authenticate_finish enc unb64 (parse :: json \<Rightarrow> json webauthn_outcome) cid ver cfg now st cr d = (Inr out, d') \<Longrightarrow>
    mints enc dec cfg now d out d'"
| by_exchange: "oauth_exchange enc loads sha256 cfg now code v d = (Inr out, d') \<Longrightarrow> mints enc dec cfg now d out d'"

definition live :: "(json \<Rightarrow> string) \<Rightarrow> auth_settings \<Rightarrow> instant \<Rightarrow> signin \<Rightarrow> db \<Rightarrow> bool" where
  "live enc cfg now out d \<longleftrightarrow>
     (case out of
        SignedIn a r u \<Rightarrow> get_user d (u_id u) = Some u \<and> \<not> is_banned u \<and> out = signed_in enc cfg now u
      | _ \<Rightarrow> True)"

lemma live_signed_in: "get_user d (u_id u) = Some u \<Longrightarrow> \<not> is_banned u \<Longrightarrow> live enc cfg now (signed_in enc cfg now u) d"
  by (simp add: live_def signed_in_def)

lemma live_users: "users d' = users d \<Longrightarrow> live enc cfg now out d \<Longrightarrow> live enc cfg now out d'"
  by (simp add: live_def get_user_def split: signin.splits)

lemma get_user_id: "get_user d i = Some u \<Longrightarrow> u_id u = i"
  by (auto simp: get_user_def dest: find_SomeD)

lemma get_user_self: "get_user d i = Some u \<Longrightarrow> get_user d (u_id u) = Some u"
  using get_user_id by metis

lemma deny_ok: "deny_if_banned u = Inr x \<longleftrightarrow> \<not> is_banned u"
  by (simp add: deny_if_banned_def)

lemma authenticate_in: "auth_ok d \<Longrightarrow> authenticate verify un pw d = Some u \<Longrightarrow> get_user d (u_id u) = Some u"
  by (auto simp: authenticate_def get_user_def auth_ok_def dest!: find_SomeD intro: find_unique split: option.splits if_splits)

lemma resolve_identity_live: "resolve_identity enc cfg now p d = Inr out \<Longrightarrow> live enc cfg now out d"
  by (auto simp: resolve_identity_def get_user_by_social_def deny_if_banned_def live_def signed_in_def
      split: option.splits if_splits sum.splits intro: get_user_self)

lemma exchange_payload_live: "exchange_payload enc cfg now p d = Inr out \<Longrightarrow> live enc cfg now out d"
  by (auto simp: exchange_payload_def deny_if_banned_def live_def signed_in_def Let_def
      split: option.splits if_splits sum.splits intro: get_user_self)

lemma consume_users:
  "consume_challenge unb64 now s op d = (r, d1) \<Longrightarrow> users d1 = users d"
  "consume_nonce now n d = (b, d1) \<Longrightarrow> users d1 = users d"
  by (auto simp: consume_challenge_def consume_nonce_def Let_def)

lemma consume_auth_ok: "consume_challenge unb64 now s op d = (r, d1) \<Longrightarrow> auth_ok d \<Longrightarrow> auth_ok d1"
  by (auto simp: consume_challenge_def Let_def auth_ok_def)

lemma new_user_live: "insert_user (new_user now i h n ph e a) d = Inr d' \<Longrightarrow>
    live enc cfg now (signed_in enc cfg now (new_user now i h n ph e a)) d'"
  using get_user_insert [of "new_user now i h n ph e a" d d'] by (intro live_signed_in) (simp_all add: is_banned_def)

lemma social_live:
  assumes "social enc idt cfg now nonce d = (Inr out, d')"
  shows "live enc cfg now out d'"
proof -
  obtain d1 p where "resolve_identity enc cfg now p d1 = Inr out" "d' = d1"
    using assms by (auto simp: social_def split: if_splits provider_outcome.splits prod.splits sum.splits)
  then show ?thesis using resolve_identity_live by blast
qed

lemma passkey_register_live:
  assumes "auth_ok d" and "\<forall>(race, _) \<in> set as. \<forall>x. auth_ok x \<longrightarrow> auth_ok (race x)"
    and "passkey_register_finish enc unb64 attest cfg now as st cr d = (Inr out, d')"
  shows "live enc cfg now out d'"
proof -
  obtain raw d1 m u where c: "consume_challenge unb64 now st REGISTER d = (Some raw, d1)"
      "create_passkey_account now m [] as d1 = Inr (u, d')" "out = signed_in enc cfg now u"
    using assms(3) by (auto simp: passkey_register_finish_def split: sum.splits prod.splits option.splits users_error.splits)
  have "handle_attempts now m [] (take MAX_HANDLE_ATTEMPTS as) d1 = Inr (u, d')"
    using c(2) by (auto simp: create_passkey_account_def split: option.splits)
  moreover have "\<forall>(race, _) \<in> set (take MAX_HANDLE_ATTEMPTS as). \<forall>x. auth_ok x \<longrightarrow> auth_ok (race x)"
    using assms(2) by (blast dest: in_set_takeD)
  ultimately have "get_user d' (u_id u) = Some u" using handle_attempts_ok consume_auth_ok [OF c(1) assms(1)] by blast
  moreover have "\<not> is_banned u" using handle_attempts_fresh [OF \<open>handle_attempts now m [] _ d1 = Inr (u, d')\<close>] by (simp add: is_banned_def)
  ultimately show ?thesis using c(3) live_signed_in by simp
qed

lemma passkey_auth_live:
  assumes "passkey_authenticate_finish enc unb64 parse cid ver cfg now st cr d = (Inr out, d')"
  shows "live enc cfg now out d'"
proof -
  obtain raw d1 u n and cred :: passkey_credential where c: "consume_challenge unb64 now st AUTHENTICATE d = (Some raw, d1)"
      "get_user d1 (pk_user_id cred) = Some u" "\<not> is_banned u" "out = signed_in enc cfg now u"
      "d' = touch_credential (pk_credential_id cred) n now d1"
    using assms by (auto simp: passkey_authenticate_finish_def deny_if_banned_def
        split: sum.splits prod.splits option.splits if_splits passkey_error.splits)
  have "live enc cfg now out d1" using c get_user_self live_signed_in by blast
  then show ?thesis by (rule live_users [rotated]) (simp add: c(5) touch_credential_def)
qed

lemma mints_live:
  assumes "mints enc dec cfg now d out d'" and "auth_ok d"
  shows "live enc cfg now out d'"
  using assms(1)
proof cases
  case (by_register hash i un n pw)
  then show ?thesis by (auto simp: register_def create_user_def Let_def split: sum.splits intro: new_user_live)
next
  case (by_login verify un pw)
  then show ?thesis using authenticate_in [OF assms(2)]
    by (auto simp: login_def deny_if_banned_def split: option.splits sum.splits if_splits intro!: live_signed_in)
next
  case by_social then show ?thesis by (rule social_live)
next
  case (by_claim i si tok h n)
  then obtain p :: provisioning and u where u: "create_social_user now i si (pv_provider p) (pv_provider_sub p) h n (pv_email p) d = Inr (u, d')"
      "out = signed_in enc cfg now u"
    by (auto simp: social_claim_def split: sum.splits if_splits)
  then obtain d1 where "u = new_user now i h n None (pv_email p) False" "insert_user u d = Inr d1" "users d' = users d1"
    by (auto simp: create_social_user_def Let_def elim!: insert_social_cases split: sum.splits)
  then show ?thesis using u(2) new_user_live live_users by metis
next
  case by_passkey_register then show ?thesis using passkey_register_live [OF assms(2)] by blast
next
  case by_passkey then show ?thesis by (rule passkey_auth_live)
next
  case (by_exchange loads sha256 code v)
  then show ?thesis
    by (auto simp: oauth_exchange_def split: if_splits prod.splits option.splits intro: exchange_payload_live)
qed

text \<open>C13: no sign-in door mints a dead or a forbidden session. Whatever route answers with a
  session, password, social, claim, passkey or broker exchange, the account it names is
  there, is not banned and has the generation in the tokens; so the access token is accepted
  at the ingress for its lifetime and the refresh token yields another access token, both
  for that account.\<close>

theorem minted_sessions_live:
  assumes "mints enc dec cfg now d (SignedIn a r u) d'" and "auth_ok d" and "jwt_honest enc dec"
    and "u_id u \<noteq> []" and "0 \<le> u_token_generation u"
  shows "get_user d' (u_id u) = Some u \<and> \<not> is_banned u \<and>
    (\<forall>t. window_open (access_ttl cfg) now t \<longrightarrow> get_current_user dec t a d' = Inr u) \<and>
    (\<forall>t. window_open (refresh_ttl cfg) now t \<longrightarrow>
      refresh enc dec cfg t r d' = Inr (issue_access enc (access_ttl cfg) (u_id u) (u_token_generation u) t))"
proof -
  have l: "get_user d' (u_id u) = Some u" "\<not> is_banned u"
      "a = issue_access enc (access_ttl cfg) (u_id u) (u_token_generation u) now"
      "r = issue_refresh enc (refresh_ttl cfg) (u_id u) (u_token_generation u) now"
    using mints_live [OF assms(1,2)] by (auto simp: live_def signed_in_def)
  then show ?thesis using decode_issued [OF assms(3-5)]
    by (simp add: get_current_user_def refresh_def resolve_session_user_def issue_access_def issue_refresh_def)
qed

section \<open>The broker flow stays bound to the app that started it\<close>

lemma oauth_start_cases:
  assumes "oauth_start sha256 cfg prov now raw s ac d = (Inr n, d')"
  obtains c p v where "ac = Some c" "is_valid_app_challenge c" "n = s" "prov = Some p"
    "oauth_states d' = oauth_states d @ [\<lparr>st_nonce = s, st_provider = br_slug p, st_code_verifier = v, st_app_challenge = Some c,
       st_expires_at = now + state_ttl cfg * second, st_consumed = False, st_created_at = now\<rparr>]"
    "\<forall>r \<in> set (oauth_states d). st_nonce r \<noteq> s"
  using assms
  by (auto simp: oauth_start_def create_state_def list_ex_iff Let_def split: if_splits option.splits sum.splits)

lemma broker_tail_code:
  assumes "broker_tail enc dumps cfg now h x c d1 = (Inr (RedirectCode h'), d')"
  shows "\<exists>out. create_handoff dumps (handoff_ttl cfg * second) now (callback_payload out c) h d1 = Inr d' \<and> h' = h"
proof -
  obtain i where x: "x = Exchanged i" using assms by (cases x) (simp_all add: broker_tail_def)
  obtain out where out: "resolve_identity enc cfg now i d1 = Inr out"
    using assms x by (cases "resolve_identity enc cfg now i d1") (simp_all add: broker_tail_def)
  show ?thesis using assms x out
    by (cases "create_handoff dumps (handoff_ttl cfg * second) now (callback_payload out c) h d1")
      (auto simp: broker_tail_def)
qed

lemma oauth_callback_cases:
  assumes "oauth_callback enc dumps xc cfg prov now h code st err d = (Inr (RedirectCode h'), d')"
  obtains s pr v c d1 out where "st = Some s" "consume_state now s d = (Some (pr, v, Some c), d1)" "c \<noteq> []" "h' = h"
    "create_handoff dumps (handoff_ttl cfg * second) now (callback_payload out c) h d1 = Inr d'"
proof -
  obtain p where p: "prov = Some p" using assms by (cases prov) (simp_all add: oauth_callback_def split: if_splits)
  have g: "social_signin_enabled cfg" "(err \<noteq> None \<and> err \<noteq> Some []) = False" "(code = None \<or> code = Some [] \<or> st = None \<or> st = Some []) = False"
    using assms p by (auto simp: oauth_callback_def split: if_splits)
  then obtain s k where s: "st = Some s" "s \<noteq> []" and k: "code = Some k" "k \<noteq> []" by auto
  obtain res d1 where cs: "consume_state now s d = (res, d1)" by fastforce
  have eq: "(case res of None \<Rightarrow> (Inr (RedirectError ''bad_state''), d1)
      | Some (provider, verifier, challenge) \<Rightarrow>
          if provider \<noteq> br_slug p then (Inr (RedirectError ''state_provider_mismatch''), d1)
          else if challenge = None \<or> challenge = Some [] then (Inr (RedirectError ''bad_state''), d1)
          else broker_tail enc dumps cfg now h (xc (the code) verifier) (the challenge) d1) = (Inr (RedirectCode h'), d')"
    using assms unfolding oauth_callback_def p g(2) using g(1) s k cs by simp
  then have "\<exists>pr v c. res = Some (pr, v, Some c) \<and> c \<noteq> [] \<and>
      broker_tail enc dumps cfg now h (xc (the code) v) c d1 = (Inr (RedirectCode h'), d')"
    by (cases res) (auto split: if_splits)
  then obtain pr v c where res: "res = Some (pr, v, Some c)" "c \<noteq> []"
      "broker_tail enc dumps cfg now h (xc (the code) v) c d1 = (Inr (RedirectCode h'), d')"
    by blast
  from res(3) obtain out where "create_handoff dumps (handoff_ttl cfg * second) now (callback_payload out c) h d1 = Inr d'" "h' = h"
    using broker_tail_code by blast
  with that [OF s(1) _ res(2)] cs res(1) show thesis by simp
qed

lemma consume_state_row:
  assumes "consume_state now s d = (Some (pr, v, ac), d1)"
  shows "\<exists>r \<in> set (oauth_states d). st_nonce r = s \<and> st_app_challenge r = ac"
proof -
  let ?hit = "\<lambda>r. st_nonce r = s \<and> \<not> st_consumed r \<and> st_expires_at r > now" and ?burn = "\<lambda>r. r\<lparr>st_consumed := True\<rparr>"
  have "rowcount ?hit (oauth_states d) = 1" using assms by (simp add: consume_state_def Let_def split: if_splits)
  then obtain r where r: "find (\<lambda>r. st_nonce r = s) (upd_where ?hit ?burn (oauth_states d)) = Some r" "st_app_challenge r = ac"
    using assms by (cases "find (\<lambda>r. st_nonce r = s) (upd_where ?hit ?burn (oauth_states d))") (simp_all add: consume_state_def Let_def)
  from find_SomeD [OF r(1)] obtain r0 where "r0 \<in> set (oauth_states d)" "r = r0 \<or> r = ?burn r0" "st_nonce r = s"
    unfolding set_upd_where by (auto split: if_splits)
  then show ?thesis using r(2) by (intro bexI [of _ r0]) auto
qed

lemma consume_handoff_row:
  assumes "consume_handoff loads now h d = (Some p, d1)"
  shows "\<exists>r \<in> set (oauth_handoffs d). ho_code r = h \<and> loads (ho_payload r) = Some p"
proof -
  let ?hit = "\<lambda>r. ho_code r = h \<and> \<not> ho_consumed r \<and> ho_expires_at r > now" and ?burn = "\<lambda>r. r\<lparr>ho_consumed := True\<rparr>"
  have "rowcount ?hit (oauth_handoffs d) = 1" using assms by (simp add: consume_handoff_def Let_def split: if_splits)
  then obtain r where r: "find (\<lambda>r. ho_code r = h) (upd_where ?hit ?burn (oauth_handoffs d)) = Some r" "loads (ho_payload r) = Some p"
    using assms by (cases "find (\<lambda>r. ho_code r = h) (upd_where ?hit ?burn (oauth_handoffs d))") (simp_all add: consume_handoff_def Let_def)
  from find_SomeD [OF r(1)] obtain r0 where "r0 \<in> set (oauth_handoffs d)" "r = r0 \<or> r = ?burn r0" "ho_code r = h"
    unfolding set_upd_where by (auto split: if_splits)
  then show ?thesis using r(2) by (intro bexI [of _ r0]) auto
qed

lemma callback_payload_challenge: "str_of (jget ''app_challenge'' (callback_payload out c)) = Some c"
  by (cases out) (simp_all add: callback_payload_def)

text \<open>C14: a handoff code is useless without the verifier of the app that started the flow.
  Start, callback and exchange may lie any time apart, as long as the stored challenge and
  payload are not rewritten in between: an exchange that succeeds presents a verifier whose
  hash is the challenge given at the start.\<close>

theorem handoff_bound_to_app:
  assumes start: "oauth_start sha256 cfg prov t0 raw s (Some c) d0 = (Inr s, d1)"
    and kept1: "\<forall>r \<in> set (oauth_states d2). st_nonce r = s \<longrightarrow>
      (\<exists>r0 \<in> set (oauth_states d1). st_nonce r0 = s \<and> st_app_challenge r0 = st_app_challenge r)"
    and callback: "oauth_callback enc dumps xc cfg prov' t1 h code (Some s) err d2 = (Inr (RedirectCode h), d3)"
    and json: "\<And>p. loads (dumps p) = Some p"
    and kept2: "\<forall>r \<in> set (oauth_handoffs d4). ho_code r = h \<longrightarrow>
      (\<exists>r0 \<in> set (oauth_handoffs d3). ho_code r0 = h \<and> ho_payload r0 = ho_payload r)"
    and exchange: "oauth_exchange enc loads sha256 cfg t2 h v d4 = (Inr out, d5)"
  shows "\<exists>verifier. v = Some verifier \<and> app_challenge_for sha256 verifier = Some c"
proof -
  have r1: "st_app_challenge r = Some c" if "r \<in> set (oauth_states d1)" "st_nonce r = s" for r
    using start
  proof (cases rule: oauth_start_cases)
    case (1 c' p v)
    have "r \<in> set (oauth_states d0) \<or> st_app_challenge r = Some c'" using that(1) 1(5) by auto
    then show ?thesis using 1(1,6) that(2) by auto
  qed
  obtain pr w c' d2' o' where cb: "consume_state t1 s d2 = (Some (pr, w, Some c'), d2')" "c' \<noteq> []"
      "create_handoff dumps (handoff_ttl cfg * second) t1 (callback_payload o' c') h d2' = Inr d3"
    using callback by (elim oauth_callback_cases) auto
  have "c' = c" using consume_state_row [OF cb(1)] kept1 r1 by fastforce
  have "ho_payload r = dumps (callback_payload o' c)" if "r \<in> set (oauth_handoffs d3)" "ho_code r = h" for r
  proof -
    have new: "\<forall>r \<in> set (oauth_handoffs d2'). ho_code r \<noteq> h"
      using cb(3) by (auto simp: create_handoff_def list_ex_iff split: if_splits)
    have "oauth_handoffs d3 = oauth_handoffs d2' @ [\<lparr>ho_code = h, ho_payload = dumps (callback_payload o' c),
        ho_expires_at = t1 + handoff_ttl cfg * second, ho_consumed = False, ho_created_at = t1\<rparr>]"
      using cb(3) \<open>c' = c\<close> by (auto simp: create_handoff_def split: if_splits)
    then have "r \<in> set (oauth_handoffs d2') \<or> ho_payload r = dumps (callback_payload o' c)" using that(1) by auto
    then show ?thesis using new that(2) by auto
  qed
  then have pay: "loads (ho_payload r) = Some (callback_payload o' c)" if "r \<in> set (oauth_handoffs d4)" "ho_code r = h" for r
    using kept2 that json by metis
  obtain p d4' where ch: "consume_handoff loads t2 h d4 = (Some p, d4')"
    using exchange by (auto simp: oauth_exchange_def split: if_splits prod.splits option.splits)
  then have "p = callback_payload o' c" using consume_handoff_row [OF ch] pay by auto
  with ch exchange callback_payload_challenge [of o' c] cb(2) \<open>c' = c\<close> show ?thesis
    by (auto simp: oauth_exchange_def verify_app_challenge_def split: if_splits option.splits)
qed

section \<open>Witnesses\<close>

definition ex_settings :: auth_settings where
  "ex_settings = \<lparr>social_signin_enabled = True, social_nonce_required = True, open_registration = True, access_ttl = 60,
     refresh_ttl = 600, provisioning_ttl = 60, state_ttl = 60, handoff_ttl = 60, handle_cooldown = 60\<rparr>"

theorem minted_sessions_live_witness:
  "\<exists>a r u d. register ex_encode id ex_settings 5 ''u1'' ''ann'' ''Ann'' ''pw'' empty_db = (Inr (SignedIn a r u), d) \<and>
     get_current_user ex_decode 6 a d = Inr u \<and> get_user d ''u1'' = Some u"
proof -
  obtain a r u d where reg: "register ex_encode id ex_settings 5 ''u1'' ''ann'' ''Ann'' ''pw'' empty_db = (Inr (SignedIn a r u), d)"
      "u_id u = ''u1''" "u_token_generation u = 0"
    by (simp add: register_def require_may_provision_account_def ex_settings_def create_user_def insert_user_def
        signed_in_def new_user_def empty_db_def Let_def)
  have "auth_ok empty_db" by (simp add: auth_ok_def empty_db_def)
  from minted_sessions_live [OF mints.by_register [OF reg(1)] this ex_codec] reg(2,3)
  have "get_user d ''u1'' = Some u" "get_current_user ex_decode 6 a d = Inr u"
    by (auto simp: window_open_def ex_settings_def second_def)
  with reg(1) show ?thesis by blast
qed

definition ex_sha :: "byte list \<Rightarrow> byte list" where
  "ex_sha _ = replicate 32 0"

definition ex_broker :: "broker option" where
  "ex_broker = Some \<lparr>br_slug = ''github'', br_supports_pkce = False\<rparr>"

definition ex_identity :: provisioning where
  "ex_identity = \<lparr>pv_provider = ''github'', pv_provider_sub = ''7'', pv_suggested_name = None, pv_email = None\<rparr>"

definition ex_challenge :: string where
  "ex_challenge = b64url_nopad (replicate 32 0)"

definition ex_started :: db where
  "ex_started = empty_db\<lparr>oauth_states := [\<lparr>st_nonce = ''s'', st_provider = ''github'', st_code_verifier = None,
     st_app_challenge = Some ex_challenge, st_expires_at = 60 * second, st_consumed = False, st_created_at = 0\<rparr>]\<rparr>"

definition ex_payload :: json where
  "ex_payload = callback_payload (Provisioned (issue_provisioning ex_encode 60 1 ex_identity) ex_identity) ex_challenge"

definition ex_called_back :: db where
  "ex_called_back = empty_db\<lparr>oauth_states := [\<lparr>st_nonce = ''s'', st_provider = ''github'', st_code_verifier = None,
     st_app_challenge = Some ex_challenge, st_expires_at = 60 * second, st_consumed = True, st_created_at = 0\<rparr>],
     oauth_handoffs := [\<lparr>ho_code = ''h'', ho_payload = ex_encode ex_payload, ho_expires_at = 1 + 60 * second,
       ho_consumed = False, ho_created_at = 1\<rparr>]\<rparr>"

lemma ex_challenge_valid: "is_valid_app_challenge ex_challenge" "ex_challenge \<noteq> []"
proof -
  have "length ex_challenge = 43" by (simp add: ex_challenge_def length_b64url_nopad)
  then show "is_valid_app_challenge ex_challenge" "ex_challenge \<noteq> []"
    using set_b64url_nopad [of "replicate 32 0"] by (auto simp: is_valid_app_challenge_def list_all_iff ex_challenge_def)
qed

lemma ex_start: "oauth_start ex_sha ex_settings ex_broker 0 [] ''s'' (Some ex_challenge) empty_db = (Inr ''s'', ex_started)"
  using ex_challenge_valid
  by (simp add: oauth_start_def ex_settings_def ex_broker_def create_state_def empty_db_def ex_started_def)

lemma ex_callback: "oauth_callback ex_encode ex_encode (\<lambda>_ _. Exchanged ex_identity) ex_settings ex_broker 1 ''h'' (Some ''c'') (Some ''s'') None
    ex_started = (Inr (RedirectCode ''h''), ex_called_back)"
  using ex_challenge_valid(2)
  by (simp add: oauth_callback_def broker_tail_def ex_settings_def ex_broker_def consume_state_def Let_def empty_db_def ex_started_def rowcount_def second_def
      resolve_identity_def get_user_by_social_def create_handoff_def ex_called_back_def ex_payload_def)

theorem handoff_bound_to_app_witness:
  "\<exists>out d. oauth_exchange ex_encode (\<lambda>s. Some (from_nat (length s))) ex_sha ex_settings 2 ''h'' (Some ''v'') ex_called_back = (Inr out, d) \<and>
     app_challenge_for ex_sha ''v'' = Some ex_challenge"
proof -
  have jget: "str_of (jget ''app_challenge'' ex_payload) = Some ex_challenge" by (simp add: ex_payload_def callback_payload_challenge)
  have v: "verify_app_challenge ex_sha ''v'' ex_challenge"
    using set_b64url_nopad [of "replicate 32 0"]
    by (auto simp: verify_app_challenge_def app_challenge_for_def ascii_bytes_def ex_sha_def ex_challenge_def list_all_iff B64URL_ALPHABET_def)
  have "\<exists>out. exchange_payload ex_encode ex_settings 2 ex_payload d = Inr out" for d
    by (simp add: exchange_payload_def ex_payload_def callback_payload_def ex_identity_def Let_def)
  then obtain out d where ex: "oauth_exchange ex_encode (\<lambda>s. Some (from_nat (length s))) ex_sha ex_settings 2 ''h'' (Some ''v'') ex_called_back
      = (Inr out, d)"
    using v jget by (simp add: oauth_exchange_def ex_settings_def ex_called_back_def consume_handoff_def rowcount_def second_def ex_encode_def)
       blast
  have "\<exists>w. Some ''v'' = Some w \<and> app_challenge_for ex_sha w = Some ex_challenge"
    by (rule handoff_bound_to_app [OF ex_start _ ex_callback _ _ ex]) (auto simp: ex_encode_def)
  with ex show ?thesis by blast
qed

end
