(* ===== verification/PushResult.thy ===== *)
theory PushResult
  imports Model Complex_Main
begin

text \<open>The vocabulary the push router shares with its transports (\<open>domain/push_result.py\<close>):
  verdicts, reap orders, wake kinds and the content-free payload, with the one check a payload
  makes when it is built. A reap order's instant is aware by typing.\<close>

section \<open>Definitions\<close>

datatype verdict = DELIVERED | DEAD_TOKEN | REJECTED | TRANSIENT

datatype reap_order = ReapOrder "instant option"

record send_result =
  sr_verdict :: verdict
  sr_reap :: "reap_order option"

definition RING_CEILING_SECONDS :: int where
  "RING_CEILING_SECONDS = 30"

definition END_WAKE_EXPIRY_SECONDS :: int where
  "END_WAKE_EXPIRY_SECONDS = 300"

datatype wake_kind = CALL_INVITE | CALL_END

definition wake_value :: "wake_kind \<Rightarrow> string" where
  "wake_value k = (case k of CALL_INVITE \<Rightarrow> ''call_invite'' | CALL_END \<Rightarrow> ''call_end'')"

text \<open>\<open>[0-7][0-9A-HJKMNP-TV-Z]{25}\<close>, as a full match.\<close>

definition call_id_char :: "char \<Rightarrow> bool" where
  "call_id_char c \<longleftrightarrow> c \<in> set ''0123456789ABCDEFGHJKMNPQRSTVWXYZ''"

definition is_call_id :: "string \<Rightarrow> bool" where
  "is_call_id s \<longleftrightarrow> length s = 26 \<and> hd s \<in> set ''01234567'' \<and> list_all call_id_char (tl s)"

record wake_payload =
  wp_channel_id :: ident
  wp_kind :: wake_kind
  wp_call_id :: string

text \<open>The constructor with its \<open>__post_init__\<close>; None is the \<open>ValueError\<close>.\<close>

definition make_payload :: "ident \<Rightarrow> wake_kind \<Rightarrow> string \<Rightarrow> wake_payload option" where
  "make_payload channel_id kind call_id =
     (if \<not> is_call_id call_id then None
      else Some \<lparr>wp_channel_id = channel_id, wp_kind = kind, wp_call_id = call_id\<rparr>)"

text \<open>What an HTTP request to a push provider comes back with: a transport failure, or a status
  and the parsed body, None when it is no JSON.\<close>

datatype http_outcome = HttpFailed | Response int "json option"

end
