(* ===== verification/Decimal.thy ===== *)
theory Decimal
  imports RateLimit
begin

text \<open>Python's \<open>str(int)\<close> and \<open>int(str)\<close> on Latin-1 text: leading and trailing whitespace, one
  sign, decimal digits with single underscores between them, and the 4300-digit limit.\<close>

definition digit_char :: "nat \<Rightarrow> char" where
  "digit_char n = char_of (n + 48)"

definition is_digit :: "char \<Rightarrow> bool" where
  "is_digit c \<longleftrightarrow> 48 \<le> (of_char c :: nat) \<and> (of_char c :: nat) \<le> 57"

definition digit_val :: "char \<Rightarrow> nat" where
  "digit_val c = of_char c - 48"

fun nat_str :: "nat \<Rightarrow> string" where
  "nat_str n = (if n < 10 then [digit_char n] else nat_str (n div 10) @ [digit_char (n mod 10)])"

declare nat_str.simps [simp del]

definition int_str :: "int \<Rightarrow> string" where
  "int_str i = (if i < 0 then CHR ''-'' # nat_str (nat (- i)) else nat_str (nat i))"

definition MAX_STR_DIGITS :: nat where
  "MAX_STR_DIGITS = 4300"

text \<open>The flag says whether the previous character was a digit.\<close>

fun int_digits :: "bool \<Rightarrow> nat \<Rightarrow> string \<Rightarrow> nat option" where
  "int_digits prev acc [] = (if prev then Some acc else None)"
| "int_digits prev acc (c # cs) =
     (if is_digit c then int_digits True (10 * acc + digit_val c) cs
      else if c = CHR ''_'' \<and> prev then int_digits False acc cs else None)"

definition py_int_text :: "string \<Rightarrow> int option" where
  "py_int_text s =
     (let t = py_strip s in
      if length (filter is_digit t) > MAX_STR_DIGITS then None
      else case t of
             [] \<Rightarrow> None
           | c # cs \<Rightarrow>
               if c = CHR ''-'' then map_option (\<lambda>n. - int n) (int_digits False 0 cs)
               else if c = CHR ''+'' then map_option int (int_digits False 0 cs)
               else map_option int (int_digits False 0 t))"

section \<open>Round trip\<close>

lemma digit_char: "n < 10 \<Longrightarrow> of_char (digit_char n) = n + 48"
  by (simp add: digit_char_def)

lemma digit_char_facts:
  assumes "n < 10"
  shows "is_digit (digit_char n)" "digit_val (digit_char n) = n" "\<not> is_space (digit_char n)"
  using assms by (simp_all add: is_digit_def digit_val_def is_space_def digit_char)

lemma nat_str_digits: "list_all is_digit (nat_str n)" "nat_str n \<noteq> []"
proof -
  show "list_all is_digit (nat_str n)"
    by (induction n rule: nat_str.induct) (subst nat_str.simps, simp add: digit_char_facts)
  show "nat_str n \<noteq> []" by (subst nat_str.simps) simp
qed

lemma int_digits_append:
  "list_all is_digit xs \<Longrightarrow> xs \<noteq> [] \<Longrightarrow> int_digits p acc (xs @ ys) = int_digits True (foldl (\<lambda>a c. 10 * a + digit_val c) acc xs) ys"
proof (induction xs arbitrary: p acc)
  case (Cons x xs)
  show ?case
  proof (cases "xs = []")
    case True
    with Cons.prems show ?thesis by simp
  next
    case False
    with Cons.IH [of True "10 * acc + digit_val x"] Cons.prems show ?thesis by simp
  qed
qed simp

lemma foldl_nat_str: "foldl (\<lambda>a c. 10 * a + digit_val c) 0 (nat_str n) = n"
proof (induction n rule: nat_str.induct)
  case (1 n)
  show ?case
  proof (cases "n < 10")
    case True
    then show ?thesis by (subst nat_str.simps) (simp add: digit_char_facts)
  next
    case False
    from 1 [OF this] show ?thesis by (subst nat_str.simps) (simp add: False digit_char_facts)
  qed
qed

lemma int_digits_nat_str: "int_digits p 0 (nat_str n) = Some n"
  using int_digits_append [OF nat_str_digits, of p 0 n "[]"] by (simp add: foldl_nat_str)

lemma digit_not_space: "is_digit c \<Longrightarrow> \<not> is_space c"
  by (auto simp: is_digit_def is_space_def)

lemma py_strip_id: "list_all (\<lambda>c. \<not> is_space c) s \<Longrightarrow> py_strip s = s"
proof -
  assume "list_all (\<lambda>c. \<not> is_space c) s"
  then have "dropWhile is_space s = s" "dropWhile is_space (rev s) = rev s"
    by (auto simp: dropWhile_eq_self_iff list_all_iff hd_rev)
  then show ?thesis by (simp add: py_strip_def)
qed

lemma minus_char: "\<not> is_space (CHR ''-'')" "\<not> is_digit (CHR ''-'')" "\<not> is_digit (CHR ''+'')"
  by (simp_all add: is_space_def is_digit_def)

lemma int_str_strip: "py_strip (int_str i) = int_str i"
  using nat_str_digits(1) by (intro py_strip_id) (auto simp: int_str_def list_all_iff minus_char dest: digit_not_space)

lemma int_str_roundtrip:
  assumes "length (int_str i) \<le> MAX_STR_DIGITS"
  shows "py_int_text (int_str i) = Some i"
proof -
  have "\<not> length (filter is_digit (int_str i)) > MAX_STR_DIGITS"
    using assms length_filter_le [of is_digit "int_str i"] by linarith
  moreover have "hd (nat_str n) \<noteq> CHR ''-'' \<and> hd (nat_str n) \<noteq> CHR ''+''" for n
  proof -
    have "is_digit (hd (nat_str n))" using nat_str_digits [of n] by (cases "nat_str n") simp_all
    then show ?thesis using minus_char by metis
  qed
  moreover obtain c cs where "nat_str (nat i) = c # cs" using nat_str_digits(2) by (cases "nat_str (nat i)") auto
  ultimately show ?thesis using int_digits_nat_str [of False "nat i"] int_digits_nat_str [of False "nat (- i)"]
    unfolding py_int_text_def int_str_strip Let_def
    by (simp add: int_str_def) (metis list.sel(1))
qed

lemma py_int_text_garbage: "py_int_text ''--5'' = None"
  by (simp add: py_int_text_def py_strip_def is_space_def is_digit_def MAX_STR_DIGITS_def)

end
