(* ===== verification/Apns.thy ===== *)
theory Apns
  imports PushResult Decimal Messages
begin

text \<open>The APNs transport (\<open>domain/apns.py\<close>): the cached provider token, the routing tables of
  topics, hosts, lifetimes and collapse, the request and what each answer means. The clocks,
  the ES256 signature and the network are arguments.\<close>

section \<open>Definitions\<close>

definition PROD_HOST :: string where
  "PROD_HOST = ''https://api.push.apple.com''"

definition SANDBOX_HOST :: string where
  "SANDBOX_HOST = ''https://api.sandbox.push.apple.com''"

definition TOKEN_REFRESH_SECONDS :: int where
  "TOKEN_REFRESH_SECONDS = 50 * 60"

definition ALERT_EXPIRATION_SECONDS :: int where
  "ALERT_EXPIRATION_SECONDS = 60"

definition VOIP_LEASE_SECONDS :: int where
  "VOIP_LEASE_SECONDS = RING_CEILING_SECONDS"

definition VOIP_END_EXPIRATION_SECONDS :: int where
  "VOIP_END_EXPIRATION_SECONDS = END_WAKE_EXPIRY_SECONDS"

record apns_settings =
  apns_key_id :: string
  apns_team_id :: string
  apns_topic :: string
  apns_private_key :: string
  apns_voip_topic :: string

datatype apns_error = ApnsNotConfigured | UnroutedPush | ApnsRaised

definition apns_is_configured :: "apns_settings \<Rightarrow> bool" where
  "apns_is_configured cfg \<longleftrightarrow>
     apns_key_id cfg \<noteq> [] \<and> apns_team_id cfg \<noteq> [] \<and> apns_topic cfg \<noteq> [] \<and> apns_private_key cfg \<noteq> [] \<and> apns_voip_topic cfg \<noteq> []"

text \<open>The token and the monotonic instant it was minted at.\<close>

type_synonym token_cache = "(string \<times> real) option"

definition provider_token :: "(int \<Rightarrow> string option) \<Rightarrow> apns_settings \<Rightarrow> real \<Rightarrow> int \<Rightarrow> token_cache \<Rightarrow> (apns_error + string) \<times> token_cache" where
  "provider_token sign cfg now wall cache =
     (let mint = (if \<not> apns_is_configured cfg then (Inl ApnsNotConfigured, cache)
                  else case sign wall of
                         None \<Rightarrow> (Inl ApnsRaised, cache)
                       | Some token \<Rightarrow> (Inr token, Some (token, now)))
      in case cache of
           Some (token, minted) \<Rightarrow> if now - minted < of_int TOKEN_REFRESH_SECONDS then (Inr token, cache) else mint
         | None \<Rightarrow> mint)"

definition host_of :: "apns_environment \<Rightarrow> string" where
  "host_of e = (case e of SANDBOX \<Rightarrow> SANDBOX_HOST | PRODUCTION \<Rightarrow> PROD_HOST)"

definition topic_for :: "apns_settings \<Rightarrow> token_kind \<Rightarrow> string" where
  "topic_for cfg k = (case k of ALERT \<Rightarrow> apns_topic cfg | VOIP \<Rightarrow> apns_voip_topic cfg)"

definition render :: "wake_payload \<Rightarrow> json" where
  "render p =
     JObj [(''aps'', JObj [(''alert'', JObj [(''title'', JStr ''Incoming call''), (''body'', JStr ''Tap to join'')]),
             (''sound'', JStr ''default'')]),
           (''c'', JStr (wp_channel_id p)), (''k'', JStr (wake_value (wp_kind p))), (''m'', JStr (wp_call_id p))]"

text \<open>The lifetime of a push and whether it may collapse.\<close>

definition lifetime :: "token_kind \<Rightarrow> wake_kind \<Rightarrow> (int \<times> bool) option" where
  "lifetime k w =
     (case (k, w) of
        (ALERT, CALL_INVITE) \<Rightarrow> Some (ALERT_EXPIRATION_SECONDS, True)
      | (VOIP, CALL_INVITE) \<Rightarrow> Some (VOIP_LEASE_SECONDS, False)
      | (VOIP, CALL_END) \<Rightarrow> Some (VOIP_END_EXPIRATION_SECONDS, False)
      | (ALERT, CALL_END) \<Rightarrow> None)"

definition apns_verdict :: "int \<Rightarrow> verdict" where
  "apns_verdict status =
     (if status = 200 then DELIVERED
      else if status = 410 then DEAD_TOKEN
      else if status = 429 \<or> status \<ge> 500 then TRANSIENT
      else REJECTED)"

text \<open>Milliseconds to an instant; None when the datetime is out of range.\<close>

definition apns_reap_order :: "verdict \<Rightarrow> int option \<Rightarrow> reap_order option option" where
  "apns_reap_order v invalid_since_ms =
     (case invalid_since_ms of
        None \<Rightarrow> Some None
      | Some ms \<Rightarrow> if v \<noteq> DEAD_TOKEN then Some None else map_option (\<lambda>i. Some (ReapOrder (Some i))) (fromtimestamp (ms * 1000)))"

record apns_request =
  rq_url :: string
  rq_headers :: "(string \<times> string) list"
  rq_json :: json

definition apns_request_for :: "apns_settings \<Rightarrow> string \<Rightarrow> int \<Rightarrow> int \<Rightarrow> bool \<Rightarrow> string \<Rightarrow> wake_payload \<Rightarrow> apns_environment \<Rightarrow> token_kind \<Rightarrow>
    string option \<Rightarrow> apns_request" where
  "apns_request_for cfg provider wall expires_in may_collapse device_token p e k collapse_id =
     \<lparr>rq_url = host_of e @ ''/3/device/'' @ device_token,
      rq_headers =
        [(''authorization'', ''bearer '' @ provider), (''apns-topic'', topic_for cfg k), (''apns-push-type'', token_kind_value k),
         (''apns-priority'', ''10''), (''apns-expiration'', int_str (wall + expires_in))]
        @ (case collapse_id of Some c \<Rightarrow> if may_collapse then [(''apns-collapse-id'', take 64 c)] else [] | None \<Rightarrow> []),
      rq_json = render p\<rparr>"

text \<open>The answer. A JSON body that is no object raises on \<open>body.get\<close>.\<close>

definition apns_answer :: "http_outcome \<Rightarrow> apns_error + send_result" where
  "apns_answer http =
     (case http of
        HttpFailed \<Rightarrow> Inr \<lparr>sr_verdict = TRANSIENT, sr_reap = None\<rparr>
      | Response status raw \<Rightarrow>
          if status = 200 then Inr \<lparr>sr_verdict = DELIVERED, sr_reap = None\<rparr>
          else
            let v = apns_verdict status in
            case raw of
              None \<Rightarrow> Inr \<lparr>sr_verdict = v, sr_reap = None\<rparr>
            | Some (JObj kvs) \<Rightarrow>
                (case apns_reap_order v (case map_of kvs ''timestamp'' of Some (JInt ms) \<Rightarrow> Some ms | _ \<Rightarrow> None) of
                   None \<Rightarrow> Inl ApnsRaised
                 | Some order \<Rightarrow> Inr \<lparr>sr_verdict = v, sr_reap = order\<rparr>)
            | Some _ \<Rightarrow> Inl ApnsRaised)"

definition apns_send :: "(int \<Rightarrow> string option) \<Rightarrow> (apns_request \<Rightarrow> http_outcome) \<Rightarrow> apns_settings \<Rightarrow> real \<Rightarrow> int \<Rightarrow> string \<Rightarrow> wake_payload \<Rightarrow>
    apns_environment \<Rightarrow> token_kind \<Rightarrow> string option \<Rightarrow> token_cache \<Rightarrow> (apns_error + send_result) \<times> token_cache" where
  "apns_send sign post cfg now wall device_token p e k collapse_id cache =
     (if \<not> apns_is_configured cfg then (Inl ApnsNotConfigured, cache)
      else case lifetime k (wp_kind p) of
             None \<Rightarrow> (Inl UnroutedPush, cache)
           | Some (expires_in, may_collapse) \<Rightarrow>
               (case provider_token sign cfg now wall cache of
                  (Inl err, cache') \<Rightarrow> (Inl err, cache')
                | (Inr provider, cache') \<Rightarrow>
                    (apns_answer (post (apns_request_for cfg provider wall expires_in may_collapse device_token p e k collapse_id)), cache')))"

section \<open>What a push carries and when a row is reaped\<close>

text \<open>The token in use is always younger than its refresh age.\<close>

lemma provider_token_fresh:
  assumes "provider_token sign cfg now wall cache = (Inr tok, cache')"
  shows "\<exists>minted. cache' = Some (tok, minted) \<and> now - minted < of_int TOKEN_REFRESH_SECONDS"
  using assms by (auto simp: provider_token_def Let_def TOKEN_REFRESH_SECONDS_def split: option.splits if_splits)

lemma apns_answer_reap:
  assumes "apns_answer http = Inr r" and "sr_reap r \<noteq> None"
  shows "\<exists>kvs ms. http = Response 410 (Some (JObj kvs)) \<and> map_of kvs ''timestamp'' = Some (JInt ms) \<and>
    sr_reap r = Some (ReapOrder (Some (ms * 1000)))"
proof (cases http)
  case HttpFailed
  then show ?thesis using assms by (auto simp: apns_answer_def)
next
  case (Response status raw)
  then have status: "status \<noteq> 200" using assms by (auto simp: apns_answer_def)
  obtain kvs where raw: "raw = Some (JObj kvs)"
    using assms Response status by (auto simp: apns_answer_def Let_def split: option.splits json.splits)
  let ?ts = "case map_of kvs ''timestamp'' of Some (JInt ms) \<Rightarrow> Some ms | _ \<Rightarrow> None"
  have o: "apns_reap_order (apns_verdict status) ?ts = Some (sr_reap r)"
    using assms Response status raw by (auto simp: apns_answer_def Let_def split: option.splits)
  then obtain ms where ms: "?ts = Some ms" using assms(2) by (cases ?ts) (auto simp: apns_reap_order_def)
  have "map_of kvs ''timestamp'' = Some (JInt ms)" using ms by (auto split: option.splits json.splits)
  moreover have "apns_verdict status = DEAD_TOKEN"
    using o ms assms(2) by (auto simp: apns_reap_order_def split: if_splits)
  then have "status = 410" by (auto simp: apns_verdict_def split: if_splits)
  moreover have "sr_reap r = Some (ReapOrder (Some (ms * 1000)))"
    using o ms assms(2) by (auto simp: apns_reap_order_def fromtimestamp_def split: if_splits)
  ultimately show ?thesis using Response raw by auto
qed

text \<open>A push goes to the host of the environment the token was minted in, under the topic of
  its kind; one that rings (a VoIP push) never collapses and expires with the ring, and a row
  is ordered dead only on a 410 that dates the death, the order carrying that instant.\<close>

theorem apns_push_routed:
  assumes "apns_send sign post cfg now wall tok p e k collapse cache = (Inr r, cache')"
  shows "\<exists>rq. rq_url rq = host_of e @ ''/3/device/'' @ tok \<and> map_of (rq_headers rq) ''apns-topic'' = Some (topic_for cfg k) \<and>
    (k = VOIP \<longrightarrow> map_of (rq_headers rq) ''apns-collapse-id'' = None) \<and>
    (k = VOIP \<and> wp_kind p = CALL_INVITE \<longrightarrow> map_of (rq_headers rq) ''apns-expiration'' = Some (int_str (wall + RING_CEILING_SECONDS))) \<and>
    (sr_reap r \<noteq> None \<longrightarrow> (\<exists>kvs ms. post rq = Response 410 (Some (JObj kvs)) \<and> map_of kvs ''timestamp'' = Some (JInt ms) \<and>
       sr_reap r = Some (ReapOrder (Some (ms * 1000)))))"
proof -
  have conf: "apns_is_configured cfg" using assms by (cases "apns_is_configured cfg") (simp_all add: apns_send_def)
  obtain x mc where l: "lifetime k (wp_kind p) = Some (x, mc)"
    using assms conf by (cases "lifetime k (wp_kind p)") (auto simp: apns_send_def)
  obtain pt c where "provider_token sign cfg now wall cache = (pt, c)" by fastforce
  then obtain provider where pt: "provider_token sign cfg now wall cache = (Inr provider, c)"
    using assms conf l by (cases pt) (simp_all add: apns_send_def)
  let ?rq = "apns_request_for cfg provider wall x mc tok p e k collapse"
  have ans: "apns_answer (post ?rq) = Inr r" using assms conf l pt by (simp add: apns_send_def)
  show ?thesis
  proof (rule exI [of _ ?rq], intro conjI impI)
    show "rq_url ?rq = host_of e @ ''/3/device/'' @ tok" "map_of (rq_headers ?rq) ''apns-topic'' = Some (topic_for cfg k)"
      by (simp_all add: apns_request_for_def)
    show "map_of (rq_headers ?rq) ''apns-collapse-id'' = None" if "k = VOIP"
      using that l by (auto simp: lifetime_def apns_request_for_def split: wake_kind.splits option.splits)
    show "map_of (rq_headers ?rq) ''apns-expiration'' = Some (int_str (wall + RING_CEILING_SECONDS))" if "k = VOIP \<and> wp_kind p = CALL_INVITE"
      using that l by (simp add: lifetime_def apns_request_for_def VOIP_LEASE_SECONDS_def)
    assume "sr_reap r \<noteq> None"
    then show "\<exists>kvs ms. post ?rq = Response 410 (Some (JObj kvs)) \<and> map_of kvs ''timestamp'' = Some (JInt ms) \<and>
       sr_reap r = Some (ReapOrder (Some (ms * 1000)))" by (rule apns_answer_reap [OF ans])
  qed
qed

section \<open>Witnesses\<close>

definition ex_apns :: apns_settings where
  "ex_apns = \<lparr>apns_key_id = ''k'', apns_team_id = ''t'', apns_topic = ''app'', apns_private_key = ''p'', apns_voip_topic = ''app.voip''\<rparr>"

end
