(* ===== verification/Fcm.thy ===== *)
theory Fcm
  imports PushResult Decimal
begin

text \<open>The FCM transport (\<open>domain/fcm.py\<close>): the authentication state machine whose only writer is
  \<open>transition\<close>, the classification of the provider's answers, the single-flight mint and the
  send. The monotonic clock is a real number given to each operation; what other sends commit
  to the state while a mint is awaited, the answers of the network, the signing step and
  Python's \<open>int(float)\<close> are arguments.\<close>

section \<open>Definitions\<close>

definition ASSERTION_TTL_SECONDS :: int where
  "ASSERTION_TTL_SECONDS = 3600"

definition ACCESS_TOKEN_SKEW_SECONDS :: int where
  "ACCESS_TOKEN_SKEW_SECONDS = 300"

definition OAUTH_FAILURE_BACKOFF_SECONDS :: int where
  "OAUTH_FAILURE_BACKOFF_SECONDS = 60"

definition GRANT_BACKOFF_BASE_SECONDS :: int where
  "GRANT_BACKOFF_BASE_SECONDS = 10"

definition DENIED_BACKOFF_BASE_SECONDS :: int where
  "DENIED_BACKOFF_BASE_SECONDS = 60"

definition BACKOFF_CAP_SECONDS :: int where
  "BACKOFF_CAP_SECONDS = 900"

definition TTL_SECONDS_OF :: "wake_kind \<Rightarrow> int" where
  "TTL_SECONDS_OF k = (case k of CALL_INVITE \<Rightarrow> RING_CEILING_SECONDS | CALL_END \<Rightarrow> END_WAKE_EXPIRY_SECONDS)"

subsection \<open>The state machine\<close>

datatype phase = Empty | Cached string real | MintBackoff real | SendDenied real

text \<open>\<open>since\<close> starts at minus infinity, here None.\<close>

record auth_state =
  as_phase :: phase
  as_strikes :: int
  as_since :: "real option"

definition INITIAL :: auth_state where
  "INITIAL = \<lparr>as_phase = Empty, as_strikes = 0, as_since = None\<rparr>"

datatype mint_failure = BadCredential | Unreadable | BadGrant

datatype event =
    Minted string real
  | MintFailed mint_failure
  | Blinked
  | Refused string
  | Denied real
  | Delivered
  | DeviceLocal
  | Tick
  | Unclassified int string

definition grow :: "int \<Rightarrow> int \<Rightarrow> real" where
  "grow base strikes = of_int (min (base * 2 ^ nat (min (max (strikes - 1) 0) 16)) BACKOFF_CAP_SECONDS)"

definition enter :: "phase \<Rightarrow> int \<Rightarrow> real \<Rightarrow> auth_state" where
  "enter p strikes now = \<lparr>as_phase = p, as_strikes = strikes, as_since = Some now\<rparr>"

definition tick :: "auth_state \<Rightarrow> real \<Rightarrow> auth_state" where
  "tick st now =
     (case as_phase st of
        Cached _ expires_at \<Rightarrow> if now \<ge> expires_at then enter Empty (as_strikes st) now else st
      | MintBackoff until \<Rightarrow> if now \<ge> until then enter Empty (as_strikes st) now else st
      | SendDenied until \<Rightarrow> if now \<ge> until then enter Empty (as_strikes st) now else st
      | Empty \<Rightarrow> st)"

definition is_denied :: "phase \<Rightarrow> bool" where
  "is_denied p = (case p of SendDenied _ \<Rightarrow> True | _ \<Rightarrow> False)"

definition transition :: "auth_state \<Rightarrow> event \<Rightarrow> real \<Rightarrow> auth_state" where
  "transition st ev now =
     (if ev = Tick then tick st now
      else if is_denied (as_phase st) then st
      else case ev of
             Minted token expires_at \<Rightarrow> enter (Cached token expires_at) (as_strikes st) now
           | MintFailed kind \<Rightarrow>
               let strikes = as_strikes st + 1;
                   until = (if kind = BadGrant then now + grow GRANT_BACKOFF_BASE_SECONDS strikes
                            else now + of_int OAUTH_FAILURE_BACKOFF_SECONDS)
               in enter (MintBackoff until) strikes now
           | Denied sent_at \<Rightarrow>
               if (case as_since st of Some s \<Rightarrow> sent_at < s | None \<Rightarrow> False) then st
               else let strikes = as_strikes st + 1
                    in enter (SendDenied (now + grow DENIED_BACKOFF_BASE_SECONDS strikes)) strikes now
           | Refused bearer \<Rightarrow>
               (case as_phase st of
                  Cached token _ \<Rightarrow> if token = bearer then enter Empty (as_strikes st) now else st
                | _ \<Rightarrow> st)
           | Delivered \<Rightarrow>
               (case as_phase st of
                  MintBackoff _ \<Rightarrow> st
                | _ \<Rightarrow> st\<lparr>as_strikes := 0\<rparr>)
           | _ \<Rightarrow> st)"

datatype action = Have string | Mint | Silent

definition get :: "auth_state \<Rightarrow> action" where
  "get st = (case as_phase st of Cached token _ \<Rightarrow> Have token | Empty \<Rightarrow> Mint | _ \<Rightarrow> Silent)"

text \<open>A history: events with the clock reading at which each is applied.\<close>

fun fcm_run :: "(event \<times> real) list \<Rightarrow> auth_state \<Rightarrow> auth_state" where
  "fcm_run [] st = st"
| "fcm_run ((ev, t) # es) st = fcm_run es (transition st ev t)"

subsection \<open>Classification\<close>

text \<open>\<open>int(x)\<close> of a JSON value: None when it raises \<open>TypeError\<close> or \<open>ValueError\<close>, \<open>Some None\<close> when it
  raises \<open>OverflowError\<close>, which an infinite float does.\<close>

definition int_of_json :: "(string \<Rightarrow> int option option) \<Rightarrow> json \<Rightarrow> int option option" where
  "int_of_json int_of_float j =
     (case j of
        JInt i \<Rightarrow> Some (Some i)
      | JBool b \<Rightarrow> Some (Some (if b then 1 else 0))
      | JFloat f \<Rightarrow> int_of_float f
      | JStr s \<Rightarrow> map_option Some (py_int_text s)
      | _ \<Rightarrow> None)"

text \<open>The integers that a double can hold after rounding; adding a larger one to a float raises
  \<open>OverflowError\<close> too.\<close>

definition float_range :: "int \<Rightarrow> bool" where
  "float_range i \<longleftrightarrow> i < 2 ^ 1024 - 2 ^ 970"

text \<open>None is an exception that leaves \<open>classify_mint\<close>.\<close>

definition classify_mint :: "(string \<Rightarrow> int option option) \<Rightarrow> int \<Rightarrow> json \<Rightarrow> real \<Rightarrow> event option" where
  "classify_mint int_of_float status body now =
     (if status = 429 \<or> status \<ge> 500 then Some Blinked
      else if status = 200 then
        (case body of
           JObj _ \<Rightarrow>
             (case jget ''access_token'' body of
                Some (JStr token) \<Rightarrow>
                  if token = [] then Some (MintFailed Unreadable)
                  else (case int_of_json int_of_float (case jget ''expires_in'' body of Some j \<Rightarrow> j | None \<Rightarrow> JInt ASSERTION_TTL_SECONDS) of
                          None \<Rightarrow> Some (MintFailed Unreadable)
                        | Some None \<Rightarrow> None
                        | Some (Some expires_in) \<Rightarrow>
                            let lease = max (expires_in - ACCESS_TOKEN_SKEW_SECONDS) 0
                            in if float_range lease then Some (Minted token (now + of_int lease)) else None)
              | _ \<Rightarrow> Some (MintFailed Unreadable))
         | _ \<Rightarrow> Some (MintFailed Unreadable))
      else if status = 400 \<and> jget ''error'' body = Some (JStr ''invalid_grant'') then Some (MintFailed BadGrant)
      else Some (MintFailed Unreadable))"

definition FCM_ERROR_TYPE :: string where
  "FCM_ERROR_TYPE = ''type.googleapis.com/google.firebase.fcm.v1.FcmError''"

fun first_error_code :: "json list \<Rightarrow> string" where
  "first_error_code [] = []"
| "first_error_code (detail # details) =
     (if jget ''@type'' detail = Some (JStr FCM_ERROR_TYPE)
      then (case jget ''errorCode'' detail of Some (JStr code) \<Rightarrow> code | _ \<Rightarrow> [])
      else first_error_code details)"

definition fcm_error_code :: "json \<Rightarrow> string" where
  "fcm_error_code body =
     (case jget ''error'' body of
        Some err \<Rightarrow> (case jget ''details'' err of Some (JList details) \<Rightarrow> first_error_code details | _ \<Rightarrow> [])
      | None \<Rightarrow> [])"

definition DEVICE_LOCAL_CODES :: "string list" where
  "DEVICE_LOCAL_CODES = [''UNREGISTERED'', ''SENDER_ID_MISMATCH'', ''INVALID_ARGUMENT'']"

definition classify_send :: "int \<Rightarrow> json \<Rightarrow> string \<Rightarrow> real \<Rightarrow> event" where
  "classify_send status body bearer sent_at =
     (if status = 200 then Delivered
      else if status = 429 \<or> status \<ge> 500 then Blinked
      else if status = 401 then Refused bearer
      else
        let code = fcm_error_code body in
        if code \<in> set DEVICE_LOCAL_CODES then DeviceLocal
        else if status = 403 \<and> (case jget ''error'' body of Some err \<Rightarrow> jget ''status'' err | None \<Rightarrow> None) = Some (JStr ''PERMISSION_DENIED'') \<and> code = []
             then Denied sent_at
             else Unclassified status code)"

definition fcm_verdict :: "int \<Rightarrow> string \<Rightarrow> verdict" where
  "fcm_verdict status error_code =
     (if status = 200 then DELIVERED
      else if error_code = ''UNREGISTERED'' then DEAD_TOKEN
      else if status = 429 \<or> status \<ge> 500 then TRANSIENT
      else REJECTED)"

definition reap_order_for :: "verdict \<Rightarrow> reap_order option" where
  "reap_order_for v = (if v = DEAD_TOKEN then Some (ReapOrder None) else None)"

subsection \<open>Minting and sending\<close>

text \<open>An answer that is no JSON is read as Python's None, as a JSON null is.\<close>

definition body_or_none :: "json option \<Rightarrow> json" where
  "body_or_none raw = (case raw of Some j \<Rightarrow> j | None \<Rightarrow> JNull)"

text \<open>One mint: whether the task ends in an exception, and the state. \<open>assertion\<close> is None when
  the credential cannot be parsed or signed with; \<open>t1\<close> and \<open>t2\<close> are the clock when the answer
  is read and when the event is applied.\<close>

definition mint_once :: "(string \<Rightarrow> int option option) \<Rightarrow> string option \<Rightarrow> http_outcome \<Rightarrow> real \<Rightarrow> real \<Rightarrow> auth_state \<Rightarrow> bool \<times> auth_state" where
  "mint_once int_of_float assertion http t1 t2 st =
     (case assertion of
        None \<Rightarrow> (False, transition st (MintFailed BadCredential) t2)
      | Some _ \<Rightarrow>
          (case http of
             HttpFailed \<Rightarrow> (False, transition st Blinked t2)
           | Response status raw \<Rightarrow>
               (case classify_mint int_of_float status (body_or_none raw) t1 of
                  None \<Rightarrow> (True, st)
                | Some ev \<Rightarrow> (False, transition st ev t2))))"

text \<open>\<open>before\<close> and \<open>after\<close> are the events other tasks apply while this one awaits the shared
  mint, up to its completion and from there to this task's resumption.\<close>

definition access_token :: "real \<Rightarrow> (auth_state \<Rightarrow> bool \<times> auth_state) \<Rightarrow> (event \<times> real) list \<Rightarrow> (event \<times> real) list \<Rightarrow> auth_state \<Rightarrow>
    string option \<times> auth_state" where
  "access_token now mint before after st =
     (let st1 = transition st Tick now in
      case get st1 of
        Have token \<Rightarrow> (Some token, st1)
      | Silent \<Rightarrow> (None, st1)
      | Mint \<Rightarrow>
          (case mint (fcm_run before st1) of
             (raised, st2) \<Rightarrow>
               let st3 = fcm_run after st2 in
               if raised then (None, st3)
               else (case get st3 of Have token \<Rightarrow> (Some token, st3) | _ \<Rightarrow> (None, st3))))"

definition auth_status :: "auth_state \<Rightarrow> real \<Rightarrow> bool option \<times> string \<times> int" where
  "auth_status st now =
     (let st' = transition st Tick now in
      case as_phase st' of
        Cached _ _ \<Rightarrow> (Some True, ''cached'', as_strikes st')
      | Empty \<Rightarrow> (None, ''empty'', as_strikes st')
      | MintBackoff _ \<Rightarrow> (Some False, ''mint_backoff'', as_strikes st')
      | SendDenied _ \<Rightarrow> (Some False, ''send_denied'', as_strikes st'))"

definition build_message :: "string \<Rightarrow> wake_payload \<Rightarrow> json" where
  "build_message device_token p =
     JObj [(''message'', JObj [(''token'', JStr device_token),
       (''data'', JObj [(''c'', JStr (wp_channel_id p)), (''k'', JStr (wake_value (wp_kind p))), (''m'', JStr (wp_call_id p))]),
       (''android'', JObj [(''priority'', JStr ''HIGH''), (''ttl'', JStr (int_str (TTL_SECONDS_OF (wp_kind p)) @ ''s''))])])]"

definition send_url :: "string \<Rightarrow> string" where
  "send_url project_id = ''https://fcm.googleapis.com/v1/projects/'' @ project_id @ ''/messages:send''"

definition bearer_header :: "string \<Rightarrow> string" where
  "bearer_header token = ''Bearer '' @ token"

datatype fcm_error = NotConfigured | SendRaised

text \<open>\<open>project\<close> is the credential's project id, None when the blob has none; \<open>during\<close> is what
  other sends apply while the request is under way.\<close>

definition fcm_send :: "bool \<Rightarrow> string option \<Rightarrow> real \<Rightarrow> (auth_state \<Rightarrow> bool \<times> auth_state) \<Rightarrow> (event \<times> real) list \<Rightarrow> (event \<times> real) list \<Rightarrow>
    real \<Rightarrow> (string \<Rightarrow> json \<Rightarrow> string \<Rightarrow> http_outcome) \<Rightarrow> (event \<times> real) list \<Rightarrow> real \<Rightarrow> string \<Rightarrow> wake_payload \<Rightarrow> auth_state \<Rightarrow>
    (fcm_error + send_result) \<times> auth_state" where
  "fcm_send configured project now mint before after sent_at post during t device_token payload st =
     (if \<not> configured then (Inl NotConfigured, st)
      else case access_token now mint before after st of
             (None, st1) \<Rightarrow> (Inr \<lparr>sr_verdict = TRANSIENT, sr_reap = None\<rparr>, st1)
           | (Some token, st1) \<Rightarrow>
               (case project of
                  None \<Rightarrow> (Inl SendRaised, st1)
                | Some project_id \<Rightarrow>
                    let st2 = fcm_run during st1 in
                    case post (send_url project_id) (build_message device_token payload) (bearer_header token) of
                      HttpFailed \<Rightarrow> (Inr \<lparr>sr_verdict = TRANSIENT, sr_reap = None\<rparr>, transition st2 Blinked t)
                    | Response status raw \<Rightarrow>
                        let body = body_or_none raw;
                            ev = classify_send status body token sent_at;
                            st3 = transition st2 ev t in
                        if status = 200 then (Inr \<lparr>sr_verdict = DELIVERED, sr_reap = None\<rparr>, st3)
                        else let v = (case ev of Denied _ \<Rightarrow> TRANSIENT | Refused _ \<Rightarrow> TRANSIENT | _ \<Rightarrow> fcm_verdict status (fcm_error_code body))
                             in (Inr \<lparr>sr_verdict = v, sr_reap = reap_order_for v\<rparr>, st3)))"

section \<open>Silence is bounded and earned\<close>

lemma transition_simps [simp]:
  "transition st Blinked now = st" "transition st DeviceLocal now = st" "transition st (Unclassified s c) now = st"
  "transition st Tick now = tick st now"
  by (simp_all add: transition_def)

lemma grow_le: "grow base strikes \<le> 900"
  by (simp add: grow_def BACKOFF_CAP_SECONDS_def)

definition silent_until :: "auth_state \<Rightarrow> real \<Rightarrow> bool" where
  "silent_until st u \<longleftrightarrow> as_phase st = MintBackoff u \<or> as_phase st = SendDenied u"

definition account_failure :: "event \<Rightarrow> bool" where
  "account_failure ev \<longleftrightarrow> (\<exists>k. ev = MintFailed k) \<or> (\<exists>s. ev = Denied s)"

lemma silent_transition:
  assumes "silent_until (transition st ev t) u"
  shows "silent_until st u \<or> account_failure ev \<and> u \<le> t + 900"
proof (cases ev)
  case (MintFailed k)
  then show ?thesis using assms grow_le [of GRANT_BACKOFF_BASE_SECONDS "as_strikes st + 1"]
    by (auto simp: silent_until_def transition_def enter_def Let_def account_failure_def OAUTH_FAILURE_BACKOFF_SECONDS_def split: if_splits)
next
  case (Denied s)
  then show ?thesis using assms grow_le [of DENIED_BACKOFF_BASE_SECONDS "as_strikes st + 1"]
    by (auto simp: silent_until_def transition_def enter_def Let_def account_failure_def split: if_splits option.splits)
qed (use assms in \<open>auto simp: silent_until_def transition_def tick_def enter_def split: if_splits phase.splits\<close>)

lemma silent_run: "silent_until (fcm_run es st) u \<Longrightarrow> silent_until st u \<or> (\<exists>(ev, t) \<in> set es. account_failure ev \<and> u \<le> t + 900)"
proof (induction es arbitrary: st)
  case (Cons e es)
  obtain ev t where e: "e = (ev, t)" by fastforce
  with Cons silent_transition [of st ev t u] show ?case by fastforce
qed simp

text \<open>The ring path is never silent for good, and no answer about a single device or a passing
  outage silences it: whenever it is silent, the account itself was refused within the last
  fifteen minutes.\<close>

theorem fcm_silence_bounded:
  assumes "get (transition (fcm_run es INITIAL) Tick now) = Silent"
  shows "\<exists>(ev, t) \<in> set es. account_failure ev \<and> now < t + 900"
proof -
  let ?st = "fcm_run es INITIAL"
  obtain u where u: "silent_until ?st u" "now < u"
    using assms by (auto simp: get_def tick_def enter_def silent_until_def split: phase.splits if_splits)
  have "\<not> silent_until INITIAL u" by (simp add: silent_until_def INITIAL_def)
  with silent_run [OF u(1)] obtain ev t where "(ev, t) \<in> set es" "account_failure ev" "u \<le> t + 900" by auto
  then show ?thesis using u(2) by (intro bexI [of _ "(ev, t)"]) auto
qed

text \<open>Once the provider has refused the account, nothing but the deadline ends or moves the
  window: whatever answers arrive in it.\<close>

lemma denial_ends_by_time:
  assumes "as_phase st = SendDenied u" and "\<forall>(ev, t) \<in> set es. t < u"
  shows "fcm_run es st = st"
  using assms
proof (induction es)
  case (Cons e es)
  obtain ev t where e: "e = (ev, t)" by fastforce
  have "transition st ev t = st" using Cons.prems e by (auto simp: transition_def is_denied_def tick_def)
  with Cons e show ?case by simp
qed simp

definition no_new_strike :: "real \<Rightarrow> event \<Rightarrow> bool" where
  "no_new_strike t ev = (case ev of Denied s \<Rightarrow> s < t | MintFailed _ \<Rightarrow> False | Delivered \<Rightarrow> False | _ \<Rightarrow> True)"

definition struck :: "int \<Rightarrow> real \<Rightarrow> auth_state \<Rightarrow> bool" where
  "struck n t st \<longleftrightarrow> as_strikes st = n \<and> (\<exists>s. as_since st = Some s \<and> t \<le> s)"

lemma struck_transition: "struck n t st \<Longrightarrow> no_new_strike t ev \<Longrightarrow> t \<le> now \<Longrightarrow> struck n t (transition st ev now)"
  by (cases ev; cases "as_phase st")
    (auto simp: struck_def no_new_strike_def transition_def tick_def enter_def is_denied_def Let_def split: option.splits)

lemma struck_run: "struck n t st \<Longrightarrow> \<forall>(ev, x) \<in> set es. t \<le> x \<and> no_new_strike t ev \<Longrightarrow> struck n t (fcm_run es st)"
proof (induction es arbitrary: st)
  case (Cons e es)
  obtain ev x where e: "e = (ev, x)" by fastforce
  with Cons.prems have "struck n t (transition st ev x)" by (intro struck_transition) auto
  with Cons.IH Cons.prems(2) e show ?case by simp
qed simp

text \<open>One refusal counts once. However many sends that were under way when the account was
  refused answer with a refusal of their own, in whatever order, the strike count stays at
  one more than before, so the back-off does not escalate on one fact.\<close>

theorem denials_coalesce:
  assumes "\<not> is_denied (as_phase st)" and "case as_since st of Some s \<Rightarrow> s \<le> sent | None \<Rightarrow> True"
    and "\<forall>(ev, x) \<in> set es. t \<le> x \<and> no_new_strike t ev"
  shows "as_strikes (fcm_run es (transition st (Denied sent) t)) = as_strikes st + 1"
proof -
  have "struck (as_strikes st + 1) t (transition st (Denied sent) t)"
    using assms(1,2) by (auto simp: struck_def transition_def enter_def Let_def split: option.splits)
  from struck_run [OF this] assms(3) show ?thesis by (simp add: struck_def)
qed

section \<open>What a send answers\<close>

text \<open>An answer about the account is never held against the device. A device row is ordered
  dead exactly when the provider names it unregistered in a typed error; refused or denied
  credentials, throttling and outages leave it alone, and a transport failure or a silent
  state asks for another try.\<close>

theorem fcm_reaps_only_unregistered:
  assumes "fcm_send configured project now mint before after sent_at post during t tok p st = (Inr r, st')"
  shows "(sr_reap r \<noteq> None) = (sr_verdict r = DEAD_TOKEN) \<and>
    (sr_verdict r = DEAD_TOKEN \<longrightarrow> (\<exists>url bearer status body. post url (build_message tok p) bearer = Response status (Some body) \<and>
       fcm_error_code body = ''UNREGISTERED'' \<and> status \<noteq> 200 \<and> status \<noteq> 401))"
proof -
  obtain to st1 where a: "access_token now mint before after st = (to, st1)" by fastforce
  have conf: configured using assms by (cases configured) (simp_all add: fcm_send_def)
  show ?thesis
  proof (cases to)
    case None
    then show ?thesis using assms a conf by (auto simp: fcm_send_def)
  next
    case (Some token)
    then obtain pid where pid: "project = Some pid" using assms a conf by (cases project) (simp_all add: fcm_send_def)
    let ?url = "send_url pid" and ?b = "bearer_header token"
    show ?thesis
    proof (cases "post ?url (build_message tok p) ?b")
      case HttpFailed
      then show ?thesis using assms a conf Some pid by (auto simp: fcm_send_def Let_def)
    next
      case (Response status raw)
      let ?body = "body_or_none raw"
      let ?ev = "classify_send status ?body token sent_at"
      let ?v = "case ?ev of Denied _ \<Rightarrow> TRANSIENT | Refused _ \<Rightarrow> TRANSIENT | _ \<Rightarrow> fcm_verdict status (fcm_error_code ?body)"
      have r: "r = (if status = 200 then \<lparr>sr_verdict = DELIVERED, sr_reap = None\<rparr> else \<lparr>sr_verdict = ?v, sr_reap = reap_order_for ?v\<rparr>)"
        using assms a conf Some pid Response by (auto simp: fcm_send_def Let_def split: if_splits)
      have "?v = DEAD_TOKEN \<Longrightarrow> fcm_error_code ?body = ''UNREGISTERED''"
        by (auto simp: fcm_verdict_def split: event.splits if_splits)
      moreover have "status = 401 \<Longrightarrow> ?v = TRANSIENT" by (simp add: classify_send_def)
      ultimately have dead: "sr_verdict r = DEAD_TOKEN \<Longrightarrow> fcm_error_code ?body = ''UNREGISTERED'' \<and> status \<noteq> 200 \<and> status \<noteq> 401"
        by (auto simp: r split: if_splits)
      have raw: "fcm_error_code ?body = ''UNREGISTERED'' \<Longrightarrow> raw = Some ?body"
        by (cases raw) (simp_all add: body_or_none_def fcm_error_code_def)
      have "(sr_reap r \<noteq> None) = (sr_verdict r = DEAD_TOKEN)" by (simp add: r reap_order_for_def)
      with dead raw Response show ?thesis by metis
    qed
  qed
qed

text \<open>A mint that succeeds leaves a token that is used while its lease, kept five minutes short of
  the provider's, has not run out.\<close>

lemma fresh_token:
  assumes "access_token now mint before after st = (Some tok, st')" and "as_phase st = Cached tok0 e0" and "now < e0"
  shows "tok = tok0 \<and> st' = st"
  using assms by (auto simp: access_token_def tick_def get_def)

text \<open>An expiry that Python cannot turn into a finite integer escapes the classification: the mint
  fails without a transition, so no back-off is entered and the next ring mints again. JSON as
  \<open>json.loads\<close> reads it has such values: \<open>Infinity\<close>, \<open>1e400\<close>.\<close>

theorem overflowing_expiry_escapes:
  assumes "int_of_float ''Infinity'' = Some None"
  shows "mint_once int_of_float (Some a) (Response 200 (Some (JObj [(''access_token'', JStr ''t''), (''expires_in'', JFloat ''Infinity'')]))) t1 t2 INITIAL
    = (True, INITIAL)"
  using assms by (simp add: mint_once_def classify_mint_def int_of_json_def body_or_none_def)

section \<open>Witnesses\<close>

definition ex_ring :: wake_payload where
  "ex_ring = \<lparr>wp_channel_id = ''c'', wp_kind = CALL_INVITE, wp_call_id = replicate 26 CHR ''0''\<rparr>"

definition ex_gone :: json where
  "ex_gone = JObj [(''error'', JObj [(''status'', JStr ''NOT_FOUND''), (''details'', JList [JObj [(''@type'', JStr FCM_ERROR_TYPE),
     (''errorCode'', JStr ''UNREGISTERED'')]])])]"

definition ex_signed_in :: auth_state where
  "ex_signed_in = \<lparr>as_phase = Cached ''t'' 50, as_strikes = 0, as_since = Some 0\<rparr>"

end
