(* ===== verification/Devices.thy ===== *)
theory Devices
  imports Model
begin

text \<open>Device-token registration (\<open>domain/devices_service.py\<close>): the upsert keyed on the token, the
  owner-scoped delete, the fan-out list and the purge of account deletion. What other sessions
  commit between the failed insert and the re-read of the row is an argument. The checks that
  an argument is an enum member hold by typing.\<close>

section \<open>Definitions\<close>

definition INSTALL_ID_MAX_LENGTH :: nat where
  "INSTALL_ID_MAX_LENGTH = 64"

datatype device_error = InvalidInstallId | DeviceIntegrityError

definition default_apns_environment :: "bool \<Rightarrow> apns_environment" where
  "default_apns_environment apns_use_sandbox = (if apns_use_sandbox then SANDBOX else PRODUCTION)"

definition insert_device :: "device_token \<Rightarrow> db \<Rightarrow> db_error + db" where
  "insert_device t d =
     (if list_ex (\<lambda>r. dt_id r = dt_id t \<or> dt_token r = dt_token t) (device_tokens d)
      then Inl IntegrityError else Inr (d\<lparr>device_tokens := device_tokens d @ [t]\<rparr>))"

definition reassigned :: "instant \<Rightarrow> ident \<Rightarrow> platform \<Rightarrow> apns_environment option \<Rightarrow> token_kind option \<Rightarrow> string option \<Rightarrow>
    device_token \<Rightarrow> device_token" where
  "reassigned now user_id platform apns_environment token_kind install_id existing =
     existing\<lparr>dt_user_id := user_id, dt_platform := platform,
       dt_apns_environment := (case apns_environment of Some e \<Rightarrow> e | None \<Rightarrow> dt_apns_environment existing),
       dt_token_kind := (case token_kind of Some k \<Rightarrow> k | None \<Rightarrow> dt_token_kind existing),
       dt_install_id := (case install_id of Some i \<Rightarrow> Some i | None \<Rightarrow> dt_install_id existing),
       dt_updated_at := now\<rparr>"

definition register_device :: "(db \<Rightarrow> db) \<Rightarrow> bool \<Rightarrow> instant \<Rightarrow> ident \<Rightarrow> ident \<Rightarrow> platform \<Rightarrow> string \<Rightarrow> apns_environment option \<Rightarrow>
    token_kind option \<Rightarrow> string option \<Rightarrow> db \<Rightarrow> device_error + (device_token \<times> db)" where
  "register_device race apns_use_sandbox now new_id user_id platform token apns_environment token_kind install_id d =
     (if install_id = Some [] \<or> (\<exists>i. install_id = Some i \<and> length i > INSTALL_ID_MAX_LENGTH) then Inl InvalidInstallId
      else
        let row = \<lparr>dt_id = new_id, dt_user_id = user_id, dt_platform = platform, dt_token = token,
              dt_apns_environment = (case apns_environment of Some e \<Rightarrow> e | None \<Rightarrow> default_apns_environment apns_use_sandbox),
              dt_token_kind = (case token_kind of Some k \<Rightarrow> k | None \<Rightarrow> ALERT),
              dt_install_id = install_id, dt_created_at = now, dt_updated_at = now\<rparr>
        in case insert_device row d of
             Inr d' \<Rightarrow> Inr (row, d')
           | Inl _ \<Rightarrow>
               let d1 = race d in
               case find (\<lambda>r. dt_token r = token) (device_tokens d1) of
                 None \<Rightarrow> Inl DeviceIntegrityError
               | Some existing \<Rightarrow>
                   let re = reassigned now user_id platform apns_environment token_kind install_id existing
                   in Inr (re, d1\<lparr>device_tokens := upd_where (\<lambda>r. dt_id r = dt_id existing) (\<lambda>_. re) (device_tokens d1)\<rparr>))"

definition unregister_device :: "ident \<Rightarrow> string \<Rightarrow> db \<Rightarrow> bool \<times> db" where
  "unregister_device user_id token d =
     (let hit = (\<lambda>r. dt_token r = token \<and> dt_user_id r = user_id)
      in (rowcount hit (device_tokens d) > 0, d\<lparr>device_tokens := del_where hit (device_tokens d)\<rparr>))"

definition tokens_for_user :: "db \<Rightarrow> ident \<Rightarrow> device_token list" where
  "tokens_for_user d user_id = order_asc dt_id (filter (\<lambda>r. dt_user_id r = user_id) (device_tokens d))"

definition purge_user_devices :: "ident \<Rightarrow> db \<Rightarrow> db" where
  "purge_user_devices user_id d =
     d\<lparr>device_tokens := del_where (\<lambda>r. dt_user_id r = user_id) (device_tokens d)\<rparr>"

section \<open>A token routes to one user\<close>

text \<open>UNIQUE(token) and the primary key.\<close>

definition devices_ok :: "db \<Rightarrow> bool" where
  "devices_ok d \<longleftrightarrow> unique_on dt_token (device_tokens d) \<and> unique_on dt_id (device_tokens d)"

lemma register_cases:
  assumes "register_device race sb now i u p t env kind inst d = Inr (row, d')"
  obtains (inserted) "insert_device row d = Inr d'" "dt_token row = t" "dt_user_id row = u" "dt_platform row = p"
      "dt_token_kind row = (case kind of Some k \<Rightarrow> k | None \<Rightarrow> ALERT)"
      "dt_apns_environment row = (case env of Some e \<Rightarrow> e | None \<Rightarrow> default_apns_environment sb)" "dt_install_id row = inst"
      "dt_updated_at row = now"
  | (taken) old where "t \<in> dt_token ` set (device_tokens d) \<or> i \<in> dt_id ` set (device_tokens d)"
      "find (\<lambda>r. dt_token r = t) (device_tokens (race d)) = Some old"
      "row = reassigned now u p env kind inst old"
      "d' = (race d)\<lparr>device_tokens := upd_where (\<lambda>r. dt_id r = dt_id old) (\<lambda>_. row) (device_tokens (race d))\<rparr>"
proof -
  let ?row = "\<lparr>dt_id = i, dt_user_id = u, dt_platform = p, dt_token = t,
              dt_apns_environment = (case env of Some e \<Rightarrow> e | None \<Rightarrow> default_apns_environment sb),
              dt_token_kind = (case kind of Some k \<Rightarrow> k | None \<Rightarrow> ALERT),
              dt_install_id = inst, dt_created_at = now, dt_updated_at = now\<rparr>"
  show thesis
  proof (cases "insert_device ?row d")
    case (Inr x)
    then have "row = ?row" "d' = x" using assms by (simp_all add: register_device_def Let_def split: if_splits)
    with Inr show thesis by (intro inserted) simp_all
  next
    case (Inl e)
    then obtain old where "find (\<lambda>r. dt_token r = t) (device_tokens (race d)) = Some old"
      using assms by (cases "find (\<lambda>r. dt_token r = t) (device_tokens (race d))")
        (simp_all add: register_device_def Let_def split: if_splits)
    with Inl assms show thesis
      by (intro taken) (auto simp: register_device_def Let_def insert_device_def list_ex_iff split: if_splits)
  qed
qed

lemma distinct_filter_eq: "distinct xs \<Longrightarrow> filter (\<lambda>r. r = a) xs = (if a \<in> set xs then [a] else [])"
  by (induction xs) auto

lemma filter_map_other: "(\<And>x. x \<in> set xs \<Longrightarrow> P (f x) = P x \<and> (P x \<longrightarrow> f x = x)) \<Longrightarrow> filter P (map f xs) = filter P xs"
  by (induction xs) auto

lemma reassigned_keys [simp]:
  "dt_token (reassigned now u p env kind inst old) = dt_token old" "dt_id (reassigned now u p env kind inst old) = dt_id old"
  "dt_user_id (reassigned now u p env kind inst old) = u" "dt_platform (reassigned now u p env kind inst old) = p"
  by (simp_all add: reassigned_def)

lemma register_devices_ok:
  assumes "register_device race sb now i u p t env kind inst d = Inr (row, d')" and "devices_ok d" and "devices_ok (race d)"
  shows "devices_ok d'"
  using assms(1)
proof (cases rule: register_cases)
  case inserted
  then show ?thesis using assms(2) by (fastforce simp: devices_ok_def insert_device_def list_ex_iff unique_on_def split: if_splits)
next
  case (taken old)
  let ?ts = "device_tokens (race d)"
  have old: "old \<in> set ?ts" "dt_token old = t" using find_SomeD [OF taken(2)] by auto
  have "map dt_id (upd_where (\<lambda>r. dt_id r = dt_id old) (\<lambda>_. row) ?ts) = map dt_id ?ts"
    by (simp add: upd_where_def taken(3))
  moreover have "map dt_token (upd_where (\<lambda>r. dt_id r = dt_id old) (\<lambda>_. row) ?ts) = map dt_token ?ts"
    using assms(3) old(1) by (auto simp: upd_where_def taken(3) devices_ok_def unique_on_def distinct_map dest: inj_onD)
  ultimately show ?thesis using assms(3) by (simp add: devices_ok_def unique_on_def taken(4))
qed

text \<open>A registration that returns leaves exactly one row for the token, the caller's; every other
  token keeps its row. A declared environment, kind or install id is stored; an omitted one
  keeps the stored value of a token that was there.\<close>

theorem register_device_effect:
  assumes "register_device id sb now i u p t env kind inst d = Inr (row, d')" and "devices_ok d"
  shows "devices_ok d' \<and> filter (\<lambda>r. dt_token r = t) (device_tokens d') = [row] \<and> dt_user_id row = u \<and>
    filter (\<lambda>r. dt_token r \<noteq> t) (device_tokens d') = filter (\<lambda>r. dt_token r \<noteq> t) (device_tokens d) \<and>
    (\<forall>k. kind = Some k \<longrightarrow> dt_token_kind row = k) \<and> (\<forall>e. env = Some e \<longrightarrow> dt_apns_environment row = e) \<and>
    (\<forall>old \<in> set (device_tokens d). dt_token old = t \<longrightarrow>
       (kind = None \<longrightarrow> dt_token_kind row = dt_token_kind old) \<and> (env = None \<longrightarrow> dt_apns_environment row = dt_apns_environment old) \<and>
       (inst = None \<longrightarrow> dt_install_id row = dt_install_id old))"
  using assms(1)
proof (cases rule: register_cases)
  case inserted
  have ok: "devices_ok d'" using register_devices_ok [OF assms(1,2)] assms(2) by simp
  have new: "\<forall>r \<in> set (device_tokens d). dt_token r \<noteq> t" and d': "device_tokens d' = device_tokens d @ [row]"
    using inserted(1,2) by (auto simp: insert_device_def list_ex_iff split: if_splits)
  have "filter (\<lambda>r. dt_token r = t) (device_tokens d') = [row]"
    using new inserted(2) by (simp add: d' filter_empty_conv)
  with ok new inserted show ?thesis by (auto simp: d')
next
  case (taken old)
  have ok: "devices_ok d'" using register_devices_ok [OF assms(1,2)] assms(2) by simp
  have old: "old \<in> set (device_tokens d)" "dt_token old = t" using find_SomeD [OF taken(2)] by auto
  have same: "dt_id r = dt_id old \<longleftrightarrow> r = old" "dt_token r = t \<longleftrightarrow> r = old" if "r \<in> set (device_tokens d)" for r
    using that assms(2) old by (auto simp: devices_ok_def unique_on_def distinct_map dest: inj_onD)
  have d': "device_tokens d' = map (\<lambda>r. if dt_id r = dt_id old then row else r) (device_tokens d)"
    by (simp add: taken(4) upd_where_def)
  have row: "dt_token row = t" by (simp add: taken(3) old(2))
  have "filter (\<lambda>r. dt_token r = t) (device_tokens d') = map (\<lambda>_. row) (filter (\<lambda>r. r = old) (device_tokens d))"
    unfolding d' filter_map comp_def
    by (rule map_cong [OF filter_cong [OF refl]]) (use same row in auto)
  moreover have "filter (\<lambda>r. r = old) (device_tokens d) = [old]"
    using assms(2) old(1) by (simp add: devices_ok_def unique_on_def distinct_map distinct_filter_eq)
  moreover have "filter (\<lambda>r. dt_token r \<noteq> t) (device_tokens d') = filter (\<lambda>r. dt_token r \<noteq> t) (device_tokens d)"
    unfolding d' by (rule filter_map_other) (use same row in auto)
  ultimately show ?thesis using ok same
    by (auto simp: taken(3) reassigned_def split: option.splits)
qed

end
