(* ===== verification/Push.thy ===== *)
theory Push
  imports Apns Fcm Devices Moderation
begin

text \<open>The push router (\<open>domain/push_service.py\<close>): which messages wake, whom, on which devices, and
  which device rows a wake may reap. A body is a list of code points. The sends are arguments,
  answered by the two transports; so is what other sessions commit while they are awaited. The
  values of the enumerated columns are enum members by typing, so no row is unroutable.\<close>

section \<open>Definitions\<close>

subsection \<open>Which messages wake\<close>

definition cps :: "string \<Rightarrow> nat list" where
  "cps s = map of_char s"

definition verb :: "wake_kind \<Rightarrow> string" where
  "verb k = (case k of CALL_INVITE \<Rightarrow> ''started a call'' | CALL_END \<Rightarrow> ''ended the call'')"

text \<open>The tail of a call body: a middle dot, the telephone receiver, the verb.\<close>

definition call_tail :: "wake_kind \<Rightarrow> nat list" where
  "call_tail k = [32, 183, 32, 128222, 32] @ cps (verb k)"

definition parse_call_body :: "nat list \<Rightarrow> (wake_kind \<times> string) option" where
  "parse_call_body body =
     (let head = take 12 body; i = take 26 (drop 12 body); tail = drop 38 body in
      if head = cps ''aiko:call/2 '' \<and> list_all (\<lambda>c. c < 128) i \<and> is_call_id (map char_of i)
      then (if tail = call_tail CALL_INVITE then Some (CALL_INVITE, map char_of i)
            else if tail = call_tail CALL_END then Some (CALL_END, map char_of i) else None)
      else None)"

definition should_wake :: "channel_kind \<Rightarrow> nat list \<Rightarrow> wake_kind option" where
  "should_wake channel_kind body =
     (if channel_kind \<noteq> DM then None
      else case parse_call_body body of None \<Rightarrow> None | Some (k, _) \<Rightarrow> Some k)"

subsection \<open>Routing\<close>

datatype delivery =
    ApnsDelivery (dl_row_id: ident) (dl_token: string) (dl_updated_at: instant) apns_environment token_kind
  | FcmDelivery (dl_row_id: ident) (dl_token: string) (dl_updated_at: instant)

definition END_WAKE_VOIP_GATE_OPEN :: bool where
  "END_WAKE_VOIP_GATE_OPEN = False"

definition plan_row :: "wake_kind \<Rightarrow> platform list \<Rightarrow> bool \<Rightarrow> device_token \<Rightarrow> string + delivery" where
  "plan_row wake configured gate_open row =
     (if dt_platform row \<notin> set configured then Inl ''transport_not_configured''
      else case dt_platform row of
             APNS \<Rightarrow>
               (case (dt_token_kind row, wake) of
                  (VOIP, CALL_END) \<Rightarrow>
                    if \<not> gate_open then Inl ''end_wake_gated_pending_4278''
                    else Inr (ApnsDelivery (dt_id row) (dt_token row) (dt_updated_at row) (dt_apns_environment row) (dt_token_kind row))
                | (ALERT, CALL_END) \<Rightarrow> Inl ''end_wake_needs_voip''
                | (_, CALL_INVITE) \<Rightarrow>
                    Inr (ApnsDelivery (dt_id row) (dt_token row) (dt_updated_at row) (dt_apns_environment row) (dt_token_kind row)))
           | FCM \<Rightarrow> Inr (FcmDelivery (dt_id row) (dt_token row) (dt_updated_at row)))"

fun plan_deliveries :: "wake_kind \<Rightarrow> platform list \<Rightarrow> bool \<Rightarrow> device_token list \<Rightarrow> delivery list \<times> (ident \<times> string) list" where
  "plan_deliveries wake configured gate_open [] = ([], [])"
| "plan_deliveries wake configured gate_open (row # rows) =
     (case plan_deliveries wake configured gate_open rows of
        (ds, skips) \<Rightarrow>
          (case plan_row wake configured gate_open row of
             Inl reason \<Rightarrow> (ds, (dt_id row, reason) # skips)
           | Inr dl \<Rightarrow> (dl # ds, skips)))"

subsection \<open>Whom to wake\<close>

definition recipients :: "db \<Rightarrow> ident \<Rightarrow> ident \<Rightarrow> ident list \<Rightarrow> ident list" where
  "recipients d channel_id sender_id exclude =
     (case find (\<lambda>c. ch_id c = channel_id) (channels d) of
        None \<Rightarrow> []
      | Some c \<Rightarrow>
          if ch_kind c \<noteq> DM \<or> \<not> ch_is_private c then []
          else
            let members = remdups (map mb_user_id (filter (\<lambda>m. mb_channel_id m = channel_id) (memberships d))) in
            if sender_id \<notin> set members \<or> length members \<noteq> 2 then []
            else
              let peers = filter (\<lambda>u. u \<noteq> sender_id) members;
                  live = map u_id (filter (\<lambda>u. u_id u \<in> set peers \<and> u_banned_at u = None) (users d))
              in filter (\<lambda>u. u \<notin> set exclude \<and> u \<notin> set (blocked_pair_user_ids d sender_id)) live)"

definition spoken_here :: "db \<Rightarrow> ident \<Rightarrow> ident list \<Rightarrow> ident list" where
  "spoken_here d channel_id user_ids =
     filter (\<lambda>u. list_ex (\<lambda>m. m_channel_id m = channel_id \<and> m_sender_user_id m = Some u) (messages d)) user_ids"

subsection \<open>The wake\<close>

text \<open>The two transports as the router calls them; an exception of either is logged and
  counts as no answer.\<close>

definition send_one :: "(string \<Rightarrow> wake_payload \<Rightarrow> apns_environment \<Rightarrow> token_kind \<Rightarrow> string option \<Rightarrow> apns_error + send_result) \<Rightarrow>
    (string \<Rightarrow> wake_payload \<Rightarrow> fcm_error + send_result) \<Rightarrow> wake_payload \<Rightarrow> string \<Rightarrow> delivery \<Rightarrow> send_result option" where
  "send_one apns fcm payload collapse_id dl =
     (case dl of
        ApnsDelivery _ token _ env kind \<Rightarrow>
          (case apns token payload env kind (Some collapse_id) of Inr r \<Rightarrow> Some r | Inl _ \<Rightarrow> None)
      | FcmDelivery _ token _ \<Rightarrow> (case fcm token payload of Inr r \<Rightarrow> Some r | Inl _ \<Rightarrow> None))"

definition dead_rows :: "(delivery \<Rightarrow> send_result option) \<Rightarrow> delivery list \<Rightarrow> (delivery \<times> reap_order option) list" where
  "dead_rows send ds =
     List.map_filter (\<lambda>dl. case send dl of
                             Some r \<Rightarrow> if sr_verdict r = DEAD_TOKEN then Some (dl, sr_reap r) else None
                           | None \<Rightarrow> None) ds"

text \<open>The compare-and-delete of one dead row.\<close>

definition reap_hits :: "delivery \<Rightarrow> reap_order \<Rightarrow> device_token \<Rightarrow> bool" where
  "reap_hits dl order r \<longleftrightarrow>
     dt_id r = dl_row_id dl \<and> dt_token r = dl_token dl \<and> dt_updated_at r = dl_updated_at dl \<and>
     (case order of ReapOrder (Some since) \<Rightarrow> dt_updated_at r \<le> since | ReapOrder None \<Rightarrow> True)"

definition reap :: "delivery \<times> reap_order option \<Rightarrow> db \<Rightarrow> db" where
  "reap x d =
     (case x of
        (_, None) \<Rightarrow> d
      | (dl, Some order) \<Rightarrow> d\<lparr>device_tokens := del_where (reap_hits dl order) (device_tokens d)\<rparr>)"

definition wake_user :: "(delivery \<Rightarrow> send_result option) \<Rightarrow> (db \<Rightarrow> db) \<Rightarrow> platform list \<Rightarrow> int \<Rightarrow> real \<Rightarrow> wake_kind \<Rightarrow> ident \<Rightarrow>
    db \<times> windows \<Rightarrow> db \<times> windows" where
  "wake_user send race configured per_minute now wake user_id s =
     (case s of (d, ws) \<Rightarrow>
        let ds = fst (plan_deliveries wake configured END_WAKE_VOIP_GATE_OPEN (filter (\<lambda>r. dt_user_id r = user_id) (device_tokens d)))
        in if ds = [] then (d, ws)
           else case hit now ''push_wake'' user_id per_minute 60 ws of
                  ((allowed, _), ws') \<Rightarrow>
                    if \<not> allowed then (d, ws')
                    else (fold reap (dead_rows send ds) (race d), ws'))"

definition wake_for_message :: "(wake_payload \<Rightarrow> string \<Rightarrow> delivery \<Rightarrow> send_result option) \<Rightarrow> (db \<Rightarrow> db) \<Rightarrow> platform list \<Rightarrow> int \<Rightarrow> real \<Rightarrow>
    ident \<Rightarrow> channel_kind \<Rightarrow> ident \<Rightarrow> nat list \<Rightarrow> ident list \<Rightarrow> db \<times> windows \<Rightarrow> db \<times> windows" where
  "wake_for_message send race configured per_minute now channel_id channel_kind sender_id body exclude s =
     (if configured = [] then s
      else case should_wake channel_kind body of
             None \<Rightarrow> s
           | Some wake \<Rightarrow>
               let targets = spoken_here (fst s) channel_id (recipients (fst s) channel_id sender_id exclude) in
               case make_payload channel_id wake (snd (the (parse_call_body body))) of
                 None \<Rightarrow> s
               | Some payload \<Rightarrow>
                   fold (wake_user (send payload channel_id) race configured per_minute now wake) targets s)"

record reach_report =
  rr_configured :: bool
  rr_registered_devices :: nat
  rr_unreachable_devices :: nat
  rr_unreachable_by_platform :: "(platform \<times> nat) list"

definition reachability :: "platform list \<Rightarrow> db \<Rightarrow> reach_report" where
  "reachability configured d =
     (let counts = map (\<lambda>p. (p, rowcount (\<lambda>r. dt_platform r = p) (device_tokens d))) (remdups (map dt_platform (device_tokens d)));
          unreachable = filter (\<lambda>(p, _). p \<notin> set configured) counts
      in \<lparr>rr_configured = (configured \<noteq> []), rr_registered_devices = sum_list (map snd counts),
          rr_unreachable_devices = sum_list (map snd unreachable), rr_unreachable_by_platform = unreachable\<rparr>)"

section \<open>Call bodies\<close>

definition call_body :: "wake_kind \<Rightarrow> string \<Rightarrow> nat list" where
  "call_body k i = cps ''aiko:call/2 '' @ cps i @ call_tail k"

lemma call_chars_ascii: "call_id_char c \<Longrightarrow> of_char c < (128 :: nat)" "c \<in> set ''01234567'' \<Longrightarrow> of_char c < (128 :: nat)"
proof -
  have "list_all (\<lambda>c. of_char c < (128 :: nat)) ''0123456789ABCDEFGHJKMNPQRSTVWXYZ''" by code_simp
  then show "call_id_char c \<Longrightarrow> of_char c < (128 :: nat)" unfolding call_id_char_def list_all_iff by (rule bspec)
  have "list_all (\<lambda>c. of_char c < (128 :: nat)) ''01234567''" by code_simp
  then show "c \<in> set ''01234567'' \<Longrightarrow> of_char c < (128 :: nat)" unfolding list_all_iff by (rule bspec)
qed

lemma call_id_ascii: "is_call_id i \<Longrightarrow> c \<in> set i \<Longrightarrow> of_char c < (128 :: nat)"
proof -
  assume i: "is_call_id i" and c: "c \<in> set i"
  obtain a r where i': "i = a # r" using c by (cases i) auto
  have "a \<in> set ''01234567''" "\<forall>x \<in> set r. call_id_char x" using i unfolding is_call_id_def i' list_all_iff list.sel by blast+
  then show ?thesis using c i' set_ConsD call_chars_ascii by metis
qed

lemma cps_char_of: "list_all (\<lambda>c. c < 128) xs \<Longrightarrow> cps (map char_of xs) = xs"
  by (induction xs) (simp_all add: cps_def)

lemma char_of_cps: "map char_of (cps s) = s"
  by (induction s) (simp_all add: cps_def)

lemma length_cps [simp]: "length (cps s) = length s"
  by (simp add: cps_def)

lemma tails_differ: "call_tail CALL_INVITE \<noteq> call_tail CALL_END"
  by (simp add: call_tail_def verb_def cps_def)

text \<open>C20: the wake gate reads exactly the bodies a client writes: a body is a call event of a kind
  with a call id precisely when it is that kind's fixed text around a canonical id, so nothing
  a person types around it rings a phone.\<close>

theorem call_body_exact:
  "parse_call_body body = Some (k, i) \<longleftrightarrow> is_call_id i \<and> body = call_body k i"
proof -
  have fwd: "is_call_id i \<and> body = call_body k i" if "parse_call_body body = Some (k, i)"
  proof -
    let ?i = "take 26 (drop 12 body)"
    have h: "take 12 body = cps ''aiko:call/2 ''" "list_all (\<lambda>c. c < 128) ?i" "is_call_id (map char_of ?i)"
      and t: "i = map char_of ?i" "drop 38 body = call_tail k"
      using that by (auto simp: parse_call_body_def Let_def split: if_splits)
    have "body = take 12 body @ ?i @ drop 26 (drop 12 body)" by (simp only: append_take_drop_id)
    then have "body = cps ''aiko:call/2 '' @ ?i @ call_tail k" using h(1) t(2) by simp
    then show ?thesis using h(2,3) t(1) cps_char_of by (simp add: call_body_def)
  qed
  have bwd: "parse_call_body body = Some (k, i)" if "is_call_id i" "body = call_body k i"
  proof -
    have len: "length (cps ''aiko:call/2 '') = 12" "length (cps i) = 26" using that(1) by (simp_all add: is_call_id_def)
    then have "take 12 body = cps ''aiko:call/2 ''" "take 26 (drop 12 body) = cps i" "drop 38 body = call_tail k"
      using that(2) by (simp_all add: call_body_def)
    moreover have "list_all (\<lambda>c. c < 128) (cps i)" using call_id_ascii [OF that(1)] by (auto simp: cps_def list_all_iff)
    ultimately show ?thesis using that(1) tails_differ by (cases k) (simp_all add: parse_call_body_def Let_def char_of_cps)
  qed
  show ?thesis using fwd bwd by blast
qed

section \<open>Routing\<close>

lemma plan_deliveries_eq:
  "plan_deliveries w cfg g rows =
     (map (\<lambda>r. projr (plan_row w cfg g r)) (filter (\<lambda>r. \<not> isl (plan_row w cfg g r)) rows),
      map (\<lambda>r. (dt_id r, projl (plan_row w cfg g r))) (filter (\<lambda>r. isl (plan_row w cfg g r)) rows))"
  by (induction rows) (auto split: sum.splits)

lemma plan_row_target:
  assumes "plan_row w cfg g r = Inr dl"
  shows "dl_row_id dl = dt_id r \<and> dl_token dl = dt_token r \<and> dl_updated_at dl = dt_updated_at r"
  using assms by (auto simp: plan_row_def split: if_splits platform.splits token_kind.splits wake_kind.splits)

text \<open>Routing loses no device. Every row is either sent to or skipped with a reason, in row
  order and once; an incoming call goes to every row whose transport is configured, whatever
  its kind; and an APNs delivery is always one the transport accepts.\<close>

theorem plan_covers_rows:
  assumes "plan_deliveries w cfg g rows = (ds, skips)"
  shows "length ds + length skips = length rows \<and>
    set (map dl_row_id ds) \<union> set (map fst skips) = dt_id ` set rows \<and>
    (w = CALL_INVITE \<longrightarrow> map dl_row_id ds = map dt_id (filter (\<lambda>r. dt_platform r \<in> set cfg) rows)) \<and>
    (\<forall>i t u e k. ApnsDelivery i t u e k \<in> set ds \<longrightarrow> lifetime k w \<noteq> None)"
proof -
  let ?p = "plan_row w cfg g"
  have ds: "ds = map (\<lambda>r. projr (?p r)) (filter (\<lambda>r. \<not> isl (?p r)) rows)"
    and sk: "skips = map (\<lambda>r. (dt_id r, projl (?p r))) (filter (\<lambda>r. isl (?p r)) rows)"
    using assms by (simp_all add: plan_deliveries_eq)
  have tgt: "dl_row_id (projr (?p r)) = dt_id r" if "\<not> isl (?p r)" for r
    using that plan_row_target [of w cfg g r "projr (?p r)"] by (cases "?p r") auto
  have ids: "map dl_row_id ds = map dt_id (filter (\<lambda>r. \<not> isl (?p r)) rows)"
    unfolding ds map_map by (rule map_cong [OF refl]) (simp add: tgt)
  have "length ds + length skips = length rows"
    unfolding ds sk length_map by (metis (no_types) add.commute sum_length_filter_compl)
  moreover have "set (map dl_row_id ds) \<union> set (map fst skips) = dt_id ` set rows"
    unfolding ids sk by (auto simp: image_iff)
  moreover have "\<not> isl (?p r) \<longleftrightarrow> dt_platform r \<in> set cfg" if "w = CALL_INVITE" for r
    using that by (auto simp: plan_row_def split: platform.splits token_kind.splits)
  then have "w = CALL_INVITE \<longrightarrow> map dl_row_id ds = map dt_id (filter (\<lambda>r. dt_platform r \<in> set cfg) rows)" by (simp add: ids)
  moreover have "lifetime k w \<noteq> None" if "ApnsDelivery i t u e k \<in> set ds" for i t u e k
  proof -
    from that obtain r where "?p r = Inr (ApnsDelivery i t u e k)" unfolding ds by auto
    then show ?thesis by (auto simp: plan_row_def lifetime_def split: if_splits platform.splits token_kind.splits wake_kind.splits)
  qed
  ultimately show ?thesis by blast
qed

section \<open>Whom a wake reaches\<close>

lemma two_members: "length (remdups xs) = 2 \<and> a \<in> set xs \<and> b \<in> set xs \<and> b \<noteq> a \<longleftrightarrow> set xs = {a, b} \<and> b \<noteq> a"
proof -
  have len: "length (remdups xs) = card (set xs)" by (simp add: length_remdups_card_conv)
  have "set xs = {a, b}" if "card (set xs) = 2" "a \<in> set xs" "b \<in> set xs" "b \<noteq> a"
    using that card_subset_eq [of "set xs" "{a, b}"] by auto
  then show ?thesis unfolding len by auto
qed

lemma member_live: "v \<in> set (filter P (map f (filter (\<lambda>u. f u \<in> S \<and> b u) us))) \<longleftrightarrow> P v \<and> v \<in> S \<and> (\<exists>u \<in> set us. f u = v \<and> b u)"
  by auto

text \<open>C19: a wake reaches one person at most, and only with standing: the other member of a private
  two-party direct message the sender is in, not banned, with no block in either direction,
  not excluded by the caller, who has spoken in the channel before.\<close>

theorem wake_recipients_exact:
  assumes "schema_ok d"
  shows "v \<in> set (spoken_here d ch (recipients d ch s exclude)) \<longleftrightarrow>
    (\<exists>c \<in> set (channels d). ch_id c = ch \<and> ch_kind c = DM \<and> ch_is_private c) \<and>
    {m. \<exists>r \<in> set (memberships d). mb_channel_id r = ch \<and> mb_user_id r = m} = {s, v} \<and> v \<noteq> s \<and>
    (\<exists>u \<in> set (users d). u_id u = v \<and> u_banned_at u = None) \<and> \<not> is_blocked_between d s v \<and> v \<notin> set exclude \<and>
    (\<exists>m \<in> set (messages d). m_channel_id m = ch \<and> m_sender_user_id m = Some v)"
proof -
  let ?ms = "map mb_user_id (filter (\<lambda>m. mb_channel_id m = ch) (memberships d))"
  have set_ms: "set ?ms = {m. \<exists>r \<in> set (memberships d). mb_channel_id r = ch \<and> mb_user_id r = m}" by auto
  have uniq: "unique_on ch_id (channels d)" using assms by (rule schema_okD)
  have find: "find (\<lambda>c. ch_id c = ch) (channels d) = Some c \<longleftrightarrow> c \<in> set (channels d) \<and> ch_id c = ch" for c
    using find_unique [OF uniq, of c] find_SomeD [of "\<lambda>c. ch_id c = ch" "channels d" c] by auto
  have "v \<in> set (recipients d ch s exclude) \<longleftrightarrow>
      (\<exists>c. find (\<lambda>c. ch_id c = ch) (channels d) = Some c \<and> ch_kind c = DM \<and> ch_is_private c) \<and>
      (length (remdups ?ms) = 2 \<and> s \<in> set ?ms \<and> v \<in> set ?ms \<and> v \<noteq> s) \<and>
      (\<exists>u \<in> set (users d). u_id u = v \<and> u_banned_at u = None) \<and> v \<notin> set exclude \<and> v \<notin> set (blocked_pair_user_ids d s)"
  proof (cases "find (\<lambda>c. ch_id c = ch) (channels d)")
    case None
    then show ?thesis by (simp add: recipients_def)
  next
    case (Some c)
    show ?thesis
    proof (cases "ch_kind c = DM \<and> ch_is_private c \<and> s \<in> set ?ms \<and> length (remdups ?ms) = 2")
      case True
      with Some have r: "recipients d ch s exclude = filter (\<lambda>u. u \<notin> set exclude \<and> u \<notin> set (blocked_pair_user_ids d s))
          (map u_id (filter (\<lambda>u. u_id u \<in> set (filter (\<lambda>u. u \<noteq> s) (remdups ?ms)) \<and> u_banned_at u = None) (users d)))"
        by (simp add: recipients_def Let_def)
      have "v \<in> set (recipients d ch s exclude) \<longleftrightarrow> v \<notin> set exclude \<and> v \<notin> set (blocked_pair_user_ids d s) \<and>
          v \<in> set ?ms \<and> v \<noteq> s \<and> (\<exists>u \<in> set (users d). u_id u = v \<and> u_banned_at u = None)"
        unfolding r member_live by (simp only: set_filter set_remdups mem_Collect_eq conj_assoc)
      then show ?thesis using True Some by blast
    next
      case False
      then have "recipients d ch s exclude = []" using Some unfolding recipients_def by (simp add: Let_def)
      then show ?thesis using False Some by auto
    qed
  qed
  note mem = this [unfolded two_members, unfolded set_ms find]
  have "v \<in> set (spoken_here d ch (recipients d ch s exclude)) \<longleftrightarrow> v \<in> set (recipients d ch s exclude) \<and>
      (\<exists>m \<in> set (messages d). m_channel_id m = ch \<and> m_sender_user_id m = Some v)" by (auto simp: spoken_here_def list_ex_iff)
  then show ?thesis unfolding mem is_blocked_between_iff by blast
qed

section \<open>What a wake may delete\<close>

definition condemned :: "(delivery \<Rightarrow> send_result option) \<Rightarrow> delivery list \<Rightarrow> device_token \<Rightarrow> bool" where
  "condemned send ds r \<longleftrightarrow> (\<exists>dl \<in> set ds. \<exists>res order. send dl = Some res \<and> sr_verdict res = DEAD_TOKEN \<and> sr_reap res = Some order \<and> reap_hits dl order r)"

lemma reap_simps [simp]:
  "reap (dl, None) d = d"
  "reap (dl, Some order) d = d\<lparr>device_tokens := filter (\<lambda>r. \<not> reap_hits dl order r) (device_tokens d)\<rparr>"
  by (simp_all add: reap_def del_where_def)

lemma fold_reap:
  "device_tokens (fold reap xs d) = filter (\<lambda>r. \<not> (\<exists>dl order. (dl, Some order) \<in> set xs \<and> reap_hits dl order r)) (device_tokens d)"
proof (induction xs arbitrary: d)
  case (Cons x xs)
  obtain dl o' where x: "x = (dl, o')" by fastforce
  show ?case by (cases o') (auto simp: x Cons.IH intro!: filter_cong)
qed simp

lemma in_map_filter: "y \<in> set (List.map_filter f xs) \<longleftrightarrow> (\<exists>x \<in> set xs. f x = Some y)"
  by (induction xs) (auto split: option.splits)

lemma dead_rows_iff:
  "(dl, Some order) \<in> set (dead_rows send ds) \<longleftrightarrow> dl \<in> set ds \<and> (\<exists>res. send dl = Some res \<and> sr_verdict res = DEAD_TOKEN \<and> sr_reap res = Some order)"
proof -
  have "(case send x of Some r \<Rightarrow> if sr_verdict r = DEAD_TOKEN then Some (x, sr_reap r) else None | None \<Rightarrow> None) = Some (dl, Some order) \<longleftrightarrow>
      x = dl \<and> (\<exists>res. send dl = Some res \<and> sr_verdict res = DEAD_TOKEN \<and> sr_reap res = Some order)" for x
    by (cases "send x") auto
  note this [simp]
  show ?thesis unfolding dead_rows_def in_map_filter by auto
qed

lemma reap_condemned: "device_tokens (fold reap (dead_rows send ds) d) = filter (\<lambda>r. \<not> condemned send ds r) (device_tokens d)"
  unfolding fold_reap dead_rows_iff condemned_def by (intro filter_cong refl) blast

lemma wake_user_tokens:
  assumes "wake_user send race cfg pm now w u (d, ws) = (d', ws')"
  shows "d' = d \<or> device_tokens d' = filter (\<lambda>r. \<not> condemned send (fst (plan_deliveries w cfg END_WAKE_VOIP_GATE_OPEN
      (filter (\<lambda>r. dt_user_id r = u) (device_tokens d)))) r) (device_tokens (race d))"
  using assms by (auto simp: wake_user_def Let_def reap_condemned split: if_splits prod.splits)

lemma condemned_row:
  assumes "condemned send (fst (plan_deliveries w cfg g (filter (\<lambda>r. dt_user_id r = u) rows))) r"
  shows "\<exists>old \<in> set rows. dt_user_id old = u \<and> dt_id old = dt_id r \<and> dt_token old = dt_token r \<and> dt_updated_at old = dt_updated_at r"
proof -
  from assms obtain old dl order where "old \<in> set rows" "dt_user_id old = u" "\<not> isl (plan_row w cfg g old)" "dl = projr (plan_row w cfg g old)" "reap_hits dl order r"
    unfolding condemned_def plan_deliveries_eq by auto
  moreover from this(3,4) have "plan_row w cfg g old = Inr dl" by (cases "plan_row w cfg g old") auto
  ultimately show ?thesis using plan_row_target [of w cfg g old dl] unfolding reap_hits_def by metis
qed

text \<open>A handset that registers again while its push is under way stays reachable. Whatever the
  providers answer, a registration committed during the sends, at a later instant than the
  stored one, leaves exactly one row for its token, the registrant's, after the wake.\<close>

theorem reaper_spares_reregistered:
  assumes "devices_ok d" and "register_device id sb t i v p tok env kind inst d = Inr (row, d1)"
    and "\<forall>r \<in> set (device_tokens d). dt_updated_at r < t"
    and "wake_user send (\<lambda>_. d1) cfg pm now w u (d, ws) = (d', ws')" and "d' \<noteq> d"
  shows "filter (\<lambda>r. dt_token r = tok) (device_tokens d') = [row] \<and> dt_user_id row = v"
proof -
  note eff = register_device_effect [OF assms(2,1)]
  have upd: "dt_updated_at row = t" using assms(2)
    by (cases rule: register_cases) (simp_all add: reassigned_def)
  let ?ds = "fst (plan_deliveries w cfg END_WAKE_VOIP_GATE_OPEN (filter (\<lambda>r. dt_user_id r = u) (device_tokens d)))"
  have "\<not> condemned send ?ds row"
  proof
    assume "condemned send ?ds row"
    from condemned_row [OF this] obtain old where "old \<in> set (device_tokens d)" "dt_updated_at old = dt_updated_at row" by blast
    with assms(3) upd show False by auto
  qed
  moreover have "device_tokens d' = filter (\<lambda>r. \<not> condemned send ?ds r) (device_tokens d1)"
    using wake_user_tokens [OF assms(4)] assms(5) by simp
  then have "filter (\<lambda>r. dt_token r = tok) (device_tokens d') =
      filter (\<lambda>r. \<not> condemned send ?ds r) (filter (\<lambda>r. dt_token r = tok) (device_tokens d1))" by (simp add: conj_commute)
  ultimately show ?thesis using eff by simp
qed

section \<open>Witnesses\<close>

definition ex_phone :: device_token where
  "ex_phone = \<lparr>dt_id = ''r'', dt_user_id = ''b'', dt_platform = FCM, dt_token = ''tok'', dt_apns_environment = PRODUCTION,
     dt_token_kind = ALERT, dt_install_id = None, dt_created_at = 0, dt_updated_at = 0\<rparr>"

definition ex_call_db :: db where
  "ex_call_db = ex_two_users\<lparr>channels := [\<lparr>ch_id = ''c'', ch_name = ''c'', ch_kind = DM, ch_aiko_channel = ''dm:x'', ch_is_private = True,
       ch_join_policy = INVITE_ONLY, ch_community_id = None, ch_created_at = 0\<rparr>],
     memberships := [\<lparr>mb_channel_id = ''c'', mb_user_id = ''a'', mb_role = MEMBER, mb_can_post = True, mb_joined_at = 0\<rparr>,
       \<lparr>mb_channel_id = ''c'', mb_user_id = ''b'', mb_role = MEMBER, mb_can_post = True, mb_joined_at = 0\<rparr>],
     messages := [\<lparr>m_id = ''m'', m_channel_id = ''c'', m_sender_user_id = Some ''b'', m_sender_kind = SENDER_HUMAN, m_sender_label = None,
       m_body = ''hi'', m_reply_to = None, m_client_msg_id = None, m_aiko_origin = False, m_origin = None, m_mentions = None,
       m_created_at = 0, m_edited_at = None, m_deleted_at = None\<rparr>], device_tokens := [ex_phone]\<rparr>"

theorem wake_recipients_exact_witness:
  "''b'' \<in> set (spoken_here ex_call_db ''c'' (recipients ex_call_db ''c'' ''a'' []))"
proof -
  have "schema_ok ex_call_db"
    by (simp add: schema_ok_def ex_call_db_def ex_two_users_def empty_db_def ex_user_def unique_on_def unique_opt_def channel_checks_def
        mb_key_def List.map_filter_def m_client_key_def)
  from wake_recipients_exact [OF this, of "''b''" "''c''" "''a''" "[]"] show ?thesis
    by (auto simp: ex_call_db_def ex_two_users_def empty_db_def ex_user_def is_blocked_between_def)
qed

end
