(* ===== verification/Accounts.thy ===== *)
theory Accounts
  imports Memberships Moderation Reactions SigningKeys Recovery Devices
begin

text \<open>Account deletion (\<open>domain/accounts_service.py\<close>): the sole-admin guard and the cascade over
  every table that references \<open>users\<close>, in statement order, composed from the purges of the
  other services. What other sessions commit between the read of the caller's admin channels
  and the first DELETE is an argument; from then on the transaction holds SQLite's write lock.\<close>

section \<open>Definitions\<close>

definition DELETED_USER_LABEL :: string where
  "DELETED_USER_LABEL = ''[deleted user]''"

definition DELETED_BODY :: string where
  "DELETED_BODY = ''[deleted]''"

datatype account_error = CannotDeleteSoleAdmin "ident list"

definition admin_channels :: "db \<Rightarrow> ident \<Rightarrow> ident list" where
  "admin_channels d user_id =
     order_asc id (map mb_channel_id (filter (\<lambda>m. mb_user_id m = user_id \<and> mb_role m = ADMIN) (memberships d)))"

definition is_admin_row :: "ident \<Rightarrow> ident \<Rightarrow> membership \<Rightarrow> bool" where
  "is_admin_row cid user_id m \<longleftrightarrow> mb_channel_id m = cid \<and> mb_user_id m = user_id \<and> mb_role m = ADMIN"

text \<open>The loop of the guard: the refused channels and the state after the conditional DELETEs.\<close>

fun remove_admin_rows :: "ident \<Rightarrow> ident list \<Rightarrow> db \<Rightarrow> ident list \<times> db" where
  "remove_admin_rows user_id [] d = ([], d)"
| "remove_admin_rows user_id (cid # cids) d =
     (let hit = (\<lambda>m. is_admin_row cid user_id m \<and> admins d cid > 1)
      in if rowcount hit (memberships d) \<noteq> 0
         then remove_admin_rows user_id cids (d\<lparr>memberships := del_where hit (memberships d)\<rparr>)
         else case remove_admin_rows user_id cids d of
                (refused, d') \<Rightarrow> (if list_ex (is_admin_row cid user_id) (memberships d) then cid # refused else refused, d'))"

definition remove_admin_memberships_or_refuse :: "(db \<Rightarrow> db) \<Rightarrow> ident \<Rightarrow> db \<Rightarrow> account_error + db" where
  "remove_admin_memberships_or_refuse race user_id d =
     (case remove_admin_rows user_id (admin_channels d user_id) (race d) of
        (refused, d') \<Rightarrow> if refused \<noteq> [] then Inl (CannotDeleteSoleAdmin refused) else Inr d')"

definition tombstone :: "message \<Rightarrow> message" where
  "tombstone m = m\<lparr>m_sender_user_id := None, m_sender_label := Some DELETED_USER_LABEL, m_body := DELETED_BODY,
     m_client_msg_id := None, m_mentions := None\<rparr>"

definition leave_communities :: "ident \<Rightarrow> db \<Rightarrow> db" where
  "leave_communities user_id d =
     (let mine = map cm_community_id (filter (\<lambda>m. cm_user_id m = user_id) (community_memberships d));
          d1 = d\<lparr>communities := upd_where (\<lambda>c. co_id c \<in> set mine) (\<lambda>c. c\<lparr>co_member_count := co_member_count c - 1\<rparr>) (communities d)\<rparr>;
          d2 = d1\<lparr>community_memberships := del_where (\<lambda>m. cm_user_id m = user_id) (community_memberships d1)\<rparr>
      in d2\<lparr>communities := upd_where (\<lambda>c. co_owner_id c = Some user_id) (\<lambda>c. c\<lparr>co_owner_id := None\<rparr>) (communities d2)\<rparr>)"

definition delete_user_account :: "(db \<Rightarrow> db) \<Rightarrow> ident \<Rightarrow> db \<Rightarrow> account_error + db" where
  "delete_user_account race user_id d =
     (case remove_admin_memberships_or_refuse race user_id d of
        Inl e \<Rightarrow> Inl e
      | Inr d0 \<Rightarrow>
          let d1 = d0\<lparr>messages := upd_where (\<lambda>m. m_sender_user_id m = Some user_id) tombstone (messages d0)\<rparr>;
              d2 = purge_user_moderation_rows user_id d1;
              d3 = purge_user_reactions user_id d2;
              d4 = purge_user_devices user_id d3;
              d5 = purge_user_credentials user_id d4;
              d6 = purge_user_keys user_id d5;
              d7 = purge_user_recovery user_id d6;
              d8 = leave_communities user_id d7;
              d9 = d8\<lparr>social_identities := del_where (\<lambda>s. si_user_id s = user_id) (social_identities d8)\<rparr>;
              d10 = d9\<lparr>memberships := del_where (\<lambda>m. mb_user_id m = user_id) (memberships d9)\<rparr>;
              d11 = d10\<lparr>channel_read_positions := del_where (\<lambda>p. rp_user_id p = user_id) (channel_read_positions d10)\<rparr>
          in Inr (d11\<lparr>users := del_where (\<lambda>u. u_id u = user_id) (users d11)\<rparr>))"

section \<open>The guard\<close>

text \<open>The loop in closed form: the rows it deletes and the channels it refuses.\<close>

lemma admins_del_other:
  assumes "c \<noteq> cid"
  shows "admins (d\<lparr>memberships := del_where (\<lambda>m. is_admin_row cid u m \<and> P) (memberships d)\<rparr>) c = admins d c"
  using assms by (auto simp: admins_def rowcount_def del_where_def is_admin_row_def intro!: arg_cong [where f = length] filter_cong)

lemma remove_admin_rows_exact:
  "remove_admin_rows u cids d =
     (filter (\<lambda>c. list_ex (is_admin_row c u) (memberships d) \<and> admins d c \<le> 1) cids,
      d\<lparr>memberships := filter (\<lambda>m. \<not> (is_admin_row (mb_channel_id m) u m \<and> mb_channel_id m \<in> set cids \<and> admins d (mb_channel_id m) > 1))
          (memberships d)\<rparr>)"
proof (induction cids arbitrary: d)
  case Nil
  then show ?case by simp
next
  case (Cons cid cids)
  let ?hit = "\<lambda>m. is_admin_row cid u m \<and> admins d cid > 1"
  let ?d1 = "d\<lparr>memberships := del_where ?hit (memberships d)\<rparr>"
  have row: "is_admin_row c u m \<longleftrightarrow> is_admin_row (mb_channel_id m) u m \<and> mb_channel_id m = c" for c m
    by (auto simp: is_admin_row_def)
  show ?case
  proof (cases "rowcount ?hit (memberships d) \<noteq> 0")
    case True
    then have gt: "admins d cid > 1" by (auto simp: rowcount_def filter_empty_conv)
    have one: "list_ex (is_admin_row c u) (memberships ?d1) \<and> admins ?d1 c \<le> 1 \<longleftrightarrow>
        list_ex (is_admin_row c u) (memberships d) \<and> admins d c \<le> 1" for c
    proof (cases "c = cid")
      case True
      then show ?thesis using gt by (auto simp: list_ex_iff)
    next
      case False
      then have "admins ?d1 c = admins d c" by (rule admins_del_other)
      moreover have "list_ex (is_admin_row c u) (memberships ?d1) = list_ex (is_admin_row c u) (memberships d)"
        using False by (auto simp: list_ex_iff is_admin_row_def)
      ultimately show ?thesis by simp
    qed
    have "filter (\<lambda>m. \<not> (is_admin_row (mb_channel_id m) u m \<and> mb_channel_id m \<in> set cids \<and> admins ?d1 (mb_channel_id m) > 1)) (memberships ?d1)
        = filter (\<lambda>m. \<not> (is_admin_row (mb_channel_id m) u m \<and> mb_channel_id m \<in> set (cid # cids) \<and> admins d (mb_channel_id m) > 1)) (memberships d)"
    proof -
      note other = admins_del_other [where cid = cid and d = d and u = u and P = "admins d cid > 1"]
      have k: "(\<not> (is_admin_row (mb_channel_id m) u m \<and> mb_channel_id m \<in> set cids \<and> admins ?d1 (mb_channel_id m) > 1)) \<and> \<not> ?hit m \<longleftrightarrow>
          \<not> (is_admin_row (mb_channel_id m) u m \<and> mb_channel_id m \<in> set (cid # cids) \<and> admins d (mb_channel_id m) > 1)" for m
      proof (cases "mb_channel_id m = cid")
        case True
        then show ?thesis using gt by (cases "is_admin_row cid u m") simp_all
      next
        case False
        from other [OF this] show ?thesis using False row [of cid m] by (simp only: list.set insert_iff) blast
      qed
      show ?thesis unfolding k [symmetric] by (simp add: del_where_def conj_commute)
    qed
    note filt = this
    have "remove_admin_rows u (cid # cids) d = remove_admin_rows u cids ?d1"
      using True by (simp only: remove_admin_rows.simps Let_def not_False_eq_True if_True)
    moreover have "filter (\<lambda>c. list_ex (is_admin_row c u) (memberships d) \<and> admins d c \<le> 1) (cid # cids) =
        filter (\<lambda>c. list_ex (is_admin_row c u) (memberships d) \<and> admins d c \<le> 1) cids" using gt by simp
    ultimately show ?thesis unfolding Cons.IH [of ?d1] one filt by simp
  next
    case False
    then have none: "\<not> ?hit m" if "m \<in> set (memberships d)" for m using that by (auto simp: rowcount_def filter_empty_conv)
    have "filter (\<lambda>m. \<not> (is_admin_row (mb_channel_id m) u m \<and> mb_channel_id m \<in> set cids \<and> admins d (mb_channel_id m) > 1)) (memberships d)
        = filter (\<lambda>m. \<not> (is_admin_row (mb_channel_id m) u m \<and> mb_channel_id m \<in> set (cid # cids) \<and> admins d (mb_channel_id m) > 1)) (memberships d)"
    proof (rule filter_cong [OF refl])
      fix m assume "m \<in> set (memberships d)"
      from none [OF this] show "(\<not> (is_admin_row (mb_channel_id m) u m \<and> mb_channel_id m \<in> set cids \<and> admins d (mb_channel_id m) > 1)) =
          (\<not> (is_admin_row (mb_channel_id m) u m \<and> mb_channel_id m \<in> set (cid # cids) \<and> admins d (mb_channel_id m) > 1))"
        by (cases "mb_channel_id m = cid") auto
    qed
    moreover have "list_ex (is_admin_row cid u) (memberships d) \<Longrightarrow> admins d cid \<le> 1"
      using none by (fastforce simp: list_ex_iff not_less)
    moreover have "remove_admin_rows u (cid # cids) d = (case remove_admin_rows u cids d of
        (refused, d') \<Rightarrow> (if list_ex (is_admin_row cid u) (memberships d) then cid # refused else refused, d'))"
      using False by (simp only: remove_admin_rows.simps Let_def if_False)
    ultimately show ?thesis unfolding Cons.IH [of d] by simp
  qed
qed

lemma guard_exact:
  "remove_admin_memberships_or_refuse race u d =
     (let cids = admin_channels d u; d0 = race d;
          refused = filter (\<lambda>c. list_ex (is_admin_row c u) (memberships d0) \<and> admins d0 c \<le> 1) cids
      in if refused \<noteq> [] then Inl (CannotDeleteSoleAdmin refused)
         else Inr (d0\<lparr>memberships := filter (\<lambda>m. \<not> (is_admin_row (mb_channel_id m) u m \<and> mb_channel_id m \<in> set cids \<and>
             admins d0 (mb_channel_id m) > 1)) (memberships d0)\<rparr>))"
  by (simp add: remove_admin_memberships_or_refuse_def remove_admin_rows_exact Let_def)

text \<open>What the cascade leaves of each table.\<close>

lemmas purge_defs = purge_user_moderation_rows_def purge_user_reactions_def purge_user_devices_def purge_user_credentials_def
  purge_user_keys_def purge_user_recovery_def leave_communities_def Let_def

lemma delete_account_cases:
  assumes "delete_user_account race u d = Inr d'"
  obtains d0 :: db where "remove_admin_memberships_or_refuse race u d = Inr d0"
    "users d' = del_where (\<lambda>r. u_id r = u) (users (race d))"
    "memberships d' = del_where (\<lambda>m. mb_user_id m = u) (memberships (race d))"
    "channels d' = channels (race d)"
    "messages d' = upd_where (\<lambda>m. m_sender_user_id m = Some u) tombstone (messages (race d))"
    "community_memberships d' = del_where (\<lambda>m. cm_user_id m = u) (community_memberships (race d))"
    "communities d' = communities (leave_communities u (race d))"
    "social_identities d' = del_where (\<lambda>s. si_user_id s = u) (social_identities (race d))"
    "channel_read_positions d' = del_where (\<lambda>p. rp_user_id p = u) (channel_read_positions (race d))"
    "user_blocks d' = user_blocks (purge_user_moderation_rows u (race d))"
    "message_reports d' = message_reports (purge_user_moderation_rows u (race d))"
    "message_reactions d' = message_reactions (purge_user_reactions u (race d))"
    "device_tokens d' = device_tokens (purge_user_devices u (race d))"
    "passkey_credentials d' = passkey_credentials (purge_user_credentials u (race d))"
    "signing_keys d' = signing_keys (purge_user_keys u (race d))"
    "recovery_policies d' = recovery_policies (purge_user_recovery u (race d))"
    "recovery_approvers d' = recovery_approvers (purge_user_recovery u (race d))"
    "pending_recoveries d' = pending_recoveries (purge_user_recovery u (race d))"
    "message_retractions d' = message_retractions (race d)"
    "oauth_handoffs d' = oauth_handoffs (race d)"
    "oauth_states d' = oauth_states (race d)"
    "social_nonces d' = social_nonces (race d)"
    "passkey_challenges d' = passkey_challenges (race d)"
proof -
  obtain d0 where g: "remove_admin_memberships_or_refuse race u d = Inr d0"
    using assms by (cases "remove_admin_memberships_or_refuse race u d") (simp_all add: delete_user_account_def)
  then obtain P where d0: "d0 = (race d)\<lparr>memberships := filter P (memberships (race d))\<rparr>" "\<And>m. mb_user_id m \<noteq> u \<Longrightarrow> P m"
    by (auto simp: guard_exact Let_def is_admin_row_def split: if_splits)
  have m: "del_where (\<lambda>m. mb_user_id m = u) (memberships d0) = del_where (\<lambda>m. mb_user_id m = u) (memberships (race d))"
    using d0(2) by (auto simp: d0(1) del_where_def intro: filter_cong)
  have t: "users d0 = users (race d)"
    "channels d0 = channels (race d)"
    "messages d0 = messages (race d)"
    "community_memberships d0 = community_memberships (race d)"
    "communities d0 = communities (race d)"
    "social_identities d0 = social_identities (race d)"
    "channel_read_positions d0 = channel_read_positions (race d)"
    "user_blocks d0 = user_blocks (race d)"
    "message_reports d0 = message_reports (race d)"
    "message_reactions d0 = message_reactions (race d)"
    "device_tokens d0 = device_tokens (race d)"
    "passkey_credentials d0 = passkey_credentials (race d)"
    "signing_keys d0 = signing_keys (race d)"
    "recovery_policies d0 = recovery_policies (race d)"
    "recovery_approvers d0 = recovery_approvers (race d)"
    "pending_recoveries d0 = pending_recoveries (race d)"
    "message_retractions d0 = message_retractions (race d)"
    "oauth_handoffs d0 = oauth_handoffs (race d)"
    "oauth_states d0 = oauth_states (race d)"
    "social_nonces d0 = social_nonces (race d)"
    "passkey_challenges d0 = passkey_challenges (race d)"
    by (simp_all add: d0(1))
  note eq = assms [unfolded delete_user_account_def g sum.case Let_def sum.inject, symmetric]
  show thesis
    by (rule that [OF g]) (simp_all add: eq purge_defs m t)
qed

section \<open>What a deletion leaves of the account\<close>

text \<open>The foreign keys into \<open>users\<close>: every column that has one, with the identifiers in it.\<close>

definition user_columns :: "(string \<times> (db \<Rightarrow> ident set)) list" where
  "user_columns = [
     (''social_identities.user_id'', \<lambda>d. si_user_id ` set (social_identities d)),
     (''memberships.user_id'', \<lambda>d. mb_user_id ` set (memberships d)),
     (''channel_read_positions.user_id'', \<lambda>d. rp_user_id ` set (channel_read_positions d)),
     (''communities.owner_id'', \<lambda>d. {i. \<exists>c \<in> set (communities d). co_owner_id c = Some i}),
     (''community_memberships.user_id'', \<lambda>d. cm_user_id ` set (community_memberships d)),
     (''messages.sender_user_id'', \<lambda>d. {i. \<exists>m \<in> set (messages d). m_sender_user_id m = Some i}),
     (''user_blocks.blocker_user_id'', \<lambda>d. bl_blocker_user_id ` set (user_blocks d)),
     (''user_blocks.blocked_user_id'', \<lambda>d. bl_blocked_user_id ` set (user_blocks d)),
     (''message_reports.reporter_user_id'', \<lambda>d. {i. \<exists>r \<in> set (message_reports d). rep_reporter_user_id r = Some i}),
     (''message_reports.resolved_by_user_id'', \<lambda>d. {i. \<exists>r \<in> set (message_reports d). rep_resolved_by_user_id r = Some i}),
     (''device_tokens.user_id'', \<lambda>d. dt_user_id ` set (device_tokens d)),
     (''signing_keys.user_id'', \<lambda>d. sk_user_id ` set (signing_keys d)),
     (''passkey_credentials.user_id'', \<lambda>d. pk_user_id ` set (passkey_credentials d)),
     (''recovery_policies.user_id'', \<lambda>d. rpol_user_id ` set (recovery_policies d)),
     (''recovery_approvers.user_id'', \<lambda>d. ra_user_id ` set (recovery_approvers d)),
     (''pending_recovery.user_id'', \<lambda>d. pr_user_id ` set (pending_recoveries d)),
     (''message_reactions.user_id'', \<lambda>d. re_user_id ` set (message_reactions d))]"

definition user_refs :: "db \<Rightarrow> (string \<times> ident) set" where
  "user_refs d = {(column, i). \<exists>ids. (column, ids) \<in> set user_columns \<and> i \<in> ids d}"

lemma owners_upd_none:
  "map co_owner_id (upd_where (\<lambda>c. co_owner_id c = Some u) (\<lambda>c. c\<lparr>co_owner_id := None\<rparr>) (upd_where P f cs)) =
     map (\<lambda>c. if co_owner_id c = Some u then None else co_owner_id c) (upd_where P f cs)"
  by (simp add: upd_where_def)

lemma owners_left:
  "map co_owner_id (communities (leave_communities u d)) =
     map (\<lambda>c. if co_owner_id c = Some u then None else co_owner_id c) (communities d)"
proof -
  let ?mine = "\<lambda>c. co_id c \<in> set (map cm_community_id (filter (\<lambda>m. cm_user_id m = u) (community_memberships d)))"
  let ?less = "\<lambda>c. c\<lparr>co_member_count := co_member_count c - 1\<rparr>"
  have "communities (leave_communities u d) =
      upd_where (\<lambda>c. co_owner_id c = Some u) (\<lambda>c. c\<lparr>co_owner_id := None\<rparr>) (upd_where ?mine ?less (communities d))"
    by (simp add: leave_communities_def Let_def)
  then show ?thesis
    by (simp only: owners_upd_none) (simp add: upd_where_def if_distrib [where f = co_owner_id] cong: if_cong)
qed

text \<open>C15: after a deletion that succeeds the account row is gone and none of the 17 foreign keys into
  \<open>users\<close> holds its identifier, whatever commits around the first read; nor does any of them hold
  an identifier that it did not hold before. Every message keeps its place; those the account wrote
  lose sender, label, body, client id and mentions, those of others keep every field. What is not a
  foreign key stays: the spans by which others' messages mention the account, the key of a direct-message
  channel with it, the payload of a handoff not yet redeemed, and retractions, states, nonces and
  challenges are as they were.\<close>

theorem delete_account_forgets:
  assumes "delete_user_account race u d = Inr d'"
  shows "get_user d' u = None \<and> users d' = [r \<leftarrow> users (race d). u_id r \<noteq> u] \<and>
    u \<notin> snd ` user_refs d' \<and> user_refs d' \<subseteq> user_refs (race d) \<and>
    messages d' = map (\<lambda>m. if m_sender_user_id m = Some u
      then m\<lparr>m_sender_user_id := None, m_sender_label := Some ''[deleted user]'', m_body := ''[deleted]'',
             m_client_msg_id := None, m_mentions := None\<rparr>
      else m) (messages (race d)) \<and>
    memberships d' = [m \<leftarrow> memberships (race d). mb_user_id m \<noteq> u] \<and>
    channels d' = channels (race d) \<and> message_retractions d' = message_retractions (race d) \<and>
    oauth_handoffs d' = oauth_handoffs (race d) \<and> oauth_states d' = oauth_states (race d) \<and>
    social_nonces d' = social_nonces (race d) \<and> passkey_challenges d' = passkey_challenges (race d)"
  using assms
proof (cases rule: delete_account_cases)
  case (1 d0)
  have reps: "message_reports d' = map (\<lambda>r. r\<lparr>rep_reporter_user_id := (if rep_reporter_user_id r = Some u then None else rep_reporter_user_id r),
      rep_resolved_by_user_id := (if rep_resolved_by_user_id r = Some u then None else rep_resolved_by_user_id r)\<rparr>) (message_reports (race d))"
    by (auto simp: 1(11) purge_user_moderation_rows_def upd_where_def Let_def)
  have owners: "map co_owner_id (communities d') =
      map (\<lambda>c. if co_owner_id c = Some u then None else co_owner_id c) (communities (race d))"
    unfolding 1(7) by (rule owners_left)
  have owner: "(\<exists>c \<in> set (communities d'). co_owner_id c = Some i) \<longleftrightarrow>
      i \<noteq> u \<and> (\<exists>c \<in> set (communities (race d)). co_owner_id c = Some i)" for i
  proof -
    have "(\<exists>c \<in> set (communities d'). co_owner_id c = Some i) \<longleftrightarrow> Some i \<in> co_owner_id ` set (communities d')"
      by (simp only: image_iff eq_commute [of "Some i"])
    also have "\<dots> \<longleftrightarrow> Some i \<in> set (map (\<lambda>c. if co_owner_id c = Some u then None else co_owner_id c) (communities (race d)))"
      by (simp only: owners [symmetric] list.set_map)
    also have "\<dots> \<longleftrightarrow> (\<exists>c \<in> set (communities (race d)). (if co_owner_id c = Some u then None else co_owner_id c) = Some i)"
      by (simp only: list.set_map image_iff eq_commute [of "Some i"])
    also have "\<dots> \<longleftrightarrow> (\<exists>c \<in> set (communities (race d)). i \<noteq> u \<and> co_owner_id c = Some i)"
      by (intro bex_cong refl) auto
    also have "\<dots> \<longleftrightarrow> i \<noteq> u \<and> (\<exists>c \<in> set (communities (race d)). co_owner_id c = Some i)"
      by simp
    finally show ?thesis .
  qed
  have sender: "(\<exists>m \<in> set (messages d'). m_sender_user_id m = Some i) \<longleftrightarrow>
      i \<noteq> u \<and> (\<exists>m \<in> set (messages (race d)). m_sender_user_id m = Some i)" for i
    by (auto simp: 1(5) upd_where_def tombstone_def)
  have "list_all (\<lambda>c. snd c d' \<subseteq> snd c (race d) - {u}) user_columns"
    unfolding user_columns_def list.pred_inject snd_conv owner sender reps
    by (intro conjI) (auto simp: 1(2-10,12-) purge_defs split: if_splits)
  then have refs: "user_refs d' \<subseteq> {x \<in> user_refs (race d). snd x \<noteq> u}"
    unfolding user_refs_def list_all_iff by fastforce
  have "get_user d' u = None" unfolding get_user_def find_None_iff by (simp add: 1)
  moreover have "messages d' = map (\<lambda>m. if m_sender_user_id m = Some u
      then m\<lparr>m_sender_user_id := None, m_sender_label := Some ''[deleted user]'', m_body := ''[deleted]'',
             m_client_msg_id := None, m_mentions := None\<rparr>
      else m) (messages (race d))"
    by (simp add: 1(5) upd_where_def tombstone_def DELETED_USER_LABEL_def DELETED_BODY_def)
  ultimately show ?thesis using refs by (auto simp: 1(2-4,19-) del_where_def)
qed

section \<open>The sole-admin guard\<close>

lemma set_admin_channels: "c \<in> set (admin_channels d u) \<longleftrightarrow> list_ex (is_admin_row c u) (memberships d)"
  by (auto simp: admin_channels_def list_ex_iff is_admin_row_def)

text \<open>Alone in the database, a deletion is refused exactly when some channel has the caller as
  its only admin, and the refusal names those channels in order; otherwise it succeeds.\<close>

theorem deletion_refused_exactly:
  "(case delete_user_account id u d of
      Inl (CannotDeleteSoleAdmin cs) \<Rightarrow> cs \<noteq> [] \<and> sorted cs \<and> set cs = {c. list_ex (is_admin_row c u) (memberships d) \<and> admins d c = 1}
    | Inr _ \<Rightarrow> {c. list_ex (is_admin_row c u) (memberships d) \<and> admins d c = 1} = {})"
proof -
  have pos: "admins d c \<noteq> 0" if "list_ex (is_admin_row c u) (memberships d)" for c
    using that by (auto simp: admins_def rowcount_def filter_empty_conv list_ex_iff is_admin_row_def)
  let ?r = "filter (\<lambda>c. list_ex (is_admin_row c u) (memberships d) \<and> admins d c \<le> 1) (admin_channels d u)"
  have r: "set ?r = {c. list_ex (is_admin_row c u) (memberships d) \<and> admins d c = 1}"
    using pos by (fastforce simp: set_admin_channels le_Suc_eq)
  have "sorted (admin_channels d u)" using sorted_order_asc [of id] by (simp add: admin_channels_def)
  then have s: "sorted ?r" using sorted_filter [of id] by simp
  show ?thesis
  proof (cases "?r = []")
    case True
    then have "remove_admin_memberships_or_refuse id u d \<noteq> Inl e" for e by (simp add: guard_exact Let_def)
    then obtain d0 where "remove_admin_memberships_or_refuse id u d = Inr d0"
      by (cases "remove_admin_memberships_or_refuse id u d") auto
    then show ?thesis using True r by (simp add: delete_user_account_def Let_def)
  next
    case False
    then have "remove_admin_memberships_or_refuse id u d = Inl (CannotDeleteSoleAdmin ?r)" by (simp add: guard_exact Let_def)
    then show ?thesis using False r s by (simp add: delete_user_account_def)
  qed
qed

text \<open>An account has at most one admin row in a channel.\<close>

lemma admins_without:
  assumes "unique_on mb_key (memberships e)"
  shows "rowcount (\<lambda>m. mb_channel_id m = c \<and> mb_role m = ADMIN) (del_where (\<lambda>m. mb_user_id m = u) (memberships e)) =
    admins e c - (if list_ex (is_admin_row c u) (memberships e) then 1 else 0)"
proof -
  let ?mine = "filter (is_admin_row c u) (memberships e)"
  have "distinct (map mb_key ?mine)" using assms by (simp add: unique_on_def distinct_map_filter)
  moreover have "set (map mb_key ?mine) \<subseteq> {(c, u)}" by (auto simp: mb_key_def is_admin_row_def)
  ultimately have "length ?mine \<le> 1"
    by (metis (no_types, lifting) card_mono card.empty card.insert distinct_card empty_iff finite.emptyI finite.insertI length_map One_nat_def)
  then have mine: "length ?mine = (if list_ex (is_admin_row c u) (memberships e) then 1 else 0)"
    by (auto simp: filter_empty_conv list_ex_iff le_Suc_eq)
  have "length (filter (\<lambda>m. mb_user_id m = u) xs) + length (filter (\<lambda>m. mb_user_id m \<noteq> u) xs) = length xs" for xs :: "membership list"
    by (rule sum_length_filter_compl)
  from this [of "filter (\<lambda>m. mb_channel_id m = c \<and> mb_role m = ADMIN) (memberships e)"]
  have "length ?mine + rowcount (\<lambda>m. mb_channel_id m = c \<and> mb_role m = ADMIN) (del_where (\<lambda>m. mb_user_id m = u) (memberships e)) =
      admins e c"
    by (simp add: admins_def rowcount_def del_where_def is_admin_row_def [abs_def] conj_commute conj_left_commute)
  then show ?thesis unfolding mine by simp
qed

text \<open>C16: exactly when a deletion that succeeds leaves a channel without an admin: it had none when the
  transaction took the write lock, or its one admin was the caller, made admin after the call had read
  which channels the caller administers. So co-admins who leave, or delete their accounts, in that
  window cannot make it orphan a channel; a promotion in it can.\<close>

theorem deletion_keeps_admins:
  assumes "delete_user_account race u d = Inr d'" and "unique_on mb_key (memberships (race d))"
  shows "admins d' c = 0 \<longleftrightarrow> admins (race d) c = 0 \<or>
    admins (race d) c = 1 \<and> list_ex (is_admin_row c u) (memberships (race d)) \<and>
    \<not> list_ex (is_admin_row c u) (memberships d)"
  using assms(1)
proof (cases rule: delete_account_cases)
  case (1 d0)
  have d': "admins d' c = admins (race d) c - (if list_ex (is_admin_row c u) (memberships (race d)) then 1 else 0)"
    using admins_without [OF assms(2)] by (simp add: admins_def 1(3))
  moreover have "1 < admins (race d) c"
    if "list_ex (is_admin_row c u) (memberships (race d))" "list_ex (is_admin_row c u) (memberships d)"
  proof -
    from that(2) have "c \<in> set (admin_channels d u)" by (simp add: set_admin_channels)
    then show ?thesis using that(1) 1(1)
      by (auto simp: guard_exact Let_def filter_empty_conv not_le split: if_splits)
  qed
  ultimately show ?thesis by auto
qed

text \<open>The window the guard leaves open: promoted in it, the caller takes the last admin along.\<close>

definition ex_promotion :: "db \<Rightarrow> db" where
  "ex_promotion d = d\<lparr>memberships := map (\<lambda>m. if mb_user_id m = ''a'' then m\<lparr>mb_role := ADMIN\<rparr> else m\<lparr>mb_role := MEMBER\<rparr>) (memberships d)\<rparr>"

definition ex_pair :: db where
  "ex_pair = empty_db\<lparr>users := [ex_user ''a'', ex_user ''b''], memberships :=
     [\<lparr>mb_channel_id = ''c'', mb_user_id = ''a'', mb_role = MEMBER, mb_can_post = True, mb_joined_at = 0\<rparr>,
      \<lparr>mb_channel_id = ''c'', mb_user_id = ''b'', mb_role = ADMIN, mb_can_post = True, mb_joined_at = 0\<rparr>]\<rparr>"

theorem promotion_during_deletion_orphans:
  "admins ex_pair ''c'' = 1 \<and> admins (ex_promotion ex_pair) ''c'' = 1 \<and>
   (\<exists>d'. delete_user_account ex_promotion ''a'' ex_pair = Inr d' \<and> admins d' ''c'' = 0)"
proof -
  have "admin_channels ex_pair ''a'' = []" by (simp add: admin_channels_def ex_pair_def order_asc_def)
  then obtain d0 where "remove_admin_memberships_or_refuse ex_promotion ''a'' ex_pair = Inr d0" by (simp add: guard_exact Let_def)
  then obtain d' where d': "delete_user_account ex_promotion ''a'' ex_pair = Inr d'" by (simp add: delete_user_account_def Let_def)
  then have "admins d' ''c'' = 0"
    by (cases rule: delete_account_cases) (simp add: admins_def rowcount_def ex_pair_def ex_promotion_def)
  then show ?thesis using d' by (simp add: admins_def rowcount_def ex_pair_def ex_promotion_def)
qed

section \<open>Witnesses\<close>

definition ex_farewell :: message where
  "ex_farewell = \<lparr>m_id = ''m'', m_channel_id = ''c'', m_sender_user_id = Some ''a'', m_sender_kind = SENDER_HUMAN,
     m_sender_label = None, m_body = ''bye'', m_reply_to = None, m_client_msg_id = Some ''x'', m_aiko_origin = False, m_origin = None,
     m_mentions = None, m_created_at = 0, m_edited_at = None, m_deleted_at = None\<rparr>"

definition ex_leaver :: db where
  "ex_leaver = ex_two_admins\<lparr>users := [ex_user ''a'', ex_user ''b''], messages := [ex_farewell]\<rparr>"

lemma ex_leaver_deletes: "\<exists>d'. delete_user_account id ''a'' ex_leaver = Inr d'"
proof -
  have "\<not> (list_ex (is_admin_row c ''a'') (memberships ex_leaver) \<and> admins ex_leaver c \<le> 1)" for c
    by (auto simp: ex_leaver_def ex_two_admins_def ex_admin_def is_admin_row_def admins_def rowcount_def)
  then have "\<exists>d0. remove_admin_memberships_or_refuse id ''a'' ex_leaver = Inr d0" by (simp add: guard_exact Let_def)
  then show ?thesis by (auto simp: delete_user_account_def Let_def)
qed

theorem delete_account_forgets_witness:
  "\<exists>d'. delete_user_account id ''a'' ex_leaver = Inr d' \<and> ''a'' \<notin> snd ` user_refs d' \<and> map m_id (messages d') = [''m''] \<and>
     map m_body (messages d') = [''[deleted]'']"
proof -
  obtain d' where d': "delete_user_account id ''a'' ex_leaver = Inr d'" using ex_leaver_deletes by blast
  have ms: "messages ex_leaver = [ex_farewell]" by (simp add: ex_leaver_def)
  from delete_account_forgets [OF d'] have "''a'' \<notin> snd ` user_refs d'"
      "map m_id (messages d') = [''m'']" "map m_body (messages d') = [''[deleted]'']"
    by (simp_all add: ms ex_farewell_def)
  with d' show ?thesis by metis
qed

theorem deletion_keeps_admins_witness:
  "\<exists>d'. delete_user_account id ''a'' ex_leaver = Inr d' \<and> admins d' ''r'' > 0"
proof -
  obtain d' where d': "delete_user_account id ''a'' ex_leaver = Inr d'" using ex_leaver_deletes by blast
  have "unique_on mb_key (memberships (id ex_leaver))" "admins (id ex_leaver) ''r'' > 0"
    by (simp_all add: ex_leaver_def ex_two_admins_def ex_admin_def unique_on_def mb_key_def admins_def rowcount_def)
  with deletion_keeps_admins [OF d' this(1), of "''r''"] d' show ?thesis by auto
qed

end
