(* ===== verification/Communities.thy ===== *)
theory Communities
  imports Accounts Signing Decimal "HOL-Library.Product_Lexorder"
begin

text \<open>The community directory (\<open>domain/communities_service.py\<close>): who may see and who may newly join
  a community, the keyset-paginated public directory with its opaque cursor, and the join whose
  visibility check is part of the INSERT. Query parameters and decoded cursors are lists of code
  points, for which the standard library's UTF-8 and base64 codecs are written out; the digit
  classes of code points from 128 on (\<open>str.isdigit\<close> and the decimal value \<open>int\<close> reads) are
  arguments. Text is free of NUL. What other sessions commit between two statements of a join
  is an argument of the join.\<close>

section \<open>Definitions\<close>

definition PAGE_SIZE :: nat where "PAGE_SIZE = 20"
definition SORTS :: "string list" where "SORTS = [''members'', ''name'']"
definition CURSOR_SEP :: nat where "CURSOR_SEP = 31"

datatype join_error = CommunityNotFound | NoResultFound
datatype discover_error = InvalidCursor | ValueError | OverflowError

definition discoverable_predicate :: "community \<Rightarrow> bool" where
  "discoverable_predicate c \<longleftrightarrow> co_visibility c = PUBLIC \<and> co_taken_down_at c = None"

definition in_community :: "db \<Rightarrow> ident \<Rightarrow> ident \<Rightarrow> bool" where
  "in_community d community_id user_id \<longleftrightarrow>
     list_ex (\<lambda>m. cm_community_id m = community_id \<and> cm_user_id m = user_id) (community_memberships d)"

definition accessible_predicate :: "db \<Rightarrow> ident \<Rightarrow> community \<Rightarrow> bool" where
  "accessible_predicate d viewer_id c \<longleftrightarrow>
     co_taken_down_at c = None \<and> (co_visibility c = PUBLIC \<or> in_community d (co_id c) viewer_id)"

subsection \<open>The standard library's codecs\<close>

text \<open>\<open>bytes.decode()\<close>, strict: the next character is the one whose encoding starts the bytes.\<close>

fun utf8_value :: "nat list \<Rightarrow> nat" where
  "utf8_value [a] = a"
| "utf8_value [a, b] = (a - 0xC0) * 64 + (b - 0x80)"
| "utf8_value [a, b, c] = ((a - 0xE0) * 64 + (b - 0x80)) * 64 + (c - 0x80)"
| "utf8_value [a, b, c, e] = (((a - 0xF0) * 64 + (b - 0x80)) * 64 + (c - 0x80)) * 64 + (e - 0x80)"
| "utf8_value _ = 0"

definition utf8_width :: "nat list \<Rightarrow> nat option" where
  "utf8_width bs = find (\<lambda>n. utf8_char (utf8_value (take n bs)) = Some (take n bs)) [1, 2, 3, 4]"

function utf8_decode :: "nat list \<Rightarrow> code_points option" where
  "utf8_decode bs =
     (if bs = [] then Some []
      else case utf8_width bs of
             None \<Rightarrow> None
           | Some n \<Rightarrow> map_option (Cons (utf8_value (take n bs))) (utf8_decode (drop n bs)))"
  by pat_completeness auto
termination
  by (relation "measure length") (auto simp: utf8_width_def split: if_splits)

declare utf8_decode.simps [simp del]

text \<open>\<open>base64.urlsafe_b64encode\<close>, and the scanner of \<open>base64.urlsafe_b64decode\<close>, which skips what is
  not in the alphabet and stops at complete padding: the position in the group of four, the
  padding seen and the bits left over.\<close>

definition urlsafe_b64encode :: "byte list \<Rightarrow> string" where
  "urlsafe_b64encode raw = b64url_nopad raw @ replicate ((3 - length raw mod 3) mod 3) (CHR ''='')"

definition b64_digit :: "char \<Rightarrow> nat option" where
  "b64_digit c =
     (if c \<in> set B64URL_ALPHABET then Some (b64_value c)
      else if c = CHR ''+'' then Some 62 else if c = CHR ''/'' then Some 63 else None)"

fun a2b_base64 :: "nat \<Rightarrow> nat \<Rightarrow> nat \<Rightarrow> string \<Rightarrow> nat list option" where
  "a2b_base64 quad pads left [] = (if quad = 0 then Some [] else None)"
| "a2b_base64 quad pads left (c # cs) =
     (if c = CHR ''=''
      then if quad \<ge> 2 then (if quad + Suc pads \<ge> 4 then Some [] else a2b_base64 quad (Suc pads) left cs)
           else a2b_base64 quad pads left cs
      else case b64_digit c of
             None \<Rightarrow> a2b_base64 quad pads left cs
           | Some v \<Rightarrow>
               if quad = 0 then a2b_base64 1 0 v cs
               else if quad = 1 then map_option (Cons (left * 4 + v div 16)) (a2b_base64 2 0 (v mod 16) cs)
               else if quad = 2 then map_option (Cons (left * 16 + v div 4)) (a2b_base64 3 0 (v mod 4) cs)
               else map_option (Cons (left * 64 + v)) (a2b_base64 0 0 0 cs))"

definition b64decode_text :: "code_points \<Rightarrow> code_points option" where
  "b64decode_text token =
     (case utf8_nats token of
        None \<Rightarrow> None
      | Some bs \<Rightarrow> (case a2b_base64 0 0 0 (map char_of bs) of None \<Rightarrow> None | Some raw \<Rightarrow> utf8_decode raw))"

subsection \<open>The cursor\<close>

definition encode_cursor :: "string \<Rightarrow> string \<Rightarrow> ident \<Rightarrow> string" where
  "encode_cursor mode key community_id =
     (case str_encode (points mode @ [CURSOR_SEP] @ points key @ [CURSOR_SEP] @ points community_id) of
        None \<Rightarrow> [] | Some raw \<Rightarrow> urlsafe_b64encode raw)"

definition split_first :: "nat \<Rightarrow> code_points \<Rightarrow> (code_points \<times> code_points) option" where
  "split_first sep s =
     (if sep \<in> set s then Some (takeWhile (\<lambda>c. c \<noteq> sep) s, tl (dropWhile (\<lambda>c. c \<noteq> sep) s)) else None)"

definition split_last :: "nat \<Rightarrow> code_points \<Rightarrow> (code_points \<times> code_points) option" where
  "split_last sep s = map_option (\<lambda>(a, b). (rev b, rev a)) (split_first sep (rev s))"

definition decode_cursor :: "code_points \<Rightarrow> string \<Rightarrow> (code_points \<times> code_points) option" where
  "decode_cursor token expected_sort =
     (case b64decode_text token of
        None \<Rightarrow> None
      | Some raw \<Rightarrow>
          (case split_first CURSOR_SEP raw of
             None \<Rightarrow> None
           | Some (mode, rest) \<Rightarrow>
               (case split_last CURSOR_SEP rest of
                  None \<Rightarrow> None
                | Some (key, community_id) \<Rightarrow>
                    if mode \<noteq> points expected_sort then None else Some (key, community_id))))"

subsection \<open>The search pattern\<close>

definition LIKE_ESCAPE :: nat where "LIKE_ESCAPE = 92"

definition replace_char :: "nat \<Rightarrow> code_points \<Rightarrow> code_points \<Rightarrow> code_points" where
  "replace_char c new s = concat (map (\<lambda>x. if x = c then new else [x]) s)"

definition escape_like :: "code_points \<Rightarrow> code_points" where
  "escape_like q = replace_char 95 [92, 95] (replace_char 37 [92, 37] (replace_char 92 [92, 92] q))"

definition sql_lower :: "code_points \<Rightarrow> code_points" where
  "sql_lower s = map (\<lambda>c. if 65 \<le> c \<and> c \<le> 90 then c + 32 else c) s"

text \<open>\<open>LIKE\<close> with \<open>ESCAPE\<close>: percent is any run, underscore any one character.\<close>

function like :: "code_points \<Rightarrow> code_points \<Rightarrow> bool" where
  "like [] s = (s = [])"
| "like (p # ps) s =
     (if p = 37 then like ps s \<or> (case s of [] \<Rightarrow> False | c # s' \<Rightarrow> like (p # ps) s')
      else if s = [] then False
      else if p = LIKE_ESCAPE then (case ps of [] \<Rightarrow> False | e # ps' \<Rightarrow> e = hd s \<and> like ps' (tl s))
      else (p = 95 \<or> p = hd s) \<and> like ps (tl s))"
  by pat_completeness auto
termination by (relation "measure (\<lambda>(ps, s). length ps + length s)") auto

definition ilike :: "code_points \<Rightarrow> code_points \<Rightarrow> bool" where
  "ilike pattern s = like (sql_lower pattern) (sql_lower s)"

subsection \<open>Discovery\<close>

definition py_isdigit :: "(nat \<Rightarrow> bool) \<Rightarrow> nat \<Rightarrow> bool" where
  "py_isdigit digit c = (if c < 128 then 48 \<le> c \<and> c \<le> 57 else digit c)"

definition py_decimal :: "(nat \<Rightarrow> nat option) \<Rightarrow> nat \<Rightarrow> nat option" where
  "py_decimal decimal c = (if c < 128 then if 48 \<le> c \<and> c \<le> 57 then Some (c - 48) else None else decimal c)"

text \<open>\<open>int(sort_key)\<close> of minus signs followed by digits: the \<open>ValueError\<close> is \<open>None\<close>.\<close>

definition int_of_key :: "(nat \<Rightarrow> nat option) \<Rightarrow> code_points \<Rightarrow> int option" where
  "int_of_key decimal key =
     (let minus = takeWhile (\<lambda>c. c = 45) key; digits = dropWhile (\<lambda>c. c = 45) key; vs = map (py_decimal decimal) digits
      in if length minus > 1 \<or> None \<in> set vs \<or> length digits > MAX_STR_DIGITS then None
         else let n = foldl (\<lambda>a v. 10 * a + the v) 0 vs
              in Some (if minus = [] then int n else - int n))"

definition clamp_sort :: "code_points \<Rightarrow> string" where
  "clamp_sort mode = (case find (\<lambda>s. points s = mode) SORTS of None \<Rightarrow> ''members'' | Some s \<Rightarrow> s)"

definition after_cursor :: "(nat \<Rightarrow> bool) \<Rightarrow> (nat \<Rightarrow> nat option) \<Rightarrow> string \<Rightarrow> code_points \<Rightarrow>
    discover_error + (community \<Rightarrow> bool)" where
  "after_cursor digit decimal mode cursor =
     (case decode_cursor cursor mode of
        None \<Rightarrow> Inl InvalidCursor
      | Some (key, last_id) \<Rightarrow>
          if mode = ''members'' then
            let digits = dropWhile (\<lambda>c. c = 45) key
            in if digits = [] \<or> \<not> list_all (py_isdigit digit) digits then Inl InvalidCursor
               else case int_of_key decimal key of
                      None \<Rightarrow> Inl ValueError
                    | Some mc \<Rightarrow>
                        if mc < - (2 ^ 63) \<or> 2 ^ 63 \<le> mc then Inl OverflowError
                        else Inr (\<lambda>c. co_member_count c < mc \<or> co_member_count c = mc \<and> points (co_id c) > last_id)
          else Inr (\<lambda>c. points (co_name c) > key \<or> points (co_name c) = key \<and> points (co_id c) > last_id))"

definition matches :: "code_points option \<Rightarrow> code_points option \<Rightarrow> community \<Rightarrow> bool" where
  "matches q category c \<longleftrightarrow>
     discoverable_predicate c \<and>
     (case q of None \<Rightarrow> True | Some t \<Rightarrow> t = [] \<or> ilike ([37] @ escape_like t @ [37]) (points (co_name c))) \<and>
     (case category of None \<Rightarrow> True | Some t \<Rightarrow> t = [] \<or> points (category_value (co_category c)) = t)"

definition by_members :: "community \<Rightarrow> int \<times> code_points" where
  "by_members c = (- co_member_count c, points (co_id c))"

definition by_name :: "community \<Rightarrow> code_points \<times> code_points" where
  "by_name c = (points (co_name c), points (co_id c))"

definition directory_order :: "string \<Rightarrow> community list \<Rightarrow> community list" where
  "directory_order mode rows = (if mode = ''members'' then order_asc by_members rows else order_asc by_name rows)"

definition discover :: "(nat \<Rightarrow> bool) \<Rightarrow> (nat \<Rightarrow> nat option) \<Rightarrow> code_points option \<Rightarrow> code_points option \<Rightarrow> code_points \<Rightarrow>
    code_points option \<Rightarrow> db \<Rightarrow> discover_error + (community list \<times> string option)" where
  "discover digit decimal q category sort0 cursor d =
     (let mode = clamp_sort sort0;
          after = (case cursor of
                     None \<Rightarrow> Inr (\<lambda>c. True)
                   | Some t \<Rightarrow> if t = [] then Inr (\<lambda>c. True) else after_cursor digit decimal mode t)
      in case after of
           Inl e \<Rightarrow> Inl e
         | Inr later \<Rightarrow>
             let rows = take (PAGE_SIZE + 1) (directory_order mode (filter (\<lambda>c. matches q category c \<and> later c) (communities d)));
                 page = take PAGE_SIZE rows
             in Inr (page,
                  if length rows > PAGE_SIZE \<and> page \<noteq> []
                  then Some (encode_cursor mode (if mode = ''members'' then int_str (co_member_count (last page)) else co_name (last page))
                               (co_id (last page)))
                  else None))"

subsection \<open>Detail, join and the caller's communities\<close>

definition community_detail :: "(db \<Rightarrow> db) \<Rightarrow> ident \<Rightarrow> ident \<Rightarrow> db \<Rightarrow> join_error + (community \<times> channel list)" where
  "community_detail race viewer_id community_id d =
     (case find (\<lambda>c. co_id c = community_id \<and> accessible_predicate d viewer_id c) (communities d) of
        None \<Rightarrow> Inl CommunityNotFound
      | Some c \<Rightarrow> Inr (c, visible_channels_in_community (race d) viewer_id community_id))"

definition joinable :: "db \<Rightarrow> ident \<Rightarrow> bool" where
  "joinable d community_id \<longleftrightarrow>
     list_ex (\<lambda>c. co_id c = community_id \<and> co_visibility c = PUBLIC \<and> co_taken_down_at c = None) (communities d)"

definition new_join_insert :: "instant \<Rightarrow> ident \<Rightarrow> ident \<Rightarrow> db \<Rightarrow> db_error + (nat \<times> db)" where
  "new_join_insert now community_id user_id d =
     (if \<not> joinable d community_id then Inr (0, d)
      else let row = \<lparr>cm_community_id = community_id, cm_user_id = user_id, cm_role = MEMBER, cm_joined_at = now\<rparr>
           in if list_ex (\<lambda>m. cm_key m = cm_key row) (community_memberships d) then Inl IntegrityError
              else Inr (1, d\<lparr>community_memberships := community_memberships d @ [row]\<rparr>))"

definition bump_member_count :: "ident \<Rightarrow> db \<Rightarrow> db" where
  "bump_member_count community_id d =
     d\<lparr>communities := upd_where (\<lambda>c. co_id c = community_id) (\<lambda>c. c\<lparr>co_member_count := co_member_count c + 1\<rparr>) (communities d)\<rparr>"

definition get_community :: "db \<Rightarrow> ident \<Rightarrow> community option" where
  "get_community d community_id = find (\<lambda>c. co_id c = community_id) (communities d)"

definition join_community :: "(db \<Rightarrow> db) \<Rightarrow> (db \<Rightarrow> db) \<Rightarrow> (db \<Rightarrow> db) \<Rightarrow> instant \<Rightarrow> ident \<Rightarrow> ident \<Rightarrow> db \<Rightarrow>
    join_error + ((community \<times> channel list \<times> bool) \<times> db)" where
  "join_community race1 race2 race3 now viewer_id community_id d =
     (if in_community d community_id viewer_id then
        (case find (\<lambda>c. co_id c = community_id \<and> co_taken_down_at c = None) (communities (race1 d)) of
           None \<Rightarrow> Inl CommunityNotFound
         | Some c \<Rightarrow>
             let d2 = race2 (race1 d)
             in Inr ((c, visible_channels_in_community d2 viewer_id community_id, False), d2))
      else if \<not> joinable (race1 d) community_id then Inl CommunityNotFound
      else let d1 = race2 (race1 d);
               (rows, d2) = (case new_join_insert now community_id viewer_id d1 of
                               Inl IntegrityError \<Rightarrow> (None, d1) | Inr (n, d') \<Rightarrow> (Some n, d'))
           in if rows = Some 0 then Inl CommunityNotFound
              else let d3 = (if rows = Some 1 then bump_member_count community_id (race3 d2) else race3 d2)
                   in case get_community d3 community_id of
                        None \<Rightarrow> Inl NoResultFound
                      | Some c \<Rightarrow> Inr ((c, visible_channels_in_community d3 viewer_id community_id, rows = Some 1), d3))"

definition list_mine :: "ident \<Rightarrow> db \<Rightarrow> community list" where
  "list_mine viewer_id d =
     order_asc co_id
       (concat (map (\<lambda>m. filter (\<lambda>c. co_id c = cm_community_id m \<and> co_taken_down_at c = None) (communities d))
          (filter (\<lambda>m. cm_user_id m = viewer_id) (community_memberships d))))"

subsection \<open>The routes (\<open>rest/communities.py\<close>)\<close>

definition directory_item :: "(instant \<Rightarrow> string) \<Rightarrow> community \<Rightarrow> json" where
  "directory_item isoformat c = JObj
     [(''id'', JStr (co_id c)), (''name'', JStr (co_name c)), (''description'', json_opt (co_description c)),
      (''icon_url'', json_opt (co_icon_url c)), (''visibility'', JStr (visibility_value (co_visibility c))),
      (''member_count'', JInt (co_member_count c)), (''owner_id'', json_opt (co_owner_id c)),
      (''category'', JStr (category_value (co_category c))), (''default_channel_id'', json_opt (co_default_channel_id c)),
      (''last_activity_at'', json_opt (map_option isoformat (co_last_activity_at c)))]"

definition channel_item :: "channel \<Rightarrow> json" where
  "channel_item ch = JObj
     [(''id'', JStr (ch_id ch)), (''name'', JStr (ch_name ch)), (''kind'', JStr (channel_kind_value (ch_kind ch))),
      (''aiko_channel'', JStr (ch_aiko_channel ch)), (''community_id'', json_opt (ch_community_id ch))]"

definition join_status :: "join_error \<Rightarrow> http_error" where
  "join_status e = (case e of CommunityNotFound \<Rightarrow> Http 404 | NoResultFound \<Rightarrow> Http 500)"

definition discover_communities :: "(instant \<Rightarrow> string) \<Rightarrow> (nat \<Rightarrow> bool) \<Rightarrow> (nat \<Rightarrow> nat option) \<Rightarrow> code_points option \<Rightarrow>
    code_points option \<Rightarrow> code_points \<Rightarrow> code_points option \<Rightarrow> db \<Rightarrow> http_error + json" where
  "discover_communities isoformat digit decimal q category sort0 cursor d =
     (case discover digit decimal q category sort0 cursor d of
        Inl InvalidCursor \<Rightarrow> Inl (Http 400)
      | Inl _ \<Rightarrow> Inl (Http 500)
      | Inr (rows, next_cursor) \<Rightarrow>
          Inr (JObj [(''communities'', JList (map (directory_item isoformat) rows)), (''next_cursor'', json_opt next_cursor)]))"

definition list_my_communities :: "(instant \<Rightarrow> string) \<Rightarrow> ident \<Rightarrow> db \<Rightarrow> json" where
  "list_my_communities isoformat user_id d =
     JObj [(''communities'', JList (map (directory_item isoformat) (list_mine user_id d)))]"

definition get_community_route :: "(instant \<Rightarrow> string) \<Rightarrow> (db \<Rightarrow> db) \<Rightarrow> ident \<Rightarrow> ident \<Rightarrow> db \<Rightarrow> http_error + json" where
  "get_community_route isoformat race user_id community_id d =
     (case community_detail race user_id community_id d of
        Inl e \<Rightarrow> Inl (join_status e)
      | Inr (c, chans) \<Rightarrow>
          (case directory_item isoformat c of
             JObj kvs \<Rightarrow> Inr (JObj (kvs @ [(''channels'', JList (map channel_item chans))]))
           | j \<Rightarrow> Inr j))"

definition join_community_route :: "(instant \<Rightarrow> string) \<Rightarrow> (db \<Rightarrow> db) \<Rightarrow> (db \<Rightarrow> db) \<Rightarrow> (db \<Rightarrow> db) \<Rightarrow> instant \<Rightarrow> ident \<Rightarrow> ident \<Rightarrow> db \<Rightarrow>
    http_error + (json \<times> db)" where
  "join_community_route isoformat race1 race2 race3 now user_id community_id d =
     (case join_community race1 race2 race3 now user_id community_id d of
        Inl e \<Rightarrow> Inl (join_status e)
      | Inr ((c, chans, joined), d') \<Rightarrow>
          Inr (JObj [(''community'', directory_item isoformat c), (''channels'', JList (map channel_item chans)),
                     (''joined'', JBool joined)], d'))"

section \<open>The search pattern is a substring test\<close>

lemma like_percent: "like (37 # ps) s \<longleftrightarrow> (\<exists>a b. s = a @ b \<and> like ps b)"
proof (induction s)
  case Nil
  show ?case by simp
next
  case (Cons c s)
  have "like (37 # ps) (c # s) \<longleftrightarrow> like ps (c # s) \<or> like (37 # ps) s" by simp
  also have "\<dots> \<longleftrightarrow> (\<exists>a b. c # s = a @ b \<and> like ps b)"
    unfolding Cons.IH by (metis (no_types) append_Cons append_Nil append_eq_Cons_conv)
  finally show ?case .
qed

definition escape_char :: "nat \<Rightarrow> code_points" where
  "escape_char c = (if c = 92 \<or> c = 37 \<or> c = 95 then [92, c] else [c])"

lemma escape_like_chars: "escape_like q = concat (map escape_char q)"
  by (induction q) (auto simp: escape_like_def replace_char_def escape_char_def)

definition lower_char :: "nat \<Rightarrow> nat" where
  "lower_char c = (if 65 \<le> c \<and> c \<le> 90 then c + 32 else c)"

lemma sql_lower_map: "sql_lower = map lower_char"
  by (rule ext) (simp add: sql_lower_def lower_char_def)

lemma like_escape_char:
  "like (sql_lower (escape_char c) @ ps) s \<longleftrightarrow> s \<noteq> [] \<and> hd s = lower_char c \<and> like ps (tl s)"
  by (cases s) (auto simp: escape_char_def sql_lower_map lower_char_def LIKE_ESCAPE_def)

lemma like_escaped: "like (sql_lower (escape_like q) @ ps) s \<longleftrightarrow> (\<exists>t. s = sql_lower q @ t \<and> like ps t)"
proof (induction q arbitrary: s)
  case Nil
  show ?case by (simp add: escape_like_chars sql_lower_map)
next
  case (Cons c q)
  have "sql_lower (escape_like (c # q)) @ ps = sql_lower (escape_char c) @ (sql_lower (escape_like q) @ ps)"
    by (simp add: escape_like_chars sql_lower_map)
  then show ?case
    by (cases s) (simp_all only: like_escape_char Cons.IH, auto simp: sql_lower_map)
qed

text \<open>The directory search: no character of the query is a wildcard.\<close>

lemma search_is_substring:
  "ilike ([37] @ escape_like q @ [37]) name \<longleftrightarrow> (\<exists>a b. sql_lower name = a @ sql_lower q @ b)"
proof -
  have "sql_lower ([37] @ escape_like q @ [37]) = 37 # sql_lower (escape_like q) @ [37]"
    by (simp add: sql_lower_map lower_char_def)
  then show ?thesis by (simp only: ilike_def like_percent like_escaped) (auto simp: like_percent)
qed

section \<open>The codecs\<close>

lemma utf8_value_char: "utf8_char c = Some x \<Longrightarrow> utf8_value x = c \<and> x \<noteq> [] \<and> length x \<le> 4"
  by (erule utf8_charE) auto

lemma utf8_width_char:
  assumes "utf8_char c = Some x"
  shows "utf8_width (x @ bs) = Some (length x)"
proof -
  let ?hit = "\<lambda>n. utf8_char (utf8_value (take n (x @ bs))) = Some (take n (x @ bs))"
  have miss: "\<not> ?hit n" if "n < length x" for n
  proof
    assume h: "?hit n"
    have "x @ bs = take n (x @ bs) @ drop n (x @ bs)" by (simp only: append_take_drop_id)
    from utf8_char_prefix_free [OF assms h this] have "bs = drop n (x @ bs)" by blast
    then have "length bs = length (drop n (x @ bs))" by (rule arg_cong)
    then show False using that by simp
  qed
  have hit: "?hit (length x)" using assms utf8_value_char by simp
  have "0 < length x" "length x \<le> 4" using utf8_value_char [OF assms] by auto
  then have "length x = 1 \<or> length x = 2 \<or> length x = 3 \<or> length x = 4" by arith
  then show ?thesis unfolding utf8_width_def using hit miss [of 1] miss [of 2] miss [of 3] by auto
qed

lemma utf8_decode_nats: "utf8_nats s = Some bs \<Longrightarrow> utf8_decode bs = Some s"
proof (induction s arbitrary: bs)
  case Nil
  then show ?case by (simp add: utf8_decode.simps)
next
  case (Cons c s)
  then obtain x ys where x: "utf8_char c = Some x" "utf8_nats s = Some ys" "bs = x @ ys"
    by (auto split: option.splits)
  then show ?case using utf8_width_char [OF x(1), of ys] utf8_value_char [OF x(1)] Cons.IH [OF x(2)]
    by (subst utf8_decode.simps) simp
qed

lemma b64_digit_char: "i < 64 \<Longrightarrow> b64_digit (b64_char i) = Some i \<and> b64_char i \<noteq> CHR ''=''"
proof -
  assume i: "i < 64"
  have "CHR ''='' \<notin> set B64URL_ALPHABET" by (simp add: B64URL_ALPHABET_def)
  then have "b64_char i \<noteq> CHR ''=''" using b64_char_in [OF i] by metis
  then show ?thesis using i by (simp add: b64_digit_def)
qed

lemma a2b_char: "i < 64 \<Longrightarrow> a2b_base64 quad pads left (b64_char i # cs) =
   (if quad = 0 then a2b_base64 1 0 i cs
    else if quad = 1 then map_option (Cons (left * 4 + i div 16)) (a2b_base64 2 0 (i mod 16) cs)
    else if quad = 2 then map_option (Cons (left * 16 + i div 4)) (a2b_base64 3 0 (i mod 4) cs)
    else map_option (Cons (left * 64 + i)) (a2b_base64 0 0 0 cs))"
  using b64_digit_char by simp

declare a2b_base64.simps(2) [simp del]

lemma a2b_pad: "a2b_base64 2 0 left [CHR ''='', CHR ''=''] = Some []" "a2b_base64 3 0 left [CHR ''=''] = Some []"
  by (simp_all add: a2b_base64.simps)

lemma replicate_2: "replicate 2 x = [x, x]"
  by (simp add: numeral_2_eq_2)

lemma a2b_encode: "a2b_base64 0 0 0 (urlsafe_b64encode raw) = Some (map unat raw)"
  unfolding urlsafe_b64encode_def
proof (induction raw rule: b64url_nopad.induct)
  case (4 a b c rest)
  then show ?case by (simp add: a2b_char unat_parts unat_nibbles mod_block)
qed (simp_all add: a2b_char a2b_pad unat_parts unat_nibbles replicate_2)

text \<open>What the directory hands out decodes to what went in.\<close>

lemma utf8_latin: "n < 256 \<Longrightarrow> \<exists>x. utf8_char n = Some x"
  by (auto simp: utf8_char_def)

lemma points_encodable: "\<exists>bs. utf8_nats (map of_char (s :: string)) = Some bs \<and> (\<forall>b \<in> set bs. b < 256)"
proof (induction s)
  case (Cons c s)
  obtain x where "utf8_char (of_char c) = Some x" using utf8_latin [of "of_char c"] by auto
  then show ?case using Cons utf8_units [of "of_char c" x] by auto
qed simp

lemma utf8_ascii: "\<forall>c \<in> set s. c < 128 \<Longrightarrow> utf8_nats s = Some s"
  by (induction s) (simp_all add: utf8_char_def)

lemma b64_text_ascii: "c \<in> set (urlsafe_b64encode raw) \<Longrightarrow> of_char c < (128 :: nat)"
proof -
  assume "c \<in> set (urlsafe_b64encode raw)"
  then have "c \<in> set B64URL_ALPHABET \<or> c = CHR ''=''"
    using set_b64url_nopad by (auto simp: urlsafe_b64encode_def split: if_splits)
  moreover have "list_all (\<lambda>c. of_char c < (128 :: nat)) B64URL_ALPHABET" by code_simp
  ultimately show ?thesis by (auto simp: list_all_iff)
qed

lemma b64_text_roundtrip:
  fixes s :: string
  assumes "str_encode (points s) = Some raw"
  shows "b64decode_text (points (urlsafe_b64encode raw)) = Some (points s)"
proof -
  obtain bs where bs: "utf8_nats (points s) = Some bs" "\<forall>b \<in> set bs. b < 256" "raw = map byte_of bs"
    using assms points_encodable [of s] by (auto simp: str_encode_def points_def)
  have "utf8_nats (points (urlsafe_b64encode raw)) = Some (points (urlsafe_b64encode raw))"
    using b64_text_ascii by (intro utf8_ascii) (auto simp: points_def)
  moreover have "map char_of (points (urlsafe_b64encode raw)) = urlsafe_b64encode raw"
    by (simp add: points_def comp_def)
  moreover have "map unat raw = bs" using map_unat_byte_of [OF bs(2)] bs(3) by simp
  ultimately show ?thesis using utf8_decode_nats [OF bs(1)] by (simp add: b64decode_text_def a2b_encode)
qed

section \<open>The cursor\<close>

lemma split_first_at: "sep \<notin> set a \<Longrightarrow> split_first sep (a @ sep # b) = Some (a, b)"
  by (induction a) (auto simp: split_first_def)

lemma split_last_at: "sep \<notin> set b \<Longrightarrow> split_last sep (a @ sep # b) = Some (a, b)"
  using split_first_at [of sep "rev b" "rev a"] by (simp add: split_last_def)

text \<open>A cursor carries any name: only the sort mode and the id must be free of the separator.\<close>

lemma cursor_roundtrip:
  assumes "CURSOR_SEP \<notin> set (points mode)" and "CURSOR_SEP \<notin> set (points i)"
  shows "decode_cursor (points (encode_cursor mode key i)) mode' =
    (if points mode = points mode' then Some (points key, points i) else None)"
proof -
  let ?s = "mode @ [CHR 0x1F] @ key @ [CHR 0x1F] @ i"
  have p: "points mode @ [CURSOR_SEP] @ points key @ [CURSOR_SEP] @ points i = points ?s"
    by (simp add: points_def CURSOR_SEP_def)
  obtain raw where raw: "str_encode (points ?s) = Some raw"
    using points_encodable [of ?s] by (auto simp: str_encode_def points_def)
  then have "b64decode_text (points (encode_cursor mode key i)) = Some (points ?s)"
    unfolding encode_cursor_def p using b64_text_roundtrip by simp
  moreover have "split_first CURSOR_SEP (points ?s) = Some (points mode, points key @ CURSOR_SEP # points i)"
    unfolding p [symmetric] using split_first_at [OF assms(1)] by simp
  ultimately show ?thesis using split_last_at [OF assms(2), of "points key"] by (simp add: decode_cursor_def)
qed

lemma length_nat_str: "0 < k \<Longrightarrow> n < 10 ^ k \<Longrightarrow> length (nat_str n) \<le> k"
proof (induction n arbitrary: k rule: nat_str.induct)
  case (1 n)
  show ?case
  proof (cases "n < 10")
    case True
    then show ?thesis using 1(2) by (subst nat_str.simps) simp
  next
    case False
    with 1(2,3) have "k \<noteq> 0" "k \<noteq> 1" by auto
    then obtain k' where k: "k = Suc k'" "0 < k'" by (cases k) auto
    then have "n div 10 < 10 ^ k'" using 1(3) by (simp add: div_less_iff_less_mult mult.commute)
    then have "length (nat_str (n div 10)) \<le> k'" using 1(1) [OF False k(2)] by simp
    then show ?thesis using False k by (subst nat_str.simps) simp
  qed
qed

lemma nat_str_points:
  "list_all (py_isdigit digit) (points (nat_str n))" "points (nat_str n) \<noteq> []" "takeWhile (\<lambda>c. c = 45) (points (nat_str n)) = []"
  "map (py_decimal decimal) (points (nat_str n)) = map (Some \<circ> digit_val) (nat_str n)"
proof -
  have d: "\<forall>c \<in> set (nat_str n). 48 \<le> (of_char c :: nat) \<and> (of_char c :: nat) \<le> 57"
    using nat_str_digits(1) [of n] by (simp add: list_all_iff is_digit_def)
  then show "list_all (py_isdigit digit) (points (nat_str n))" by (auto simp: points_def list_all_iff py_isdigit_def)
  show "points (nat_str n) \<noteq> []" using nat_str_digits(2) by (simp add: points_def)
  show "takeWhile (\<lambda>c. c = 45) (points (nat_str n)) = []"
    using d by (cases "nat_str n") (auto simp: points_def)
  show "map (py_decimal decimal) (points (nat_str n)) = map (Some \<circ> digit_val) (nat_str n)"
    using d by (auto simp: points_def py_decimal_def digit_val_def)
qed

lemma foldl_nat_str_some: "foldl (\<lambda>a v. 10 * a + the v) 0 (map (Some \<circ> digit_val) (nat_str n)) = n"
  using foldl_nat_str [of n] by (simp add: foldl_map)

lemma int_key_roundtrip:
  assumes "- (2 ^ 63) \<le> i" and "i < 2 ^ 63"
  shows "int_of_key decimal (points (int_str i)) = Some i"
    and "dropWhile (\<lambda>c. c = 45) (points (int_str i)) \<noteq> []"
    and "list_all (py_isdigit digit) (dropWhile (\<lambda>c. c = 45) (points (int_str i)))"
proof -
  define n where "n = nat (if i < 0 then - i else i)"
  have "int n < 10 ^ 20" using assms by (auto simp: n_def)
  then have "n < 10 ^ 20" by simp
  then have len: "length (points (nat_str n)) \<le> MAX_STR_DIGITS"
    using length_nat_str [of 20 n] by (simp add: points_def MAX_STR_DIGITS_def)
  have none: "None \<notin> set (map (Some \<circ> digit_val) (nat_str n))" by auto
  have dw: "dropWhile (\<lambda>c. c = 45) (points (nat_str n)) = points (nat_str n)"
    using nat_str_points(3) [of n] by (metis append_self_conv2 takeWhile_dropWhile_id)
  have p: "points (int_str i) = (if i < 0 then 45 # points (nat_str n) else points (nat_str n))"
    by (simp add: int_str_def n_def points_def)
  have val: "i < 0 \<Longrightarrow> - int n = i" "\<not> i < 0 \<Longrightarrow> int n = i" by (simp_all add: n_def)
  show "int_of_key decimal (points (int_str i)) = Some i"
    using len none val by (simp add: int_of_key_def p dw nat_str_points(3,4) Let_def foldl_nat_str_some del: set_map)
  show "dropWhile (\<lambda>c. c = 45) (points (int_str i)) \<noteq> []"
    using nat_str_points(2) [of n] dw by (simp add: p del: dropWhile_eq_Nil_conv)
  show "list_all (py_isdigit digit) (dropWhile (\<lambda>c. c = 45) (points (int_str i)))" using nat_str_points(1) by (simp add: p dw)
qed

section \<open>Walking the directory\<close>

text \<open>A client that follows \<open>next_cursor\<close> to the end, at most so many pages.\<close>

fun directory_walk :: "nat \<Rightarrow> (nat \<Rightarrow> bool) \<Rightarrow> (nat \<Rightarrow> nat option) \<Rightarrow> code_points option \<Rightarrow> code_points option \<Rightarrow> code_points \<Rightarrow>
    code_points option \<Rightarrow> db \<Rightarrow> community list option" where
  "directory_walk 0 digit decimal q category sort0 cursor d = None"
| "directory_walk (Suc n) digit decimal q category sort0 cursor d =
     (case discover digit decimal q category sort0 cursor d of
        Inl e \<Rightarrow> None
      | Inr (page, None) \<Rightarrow> Some page
      | Inr (page, Some c) \<Rightarrow> map_option (\<lambda>rest. page @ rest) (directory_walk n digit decimal q category sort0 (Some (points c)) d))"

text \<open>What the columns guarantee: one row per id, ULIDs without the separator, counts in SQLite's
  integer range.\<close>

definition directory_ok :: "db \<Rightarrow> bool" where
  "directory_ok d \<longleftrightarrow> unique_on co_id (communities d) \<and>
     (\<forall>c \<in> set (communities d). CURSOR_SEP \<notin> set (points (co_id c)) \<and> - (2 ^ 63) \<le> co_member_count c \<and> co_member_count c < 2 ^ 63)"

lemma points_inj: "points s = points t \<longleftrightarrow> s = t"
proof -
  have "map char_of (points u) = u" for u by (simp add: points_def comp_def)
  then show ?thesis by metis
qed

lemma clamp_sort_cases: "clamp_sort s = ''members'' \<or> clamp_sort s = ''name''"
  by (simp add: clamp_sort_def SORTS_def)

lemma sorts_free: "CURSOR_SEP \<notin> set (points (clamp_sort s))"
  using clamp_sort_cases [of s] by (auto simp: points_def CURSOR_SEP_def)

text \<open>One page over any strict order: what lies beyond its last row is the rest of the listing.\<close>

lemma order_filter: "order_asc k (filter P xs) = filter P (order_asc k xs)"
  by (simp add: order_asc_def filter_sort)

lemma after_page:
  fixes k :: "'r \<Rightarrow> 'k::linorder"
  assumes "distinct (map k rows)" and "L = order_asc k rows" and "m < length L" and "0 < m"
  shows "order_asc k (filter (\<lambda>c. k (L ! (m - 1)) < k c) rows) = drop m L"
proof -
  have "sorted_wrt (<) (map k L)" using assms(1,2) by (simp add: strict_sorted_iff)
  then have "sorted_wrt (<) (map k (take m L @ drop m L))" by simp
  moreover have ne: "take m L \<noteq> []" using assms(3,4) by auto
  moreover have "last (take m L) = L ! (m - 1)" using assms(3,4) ne by (simp add: last_conv_nth)
  ultimately have "filter (\<lambda>c. k (L ! (m - 1)) < k c) (take m L @ drop m L) = drop m L"
    using filter_after_prefix [of k "take m L" "drop m L"] by metis
  then show ?thesis by (simp add: order_filter assms(2))
qed

definition listing :: "code_points option \<Rightarrow> code_points option \<Rightarrow> code_points \<Rightarrow> db \<Rightarrow> community list" where
  "listing q category sort0 d = directory_order (clamp_sort sort0) (filter (matches q category) (communities d))"

definition cursor_at :: "code_points \<Rightarrow> community \<Rightarrow> string" where
  "cursor_at sort0 c = encode_cursor (clamp_sort sort0)
     (if clamp_sort sort0 = ''members'' then int_str (co_member_count c) else co_name c) (co_id c)"

lemma after_cursor_at:
  assumes "directory_ok d" and "c \<in> set (communities d)"
  shows "\<exists>later. after_cursor digit decimal (clamp_sort s) (points (cursor_at s c)) = Inr later \<and>
    (\<forall>x. later x \<longleftrightarrow> (if clamp_sort s = ''members'' then by_members c < by_members x else by_name c < by_name x))"
proof -
  have c: "CURSOR_SEP \<notin> set (points (co_id c))" "- (2 ^ 63) \<le> co_member_count c" "co_member_count c < 2 ^ 63"
    using assms by (auto simp: directory_ok_def)
  note dec = cursor_roundtrip [OF sorts_free [of s] c(1), where mode' = "clamp_sort s"]
  show ?thesis
  proof (cases "clamp_sort s = ''members''")
    case True
    then show ?thesis using dec int_key_roundtrip [OF c(2,3)] c(2,3)
      by (auto simp: after_cursor_def cursor_at_def by_members_def Let_def less_prod_def')
  next
    case False
    then show ?thesis using dec by (auto simp: after_cursor_def cursor_at_def by_name_def less_prod_def')
  qed
qed

lemma keys_distinct:
  assumes "directory_ok d"
  shows "distinct (map by_members (filter P (communities d)))" "distinct (map by_name (filter P (communities d)))"
proof -
  have "distinct (map co_id (filter P (communities d)))"
    using assms by (simp add: directory_ok_def unique_on_def distinct_map_filter)
  then show "distinct (map by_members (filter P (communities d)))" "distinct (map by_name (filter P (communities d)))"
    by (auto simp: distinct_map inj_on_def by_members_def by_name_def points_inj)
qed

lemma rest_of_listing:
  assumes "directory_ok d" and "m < length (listing q cat s d)" and "0 < m"
    and "\<forall>x. later x \<longleftrightarrow> (if clamp_sort s = ''members'' then by_members (listing q cat s d ! (m - 1)) < by_members x
        else by_name (listing q cat s d ! (m - 1)) < by_name x)"
  shows "directory_order (clamp_sort s) (filter (\<lambda>c. matches q cat c \<and> later c) (communities d)) = drop m (listing q cat s d)"
proof (cases "clamp_sort s = ''members''")
  case True
  then show ?thesis
    using after_page [OF keys_distinct(1) [OF assms(1)], of "listing q cat s d" "matches q cat" m] assms(2-4)
    by (simp add: listing_def directory_order_def conj_commute)
next
  case False
  then show ?thesis
    using after_page [OF keys_distinct(2) [OF assms(1)], of "listing q cat s d" "matches q cat" m] assms(2-4)
    by (simp add: listing_def directory_order_def conj_commute)
qed

lemma discover_page:
  assumes "(case cursor of None \<Rightarrow> Inr (\<lambda>c. True) | Some t \<Rightarrow> if t = [] then Inr (\<lambda>c. True)
      else after_cursor digit decimal (clamp_sort s) t) = Inr later"
    and "directory_order (clamp_sort s) (filter (\<lambda>c. matches q cat c \<and> later c) (communities d)) = L"
  shows "discover digit decimal q cat s cursor d =
    Inr (take PAGE_SIZE L, if length L > PAGE_SIZE then Some (cursor_at s (L ! (PAGE_SIZE - 1))) else None)"
proof -
  have "take PAGE_SIZE (take (PAGE_SIZE + 1) L) = take PAGE_SIZE L" by (simp add: min_def)
  moreover have "length (take (PAGE_SIZE + 1) L) > PAGE_SIZE \<longleftrightarrow> length L > PAGE_SIZE" by (simp add: PAGE_SIZE_def)
  moreover have "take PAGE_SIZE L \<noteq> [] \<and> last (take PAGE_SIZE L) = L ! (PAGE_SIZE - 1)" if "length L > PAGE_SIZE"
    using that by (cases L) (auto simp: PAGE_SIZE_def last_conv_nth min_def)
  ultimately show ?thesis using assms unfolding discover_def Let_def by (auto simp: cursor_at_def)
qed

lemma cursor_nonempty:
  assumes "CURSOR_SEP \<notin> set (points (co_id c))"
  shows "cursor_at s c \<noteq> []"
proof
  assume "cursor_at s c = []"
  moreover have "decode_cursor (points []) m = None" for m
    by (simp add: decode_cursor_def b64decode_text_def points_def utf8_decode.simps split_first_def)
  moreover have "decode_cursor (points (cursor_at s c)) (clamp_sort s) \<noteq> None"
    by (simp add: cursor_at_def cursor_roundtrip [OF sorts_free assms])
  ultimately show False by metis
qed

lemma walk_from:
  assumes "directory_ok d" and "m < length (listing q cat s d)" and "0 < m" and "length (listing q cat s d) < m + PAGE_SIZE * n"
  shows "directory_walk n digit decimal q cat s (Some (points (cursor_at s (listing q cat s d ! (m - 1))))) d = Some (drop m (listing q cat s d))"
  using assms(2-4)
proof (induction n arbitrary: m)
  case 0
  then show ?case by simp
next
  case (Suc n)
  let ?L = "listing q cat s d"
  let ?c = "?L ! (m - 1)"
  have "?c \<in> set ?L" using Suc.prems by (intro nth_mem) simp
  then have c: "?c \<in> set (communities d)" by (auto simp: listing_def directory_order_def split: if_splits)
  obtain later where l: "after_cursor digit decimal (clamp_sort s) (points (cursor_at s ?c)) = Inr later"
      "\<forall>x. later x \<longleftrightarrow> (if clamp_sort s = ''members'' then by_members ?c < by_members x else by_name ?c < by_name x)"
    using after_cursor_at [OF assms(1) c] by blast
  have "CURSOR_SEP \<notin> set (points (co_id ?c))" using assms(1) c by (auto simp: directory_ok_def)
  then have ne: "points (cursor_at s ?c) \<noteq> []" using cursor_nonempty by (simp add: points_def)
  have pg: "discover digit decimal q cat s (Some (points (cursor_at s ?c))) d =
      Inr (take PAGE_SIZE (drop m ?L), if length (drop m ?L) > PAGE_SIZE then Some (cursor_at s (drop m ?L ! (PAGE_SIZE - 1))) else None)"
    by (rule discover_page [of _ _ _ _ later]) (use l ne rest_of_listing [OF assms(1) Suc.prems(1,2) l(2)] in simp_all)
  show ?case
  proof (cases "length (drop m ?L) > PAGE_SIZE")
    case True
    have "drop m ?L ! (PAGE_SIZE - 1) = ?L ! (m + PAGE_SIZE - 1)" using True by (simp add: PAGE_SIZE_def add.commute)
    moreover have "directory_walk n digit decimal q cat s (Some (points (cursor_at s (?L ! (m + PAGE_SIZE - 1))))) d = Some (drop (m + PAGE_SIZE) ?L)"
      using Suc.IH [of "m + PAGE_SIZE"] True Suc.prems by simp
    moreover have "take PAGE_SIZE (drop m ?L) @ drop (m + PAGE_SIZE) ?L = drop m ?L"
      by (metis add.commute append_take_drop_id drop_drop)
    ultimately show ?thesis using True pg by simp
  next
    case False
    then show ?thesis using pg by simp
  qed
qed

lemma listing_spec:
  assumes "directory_ok d"
  shows "distinct (map co_id (listing q cat s d)) \<and> set (listing q cat s d) = {c \<in> set (communities d). matches q cat c}"
proof -
  have "mset (listing q cat s d) = mset (filter (matches q cat) (communities d))"
    by (simp add: listing_def directory_order_def order_asc_def)
  then have "mset (map co_id (listing q cat s d)) = mset (map co_id (filter (matches q cat) (communities d)))" by simp
  moreover have "distinct (map co_id (filter (matches q cat) (communities d)))"
    using assms by (simp add: directory_ok_def unique_on_def distinct_map_filter)
  ultimately have "distinct (map co_id (listing q cat s d))" using mset_eq_imp_distinct_iff by blast
  then show ?thesis by (auto simp: listing_def directory_order_def)
qed

text \<open>C23: following \<open>next_cursor\<close> from the first page ends, without an error, after at most one
  page more than the directory fills, and lists every public live community that matches the
  search and category exactly once, in the order of the sort, whatever the sort mode asked.\<close>

theorem directory_walk_complete:
  assumes "directory_ok d" and "length (communities d) < PAGE_SIZE * n"
  shows "directory_walk n digit decimal q category sort0 None d = Some (listing q category sort0 d) \<and>
    distinct (map co_id (listing q category sort0 d)) \<and>
    set (listing q category sort0 d) = {c \<in> set (communities d). matches q category c}"
proof -
  let ?L = "listing q category sort0 d"
  have "length ?L \<le> length (communities d)" by (simp add: listing_def directory_order_def)
  then have len: "length ?L < PAGE_SIZE * n" using assms(2) by simp
  then obtain n' where n: "n = Suc n'" by (cases n) auto
  have pg: "discover digit decimal q category sort0 None d =
      Inr (take PAGE_SIZE ?L, if length ?L > PAGE_SIZE then Some (cursor_at sort0 (?L ! (PAGE_SIZE - 1))) else None)"
    by (rule discover_page [of _ _ _ _ "\<lambda>_. True"]) (simp_all add: listing_def)
  have "directory_walk n digit decimal q category sort0 None d = Some ?L"
  proof (cases "length ?L > PAGE_SIZE")
    case True
    have "directory_walk n' digit decimal q category sort0 (Some (points (cursor_at sort0 (?L ! (PAGE_SIZE - 1))))) d = Some (drop PAGE_SIZE ?L)"
      using walk_from [OF assms(1) True] len n by (simp add: PAGE_SIZE_def)
    then show ?thesis using True pg n by simp
  next
    case False
    then show ?thesis using pg n by simp
  qed
  then show ?thesis using listing_spec [OF assms(1)] by blast
qed

section \<open>Tampered cursors\<close>

text \<open>Every cursor is answered with a page, refused, or, for a member count the guard lets
  through, ends in an exception the route does not catch.\<close>

lemma discover_outcome:
  "(case discover digit decimal q category sort0 cursor d of
      Inl e \<Rightarrow> cursor \<noteq> None \<and> (e \<noteq> InvalidCursor \<longrightarrow> clamp_sort sort0 = ''members'')
    | Inr (page, nxt) \<Rightarrow> length page \<le> PAGE_SIZE \<and> set page \<subseteq> {c \<in> set (communities d). matches q category c})"
proof -
  let ?after = "case cursor of None \<Rightarrow> Inr (\<lambda>c. True) | Some t \<Rightarrow> if t = [] then Inr (\<lambda>c. True)
      else after_cursor digit decimal (clamp_sort sort0) t"
  show ?thesis
  proof (cases ?after)
    case (Inl e)
    then obtain t where "cursor = Some t" "after_cursor digit decimal (clamp_sort sort0) t = Inl e"
      by (auto split: option.splits if_splits)
    then have "cursor \<noteq> None" "e \<noteq> InvalidCursor \<longrightarrow> clamp_sort sort0 = ''members''"
      by (auto simp: after_cursor_def split: option.splits if_splits)
    then show ?thesis using Inl by (simp add: discover_def Let_def)
  next
    case (Inr later)
    have "set (take n (directory_order m (filter (\<lambda>c. matches q category c \<and> later c) (communities d)))) \<subseteq>
        {c \<in> set (communities d). matches q category c}" for n m
      by (auto simp: directory_order_def dest: in_set_takeD)
    then show ?thesis using discover_page [OF Inr refl] by simp
  qed
qed

text \<open>A count key with two minus signs passes the digit guard, and so does one outside SQLite's
  integer range.\<close>

lemma double_minus_escapes:
  "after_cursor digit decimal ''members'' (points (encode_cursor ''members'' ''--5'' ''x'')) = Inl ValueError"
proof -
  have "CURSOR_SEP \<notin> set (points ''members'')" "CURSOR_SEP \<notin> set (points ''x'')" by (simp_all add: points_def CURSOR_SEP_def)
  note dec = cursor_roundtrip [OF this, of "''--5''" "''members''"]
  then show ?thesis by (simp add: after_cursor_def points_def py_isdigit_def int_of_key_def Let_def)
qed

lemma huge_count_escapes:
  "after_cursor digit decimal ''members'' (points (encode_cursor ''members'' ''9999999999999999999'' ''x'')) = Inl OverflowError"
proof -
  have "CURSOR_SEP \<notin> set (points ''members'')" "CURSOR_SEP \<notin> set (points ''x'')" by (simp_all add: points_def CURSOR_SEP_def)
  note dec = cursor_roundtrip [OF this, of "''9999999999999999999''" "''members''"]
  then show ?thesis by (simp add: after_cursor_def points_def py_isdigit_def py_decimal_def int_of_key_def Let_def MAX_STR_DIGITS_def)
qed

section \<open>Joining\<close>

definition join_row :: "instant \<Rightarrow> ident \<Rightarrow> ident \<Rightarrow> community_membership" where
  "join_row now community_id user_id = \<lparr>cm_community_id = community_id, cm_user_id = user_id, cm_role = MEMBER, cm_joined_at = now\<rparr>"

definition live_community :: "db \<Rightarrow> ident \<Rightarrow> bool" where
  "live_community d cid \<longleftrightarrow> (\<exists>c \<in> set (communities d). co_id c = cid \<and> co_taken_down_at c = None)"

lemma new_join_insert_eq:
  "new_join_insert now cid v d =
     (if \<not> joinable d cid then Inr (0, d)
      else if in_community d cid v then Inl IntegrityError
      else Inr (1, d\<lparr>community_memberships := community_memberships d @ [join_row now cid v]\<rparr>))"
  by (simp add: new_join_insert_def in_community_def join_row_def cm_key_def Let_def)

text \<open>The join in closed form: where it is refused, and the state it commits.\<close>

lemma join_community_eq:
  "join_community race1 race2 race3 now v cid d =
     (let d1 = race2 (race1 d);
          d2 = d1\<lparr>community_memberships := community_memberships d1 @ [join_row now cid v]\<rparr>;
          fresh = (\<not> in_community d1 cid v);
          d3 = (if fresh then bump_member_count cid (race3 d2) else race3 d1)
      in if in_community d cid v then
           (case find (\<lambda>c. co_id c = cid \<and> co_taken_down_at c = None) (communities (race1 d)) of
              None \<Rightarrow> Inl CommunityNotFound
            | Some c \<Rightarrow> Inr ((c, visible_channels_in_community d1 v cid, False), d1))
         else if \<not> joinable (race1 d) cid \<or> \<not> joinable d1 cid then Inl CommunityNotFound
         else case get_community d3 cid of
                None \<Rightarrow> Inl NoResultFound
              | Some c \<Rightarrow> Inr ((c, visible_channels_in_community d3 v cid, fresh), d3))"
  by (cases "in_community d cid v"; cases "joinable (race1 d) cid"; cases "joinable (race2 (race1 d)) cid";
      cases "in_community (race2 (race1 d)) cid v")
    (simp_all add: join_community_def new_join_insert_eq Let_def split: option.split)

lemma join_states:
  assumes "join_community race1 race2 race3 now v cid d = Inr ((c, chans, joined), d')"
  shows "if joined
    then \<not> in_community d cid v \<and> joinable (race2 (race1 d)) cid \<and> \<not> in_community (race2 (race1 d)) cid v \<and>
      d' = bump_member_count cid (race3 ((race2 (race1 d))\<lparr>community_memberships :=
             community_memberships (race2 (race1 d)) @ [join_row now cid v]\<rparr>))
    else d' = race2 (race1 d) \<or> d' = race3 (race2 (race1 d))"
  using assms by (auto simp: join_community_eq Let_def split: if_splits option.splits)

text \<open>The join gate. A newcomer is refused exactly when the community is not public and live
  at the gate's read or at the write itself, a member exactly when it was taken down; an
  accepted newcomer adds their one row and one to the count, everyone else changes nothing.\<close>

theorem join_gate_at_write:
  "(join_community race1 race2 race3 now v cid d = Inl CommunityNotFound \<longleftrightarrow>
      (if in_community d cid v then \<not> live_community (race1 d) cid
       else \<not> joinable (race1 d) cid \<or> \<not> joinable (race2 (race1 d)) cid)) \<and>
   (join_community race1 race2 race3 now v cid d = Inr ((c, chans, joined), d') \<longrightarrow>
      (if joined
       then \<not> in_community d cid v \<and> joinable (race2 (race1 d)) cid \<and> \<not> in_community (race2 (race1 d)) cid v \<and>
         d' = bump_member_count cid (race3 ((race2 (race1 d))\<lparr>community_memberships :=
                community_memberships (race2 (race1 d)) @ [join_row now cid v]\<rparr>))
       else d' = race2 (race1 d) \<or> d' = race3 (race2 (race1 d))))"
proof -
  have "find (\<lambda>c. co_id c = cid \<and> co_taken_down_at c = None) (communities (race1 d)) = None \<longleftrightarrow> \<not> live_community (race1 d) cid"
    by (auto simp: find_None_iff live_community_def)
  then have "join_community race1 race2 race3 now v cid d = Inl CommunityNotFound \<longleftrightarrow>
      (if in_community d cid v then \<not> live_community (race1 d) cid
       else \<not> joinable (race1 d) cid \<or> \<not> joinable (race2 (race1 d)) cid)"
    by (auto simp: join_community_eq Let_def split: option.split)
  then show ?thesis using join_states by blast
qed

section \<open>The member count\<close>

definition member_drift :: "db \<Rightarrow> ident \<Rightarrow> int option" where
  "member_drift d cid =
     map_option (\<lambda>c. co_member_count c - int (rowcount (\<lambda>m. cm_community_id m = cid) (community_memberships d))) (get_community d cid)"

lemma drift_bump:
  "member_drift (bump_member_count cid d) c = map_option (\<lambda>x. if c = cid then x + 1 else x) (member_drift d c)"
  by (cases "get_community d c")
    (auto simp: member_drift_def bump_member_count_def get_community_def find_upd_where dest: find_SomeD)

lemma drift_add_row:
  "member_drift (d\<lparr>community_memberships := community_memberships d @ [join_row now cid v]\<rparr>) c =
     map_option (\<lambda>x. if c = cid then x - 1 else x) (member_drift d c)"
  by (cases "get_community d c") (auto simp: member_drift_def get_community_def join_row_def)

lemma drift_leave:
  assumes "unique_on cm_key (community_memberships d)"
  shows "member_drift (leave_communities u d) c = member_drift d c"
proof (cases "get_community d c")
  case None
  then show ?thesis
    by (simp add: member_drift_def get_community_def leave_communities_def Let_def find_upd_where)
next
  case (Some co)
  let ?ms = "community_memberships d"
  have id: "co_id co = c" using Some by (auto simp: get_community_def dest: find_SomeD)
  have one: "rowcount (\<lambda>m. cm_community_id m = c \<and> cm_user_id m = u) ?ms \<le> 1"
    by (rule rowcount_unique_le_1 [OF assms]) (simp add: cm_key_def)
  have pos: "0 < rowcount (\<lambda>m. cm_community_id m = c \<and> cm_user_id m = u) ?ms \<longleftrightarrow>
      c \<in> cm_community_id ` {m \<in> set ?ms. cm_user_id m = u}"
    by (auto simp: rowcount_pos_iff)
  have "rowcount (\<lambda>m. cm_community_id m = c) ?ms =
      rowcount (\<lambda>m. cm_community_id m = c \<and> \<not> cm_user_id m = u) ?ms + rowcount (\<lambda>m. cm_community_id m = c \<and> cm_user_id m = u) ?ms"
    by (rule rowcount_split)
  then show ?thesis using one pos id Some
    by (auto simp: member_drift_def get_community_def leave_communities_def Let_def find_upd_where)
qed

text \<open>The member count follows the membership rows. Whatever other sessions commit between the
  statements of a join, as long as it keeps the gap between count and rows of every community,
  the join keeps it too, whether it adds a member or not; and so does deleting an account.\<close>

theorem member_count_tracks_rows:
  assumes "\<And>d c. member_drift (race1 d) c = member_drift d c" and "\<And>d c. member_drift (race2 d) c = member_drift d c"
    and "\<And>d c. member_drift (race3 d) c = member_drift d c" and "unique_on cm_key (community_memberships (race1 d))"
  shows "(join_community race1 race2 race3 now v cid d = Inr (r, d') \<longrightarrow> member_drift d' c = member_drift d c) \<and>
    (delete_user_account race1 v d = Inr d'' \<longrightarrow> member_drift d'' c = member_drift d c)"
proof (intro conjI impI)
  assume j: "join_community race1 race2 race3 now v cid d = Inr (r, d')"
  obtain co chans joined where r: "r = (co, chans, joined)" by (cases r)
  have inc: "map_option (\<lambda>x. if c = cid then x + 1 else x) (map_option (\<lambda>x. if c = cid then x - 1 else x) m) = m"
    for m :: "int option" by (cases m) auto
  note gate = join_states [OF j [unfolded r]]
  show "member_drift d' c = member_drift d c"
  proof (cases joined)
    case True
    then have "d' = bump_member_count cid (race3 ((race2 (race1 d))\<lparr>community_memberships :=
             community_memberships (race2 (race1 d)) @ [join_row now cid v]\<rparr>))" using gate by simp
    then show ?thesis by (simp only: drift_bump assms(1-3) drift_add_row inc)
  next
    case False
    then have "d' = race2 (race1 d) \<or> d' = race3 (race2 (race1 d))" using gate by simp
    then show ?thesis using assms(1-3) by metis
  qed
next
  assume "delete_user_account race1 v d = Inr d''"
  then show "member_drift d'' c = member_drift d c"
  proof (cases rule: delete_account_cases)
    case (1 d0)
    then have "member_drift d'' c = member_drift (leave_communities v (race1 d)) c"
      by (simp add: member_drift_def get_community_def leave_communities_def Let_def)
    then show ?thesis using drift_leave [OF assms(4)] assms(1) by simp
  qed
qed

section \<open>Witnesses\<close>

definition ex_community :: "nat \<Rightarrow> community" where
  "ex_community i = \<lparr>co_id = [char_of (i + 65)], co_name = ''same'', co_description = None, co_icon_url = None,
     co_visibility = PUBLIC, co_category = TECH, co_owner_id = None, co_member_count = int (i mod 3), co_default_channel_id = None,
     co_last_activity_at = None, co_taken_down_at = None, co_created_at = 0\<rparr>"

definition ex_directory :: db where
  "ex_directory = empty_db\<lparr>communities := map ex_community [0..<21]\<rparr>"

lemma ex_directory_ok: "directory_ok ex_directory"
proof -
  have "inj_on (\<lambda>i :: nat. char_of (i + 65) :: char) {0..<21}"
    by (rule inj_on_inverseI [of _ "\<lambda>c. of_char c - 65"]) simp
  then have "distinct (map co_id (communities ex_directory))"
    by (auto simp: ex_directory_def ex_community_def distinct_map comp_def inj_on_def)
  moreover have "CURSOR_SEP \<notin> set (points (co_id (ex_community i)))" if "i < 21" for i
    using that by (simp add: ex_community_def points_def CURSOR_SEP_def)
  ultimately show ?thesis by (auto simp: directory_ok_def unique_on_def ex_directory_def ex_community_def)
qed

theorem directory_walk_complete_witness:
  "directory_walk 2 (\<lambda>_. False) (\<lambda>_. None) (Some (points ''AM'')) None (points ''name'') None ex_directory =
     Some (listing (Some (points ''AM'')) None (points ''name'') ex_directory) \<and>
   set (listing (Some (points ''AM'')) None (points ''name'') ex_directory) = set (communities ex_directory)"
proof -
  have "length (communities ex_directory) < PAGE_SIZE * 2" by (simp add: ex_directory_def PAGE_SIZE_def)
  note w = directory_walk_complete [OF ex_directory_ok this, of "\<lambda>_. False" "\<lambda>_. None" "Some (points ''AM'')" None "points ''name''"]
  have "sql_lower (points ''same'') = points ''s'' @ sql_lower (points ''AM'') @ points ''e''"
    by (simp add: sql_lower_def points_def)
  then have "matches (Some (points ''AM'')) None (ex_community i)" for i
    unfolding matches_def search_is_substring by (auto simp: ex_community_def discoverable_predicate_def)
  then have "{c \<in> set (communities ex_directory). matches (Some (points ''AM'')) None c} = set (communities ex_directory)"
    by (auto simp: ex_directory_def)
  with w show ?thesis by simp
qed

definition ex_takedown :: "db \<Rightarrow> db" where
  "ex_takedown d = d\<lparr>communities := map (\<lambda>c. c\<lparr>co_taken_down_at := Some 5\<rparr>) (communities d)\<rparr>"

definition ex_join :: "join_error + ((community \<times> channel list \<times> bool) \<times> db)" where
  "ex_join = join_community id id id 9 ''u'' ''B'' ex_directory"

lemma ex_join_ok: "\<exists>c chans d'. ex_join = Inr ((c, chans, True), d')"
proof -
  have m: "ex_community 1 \<in> set (communities ex_directory)" by (simp add: ex_directory_def)
  have "[char_of (1 + 65 :: nat)] = ''B''" by code_simp
  then have i: "co_id (ex_community 1) = ''B''" by (simp add: ex_community_def)
  have "joinable ex_directory ''B''"
    unfolding joinable_def list_ex_iff by (rule bexI [OF _ m]) (use i in \<open>simp add: ex_community_def\<close>)
  moreover have "\<not> in_community ex_directory ''B'' ''u''" by (simp add: in_community_def ex_directory_def empty_db_def)
  moreover have "\<exists>c. get_community ex_directory ''B'' = Some c"
    unfolding get_community_def by (rule find_ex [OF m]) (rule i)
  ultimately show ?thesis
    by (auto simp: ex_join_def join_community_eq Let_def get_community_def bump_member_count_def find_upd_where)
qed

end
