(* ===== verification/Actuation.thy ===== *)
theory Actuation
  imports Signing "HOL-Library.AList"
begin

text \<open>Signed physical actuation (\<open>domain/actuation.py\<close>): the bytes a commander signs, the pure
  verification of an envelope, the durable high-water mark of each robot's sequence numbers and
  the one door that verifies and then advances. Ed25519 verification is an argument. The store
  file is what \<open>json.load\<close> makes of it; whether \<open>_persist\<close> reaches its \<open>os.replace\<close> is an
  argument of the advance, and everything it raises before that is an \<open>OSError\<close>.\<close>

section \<open>Definitions\<close>

definition ACTUATE_DOMAIN_TAG :: string where "ACTUATE_DOMAIN_TAG = ''aikochat:actuate:v1:EdDSA''"
definition MAX_ROBOT_ID :: nat where "MAX_ROBOT_ID = 128"
definition MAX_COMMAND :: nat where "MAX_COMMAND = 64"
definition ACT_MAX_SIG_STR :: nat where "ACT_MAX_SIG_STR = 128"
definition ACT_MAX_SIGNED_AT_MS :: int where "ACT_MAX_SIGNED_AT_MS = 2 ^ 62"
definition MAX_SEQ :: int where "MAX_SEQ = 2 ^ 53 - 1"
definition DEFAULT_MAX_AGE_MS :: int where "DEFAULT_MAX_AGE_MS = 2000"
definition MAX_ALLOWED_AGE_MS :: int where "MAX_ALLOWED_AGE_MS = 30000"
definition MAX_FWD_SKEW_MS :: int where "MAX_FWD_SKEW_MS = 1000"

definition ACT_REQUIRED_KEYS :: "string list" where
  "ACT_REQUIRED_KEYS = [''v'', ''alg'', ''robot_id'', ''command'', ''seq'', ''signed_at_ms'', ''sender_pubkey'', ''sig'']"

datatype actuation_error = ActuationError

definition actuation_signing_bytes :: "byte list \<Rightarrow> code_points \<Rightarrow> code_points \<Rightarrow> int \<Rightarrow> int \<Rightarrow> byte list option" where
  "actuation_signing_bytes raw_pubkey robot_id command seq signed_at_ms =
     join_parts
       [lp_str (points ACTUATE_DOMAIN_TAG),
        lp raw_pubkey,
        lp_str robot_id,
        lp_str command,
        pack 8 seq,
        pack 8 signed_at_ms]"

text \<open>A field of the required type that passes its check, or the error.\<close>

definition str_field :: "(string \<times> json) list \<Rightarrow> string \<Rightarrow> (string \<Rightarrow> bool) \<Rightarrow> actuation_error + string" where
  "str_field kvs k P =
     (case map_of kvs k of Some (JStr x) \<Rightarrow> if P x then Inr x else Inl ActuationError | _ \<Rightarrow> Inl ActuationError)"

definition int_field :: "(string \<times> json) list \<Rightarrow> string \<Rightarrow> (int \<Rightarrow> bool) \<Rightarrow> actuation_error + int" where
  "int_field kvs k P =
     (case map_of kvs k of Some (JInt x) \<Rightarrow> if P x then Inr x else Inl ActuationError | _ \<Rightarrow> Inl ActuationError)"

definition valid_seq :: "int \<Rightarrow> bool" where
  "valid_seq seq \<longleftrightarrow> 0 \<le> seq \<and> seq \<le> MAX_SEQ"

definition verify_signature :: "(byte list \<Rightarrow> byte list \<Rightarrow> byte list \<Rightarrow> bool) \<Rightarrow> string list \<Rightarrow> string \<Rightarrow> string \<Rightarrow>
    string \<Rightarrow> string \<Rightarrow> int \<Rightarrow> int \<Rightarrow> bool" where
  "verify_signature ed25519_verify allowed_pubkeys pubkey_str sig_str robot_id command seq ts =
     (case decode_multikey pubkey_str of
        Inl _ \<Rightarrow> False
      | Inr raw_pubkey \<Rightarrow>
          (case encode_multikey raw_pubkey of
             Inl _ \<Rightarrow> False
           | Inr canonical \<Rightarrow>
               canonical \<in> set allowed_pubkeys \<and> length sig_str \<le> ACT_MAX_SIG_STR \<and>
               (case b64url_raw sig_str SIG_RAW_LEN of
                  Inl _ \<Rightarrow> False
                | Inr sig \<Rightarrow>
                    (case actuation_signing_bytes raw_pubkey (points robot_id) (points command) seq ts of
                       None \<Rightarrow> False
                     | Some message \<Rightarrow> ed25519_verify raw_pubkey sig message))))"

definition verify_actuation :: "(byte list \<Rightarrow> byte list \<Rightarrow> byte list \<Rightarrow> bool) \<Rightarrow> string list \<Rightarrow> int \<Rightarrow> int \<Rightarrow> string option \<Rightarrow>
    string list option \<Rightarrow> json \<Rightarrow> actuation_error + (string \<times> json) list" where
  "verify_actuation ed25519_verify allowed_pubkeys now_ms max_age_ms expected_robot_id allowed_commands raw =
     (if max_age_ms < 0 \<or> max_age_ms > MAX_ALLOWED_AGE_MS then Inl ActuationError
      else case raw of
        JObj kvs \<Rightarrow>
          (if set (map fst kvs) \<noteq> set ACT_REQUIRED_KEYS then Inl ActuationError
           else if \<not> int_at kvs ''v'' (\<lambda>v. v = SUPPORTED_V) then Inl ActuationError
           else if \<not> str_at kvs ''alg'' (\<lambda>alg. alg = ALG) then Inl ActuationError
           else case str_field kvs ''robot_id'' (\<lambda>r. r \<noteq> [] \<and> length r \<le> MAX_ROBOT_ID) of Inl e \<Rightarrow> Inl e | Inr robot_id \<Rightarrow>
             if expected_robot_id \<noteq> None \<and> expected_robot_id \<noteq> Some robot_id then Inl ActuationError
             else case str_field kvs ''command'' (\<lambda>c. c \<noteq> [] \<and> length c \<le> MAX_COMMAND) of Inl e \<Rightarrow> Inl e | Inr command \<Rightarrow>
               if (case allowed_commands of None \<Rightarrow> False | Some cs \<Rightarrow> command \<notin> set cs) then Inl ActuationError
               else case int_field kvs ''seq'' valid_seq of Inl e \<Rightarrow> Inl e | Inr seq \<Rightarrow>
                 case int_field kvs ''signed_at_ms'' (\<lambda>t. 0 \<le> t \<and> t \<le> ACT_MAX_SIGNED_AT_MS) of Inl e \<Rightarrow> Inl e | Inr ts \<Rightarrow>
                   case str_field kvs ''sender_pubkey'' (\<lambda>p. length p \<le> MAX_PUBKEY_STR) of Inl e \<Rightarrow> Inl e | Inr pubkey_str \<Rightarrow>
                     case str_field kvs ''sig'' (\<lambda>_. True) of Inl e \<Rightarrow> Inl e | Inr sig_str \<Rightarrow>
                       if \<not> verify_signature ed25519_verify allowed_pubkeys pubkey_str sig_str robot_id command seq ts
                       then Inl ActuationError
                       else if now_ms - ts > max_age_ms then Inl ActuationError
                       else if now_ms - ts < - MAX_FWD_SKEW_MS then Inl ActuationError
                       else Inr (map (\<lambda>k. (k, the (map_of kvs k))) ACT_REQUIRED_KEYS))
      | _ \<Rightarrow> Inl ActuationError)"

subsection \<open>The high-water store\<close>

datatype store_file = NoFile | Corrupt | Parsed json

type_synonym marks = "(string \<times> int) list"

record seq_store =
  sh_marks :: marks
  sh_disk :: store_file

definition valid_mark :: "string \<times> json \<Rightarrow> bool" where
  "valid_mark kv \<longleftrightarrow> fst kv \<noteq> [] \<and> length (fst kv) \<le> MAX_ROBOT_ID \<and>
     (case snd kv of JInt v \<Rightarrow> valid_seq v | _ \<Rightarrow> False)"

fun mark_value :: "json \<Rightarrow> int" where
  "mark_value (JInt v) = v"
| "mark_value _ = 0"

definition open_marks :: "store_file \<Rightarrow> actuation_error + marks" where
  "open_marks file =
     (case file of
        NoFile \<Rightarrow> Inr []
      | Corrupt \<Rightarrow> Inl ActuationError
      | Parsed (JObj kvs) \<Rightarrow>
          if list_all valid_mark kvs then Inr (map (\<lambda>(k, v). (k, mark_value v)) kvs) else Inl ActuationError
      | Parsed _ \<Rightarrow> Inl ActuationError)"

definition open_store :: "store_file \<Rightarrow> actuation_error + seq_store" where
  "open_store file = (case open_marks file of Inl e \<Rightarrow> Inl e | Inr ms \<Rightarrow> Inr \<lparr>sh_marks = ms, sh_disk = file\<rparr>)"

definition persist :: "bool \<Rightarrow> seq_store \<Rightarrow> bool \<times> seq_store" where
  "persist committed st =
     (if committed
      then (True, st\<lparr>sh_disk := Parsed (JObj (map (\<lambda>(k, v). (k, JInt v)) (sh_marks st)))\<rparr>)
      else (False, st))"

definition check_and_advance :: "bool \<Rightarrow> string \<Rightarrow> int \<Rightarrow> seq_store \<Rightarrow> (actuation_error + bool) \<times> seq_store" where
  "check_and_advance committed robot_id seq st =
     (if robot_id = [] then (Inl ActuationError, st)
      else if \<not> valid_seq seq then (Inl ActuationError, st)
      else let prev = map_of (sh_marks st) robot_id
           in if seq \<le> (case prev of None \<Rightarrow> -1 | Some p \<Rightarrow> p) then (Inr False, st)
              else case persist committed (st\<lparr>sh_marks := AList.update robot_id seq (sh_marks st)\<rparr>) of
                     (True, st') \<Rightarrow> (Inr True, st')
                   | (False, st') \<Rightarrow>
                       (Inl ActuationError,
                        st'\<lparr>sh_marks := (case prev of
                              None \<Rightarrow> AList.delete robot_id (sh_marks st')
                            | Some p \<Rightarrow> AList.update robot_id p (sh_marks st'))\<rparr>))"

definition verify_and_advance :: "(byte list \<Rightarrow> byte list \<Rightarrow> byte list \<Rightarrow> bool) \<Rightarrow> bool \<Rightarrow> string list \<Rightarrow> int \<Rightarrow> string \<Rightarrow>
    string list \<Rightarrow> int \<Rightarrow> json \<Rightarrow> seq_store \<Rightarrow> (actuation_error + (string \<times> json) list) \<times> seq_store" where
  "verify_and_advance ed25519_verify committed allowed_pubkeys now_ms expected_robot_id allowed_commands max_age_ms raw st =
     (if expected_robot_id = [] then (Inl ActuationError, st)
      else if allowed_commands = [] then (Inl ActuationError, st)
      else if allowed_pubkeys = [] then (Inl ActuationError, st)
      else case verify_actuation ed25519_verify allowed_pubkeys now_ms max_age_ms (Some expected_robot_id) (Some allowed_commands) raw of
             Inl e \<Rightarrow> (Inl e, st)
           | Inr parsed \<Rightarrow>
               (case (map_of parsed ''robot_id'', map_of parsed ''seq'') of
                  (Some (JStr robot_id), Some (JInt seq)) \<Rightarrow>
                    (case check_and_advance committed robot_id seq st of
                       (Inl e, st') \<Rightarrow> (Inl e, st')
                     | (Inr False, st') \<Rightarrow> (Inl ActuationError, st')
                     | (Inr True, st') \<Rightarrow> (Inr parsed, st'))
                | _ \<Rightarrow> (Inl ActuationError, st)))"

section \<open>The signed bytes\<close>

text \<open>An actuation signature binds every field and is a signature of nothing else the island signs.\<close>

theorem actuation_bytes_unambiguous:
  "(actuation_signing_bytes p r c s t = Some x \<and> actuation_signing_bytes p' r' c' s' t' = Some x \<longrightarrow>
      p = p' \<and> r = r' \<and> c = c' \<and> s = s' \<and> t = t') \<and>
   \<not> (actuation_signing_bytes p r c s t = Some x \<and> signing_bytes q ch m ts b rt = Some x) \<and>
   \<not> (actuation_signing_bytes p r c s t = Some x \<and> reaction_signing_bytes q ch m ts g e a = Some x)"
proof (intro conjI impI notI; elim conjE)
  assume "actuation_signing_bytes p r c s t = Some x" "actuation_signing_bytes p' r' c' s' t' = Some x"
  then have "p = p' \<and> r = r' \<and> c = c' \<and> s = s' \<and> t = t'"
    unfolding actuation_signing_bytes_def by (blast dest: join_spine join_pack)
  then show "p = p'" "r = r'" "c = c'" "s = s'" "t = t'" by simp_all
next
  assume "actuation_signing_bytes p r c s t = Some x" "signing_bytes q ch m ts b rt = Some x"
  then have "points ACTUATE_DOMAIN_TAG = points DOMAIN_TAG"
    unfolding signing_bytes_def actuation_signing_bytes_def using join_lp_str by blast
  then show False by (simp add: points_def DOMAIN_TAG_def ACTUATE_DOMAIN_TAG_def)
next
  assume "actuation_signing_bytes p r c s t = Some x" "reaction_signing_bytes q ch m ts g e a = Some x"
  then have "points ACTUATE_DOMAIN_TAG = points REACT_DOMAIN_TAG"
    unfolding reaction_signing_bytes_def actuation_signing_bytes_def using join_lp_str by blast
  then show False by (simp add: points_def REACT_DOMAIN_TAG_def ACTUATE_DOMAIN_TAG_def)
qed

section \<open>Verification\<close>

text \<open>The envelope a commander sends, and the conditions under which it may move the robot.\<close>

definition act_envelope :: "byte list \<Rightarrow> string \<Rightarrow> string \<Rightarrow> int \<Rightarrow> int \<Rightarrow> byte list \<Rightarrow> (string \<times> json) list" where
  "act_envelope key robot command seq ts sig =
     [(''v'', JInt 1), (''alg'', JStr ''EdDSA''), (''robot_id'', JStr robot), (''command'', JStr command), (''seq'', JInt seq),
      (''signed_at_ms'', JInt ts), (''sender_pubkey'', JStr (projr (encode_multikey key))), (''sig'', JStr (b64url_nopad sig))]"

definition signed_by :: "(byte list \<Rightarrow> byte list \<Rightarrow> byte list \<Rightarrow> bool) \<Rightarrow> string list \<Rightarrow> byte list \<Rightarrow> string \<Rightarrow> string \<Rightarrow> int \<Rightarrow>
    int \<Rightarrow> byte list \<Rightarrow> bool" where
  "signed_by ed allowed key robot command seq ts sig \<longleftrightarrow>
     length key = PUBKEY_RAW_LEN \<and> projr (encode_multikey key) \<in> set allowed \<and> length sig = SIG_RAW_LEN \<and>
     (\<exists>msg. actuation_signing_bytes key (points robot) (points command) seq ts = Some msg \<and> ed key sig msg)"

definition may_move :: "int \<Rightarrow> int \<Rightarrow> string option \<Rightarrow> string list option \<Rightarrow> string \<Rightarrow> string \<Rightarrow> int \<Rightarrow> int \<Rightarrow> bool" where
  "may_move now max_age expected cmds robot command seq ts \<longleftrightarrow>
     0 \<le> max_age \<and> max_age \<le> MAX_ALLOWED_AGE_MS \<and>
     robot \<noteq> [] \<and> length robot \<le> MAX_ROBOT_ID \<and> (expected = None \<or> expected = Some robot) \<and>
     command \<noteq> [] \<and> length command \<le> MAX_COMMAND \<and> (case cmds of None \<Rightarrow> True | Some cs \<Rightarrow> command \<in> set cs) \<and>
     valid_seq seq \<and> 0 \<le> ts \<and> ts \<le> ACT_MAX_SIGNED_AT_MS \<and>
     ts - MAX_FWD_SKEW_MS \<le> now \<and> now \<le> ts + max_age"

lemma str_field_Inr: "str_field kvs k P = Inr x \<longleftrightarrow> map_of kvs k = Some (JStr x) \<and> P x"
  and int_field_Inr: "int_field kvs k Q = Inr i \<longleftrightarrow> map_of kvs k = Some (JInt i) \<and> Q i"
  by (auto simp: str_field_def int_field_def split: option.splits json.splits if_splits)

lemma sum_case_Inr: "(case x of Inl e \<Rightarrow> Inl e | Inr y \<Rightarrow> f y) = Inr z \<longleftrightarrow> (\<exists>y. x = Inr y \<and> f y = Inr z)"
  by (cases x) auto

lemma if_Inl_Inr: "(if b then Inl e else x) = Inr z \<longleftrightarrow> \<not> b \<and> x = Inr z"
  by auto

lemma verify_signature_iff:
  "verify_signature ed allowed pk sg robot command seq ts \<longleftrightarrow>
     (\<exists>key sig. pk = projr (encode_multikey key) \<and> sg = b64url_nopad sig \<and> signed_by ed allowed key robot command seq ts sig)"
proof
  assume v: "verify_signature ed allowed pk sg robot command seq ts"
  then obtain key where k: "decode_multikey pk = Inr key" by (auto simp: verify_signature_def split: sum.splits)
  from decode_multikey_unique [OF k] have e: "encode_multikey key = Inr pk" .
  then have len: "length key = PUBKEY_RAW_LEN" by (auto simp: encode_multikey_def split: if_splits)
  from v k e obtain sig where "b64url_raw sg SIG_RAW_LEN = Inr sig" by (auto simp: verify_signature_def split: sum.splits)
  then show "\<exists>key sig. pk = projr (encode_multikey key) \<and> sg = b64url_nopad sig \<and> signed_by ed allowed key robot command seq ts sig"
    using v k e len b64url_raw_exact [of sg SIG_RAW_LEN sig]
    by (intro exI [of _ key] exI [of _ sig]) (auto simp: verify_signature_def signed_by_def split: option.splits)
next
  assume "\<exists>key sig. pk = projr (encode_multikey key) \<and> sg = b64url_nopad sig \<and> signed_by ed allowed key robot command seq ts sig"
  then obtain key sig where s: "pk = projr (encode_multikey key)" "sg = b64url_nopad sig" "signed_by ed allowed key robot command seq ts sig"
    by blast
  then have e: "encode_multikey key = Inr pk" by (simp add: signed_by_def encode_multikey_def)
  have "b64url_raw sg SIG_RAW_LEN = Inr sig" using s b64url_raw_exact [of sg SIG_RAW_LEN sig] by (simp add: signed_by_def SIG_RAW_LEN_def)
  moreover have "length sg \<le> ACT_MAX_SIG_STR" using s by (simp add: length_b64url_nopad signed_by_def SIG_RAW_LEN_def ACT_MAX_SIG_STR_def)
  ultimately show "verify_signature ed allowed pk sg robot command seq ts"
    using s decode_encode_multikey [OF e] e by (auto simp: verify_signature_def signed_by_def)
qed

lemma signed_by_lengths: "signed_by ed allowed key robot command seq ts sig \<Longrightarrow> length (projr (encode_multikey key)) \<le> MAX_PUBKEY_STR"
  using multikey_length [of key]
  by (auto simp: signed_by_def encode_multikey_def MAX_B58_STR_def MAX_PUBKEY_STR_def)

text \<open>The pure verifier accepts exactly the envelopes a listed commander can sign: an object with
  the eight keys and these values, whose signature verifies over the bytes of its own robot,
  command, sequence number and time.\<close>

theorem actuation_accepted_exactly:
  "verify_actuation ed allowed now max_age expected cmds raw = Inr p \<longleftrightarrow>
     (\<exists>kvs key robot command seq ts sig.
        raw = JObj kvs \<and> set (map fst kvs) = set ACT_REQUIRED_KEYS \<and> map (map_of kvs) ACT_REQUIRED_KEYS = map (map_of p) ACT_REQUIRED_KEYS \<and>
        p = act_envelope key robot command seq ts sig \<and>
        signed_by ed allowed key robot command seq ts sig \<and> may_move now max_age expected cmds robot command seq ts)"
  (is "?accepted \<longleftrightarrow> ?signed")
proof
  assume a: ?accepted
  then obtain kvs where k: "raw = JObj kvs" "set (map fst kvs) = set ACT_REQUIRED_KEYS"
    and p: "map (\<lambda>k. (k, the (map_of kvs k))) ACT_REQUIRED_KEYS = p"
    by (auto simp: verify_actuation_def sum_case_Inr if_Inl_Inr split: json.splits)
  from a k obtain robot command seq ts pk sg where f: "map_of kvs ''v'' = Some (JInt 1)" "map_of kvs ''alg'' = Some (JStr ''EdDSA'')"
      "map_of kvs ''robot_id'' = Some (JStr robot)" "map_of kvs ''command'' = Some (JStr command)"
      "map_of kvs ''seq'' = Some (JInt seq)" "map_of kvs ''signed_at_ms'' = Some (JInt ts)"
      "map_of kvs ''sender_pubkey'' = Some (JStr pk)" "map_of kvs ''sig'' = Some (JStr sg)"
      and v: "verify_signature ed allowed pk sg robot command seq ts" "may_move now max_age expected cmds robot command seq ts"
    by (auto simp: verify_actuation_def sum_case_Inr if_Inl_Inr str_field_Inr int_field_Inr int_atE str_atE SUPPORTED_V_def ALG_def
        may_move_def split: option.splits)
  obtain key sig where ks: "pk = projr (encode_multikey key)" "sg = b64url_nopad sig" "signed_by ed allowed key robot command seq ts sig"
    using v(1) unfolding verify_signature_iff by blast
  have "p = act_envelope key robot command seq ts sig" unfolding p [symmetric] by (simp add: ACT_REQUIRED_KEYS_def act_envelope_def f ks)
  moreover from this have "map (map_of kvs) ACT_REQUIRED_KEYS = map (map_of p) ACT_REQUIRED_KEYS"
    by (simp add: ACT_REQUIRED_KEYS_def act_envelope_def f ks)
  ultimately show ?signed using k ks(3) v(2) by blast
next
  assume ?signed
  then obtain kvs key robot command seq ts sig where k: "raw = JObj kvs" "set (map fst kvs) = set ACT_REQUIRED_KEYS"
      "map (map_of kvs) ACT_REQUIRED_KEYS = map (map_of p) ACT_REQUIRED_KEYS" "p = act_envelope key robot command seq ts sig"
    and v: "signed_by ed allowed key robot command seq ts sig" "may_move now max_age expected cmds robot command seq ts" by blast
  let ?pk = "projr (encode_multikey key)" and ?sg = "b64url_nopad sig"
  have f: "map_of kvs ''v'' = Some (JInt 1)" "map_of kvs ''alg'' = Some (JStr ''EdDSA'')"
      "map_of kvs ''robot_id'' = Some (JStr robot)" "map_of kvs ''command'' = Some (JStr command)"
      "map_of kvs ''seq'' = Some (JInt seq)" "map_of kvs ''signed_at_ms'' = Some (JInt ts)"
      "map_of kvs ''sender_pubkey'' = Some (JStr ?pk)" "map_of kvs ''sig'' = Some (JStr ?sg)"
    using k(3) by (simp_all add: k(4) ACT_REQUIRED_KEYS_def act_envelope_def)
  have "verify_signature ed allowed ?pk ?sg robot command seq ts" unfolding verify_signature_iff using v(1) by blast
  then show ?accepted using k(1,2) f v(2) signed_by_lengths [OF v(1)]
    by (simp add: verify_actuation_def str_field_def int_field_def int_at_def str_at_def SUPPORTED_V_def ALG_def may_move_def
        k(4) act_envelope_def ACT_REQUIRED_KEYS_def split: option.splits)
qed

section \<open>The high-water mark\<close>

definition mark :: "seq_store \<Rightarrow> string \<Rightarrow> int" where
  "mark st robot = (case map_of (sh_marks st) robot of None \<Rightarrow> -1 | Some m \<Rightarrow> m)"

text \<open>Memory is what a restart would read from the disk.\<close>

definition store_ok :: "seq_store \<Rightarrow> bool" where
  "store_ok st \<longleftrightarrow> distinct (map fst (sh_marks st)) \<and> open_marks (sh_disk st) = Inr (sh_marks st)"

definition marks_ok :: "marks \<Rightarrow> bool" where
  "marks_ok ms \<longleftrightarrow> (\<forall>(r, s) \<in> set ms. r \<noteq> [] \<and> length r \<le> MAX_ROBOT_ID \<and> valid_seq s)"

lemma open_persisted: "marks_ok ms \<Longrightarrow> open_marks (Parsed (JObj (map (\<lambda>(k, v). (k, JInt v)) ms))) = Inr ms"
proof -
  assume "marks_ok ms"
  then have "list_all valid_mark (map (\<lambda>(k, v). (k, JInt v)) ms)"
    by (auto simp: marks_ok_def valid_mark_def list_all_iff)
  moreover have "map (\<lambda>(k, v). (k, mark_value v)) (map (\<lambda>(k, v). (k, JInt v)) ms) = ms"
    by (induction ms) auto
  ultimately show ?thesis by (simp only: open_marks_def store_file.case json.case if_True)
qed

lemma opened_marks_ok: "open_marks f = Inr ms \<Longrightarrow> marks_ok ms"
proof -
  have v: "valid_mark (k, v) \<Longrightarrow> k \<noteq> [] \<and> length k \<le> MAX_ROBOT_ID \<and> valid_seq (mark_value v)" for k v
    by (cases v) (simp_all add: valid_mark_def)
  assume "open_marks f = Inr ms"
  then consider "ms = []" | kvs where "list_all valid_mark kvs" "ms = map (\<lambda>(k, v). (k, mark_value v)) kvs"
    by (auto simp: open_marks_def split: store_file.splits json.splits if_splits)
  then show ?thesis
  proof cases
    case 2
    then show ?thesis using v by (auto simp: marks_ok_def list_all_iff)
  qed (simp add: marks_ok_def)
qed

lemma marks_ok_update: "marks_ok ms \<Longrightarrow> r \<noteq> [] \<Longrightarrow> length r \<le> MAX_ROBOT_ID \<Longrightarrow> valid_seq s \<Longrightarrow> marks_ok (AList.update r s ms)"
  by (induction ms) (auto simp: marks_ok_def)

lemma update_revert: "map_of ms r = Some p \<Longrightarrow> AList.update r p (AList.update r s ms) = ms"
  by (induction ms) auto

lemma delete_revert: "map_of ms r = None \<Longrightarrow> AList.delete r (AList.update r s ms) = ms"
  by (induction ms) auto

lemma check_and_advance_eq:
  assumes "robot \<noteq> []" and "valid_seq seq"
  shows "check_and_advance committed robot seq st =
    (if seq \<le> mark st robot then (Inr False, st)
     else if committed
     then (Inr True, st\<lparr>sh_marks := AList.update robot seq (sh_marks st),
             sh_disk := Parsed (JObj (map (\<lambda>(k, v). (k, JInt v)) (AList.update robot seq (sh_marks st))))\<rparr>)
     else (Inl ActuationError, st))"
proof -
  obtain ms f where st: "st = \<lparr>sh_marks = ms, sh_disk = f\<rparr>" by (cases st) simp
  show ?thesis using assms update_revert [of ms robot] delete_revert [of ms robot]
    by (cases committed; cases "map_of ms robot")
      (simp_all add: check_and_advance_def persist_def mark_def Let_def st del: update_last)
qed

lemma advance_ok:
  assumes "store_ok st" "robot \<noteq> []" "length robot \<le> MAX_ROBOT_ID" "valid_seq seq"
    and "check_and_advance committed robot seq st = (r, st')"
  shows "store_ok st'" "r = Inr True \<Longrightarrow> mark st robot < seq \<and> mark st' = (mark st)(robot := seq)"
    "r \<noteq> Inr True \<Longrightarrow> st' = st"
proof -
  have upd: "marks_ok (AList.update robot seq (sh_marks st))"
    by (rule marks_ok_update [OF opened_marks_ok]) (use assms in \<open>auto simp: store_ok_def\<close>)
  show "store_ok st'" "r = Inr True \<Longrightarrow> mark st robot < seq \<and> mark st' = (mark st)(robot := seq)" "r \<noteq> Inr True \<Longrightarrow> st' = st"
    using assms(1,5) open_persisted [OF upd] unfolding check_and_advance_eq [OF assms(2,4)]
    by (auto simp: store_ok_def mark_def update_conv' distinct_update fun_eq_iff split: if_splits)
qed


definition advanced :: "string \<Rightarrow> int \<Rightarrow> seq_store \<Rightarrow> seq_store" where
  "advanced robot seq st =
     (let ms = AList.update robot seq (sh_marks st)
      in st\<lparr>sh_marks := ms, sh_disk := Parsed (JObj (map (\<lambda>(k, v). (k, JInt v)) ms))\<rparr>)"

lemma envelope_fields:
  "map_of (act_envelope key robot command seq ts sig) ''robot_id'' = Some (JStr robot)"
  "map_of (act_envelope key robot command seq ts sig) ''seq'' = Some (JInt seq)"
  by (simp_all add: act_envelope_def)

lemma sealed_door_accepts:
  assumes "verify_actuation ed allowed now max_age (Some expected) (Some cmds) raw = Inr (act_envelope key robot command seq ts sig)"
    and "signed_by ed allowed key robot command seq ts sig" and "may_move now max_age (Some expected) (Some cmds) robot command seq ts"
  shows "verify_and_advance ed committed allowed now expected cmds max_age raw st =
    (if seq \<le> mark st robot \<or> \<not> committed then (Inl ActuationError, st)
     else (Inr (act_envelope key robot command seq ts sig), advanced robot seq st))"
proof -
  have ne: "expected \<noteq> []" "cmds \<noteq> []" "allowed \<noteq> []" "robot \<noteq> []" "valid_seq seq"
    using assms(2,3) by (auto simp: signed_by_def may_move_def)
  show ?thesis using ne
    by (simp add: verify_and_advance_def assms(1) envelope_fields check_and_advance_eq advanced_def Let_def)
qed

text \<open>C25: the sealed door. The robot moves exactly when the value is an object with the eight keys
  whose fields a listed commander signed for this robot and an admitted command, fresh within a
  window never wider than thirty seconds, when its sequence number exceeds the robot's mark and
  the new mark reached the disk; then the mark is that number. Otherwise nothing changes, in
  memory or on disk.\<close>

theorem sealed_door_exact:
  "(verify_and_advance ed committed allowed now expected cmds max_age raw st = (Inr p, st') \<longleftrightarrow>
     (\<exists>kvs key robot command seq ts sig.
        raw = JObj kvs \<and> set (map fst kvs) = set ACT_REQUIRED_KEYS \<and>
        map (map_of kvs) ACT_REQUIRED_KEYS = map (map_of p) ACT_REQUIRED_KEYS \<and>
        p = act_envelope key robot command seq ts sig \<and> signed_by ed allowed key robot command seq ts sig \<and>
        may_move now max_age (Some expected) (Some cmds) robot command seq ts \<and>
        mark st robot < seq \<and> committed \<and> st' = advanced robot seq st)) \<and>
   (verify_and_advance ed committed allowed now expected cmds max_age raw st = (Inl e, st') \<longrightarrow> st' = st)"
proof -
  let ?v = "verify_actuation ed allowed now max_age (Some expected) (Some cmds) raw"
  show ?thesis
  proof (cases ?v)
    case (Inl e)
    then show ?thesis using actuation_accepted_exactly [of ed allowed now max_age "Some expected" "Some cmds" raw p]
      by (auto simp: verify_and_advance_def)
  next
    case (Inr q)
    note acc = actuation_accepted_exactly [of ed allowed now max_age "Some expected" "Some cmds" raw]
    from Inr obtain key robot command seq ts sig where q: "q = act_envelope key robot command seq ts sig"
        "signed_by ed allowed key robot command seq ts sig" "may_move now max_age (Some expected) (Some cmds) robot command seq ts"
      using acc [of q] by blast
    note door = sealed_door_accepts [OF Inr [unfolded q(1)] q(2,3), of committed st]
    have sub: "verify_and_advance ed committed allowed now expected cmds max_age raw st = (Inr p, st') \<longleftrightarrow>
        p = q \<and> mark st robot < seq \<and> committed \<and> st' = advanced robot seq st"
      unfolding door q(1) by auto
    have same: "r = robot \<and> s = seq" if "q = act_envelope k r c s t g" for k r c s t g
      using that q(1) by (simp add: act_envelope_def)
    let ?signed = "\<lambda>kvs key r c s ts sig. raw = JObj kvs \<and> set (map fst kvs) = set ACT_REQUIRED_KEYS \<and>
        map (map_of kvs) ACT_REQUIRED_KEYS = map (map_of p) ACT_REQUIRED_KEYS \<and>
        p = act_envelope key r c s ts sig \<and> signed_by ed allowed key r c s ts sig \<and>
        may_move now max_age (Some expected) (Some cmds) r c s ts"
    have 1: "p = q \<and> r = robot \<and> s = seq" if "?signed kvs key r c s ts sig" for kvs key r c s ts sig
    proof -
      have "?v = Inr p" unfolding acc using that by blast
      then have "p = q" using Inr by simp
      then show ?thesis using that same [of key r c s ts sig] by blast
    qed
    have 2: "\<exists>kvs key c ts sig. ?signed kvs key robot c seq ts sig" if "p = q"
    proof -
      have "?v = Inr p" using Inr that by simp
      then have "\<exists>kvs key r c s ts sig. ?signed kvs key r c s ts sig" unfolding acc .
      then obtain kvs key r c s ts sig where "?signed kvs key r c s ts sig" by blast
      with 1 show ?thesis by blast
    qed
    have "verify_and_advance ed committed allowed now expected cmds max_age raw st = (Inl e, st') \<longrightarrow> st' = st"
      unfolding door by simp
    moreover have "p = q \<and> mark st robot < seq \<and> committed \<and> st' = advanced robot seq st \<longleftrightarrow>
      (\<exists>kvs key r c s ts sig. ?signed kvs key r c s ts sig \<and> mark st r < s \<and> committed \<and> st' = advanced r s st)"
      using 1 2 by blast
    ultimately show ?thesis unfolding sub by (simp only: conj_assoc simp_thms)
  qed
qed

section \<open>Runs\<close>

text \<open>The life of a bridge: envelopes arrive at the door, each with its own clock, lists and write
  outcome; the process stops and reopens the file, also right after a write and before the
  robot moved. The trace holds the moves, a robot with a sequence number each.\<close>

inductive bridge_run :: "(byte list \<Rightarrow> byte list \<Rightarrow> byte list \<Rightarrow> bool) \<Rightarrow> seq_store \<Rightarrow> (string \<times> int) list \<Rightarrow> seq_store \<Rightarrow> bool"
  for ed st where
  start: "bridge_run ed st [] st"
| moved: "bridge_run ed st tr st1 \<Longrightarrow>
    verify_and_advance ed committed allowed now expected cmds max_age raw st1 = (Inr p, st2) \<Longrightarrow>
    map_of p ''robot_id'' = Some (JStr robot) \<Longrightarrow> map_of p ''seq'' = Some (JInt seq) \<Longrightarrow>
    bridge_run ed st (tr @ [(robot, seq)]) st2"
| refused: "bridge_run ed st tr st1 \<Longrightarrow>
    verify_and_advance ed committed allowed now expected cmds max_age raw st1 = (Inl e, st2) \<Longrightarrow> bridge_run ed st tr st2"
| died: "bridge_run ed st tr st1 \<Longrightarrow>
    verify_and_advance ed committed allowed now expected cmds max_age raw st1 = (r, st2) \<Longrightarrow>
    open_store (sh_disk st2) = Inr st3 \<Longrightarrow> bridge_run ed st tr st3"
| reopened: "bridge_run ed st tr st1 \<Longrightarrow> open_store (sh_disk st1) = Inr st2 \<Longrightarrow> bridge_run ed st tr st2"

lemma advanced_ok:
  assumes "store_ok st" "robot \<noteq> []" "length robot \<le> MAX_ROBOT_ID" "valid_seq seq"
  shows "store_ok (advanced robot seq st)" "mark (advanced robot seq st) = (mark st)(robot := seq)"
proof -
  have "marks_ok (AList.update robot seq (sh_marks st))"
    by (rule marks_ok_update [OF opened_marks_ok]) (use assms in \<open>auto simp: store_ok_def\<close>)
  from open_persisted [OF this] show "store_ok (advanced robot seq st)" "mark (advanced robot seq st) = (mark st)(robot := seq)"
    using assms(1) by (auto simp: store_ok_def advanced_def Let_def mark_def update_conv' distinct_update fun_eq_iff)
qed

text \<open>What a call does to the store: nothing, or an advance by a number above the mark.\<close>

lemma door_cases:
  assumes "verify_and_advance ed committed allowed now expected cmds max_age raw st = (r, st')"
  obtains e where "r = Inl e" "st' = st"
  | key robot command seq ts sig where "r = Inr (act_envelope key robot command seq ts sig)"
      "st' = advanced robot seq st" "mark st robot < seq" "robot \<noteq> []" "length robot \<le> MAX_ROBOT_ID" "valid_seq seq"
proof (cases "verify_actuation ed allowed now max_age (Some expected) (Some cmds) raw")
  case (Inl e)
  then have "verify_and_advance ed committed allowed now expected cmds max_age raw st = (Inl ActuationError, st)"
    by (cases e) (simp add: verify_and_advance_def)
  then show thesis using assms that(1) by simp
next
  case (Inr p)
  then obtain key robot command seq ts sig where p: "p = act_envelope key robot command seq ts sig"
      "signed_by ed allowed key robot command seq ts sig" "may_move now max_age (Some expected) (Some cmds) robot command seq ts"
    using actuation_accepted_exactly [of ed allowed now max_age "Some expected" "Some cmds" raw p] by blast
  note door = sealed_door_accepts [OF Inr [unfolded p(1)] p(2,3), of committed st]
  show thesis
  proof (cases "seq \<le> mark st robot \<or> \<not> committed")
    case True
    then have "r = Inl ActuationError" "st' = st" using assms door by simp_all
    then show thesis by (rule that(1))
  next
    case False
    then show thesis using assms door p(3) by (intro that(2)) (auto simp: may_move_def)
  qed
qed

lemma open_store_ok: "store_ok st \<Longrightarrow> open_store (sh_disk st) = Inr st"
  by (cases st) (simp add: store_ok_def open_store_def)

definition climbs :: "seq_store \<Rightarrow> (string \<times> int) list \<Rightarrow> seq_store \<Rightarrow> bool" where
  "climbs st tr st' \<longleftrightarrow>
     sorted_wrt (\<lambda>a b. fst a = fst b \<longrightarrow> snd a < snd b) tr \<and>
     (\<forall>(r, s) \<in> set tr. mark st r < s \<and> s \<le> mark st' r) \<and> (\<forall>r. mark st r \<le> mark st' r)"

lemma climbs_snoc:
  assumes "climbs st tr st1" "mark st1 robot < seq" "mark st2 = (mark st1)(robot := seq)"
  shows "climbs st (tr @ [(robot, seq)]) st2" "climbs st tr st2"
proof -
  have up: "mark st1 r \<le> mark st2 r" for r using assms(2,3) by simp
  have old: "mark st r < s \<and> s \<le> mark st2 r" if "(r, s) \<in> set tr" for r s
    using assms(1) that up [of r] by (auto simp: climbs_def)
  have below: "s < seq" if "(robot, s) \<in> set tr" for s using assms(1,2) that by (auto simp: climbs_def)
  have base: "mark st r \<le> mark st2 r" for r using assms(1) order_trans [OF _ up [of r]] by (simp add: climbs_def)
  have "mark st robot < seq" using assms(1) le_less_trans [OF _ assms(2)] by (simp add: climbs_def)
  then show "climbs st (tr @ [(robot, seq)]) st2" "climbs st tr st2"
    using old below base assms(1,3) unfolding climbs_def by (auto simp: sorted_wrt_append)
qed

lemma bridge_run_climbs:
  assumes "bridge_run ed st tr st'" and "store_ok st"
  shows "store_ok st' \<and> climbs st tr st'"
  using assms
proof (induction rule: bridge_run.induct)
  case start
  then show ?case by (simp add: climbs_def)
next
  case (moved tr st1 committed allowed now expected cmds max_age raw p st2 robot seq)
  from moved(2) show ?case
  proof (cases rule: door_cases)
    case (2 key robot' command seq' ts sig)
    then have "robot' = robot" "seq' = seq" using moved(3,4) by (simp_all add: envelope_fields)
    then show ?thesis using 2 moved(5,6) advanced_ok [of st1] climbs_snoc(1) by metis
  qed simp
next
  case (refused tr st1 committed allowed now expected cmds max_age raw e st2)
  from refused(2) show ?case by (cases rule: door_cases) (use refused in simp_all)
next
  case (died tr st1 committed allowed now expected cmds max_age raw r st2 st3)
  from died(2) have "store_ok st2 \<and> climbs st tr st2"
  proof (cases rule: door_cases)
    case (2 key robot command seq ts sig)
    then show ?thesis using died(4,5) advanced_ok [of st1] climbs_snoc(2) by metis
  qed (use died in simp)
  then show ?case using died(3) open_store_ok by simp
next
  case (reopened tr st1 st2)
  then show ?case using open_store_ok by simp
qed

text \<open>C24: at most once, and in order. Over any life of a bridge that opened its file, whatever
  envelopes arrive and whenever writes fail or the process dies, the moves of each robot have
  strictly increasing sequence numbers above the mark the file held, so no number moves a robot
  twice; and the file can always be reopened, at the marks the process had.\<close>

theorem actuates_at_most_once:
  assumes "open_store f = Inr st" and "distinct (map fst (sh_marks st))" and "bridge_run ed st tr st'"
  shows "sorted_wrt (<) (map snd (filter (\<lambda>m. fst m = robot) tr)) \<and>
    (\<forall>m \<in> set tr. mark st (fst m) < snd m \<and> snd m \<le> mark st' (fst m)) \<and> open_store (sh_disk st') = Inr st'"
proof -
  have "store_ok st" using assms(1,2) by (auto simp: store_ok_def open_store_def split: sum.splits)
  then have r: "store_ok st'" "climbs st tr st'" using bridge_run_climbs [OF assms(3)] by auto
  then have "sorted_wrt (\<lambda>a b. fst a = fst b \<longrightarrow> snd a < snd b) (filter (\<lambda>m. fst m = robot) tr)"
    by (simp add: climbs_def sorted_wrt_filter)
  then have "sorted_wrt (\<lambda>a b. snd a < snd b) (filter (\<lambda>m. fst m = robot) tr)"
    by (rule sorted_wrt_mono_rel [rotated]) simp
  then show ?thesis using r open_store_ok by (auto simp: climbs_def sorted_wrt_map)
qed

section \<open>Witnesses\<close>

definition ex_allowed :: "string list" where
  "ex_allowed = [projr (encode_multikey golden_key)]"

definition ex_wave :: "(string \<times> json) list" where
  "ex_wave = act_envelope golden_key ''arm'' ''wave'' 7 1000 (replicate 64 0)"

definition ex_store :: seq_store where
  "ex_store = \<lparr>sh_marks = [(''arm'', 6)], sh_disk = Parsed (JObj [(''arm'', JInt 6)])\<rparr>"

lemma ex_wave_signed: "signed_by (\<lambda>_ _ _. True) ex_allowed golden_key ''arm'' ''wave'' 7 1000 (replicate 64 0)"
proof -
  have "\<exists>b. actuation_signing_bytes golden_key (points ''arm'') (points ''wave'') 7 1000 = Some b"
    by (simp add: actuation_signing_bytes_def signed_layout ACTUATE_DOMAIN_TAG_def golden_key_def)
  then show ?thesis by (auto simp: signed_by_def ex_allowed_def golden_key_def PUBKEY_RAW_LEN_def SIG_RAW_LEN_def)
qed

lemma ex_wave_keys: "set (map fst ex_wave) = set ACT_REQUIRED_KEYS"
  by (simp add: ex_wave_def act_envelope_def ACT_REQUIRED_KEYS_def)

lemma ex_wave_may_move: "may_move 1500 2000 (Some ''arm'') (Some [''wave'']) ''arm'' ''wave'' 7 1000"
  by (simp add: may_move_def MAX_ALLOWED_AGE_MS_def MAX_ROBOT_ID_def MAX_COMMAND_def valid_seq_def MAX_SEQ_def
      ACT_MAX_SIGNED_AT_MS_def MAX_FWD_SKEW_MS_def)

lemma ex_verified: "verify_actuation (\<lambda>_ _ _. True) ex_allowed 1500 2000 (Some ''arm'') (Some [''wave'']) (JObj ex_wave) = Inr ex_wave"
  unfolding actuation_accepted_exactly using ex_wave_signed ex_wave_keys ex_wave_may_move ex_wave_def by blast

lemma ex_door: "verify_and_advance (\<lambda>_ _ _. True) True ex_allowed 1500 ''arm'' [''wave''] 2000 (JObj ex_wave) ex_store =
    (Inr ex_wave, advanced ''arm'' 7 ex_store)"
  using sealed_door_accepts [OF ex_verified [unfolded ex_wave_def] ex_wave_signed ex_wave_may_move, of True ex_store]
  by (simp add: ex_wave_def mark_def ex_store_def)

text \<open>The same envelope again is a replay.\<close>

theorem sealed_door_exact_witness:
  "verify_and_advance (\<lambda>_ _ _. True) True ex_allowed 1500 ''arm'' [''wave''] 2000 (JObj ex_wave) ex_store =
     (Inr ex_wave, advanced ''arm'' 7 ex_store) \<and>
   fst (verify_and_advance (\<lambda>_ _ _. True) True ex_allowed 1500 ''arm'' [''wave''] 2000 (JObj ex_wave) (advanced ''arm'' 7 ex_store)) \<noteq>
     Inr ex_wave"
proof -
  let ?st = "advanced ''arm'' 7 ex_store"
  note door = sealed_door_exact [of "\<lambda>_ _ _. True" True ex_allowed 1500 "''arm''" "[''wave'']" 2000 "JObj ex_wave"]
  have "mark ?st ''arm'' = 7" by (simp add: mark_def advanced_def Let_def ex_store_def)
  moreover have "r = ''arm'' \<and> s = 7" if "ex_wave = act_envelope k r c s t g" for k r c s t g
    using that by (simp add: ex_wave_def act_envelope_def)
  ultimately have "\<not> (\<exists>kvs key robot command seq ts sig. JObj ex_wave = JObj kvs \<and> set (map fst kvs) = set ACT_REQUIRED_KEYS \<and>
        map (map_of kvs) ACT_REQUIRED_KEYS = map (map_of ex_wave) ACT_REQUIRED_KEYS \<and>
        ex_wave = act_envelope key robot command seq ts sig \<and> signed_by (\<lambda>_ _ _. True) ex_allowed key robot command seq ts sig \<and>
        may_move 1500 2000 (Some ''arm'') (Some [''wave'']) robot command seq ts \<and>
        mark ?st robot < seq \<and> True \<and> st' = advanced robot seq ?st)" for st'
    by fastforce
  then have "verify_and_advance (\<lambda>_ _ _. True) True ex_allowed 1500 ''arm'' [''wave''] 2000 (JObj ex_wave) ?st \<noteq> (Inr ex_wave, st')" for st'
    using door [of ?st ex_wave st', THEN conjunct1] by blast
  then show ?thesis using ex_door by (metis prod.collapse)
qed

theorem actuates_at_most_once_witness:
  "\<exists>st'. bridge_run (\<lambda>_ _ _. True) ex_store [(''arm'', 7)] st' \<and> open_store (sh_disk st') = Inr st'"
proof -
  have o: "open_store (Parsed (JObj [(''arm'', JInt 6)])) = Inr ex_store"
    by (simp add: open_store_def open_marks_def valid_mark_def valid_seq_def MAX_SEQ_def MAX_ROBOT_ID_def ex_store_def)
  have "map_of ex_wave ''robot_id'' = Some (JStr ''arm'')" "map_of ex_wave ''seq'' = Some (JInt 7)"
    by (simp_all add: ex_wave_def envelope_fields)
  from bridge_run.moved [OF bridge_run.start ex_door this]
  have run: "bridge_run (\<lambda>_ _ _. True) ex_store [(''arm'', 7)] (advanced ''arm'' 7 ex_store)" by simp
  have "distinct (map fst (sh_marks ex_store))" by (simp add: ex_store_def)
  from actuates_at_most_once [OF o this run, of "''arm''"] run show ?thesis by blast
qed

end
