(* ===== verification/Islands.thy ===== *)
theory Islands
  imports Signing RateLimit
begin

text \<open>The island's signed self-manifest (\<open>domain/island_identity.py\<close>, \<open>domain/island_mode.py\<close>,
  \<open>rest/island.py\<close>) and the gossiped directory of peer islands (\<open>domain/peers_service.py\<close>,
  \<open>rest/islands.py\<close>). Ed25519 signing, verification and the public key of a seed are
  arguments; what the HTTP client gets from a URL is a function from URLs, where a failed
  request, an error status and an unparsable body are all \<open>None\<close>. Text is Latin-1.\<close>

section \<open>Definitions\<close>

datatype island_mode = MODERATOR | E2EE

fun mode_value :: "island_mode \<Rightarrow> string" where
  "mode_value MODERATOR = ''moderator''"
| "mode_value E2EE = ''e2ee''"

definition VALID_MODES :: "island_mode list" where "VALID_MODES = [MODERATOR, E2EE]"

interpretation island_mode: str_enum VALID_MODES mode_value
proof (unfold_locales, goal_cases)
  case (1 m) show ?case by (cases m) (simp_all add: VALID_MODES_def)
next
  case (2 m m') then show ?case by (cases m; cases m') simp_all
qed

subsection \<open>The manifest\<close>

definition ISLAND_DOMAIN_TAG :: string where "ISLAND_DOMAIN_TAG = ''aikochat:island:v1:EdDSA''"
definition ISLAND_V :: int where "ISLAND_V = 2"
definition SEED_LEN :: nat where "SEED_LEN = 32"
definition SIG_LEN :: nat where "SIG_LEN = 64"
definition MAX_ID_STR :: nat where "MAX_ID_STR = 64"
definition MAX_NAME_STR :: nat where "MAX_NAME_STR = 64"
definition MAX_URL_STR :: nat where "MAX_URL_STR = 255"
definition KEY_VERSION_MAX :: int where "KEY_VERSION_MAX = 2 ^ 32 - 1"
definition MANIFEST_MAX_AGE_MS :: int where "MANIFEST_MAX_AGE_MS = 5 * 60 * 1000"
definition MANIFEST_CLOCK_SKEW_MS :: int where "MANIFEST_CLOCK_SKEW_MS = 60 * 1000"

definition MANIFEST_KEYS :: "string list" where
  "MANIFEST_KEYS = [''v'', ''alg'', ''id'', ''display_name'', ''base_url'', ''mode'', ''key_version'', ''signed_at_ms'',
     ''island_pubkey'', ''signature'']"

datatype island_error = IslandIdentityError

definition decode_seed :: "string \<Rightarrow> island_error + byte list" where
  "decode_seed seed_b64url =
     (case b64url_raw (py_strip seed_b64url) SEED_LEN of Inl _ \<Rightarrow> Inl IslandIdentityError | Inr seed \<Rightarrow> Inr seed)"

definition island_signing_bytes :: "string \<Rightarrow> string \<Rightarrow> string \<Rightarrow> string \<Rightarrow> int \<Rightarrow> int \<Rightarrow> byte list option" where
  "island_signing_bytes i display_name base_url mode key_version signed_at_ms =
     join_parts
       [lp_str (points ISLAND_DOMAIN_TAG),
        lp_str (points i),
        lp_str (points display_name),
        lp_str (points base_url),
        lp_str (points mode),
        pack 4 key_version,
        pack 8 signed_at_ms]"

text \<open>The identity tuple of a manifest, and its check, field by field.\<close>

record identity =
  idn_id :: string
  idn_name :: string
  idn_url :: string
  idn_mode :: string
  idn_key_version :: int
  idn_signed_at :: int

definition capped :: "nat \<Rightarrow> string \<Rightarrow> bool" where
  "capped cap s \<longleftrightarrow> length s \<le> cap \<and> s \<noteq> []"

definition check_identity_tuple :: "json option \<Rightarrow> json option \<Rightarrow> json option \<Rightarrow> json option \<Rightarrow> json option \<Rightarrow> json option \<Rightarrow>
    island_error + identity" where
  "check_identity_tuple i display_name base_url mode key_version signed_at_ms =
     (case (i, display_name, base_url, mode, key_version, signed_at_ms) of
        (Some (JStr i), Some (JStr n), Some (JStr u), Some (JStr m), Some (JInt kv), Some (JInt ts)) \<Rightarrow>
          if \<not> capped MAX_ID_STR i \<or> \<not> capped MAX_NAME_STR n \<or> \<not> capped MAX_URL_STR u \<or> \<not> capped MAX_NAME_STR m
          then Inl IslandIdentityError
          else if enum_of VALID_MODES mode_value m = None then Inl IslandIdentityError
          else if \<not> (1 \<le> kv \<and> kv \<le> KEY_VERSION_MAX) then Inl IslandIdentityError
          else if \<not> (0 \<le> ts \<and> ts \<le> MAX_SIGNED_AT_MS) then Inl IslandIdentityError
          else Inr \<lparr>idn_id = i, idn_name = n, idn_url = u, idn_mode = m, idn_key_version = kv, idn_signed_at = ts\<rparr>
      | _ \<Rightarrow> Inl IslandIdentityError)"

definition bytes_of_identity :: "identity \<Rightarrow> byte list option" where
  "bytes_of_identity t = island_signing_bytes (idn_id t) (idn_name t) (idn_url t) (idn_mode t) (idn_key_version t) (idn_signed_at t)"

definition build_signed_manifest :: "(byte list \<Rightarrow> byte list) \<Rightarrow> (byte list \<Rightarrow> byte list \<Rightarrow> byte list) \<Rightarrow> string \<Rightarrow> string \<Rightarrow>
    string \<Rightarrow> string \<Rightarrow> int \<Rightarrow> int \<Rightarrow> string \<Rightarrow> island_error + json" where
  "build_signed_manifest public sign i display_name base_url mode key_version signed_at_ms seed_b64url =
     (case check_identity_tuple (Some (JStr i)) (Some (JStr display_name)) (Some (JStr base_url)) (Some (JStr mode))
             (Some (JInt key_version)) (Some (JInt signed_at_ms)) of
        Inl e \<Rightarrow> Inl e
      | Inr t \<Rightarrow>
          (case decode_seed seed_b64url of
             Inl e \<Rightarrow> Inl e
           | Inr seed \<Rightarrow>
               (case (bytes_of_identity t, encode_multikey (public seed)) of
                  (Some msg, Inr multikey) \<Rightarrow>
                    Inr (JObj [(''v'', JInt ISLAND_V), (''alg'', JStr ALG), (''id'', JStr i), (''display_name'', JStr display_name),
                      (''base_url'', JStr base_url), (''mode'', JStr mode), (''key_version'', JInt key_version),
                      (''signed_at_ms'', JInt signed_at_ms), (''island_pubkey'', JStr multikey),
                      (''signature'', JStr (b64url_nopad (sign seed msg)))])
                | _ \<Rightarrow> Inl IslandIdentityError)))"

definition verify_manifest :: "(byte list \<Rightarrow> byte list \<Rightarrow> byte list \<Rightarrow> bool) \<Rightarrow> json \<Rightarrow> island_error + bool" where
  "verify_manifest ed25519_verify manifest =
     (case manifest of
        JObj kvs \<Rightarrow>
          (if set (map fst kvs) \<noteq> set MANIFEST_KEYS then Inl IslandIdentityError
           else if \<not> int_at kvs ''v'' (\<lambda>v. v = ISLAND_V) then Inl IslandIdentityError
           else if \<not> str_at kvs ''alg'' (\<lambda>alg. alg = ALG) then Inl IslandIdentityError
           else case check_identity_tuple (map_of kvs ''id'') (map_of kvs ''display_name'') (map_of kvs ''base_url'')
                       (map_of kvs ''mode'') (map_of kvs ''key_version'') (map_of kvs ''signed_at_ms'') of
                  Inl e \<Rightarrow> Inl e
                | Inr t \<Rightarrow>
                    (case (map_of kvs ''island_pubkey'', map_of kvs ''signature'') of
                       (Some (JStr pub_str), Some (JStr sig_str)) \<Rightarrow>
                         if length pub_str > MAX_PUBKEY_STR then Inl IslandIdentityError
                         else (case (decode_multikey pub_str, b64url_raw sig_str SIG_LEN, bytes_of_identity t) of
                                 (Inr pub_raw, Inr sig, Some msg) \<Rightarrow> Inr (ed25519_verify pub_raw sig msg)
                               | _ \<Rightarrow> Inl IslandIdentityError)
                     | _ \<Rightarrow> Inl IslandIdentityError))
      | _ \<Rightarrow> Inl IslandIdentityError)"

definition fresh_input :: "int \<Rightarrow> bool" where
  "fresh_input v \<longleftrightarrow> 0 \<le> v \<and> v \<le> MAX_SIGNED_AT_MS"

definition is_fresh :: "int \<Rightarrow> int \<Rightarrow> int \<Rightarrow> int \<Rightarrow> island_error + bool" where
  "is_fresh signed_at_ms now_ms max_age_ms skew_ms =
     (if list_all fresh_input [signed_at_ms, now_ms, max_age_ms, skew_ms]
      then Inr (- skew_ms \<le> now_ms - signed_at_ms \<and> now_ms - signed_at_ms \<le> max_age_ms)
      else Inl IslandIdentityError)"

definition admit_manifest :: "(byte list \<Rightarrow> byte list \<Rightarrow> byte list \<Rightarrow> bool) \<Rightarrow> int \<Rightarrow> int \<Rightarrow> int \<Rightarrow> json \<Rightarrow> island_error + string option" where
  "admit_manifest ed25519_verify now_ms max_age_ms skew_ms manifest =
     (if max_age_ms > MANIFEST_MAX_AGE_MS then Inl IslandIdentityError
      else if skew_ms > MANIFEST_CLOCK_SKEW_MS then Inl IslandIdentityError
      else case verify_manifest ed25519_verify manifest of
             Inl e \<Rightarrow> Inl e
           | Inr False \<Rightarrow> Inr None
           | Inr True \<Rightarrow>
               (case (jget ''signed_at_ms'' manifest, jget ''mode'' manifest) of
                  (Some (JInt ts), Some (JStr mode)) \<Rightarrow>
                    (case is_fresh ts now_ms max_age_ms skew_ms of
                       Inl e \<Rightarrow> Inl e
                     | Inr False \<Rightarrow> Inr None
                     | Inr True \<Rightarrow> Inr (Some mode))
                | _ \<Rightarrow> Inl IslandIdentityError))"

subsection \<open>Peer entries\<close>

definition MAX_PEERS :: nat where "MAX_PEERS = 200"
definition MAX_ID_LEN :: nat where "MAX_ID_LEN = 64"
definition MAX_NAME_LEN :: nat where "MAX_NAME_LEN = 64"
definition MAX_URL_LEN :: nat where "MAX_URL_LEN = 255"

definition code_in :: "nat \<Rightarrow> nat \<Rightarrow> char \<Rightarrow> bool" where
  "code_in a b c \<longleftrightarrow> a \<le> of_char c \<and> (of_char c :: nat) \<le> b"

definition id_char :: "char \<Rightarrow> bool" where
  "id_char c \<longleftrightarrow> code_in 97 122 c \<or> code_in 48 57 c"

definition id_re :: "string \<Rightarrow> bool" where
  "id_re s \<longleftrightarrow> s \<noteq> [] \<and> id_char (hd s) \<and> list_all (\<lambda>c. id_char c \<or> c = CHR ''-'') (tl s) \<and> length (tl s) \<le> MAX_ID_LEN - 1"

definition host_char :: "char \<Rightarrow> bool" where
  "host_char c \<longleftrightarrow> id_char c \<or> code_in 65 90 c \<or> c = CHR ''.'' \<or> c = CHR ''-''"

text \<open>The class of word characters, on Latin-1, with the other characters a path admits.\<close>

definition path_char :: "char \<Rightarrow> bool" where
  "path_char c \<longleftrightarrow> host_char c \<or> c \<in> {CHR ''_'', CHR ''/'', CHR ''~''} \<or> of_char c \<in> {170 :: nat, 178, 179, 181, 185, 186, 188, 189, 190} \<or>
     code_in 192 255 c \<and> of_char c \<notin> {215 :: nat, 247}"

definition https_re :: "string \<Rightarrow> bool" where
  "https_re s \<longleftrightarrow>
     take 8 s = ''https://'' \<and>
     (let rest = drop 8 s; after_host = dropWhile host_char rest;
          after_port = (case after_host of
                          c # cs \<Rightarrow> if c = CHR '':'' \<and> cs \<noteq> [] \<and> code_in 48 57 (hd cs) then dropWhile (code_in 48 57) cs else after_host
                        | [] \<Rightarrow> [])
      in takeWhile host_char rest \<noteq> [] \<and>
         (case after_port of [] \<Rightarrow> True | c # cs \<Rightarrow> c = CHR ''/'' \<and> list_all path_char cs))"

definition py_lower :: "string \<Rightarrow> string" where
  "py_lower s = map (\<lambda>c. if code_in 65 90 c \<or> code_in 192 222 c \<and> of_char c \<noteq> (215 :: nat) then char_of (of_char c + 32 :: nat) else c) s"

record island =
  is_id :: string
  is_name :: string
  is_url :: string
  is_mode :: "island_mode option"

definition to_public :: "island \<Rightarrow> json" where
  "to_public p = JObj [(''id'', JStr (is_id p)), (''display_name'', JStr (is_name p)), (''base_url'', JStr (is_url p))]"

definition normalize_base_url :: "string \<Rightarrow> string" where
  "normalize_base_url raw = rev (dropWhile (\<lambda>c. c = CHR ''/'') (rev raw))"

definition get_or :: "json \<Rightarrow> string \<Rightarrow> string \<Rightarrow> json option" where
  "get_or raw k k' = (case jget k raw of None \<Rightarrow> jget k' raw | Some v \<Rightarrow> Some v)"

definition coerce_fields :: "string \<Rightarrow> string \<Rightarrow> string \<Rightarrow> island option" where
  "coerce_fields gid name url =
     (let gid = py_lower (py_strip gid); name = py_strip name; url = normalize_base_url (py_strip url)
      in if \<not> id_re gid then None
         else if name = [] \<or> length name > MAX_NAME_LEN then None
         else if length url > MAX_URL_LEN \<or> \<not> https_re url then None
         else Some \<lparr>is_id = gid, is_name = name, is_url = url, is_mode = None\<rparr>)"

definition coerce_island :: "json \<Rightarrow> island option" where
  "coerce_island raw =
     (case raw of
        JObj _ \<Rightarrow>
          (case (jget ''id'' raw, get_or raw ''display_name'' ''displayName'', get_or raw ''base_url'' ''baseURL'') of
             (Some (JStr gid), Some (JStr name), Some (JStr url)) \<Rightarrow> coerce_fields gid name url
           | _ \<Rightarrow> None)
      | _ \<Rightarrow> None)"

subsection \<open>The directory\<close>

text \<open>The dict of peers is the list of its values in insertion order; every value is stored under
  its own id.\<close>

record directory =
  dir_self :: "island option"
  dir_peers :: "island list"
  dir_bootstrap :: "string list"

definition is_self_id :: "directory \<Rightarrow> string \<Rightarrow> bool" where
  "is_self_id d i = (case dir_self d of None \<Rightarrow> False | Some s \<Rightarrow> i = is_id s)"

definition known :: "directory \<Rightarrow> island list" where
  "known d = order_asc is_id (dir_peers d)"

definition merge_one :: "json \<Rightarrow> directory \<Rightarrow> nat \<times> directory" where
  "merge_one raw d =
     (case coerce_island raw of
        None \<Rightarrow> (0, d)
      | Some peer \<Rightarrow>
          if is_self_id d (is_id peer) then (0, d)
          else if list_ex (\<lambda>p. is_id p = is_id peer) (dir_peers d) then (0, d)
          else if list_ex (\<lambda>p. is_url p = is_url peer) (dir_peers d) then (0, d)
          else if length (dir_peers d) \<ge> MAX_PEERS then (0, d)
          else (1, d\<lparr>dir_peers := dir_peers d @ [peer]\<rparr>))"

fun merge :: "json list \<Rightarrow> directory \<Rightarrow> nat \<times> directory" where
  "merge [] d = (0, d)"
| "merge (raw # rest) d = (case merge_one raw d of (n, d') \<Rightarrow> case merge rest d' of (m, d'') \<Rightarrow> (n + m, d''))"

definition new_directory :: "island option \<Rightarrow> string list \<Rightarrow> json list \<Rightarrow> directory" where
  "new_directory self_peer bootstrap_urls seed_peers =
     (let d = \<lparr>dir_self = self_peer, dir_peers = (case self_peer of None \<Rightarrow> [] | Some p \<Rightarrow> [p]), dir_bootstrap = []\<rparr>
      in (snd (merge seed_peers d))\<lparr>dir_bootstrap :=
           map normalize_base_url (filter (\<lambda>u. https_re (normalize_base_url (py_strip u))) bootstrap_urls)\<rparr>)"

definition record_verified_mode :: "string \<Rightarrow> string \<Rightarrow> string \<Rightarrow> directory \<Rightarrow> directory" where
  "record_verified_mode peer_id mode expected_base_url d =
     (if is_self_id d peer_id then d
      else case find (\<lambda>p. is_id p = peer_id) (dir_peers d) of
             None \<Rightarrow> d
           | Some peer \<Rightarrow>
               if is_url peer \<noteq> expected_base_url then d
               else case enum_of VALID_MODES mode_value mode of
                      None \<Rightarrow> d
                    | Some validated \<Rightarrow>
                        d\<lparr>dir_peers := upd_where (\<lambda>p. is_id p = peer_id) (\<lambda>p. peer\<lparr>is_mode := Some validated\<rparr>) (dir_peers d)\<rparr>)"

definition gossip_targets :: "directory \<Rightarrow> string list" where
  "gossip_targets d =
     sorted_set (map is_url (filter (\<lambda>p. \<not> is_self_id d (is_id p)) (dir_peers d)) @ dir_bootstrap d)"

text \<open>What \<open>merge\<close> iterates over when handed a decoded JSON value: \<open>None\<close> is the \<open>TypeError\<close>.\<close>

definition json_falsy :: "json \<Rightarrow> bool" where
  "json_falsy j = (case j of JNull \<Rightarrow> True | JBool b \<Rightarrow> \<not> b | JInt i \<Rightarrow> i = 0 | JStr s \<Rightarrow> s = [] | JList l \<Rightarrow> l = []
     | JObj kvs \<Rightarrow> kvs = [] | JFloat _ \<Rightarrow> False)"

definition entries_of :: "json option \<Rightarrow> json list option" where
  "entries_of e =
     (case e of
        None \<Rightarrow> Some []
      | Some j \<Rightarrow>
          if json_falsy j then Some []
          else case j of JList l \<Rightarrow> Some l | JObj kvs \<Rightarrow> Some (map (\<lambda>kv. JStr (fst kv)) kvs)
                 | JStr s \<Rightarrow> Some (map (\<lambda>c. JStr [c]) s) | _ \<Rightarrow> None)"

definition learn_mode :: "(byte list \<Rightarrow> byte list \<Rightarrow> byte list \<Rightarrow> bool) \<Rightarrow> int \<Rightarrow> json option \<Rightarrow> string \<Rightarrow> directory \<Rightarrow> directory" where
  "learn_mode ed25519_verify now_ms fetched base d =
     (case fetched of
        None \<Rightarrow> d
      | Some manifest \<Rightarrow>
          (case admit_manifest ed25519_verify now_ms MANIFEST_MAX_AGE_MS MANIFEST_CLOCK_SKEW_MS manifest of
             Inr (Some mode) \<Rightarrow>
               (case (jget ''base_url'' manifest, jget ''id'' manifest) of
                  (Some (JStr url), Some (JStr i)) \<Rightarrow>
                    if normalize_base_url url = base then record_verified_mode (py_lower (py_strip i)) mode base d else d
                | _ \<Rightarrow> d)
           | _ \<Rightarrow> d))"

definition gossip_target :: "(byte list \<Rightarrow> byte list \<Rightarrow> byte list \<Rightarrow> bool) \<Rightarrow> (string \<Rightarrow> int) \<Rightarrow> (string \<Rightarrow> json option) \<Rightarrow> string \<Rightarrow>
    directory \<Rightarrow> nat \<times> directory" where
  "gossip_target ed25519_verify clock fetch base d =
     (case (case fetch (base @ ''/v1/islands'') of Some b \<Rightarrow> Some b | None \<Rightarrow> fetch (base @ ''/v1/gateways'')) of
        None \<Rightarrow> (0, d)
      | Some (JObj kvs) \<Rightarrow>
          (let entries = (case map_of kvs ''islands'' of
                            None \<Rightarrow> map_of kvs ''gateways''
                          | Some JNull \<Rightarrow> map_of kvs ''gateways''
                          | Some e \<Rightarrow> Some e)
           in case entries_of entries of
                None \<Rightarrow> (0, d)
              | Some es \<Rightarrow>
                  (case merge es d of
                     (n, d') \<Rightarrow> (n, learn_mode ed25519_verify (clock base) (fetch (base @ ''/v1/island'')) base d')))
      | Some _ \<Rightarrow> (0, d))"

fun gossip_all :: "(byte list \<Rightarrow> byte list \<Rightarrow> byte list \<Rightarrow> bool) \<Rightarrow> (string \<Rightarrow> int) \<Rightarrow> (string \<Rightarrow> json option) \<Rightarrow> string list \<Rightarrow>
    directory \<Rightarrow> nat \<times> directory" where
  "gossip_all ed clock fetch [] d = (0, d)"
| "gossip_all ed clock fetch (base # bases) d =
     (case gossip_target ed clock fetch base d of
        (n, d') \<Rightarrow> case gossip_all ed clock fetch bases d' of (m, d'') \<Rightarrow> (n + m, d''))"

definition gossip_once :: "(byte list \<Rightarrow> byte list \<Rightarrow> byte list \<Rightarrow> bool) \<Rightarrow> (string \<Rightarrow> int) \<Rightarrow> (string \<Rightarrow> json option) \<Rightarrow> directory \<Rightarrow>
    nat \<times> directory" where
  "gossip_once ed clock fetch d = gossip_all ed clock fetch (gossip_targets d) d"

definition island_host_of :: "string \<Rightarrow> string" where
  "island_host_of base_url =
     (let s = py_strip base_url; host = takeWhile host_char (drop 8 s)
      in if take 8 s = ''https://'' \<and> host \<noteq> [] then map (\<lambda>c. if c = CHR ''.'' then CHR ''-'' else c) (py_lower host) else [])"

record island_settings =
  is_gateway_base_url :: string
  is_island_id :: string
  is_island_display_name :: string
  is_bootstrap_peers :: "string list"
  is_seed_peers :: "json list"
  is_island_mode :: string
  is_key_version :: int
  is_signing_seed :: string

definition build_directory_from_settings :: "island_settings \<Rightarrow> directory" where
  "build_directory_from_settings s =
     (let base = normalize_base_url (is_gateway_base_url s);
          gid = py_lower (py_strip (if is_island_id s \<noteq> [] then is_island_id s else island_host_of base));
          self_peer = coerce_island (JObj [(''id'', JStr gid), (''displayName'', JStr (is_island_display_name s)), (''baseURL'', JStr base)])
      in new_directory self_peer (is_bootstrap_peers s) (is_seed_peers s))"

subsection \<open>The routes\<close>

definition list_islands :: "directory \<Rightarrow> json" where
  "list_islands d = JObj [(''islands'', JList (map to_public (known d)))]"

definition list_gateways :: "directory \<Rightarrow> json" where
  "list_gateways d = JObj [(''gateways'', JList (map to_public (known d)))]"

text \<open>\<open>None\<close> is the 503.\<close>

definition get_island :: "(byte list \<Rightarrow> byte list) \<Rightarrow> (byte list \<Rightarrow> byte list \<Rightarrow> byte list) \<Rightarrow> island_settings \<Rightarrow> int \<Rightarrow> directory \<Rightarrow>
    json option" where
  "get_island public sign s now_ms d =
     (case dir_self d of
        None \<Rightarrow> None
      | Some p \<Rightarrow>
          (case build_signed_manifest public sign (is_id p) (is_name p) (is_url p) (is_island_mode s) (is_key_version s) now_ms
                  (is_signing_seed s) of
             Inl _ \<Rightarrow> None | Inr m \<Rightarrow> Some m))"

section \<open>The manifest is admitted exactly as signed\<close>

definition manifest_fields :: "identity \<Rightarrow> byte list \<Rightarrow> byte list \<Rightarrow> (string \<times> json) list" where
  "manifest_fields t key sig =
     [(''v'', JInt 2), (''alg'', JStr ''EdDSA''), (''id'', JStr (idn_id t)), (''display_name'', JStr (idn_name t)),
      (''base_url'', JStr (idn_url t)), (''mode'', JStr (idn_mode t)), (''key_version'', JInt (idn_key_version t)),
      (''signed_at_ms'', JInt (idn_signed_at t)), (''island_pubkey'', JStr (projr (encode_multikey key))),
      (''signature'', JStr (b64url_nopad sig))]"

definition identity_ok :: "identity \<Rightarrow> bool" where
  "identity_ok t \<longleftrightarrow> capped 64 (idn_id t) \<and> capped 64 (idn_name t) \<and> capped 255 (idn_url t) \<and>
     idn_mode t \<in> {''moderator'', ''e2ee''} \<and> 1 \<le> idn_key_version t \<and> idn_key_version t < 2 ^ 32 \<and>
     0 \<le> idn_signed_at t \<and> idn_signed_at t \<le> 2 ^ 62"

definition island_signed :: "(byte list \<Rightarrow> byte list \<Rightarrow> byte list \<Rightarrow> bool) \<Rightarrow> identity \<Rightarrow> byte list \<Rightarrow> byte list \<Rightarrow> bool" where
  "island_signed ed t key sig \<longleftrightarrow> length key = 32 \<and> length sig = 64 \<and>
     (\<exists>msg. bytes_of_identity t = Some msg \<and> ed key sig msg)"

lemma mode_known: "enum_of VALID_MODES mode_value m \<noteq> None \<longleftrightarrow> m \<in> {''moderator'', ''e2ee''}"
  unfolding island_mode.enum_of_None_iff by (auto simp: VALID_MODES_def)

lemma check_identity_iff:
  "check_identity_tuple i n u m kv ts = Inr t \<longleftrightarrow>
     i = Some (JStr (idn_id t)) \<and> n = Some (JStr (idn_name t)) \<and> u = Some (JStr (idn_url t)) \<and> m = Some (JStr (idn_mode t)) \<and>
     kv = Some (JInt (idn_key_version t)) \<and> ts = Some (JInt (idn_signed_at t)) \<and> identity_ok t"
  (is "?l \<longleftrightarrow> ?r")
proof
  have cap: "capped 64 s \<Longrightarrow> length s \<le> 64" for s by (simp add: capped_def)
  assume ?l
  then obtain i' n' u' m' kv' ts' where f: "i = Some (JStr i')" "n = Some (JStr n')" "u = Some (JStr u')" "m = Some (JStr m')"
      "kv = Some (JInt kv')" "ts = Some (JInt ts')"
    unfolding check_identity_tuple_def by (auto split: option.splits json.splits)
  with \<open>?l\<close> show ?r using mode_known [of m']
    by (auto simp: check_identity_tuple_def identity_ok_def MAX_ID_STR_def MAX_NAME_STR_def MAX_URL_STR_def KEY_VERSION_MAX_def
        MAX_SIGNED_AT_MS_def split: if_splits)
next
  assume ?r
  then show ?l using mode_known [of "idn_mode t"]
    by (auto simp: check_identity_tuple_def identity_ok_def capped_def MAX_ID_STR_def MAX_NAME_STR_def MAX_URL_STR_def
        KEY_VERSION_MAX_def MAX_SIGNED_AT_MS_def)
qed

lemma verify_manifest_iff:
  "verify_manifest ed m = Inr True \<longleftrightarrow>
     (\<exists>kvs t key sig. m = JObj kvs \<and> set (map fst kvs) = set MANIFEST_KEYS \<and>
        map (map_of kvs) MANIFEST_KEYS = map (map_of (manifest_fields t key sig)) MANIFEST_KEYS \<and>
        identity_ok t \<and> island_signed ed t key sig)"
  (is "?l \<longleftrightarrow> ?r")
proof
  assume l: ?l
  then obtain kvs where k: "m = JObj kvs" "set (map fst kvs) = set MANIFEST_KEYS" "int_at kvs ''v'' (\<lambda>v. v = ISLAND_V)"
      "str_at kvs ''alg'' (\<lambda>alg. alg = ALG)"
    by (cases m) (auto simp: verify_manifest_def split: if_splits)
  with l obtain t where t: "check_identity_tuple (map_of kvs ''id'') (map_of kvs ''display_name'') (map_of kvs ''base_url'')
      (map_of kvs ''mode'') (map_of kvs ''key_version'') (map_of kvs ''signed_at_ms'') = Inr t"
    by (auto simp: verify_manifest_def split: sum.splits)
  from l k t obtain pk sg where s: "map_of kvs ''island_pubkey'' = Some (JStr pk)" "map_of kvs ''signature'' = Some (JStr sg)"
    by (auto simp: verify_manifest_def split: option.splits json.splits)
  from l k t s obtain key sig msg where d: "decode_multikey pk = Inr key" "b64url_raw sg SIG_LEN = Inr sig" "bytes_of_identity t = Some msg"
      "ed key sig msg"
    by (auto simp: verify_manifest_def split: if_splits sum.splits option.splits)
  have e: "encode_multikey key = Inr pk" using decode_multikey_unique [OF d(1)] .
  then have len: "length key = 32" by (auto simp: encode_multikey_def PUBKEY_RAW_LEN_def split: if_splits)
  have sg: "sg = b64url_nopad sig" "length sig = 64" using d(2) by (auto simp: b64url_raw_exact SIG_LEN_def)
  have "map (map_of kvs) MANIFEST_KEYS = map (map_of (manifest_fields t key sig)) MANIFEST_KEYS"
    using k(3,4) t s e sg unfolding check_identity_iff
    by (simp add: MANIFEST_KEYS_def manifest_fields_def int_atE str_atE ISLAND_V_def ALG_def)
  moreover have "identity_ok t" using t by (simp add: check_identity_iff)
  ultimately show ?r using k d(3,4) len sg(2) unfolding island_signed_def by blast
next
  assume ?r
  then obtain kvs t key sig msg where k: "m = JObj kvs" "set (map fst kvs) = set MANIFEST_KEYS"
      "map (map_of kvs) MANIFEST_KEYS = map (map_of (manifest_fields t key sig)) MANIFEST_KEYS"
      and t: "identity_ok t" "length key = 32" "length sig = 64" "bytes_of_identity t = Some msg" "ed key sig msg"
    unfolding island_signed_def by blast
  have f: "map_of kvs ''v'' = Some (JInt 2)" "map_of kvs ''alg'' = Some (JStr ''EdDSA'')"
      "map_of kvs ''id'' = Some (JStr (idn_id t))" "map_of kvs ''display_name'' = Some (JStr (idn_name t))"
      "map_of kvs ''base_url'' = Some (JStr (idn_url t))" "map_of kvs ''mode'' = Some (JStr (idn_mode t))"
      "map_of kvs ''key_version'' = Some (JInt (idn_key_version t))" "map_of kvs ''signed_at_ms'' = Some (JInt (idn_signed_at t))"
      "map_of kvs ''island_pubkey'' = Some (JStr (projr (encode_multikey key)))"
      "map_of kvs ''signature'' = Some (JStr (b64url_nopad sig))"
    using k(3) by (simp_all add: MANIFEST_KEYS_def manifest_fields_def)
  have c: "check_identity_tuple (map_of kvs ''id'') (map_of kvs ''display_name'') (map_of kvs ''base_url'')
      (map_of kvs ''mode'') (map_of kvs ''key_version'') (map_of kvs ''signed_at_ms'') = Inr t"
    using f t(1) by (simp add: check_identity_iff)
  have e: "encode_multikey key = Inr (projr (encode_multikey key))" using t(2) by (simp add: encode_multikey_def PUBKEY_RAW_LEN_def)
  have "length (projr (encode_multikey key)) \<le> MAX_PUBKEY_STR"
    using multikey_length [of key] t(2) by (simp add: encode_multikey_def PUBKEY_RAW_LEN_def MAX_B58_STR_def MAX_PUBKEY_STR_def)
  moreover have "b64url_raw (b64url_nopad sig) SIG_LEN = Inr sig" using t(3) by (simp add: b64url_raw_exact SIG_LEN_def)
  ultimately show ?l using k(1,2) f(1,2,9,10) c t(4,5) decode_encode_multikey [OF e]
    by (simp add: verify_manifest_def int_at_def str_at_def ISLAND_V_def ALG_def)
qed

text \<open>The admission door. A value is admitted with a mode exactly when it is an object with the
  ten frozen keys whose fields are those of a well-formed identity, signed over that identity's
  own bytes by the 32-byte key it names, with that mode, and signed within the window the caller
  asked for, which is never wider than five minutes back and one minute ahead.\<close>

theorem manifest_admitted_exactly:
  "admit_manifest ed now max_age skew m = Inr (Some mode) \<longleftrightarrow>
     (\<exists>kvs t key sig. m = JObj kvs \<and> set (map fst kvs) = set MANIFEST_KEYS \<and>
        map (map_of kvs) MANIFEST_KEYS = map (map_of (manifest_fields t key sig)) MANIFEST_KEYS \<and>
        identity_ok t \<and> island_signed ed t key sig \<and> mode = idn_mode t \<and>
        0 \<le> now \<and> now \<le> 2 ^ 62 \<and> 0 \<le> max_age \<and> max_age \<le> 300000 \<and> 0 \<le> skew \<and> skew \<le> 60000 \<and>
        idn_signed_at t - skew \<le> now \<and> now \<le> idn_signed_at t + max_age)"
  (is "?l \<longleftrightarrow> ?r")
proof -
  have flds: "jget ''signed_at_ms'' (JObj kvs) = Some (JInt (idn_signed_at t)) \<and> jget ''mode'' (JObj kvs) = Some (JStr (idn_mode t))"
    if "map (map_of kvs) MANIFEST_KEYS = map (map_of (manifest_fields t key sig)) MANIFEST_KEYS" for kvs t key sig
    using that by (simp add: MANIFEST_KEYS_def manifest_fields_def)
  have fresh: "is_fresh ts now max_age skew = Inr True \<longleftrightarrow> 0 \<le> ts \<and> ts \<le> 2 ^ 62 \<and> 0 \<le> now \<and> now \<le> 2 ^ 62 \<and>
      0 \<le> max_age \<and> max_age \<le> 2 ^ 62 \<and> 0 \<le> skew \<and> skew \<le> 2 ^ 62 \<and> ts - skew \<le> now \<and> now \<le> ts + max_age" for ts
    by (auto simp: is_fresh_def fresh_input_def MAX_SIGNED_AT_MS_def)
  show ?thesis
  proof
    assume l: ?l
    then have v: "verify_manifest ed m = Inr True" "max_age \<le> 300000" "skew \<le> 60000"
      by (auto simp: admit_manifest_def MANIFEST_MAX_AGE_MS_def MANIFEST_CLOCK_SKEW_MS_def split: if_splits sum.splits bool.splits)
    from v(1) obtain kvs t key sig where m: "m = JObj kvs" "set (map fst kvs) = set MANIFEST_KEYS"
        "map (map_of kvs) MANIFEST_KEYS = map (map_of (manifest_fields t key sig)) MANIFEST_KEYS"
        "identity_ok t" "island_signed ed t key sig" unfolding verify_manifest_iff by blast
    have "is_fresh (idn_signed_at t) now max_age skew = Inr True \<and> mode = idn_mode t"
      using l v flds [OF m(3)] m(1)
      by (auto simp: admit_manifest_def MANIFEST_MAX_AGE_MS_def MANIFEST_CLOCK_SKEW_MS_def split: sum.splits bool.splits)
    then show ?r using m v(2,3) unfolding fresh by blast
  next
    assume ?r
    then obtain kvs t key sig where m: "m = JObj kvs" "set (map fst kvs) = set MANIFEST_KEYS"
        "map (map_of kvs) MANIFEST_KEYS = map (map_of (manifest_fields t key sig)) MANIFEST_KEYS"
        "identity_ok t" "island_signed ed t key sig" "mode = idn_mode t"
      and w: "0 \<le> now" "now \<le> 2 ^ 62" "0 \<le> max_age" "max_age \<le> 300000" "0 \<le> skew" "skew \<le> 60000"
        "idn_signed_at t - skew \<le> now" "now \<le> idn_signed_at t + max_age" by blast
    have "verify_manifest ed m = Inr True" unfolding verify_manifest_iff using m by blast
    moreover have "is_fresh (idn_signed_at t) now max_age skew = Inr True"
      unfolding fresh using w m(4) by (simp add: identity_ok_def)
    ultimately show ?l using flds [OF m(3)] m(1,6) w(4,6)
      by (simp add: admit_manifest_def MANIFEST_MAX_AGE_MS_def MANIFEST_CLOCK_SKEW_MS_def)
  qed
qed

text \<open>Island signatures bind the whole identity and are no message, reaction or other signature.\<close>

theorem island_bytes_unambiguous:
  "(island_signing_bytes i n u m kv ts = Some x \<and> island_signing_bytes i' n' u' m' kv' ts' = Some x \<longrightarrow>
      points i = points i' \<and> points n = points n' \<and> points u = points u' \<and> points m = points m' \<and> kv = kv' \<and> ts = ts') \<and>
   \<not> (island_signing_bytes i n u m kv ts = Some x \<and> signing_bytes p c k t b r = Some x) \<and>
   \<not> (island_signing_bytes i n u m kv ts = Some x \<and> reaction_signing_bytes p c k t g e a = Some x)"
proof (intro conjI impI notI; elim conjE)
  assume a: "island_signing_bytes i n u m kv ts = Some x" "island_signing_bytes i' n' u' m' kv' ts' = Some x"
  have "points i = points i' \<and> points n = points n' \<and> points u = points u' \<and> points m = points m' \<and> kv = kv' \<and> ts = ts'"
  proof -
    obtain r where 1: "join_parts [lp_str (points i), lp_str (points n), lp_str (points u), lp_str (points m), pack 4 kv, pack 8 ts] = Some r"
        "join_parts [lp_str (points i'), lp_str (points n'), lp_str (points u'), lp_str (points m'), pack 4 kv', pack 8 ts'] = Some r"
      using a unfolding island_signing_bytes_def by (blast dest: join_lp_str)
    from join_lp_str [OF 1] obtain r2 where 2: "points i = points i'"
        "join_parts [lp_str (points n), lp_str (points u), lp_str (points m), pack 4 kv, pack 8 ts] = Some r2"
        "join_parts [lp_str (points n'), lp_str (points u'), lp_str (points m'), pack 4 kv', pack 8 ts'] = Some r2" by blast
    from join_lp_str [OF 2(2,3)] obtain r3 where 3: "points n = points n'"
        "join_parts [lp_str (points u), lp_str (points m), pack 4 kv, pack 8 ts] = Some r3"
        "join_parts [lp_str (points u'), lp_str (points m'), pack 4 kv', pack 8 ts'] = Some r3" by blast
    from join_lp_str [OF 3(2,3)] obtain r4 where 4: "points u = points u'"
        "join_parts [lp_str (points m), pack 4 kv, pack 8 ts] = Some r4"
        "join_parts [lp_str (points m'), pack 4 kv', pack 8 ts'] = Some r4" by blast
    from join_lp_str [OF 4(2,3)] obtain r5 where 5: "points m = points m'"
        "join_parts [pack 4 kv, pack 8 ts] = Some r5" "join_parts [pack 4 kv', pack 8 ts'] = Some r5" by blast
    from join_pack [OF 5(2,3)] 2(1) 3(1) 4(1) 5(1) show ?thesis by (blast dest: join_pack)
  qed
  then show "points i = points i'" "points n = points n'" "points u = points u'" "points m = points m'" "kv = kv'" "ts = ts'"
    by simp_all
next
  assume "island_signing_bytes i n u m kv ts = Some x" "signing_bytes p c k t b r = Some x"
  then have "points ISLAND_DOMAIN_TAG = points DOMAIN_TAG"
    unfolding signing_bytes_def island_signing_bytes_def using join_lp_str by blast
  then show False by (simp add: points_def DOMAIN_TAG_def ISLAND_DOMAIN_TAG_def)
next
  assume "island_signing_bytes i n u m kv ts = Some x" "reaction_signing_bytes p c k t g e a = Some x"
  then have "points ISLAND_DOMAIN_TAG = points REACT_DOMAIN_TAG"
    unfolding reaction_signing_bytes_def island_signing_bytes_def using join_lp_str by blast
  then show False by (simp add: points_def REACT_DOMAIN_TAG_def ISLAND_DOMAIN_TAG_def)
qed

text \<open>What an island builds, every verifier accepts.\<close>

lemma own_manifest_verifies:
  assumes "\<And>seed. length (public seed) = 32" and "\<And>seed msg. length (sign seed msg) = 64 \<and> ed (public seed) (sign seed msg) msg"
    and "build_signed_manifest public sign i n u mode kv ts seed_text = Inr m"
  shows "verify_manifest ed m = Inr True"
proof -
  obtain t where t: "check_identity_tuple (Some (JStr i)) (Some (JStr n)) (Some (JStr u)) (Some (JStr mode)) (Some (JInt kv)) (Some (JInt ts)) = Inr t"
    using assms(3) by (auto simp: build_signed_manifest_def split: sum.splits)
  then have f: "i = idn_id t" "n = idn_name t" "u = idn_url t" "mode = idn_mode t" "kv = idn_key_version t" "ts = idn_signed_at t"
      and ok: "identity_ok t" by (simp_all add: check_identity_iff)
  obtain seed where s: "decode_seed seed_text = Inr seed"
    using assms(3) t by (cases "decode_seed seed_text") (auto simp: build_signed_manifest_def)
  obtain mk where e: "encode_multikey (public seed) = Inr mk"
    using assms(1) by (simp add: encode_multikey_def PUBKEY_RAW_LEN_def)
  obtain msg where b: "bytes_of_identity t = Some msg"
    using assms(3) t s by (cases "bytes_of_identity t") (auto simp: build_signed_manifest_def)
  have "m = JObj (manifest_fields t (public seed) (sign seed msg))"
    using assms(3) t s e b by (simp add: build_signed_manifest_def manifest_fields_def f ISLAND_V_def ALG_def)
  moreover have "set (map fst (manifest_fields t (public seed) (sign seed msg))) = set MANIFEST_KEYS"
    by (simp add: manifest_fields_def MANIFEST_KEYS_def)
  moreover have "island_signed ed t (public seed) (sign seed msg)" using assms(1,2) b by (auto simp: island_signed_def)
  ultimately show ?thesis unfolding verify_manifest_iff using ok by blast
qed

section \<open>The directory\<close>

definition island_shape :: "island \<Rightarrow> bool" where
  "island_shape p \<longleftrightarrow> id_re (is_id p) \<and> is_name p \<noteq> [] \<and> length (is_name p) \<le> 64 \<and> https_re (is_url p) \<and> length (is_url p) \<le> 255"

definition directory_wf :: "directory \<Rightarrow> bool" where
  "directory_wf d \<longleftrightarrow> unique_on is_id (dir_peers d) \<and> unique_on is_url (dir_peers d) \<and> length (dir_peers d) \<le> MAX_PEERS \<and>
     (\<forall>p \<in> set (dir_peers d). island_shape p) \<and>
     (case dir_self d of None \<Rightarrow> True | Some s \<Rightarrow> s \<in> set (dir_peers d) \<and> is_mode s = None)"

definition face :: "island \<Rightarrow> string \<times> string \<times> string" where
  "face p = (is_id p, is_name p, is_url p)"

definition extends :: "directory \<Rightarrow> directory \<Rightarrow> bool" where
  "extends d d' \<longleftrightarrow> dir_self d' = dir_self d \<and> dir_bootstrap d' = dir_bootstrap d \<and>
     (\<exists>new. map face (dir_peers d') = map face (dir_peers d) @ new)"

lemma coerce_shape: "coerce_island raw = Some p \<Longrightarrow> island_shape p \<and> is_mode p = None"
  by (auto simp: coerce_island_def coerce_fields_def island_shape_def Let_def MAX_NAME_LEN_def MAX_URL_LEN_def
      split: json.splits option.splits if_splits)

lemma merge_one_cases:
  assumes "merge_one raw d = (n, d')"
  obtains "n = 0" "d' = d"
  | p where "n = 1" "d' = d\<lparr>dir_peers := dir_peers d @ [p]\<rparr>" "coerce_island raw = Some p" "\<not> is_self_id d (is_id p)"
      "\<forall>q \<in> set (dir_peers d). is_id q \<noteq> is_id p \<and> is_url q \<noteq> is_url p" "length (dir_peers d) < MAX_PEERS"
proof (cases "coerce_island raw")
  case None
  then show thesis using assms that(1) by (simp add: merge_one_def)
next
  case (Some p)
  then show thesis using assms that(1) that(2) [of p]
    by (auto simp: merge_one_def list_ex_iff split: if_splits)
qed

lemma extends_refl: "extends d d"
  by (simp add: extends_def)

lemma extends_trans: "extends a b \<Longrightarrow> extends b c \<Longrightarrow> extends a c"
  by (auto simp: extends_def)

lemma merge_one_wf:
  assumes "merge_one raw d = (n, d')" and "directory_wf d"
  shows "directory_wf d' \<and> extends d d' \<and> length (dir_peers d') = length (dir_peers d) + n \<and>
    (\<forall>p \<in> set (dir_peers d'). p \<in> set (dir_peers d) \<or> is_mode p = None)"
  using assms(1)
proof (cases rule: merge_one_cases)
  case (2 p)
  then show ?thesis using assms(2) coerce_shape [OF 2(3)]
    by (auto simp: directory_wf_def extends_def split: option.splits)
qed (use assms(2) extends_refl in simp)

lemma merge_wf:
  "merge es d = (n, d') \<Longrightarrow> directory_wf d \<Longrightarrow>
     directory_wf d' \<and> extends d d' \<and> length (dir_peers d') = length (dir_peers d) + n \<and>
     (\<forall>p \<in> set (dir_peers d'). p \<in> set (dir_peers d) \<or> is_mode p = None)"
proof (induction es arbitrary: d n)
  case Nil
  then show ?case by (simp add: extends_refl)
next
  case (Cons e es)
  obtain k d1 where 1: "merge_one e d = (k, d1)" by (cases "merge_one e d")
  obtain m d2 where 2: "merge es d1 = (m, d2)" by (cases "merge es d1")
  then have "d' = d2" "n = k + m" using Cons.prems(1) 1 by simp_all
  then show ?case using merge_one_wf [OF 1 Cons.prems(2)] Cons.IH [of d1 m] 2 extends_trans [of d d1 d2] by fastforce
qed

lemma record_wf:
  assumes "directory_wf d"
  shows "directory_wf (record_verified_mode i mode url d) \<and> extends d (record_verified_mode i mode url d) \<and>
    length (dir_peers (record_verified_mode i mode url d)) = length (dir_peers d)"
proof (cases "\<exists>peer v. \<not> is_self_id d i \<and> find (\<lambda>p. is_id p = i) (dir_peers d) = Some peer \<and> is_url peer = url \<and>
    enum_of VALID_MODES mode_value mode = Some v")
  case True
  then obtain peer v where p: "\<not> is_self_id d i" "find (\<lambda>p. is_id p = i) (dir_peers d) = Some peer" "is_url peer = url"
      "enum_of VALID_MODES mode_value mode = Some v" by blast
  define f where "f = (\<lambda>p :: island. if is_id p = i then peer\<lparr>is_mode := Some v\<rparr> else p)"
  have eq: "record_verified_mode i mode url d = d\<lparr>dir_peers := map f (dir_peers d)\<rparr>"
    using p by (simp add: record_verified_mode_def upd_where_def f_def)
  have "peer \<in> set (dir_peers d)" "is_id peer = i" using p(2) by (auto dest: find_SomeD)
  then have same: "q = peer" if "q \<in> set (dir_peers d)" "is_id q = i" for q
    using assms that unique_onD [of is_id "dir_peers d" q peer] by (simp add: directory_wf_def)
  have face: "face (f q) = face q" if "q \<in> set (dir_peers d)" for q using same [OF that] by (auto simp: f_def face_def)
  then have m: "map is_id (map f (dir_peers d)) = map is_id (dir_peers d)" "map is_url (map f (dir_peers d)) = map is_url (dir_peers d)"
    "map face (map f (dir_peers d)) = map face (dir_peers d)"
    by (auto simp: face_def)
  have shape: "island_shape (f q)" if "q \<in> set (dir_peers d)" for q
    using face [OF that] assms that by (auto simp: directory_wf_def island_shape_def face_def)
  have self: "f s = s" if "dir_self d = Some s" for s using p(1) that by (auto simp: f_def is_self_id_def)
  have "case dir_self d of None \<Rightarrow> True | Some s \<Rightarrow> s \<in> set (map f (dir_peers d)) \<and> is_mode s = None"
    using assms self by (auto simp: directory_wf_def split: option.splits intro: image_eqI [of _ _ "the (dir_self d)"])
  then show ?thesis using assms shape unfolding eq directory_wf_def unique_on_def extends_def
    by (cases "dir_self d") (simp_all add: m del: map_map)
next
  case False
  then have "record_verified_mode i mode url d = d" by (auto simp: record_verified_mode_def split: option.splits)
  then show ?thesis using assms extends_refl by simp
qed

section \<open>Gossip rounds\<close>

text \<open>A posture on record for a peer: fetched from its own address, admitted there and then, and
  naming that peer and that address.\<close>

definition posture_from :: "(byte list \<Rightarrow> byte list \<Rightarrow> byte list \<Rightarrow> bool) \<Rightarrow> (string \<Rightarrow> int) \<Rightarrow> (string \<Rightarrow> json option) \<Rightarrow> island \<Rightarrow>
    island_mode \<Rightarrow> bool" where
  "posture_from ed clock fetch p m \<longleftrightarrow>
     (\<exists>manifest url i. fetch (is_url p @ ''/v1/island'') = Some manifest \<and>
        admit_manifest ed (clock (is_url p)) MANIFEST_MAX_AGE_MS MANIFEST_CLOCK_SKEW_MS manifest = Inr (Some (mode_value m)) \<and>
        jget ''base_url'' manifest = Some (JStr url) \<and> normalize_base_url url = is_url p \<and>
        jget ''id'' manifest = Some (JStr i) \<and> py_lower (py_strip i) = is_id p)"

lemma record_modes:
  assumes "p \<in> set (dir_peers (record_verified_mode i mode url d))" and "p \<notin> set (dir_peers d)"
  shows "is_id p = i \<and> is_url p = url \<and> \<not> is_self_id d i \<and> (\<exists>m. is_mode p = Some m \<and> mode_value m = mode)"
proof -
  from assms obtain peer m where p: "\<not> is_self_id d i" "find (\<lambda>p. is_id p = i) (dir_peers d) = Some peer" "is_url peer = url"
      "enum_of VALID_MODES mode_value mode = Some m" "p = peer\<lparr>is_mode := Some m\<rparr>"
    by (auto simp: record_verified_mode_def set_upd_where split: if_splits option.splits)
  then show ?thesis using find_SomeD [OF p(2)] by (simp add: island_mode.enum_of_iff)
qed

lemma learn_mode_wf:
  assumes "directory_wf d"
  shows "directory_wf (learn_mode ed now f base d) \<and> extends d (learn_mode ed now f base d) \<and>
    length (dir_peers (learn_mode ed now f base d)) = length (dir_peers d)"
  using record_wf [OF assms] assms extends_refl
  unfolding learn_mode_def by (auto split: option.split sum.split json.split)

lemma learn_mode_modes:
  assumes "p \<in> set (dir_peers (learn_mode ed (clock base) (fetch (base @ ''/v1/island'')) base d))" and "p \<notin> set (dir_peers d)"
  shows "\<exists>m. is_mode p = Some m \<and> posture_from ed clock fetch p m"
proof -
  from assms obtain manifest mode url i where h: "fetch (base @ ''/v1/island'') = Some manifest"
      "admit_manifest ed (clock base) MANIFEST_MAX_AGE_MS MANIFEST_CLOCK_SKEW_MS manifest = Inr (Some mode)"
      "jget ''base_url'' manifest = Some (JStr url)" "jget ''id'' manifest = Some (JStr i)" "normalize_base_url url = base"
      "p \<in> set (dir_peers (record_verified_mode (py_lower (py_strip i)) mode base d))"
    by (auto simp: learn_mode_def split: option.splits sum.splits json.splits if_splits)
  from record_modes [OF h(6) assms(2)] obtain m where "is_id p = py_lower (py_strip i)" "is_url p = base"
      "is_mode p = Some m" "mode_value m = mode" by blast
  with h show ?thesis by (auto simp: posture_from_def)
qed

definition round_ok :: "(byte list \<Rightarrow> byte list \<Rightarrow> byte list \<Rightarrow> bool) \<Rightarrow> (string \<Rightarrow> int) \<Rightarrow> (string \<Rightarrow> json option) \<Rightarrow> directory \<Rightarrow> nat \<Rightarrow>
    directory \<Rightarrow> bool" where
  "round_ok ed clock fetch d n d' \<longleftrightarrow> directory_wf d' \<and> extends d d' \<and> length (dir_peers d') = length (dir_peers d) + n \<and>
     (\<forall>p \<in> set (dir_peers d'). \<forall>m. is_mode p = Some m \<longrightarrow> p \<in> set (dir_peers d) \<or> posture_from ed clock fetch p m)"

lemma round_ok_refl: "directory_wf d \<Longrightarrow> round_ok ed clock fetch d 0 d"
  by (simp add: round_ok_def extends_refl)

lemma round_ok_trans: "round_ok ed clock fetch a n b \<Longrightarrow> round_ok ed clock fetch b m c \<Longrightarrow> round_ok ed clock fetch a (n + m) c"
  unfolding round_ok_def using extends_trans by (metis add.assoc)

lemma gossip_target_ok:
  assumes "gossip_target ed clock fetch base d = (n, d')" and "directory_wf d"
  shows "round_ok ed clock fetch d n d'"
proof -
  consider "n = 0" "d' = d" | es d1 where "merge es d = (n, d1)"
      "d' = learn_mode ed (clock base) (fetch (base @ ''/v1/island'')) base d1"
    using assms(1) by (auto simp: gossip_target_def Let_def split: option.splits json.splits prod.splits)
  then show ?thesis
  proof cases
    case 1
    then show ?thesis using round_ok_refl [OF assms(2)] by simp
  next
    case (2 es d1)
    note m = merge_wf [OF 2(1) assms(2)]
    then have a: "round_ok ed clock fetch d n d1" by (auto simp: round_ok_def)
    have "round_ok ed clock fetch d1 0 d'"
      using learn_mode_wf [of d1] m learn_mode_modes [of _ ed clock base fetch d1] 2(2) by (fastforce simp: round_ok_def)
    with a show ?thesis using round_ok_trans by fastforce
  qed
qed

lemma gossip_all_ok: "gossip_all ed clock fetch bases d = (n, d') \<Longrightarrow> directory_wf d \<Longrightarrow> round_ok ed clock fetch d n d'"
proof (induction bases arbitrary: d n)
  case Nil
  then show ?case using round_ok_refl by simp
next
  case (Cons b bases)
  obtain k d1 where 1: "gossip_target ed clock fetch b d = (k, d1)" by (cases "gossip_target ed clock fetch b d")
  obtain m d2 where 2: "gossip_all ed clock fetch bases d1 = (m, d2)" by (cases "gossip_all ed clock fetch bases d1")
  have "d' = d2" "n = k + m" using Cons.prems(1) 1 2 by simp_all
  moreover have a: "round_ok ed clock fetch d k d1" using gossip_target_ok [OF 1 Cons.prems(2)] .
  moreover have "directory_wf d1" using a by (simp add: round_ok_def)
  ultimately show ?case using Cons.IH [of d1 m] 2 round_ok_trans by blast
qed

lemma new_directory_wf:
  assumes "case self_peer of None \<Rightarrow> True | Some p \<Rightarrow> island_shape p \<and> is_mode p = None"
  shows "directory_wf (new_directory self_peer urls seeds)"
proof -
  let ?d = "\<lparr>dir_self = self_peer, dir_peers = (case self_peer of None \<Rightarrow> [] | Some p \<Rightarrow> [p]), dir_bootstrap = []\<rparr>"
  have "directory_wf ?d" using assms by (auto simp: directory_wf_def MAX_PEERS_def split: option.splits)
  moreover obtain n d' where m: "merge seeds ?d = (n, d')" by (cases "merge seeds ?d")
  ultimately have "directory_wf d'" using merge_wf by blast
  then show ?thesis using m
    by (cases "dir_self d'") (simp_all add: new_directory_def Let_def directory_wf_def)
qed

lemma built_directory_wf: "directory_wf (build_directory_from_settings s)"
  unfolding build_directory_from_settings_def Let_def
  by (rule new_directory_wf) (auto dest: coerce_shape split: option.split)

text \<open>Rounds of gossip since boot, each with its own network.\<close>

inductive gossiped :: "(byte list \<Rightarrow> byte list \<Rightarrow> byte list \<Rightarrow> bool) \<Rightarrow> island_settings \<Rightarrow> directory \<Rightarrow> bool" for ed s where
  boot: "gossiped ed s (build_directory_from_settings s)"
| round: "gossiped ed s d \<Longrightarrow> gossip_once ed clock fetch d = (n, d') \<Longrightarrow> gossiped ed s d'"

lemma gossiped_wf: "gossiped ed s d \<Longrightarrow> directory_wf d \<and> dir_self d = dir_self (build_directory_from_settings s)"
proof (induction rule: gossiped.induct)
  case boot
  then show ?case by (simp add: built_directory_wf)
next
  case (round d clock fetch n d')
  then show ?case using gossip_all_ok [of ed clock fetch "gossip_targets d" d n d']
    by (simp add: gossip_once_def round_ok_def extends_def)
qed

text \<open>C26: the directory stays well-formed whatever peers answer. In every state reached by gossip from
  boot, ids and addresses are each unique, there are at most two hundred entries, each is a
  short slug, a non-empty name and an https address, and the island's own entry is the one
  built at boot and carries no posture.\<close>

theorem gossiped_directory_wf:
  assumes "gossiped ed s d"
  shows "unique_on is_id (dir_peers d) \<and> unique_on is_url (dir_peers d) \<and> length (dir_peers d) \<le> 200 \<and>
    (\<forall>p \<in> set (dir_peers d). island_shape p) \<and> dir_self d = dir_self (build_directory_from_settings s) \<and>
    (\<forall>me. dir_self d = Some me \<longrightarrow> me \<in> set (dir_peers d) \<and> is_mode me = None)"
  using gossiped_wf [OF assms] by (auto simp: directory_wf_def MAX_PEERS_def split: option.splits)

text \<open>A round never changes who a known peer is, and a posture it puts on record for a peer was
  signed in a manifest fetched from that peer's own address in that round, within the window,
  naming the peer and the address; the count it returns is the number of new entries.\<close>

theorem gossip_posture_from_endpoint:
  assumes "gossiped ed s d" and "gossip_once ed clock fetch d = (n, d')"
  shows "take (length (dir_peers d)) (map face (dir_peers d')) = map face (dir_peers d) \<and>
    length (dir_peers d') = length (dir_peers d) + n \<and>
    (\<forall>p \<in> set (dir_peers d'). \<forall>m. is_mode p = Some m \<longrightarrow> p \<in> set (dir_peers d) \<or> posture_from ed clock fetch p m)"
proof -
  have "directory_wf d" using gossiped_wf [OF assms(1)] by blast
  from gossip_all_ok [OF assms(2) [unfolded gossip_once_def] this] show ?thesis
    by (auto simp: round_ok_def extends_def)
qed

section \<open>Witnesses\<close>

definition ex_identity :: identity where
  "ex_identity = \<lparr>idn_id = ''Peer'', idn_name = ''Peer'', idn_url = ''https://peer.example'', idn_mode = ''moderator'',
     idn_key_version = 1, idn_signed_at = 1000\<rparr>"

definition ex_manifest :: json where
  "ex_manifest = JObj (manifest_fields ex_identity golden_key (replicate 64 0))"

definition ex_settings :: island_settings where
  "ex_settings = \<lparr>is_gateway_base_url = ''https://me.example/'', is_island_id = [], is_island_display_name = ''Me'', is_bootstrap_peers = [],
     is_seed_peers = [JObj [(''id'', JStr ''peer''), (''display_name'', JStr ''Peer''), (''base_url'', JStr ''https://peer.example'')]],
     is_island_mode = ''moderator'', is_key_version = 1, is_signing_seed = []\<rparr>"

definition ex_fetch :: "string \<Rightarrow> json option" where
  "ex_fetch url = (if url = ''https://peer.example/v1/islands'' then Some (JObj [])
     else if url = ''https://peer.example/v1/island'' then Some ex_manifest else None)"

definition ex_peer :: "island_mode option \<Rightarrow> island" where
  "ex_peer m = \<lparr>is_id = ''peer'', is_name = ''Peer'', is_url = ''https://peer.example'', is_mode = m\<rparr>"

definition ex_me :: island where
  "ex_me = \<lparr>is_id = ''me-example'', is_name = ''Me'', is_url = ''https://me.example'', is_mode = None\<rparr>"

lemma ex_built: "build_directory_from_settings ex_settings = \<lparr>dir_self = Some ex_me, dir_peers = [ex_me, ex_peer None], dir_bootstrap = []\<rparr>"
  by code_simp

lemma ex_signed: "identity_ok ex_identity \<and> island_signed (\<lambda>_ _ _. True) ex_identity golden_key (replicate 64 0)"
proof -
  have "\<exists>b. bytes_of_identity ex_identity = Some b"
    by (simp add: bytes_of_identity_def island_signing_bytes_def signed_layout ISLAND_DOMAIN_TAG_def ex_identity_def)
  then show ?thesis by (simp add: identity_ok_def capped_def ex_identity_def island_signed_def golden_key_def)
qed

lemma ex_manifest_keys: "set (map fst (manifest_fields ex_identity golden_key (replicate 64 0))) = set MANIFEST_KEYS"
  by (simp add: manifest_fields_def MANIFEST_KEYS_def)

lemma ex_admitted: "admit_manifest (\<lambda>_ _ _. True) 2000 MANIFEST_MAX_AGE_MS MANIFEST_CLOCK_SKEW_MS ex_manifest = Inr (Some ''moderator'')"
proof -
  have "verify_manifest (\<lambda>_ _ _. True) ex_manifest = Inr True"
    unfolding verify_manifest_iff ex_manifest_def using ex_signed ex_manifest_keys by blast
  then show ?thesis
    by (simp add: admit_manifest_def is_fresh_def fresh_input_def MANIFEST_MAX_AGE_MS_def MANIFEST_CLOCK_SKEW_MS_def
        MAX_SIGNED_AT_MS_def ex_manifest_def manifest_fields_def ex_identity_def)
qed

lemma ex_round: "gossip_once (\<lambda>_ _ _. True) (\<lambda>_. 2000) ex_fetch (build_directory_from_settings ex_settings) =
    (0, \<lparr>dir_self = Some ex_me, dir_peers = [ex_me, ex_peer (Some MODERATOR)], dir_bootstrap = []\<rparr>)"
proof -
  let ?d = "\<lparr>dir_self = Some ex_me, dir_peers = [ex_me, ex_peer None], dir_bootstrap = []\<rparr>"
  have t: "gossip_targets ?d = [''https://peer.example'']" by code_simp
  have f: "jget ''base_url'' ex_manifest = Some (JStr ''https://peer.example'')" "jget ''id'' ex_manifest = Some (JStr ''Peer'')"
    by (simp_all add: ex_manifest_def manifest_fields_def ex_identity_def)
  have n: "normalize_base_url ''https://peer.example'' = ''https://peer.example''" "py_lower (py_strip ''Peer'') = ''peer''" by code_simp+
  have r: "record_verified_mode ''peer'' ''moderator'' ''https://peer.example'' ?d =
      \<lparr>dir_self = Some ex_me, dir_peers = [ex_me, ex_peer (Some MODERATOR)], dir_bootstrap = []\<rparr>" by code_simp
  have "gossip_target (\<lambda>_ _ _. True) (\<lambda>_. 2000) ex_fetch ''https://peer.example'' ?d =
      (0, \<lparr>dir_self = Some ex_me, dir_peers = [ex_me, ex_peer (Some MODERATOR)], dir_bootstrap = []\<rparr>)"
    by (simp add: gossip_target_def ex_fetch_def entries_of_def learn_mode_def ex_admitted f n r)
  then show ?thesis by (simp add: gossip_once_def ex_built t)
qed

theorem gossiped_directory_wf_witness:
  "\<exists>d. gossiped (\<lambda>_ _ _. True) ex_settings d \<and> (\<forall>p \<in> set (dir_peers d). island_shape p) \<and> dir_peers d = [ex_me, ex_peer (Some MODERATOR)]"
proof -
  note g = gossiped.round [OF gossiped.boot ex_round]
  show ?thesis by (rule exI, rule conjI [OF g]) (use gossiped_directory_wf [OF g] in simp)
qed

end
