(* ===== verification/Mentions.thy ===== *)
theory Mentions
  imports Model
begin

text \<open>The carriage of @-mention spans (\<open>domain/mentions.py\<close>): the shape check at the trust
  boundary of a send. A span is a JSON object; the accepted array is projected to fresh objects
  with the four frozen keys. Texts are Latin-1, for which the Unicode categories of a machine
  identifier are the control characters and the soft hyphen.\<close>

section \<open>Definitions\<close>

definition MAX_MENTIONS :: nat where "MAX_MENTIONS = 64"
definition MAX_TARGET_ID :: nat where "MAX_TARGET_ID = 128"
definition MAX_INDEX :: int where "MAX_INDEX = push_bit 20 1"

definition SPAN_KEYS :: "string list" where
  "SPAN_KEYS = [''target_type'', ''target_id'', ''offset'', ''length'']"

datatype mention_error = MentionError

text \<open>\<open>_TARGET_TYPE_RE.match\<close>: the pattern \<open>^[a-z][a-z0-9_]{0,31}$\<close>, whose \<open>$\<close> also matches
  before a final line feed.\<close>

definition is_lower :: "char \<Rightarrow> bool" where
  "is_lower c \<longleftrightarrow> 97 \<le> (of_char c :: nat) \<and> of_char c \<le> (122 :: nat)"

definition is_token_char :: "char \<Rightarrow> bool" where
  "is_token_char c \<longleftrightarrow> is_lower c \<or> 48 \<le> (of_char c :: nat) \<and> of_char c \<le> (57 :: nat) \<or> c = CHR ''_''"

definition snake_token :: "string \<Rightarrow> bool" where
  "snake_token s = (case s of [] \<Rightarrow> False
     | c # cs \<Rightarrow> is_lower c \<and> length cs \<le> 31 \<and> list_all is_token_char cs)"

definition target_type_re :: "string \<Rightarrow> bool" where
  "target_type_re s \<longleftrightarrow> snake_token s \<or> s \<noteq> [] \<and> last s = CHR 0x0A \<and> snake_token (butlast s)"

text \<open>\<open>unicodedata.category\<close> on Latin-1: Cc are the C0 and C1 controls with DEL, Cf is the soft
  hyphen, and no Latin-1 code point is a surrogate, private or unassigned.\<close>

definition forbidden_id_category :: "char \<Rightarrow> bool" where
  "forbidden_id_category c =
     (let n = (of_char c :: nat) in n < 32 \<or> 127 \<le> n \<and> n \<le> 159 \<or> n = 173)"

definition is_clean_id :: "string \<Rightarrow> bool" where
  "is_clean_id s = list_all (\<lambda>ch. \<not> forbidden_id_category ch) s"

definition mention_span :: "string \<Rightarrow> string \<Rightarrow> int \<Rightarrow> int \<Rightarrow> json" where
  "mention_span ttype tid offset len = JObj [(''target_type'', JStr ttype), (''target_id'', JStr tid),
     (''offset'', JInt offset), (''length'', JInt len)]"

definition validate_span :: "json \<Rightarrow> mention_error + json" where
  "validate_span raw =
     (case raw of
        JObj kvs \<Rightarrow>
          (if set (map fst kvs) \<noteq> set SPAN_KEYS then Inl MentionError
           else case map_of kvs ''target_type'' of
             Some (JStr ttype) \<Rightarrow>
               if \<not> target_type_re ttype then Inl MentionError
               else (case map_of kvs ''target_id'' of
                 Some (JStr tid) \<Rightarrow>
                   if \<not> (0 < length tid \<and> length tid \<le> MAX_TARGET_ID) then Inl MentionError
                   else if \<not> is_clean_id tid then Inl MentionError
                   else (case map_of kvs ''offset'' of
                     Some (JInt offset) \<Rightarrow>
                       if \<not> (0 \<le> offset \<and> offset \<le> MAX_INDEX) then Inl MentionError
                       else (case map_of kvs ''length'' of
                         Some (JInt len) \<Rightarrow>
                           if \<not> (1 \<le> len \<and> len \<le> MAX_INDEX) then Inl MentionError
                           else if offset + len > MAX_INDEX then Inl MentionError
                           else Inr (mention_span ttype tid offset len)
                       | _ \<Rightarrow> Inl MentionError)
                   | _ \<Rightarrow> Inl MentionError)
               | _ \<Rightarrow> Inl MentionError)
           | _ \<Rightarrow> Inl MentionError)
      | _ \<Rightarrow> Inl MentionError)"

fun validate_spans :: "json list \<Rightarrow> mention_error + json list" where
  "validate_spans [] = Inr []"
| "validate_spans (raw # raws) =
     (case validate_span raw of
        Inl e \<Rightarrow> Inl e
      | Inr s \<Rightarrow> (case validate_spans raws of Inl e \<Rightarrow> Inl e | Inr out \<Rightarrow> Inr (s # out)))"

definition validate_mentions :: "json \<Rightarrow> mention_error + json list option" where
  "validate_mentions raw =
     (case raw of
        JNull \<Rightarrow> Inr None
      | JList spans \<Rightarrow>
          (if length spans > MAX_MENTIONS then Inl MentionError
           else case validate_spans spans of Inl e \<Rightarrow> Inl e | Inr out \<Rightarrow> Inr (Some out))
      | _ \<Rightarrow> Inl MentionError)"

section \<open>What is carried\<close>

text \<open>A span of the frozen shape.\<close>

definition span_ok :: "string \<Rightarrow> string \<Rightarrow> int \<Rightarrow> int \<Rightarrow> bool" where
  "span_ok ttype tid offset len \<longleftrightarrow> target_type_re ttype \<and> tid \<noteq> [] \<and> length tid \<le> 128 \<and> is_clean_id tid \<and>
     0 \<le> offset \<and> 1 \<le> len \<and> offset + len \<le> 1048576"

lemma set_span_keys:
  assumes "set (map fst kvs) = set SPAN_KEYS"
  shows "k \<in> set SPAN_KEYS \<longleftrightarrow> map_of kvs k \<noteq> None"
  unfolding assms [symmetric] by (simp add: map_of_eq_None_iff)

lemma jget_span:
  "jget ''target_type'' (mention_span tt ti off len) = Some (JStr tt)" "jget ''target_id'' (mention_span tt ti off len) = Some (JStr ti)"
  "jget ''offset'' (mention_span tt ti off len) = Some (JInt off)" "jget ''length'' (mention_span tt ti off len) = Some (JInt len)"
  "k \<notin> set SPAN_KEYS \<Longrightarrow> jget k (mention_span tt ti off len) = None"
  by (auto simp: mention_span_def SPAN_KEYS_def)

lemma validate_span_iff:
  "validate_span raw = Inr s \<longleftrightarrow>
     (\<exists>kvs tt ti off len. raw = JObj kvs \<and> set (map fst kvs) = set SPAN_KEYS \<and> (\<forall>k. jget k raw = jget k s) \<and>
        s = mention_span tt ti off len \<and> span_ok tt ti off len)"
  (is "?v \<longleftrightarrow> ?shape")
proof
  assume v: ?v
  then obtain kvs tt ti off len where o: "raw = JObj kvs" "set (map fst kvs) = set SPAN_KEYS"
      "map_of kvs ''target_type'' = Some (JStr tt)" "map_of kvs ''target_id'' = Some (JStr ti)"
      "map_of kvs ''offset'' = Some (JInt off)" "map_of kvs ''length'' = Some (JInt len)"
      "s = mention_span tt ti off len" "span_ok tt ti off len"
    unfolding validate_span_def
    by (auto simp: span_ok_def MAX_INDEX_def MAX_TARGET_ID_def split: json.splits if_splits option.splits)
  have "jget k raw = jget k s" for k
  proof (cases "k \<in> set SPAN_KEYS")
    case True with o show ?thesis by (auto simp: SPAN_KEYS_def mention_span_def)
  next
    case False
    then have "map_of kvs k = None" using set_span_keys [OF o(2)] by blast
    with False o show ?thesis by (simp add: jget_span)
  qed
  with o show ?shape by blast
next
  assume ?shape
  then obtain kvs tt ti off len where o: "raw = JObj kvs" "set (map fst kvs) = set SPAN_KEYS"
      "\<And>k. jget k raw = jget k s" "s = mention_span tt ti off len" "span_ok tt ti off len" by blast
  have "map_of kvs ''target_type'' = Some (JStr tt)" "map_of kvs ''target_id'' = Some (JStr ti)"
      "map_of kvs ''offset'' = Some (JInt off)" "map_of kvs ''length'' = Some (JInt len)"
    using o(3) [of "''target_type''"] o(3) [of "''target_id''"] o(3) [of "''offset''"] o(3) [of "''length''"] o(1)
    unfolding o(4) jget_span by simp_all
  with o show ?v
    by (simp add: validate_span_def span_ok_def MAX_INDEX_def MAX_TARGET_ID_def)
qed

lemma validate_spans_iff: "validate_spans raws = Inr out \<longleftrightarrow> list_all2 (\<lambda>raw s. validate_span raw = Inr s) raws out"
proof (induction raws arbitrary: out)
  case (Cons raw raws)
  have "validate_spans (raw # raws) = Inr out \<longleftrightarrow>
      (\<exists>s rest. validate_span raw = Inr s \<and> validate_spans raws = Inr rest \<and> out = s # rest)"
    by (auto split: sum.splits)
  then show ?case unfolding Cons.IH list_all2_Cons1 by blast
qed auto

lemma validate_mentions_iff:
  "validate_mentions raw = Inr (Some out) \<longleftrightarrow>
     (\<exists>spans. raw = JList spans \<and> length spans \<le> 64 \<and> validate_spans spans = Inr out)"
  by (cases raw) (auto simp: validate_mentions_def MAX_MENTIONS_def split: sum.splits)

text \<open>The gateway carries spans verbatim: it accepts an array of at most 64 objects of the frozen
  shape, answers one object per inbound one, in the order sent, duplicates included, with every
  field as sent and no other key, and everything else is refused.\<close>

theorem mentions_carried_verbatim:
  "validate_mentions raw = Inr (Some out) \<longleftrightarrow>
     (\<exists>spans. raw = JList spans \<and> length spans \<le> 64 \<and>
        list_all2 (\<lambda>sp s. \<exists>kvs tt ti off len. sp = JObj kvs \<and> set (map fst kvs) = set SPAN_KEYS \<and>
           (\<forall>k. jget k sp = jget k s) \<and> s = mention_span tt ti off len \<and> span_ok tt ti off len) spans out)"
  unfolding validate_mentions_iff validate_spans_iff validate_span_iff ..

text \<open>What is stored validates again, to itself: a stored array can be re-sent.\<close>

lemma mentions_stable:
  assumes "validate_mentions raw = Inr (Some out)"
  shows "validate_mentions (JList out) = Inr (Some out)"
proof -
  have "validate_span s = Inr s" if "validate_span sp = Inr s" for sp s
  proof -
    from that obtain tt ti off len where s: "s = mention_span tt ti off len" "span_ok tt ti off len"
      unfolding validate_span_iff by blast
    have "set (map fst [(''target_type'', JStr tt), (''target_id'', JStr ti), (''offset'', JInt off), (''length'', JInt len)]) =
        set SPAN_KEYS" by (simp add: SPAN_KEYS_def)
    with s show ?thesis unfolding validate_span_iff mention_span_def by blast
  qed
  then have "list_all2 (\<lambda>raw s. validate_span raw = Inr s) out out" if "list_all2 (\<lambda>raw s. validate_span raw = Inr s) raws out" for raws
    using that by (metis (mono_tags, lifting) list_all2_conv_all_nth)
  moreover obtain spans where "length spans \<le> 64" "list_all2 (\<lambda>raw s. validate_span raw = Inr s) spans out"
    using assms unfolding validate_mentions_iff validate_spans_iff by blast
  ultimately show ?thesis
    unfolding validate_mentions_iff validate_spans_iff by (metis list_all2_lengthD)
qed

text \<open>A line feed after the token passes the pattern.\<close>

lemma target_type_line_feed: "target_type_re ''user'' \<and> target_type_re (''user'' @ [CHR 0x0A]) \<and> \<not> target_type_re ''User''"
  by code_simp

end
