(* ===== verification/Realtime.thy ===== *)
theory Realtime
  imports Mentions Messages Signing Echo Push Sessions
begin

text \<open>The realtime transport: the wire frames (\<open>realtime/envelopes.py\<close> and the message views of
  \<open>domain/messages_service.py\<close>), the connection registry and fan-out (\<open>realtime/hub.py\<close>) and the
  WebSocket endpoint with its subscribe and send handlers (\<open>realtime/ws.py\<close>). A connection is
  named by a number, its object identity; the hub keeps every connection object and the set of
  registered ones as a list in iteration order. A handler answers the effects it has in order
  (frames to its own socket, the echo mark, the bus publish, the fan-out, the wake task) and the
  committed store. Whether a socket takes a frame is an argument.\<close>

section \<open>Frames\<close>

definition message_view :: "(instant \<Rightarrow> string) \<Rightarrow> json list \<Rightarrow> message \<Rightarrow> json" where
  "message_view isoformat reactions m = JObj
     ([(''msg_id'', JStr (m_id m)), (''channel_id'', JStr (m_channel_id m)),
       (''sender'', JObj [(''user_id'', json_opt (m_sender_user_id m)),
          (''kind'', JStr (sender_kind_value (m_sender_kind m))), (''label'', json_opt (m_sender_label m))]),
       (''body'', JStr (m_body m)), (''created_at'', JStr (isoformat (m_created_at m))),
       (''reply_to'', json_opt (m_reply_to m)), (''reactions'', JList reactions)]
      @ (case m_origin m of None \<Rightarrow> [] | Some origin \<Rightarrow> [(''origin'', origin)])
      @ (case m_mentions m of None \<Rightarrow> [] | Some [] \<Rightarrow> [] | Some ms \<Rightarrow> [(''mentions'', JList ms)]))"

definition retraction_view :: "retraction \<Rightarrow> json" where
  "retraction_view r = JObj [(''type'', JStr ''retraction''), (''id'', JStr (ret_id r)),
     (''target_msg_id'', JStr (ret_target_msg_id r)), (''channel_id'', JStr (ret_channel_id r))]"

definition ack :: "string \<Rightarrow> ident \<Rightarrow> string \<Rightarrow> json" where
  "ack client_msg_id msg_id created_at = JObj [(''type'', JStr ''ack''), (''client_msg_id'', JStr client_msg_id),
     (''msg_id'', JStr msg_id), (''created_at'', JStr created_at)]"

definition message_frame :: "json \<Rightarrow> json" where
  "message_frame msg_view = JObj [(''type'', JStr ''message''), (''msg'', msg_view)]"

definition retraction_frame :: "ident \<Rightarrow> ident \<Rightarrow> ident \<Rightarrow> json" where
  "retraction_frame channel_id retraction_id target_msg_id = JObj [(''type'', JStr ''retraction''),
     (''channel_id'', JStr channel_id), (''id'', JStr retraction_id), (''target_msg_id'', JStr target_msg_id)]"

datatype ReactionAction = ADD | REMOVE

fun reaction_action_value :: "ReactionAction \<Rightarrow> string" where
  "reaction_action_value ADD = ''add''"
| "reaction_action_value REMOVE = ''remove''"

definition reaction_frame :: "ident \<Rightarrow> ident \<Rightarrow> string \<Rightarrow> ReactionAction \<Rightarrow> ident \<Rightarrow> json option \<Rightarrow> json" where
  "reaction_frame channel_id msg_id emoji action user_id origin = JObj
     ([(''type'', JStr ''reaction''), (''channel_id'', JStr channel_id), (''msg_id'', JStr msg_id),
       (''emoji'', JStr emoji), (''action'', JStr (reaction_action_value action)), (''user_id'', JStr user_id)]
      @ (case origin of None \<Rightarrow> [] | Some env \<Rightarrow> [(''origin'', env)]))"

definition suback :: "(ident \<times> string) list \<Rightarrow> json" where
  "suback channel_fences = JObj [(''type'', JStr ''suback''),
     (''channel_fences'', JObj (map (\<lambda>(cid, fence). (cid, JStr fence)) channel_fences))]"

definition error_frame :: "string \<Rightarrow> string \<Rightarrow> json \<Rightarrow> json" where
  "error_frame code detail ref_client_msg_id = JObj [(''type'', JStr ''error''), (''code'', JStr code),
     (''detail'', JStr detail), (''ref_client_msg_id'', ref_client_msg_id)]"

text \<open>\<open>raw.get(k)\<close>: an absent key reads as null. \<open>py_repr\<close> renders the type of an unknown frame.\<close>

definition get_key_of :: "(string \<times> json) list \<Rightarrow> string \<Rightarrow> json" where
  "get_key_of kvs k = (case map_of kvs k of None \<Rightarrow> JNull | Some v \<Rightarrow> v)"

fun str_list :: "json list \<Rightarrow> string list option" where
  "str_list [] = Some []"
| "str_list (JStr x # xs) = map_option ((#) x) (str_list xs)"
| "str_list (_ # xs) = None"

datatype frame =
    Subscribe "ident list"
  | Send (fr_client_msg_id: string) (fr_channel_id: ident) (fr_body: string) (fr_reply_to: json)
      (fr_origin: json) (fr_mentions: json)

datatype frame_error = FrameError string

definition parse_inbound :: "(json \<Rightarrow> string) \<Rightarrow> json \<Rightarrow> frame_error + frame" where
  "parse_inbound py_repr raw =
     (case raw of
        JObj kvs \<Rightarrow>
          (let ftype = get_key_of kvs ''type'' in
           if ftype = JStr ''subscribe'' then
             (case get_key_of kvs ''channel_ids'' of
                JList xs \<Rightarrow> (case str_list xs of
                    None \<Rightarrow> Inl (FrameError ''subscribe.channel_ids must be a list[str]'')
                  | Some ids \<Rightarrow> Inr (Subscribe ids))
              | _ \<Rightarrow> Inl (FrameError ''subscribe.channel_ids must be a list[str]''))
           else if ftype = JStr ''send'' then
             (case (get_key_of kvs ''client_msg_id'', get_key_of kvs ''channel_id'', get_key_of kvs ''body'') of
                (JStr cmid, JStr cid, JStr body) \<Rightarrow>
                  if py_strip body = [] then Inl (FrameError ''send.body must be non-empty'')
                  else Inr (Send cmid cid body (get_key_of kvs ''reply_to'') (get_key_of kvs ''origin'') (get_key_of kvs ''mentions''))
              | _ \<Rightarrow> Inl (FrameError ''send requires client_msg_id, channel_id, body (str)''))
           else Inl (FrameError (''unknown frame type: '' @ py_repr ftype)))
      | _ \<Rightarrow> Inl (FrameError ''frame must be a JSON object''))"

section \<open>The hub\<close>

record connection =
  cn_user_id :: ident
  cn_subscribed :: "ident set"

record hub =
  conn_objects :: "nat \<rightharpoonup> connection"
  registered :: "nat list"

datatype send_outcome = SendOk | SendRaised | SendCancelled

definition hub_register :: "nat \<Rightarrow> hub \<Rightarrow> hub" where
  "hub_register conn h = h\<lparr>registered := List.insert conn (registered h)\<rparr>"

definition hub_unregister :: "nat \<Rightarrow> hub \<Rightarrow> hub" where
  "hub_unregister conn h = h\<lparr>registered := removeAll conn (registered h)\<rparr>"

definition owned_by :: "hub \<Rightarrow> ident \<Rightarrow> nat \<Rightarrow> bool" where
  "owned_by h user_id conn = (case conn_objects h conn of None \<Rightarrow> False | Some c \<Rightarrow> cn_user_id c = user_id)"

text \<open>The sockets are closed one after the other, a close that raises is swallowed; \<open>race conn\<close> is
  what other tasks do to the hub while the close of \<open>conn\<close> is awaited.\<close>

definition disconnect_user :: "(nat \<Rightarrow> hub \<Rightarrow> hub) \<Rightarrow> ident \<Rightarrow> hub \<Rightarrow> nat \<times> hub" where
  "disconnect_user race user_id h =
     (let targets = filter (owned_by h user_id) (registered h)
      in (length targets, fold (\<lambda>conn h. hub_unregister conn (race conn h)) targets h))"

definition fanout_targets :: "ident \<Rightarrow> ident list \<Rightarrow> hub \<Rightarrow> nat list" where
  "fanout_targets channel_id excluded h =
     filter (\<lambda>conn. case conn_objects h conn of
         None \<Rightarrow> False
       | Some c \<Rightarrow> channel_id \<in> cn_subscribed c \<and> cn_user_id c \<notin> set excluded) (registered h)"

text \<open>The sends run together, \<open>outcome\<close> is how each ends; the connections that took the frame and the
  hub without those whose send raised. \<open>race\<close> is what other tasks do meanwhile.\<close>

definition fanout :: "(nat \<Rightarrow> send_outcome) \<Rightarrow> (hub \<Rightarrow> hub) \<Rightarrow> ident \<Rightarrow> ident list \<Rightarrow> hub \<Rightarrow> nat list \<times> hub" where
  "fanout outcome race channel_id excluded h =
     (let targets = fanout_targets channel_id excluded h
      in if targets = [] then ([], h)
         else (filter (\<lambda>conn. outcome conn = SendOk) targets,
               fold hub_unregister (filter (\<lambda>conn. outcome conn = SendRaised) targets) (race h)))"

section \<open>The endpoint\<close>

text \<open>The handshake: \<open>Inl 1008\<close> closes the socket. The session closes and the socket is accepted before
  the connection is registered; \<open>race\<close> is what happens to the hub in between.\<close>

definition ws_open :: "(instant \<Rightarrow> string \<Rightarrow> json option) \<Rightarrow> instant \<Rightarrow> string \<Rightarrow> nat \<Rightarrow> (hub \<Rightarrow> hub) \<Rightarrow> db \<Rightarrow> hub \<Rightarrow>
    nat + user \<times> hub" where
  "ws_open jwt_decode now token conn race d h =
     (case resolve_session_user jwt_decode now token ''access'' d of
        Inl _ \<Rightarrow> Inl 1008
      | Inr u \<Rightarrow> Inr (u, hub_register conn ((race h)\<lparr>conn_objects :=
            (conn_objects (race h))(conn \<mapsto> \<lparr>cn_user_id = u_id u, cn_subscribed = {}\<rparr>)\<rparr>)))"

definition subscribe_conn :: "nat \<Rightarrow> ident list \<Rightarrow> hub \<Rightarrow> hub" where
  "subscribe_conn conn accessible h =
     (case conn_objects h conn of
        None \<Rightarrow> h
      | Some c \<Rightarrow> h\<lparr>conn_objects := (conn_objects h)(conn \<mapsto> c\<lparr>cn_subscribed := cn_subscribed c \<union> set accessible\<rparr>)\<rparr>)"

text \<open>The fences are read after the subscription, each in the store \<open>later\<close> of that moment. A dict
  keeps the first position of a repeated key.\<close>

definition fences :: "(ident \<Rightarrow> db) \<Rightarrow> ident \<Rightarrow> ident list \<Rightarrow> (ident \<times> ident) list" where
  "fences later viewer_id accessible = map (\<lambda>cid. (cid, latest_ulid (later cid) cid viewer_id)) (rev (remdups (rev accessible)))"

definition handle_subscribe :: "nat \<Rightarrow> ident \<Rightarrow> ident list \<Rightarrow> (ident \<Rightarrow> db) \<Rightarrow> db \<Rightarrow> hub \<Rightarrow> json \<times> hub" where
  "handle_subscribe conn user_id channel_ids later d h =
     (let accessible = filter_readable_ids d user_id channel_ids
      in (suback (fences later user_id accessible), subscribe_conn conn accessible h))"

subsection \<open>Sending\<close>

datatype effect =
    Reply json
  | MarkSent string string string
  | BusSend string string string
  | Fanout ident json "ident list"
  | Wake ident channel_kind ident "nat list" "ident list"

datatype escape = StatementError | SendFailed | SocketClosed

text \<open>The wake task is only created on an island with a transport, for a body that asks for one.\<close>

definition schedule_wake :: "platform list \<Rightarrow> ident \<Rightarrow> channel_kind \<Rightarrow> ident \<Rightarrow> nat list \<Rightarrow> ident list \<Rightarrow> effect list" where
  "schedule_wake configured channel_id channel_kind sender_id body exclude =
     (if configured = [] \<or> should_wake channel_kind body = None then []
      else [Wake channel_id channel_kind sender_id body exclude])"

text \<open>What the handler depends on besides the frame and the store: the clock and the identifiers it
  would use, what other sessions commit while it writes (\<open>race\<close>) and before it reads the blocks
  (\<open>race_blocks\<close>), whether the sender's socket takes the acknowledgement, the configured transports,
  the rendering of dates and of exception texts (\<open>why\<close>), the code points of a text, and whether the
  database driver takes a reply target that is not a string (it then finds no row; otherwise it
  raises).\<close>

record send_env =
  se_now :: instant
  se_new_id :: ident
  se_k1 :: ident
  se_k2 :: ident
  se_race :: "db \<Rightarrow> db"
  se_race_blocks :: "db \<Rightarrow> db"
  se_ack_ok :: bool
  se_configured :: "platform list"
  se_isoformat :: "instant \<Rightarrow> string"
  se_why :: "string \<Rightarrow> string"
  se_points :: "string \<Rightarrow> nat list"
  se_binds :: "json \<Rightarrow> bool"

text \<open>The reply gate: the target in this channel, the refusal, or an error of the driver.\<close>

definition reply_gate :: "send_env \<Rightarrow> db \<Rightarrow> user \<Rightarrow> channel \<Rightarrow> json \<Rightarrow> (escape + string \<times> string) + ident option" where
  "reply_gate env d u c reply_to =
     (case reply_to of
        JNull \<Rightarrow> Inr None
      | JStr i \<Rightarrow>
          (case get_message d i of
             None \<Rightarrow> Inl (Inr (''no_reply_target'', ''reply target not found in this channel''))
           | Some target \<Rightarrow>
               if m_channel_id target \<noteq> ch_id c
               then Inl (Inr (''no_reply_target'', ''reply target not found in this channel''))
               else if ch_kind c \<noteq> DM \<and>
                    (case m_sender_user_id target of None \<Rightarrow> False | Some s \<Rightarrow> is_blocked_between d (u_id u) s)
               then Inl (Inr (''blocked'', ''cannot reply to a blocked user''))
               else Inr (Some i))
      | other \<Rightarrow>
          (if se_binds env other
           then Inl (Inr (''no_reply_target'', ''reply target not found in this channel''))
           else Inl (Inl StatementError)))"

text \<open>What follows a committed send: the acknowledgement, then for a new message the bus, the
  fan-out and the wake. A failing acknowledgement raises, and nothing after it runs.\<close>

definition after_commit :: "send_env \<Rightarrow> user \<Rightarrow> channel \<Rightarrow> string \<Rightarrow> string \<Rightarrow> ident list \<Rightarrow> message \<times> bool \<Rightarrow>
    escape option \<times> effect list" where
  "after_commit env u c body cmid exclude rc =
     (case rc of (row, created) \<Rightarrow>
        let view = message_view (se_isoformat env) [] row in
        if \<not> se_ack_ok env then (Some SocketClosed, [])
        else (None,
          [Reply (ack cmid (m_id row) (se_isoformat env (m_created_at row)))]
          @ (if created
             then (if should_federate c
                   then [MarkSent (ch_aiko_channel c) (u_aiko_username u) body,
                         BusSend (u_aiko_username u) (ch_aiko_channel c) body]
                   else [])
                @ [Fanout (ch_id c) (message_frame view) exclude]
                @ schedule_wake (se_configured env) (ch_id c) (ch_kind c) (u_id u) (se_points env body) exclude
             else [])))"

text \<open>\<open>_handle_send\<close>: the exception that escapes, the effects in order, the committed store.\<close>

definition handle_send :: "send_env \<Rightarrow> user \<Rightarrow> string \<Rightarrow> ident \<Rightarrow> string \<Rightarrow> json \<Rightarrow> json \<Rightarrow> json \<Rightarrow> db \<Rightarrow>
    (escape option \<times> effect list) \<times> db" where
  "handle_send env u cmid cid body reply_to origin_raw mentions_raw d =
     (let refuse = (\<lambda>code detail. ((None, [Reply (error_frame code detail (JStr cmid))]), d)) in
      case readable_channel d (u_id u) cid of
        None \<Rightarrow> refuse ''no_channel'' ''channel not found''
      | Some c \<Rightarrow>
          if \<not> can_post d (u_id u) c then refuse ''forbidden'' ''cannot post to this channel''
          else case reply_gate env d u c reply_to of
            Inl (Inl e) \<Rightarrow> ((Some e, []), d)
          | Inl (Inr (code, detail)) \<Rightarrow> refuse code detail
          | Inr target \<Rightarrow>
              (case validate_origin origin_raw cmid of
                 Inl _ \<Rightarrow> refuse ''bad_origin'' (se_why env ''bad_origin'')
               | Inr origin \<Rightarrow>
                   (case validate_mentions mentions_raw of
                      Inl _ \<Rightarrow> refuse ''bad_mentions'' (se_why env ''bad_mentions'')
                    | Inr spans \<Rightarrow>
                        (case create_outbound (se_race env) (se_now env) (se_new_id env) (se_k1 env) (se_k2 env)
                                u c body cmid target origin spans d of
                           Inl BlockedDmSend \<Rightarrow> refuse ''no_channel'' ''channel not found''
                         | Inl _ \<Rightarrow> ((Some SendFailed, []), d)
                         | Inr (rc, d') \<Rightarrow>
                             let d'' = se_race_blocks env d'
                             in (after_commit env u c body cmid (blocked_pair_user_ids d'' (u_id u)) rc, d'')))))"

subsection \<open>The receive loop\<close>

datatype incoming = Received json | NotJson | Gone

record frame_env =
  fe_between :: "db \<times> hub \<Rightarrow> db \<times> hub"
  fe_send :: send_env
  fe_later :: "ident \<Rightarrow> db"
  fe_repr :: "json \<Rightarrow> string"
  fe_outcome :: "nat \<Rightarrow> send_outcome"
  fe_during :: "hub \<Rightarrow> hub"

text \<open>The fan-out of an effect, on the hub.\<close>

definition run_fanout :: "frame_env \<Rightarrow> effect \<Rightarrow> hub \<Rightarrow> hub" where
  "run_fanout env e h =
     (case e of Fanout cid _ exclude \<Rightarrow> snd (fanout (fe_outcome env) (fe_during env) cid exclude h) | _ \<Rightarrow> h)"

definition handle_frame :: "frame_env \<Rightarrow> nat \<Rightarrow> user \<Rightarrow> json \<Rightarrow> db \<times> hub \<Rightarrow> (escape option \<times> effect list) \<times> db \<times> hub" where
  "handle_frame env conn u raw s =
     (case fe_between env s of (d, h) \<Rightarrow>
        (case parse_inbound (fe_repr env) raw of
           Inl (FrameError text) \<Rightarrow>
             ((None, [Reply (error_frame ''bad_frame'' text
                 (case raw of JObj kvs \<Rightarrow> get_key_of kvs ''client_msg_id'' | _ \<Rightarrow> JNull))]), d, h)
         | Inr (Subscribe ids) \<Rightarrow>
             (case handle_subscribe conn (u_id u) ids (fe_later env) d h of
                (frame, h') \<Rightarrow> ((None, [Reply frame]), d, h'))
         | Inr (Send cmid cid body reply_to origin mentions) \<Rightarrow>
             (case handle_send (fe_send env) u cmid cid body reply_to origin mentions d of
                ((esc, effs), d') \<Rightarrow> ((esc, effs), d', fold (run_fanout env) effs h))))"

text \<open>Every exception but the disconnect leaves the loop as it is; whatever ends it, the connection is
  unregistered. The input is what the socket yields, each with its environment.\<close>

fun ws_serve :: "nat \<Rightarrow> user \<Rightarrow> (incoming \<times> frame_env) list \<Rightarrow> db \<times> hub \<Rightarrow> effect list \<times> db \<times> hub" where
  "ws_serve conn u [] (d, h) = ([], d, hub_unregister conn h)"
| "ws_serve conn u ((Gone, env) # _) (d, h) = ([], d, hub_unregister conn h)"
| "ws_serve conn u ((NotJson, env) # _) (d, h) = ([], d, hub_unregister conn h)"
| "ws_serve conn u ((Received raw, env) # rest) (d, h) =
     (case handle_frame env conn u raw (d, h) of
        ((Some e, effs), d', h') \<Rightarrow> (effs, d', hub_unregister conn h')
      | ((None, effs), s') \<Rightarrow> (case ws_serve conn u rest s' of (later, s'') \<Rightarrow> (effs @ later, s'')))"

section \<open>What a send does\<close>

lemma handle_send_cases:
  assumes "handle_send env u cmid cid body r og ms d = ((esc, effs), d')"
  obtains (refused) "d' = d" "effs = [] \<or> (\<exists>code detail. effs = [Reply (error_frame code detail (JStr cmid))])" "esc \<noteq> Some SocketClosed"
  | (committed) c target origin spans row created d1 where "readable_channel d (u_id u) cid = Some c" "ch_id c = cid"
      "create_outbound (se_race env) (se_now env) (se_new_id env) (se_k1 env) (se_k2 env) u c body cmid target origin spans d =
         Inr ((row, created), d1)"
      "d' = se_race_blocks env d1"
      "(esc, effs) = after_commit env u c body cmid (blocked_pair_user_ids d' (u_id u)) (row, created)"
proof (cases "readable_channel d (u_id u) cid")
  case None
  show thesis by (rule that(1)) (use None assms in \<open>auto simp: handle_send_def Let_def\<close>)
next
  case (Some c)
  have cid: "ch_id c = cid" using acl.gate_sound [OF Some] by blast
  show thesis
  proof (cases "can_post d (u_id u) c")
    case False
    show thesis by (rule that(1)) (use False Some assms in \<open>auto simp: handle_send_def Let_def\<close>)
  next
    case True
    note hs = assms [unfolded handle_send_def Let_def, simplified Some option.case True not_True_eq_False if_False]
    show thesis
    proof (cases "reply_gate env d u c r")
      case (Inl e)
      have ne: "e \<noteq> Inl SocketClosed" using Inl by (auto simp: reply_gate_def split: json.splits option.splits if_splits)
      show thesis by (rule that(1)) (use hs Inl ne in \<open>auto split: sum.splits prod.splits\<close>)
    next
      case (Inr target)
      note hs = hs [simplified Inr sum.case]
      show thesis
      proof (cases "validate_origin og cmid")
        case (Inl e)
        show thesis by (rule that(1)) (use hs Inl in \<open>auto\<close>)
      next
        case (Inr origin)
        note hs = hs [simplified Inr sum.case]
        show thesis
        proof (cases "validate_mentions ms")
          case (Inl e)
        show thesis by (rule that(1)) (use hs Inl in \<open>auto\<close>)
        next
          case (Inr spans)
          note hs = hs [simplified Inr sum.case]
          show thesis
          proof (cases "create_outbound (se_race env) (se_now env) (se_new_id env) (se_k1 env) (se_k2 env) u c body cmid target origin spans d")
            case (Inl e)
            show thesis by (rule that(1)) (use hs Inl in \<open>auto split: send_error.splits\<close>)
          next
            case (Inr x)
            obtain row created d1 where x: "x = ((row, created), d1)" by (metis surj_pair)
            from hs show thesis
              by (intro that(2) [OF Some cid Inr [unfolded x]]) (auto simp: Inr x)
          qed
        qed
      qed
    qed
  qed
qed

lemma wake_effects: "x \<in> set (schedule_wake cf ch k s b ex) \<Longrightarrow> x = Wake ch k s b ex"
  by (simp add: schedule_wake_def split: if_splits)

text \<open>C30: a message whose sender's socket was gone when it was to be acknowledged is stored but never
  published: the failed acknowledgement ends the handler before the bus, the fan-out and the wake,
  and every later send with that client id, by anyone and whatever it carries, answers frames to its
  own socket only.\<close>

theorem lost_ack_never_published:
  assumes "handle_send env u cmid cid body r og ms d = ((Some SocketClosed, effs), d')" and "se_race_blocks env = id"
  shows "effs = [] \<and> message_by_client_id d' cid cmid \<noteq> None \<and>
    (\<forall>env' u' body' r' og' ms' d2. message_by_client_id d2 cid cmid \<noteq> None \<longrightarrow>
      (\<forall>x \<in> set (snd (fst (handle_send env' u' cmid cid body' r' og' ms' d2))). \<exists>f. x = Reply f))"
proof -
  have stored: "effs = [] \<and> message_by_client_id d' cid cmid \<noteq> None"
    using assms(1)
  proof (cases rule: handle_send_cases)
    case refused then show ?thesis by simp
  next
    case (committed c target origin spans row created d1)
    have d': "d' = d1" using committed(4) assms(2) by simp
    have "message_by_client_id d1 cid cmid \<noteq> None"
      using committed(3)
    proof (cases rule: create_outbound_cases)
      case resend then show ?thesis using committed(2) by simp
    next
      case (fresh d0) then show ?thesis using insert_message_found [OF fresh(6), of cmid] committed(2) by simp
    qed
    moreover have "effs = []" using committed(5) by (auto simp: after_commit_def Let_def split: if_splits)
    ultimately show ?thesis by (simp add: d')
  qed
  have "\<exists>f. x = Reply f" if known: "message_by_client_id d2 cid cmid \<noteq> None"
    and x: "x \<in> set (snd (fst (handle_send env' u' cmid cid body' r' og' ms' d2)))" for env' u' body' r' og' ms' d2 x
  proof -
    obtain esc2 effs2 e2 where hs: "handle_send env' u' cmid cid body' r' og' ms' d2 = ((esc2, effs2), e2)" by (metis surj_pair)
    have x: "x \<in> set effs2" using x by (simp add: hs)
    from hs show ?thesis
    proof (cases rule: handle_send_cases)
      case refused then show ?thesis using x by auto
    next
      case (committed c target origin spans row created d1)
      have "\<not> created" using committed(2,3) known by (auto simp: create_outbound_def split: option.splits)
      then show ?thesis using committed(5) x by (auto simp: after_commit_def Let_def split: if_splits)
    qed
  qed
  with stored show ?thesis by blast
qed

section \<open>What leaves for the bus\<close>

text \<open>Every publish in the sequence, given what came directly before it, is under the name and marked.\<close>

fun marked :: "string \<Rightarrow> effect option \<Rightarrow> effect list \<Rightarrow> bool" where
  "marked name before [] = True"
| "marked name before (e # effs) =
     ((case e of BusSend n ch b \<Rightarrow> n = name \<and> \<not> is_dm_channel_name ch \<and> before = Some (MarkSent ch n b) | _ \<Rightarrow> True) \<and>
      marked name (Some e) effs)"

lemma marked_unmarked: "marked name None effs \<Longrightarrow> marked name before effs"
  by (cases effs) (auto split: effect.splits)

lemma marked_append: "marked name before xs \<Longrightarrow> marked name None ys \<Longrightarrow> marked name before (xs @ ys)"
  by (induction xs arbitrary: before) (auto intro: marked_unmarked)

lemma marked_none: "\<forall>e \<in> set effs. \<forall>n ch b. e \<noteq> BusSend n ch b \<Longrightarrow> marked name before effs"
  by (induction effs arbitrary: before) (auto split: effect.splits)

lemma marked_split:
  "marked name before (pre @ BusSend n ch b # post) \<Longrightarrow> n = name \<and> \<not> is_dm_channel_name ch \<and>
     (if pre = [] then before = Some (MarkSent ch n b) else last pre = MarkSent ch n b)"
proof (induction pre arbitrary: before)
  case Nil then show ?case by simp
next
  case (Cons e pre)
  from Cons.prems have "marked name (Some e) (pre @ BusSend n ch b # post)" by simp
  from Cons.IH [OF this] show ?case by (cases "pre = []") simp_all
qed

lemma wake_marked: "marked name before (schedule_wake cf i k ui pts ex)"
  by (simp add: schedule_wake_def)

lemma after_commit_bus:
  assumes "(esc, effs) = after_commit env u c body cmid exclude rc"
  shows "marked (u_aiko_username u) None effs"
proof -
  obtain row created where rc: "rc = (row, created)" by (cases rc)
  have effs: "effs = snd (after_commit env u c body cmid exclude (row, created))"
    using assms unfolding rc by (metis snd_conv)
  show ?thesis
    unfolding effs after_commit_def Let_def
    by (cases created; cases "se_ack_ok env"; cases "should_federate c")
      (simp_all add: should_federate_def wake_marked)
qed

lemma handle_frame_bus:
  assumes "handle_frame env conn u raw s = ((esc, effs), s')"
  shows "marked (u_aiko_username u) None effs"
proof (cases "\<exists>n ch b. BusSend n ch b \<in> set effs")
  case False
  then show ?thesis by (intro marked_none) auto
next
  case True
  obtain d h where s: "fe_between env s = (d, h)" by (cases "fe_between env s")
  obtain cmid cid body r og ms d' where hs: "handle_send (fe_send env) u cmid cid body r og ms d = ((esc, effs), d')"
    using assms True by (auto simp: handle_frame_def s split: sum.splits frame_error.splits frame.splits prod.splits)
  then show ?thesis
  proof (cases rule: handle_send_cases)
    case refused with True show ?thesis by auto
  next
    case committed from after_commit_bus [OF committed(5)] show ?thesis .
  qed
qed

lemma ws_serve_bus: "ws_serve conn u input s = (effs, s') \<Longrightarrow> marked (u_aiko_username u) None effs"
proof (induction input arbitrary: s effs)
  case Nil then show ?case by (cases s) simp
next
  case (Cons x rest)
  obtain what env where x: "x = (what, env)" by (cases x)
  obtain d h where s: "s = (d, h)" by (cases s)
  show ?case
  proof (cases what)
    case (Received raw)
    obtain esc now d1 h1 where hf: "handle_frame env conn u raw (d, h) = ((esc, now), d1, h1)" by (metis surj_pair)
    obtain later s2 where l: "ws_serve conn u rest (d1, h1) = (later, s2)" by (cases "ws_serve conn u rest (d1, h1)")
    have "effs = now \<or> effs = now @ later \<and> s2 = s'"
      using Cons.prems by (cases esc) (simp_all add: x s Received hf l)
    then show ?thesis using handle_frame_bus [OF hf] Cons.IH [OF l [THEN trans]] l Cons.IH marked_append by metis
  qed (use Cons.prems in \<open>simp_all add: x s\<close>)
qed

text \<open>C29: what a connection puts on the bus over its whole life, whatever it sends: every single publish,
  wherever it stands in the sequence of effects, is under its own user's bus name, never in the
  direct-message namespace, and the effect directly before it is the echo mark of the same channel,
  name and text; so each bus copy is recognised, repeated texts included.\<close>

theorem bus_egress_marked_and_public:
  assumes "ws_serve conn u input s = (pre @ BusSend n ch b # post, s')"
  shows "n = u_aiko_username u \<and> \<not> is_dm_channel_name ch \<and> (\<exists>pre'. pre = pre' @ [MarkSent ch n b])"
  using marked_split [OF ws_serve_bus [OF assms]] by (cases pre rule: rev_cases) auto

section \<open>Live delivery and the fence\<close>

text \<open>The interleaving of the realtime operations at their await points. A message is pending from its
  commit until its fan-out: first without, then with the exclusion list read for it. A subscribe
  reads the ACL, then subscribes the connection, then reads one fence per channel. The history
  components are for the statements: what each connection took, the messages whose sender's socket
  was gone before the fan-out, the channels each fence is still owed for, the fences sent, and the
  ACL answers given.\<close>

record rt =
  rt_db :: db
  rt_hub :: hub
  rt_pending :: "(message \<times> ident list option) list"
  rt_unsent :: "message set"
  rt_inbox :: "(nat \<times> ident) set"
  rt_asked :: "(nat \<times> ident list) set"
  rt_owed :: "(nat \<times> ident) set"
  rt_fences :: "nat \<times> ident \<rightharpoonup> ident"
  rt_grants :: "(nat \<times> ident \<times> db) set"

definition rt_start :: "db \<Rightarrow> rt" where
  "rt_start d = \<lparr>rt_db = d, rt_hub = \<lparr>conn_objects = Map.empty, registered = []\<rparr>, rt_pending = [], rt_unsent = {},
     rt_inbox = {}, rt_asked = {}, rt_owed = {}, rt_fences = Map.empty, rt_grants = {}\<rparr>"

text \<open>A change of the store that shows nobody a message they did not see: everything but a new message,
  the lifting of a block and the deletion of an account.\<close>

definition quiet :: "db \<Rightarrow> db \<Rightarrow> bool" where
  "quiet d d' \<longleftrightarrow> (\<forall>cid v. set (shown_messages d' cid v) \<subseteq> set (shown_messages d cid v))"

definition excluded_for :: "db \<Rightarrow> message \<Rightarrow> ident list" where
  "excluded_for d m = (case m_sender_user_id m of None \<Rightarrow> [] | Some s \<Rightarrow> blocked_pair_user_ids d s)"

inductive rt_step :: "rt \<Rightarrow> rt \<Rightarrow> bool" where
  send_commit: "create_outbound race now i k1 k2 u c body cmid target origin spans (rt_db s) = Inr ((m, True), d') \<Longrightarrow>
     quiet (rt_db s) (race (rt_db s)) \<Longrightarrow>
     rt_step s (s\<lparr>rt_db := d', rt_pending := (m, None) # rt_pending s\<rparr>)"
| ingest_commit: "persist_inbound now i1 i2 msg (rt_db s) = Inr (Some m, d') \<Longrightarrow>
     rt_step s (s\<lparr>rt_db := d', rt_pending := (m, None) # rt_pending s\<rparr>)"
| read_blocks: "(m, None) \<in> set (rt_pending s) \<Longrightarrow>
     rt_step s (s\<lparr>rt_pending := (m, Some (excluded_for (rt_db s) m)) # removeAll (m, None) (rt_pending s)\<rparr>)"
| ack_lost: "(m, ex) \<in> set (rt_pending s) \<Longrightarrow>
     rt_step s (s\<lparr>rt_pending := removeAll (m, ex) (rt_pending s), rt_unsent := insert m (rt_unsent s)\<rparr>)"
| fan_out: "(m, Some ex) \<in> set (rt_pending s) \<Longrightarrow> \<forall>conn. outcome conn \<noteq> SendCancelled \<Longrightarrow>
     fanout outcome id (m_channel_id m) ex (rt_hub s) = (taken, h) \<Longrightarrow>
     rt_step s (s\<lparr>rt_pending := removeAll (m, Some ex) (rt_pending s), rt_hub := h,
       rt_inbox := rt_inbox s \<union> (\<lambda>conn. (conn, m_id m)) ` set taken\<rparr>)"
| opens: "conn_objects (rt_hub s) conn = None \<Longrightarrow>
     ws_open dec now token conn id d (rt_hub s) = Inr (u, h) \<Longrightarrow> rt_step s (s\<lparr>rt_hub := h\<rparr>)"
| ask: "conn_objects (rt_hub s) conn = Some cn \<Longrightarrow>
     accessible = filter_readable_ids (rt_db s) (cn_user_id cn) ids \<Longrightarrow>
     rt_step s (s\<lparr>rt_asked := insert (conn, accessible) (rt_asked s),
       rt_grants := rt_grants s \<union> (\<lambda>cid. (conn, cid, rt_db s)) ` set accessible\<rparr>)"
| subscribes: "(conn, accessible) \<in> rt_asked s \<Longrightarrow>
     rt_step s (s\<lparr>rt_hub := subscribe_conn conn accessible (rt_hub s),
       rt_owed := rt_owed s \<union> (\<lambda>cid. (conn, cid)) ` set accessible\<rparr>)"
| fence: "(conn, cid) \<in> rt_owed s \<Longrightarrow> conn_objects (rt_hub s) conn = Some cn \<Longrightarrow>
     rt_step s (s\<lparr>rt_fences := (rt_fences s)((conn, cid) \<mapsto> latest_ulid (rt_db s) cid (cn_user_id cn)),
       rt_owed := rt_owed s - {(conn, cid)}\<rparr>)"
| closes: "rt_step s (s\<lparr>rt_hub := hub_unregister conn (rt_hub s)\<rparr>)"
| others: "quiet (rt_db s) d' \<Longrightarrow> rt_step s (s\<lparr>rt_db := d'\<rparr>)"

inductive rt_reach :: "db \<Rightarrow> rt \<Rightarrow> bool" for d where
  start: "rt_reach d (rt_start d)"
| step: "rt_reach d s \<Longrightarrow> rt_step s s' \<Longrightarrow> rt_reach d s'"

text \<open>The three kinds of step a subscribe takes, run without anything in between, are \<open>handle_subscribe\<close>: the
  same hub, and in the reply the fences the steps recorded.\<close>

lemma fence_steps:
  assumes "distinct cs" and "\<forall>cid \<in> set cs. (conn, cid) \<in> rt_owed s" and "conn_objects (rt_hub s) conn = Some cn"
  shows "\<exists>s'. rt_step\<^sup>*\<^sup>* s s' \<and> rt_db s' = rt_db s \<and> rt_hub s' = rt_hub s \<and>
    (\<forall>cid. rt_fences s' (conn, cid) =
       (if cid \<in> set cs then Some (latest_ulid (rt_db s) cid (cn_user_id cn)) else rt_fences s (conn, cid)))"
  using assms
proof (induction cs arbitrary: s)
  case Nil
  then show ?case by auto
next
  case (Cons c cs)
  let ?s = "s\<lparr>rt_fences := (rt_fences s)((conn, c) \<mapsto> latest_ulid (rt_db s) c (cn_user_id cn)), rt_owed := rt_owed s - {(conn, c)}\<rparr>"
  have "(conn, c) \<in> rt_owed s" using Cons.prems(2) by simp
  then have first: "rt_step s ?s" using Cons.prems(3) by (rule rt_step.fence)
  have "distinct cs" "\<forall>cid \<in> set cs. (conn, cid) \<in> rt_owed ?s" "conn_objects (rt_hub ?s) conn = Some cn"
    using Cons.prems by auto
  from Cons.IH [OF this] obtain s' where s': "rt_step\<^sup>*\<^sup>* ?s s'" "rt_db s' = rt_db s" "rt_hub s' = rt_hub s"
      "\<And>cid. rt_fences s' (conn, cid) =
         (if cid \<in> set cs then Some (latest_ulid (rt_db s) cid (cn_user_id cn)) else rt_fences ?s (conn, cid))"
    by auto
  have "rt_step\<^sup>*\<^sup>* s s'" using first s'(1) by (rule converse_rtranclp_into_rtranclp)
  with s'(2-4) show ?case by (intro exI [of _ s']) simp
qed

lemma handle_subscribe_steps:
  assumes "conn_objects (rt_hub s) conn = Some cn"
  obtains s' where "rt_step\<^sup>*\<^sup>* s s'" "rt_db s' = rt_db s"
    "handle_subscribe conn (cn_user_id cn) ids (\<lambda>_. rt_db s) (rt_db s) (rt_hub s) =
       (suback (map (\<lambda>cid. (cid, the (rt_fences s' (conn, cid))))
          (rev (remdups (rev (filter_readable_ids (rt_db s) (cn_user_id cn) ids))))), rt_hub s')"
proof -
  let ?ids = "filter_readable_ids (rt_db s) (cn_user_id cn) ids"
  let ?s1 = "s\<lparr>rt_asked := insert (conn, ?ids) (rt_asked s), rt_grants := rt_grants s \<union> (\<lambda>cid. (conn, cid, rt_db s)) ` set ?ids\<rparr>"
  let ?s2 = "?s1\<lparr>rt_hub := subscribe_conn conn ?ids (rt_hub ?s1), rt_owed := rt_owed ?s1 \<union> (\<lambda>cid. (conn, cid)) ` set ?ids\<rparr>"
  let ?cn = "cn\<lparr>cn_subscribed := cn_subscribed cn \<union> set ?ids\<rparr>"
  have "rt_step s ?s1" using assms refl by (rule rt_step.ask)
  moreover have "rt_step ?s1 ?s2" by (rule rt_step.subscribes) simp
  moreover have "conn_objects (rt_hub ?s2) conn = Some ?cn" using assms by (simp add: subscribe_conn_def)
  moreover have "distinct (remdups ?ids)" "\<forall>cid \<in> set (remdups ?ids). (conn, cid) \<in> rt_owed ?s2" by auto
  ultimately obtain s' where s': "rt_step\<^sup>*\<^sup>* ?s2 s'" "rt_db s' = rt_db s" "rt_hub s' = subscribe_conn conn ?ids (rt_hub s)"
      "\<And>cid. cid \<in> set ?ids \<Longrightarrow> rt_fences s' (conn, cid) = Some (latest_ulid (rt_db s) cid (cn_user_id cn))"
    using fence_steps [of "remdups ?ids" conn ?s2 ?cn] by auto
  have "rt_step\<^sup>*\<^sup>* s s'"
    using \<open>rt_step s ?s1\<close> \<open>rt_step ?s1 ?s2\<close> s'(1) by (meson converse_rtranclp_into_rtranclp)
  then show thesis
  proof (rule that [OF _ s'(2)])
    have "fences (\<lambda>_. rt_db s) (cn_user_id cn) ?ids = map (\<lambda>cid. (cid, the (rt_fences s' (conn, cid)))) (rev (remdups (rev ?ids)))"
      unfolding fences_def by (rule map_cong [OF refl]) (simp add: s'(4))
    then show "handle_subscribe conn (cn_user_id cn) ids (\<lambda>_. rt_db s) (rt_db s) (rt_hub s) =
       (suback (map (\<lambda>cid. (cid, the (rt_fences s' (conn, cid)))) (rev (remdups (rev ?ids)))), rt_hub s')"
      by (simp add: handle_subscribe_def Let_def s'(3))
  qed
qed

subsection \<open>What the operations show\<close>

lemma shown_frame: "messages d' = messages d \<Longrightarrow> user_blocks d' = user_blocks d \<Longrightarrow> shown_messages d' cid v = shown_messages d cid v"
  by (simp add: shown_messages_def not_blocked_predicate_def fun_eq_iff)

lemma shown_append:
  "messages d' = messages d @ [m] \<Longrightarrow> user_blocks d' = user_blocks d \<Longrightarrow>
     set (shown_messages d' cid v) \<subseteq> insert m (set (shown_messages d cid v))"
  by (auto simp: shown_messages_def not_blocked_predicate_def)

lemma record_signing_key_frame:
  assumes "record_signing_key (\<lambda>n. if n = 0 then race else id) now i1 i2 uid pk kv d = Inr (x, d')"
  shows "messages d' = messages (race d) \<and> user_blocks d' = user_blocks (race d)"
  using assms
  by (auto simp: record_signing_key_def insert_signing_key_def touch_key_def Let_def split: sum.splits option.splits if_splits)

lemma record_origin_frame:
  assumes "record_origin race now k1 k2 uid og d = Inr d'"
  shows "messages d' = messages (race d) \<and> user_blocks d' = user_blocks (race d)"
  using assms
  by (auto simp: record_origin_def dest: record_signing_key_frame split: option.splits json.splits sum.splits prod.splits)

lemma created_shown:
  assumes "create_outbound race now i k1 k2 u c body k rt og me d = Inr ((m, True), d')" and "quiet d (race d)"
  shows "set (shown_messages d' cid v) \<subseteq> insert m (set (shown_messages d cid v))"
  using assms(1)
proof (cases rule: create_outbound_cases)
  case (fresh d1)
  have "d' = d1\<lparr>messages := messages d1 @ [m]\<rparr>" using fresh(6) by (auto simp: insert_message_def split: if_splits)
  then have "set (shown_messages d' cid v) \<subseteq> insert m (set (shown_messages d1 cid v))" by (intro shown_append) simp_all
  moreover have "shown_messages d1 cid v = shown_messages (race d) cid v"
    using record_origin_frame [OF fresh(4)] by (intro shown_frame) simp_all
  ultimately show ?thesis using assms(2) by (auto simp: quiet_def)
qed simp

lemma ingested_shown:
  assumes "persist_inbound now i1 i2 msg d = Inr (Some m, d')"
  shows "set (shown_messages d' cid v) \<subseteq> insert m (set (shown_messages d cid v))"
proof -
  obtain ch c d1 where u: "upsert_channel now i1 ch d = Inr (c, d1)" and ins: "insert_message m d1 = Inr d'"
    using assms by (auto simp: persist_inbound_def Let_def split: option.splits sum.splits channel_error.splits)
  have d': "d' = d1\<lparr>messages := messages d1 @ [m]\<rparr>" using ins by (auto simp: insert_message_def split: if_splits)
  have "messages d1 = messages d \<and> user_blocks d1 = user_blocks d"
    using u by (cases rule: upsert_cases) (auto simp: insert_channel_def split: if_splits)
  then show ?thesis by (intro shown_append) (simp_all add: d')
qed

lemma fence_covers: "m \<in> set (shown_messages d cid v) \<Longrightarrow> m_id m \<le> latest_ulid d cid v"
proof -
  assume m: "m \<in> set (shown_messages d cid v)"
  then have "shown_messages d cid v \<noteq> []" by auto
  then have "sql_max (map m_id (shown_messages d cid v)) = Some (Max (m_id ` set (shown_messages d cid v)))"
    by (simp add: sql_max_def)
  moreover have "m_id m \<le> Max (m_id ` set (shown_messages d cid v))" using m by simp
  ultimately show ?thesis by (simp add: latest_ulid_def latest_ulids_def max.coboundedI1)
qed

lemma hub_unregister_sel [simp]:
  "conn_objects (hub_unregister conn h) = conn_objects h" "set (registered (hub_unregister conn h)) = set (registered h) - {conn}"
  by (simp_all add: hub_unregister_def)

lemma fold_hub_unregister [simp]:
  "conn_objects (fold hub_unregister cs h) = conn_objects h"
  "set (registered (fold hub_unregister cs h)) = set (registered h) - set cs"
  by (induction cs arbitrary: h) auto

lemma fanout_cases:
  assumes "fanout outcome id cid ex h = (taken, h')"
  shows "conn_objects h' = conn_objects h" and "set (registered h') \<subseteq> set (registered h)"
    and "conn \<in> set (registered h') \<Longrightarrow> conn_objects h conn = Some cn \<Longrightarrow> cid \<in> cn_subscribed cn \<Longrightarrow>
      cn_user_id cn \<notin> set ex \<Longrightarrow> outcome conn \<noteq> SendCancelled \<Longrightarrow> conn \<in> set taken"
proof -
  let ?T = "fanout_targets cid ex h"
  have h': "h' = fold hub_unregister (filter (\<lambda>c. outcome c = SendRaised) ?T) h" and taken: "taken = filter (\<lambda>c. outcome c = SendOk) ?T"
    using assms by (auto simp: fanout_def Let_def split: if_splits)
  show "conn_objects h' = conn_objects h" "set (registered h') \<subseteq> set (registered h)" unfolding h' by auto
  assume conn: "conn \<in> set (registered h')" "conn_objects h conn = Some cn" "cid \<in> cn_subscribed cn"
      "cn_user_id cn \<notin> set ex" "outcome conn \<noteq> SendCancelled"
  then have "conn \<in> set ?T" unfolding h' by (simp add: fanout_targets_def)
  moreover from this conn(1) have "outcome conn \<noteq> SendRaised" unfolding h' by simp
  ultimately show "conn \<in> set taken" using conn(5) by (cases "outcome conn") (simp_all add: taken)
qed

lemma ws_open_objects:
  assumes "ws_open dec now token conn id d h = Inr (u, h')"
  shows "conn_objects h' = (conn_objects h)(conn \<mapsto> \<lparr>cn_user_id = u_id u, cn_subscribed = {}\<rparr>)"
    and "set (registered h') = insert conn (set (registered h))"
  using assms by (auto simp: ws_open_def hub_register_def split: sum.splits)

lemma subscribe_conn_sel [simp]:
  "registered (subscribe_conn conn acc h) = registered h"
  "conn_objects (subscribe_conn conn acc h) c = (if c = conn
     then map_option (\<lambda>cn. cn\<lparr>cn_subscribed := cn_subscribed cn \<union> set acc\<rparr>) (conn_objects h conn)
     else conn_objects h c)"
  by (auto simp: subscribe_conn_def split: option.splits)

lemma filter_readable_readable: "cid \<in> set (filter_readable_ids d u ids) \<Longrightarrow> readable_channel d u cid \<noteq> None"
  by (auto simp: filter_readable_ids_def Let_def readable_channel_None_iff readable_predicate_def split: if_splits)

subsection \<open>The invariants\<close>

text \<open>Every record of the protocol names an open connection, every grant was readable, and what is owed or
  fenced is subscribed.\<close>

definition rt_typed :: "rt \<Rightarrow> bool" where
  "rt_typed s \<longleftrightarrow>
     (\<forall>conn acc. (conn, acc) \<in> rt_asked s \<longrightarrow>
        (\<exists>cn. conn_objects (rt_hub s) conn = Some cn) \<and> (\<forall>cid \<in> set acc. \<exists>d. (conn, cid, d) \<in> rt_grants s)) \<and>
     (\<forall>conn cid d. (conn, cid, d) \<in> rt_grants s \<longrightarrow>
        (\<exists>cn. conn_objects (rt_hub s) conn = Some cn \<and> readable_channel d (cn_user_id cn) cid \<noteq> None)) \<and>
     (\<forall>conn cid. (conn, cid) \<in> rt_owed s \<or> rt_fences s (conn, cid) \<noteq> None \<longrightarrow>
        (\<exists>cn. conn_objects (rt_hub s) conn = Some cn \<and> cid \<in> cn_subscribed cn)) \<and>
     (\<forall>conn cn cid. conn_objects (rt_hub s) conn = Some cn \<longrightarrow> cid \<in> cn_subscribed cn \<longrightarrow>
        (\<exists>d. (conn, cid, d) \<in> rt_grants s))"

text \<open>The history a connection with fence \<open>F\<close> need not ask for: taken, still on its way to this viewer, or
  lost with its sender's socket.\<close>

definition covered :: "rt \<Rightarrow> nat \<Rightarrow> ident \<Rightarrow> ident \<Rightarrow> message \<Rightarrow> bool" where
  "covered s conn v F m \<longleftrightarrow> m_id m \<le> F \<or> (conn, m_id m) \<in> rt_inbox s \<or> m \<in> rt_unsent s \<or>
     (\<exists>ex. (m, ex) \<in> set (rt_pending s) \<and> (\<forall>e. ex = Some e \<longrightarrow> v \<notin> set e))"

definition no_gap :: "rt \<Rightarrow> bool" where
  "no_gap s \<longleftrightarrow> (\<forall>conn cn cid F m. conn \<in> set (registered (rt_hub s)) \<longrightarrow> conn_objects (rt_hub s) conn = Some cn \<longrightarrow>
     rt_fences s (conn, cid) = Some F \<longrightarrow> m \<in> set (shown_messages (rt_db s) cid (cn_user_id cn)) \<longrightarrow>
     covered s conn (cn_user_id cn) F m)"

lemma rt_typed_start: "rt_typed (rt_start d)" and no_gap_start: "no_gap (rt_start d)"
  by (simp_all add: rt_typed_def no_gap_def rt_start_def)

lemma rt_typedD:
  assumes "rt_typed s"
  shows "(conn, acc) \<in> rt_asked s \<Longrightarrow> \<exists>cn. conn_objects (rt_hub s) conn = Some cn"
    and "(conn, acc) \<in> rt_asked s \<Longrightarrow> cid \<in> set acc \<Longrightarrow> \<exists>d. (conn, cid, d) \<in> rt_grants s"
    and "(conn, cid, d) \<in> rt_grants s \<Longrightarrow>
        \<exists>cn. conn_objects (rt_hub s) conn = Some cn \<and> readable_channel d (cn_user_id cn) cid \<noteq> None"
    and "(conn, cid) \<in> rt_owed s \<Longrightarrow> \<exists>cn. conn_objects (rt_hub s) conn = Some cn \<and> cid \<in> cn_subscribed cn"
    and "rt_fences s (conn, cid) = Some F \<Longrightarrow> \<exists>cn. conn_objects (rt_hub s) conn = Some cn \<and> cid \<in> cn_subscribed cn"
    and "conn_objects (rt_hub s) conn = Some cn \<Longrightarrow> cid \<in> cn_subscribed cn \<Longrightarrow> \<exists>d. (conn, cid, d) \<in> rt_grants s"
  using assms unfolding rt_typed_def by blast+

text \<open>The invariant only looks at these components.\<close>

lemma rt_typed_cong:
  assumes "rt_typed s" and "conn_objects (rt_hub s') = conn_objects (rt_hub s)" and "rt_asked s' = rt_asked s"
    and "rt_owed s' = rt_owed s" and "rt_fences s' = rt_fences s" and "rt_grants s' = rt_grants s"
  shows "rt_typed s'"
  using assms by (simp add: rt_typed_def)

lemma rt_typed_step:
  assumes "rt_step s s'" and "rt_typed s"
  shows "rt_typed s'"
  using assms(1)
proof cases
  case (fan_out m ex outcome taken h)
  show ?thesis by (rule rt_typed_cong [OF assms(2)]) (simp_all add: fan_out(1) fanout_cases(1) [OF fan_out(4)])
next
  case (opens conn dec now token d u h)
  note obj = ws_open_objects(1) [OF opens(3)]
  have hub: "conn_objects (rt_hub s') c = (if c = conn then Some \<lparr>cn_user_id = u_id u, cn_subscribed = {}\<rparr> else conn_objects (rt_hub s) c)" for c
    by (simp add: opens(1) obj)
  show ?thesis unfolding rt_typed_def hub
    using rt_typedD [OF assms(2)] opens(2) by (simp add: opens(1)) fastforce
next
  case (ask conn cn accessible ids)
  have "readable_channel (rt_db s) (cn_user_id cn) cid \<noteq> None" if "cid \<in> set accessible" for cid
    using filter_readable_readable [of cid "rt_db s" "cn_user_id cn" ids] that unfolding ask(3) by blast
  then show ?thesis unfolding rt_typed_def
    using rt_typedD [OF assms(2)] ask(2) by (simp add: ask(1)) fast
next
  case (subscribes conn accessible)
  note D = rt_typedD [OF assms(2)]
  show ?thesis unfolding rt_typed_def
    using D(1) [OF subscribes(2)] D(2) [OF subscribes(2)] D
    by (simp add: subscribes(1)) fastforce
next
  case (fence conn cid cn)
  show ?thesis unfolding rt_typed_def using rt_typedD [OF assms(2)] fence(2) by (simp add: fence(1)) fast
qed (rule rt_typed_cong [OF assms(2)], simp_all)+

lemma no_gapD:
  "no_gap s \<Longrightarrow> conn \<in> set (registered (rt_hub s)) \<Longrightarrow> conn_objects (rt_hub s) conn = Some cn \<Longrightarrow>
     rt_fences s (conn, cid) = Some F \<Longrightarrow> m \<in> set (shown_messages (rt_db s) cid (cn_user_id cn)) \<Longrightarrow>
     covered s conn (cn_user_id cn) F m"
  unfolding no_gap_def by blast

lemma no_gapI:
  "(\<And>conn cn cid F m. conn \<in> set (registered (rt_hub s)) \<Longrightarrow> conn_objects (rt_hub s) conn = Some cn \<Longrightarrow>
     rt_fences s (conn, cid) = Some F \<Longrightarrow> m \<in> set (shown_messages (rt_db s) cid (cn_user_id cn)) \<Longrightarrow>
     covered s conn (cn_user_id cn) F m) \<Longrightarrow> no_gap s"
  unfolding no_gap_def by blast

lemma covered_mono:
  "covered s conn v F m \<Longrightarrow> rt_inbox s \<subseteq> rt_inbox s' \<Longrightarrow> rt_unsent s \<subseteq> rt_unsent s' \<Longrightarrow>
     (\<And>ex. (m, ex) \<in> set (rt_pending s) \<Longrightarrow> (\<forall>e. ex = Some e \<longrightarrow> v \<notin> set e) \<Longrightarrow> covered s' conn v F m) \<Longrightarrow>
     covered s' conn v F m"
  unfolding covered_def by blast

lemma covered_pending: "(m, ex) \<in> set (rt_pending s) \<Longrightarrow> \<forall>e. ex = Some e \<longrightarrow> v \<notin> set e \<Longrightarrow> covered s conn v F m"
  unfolding covered_def by blast

lemma shown_not_excluded: "m \<in> set (shown_messages d cid v) \<Longrightarrow> v \<notin> set (excluded_for d m) \<and> m_channel_id m = cid"
  by (auto simp: shown_messages_def excluded_for_def not_blocked_iff blocked_pair_sym [of v] split: option.splits)

lemma no_gap_commit:
  assumes "no_gap s" and "\<And>cid v. set (shown_messages d' cid v) \<subseteq> insert m (set (shown_messages (rt_db s) cid v))"
  shows "no_gap (s\<lparr>rt_db := d', rt_pending := (m, None) # rt_pending s\<rparr>)"
proof (rule no_gapI)
  fix conn cn cid F x
  let ?s = "s\<lparr>rt_db := d', rt_pending := (m, None) # rt_pending s\<rparr>"
  assume c: "conn \<in> set (registered (rt_hub ?s))" "conn_objects (rt_hub ?s) conn = Some cn" "rt_fences ?s (conn, cid) = Some F"
    and x: "x \<in> set (shown_messages (rt_db ?s) cid (cn_user_id cn))"
  show "covered ?s conn (cn_user_id cn) F x"
  proof (cases "x = m")
    case True then show ?thesis by (intro covered_pending [of _ None]) simp_all
  next
    case False
    then have "x \<in> set (shown_messages (rt_db s) cid (cn_user_id cn))" using x assms(2) by auto
    from no_gapD [OF assms(1) _ _ _ this] c have "covered s conn (cn_user_id cn) F x" by simp
    then show ?thesis by (rule covered_mono) (auto intro: covered_pending)
  qed
qed

lemma no_gap_transfer:
  assumes "no_gap s"
    and "\<And>conn cn cid F x. conn \<in> set (registered (rt_hub s')) \<Longrightarrow> conn_objects (rt_hub s') conn = Some cn \<Longrightarrow>
      rt_fences s' (conn, cid) = Some F \<Longrightarrow> x \<in> set (shown_messages (rt_db s') cid (cn_user_id cn)) \<Longrightarrow>
      covered s' conn (cn_user_id cn) F x \<or>
      conn \<in> set (registered (rt_hub s)) \<and>
      (\<exists>cn0. conn_objects (rt_hub s) conn = Some cn0 \<and> cn_user_id cn0 = cn_user_id cn) \<and>
      rt_fences s (conn, cid) = Some F \<and> x \<in> set (shown_messages (rt_db s) cid (cn_user_id cn)) \<and>
      (covered s conn (cn_user_id cn) F x \<longrightarrow> covered s' conn (cn_user_id cn) F x)"
  shows "no_gap s'"
  using assms(2) no_gapD [OF assms(1)] by (intro no_gapI) metis

lemma no_gap_read_blocks:
  assumes "no_gap s" and "(m, None) \<in> set (rt_pending s)"
  shows "no_gap (s\<lparr>rt_pending := (m, Some (excluded_for (rt_db s) m)) # removeAll (m, None) (rt_pending s)\<rparr>)"
    (is "no_gap ?s")
proof (rule no_gap_transfer [OF assms(1)])
  fix conn cn cid F x
  assume x: "x \<in> set (shown_messages (rt_db ?s) cid (cn_user_id cn))"
    and c: "conn \<in> set (registered (rt_hub ?s))" "conn_objects (rt_hub ?s) conn = Some cn" "rt_fences ?s (conn, cid) = Some F"
  have "covered ?s conn (cn_user_id cn) F x" if "covered s conn (cn_user_id cn) F x"
    using that
  proof (rule covered_mono)
    fix ex assume ex: "(x, ex) \<in> set (rt_pending s)" "\<forall>e. ex = Some e \<longrightarrow> cn_user_id cn \<notin> set e"
    show "covered ?s conn (cn_user_id cn) F x"
    proof (cases "(x, ex) = (m, None)")
      case True
      have "cn_user_id cn \<notin> set (excluded_for (rt_db s) m)" using shown_not_excluded x True by simp
      then show ?thesis using True by (intro covered_pending [of _ "Some (excluded_for (rt_db s) m)"]) simp_all
    next
      case False then show ?thesis using ex by (intro covered_pending [of _ ex]) auto
    qed
  qed simp_all
  with c x show "covered ?s conn (cn_user_id cn) F x \<or> conn \<in> set (registered (rt_hub s)) \<and>
      (\<exists>cn0. conn_objects (rt_hub s) conn = Some cn0 \<and> cn_user_id cn0 = cn_user_id cn) \<and>
      rt_fences s (conn, cid) = Some F \<and> x \<in> set (shown_messages (rt_db s) cid (cn_user_id cn)) \<and>
      (covered s conn (cn_user_id cn) F x \<longrightarrow> covered ?s conn (cn_user_id cn) F x)" by simp
qed

lemma no_gap_fan_out:
  assumes "no_gap s" and "rt_typed s" and "\<forall>conn. outcome conn \<noteq> SendCancelled"
    and "fanout outcome id (m_channel_id m) ex0 (rt_hub s) = (taken, h)"
  shows "no_gap (s\<lparr>rt_pending := removeAll (m, Some ex0) (rt_pending s), rt_hub := h,
       rt_inbox := rt_inbox s \<union> (\<lambda>conn. (conn, m_id m)) ` set taken\<rparr>)" (is "no_gap ?s")
proof (rule no_gapI)
  note fc = fanout_cases [OF assms(4)]
  fix conn cn cid F x
  assume c: "conn \<in> set (registered (rt_hub ?s))" "conn_objects (rt_hub ?s) conn = Some cn" "rt_fences ?s (conn, cid) = Some F"
    and x: "x \<in> set (shown_messages (rt_db ?s) cid (cn_user_id cn))"
  have c': "conn \<in> set (registered (rt_hub s))" "conn_objects (rt_hub s) conn = Some cn" "rt_fences s (conn, cid) = Some F"
    using c fc(1,2) by auto
  have x': "x \<in> set (shown_messages (rt_db s) cid (cn_user_id cn))" using x by simp
  have sub: "cid \<in> cn_subscribed cn" using rt_typedD(5) [OF assms(2) c'(3)] c'(2) by simp
  from no_gapD [OF assms(1) c' x'] show "covered ?s conn (cn_user_id cn) F x"
  proof (rule covered_mono)
    fix ex assume ex: "(x, ex) \<in> set (rt_pending s)" "\<forall>e. ex = Some e \<longrightarrow> cn_user_id cn \<notin> set e"
    show "covered ?s conn (cn_user_id cn) F x"
    proof (cases "(x, ex) = (m, Some ex0)")
      case True
      have "cid = m_channel_id m" using shown_not_excluded [OF x'] True by simp
      then have "conn \<in> set taken" using fc(3) [of conn cn] c(1) c'(2) sub ex(2) True assms(3) by simp
      then show ?thesis using True by (simp add: covered_def)
    next
      case False then show ?thesis using ex by (intro covered_pending [of _ ex]) auto
    qed
  qed simp_all
qed

lemma no_gap_step:
  assumes "rt_step s s'" and "rt_typed s" and "no_gap s"
  shows "no_gap s'"
  using assms(1)
proof cases
  case (send_commit race now i k1 k2 u c body cmid target origin spans m d')
  show ?thesis unfolding send_commit(1) by (rule no_gap_commit [OF assms(3) created_shown [OF send_commit(2,3)]])
next
  case (ingest_commit now i1 i2 msg m d')
  show ?thesis unfolding ingest_commit(1) by (rule no_gap_commit [OF assms(3) ingested_shown [OF ingest_commit(2)]])
next
  case (read_blocks m)
  show ?thesis unfolding read_blocks(1) by (rule no_gap_read_blocks [OF assms(3) read_blocks(2)])
next
  case (ack_lost m ex0)
  show ?thesis by (rule no_gap_transfer [OF assms(3)]) (auto simp: ack_lost(1) covered_def)
next
  case (fan_out m ex0 outcome taken h)
  show ?thesis unfolding fan_out(1) by (rule no_gap_fan_out [OF assms(3,2) fan_out(3,4)])
next
  case (opens conn0 dec now token d u h)
  have "conn \<noteq> conn0" if "rt_fences s (conn, cid) = Some F" for conn cid F
    using rt_typedD(5) [OF assms(2) that] opens(2) by auto
  then show ?thesis
    by (intro no_gap_transfer [OF assms(3)]) (auto simp: opens(1) ws_open_objects [OF opens(3)] covered_def)
next
  case (subscribes conn0 accessible)
  show ?thesis by (rule no_gap_transfer [OF assms(3)]) (auto simp: subscribes(1) covered_def split: if_splits)
next
  case (fence conn0 cid0 cn0)
  show ?thesis
    by (rule no_gap_transfer [OF assms(3)])
      (use fence(3) fence_covers in \<open>auto simp: fence(1) covered_def split: if_splits\<close>)
next
  case (others d')
  then show ?thesis by (intro no_gap_transfer [OF assms(3)]) (auto simp: quiet_def covered_def)
qed (use assms(3) in \<open>auto simp: no_gap_def covered_def\<close>)

lemma rt_invariant: "rt_reach d s \<Longrightarrow> rt_typed s \<and> no_gap s"
proof (induction rule: rt_reach.induct)
  case start show ?case using rt_typed_start no_gap_start by blast
next
  case (step s s') then show ?case using rt_typed_step no_gap_step by blast
qed

text \<open>C27: subscribing before reading the fence loses nothing. In every interleaving of sends, bus
  messages, subscribes, connects and disconnects, a message a still-registered subscriber may now
  see is at or below the fence it was sent, so history holds it, or the connection has taken it
  live, or it is still to be fanned out and this viewer is not excluded, or its sender's socket was
  gone before the fan-out. Changes that reveal old messages, lifting a block or deleting an account,
  are left out.\<close>

theorem fence_leaves_no_gap:
  assumes "rt_reach d s" and "conn \<in> set (registered (rt_hub s))" and "conn_objects (rt_hub s) conn = Some cn"
    and "rt_fences s (conn, cid) = Some F" and "m \<in> set (shown_messages (rt_db s) cid (cn_user_id cn))"
  shows "m_id m \<le> F \<or> (conn, m_id m) \<in> rt_inbox s \<or> m \<in> rt_unsent s \<or>
    (\<exists>ex. (m, ex) \<in> set (rt_pending s) \<and> (\<forall>e. ex = Some e \<longrightarrow> cn_user_id cn \<notin> set e))"
  using no_gapD [OF rt_invariant [OF assms(1), THEN conjunct2] assms(2-5)] by (simp add: covered_def)

text \<open>C28: live delivery is gated once, at the subscribe. A connection a fan-out reaches belongs to a
  user outside the exclusion list who could read the channel when some subscribe of that connection
  asked; and it stays reached whatever then happens to the memberships, its own removal from the
  channel included.\<close>

theorem live_gate_is_checked_once:
  assumes "rt_reach d s" and "conn \<in> set (fanout_targets cid ex (rt_hub s))"
  shows "(\<exists>cn d0. conn_objects (rt_hub s) conn = Some cn \<and> cn_user_id cn \<notin> set ex \<and>
      (conn, cid, d0) \<in> rt_grants s \<and> readable_channel d0 (cn_user_id cn) cid \<noteq> None) \<and>
    (\<forall>ms. \<exists>s'. rt_reach d s' \<and> rt_db s' = (rt_db s)\<lparr>memberships := ms\<rparr> \<and> conn \<in> set (fanout_targets cid ex (rt_hub s')))"
proof -
  note D = rt_typedD [OF rt_invariant [OF assms(1), THEN conjunct1]]
  obtain cn where cn: "conn_objects (rt_hub s) conn = Some cn" "cid \<in> cn_subscribed cn" "cn_user_id cn \<notin> set ex"
    using assms(2) by (auto simp: fanout_targets_def split: option.splits)
  obtain d0 where g: "(conn, cid, d0) \<in> rt_grants s" using D(6) [OF cn(1,2)] by blast
  from D(3) [OF g] cn(1) have "readable_channel d0 (cn_user_id cn) cid \<noteq> None" by simp
  with g cn have "\<exists>cn d0. conn_objects (rt_hub s) conn = Some cn \<and> cn_user_id cn \<notin> set ex \<and>
      (conn, cid, d0) \<in> rt_grants s \<and> readable_channel d0 (cn_user_id cn) cid \<noteq> None"
    by (intro exI [of _ cn] exI [of _ d0]) simp
  moreover have "\<exists>s'. rt_reach d s' \<and> rt_db s' = (rt_db s)\<lparr>memberships := ms\<rparr> \<and> conn \<in> set (fanout_targets cid ex (rt_hub s'))" for ms
  proof -
    have "quiet (rt_db s) ((rt_db s)\<lparr>memberships := ms\<rparr>)" 
      using shown_frame [of "(rt_db s)\<lparr>memberships := ms\<rparr>" "rt_db s"] by (simp add: quiet_def)
    from rt_reach.step [OF assms(1) others [OF this]] assms(2) show ?thesis
      by (intro exI [of _ "s\<lparr>rt_db := (rt_db s)\<lparr>memberships := ms\<rparr>\<rparr>"]) simp
  qed
  ultimately show ?thesis by blast
qed

subsection \<open>Examples\<close>

definition ex_live :: db where
  "ex_live = ex_acl_db\<lparr>users := [ex_user ''u'']\<rparr>"

definition ex_message :: message where
  "ex_message = outbound_row 5 ''m1'' (ex_user ''u'') ex_acl_channel ''hi'' ''k'' None None None"

text \<open>A member of a private channel connects and subscribes.\<close>

lemma ex_subscribed:
  "\<exists>s. rt_reach ex_live s \<and> rt_db s = ex_live \<and> registered (rt_hub s) = [1] \<and> (1, ''c'') \<in> rt_owed s \<and> rt_pending s = [] \<and>
     conn_objects (rt_hub s) 1 = Some \<lparr>cn_user_id = ''u'', cn_subscribed = {''c''}\<rparr> \<and> rt_inbox s = {} \<and> rt_unsent s = {}"
proof -
  let ?dec = "\<lambda>now token. Some (JObj [(''type'', JStr ''access''), (''sub'', JStr ''u'')])"
  let ?h = "\<lparr>conn_objects = [1 \<mapsto> \<lparr>cn_user_id = ''u'', cn_subscribed = {}\<rparr>], registered = [1]\<rparr>"
  let ?s1 = "(rt_start ex_live)\<lparr>rt_hub := ?h\<rparr>"
  let ?s2 = "?s1\<lparr>rt_asked := insert (1, [''c'']) (rt_asked ?s1), rt_grants := rt_grants ?s1 \<union> (\<lambda>cid. (1, cid, rt_db ?s1)) ` set [''c'']\<rparr>"
  let ?s3 = "?s2\<lparr>rt_hub := subscribe_conn 1 [''c''] (rt_hub ?s2), rt_owed := rt_owed ?s2 \<union> (\<lambda>cid. (1, cid)) ` set [''c'']\<rparr>"
  have "ws_open ?dec 0 [] 1 id ex_live (rt_hub (rt_start ex_live)) = Inr (ex_user ''u'', ?h)"
    by (simp add: ws_open_def resolve_session_user_def decode_token_def get_user_def ex_live_def ex_user_def is_banned_def
        rt_start_def hub_register_def)
  then have 1: "rt_reach ex_live ?s1"
    by (intro rt_reach.step [OF rt_reach.start] opens) (simp_all add: rt_start_def)
  have "rt_step ?s1 ?s2"
    by (rule ask [where ids = "[''c'']" and cn = "\<lparr>cn_user_id = ''u'', cn_subscribed = {}\<rparr>"])
      (simp_all add: rt_start_def filter_readable_ids_def ex_live_def ex_acl_db_def empty_db_def ex_acl_channel_def
        readable_predicate_def has_membership_def)
  with 1 have 2: "rt_reach ex_live ?s2" by (rule rt_reach.step)
  have "rt_step ?s2 ?s3" by (rule subscribes) simp
  with 2 have "rt_reach ex_live ?s3" by (rule rt_reach.step)
  then show ?thesis by (intro exI [of _ ?s3]) (simp add: rt_start_def)
qed

text \<open>Its own message, committed before the fence is read, and after it.\<close>

lemma ex_send:
  "\<exists>d'. create_outbound id 5 ''m1'' ''k1'' ''k2'' (ex_user ''u'') ex_acl_channel ''hi'' ''k'' None None None ex_live = Inr ((ex_message, True), d') \<and>
     shown_messages d' ''c'' ''u'' = [ex_message] \<and> latest_ulid d' ''c'' ''u'' = ''m1'' \<and> latest_ulid ex_live ''c'' ''u'' = []"
  by (simp add: create_outbound_def message_by_client_id_def ex_live_def ex_acl_db_def empty_db_def dm_send_blocked_def
      ex_acl_channel_def record_origin_def insert_message_def ex_message_def outbound_row_def ex_user_def
      shown_messages_def not_blocked_predicate_def latest_ulid_def latest_ulids_def sql_max_def channel_retractions_def Let_def)

theorem fence_leaves_no_gap_witness:
  "\<exists>s. rt_reach ex_live s \<and> conn_objects (rt_hub s) 1 = Some \<lparr>cn_user_id = ''u'', cn_subscribed = {''c''}\<rparr> \<and>
     rt_fences s (1, ''c'') = Some [] \<and> ex_message \<in> set (shown_messages (rt_db s) ''c'' ''u'') \<and>
     (\<exists>ex. (ex_message, ex) \<in> set (rt_pending s) \<and> (\<forall>e. ex = Some e \<longrightarrow> ''u'' \<notin> set e))"
proof -
  let ?cn = "\<lparr>cn_user_id = ''u'', cn_subscribed = {''c''}\<rparr>"
  obtain s where s: "rt_reach ex_live s" "rt_db s = ex_live" "registered (rt_hub s) = [1]" "(1, ''c'') \<in> rt_owed s"
      "rt_pending s = []" "conn_objects (rt_hub s) 1 = Some ?cn" "rt_inbox s = {}" "rt_unsent s = {}"
    using ex_subscribed by blast
  obtain d' where d': "create_outbound id 5 ''m1'' ''k1'' ''k2'' (ex_user ''u'') ex_acl_channel ''hi'' ''k'' None None None ex_live =
      Inr ((ex_message, True), d')" "shown_messages d' ''c'' ''u'' = [ex_message]" "latest_ulid ex_live ''c'' ''u'' = []"
    using ex_send by blast
  let ?s1 = "s\<lparr>rt_fences := (rt_fences s)((1, ''c'') \<mapsto> latest_ulid (rt_db s) ''c'' (cn_user_id ?cn)), rt_owed := rt_owed s - {(1, ''c'')}\<rparr>"
  let ?s2 = "?s1\<lparr>rt_db := d', rt_pending := (ex_message, None) # rt_pending ?s1\<rparr>"
  have 1: "rt_reach ex_live ?s1" using s(1) fence [OF s(4,6)] by (rule rt_reach.step)
  have "create_outbound id 5 ''m1'' ''k1'' ''k2'' (ex_user ''u'') ex_acl_channel ''hi'' ''k'' None None None (rt_db ?s1) =
      Inr ((ex_message, True), d')" using d'(1) s(2) by simp
  from rt_reach.step [OF 1 send_commit [OF this]] have 2: "rt_reach ex_live ?s2" by (simp add: quiet_def)
  have F: "rt_fences ?s2 (1, ''c'') = Some []" using d'(3) s(2) by simp
  have m: "ex_message \<in> set (shown_messages (rt_db ?s2) ''c'' (cn_user_id ?cn))" using d'(2) by simp
  have cn: "1 \<in> set (registered (rt_hub ?s2))" "conn_objects (rt_hub ?s2) 1 = Some ?cn" using s by simp_all
  have "m_id ex_message = ''m1''" by (simp add: ex_message_def outbound_row_def)
  with fence_leaves_no_gap [OF 2 cn F m] s have "\<exists>ex. (ex_message, ex) \<in> set (rt_pending ?s2) \<and> (\<forall>e. ex = Some e \<longrightarrow> ''u'' \<notin> set e)"
    by (simp add: less_eq_list_code)
  with 2 F m cn show ?thesis by (intro exI [of _ ?s2]) simp
qed

theorem live_gate_is_checked_once_witness:
  "\<exists>s. rt_reach ex_live s \<and> memberships (rt_db s) = [] \<and> readable_channel (rt_db s) ''u'' ''c'' = None \<and>
     1 \<in> set (fanout_targets ''c'' [] (rt_hub s))"
proof -
  obtain s where s: "rt_reach ex_live s" "rt_db s = ex_live" "registered (rt_hub s) = [1]"
      "conn_objects (rt_hub s) 1 = Some \<lparr>cn_user_id = ''u'', cn_subscribed = {''c''}\<rparr>"
    using ex_subscribed by blast
  have "1 \<in> set (fanout_targets ''c'' [] (rt_hub s))" using s(3,4) by (simp add: fanout_targets_def)
  from live_gate_is_checked_once [OF s(1) this] obtain s' where s': "rt_reach ex_live s'"
      "rt_db s' = (rt_db s)\<lparr>memberships := []\<rparr>" "1 \<in> set (fanout_targets ''c'' [] (rt_hub s'))" by blast
  then show ?thesis
    by (intro exI [of _ s']) (simp add: s(2) ex_live_def ex_acl_db_def readable_channel_def readable_predicate_def
        has_membership_def ex_acl_channel_def)
qed

definition ex_env :: "bool \<Rightarrow> send_env" where
  "ex_env ok = \<lparr>se_now = 5, se_new_id = ''m1'', se_k1 = ''k1'', se_k2 = ''k2'', se_race = id, se_race_blocks = id, se_ack_ok = ok,
     se_configured = [], se_isoformat = (\<lambda>_. ''2026''), se_why = id, se_points = points, se_binds = (\<lambda>_. True)\<rparr>"

lemmas ex_send_defs = handle_send_def ex_env_def ex_bus_def empty_db_def bus_channel_def plain_member_def readable_channel_def
  readable_predicate_def can_post_def get_membership_def reply_gate_def validate_origin_def validate_mentions_def
  create_outbound_def message_by_client_id_def dm_send_blocked_def record_origin_def insert_message_def after_commit_def
  outbound_row_def ex_user_def schedule_wake_def should_federate_def is_dm_channel_name_def DM_CHANNEL_PREFIX_def Let_def
  blocked_pair_user_ids_def starts_with_def

theorem lost_ack_never_published_witness:
  "\<exists>d'. handle_send (ex_env False) (ex_user ''u'') ''k'' ''c1'' ''hi'' JNull JNull JNull ex_bus = ((Some SocketClosed, []), d') \<and>
     (\<forall>x \<in> set (snd (fst (handle_send (ex_env True) (ex_user ''u'') ''k'' ''c1'' ''hi'' JNull JNull JNull d'))). \<exists>f. x = Reply f)"
proof -
  obtain effs d' where h: "handle_send (ex_env False) (ex_user ''u'') ''k'' ''c1'' ''hi'' JNull JNull JNull ex_bus = ((Some SocketClosed, effs), d')"
    by (simp add: ex_send_defs)
  have "se_race_blocks (ex_env False) = id" by (simp add: ex_env_def)
  from lost_ack_never_published [OF h this] h show ?thesis by blast
qed

theorem bus_egress_marked_and_public_witness:
  "\<exists>input pre post s'. ws_serve 1 (ex_user ''u'') input (ex_bus, \<lparr>conn_objects = Map.empty, registered = []\<rparr>) =
       ((pre @ [MarkSent ''general'' ''u'' ''hi'']) @ BusSend ''u'' ''general'' ''hi'' # post, s')"
proof -
  let ?env = "\<lparr>fe_between = id, fe_send = ex_env True, fe_later = (\<lambda>_. ex_bus), fe_repr = (\<lambda>_. []), fe_outcome = (\<lambda>_. SendOk), fe_during = id\<rparr>"
  let ?in = "[(Received (JObj [(''type'', JStr ''send''), (''client_msg_id'', JStr ''k''),
       (''channel_id'', JStr ''c1''), (''body'', JStr ''hi'')]), ?env)]"
  obtain effs s' where r: "ws_serve 1 (ex_user ''u'') ?in (ex_bus, \<lparr>conn_objects = Map.empty, registered = []\<rparr>) = (effs, s')"
      "BusSend ''u'' ''general'' ''hi'' \<in> set effs"
    by (simp add: handle_frame_def parse_inbound_def get_key_of_def py_strip_def is_space_def ex_send_defs)
  from split_list [OF r(2)] obtain pre post where e: "effs = pre @ BusSend ''u'' ''general'' ''hi'' # post" by blast
  from bus_egress_marked_and_public [OF r(1) [unfolded e]] obtain pre' where "pre = pre' @ [MarkSent ''general'' ''u'' ''hi'']" by blast
  with r(1) e show ?thesis by metis
qed

section \<open>Bans and open sockets\<close>

text \<open>Every socket of the user that was registered when the disconnect began is gone when it ends.\<close>

lemma disconnect_user_clears:
  assumes "\<And>c h. set (registered (race c h)) \<subseteq> set (registered h) \<union> new" and "new \<inter> set (registered h) = {}"
    and "conn \<in> set (registered h)" and "owned_by h user_id conn"
  shows "conn \<notin> set (registered (snd (disconnect_user race user_id h)))"
proof -
  have fold: "set (registered (fold (\<lambda>c h. hub_unregister c (race c h)) cs g)) \<subseteq> (set (registered g) \<union> new) - (set cs - new)" for cs g
  proof (induction cs arbitrary: g)
    case (Cons c cs)
    have "set (registered (hub_unregister c (race c g))) \<subseteq> (set (registered g) \<union> new) - {c}" using assms(1) [of c g] by auto
    with Cons.IH [of "hub_unregister c (race c g)"] show ?case by auto
  qed simp
  have "conn \<in> set (filter (owned_by h user_id) (registered h))" "conn \<notin> new" using assms(2-4) by auto
  with fold [of "filter (owned_by h user_id) (registered h)" h] show ?thesis by (auto simp: disconnect_user_def Let_def)
qed

text \<open>A ban whose disconnect runs between the session check of a handshake and its registration misses
  that socket, and a send does not look at the account again.\<close>

lemma sends_ignore_the_account_row:
  assumes "se_race env = id" and "se_race_blocks env = id"
  shows "fst (handle_send env u cmid cid body r og ms (d\<lparr>users := us\<rparr>)) = fst (handle_send env u cmid cid body r og ms d)"
proof -
  have f: "readable_predicate (d\<lparr>users := us\<rparr>) = readable_predicate d" "get_membership (d\<lparr>users := us\<rparr>) = get_membership d"
    "get_message (d\<lparr>users := us\<rparr>) = get_message d" "is_blocked_between (d\<lparr>users := us\<rparr>) = is_blocked_between d"
    by (simp_all add: fun_eq_iff readable_predicate_def has_membership_def get_membership_def get_message_def is_blocked_between_def)
  have ch: "channels (d\<lparr>users := us\<rparr>) = channels d" by simp
  have g: "readable_channel (d\<lparr>users := us\<rparr>) = readable_channel d" "can_post (d\<lparr>users := us\<rparr>) = can_post d"
    "reply_gate env (d\<lparr>users := us\<rparr>) = reply_gate env d"
    by ((intro ext, simp only: readable_channel_def can_post_def reply_gate_def f ch)+)
  have b: "blocked_pair_user_ids (e\<lparr>users := us\<rparr>) i = blocked_pair_user_ids e i" for e i by (simp add: blocked_pair_user_ids_def)
  have k: "record_origin id now k1 k2 i og (d\<lparr>users := us\<rparr>) = map_sum id (users_update (\<lambda>_. us)) (record_origin id now k1 k2 i og d)" for now k1 k2 i og
    by (auto simp: record_origin_def record_signing_key_def insert_signing_key_def get_key_def touch_key_def Let_def
        split: option.splits json.splits sum.splits)
  have m: "insert_message row (e\<lparr>users := us\<rparr>) = map_sum id (users_update (\<lambda>_. us)) (insert_message row e)" for row e
    by (simp add: insert_message_def)
  have q: "message_by_client_id (d\<lparr>users := us\<rparr>) = message_by_client_id d" "dm_send_blocked (d\<lparr>users := us\<rparr>) = dm_send_blocked d"
    by (simp add: message_by_client_id_def fun_eq_iff, (intro ext, simp only: dm_send_blocked_def b))
  have c: "create_outbound id now i k1 k2 u c body cmid t o' ms (d\<lparr>users := us\<rparr>) =
      map_sum id (map_prod id (users_update (\<lambda>_. us))) (create_outbound id now i k1 k2 u c body cmid t o' ms d)" for now i k1 k2 c t o' ms
    by (simp add: create_outbound_def q k m Let_def split: option.split sum.split)
  show ?thesis
    by (simp add: handle_send_def g c assms b Let_def split: option.split sum.split send_error.split prod.split)
qed

theorem ban_during_handshake_survives:
  assumes "resolve_session_user dec now token ''access'' d = Inr u"
  shows "\<exists>h'. ws_open dec now token conn (\<lambda>h. snd (disconnect_user race (u_id u) h)) d h = Inr (u, h') \<and>
    conn \<in> set (registered h') \<and> owned_by h' (u_id u) conn"
  using assms by (simp add: ws_open_def hub_register_def owned_by_def)

end
