(* ===== verification/Bus.thy ===== *)
theory Bus
  imports Realtime "HOL-Library.Multiset"
begin

text \<open>The bus side: the payload codec (\<open>aiko/payload.py\<close>), the topology names
  (\<open>aiko/topology.py\<close>), the actor that keeps one relay subscription per channel
  (\<open>aiko/client.py\<close>), and what the gateway does with what arrives: ingest and the ordered
  queue of channel adds (\<open>main.py\<close>). The framework's parser and the JSON parser are
  arguments; the framework's handler table is the list of calls the actor makes.\<close>

section \<open>The payload\<close>

datatype float_outcome = FloatOf instant | FloatRefused | FloatOverflow

text \<open>\<open>float(value)\<close> in microseconds. An integer overflows from the midpoint between the largest
  double and the next power of two; \<open>rnd\<close> rounds a smaller one, \<open>num\<close> reads a decimal text. An
  infinite or NaN float stands as an instant outside the calendar.\<close>

definition FLOAT_LIMIT :: int where "FLOAT_LIMIT = 2 ^ 1024 - 2 ^ 970"

definition py_float :: "(int \<Rightarrow> instant) \<Rightarrow> (string \<Rightarrow> instant option) \<Rightarrow> json \<Rightarrow> float_outcome" where
  "py_float rnd num v =
     (case v of
        JInt i \<Rightarrow> if FLOAT_LIMIT \<le> \<bar>i\<bar> then FloatOverflow else FloatOf (rnd i)
      | JBool b \<Rightarrow> FloatOf (if b then 1000000 else 0)
      | JFloat s \<Rightarrow> (case num s of None \<Rightarrow> FloatRefused | Some t \<Rightarrow> FloatOf t)
      | JStr s \<Rightarrow> (case num s of None \<Rightarrow> FloatRefused | Some t \<Rightarrow> FloatOf t)
      | _ \<Rightarrow> FloatRefused)"

datatype payload_error = PayloadOverflow

definition coerce_timestamp :: "(int \<Rightarrow> instant) \<Rightarrow> (string \<Rightarrow> instant option) \<Rightarrow> json \<Rightarrow> payload_error + instant option" where
  "coerce_timestamp rnd num v =
     (case v of
        JNull \<Rightarrow> Inr None
      | _ \<Rightarrow> (case py_float rnd num v of
                FloatOf t \<Rightarrow> Inr (Some t) | FloatRefused \<Rightarrow> Inr None | FloatOverflow \<Rightarrow> Inl PayloadOverflow))"

definition str_or :: "string option \<Rightarrow> json \<Rightarrow> string option" where
  "str_or dflt v = (case v of JStr s \<Rightarrow> Some s | _ \<Rightarrow> dflt)"

definition structured :: "(int \<Rightarrow> instant) \<Rightarrow> (string \<Rightarrow> instant option) \<Rightarrow> json \<Rightarrow> string \<Rightarrow> string option \<Rightarrow>
    payload_error + inbound_message option" where
  "structured rnd num flds payload_in fallback_channel =
     (case flds of
        JObj kvs \<Rightarrow>
          (case get_key_of kvs ''message'' of
             JStr message \<Rightarrow>
               (case coerce_timestamp rnd num (get_key_of kvs ''timestamp'') of
                  Inl e \<Rightarrow> Inl e
                | Inr ts \<Rightarrow> Inr (Some \<lparr>im_username = str_or None (get_key_of kvs ''username''),
                    im_channel = str_or fallback_channel (get_key_of kvs ''channel''), im_timestamp = ts,
                    im_message = message, im_raw = payload_in\<rparr>))
           | _ \<Rightarrow> Inr None)
      | _ \<Rightarrow> Inr None)"

definition bare_message :: "string \<Rightarrow> string option \<Rightarrow> inbound_message" where
  "bare_message payload_in fallback_channel = \<lparr>im_username = None, im_channel = fallback_channel,
     im_timestamp = None, im_message = payload_in, im_raw = payload_in\<rparr>"

text \<open>\<open>aiko_parse\<close> is the framework's parser (\<open>None\<close>: missing or raising), \<open>loads\<close> the JSON parser.
  Every exception of the first tier falls through; the second tier is outside the \<open>try\<close>.\<close>

definition parse_payload :: "(string \<Rightarrow> (string \<times> json) option) \<Rightarrow> (string \<Rightarrow> json option) \<Rightarrow> (int \<Rightarrow> instant) \<Rightarrow>
    (string \<Rightarrow> instant option) \<Rightarrow> string \<Rightarrow> string option \<Rightarrow> payload_error + inbound_message" where
  "parse_payload aiko_parse loads rnd num payload_in fallback_channel =
     (case (case aiko_parse payload_in of
              None \<Rightarrow> None
            | Some (command, flds) \<Rightarrow>
                if command \<noteq> ''message'' then None
                else (case structured rnd num flds payload_in fallback_channel of Inl _ \<Rightarrow> None | Inr r \<Rightarrow> r)) of
        Some msg \<Rightarrow> Inr msg
      | None \<Rightarrow>
          (case structured rnd num (case loads payload_in of None \<Rightarrow> JNull | Some data \<Rightarrow> data) payload_in fallback_channel of
             Inl e \<Rightarrow> Inl e
           | Inr (Some msg) \<Rightarrow> Inr msg
           | Inr None \<Rightarrow> Inr (bare_message payload_in fallback_channel)))"

section \<open>Topology names\<close>

definition CHANNEL_LIST_KEY :: string where "CHANNEL_LIST_KEY = ''channel_list''"

text \<open>\<open>value[n]\<close> for the two indices the code uses; \<open>None\<close> is one of the caught exceptions.\<close>

definition py_index :: "nat \<Rightarrow> json \<Rightarrow> json option" where
  "py_index n v = (case v of
      JList xs \<Rightarrow> if n < length xs then Some (xs ! n) else None
    | JStr s \<Rightarrow> if n < length s then Some (JStr [s ! n]) else None
    | _ \<Rightarrow> None)"

definition entry_name :: "string \<times> json \<Rightarrow> string" where
  "entry_name kv = (case kv of (key, v) \<Rightarrow>
     (case Option.bind (py_index 0 v) (py_index 1) of
        Some (JStr candidate) \<Rightarrow> if candidate \<noteq> [] then candidate else key
      | _ \<Rightarrow> key))"

definition parse_channel_names :: "(string \<times> json) list option \<Rightarrow> string set" where
  "parse_channel_names channel_list = set (map entry_name (case channel_list of None \<Rightarrow> [] | Some kvs \<Rightarrow> kvs))"

definition channel_name_from_item :: "string option \<Rightarrow> string option" where
  "channel_name_from_item item_name =
     (let prefix = CHANNEL_LIST_KEY @ ''.'' in
      case item_name of
        None \<Rightarrow> None
      | Some item \<Rightarrow>
          if item \<noteq> [] \<and> starts_with prefix item
          then (let rest = drop (length prefix) item in if rest = [] then None else Some rest)
          else None)"

section \<open>The actor\<close>

record actor =
  ac_chat_server :: bool
  ac_topic_path :: "string option"
  ac_channels :: "string list"
  ac_subscribed :: "(string \<times> string) list"
  ac_consumer :: "string option"

datatype bus_call =
    AddHandler string
  | RemoveHandler string
  | Attach string
  | Terminate
  | ChannelAdded string
  | ChannelRemoved string

text \<open>\<open>adds topic\<close> is whether the framework's \<open>add_message_handler\<close> returns; the flag of a result is
  whether the operation raised.\<close>

definition subscribe_channel :: "(string \<Rightarrow> bool) \<Rightarrow> string \<Rightarrow> actor \<Rightarrow> (bool \<times> bus_call list) \<times> actor" where
  "subscribe_channel adds channel a =
     (case ac_topic_path a of
        None \<Rightarrow> ((False, []), a)
      | Some path \<Rightarrow>
          if channel \<in> set (map fst (ac_subscribed a)) then ((False, []), a)
          else let topic = path @ ''/'' @ channel in
            if \<not> adds topic then ((True, []), a)
            else ((False, [AddHandler topic]), a\<lparr>ac_subscribed := ac_subscribed a @ [(channel, topic)]\<rparr>))"

definition unsubscribe_channel :: "string \<Rightarrow> actor \<Rightarrow> bus_call list \<times> actor" where
  "unsubscribe_channel channel a =
     (case map_of (ac_subscribed a) channel of
        None \<Rightarrow> ([], a)
      | Some topic \<Rightarrow> ([RemoveHandler topic], a\<lparr>ac_subscribed := filter (\<lambda>(c, _). c \<noteq> channel) (ac_subscribed a)\<rparr>))"

definition teardown_attachments :: "actor \<Rightarrow> bus_call list \<times> actor" where
  "teardown_attachments a =
     (map (\<lambda>(_, topic). RemoveHandler topic) (ac_subscribed a) @ (case ac_consumer a of None \<Rightarrow> [] | Some _ \<Rightarrow> [Terminate]),
      a\<lparr>ac_subscribed := [], ac_consumer := None\<rparr>)"

fun subscribe_all :: "(string \<Rightarrow> bool) \<Rightarrow> string list \<Rightarrow> actor \<Rightarrow> (bool \<times> bus_call list) \<times> actor" where
  "subscribe_all adds [] a = ((False, []), a)"
| "subscribe_all adds (c # cs) a =
     (case subscribe_channel adds c a of
        ((True, calls), a') \<Rightarrow> ((True, calls), a')
      | ((False, calls), a') \<Rightarrow>
          (case subscribe_all adds cs a' of ((raised, more'), a'') \<Rightarrow> ((raised, calls @ more'), a'')))"

definition discovery_add :: "(string \<Rightarrow> bool) \<Rightarrow> string \<Rightarrow> actor \<Rightarrow> (bool \<times> bus_call list) \<times> actor" where
  "discovery_add adds path a =
     (case teardown_attachments a of
        (calls, a1) \<Rightarrow>
          (case subscribe_all adds (ac_channels a1) (a1\<lparr>ac_topic_path := Some path, ac_chat_server := True\<rparr>) of
             ((True, more'), a2) \<Rightarrow> ((True, calls @ more'), a2)
           | ((False, more'), a2) \<Rightarrow>
               let control = path @ ''/control'' in
               ((False, calls @ more' @ [Attach control]), a2\<lparr>ac_consumer := Some control\<rparr>)))"

definition discovery_remove :: "actor \<Rightarrow> bus_call list \<times> actor" where
  "discovery_remove a = teardown_attachments (a\<lparr>ac_chat_server := False, ac_topic_path := None\<rparr>)"

definition on_share_event :: "(string \<Rightarrow> bool) \<Rightarrow> string \<Rightarrow> string option \<Rightarrow> actor \<Rightarrow> bus_call list \<times> actor" where
  "on_share_event adds command item_name a =
     (case channel_name_from_item item_name of
        None \<Rightarrow> ([], a)
      | Some name \<Rightarrow>
          if command = ''add'' \<or> command = ''update'' then
            (case subscribe_channel adds name a of
               ((raised, calls), a') \<Rightarrow> (calls @ (if raised then [] else [ChannelAdded name]), a'))
          else if command = ''remove'' then
            (case unsubscribe_channel name a of (calls, a') \<Rightarrow> (calls @ [ChannelRemoved name], a'))
          else ([], a))"

text \<open>\<open>topic.rsplit("/", 1)[-1]\<close>.\<close>

definition topic_channel :: "string \<Rightarrow> string" where
  "topic_channel topic = rev (takeWhile (\<lambda>c. c \<noteq> CHR ''/'') (rev topic))"

definition actor_send :: "string \<Rightarrow> string \<Rightarrow> string \<Rightarrow> actor \<Rightarrow> (string \<times> string list \<times> string) option" where
  "actor_send username channel txt a = (if ac_chat_server a then Some (username, [channel], txt) else None)"

text \<open>What discovery and the share do to the actor.\<close>

datatype bus_event = Discovered string | Lost | Share string "string option"

fun actor_step :: "(string \<Rightarrow> bool) \<Rightarrow> bus_event \<Rightarrow> actor \<Rightarrow> bus_call list \<times> actor" where
  "actor_step adds (Discovered path) a = (case discovery_add adds path a of ((_, calls), a') \<Rightarrow> (calls, a'))"
| "actor_step adds Lost a = discovery_remove a"
| "actor_step adds (Share command item) a = on_share_event adds command item a"

fun actor_run :: "(string \<Rightarrow> bool) \<Rightarrow> bus_event list \<Rightarrow> actor \<Rightarrow> bus_call list \<times> actor" where
  "actor_run adds [] a = ([], a)"
| "actor_run adds (e # es) a =
     (case actor_step adds e a of (calls, a') \<Rightarrow>
        (case actor_run adds es a' of (more', a'') \<Rightarrow> (calls @ more', a'')))"

section \<open>The gateway's side\<close>

text \<open>The queue of channel names the actor's callback fills from its thread; \<open>None\<close> before the
  lifespan created it. A removal enqueues nothing.\<close>

record gateway =
  gw_loop :: bool
  gw_events :: "string list option"

definition on_channel_add :: "string \<Rightarrow> gateway \<Rightarrow> gateway" where
  "on_channel_add aiko_channel g =
     (if \<not> gw_loop g then g
      else case gw_events g of None \<Rightarrow> g | Some q \<Rightarrow> g\<lparr>gw_events := Some (q @ [aiko_channel])\<rparr>)"

definition on_channel_remove :: "string \<Rightarrow> gateway \<Rightarrow> gateway" where
  "on_channel_remove aiko_channel g = g"

fun notify :: "bus_call \<Rightarrow> gateway \<Rightarrow> gateway" where
  "notify (ChannelAdded name) g = on_channel_add name g"
| "notify (ChannelRemoved name) g = on_channel_remove name g"
| "notify _ g = g"

text \<open>One turn of the worker: the head of the queue is upserted; a refused or failing name is
  logged and dropped.\<close>

definition worker_turn :: "instant \<Rightarrow> ident \<Rightarrow> gateway \<Rightarrow> db \<Rightarrow> gateway \<times> db" where
  "worker_turn now new_id g d =
     (case gw_events g of
        Some (aiko_channel # rest) \<Rightarrow>
          (g\<lparr>gw_events := Some rest\<rparr>,
           (case upsert_channel now new_id aiko_channel d of Inl _ \<Rightarrow> d | Inr (_, d') \<Rightarrow> d'))
      | _ \<Rightarrow> (g, d))"

text \<open>\<open>_ingest\<close>: the fan-out it makes, the echo state and the store. \<open>race\<close> is what other sessions commit
  between the commit of the row and the read of the blocks.\<close>

definition ingest :: "(instant \<Rightarrow> string) \<Rightarrow> real \<Rightarrow> instant \<Rightarrow> ident \<Rightarrow> ident \<Rightarrow> (db \<Rightarrow> db) \<Rightarrow> inbound_message \<Rightarrow>
    seen \<Rightarrow> db \<Rightarrow> effect list \<times> seen \<times> db" where
  "ingest isoformat clock now new_ch_id new_id race msg s d =
     (case (case truthy (im_channel msg) of
              None \<Rightarrow> (False, s)
            | Some ch \<Rightarrow> is_own_echo clock ch (im_username msg) (im_message msg) s) of
        (True, s') \<Rightarrow> ([], s', d)
      | (False, s') \<Rightarrow>
          (case persist_inbound now new_ch_id new_id msg d of
             Inl _ \<Rightarrow> ([], s', d)
           | Inr (None, d') \<Rightarrow> ([], s', d')
           | Inr (Some row, d') \<Rightarrow>
               let d'' = race d';
                   exclude = (case truthy (m_sender_user_id row) of
                       None \<Rightarrow> [] | Some sender \<Rightarrow> blocked_pair_user_ids d'' sender)
               in ([Fanout (m_channel_id row) (message_frame (message_view isoformat [] row)) exclude], s', d'')))"

text \<open>A payload as it arrives on a subscribed topic; before the loop is known the message is dropped, and
  an exception of the parser escapes to the framework.\<close>

definition on_payload :: "(string \<Rightarrow> (string \<times> json) option) \<Rightarrow> (string \<Rightarrow> json option) \<Rightarrow> (int \<Rightarrow> instant) \<Rightarrow>
    (string \<Rightarrow> instant option) \<Rightarrow> string \<Rightarrow> string \<Rightarrow> payload_error + inbound_message" where
  "on_payload aiko_parse loads rnd num topic payload_in =
     parse_payload aiko_parse loads rnd num payload_in (Some (topic_channel topic))"

section \<open>The payload never raises, but for an integer beyond the doubles\<close>

lemma coerce_overflow:
  "coerce_timestamp rnd num v = Inl PayloadOverflow \<longleftrightarrow> (\<exists>i. v = JInt i \<and> FLOAT_LIMIT \<le> \<bar>i\<bar>)"
  by (cases v) (auto simp: coerce_timestamp_def py_float_def split: option.splits)

lemma structured_cases:
  "structured rnd num f p fb = Inl PayloadOverflow \<longleftrightarrow>
     (\<exists>kvs m i. f = JObj kvs \<and> get_key_of kvs ''message'' = JStr m \<and> get_key_of kvs ''timestamp'' = JInt i \<and> FLOAT_LIMIT \<le> \<bar>i\<bar>)"
proof (cases f)
  case (JObj kvs)
  have one: "e = PayloadOverflow" for e by (cases e)
  show ?thesis
  proof (cases "get_key_of kvs ''message''")
    case (JStr m)
    have "structured rnd num f p fb = Inl PayloadOverflow \<longleftrightarrow> coerce_timestamp rnd num (get_key_of kvs ''timestamp'') = Inl PayloadOverflow"
      by (simp add: structured_def JObj JStr one [of "projl _"] split: sum.split)
    then show ?thesis unfolding coerce_overflow by (simp add: JObj JStr)
  qed (simp_all add: structured_def JObj)
qed (simp_all add: structured_def)

lemma parse_payload_tiers:
  "parse_payload aiko_parse loads rnd num p fb =
     (if \<exists>flds msg. aiko_parse p = Some (''message'', flds) \<and> structured rnd num flds p fb = Inr (Some msg)
      then Inr (the (projr (structured rnd num (snd (the (aiko_parse p))) p fb)))
      else case structured rnd num (case loads p of None \<Rightarrow> JNull | Some data \<Rightarrow> data) p fb of
             Inl e \<Rightarrow> Inl e | Inr (Some msg) \<Rightarrow> Inr msg | Inr None \<Rightarrow> Inr (bare_message p fb))"
  by (auto simp: parse_payload_def split: option.splits prod.splits sum.splits)

text \<open>The parser of bus payloads returns a message for every payload but one kind: a payload the
  framework's parser does not read as a chat message, whose JSON is an object with a text body and
  an integer timestamp beyond the range of a double.\<close>

theorem parse_payload_raises_exactly:
  "(\<exists>e. parse_payload aiko_parse loads rnd num p fb = Inl e) \<longleftrightarrow>
     \<not> (\<exists>flds msg. aiko_parse p = Some (''message'', flds) \<and> structured rnd num flds p fb = Inr (Some msg)) \<and>
     (\<exists>kvs m i. loads p = Some (JObj kvs) \<and> get_key_of kvs ''message'' = JStr m \<and>
        get_key_of kvs ''timestamp'' = JInt i \<and> 2 ^ 1024 - 2 ^ 970 \<le> \<bar>i\<bar>)"
  (is "?raises \<longleftrightarrow> \<not> ?first \<and> ?big")
proof -
  let ?data = "case loads p of None \<Rightarrow> JNull | Some data \<Rightarrow> data"
  have big: "?big \<longleftrightarrow> structured rnd num ?data p fb = Inl PayloadOverflow"
    unfolding structured_cases FLOAT_LIMIT_def by (cases "loads p") auto
  have one: "e = PayloadOverflow" for e by (cases e)
  show ?thesis unfolding parse_payload_tiers big
    by (cases "structured rnd num ?data p fb") (auto split: option.splits intro: one)
qed

section \<open>The relay table\<close>

text \<open>What the actor is for: while a chat server is attached, the channels relayed are the configured ones
  and those the share has added since, less those it removed.\<close>

fun relay_spec :: "string list \<Rightarrow> bus_event \<Rightarrow> (string \<times> string set) option \<Rightarrow> (string \<times> string set) option" where
  "relay_spec base (Discovered path) r = Some (path, set base)"
| "relay_spec base Lost r = None"
| "relay_spec base (Share command item) r =
     (case (r, channel_name_from_item item) of
        (Some (path, chans), Some name) \<Rightarrow>
          if command = ''add'' \<or> command = ''update'' then Some (path, insert name chans)
          else if command = ''remove'' then Some (path, chans - {name}) else r
      | _ \<Rightarrow> r)"

definition relayed :: "actor \<Rightarrow> (string \<times> string set) option" where
  "relayed a = map_option (\<lambda>path. (path, fst ` set (ac_subscribed a))) (ac_topic_path a)"

text \<open>The framework's table of payload handlers after a run of calls.\<close>

fun handle_call :: "bus_call \<Rightarrow> string multiset \<Rightarrow> string multiset" where
  "handle_call (AddHandler topic) H = add_mset topic H"
| "handle_call (RemoveHandler topic) H = H - {#topic#}"
| "handle_call _ H = H"

definition actor_ok :: "actor \<Rightarrow> bool" where
  "actor_ok a \<longleftrightarrow> distinct (map fst (ac_subscribed a)) \<and>
     (\<forall>(c, t) \<in> set (ac_subscribed a). \<exists>path. ac_topic_path a = Some path \<and> t = path @ ''/'' @ c)"

abbreviation topics :: "actor \<Rightarrow> string multiset" where
  "topics a \<equiv> mset (map snd (ac_subscribed a))"

definition idle_actor :: "string list \<Rightarrow> actor" where
  "idle_actor base = \<lparr>ac_chat_server = False, ac_topic_path = None, ac_channels = base, ac_subscribed = [], ac_consumer = None\<rparr>"

lemma subscribe_channel_ok:
  assumes "subscribe_channel adds c a = ((raised, calls), a')" and "actor_ok a"
  shows "actor_ok a' \<and> fold handle_call calls (topics a) = topics a' \<and> ac_channels a' = ac_channels a \<and> ac_topic_path a' = ac_topic_path a \<and>
    (adds = (\<lambda>_. True) \<longrightarrow> \<not> raised \<and> relayed a' = map_option (\<lambda>(path, S). (path, insert c S)) (relayed a))"
  using assms
  by (auto simp: subscribe_channel_def actor_ok_def relayed_def Let_def split: option.splits if_splits)

lemma unsubscribe_channel_ok:
  assumes "unsubscribe_channel c a = (calls, a')" and "actor_ok a"
  shows "actor_ok a' \<and> fold handle_call calls (topics a) = topics a' \<and> ac_channels a' = ac_channels a \<and> ac_topic_path a' = ac_topic_path a \<and>
    relayed a' = map_option (\<lambda>(path, S). (path, S - {c})) (relayed a)"
proof -
  have del: "mset (map snd xs) - {#t#} = mset (map snd (filter (\<lambda>(x, _). x \<noteq> c) xs))"
    if "distinct (map fst xs)" "map_of xs c = Some t" for xs :: "(string \<times> string) list" and t
    using that
  proof (induction xs)
    case (Cons x xs)
    show ?case
    proof (cases "fst x = c")
      case True
      then have "\<forall>y \<in> set xs. fst y \<noteq> c" using Cons.prems(1) by (metis distinct.simps(2) image_eqI list.set_map list.simps(9))
      then have "filter (\<lambda>y. fst y \<noteq> c) xs = xs" by (intro filter_True) auto
      with True Cons.prems show ?thesis by (simp add: case_prod_unfold del: mset_filter)
    next
      case False
      with Cons.prems have "map_of xs c = Some t" by simp
      then have "t \<in># mset (map snd xs)" by (auto dest!: map_of_SomeD intro!: image_eqI [of t snd])
      with Cons False \<open>map_of xs c = Some t\<close> show ?thesis by (auto simp: case_prod_beta add_mset_remove_trivial_If)
    qed
  qed simp
  show ?thesis
  proof (cases "map_of (ac_subscribed a) c")
    case None
    then have "c \<notin> fst ` set (ac_subscribed a)" by (simp add: map_of_eq_None_iff)
    with None assms show ?thesis by (cases "ac_topic_path a") (auto simp: unsubscribe_channel_def relayed_def)
  next
    case (Some t)
    with assms have r: "calls = [RemoveHandler t]" "a' = a\<lparr>ac_subscribed := filter (\<lambda>(x, _). x \<noteq> c) (ac_subscribed a)\<rparr>"
      by (auto simp: unsubscribe_channel_def)
    have "fold handle_call calls (topics a) = topics a'"
      using del [OF _ Some] assms(2) by (simp add: r actor_ok_def)
    moreover have "actor_ok a'" using assms(2) by (auto simp: r actor_ok_def distinct_map_filter)
    moreover have "fst ` set (ac_subscribed a') = fst ` set (ac_subscribed a) - {c}" by (force simp: r)
    ultimately show ?thesis using r by (cases "ac_topic_path a") (simp_all add: relayed_def)
  qed
qed

lemma teardown_ok:
  assumes "teardown_attachments a = (calls, a')"
  shows "a' = a\<lparr>ac_subscribed := [], ac_consumer := None\<rparr> \<and> fold handle_call calls (topics a) = {#}"
proof -
  have "fold handle_call (map (\<lambda>(_, t). RemoveHandler t) xs) (mset (map snd xs) + H) = H" for xs :: "(string \<times> string) list" and H
    by (induction xs) (auto simp: case_prod_beta)
  from this [of "ac_subscribed a" "{#}"] assms show ?thesis
    by (auto simp: teardown_attachments_def split: option.splits)
qed

lemma subscribe_all_ok:
  assumes "subscribe_all adds cs a = ((raised, calls), a')" and "actor_ok a"
  shows "actor_ok a' \<and> fold handle_call calls (topics a) = topics a' \<and> ac_channels a' = ac_channels a \<and> ac_topic_path a' = ac_topic_path a \<and>
    (adds = (\<lambda>_. True) \<longrightarrow> \<not> raised \<and> relayed a' = map_option (\<lambda>(path, S). (path, set cs \<union> S)) (relayed a))"
  using assms
proof (induction cs arbitrary: a raised calls a')
  case Nil
  then show ?case by (auto simp: relayed_def option.map_comp comp_def)
next
  case (Cons c cs)
  obtain r1 calls1 a1 where s: "subscribe_channel adds c a = ((r1, calls1), a1)" by (metis surj_pair)
  note ok1 = subscribe_channel_ok [OF s Cons.prems(2)]
  show ?case
  proof (cases r1)
    case True
    with Cons.prems(1) s ok1 show ?thesis by auto
  next
    case False
    obtain r2 calls2 a2 where l: "subscribe_all adds cs a1 = ((r2, calls2), a2)" by (metis surj_pair)
    have eq: "raised = r2" "calls = calls1 @ calls2" "a' = a2" using Cons.prems(1) s l False by simp_all
    have "actor_ok a2 \<and> fold handle_call calls2 (topics a1) = topics a2 \<and> ac_channels a2 = ac_channels a1 \<and>
        ac_topic_path a2 = ac_topic_path a1 \<and>
        (adds = (\<lambda>_. True) \<longrightarrow> \<not> r2 \<and> relayed a2 = map_option (\<lambda>(path, S). (path, set cs \<union> S)) (relayed a1))"
      using Cons.IH [OF l] ok1 by blast
    with ok1 show ?thesis unfolding eq by (auto simp: option.map_comp comp_def case_prod_beta)
  qed
qed

lemma discovery_add_ok:
  assumes "discovery_add adds path a = ((raised, calls), a')"
  shows "actor_ok a' \<and> fold handle_call calls (topics a) = topics a' \<and> ac_channels a' = ac_channels a \<and>
    (adds = (\<lambda>_. True) \<longrightarrow> relayed a' = Some (path, set (ac_channels a)))"
proof -
  obtain calls1 a1 where td: "teardown_attachments a = (calls1, a1)" by (metis surj_pair)
  note t1 = teardown_ok [OF td]
  let ?a = "a1\<lparr>ac_topic_path := Some path, ac_chat_server := True\<rparr>"
  obtain r2 calls2 a2 where sa: "subscribe_all adds (ac_channels a1) ?a = ((r2, calls2), a2)" by (metis surj_pair)
  have sub: "ac_subscribed ?a = []" "ac_channels ?a = ac_channels a" using t1 by simp_all
  then have ok: "actor_ok ?a" by (simp add: actor_ok_def)
  note s2 = subscribe_all_ok [OF sa ok]
  have eq: "calls = calls1 @ calls2 @ (if r2 then [] else [Attach (path @ ''/control'')])"
      "ac_subscribed a' = ac_subscribed a2" "ac_channels a' = ac_channels a2" "ac_topic_path a' = ac_topic_path a2"
    using assms by (auto simp: discovery_add_def td sa Let_def split: bool.splits)
  have "fold handle_call calls (topics a) = topics a'"
    using t1 s2 sub eq by (simp add: fold_append)
  moreover have "actor_ok a' \<longleftrightarrow> actor_ok a2" "relayed a' = relayed a2" by (simp_all add: actor_ok_def relayed_def eq(2,4))
  moreover have "ac_channels a' = ac_channels a" using s2 eq(3) sub by simp
  moreover have "relayed ?a = Some (path, {})" using sub by (simp add: relayed_def)
  ultimately show ?thesis using s2 t1 by auto
qed

lemma actor_step_ok:
  assumes "actor_step adds e a = (calls, a')" and "actor_ok a"
  shows "actor_ok a' \<and> fold handle_call calls (topics a) = topics a' \<and> ac_channels a' = ac_channels a \<and>
    (adds = (\<lambda>_. True) \<longrightarrow> relayed a' = relay_spec (ac_channels a) e (relayed a))"
proof (cases e)
  case (Discovered path)
  obtain raised where "discovery_add adds path a = ((raised, calls), a')"
    using assms(1) by (auto simp: Discovered split: prod.splits)
  from discovery_add_ok [OF this] show ?thesis by (auto simp: Discovered)
next
  case Lost
  have "teardown_attachments (a\<lparr>ac_chat_server := False, ac_topic_path := None\<rparr>) = (calls, a')"
    using assms(1) by (simp add: Lost discovery_remove_def)
  from teardown_ok [OF this] show ?thesis by (auto simp: Lost actor_ok_def relayed_def)
next
  case (Share command item)
  have none: "ac_topic_path a = None \<Longrightarrow> ac_subscribed a = []" using assms(2) by (cases "ac_subscribed a") (auto simp: actor_ok_def)
  have sh: "on_share_event adds command item a = (calls, a')" using assms(1) by (simp add: Share)
  show ?thesis
  proof (cases "channel_name_from_item item")
    case None
    then show ?thesis using sh assms(2) by (auto simp: on_share_event_def Share split: option.splits)
  next
    case (Some name)
    consider (add) "command = ''add'' \<or> command = ''update''" | (remove) "command = ''remove''"
      | (other) "command \<noteq> ''add'' \<and> command \<noteq> ''update'' \<and> command \<noteq> ''remove''" by blast
    then show ?thesis
    proof cases
      case add
      obtain raised calls1 where s: "subscribe_channel adds name a = ((raised, calls1), a')"
          "calls = calls1 @ (if raised then [] else [ChannelAdded name])"
        using sh Some add by (auto simp: on_share_event_def split: prod.splits)
      from subscribe_channel_ok [OF s(1) assms(2)] s(2) add Some show ?thesis
        by (cases "relayed a") (auto simp: Share)
    next
      case remove
      obtain calls1 where s: "unsubscribe_channel name a = (calls1, a')" "calls = calls1 @ [ChannelRemoved name]"
        using sh Some remove by (auto simp: on_share_event_def split: prod.splits)
      from unsubscribe_channel_ok [OF s(1) assms(2)] s(2) remove Some show ?thesis
        by (cases "relayed a") (auto simp: Share)
    next
      case other
      with sh Some assms(2) show ?thesis by (auto simp: on_share_event_def Share split: option.splits)
    qed
  qed
qed

lemma actor_run_ok:
  assumes "actor_run adds es a = (calls, a')" and "actor_ok a"
  shows "actor_ok a' \<and> fold handle_call calls (topics a) = topics a' \<and> ac_channels a' = ac_channels a \<and>
    (adds = (\<lambda>_. True) \<longrightarrow> relayed a' = fold (relay_spec (ac_channels a)) es (relayed a))"
  using assms
proof (induction es arbitrary: a calls)
  case Nil then show ?case by simp
next
  case (Cons e es)
  obtain c1 a1 where s: "actor_step adds e a = (c1, a1)" by (metis surj_pair)
  obtain c2 where l: "actor_run adds es a1 = (c2, a')" "calls = c1 @ c2" using Cons.prems(1) s by (auto split: prod.splits)
  note ok = actor_step_ok [OF s Cons.prems(2)]
  note ih = Cons.IH [OF l(1)]
  from ih ok show ?case unfolding l(2) by (metis fold_append comp_apply fold_simps(2))
qed

text \<open>C31: the relay table. Whatever discovery and the share do, in any order, the framework holds exactly
  one payload handler per relayed channel, each under the attached server's path, and none while
  detached; and while the framework takes every handler, the relayed channels are exactly those of
  the specification.\<close>

theorem relay_table_exact:
  assumes "actor_run adds es (idle_actor base) = (calls, a)"
  shows "fold handle_call calls {#} = mset (map snd (ac_subscribed a)) \<and> distinct (map snd (ac_subscribed a)) \<and>
    (\<forall>(c, t) \<in> set (ac_subscribed a). \<exists>path. ac_topic_path a = Some path \<and> t = path @ ''/'' @ c) \<and>
    (adds = (\<lambda>_. True) \<longrightarrow>
      map_option (\<lambda>path. (path, fst ` set (ac_subscribed a))) (ac_topic_path a) = fold (relay_spec base) es None)"
proof -
  have "actor_ok (idle_actor base)" by (simp add: actor_ok_def idle_actor_def)
  note ok = actor_run_ok [OF assms this]
  have base: "topics (idle_actor base) = {#}" "ac_channels (idle_actor base) = base" "relayed (idle_actor base) = None"
    by (simp_all add: idle_actor_def relayed_def)
  have "x = y" if xs: "x \<in> set (ac_subscribed a)" and ys: "y \<in> set (ac_subscribed a)" and e: "snd x = snd y" for x y
    proof -
    obtain c t c' where xy: "x = (c, t)" "y = (c', t)" using e by (cases x; cases y) simp
    have all: "\<forall>(c, t) \<in> set (ac_subscribed a). \<exists>path. ac_topic_path a = Some path \<and> t = path @ ''/'' @ c"
      using ok unfolding actor_ok_def by blast
    from bspec [OF all xs] bspec [OF all ys] xy show ?thesis by auto
  qed
  then have inj: "inj_on snd (set (ac_subscribed a))" by (rule inj_onI)
  have "distinct (ac_subscribed a)" using ok by (auto simp: actor_ok_def distinct_map)
  with inj have "distinct (map snd (ac_subscribed a))" by (simp add: distinct_map)
  with ok [unfolded base, unfolded relayed_def actor_ok_def] show ?thesis by (elim conjE, intro conjI) assumption+
qed

theorem relay_table_exact_witness:
  "\<exists>calls a. actor_run (\<lambda>_. True) [Discovered ''aiko/1'', Share ''add'' (Some ''channel_list.robots''), Share ''remove'' (Some ''channel_list.general'')]
       (idle_actor [''general'']) = (calls, a) \<and>
     map_option (\<lambda>path. (path, fst ` set (ac_subscribed a))) (ac_topic_path a) = Some (''aiko/1'', {''robots''}) \<and>
     fold handle_call calls {#} = mset (map snd (ac_subscribed a))"
proof -
  let ?es = "[Discovered ''aiko/1'', Share ''add'' (Some ''channel_list.robots''), Share ''remove'' (Some ''channel_list.general'')]"
  obtain calls a where r: "actor_run (\<lambda>_. True) ?es (idle_actor [''general'']) = (calls, a)" by (metis surj_pair)
  have spec: "fold (relay_spec [''general'']) ?es None = Some (''aiko/1'', {''robots''})"
    by (simp add: channel_name_from_item_def CHANNEL_LIST_KEY_def starts_with_def insert_Diff_if)
  note exact = relay_table_exact [OF r, unfolded spec]
  show ?thesis by (rule exI [of _ calls], rule exI [of _ a], intro conjI, rule r) (use exact in \<open>simp_all only: simp_thms\<close>)
qed

section \<open>What the bus can reach\<close>

text \<open>The bus against the gateway: topology events on the actor's thread, payloads, and the turns of the
  worker, in any order.\<close>

datatype gw_event =
    Topology bus_event
  | Arrived real instant ident ident string string
  | Turn instant ident

record codec =
  co_aiko_parse :: "string \<Rightarrow> (string \<times> json) option"
  co_loads :: "string \<Rightarrow> json option"
  co_rnd :: "int \<Rightarrow> instant"
  co_num :: "string \<Rightarrow> instant option"
  co_isoformat :: "instant \<Rightarrow> string"

record world =
  wo_actor :: actor
  wo_gateway :: gateway
  wo_seen :: seen
  wo_db :: db

definition gw_step :: "codec \<Rightarrow> (string \<Rightarrow> bool) \<Rightarrow> gw_event \<Rightarrow> world \<Rightarrow> effect list \<times> world" where
  "gw_step cd adds e w =
     (case e of
        Topology b \<Rightarrow>
          (case actor_step adds b (wo_actor w) of
             (calls, a) \<Rightarrow> ([], w\<lparr>wo_actor := a, wo_gateway := fold notify calls (wo_gateway w)\<rparr>))
      | Arrived clock now i1 i2 topic payload \<Rightarrow>
          (case on_payload (co_aiko_parse cd) (co_loads cd) (co_rnd cd) (co_num cd) topic payload of
             Inl _ \<Rightarrow> ([], w)
           | Inr msg \<Rightarrow>
               if \<not> gw_loop (wo_gateway w) then ([], w)
               else (case ingest (co_isoformat cd) clock now i1 i2 id msg (wo_seen w) (wo_db w) of
                       (effs, s, d) \<Rightarrow> (effs, w\<lparr>wo_seen := s, wo_db := d\<rparr>)))
      | Turn now new_id \<Rightarrow>
          (case worker_turn now new_id (wo_gateway w) (wo_db w) of
             (g, d) \<Rightarrow> ([], w\<lparr>wo_gateway := g, wo_db := d\<rparr>)))"

fun gw_run :: "codec \<Rightarrow> (string \<Rightarrow> bool) \<Rightarrow> gw_event list \<Rightarrow> world \<Rightarrow> effect list \<times> world" where
  "gw_run cd adds [] w = ([], w)"
| "gw_run cd adds (e # es) w =
     (case gw_step cd adds e w of (effs, w') \<Rightarrow>
        (case gw_run cd adds es w' of (later, w'') \<Rightarrow> (effs @ later, w'')))"

text \<open>How a store may grow under the bus.\<close>

definition bus_grows :: "db \<Rightarrow> db \<Rightarrow> bool" where
  "bus_grows d d' \<longleftrightarrow> (\<exists>cs ms. d' = d\<lparr>channels := channels d @ cs, messages := messages d @ ms\<rparr> \<and>
     (\<forall>c \<in> set cs. ch_kind c = STANDARD \<and> \<not> ch_is_private c \<and> ch_join_policy c = INVITE_ONLY \<and> \<not> is_dm_channel_name (ch_aiko_channel c)) \<and>
     (\<forall>m \<in> set ms. m_aiko_origin m \<and> (\<exists>c \<in> set (channels d'). ch_id c = m_channel_id m \<and> ch_kind c \<noteq> DM)))"

definition checked :: "db \<Rightarrow> bool" where
  "checked d \<longleftrightarrow> (\<forall>c \<in> set (channels d). channel_checks c)"

lemma bus_grows_refl: "bus_grows d d"
  unfolding bus_grows_def by (intro exI [of _ "[]"]) simp

lemma bus_grows_trans: "bus_grows d1 d2 \<Longrightarrow> bus_grows d2 d3 \<Longrightarrow> bus_grows d1 d3"
proof -
  assume "bus_grows d1 d2" "bus_grows d2 d3"
  then obtain cs ms cs' ms' where g: "d2 = d1\<lparr>channels := channels d1 @ cs, messages := messages d1 @ ms\<rparr>"
      "\<forall>c \<in> set cs. ch_kind c = STANDARD \<and> \<not> ch_is_private c \<and> ch_join_policy c = INVITE_ONLY \<and> \<not> is_dm_channel_name (ch_aiko_channel c)"
      "\<forall>m \<in> set ms. m_aiko_origin m \<and> (\<exists>c \<in> set (channels d2). ch_id c = m_channel_id m \<and> ch_kind c \<noteq> DM)"
      "d3 = d2\<lparr>channels := channels d2 @ cs', messages := messages d2 @ ms'\<rparr>"
      "\<forall>c \<in> set cs'. ch_kind c = STANDARD \<and> \<not> ch_is_private c \<and> ch_join_policy c = INVITE_ONLY \<and> \<not> is_dm_channel_name (ch_aiko_channel c)"
      "\<forall>m \<in> set ms'. m_aiko_origin m \<and> (\<exists>c \<in> set (channels d3). ch_id c = m_channel_id m \<and> ch_kind c \<noteq> DM)"
    unfolding bus_grows_def by blast
  have "d3 = d1\<lparr>channels := channels d1 @ (cs @ cs'), messages := messages d1 @ (ms @ ms')\<rparr>" using g(1,4) by simp
  moreover have "set (channels d2) \<subseteq> set (channels d3)" using g(4) by auto
  ultimately show ?thesis unfolding bus_grows_def using g(2,3,5,6)
    by (intro exI [of _ "cs @ cs'"] exI [of _ "ms @ ms'"]) (auto 4 3)
qed

lemma dm_kind: "channel_checks c \<Longrightarrow> ch_kind c = DM \<longleftrightarrow> is_dm_channel_name (ch_aiko_channel c)"
  by (auto simp: channel_checks_def is_dm_channel_name_def starts_with_def DM_CHANNEL_PREFIX_def numeral_3_eq_3)

lemma upsert_grows:
  assumes "upsert_channel now i name d = Inr (c, d')" and "checked d"
  shows "bus_grows d d' \<and> checked d' \<and> c \<in> set (channels d') \<and> ch_kind c \<noteq> DM"
proof -
  have name: "\<not> is_dm_channel_name name" using assms(1) by (auto simp: upsert_channel_def split: if_splits)
  from assms(1) show ?thesis
  proof (cases rule: upsert_cases)
    case 1
    then have "c \<in> set (channels d)" "ch_aiko_channel c = name" by (auto simp: channel_by_aiko_def dest: find_SomeD)
    with name assms(2) show ?thesis using dm_kind bus_grows_refl 1 by (auto simp: checked_def)
  next
    case 2
    have d': "d' = d\<lparr>channels := channels d @ [c]\<rparr>" "channel_checks c" using 2(3) by (auto simp: insert_channel_def split: if_splits)
    have c: "ch_kind c = STANDARD" "\<not> ch_is_private c" "ch_join_policy c = INVITE_ONLY" "ch_aiko_channel c = name" using 2(2) by (simp_all add: bus_channel_def)
    have "bus_grows d d'" unfolding bus_grows_def
      by (rule exI [of _ "[c]"], rule exI [of _ "[]"]) (use c name in \<open>simp add: d'(1)\<close>)
    with d' c assms(2) show ?thesis by (auto simp: checked_def)
  qed
qed

lemma ingest_grows:
  assumes "ingest fmt clock now i1 i2 id msg s d = (effs, s', d')" and "checked d"
  shows "bus_grows d d' \<and> checked d'"
proof (cases "d' = d")
  case True then show ?thesis using assms(2) bus_grows_refl by simp
next
  case False
  obtain row where p: "persist_inbound now i1 i2 msg d = Inr (row, d')"
    using assms(1) False by (auto simp: ingest_def Let_def split: option.splits prod.splits bool.splits sum.splits)
  show ?thesis
  proof (cases row)
    case None
    then have "d' = d" using p
      by (auto simp: persist_inbound_def Let_def split: option.splits sum.splits channel_error.splits)
    with False show ?thesis by simp
  next
    case (Some m)
    obtain ch c d1 where u: "upsert_channel now i1 ch d = Inr (c, d1)" and ins: "insert_message m d1 = Inr d'"
        and m: "m_channel_id m = ch_id c" "m_aiko_origin m"
      using p unfolding Some
      by (auto simp: persist_inbound_def Let_def split: option.splits sum.splits channel_error.splits)
    note g = upsert_grows [OF u assms(2)]
    have d': "d' = d1\<lparr>messages := messages d1 @ [m]\<rparr>" using ins by (auto simp: insert_message_def split: if_splits)
    have "bus_grows d1 d'" unfolding bus_grows_def
      by (rule exI [of _ "[]"], rule exI [of _ "[m]"]) (use g m in \<open>auto simp: d'\<close>)
    with g bus_grows_trans have "bus_grows d d'" by blast
    moreover have "checked d'" using g by (simp add: d' checked_def)
    ultimately show ?thesis by simp
  qed
qed

lemma gw_step_grows:
  assumes "gw_step cd adds e w = (effs, w')" and "checked (wo_db w)"
  shows "bus_grows (wo_db w) (wo_db w') \<and> checked (wo_db w')"
proof (cases e)
  case (Topology b)
  then show ?thesis using assms bus_grows_refl by (auto simp: gw_step_def split: prod.splits)
next
  case (Arrived clock now i1 i2 topic payload)
  show ?thesis
  proof (cases "wo_db w' = wo_db w")
    case True then show ?thesis using assms(2) bus_grows_refl by simp
  next
    case False
    obtain msg s where "ingest (co_isoformat cd) clock now i1 i2 id msg (wo_seen w) (wo_db w) = (effs, s, wo_db w')"
      using assms(1) False by (auto simp: gw_step_def Arrived split: sum.splits if_splits prod.splits)
    from ingest_grows [OF this assms(2)] show ?thesis .
  qed
next
  case (Turn now new_id)
  show ?thesis
  proof (cases "wo_db w' = wo_db w")
    case True then show ?thesis using assms(2) bus_grows_refl by simp
  next
    case False
    obtain name c where "upsert_channel now new_id name (wo_db w) = Inr (c, wo_db w')"
      using assms(1) False by (auto simp: gw_step_def Turn worker_turn_def split: option.splits list.splits sum.splits prod.splits)
    from upsert_grows [OF this assms(2)] show ?thesis by simp
  qed
qed

lemma gw_run_grows:
  assumes "gw_run cd adds es w = (effs, w')" and "checked (wo_db w)"
  shows "bus_grows (wo_db w) (wo_db w') \<and> checked (wo_db w')"
  using assms
proof (induction es arbitrary: w effs)
  case Nil then show ?case using bus_grows_refl by auto
next
  case (Cons e es)
  obtain e1 w1 where s: "gw_step cd adds e w = (e1, w1)" by (metis surj_pair)
  obtain e2 where l: "gw_run cd adds es w1 = (e2, w')" using Cons.prems(1) s by (auto split: prod.splits)
  from gw_step_grows [OF s Cons.prems(2)] Cons.IH [OF l] bus_grows_trans show ?case by blast
qed

text \<open>C32: the bus only adds, and never to a direct message. Whatever arrives on the bus, in any order,
  removals included, the store it leaves is the old one with channels appended that are standard,
  public, joined by invitation and not named like a direct message, and messages appended that are marked as bus-born and belong
  to channels that are no direct messages; every other table, and every row there was, is untouched.\<close>

theorem bus_never_touches_direct_messages:
  assumes "gw_run cd adds es w = (effs, w')" and "schema_ok (wo_db w)"
  shows "\<exists>cs ms. wo_db w' = (wo_db w)\<lparr>channels := channels (wo_db w) @ cs, messages := messages (wo_db w) @ ms\<rparr> \<and>
     (\<forall>c \<in> set cs. ch_kind c = STANDARD \<and> \<not> ch_is_private c \<and> ch_join_policy c = INVITE_ONLY \<and> \<not> is_dm_channel_name (ch_aiko_channel c)) \<and>
     (\<forall>m \<in> set ms. m_aiko_origin m \<and> (\<exists>c \<in> set (channels (wo_db w')). ch_id c = m_channel_id m \<and> ch_kind c \<noteq> DM))"
proof -
  have "checked (wo_db w)" unfolding checked_def using schema_okD(5) [OF assms(2)] by blast
  from gw_run_grows [OF assms(1) this] show ?thesis unfolding bus_grows_def by blast
qed

definition ex_codec :: codec where
  "ex_codec = \<lparr>co_aiko_parse = (\<lambda>_. None), co_loads = (\<lambda>_. None), co_rnd = (\<lambda>i. i * 1000000), co_num = (\<lambda>_. None), co_isoformat = (\<lambda>_. [])\<rparr>"

definition ex_world :: world where
  "ex_world = \<lparr>wo_actor = idle_actor [''general''], wo_gateway = \<lparr>gw_loop = True, gw_events = Some [''dm:x'', ''news'']\<rparr>,
     wo_seen = Map.empty, wo_db = ex_bus\<rparr>"

theorem bus_never_touches_direct_messages_witness:
  "\<exists>effs w' ms. gw_run ex_codec (\<lambda>_. True) [Turn 5 ''c8'', Turn 5 ''c9'', Arrived 0 6 ''c7'' ''m1'' ''aiko/1/general'' ''hello''] ex_world = (effs, w') \<and>
     length (messages (wo_db w')) = 1 \<and> messages (wo_db w') = ms \<and>
     (\<forall>m \<in> set ms. m_aiko_origin m \<and> (\<exists>c \<in> set (channels (wo_db w')). ch_id c = m_channel_id m \<and> ch_kind c \<noteq> DM))"
proof -
  let ?es = "[Turn 5 ''c8'', Turn 5 ''c9'', Arrived 0 6 ''c7'' ''m1'' ''aiko/1/general'' ''hello'']"
  obtain effs w' where r: "gw_run ex_codec (\<lambda>_. True) ?es ex_world = (effs, w')" by (metis surj_pair)
  have ok: "schema_ok (wo_db ex_world)"
    by (simp add: ex_world_def schema_ok_def ex_bus_def empty_db_def bus_channel_def channel_checks_def plain_member_def mb_key_def)
  have one: "length (messages (wo_db w')) = 1" using r
    by (auto simp: gw_step_def worker_turn_def upsert_channel_def channel_by_aiko_def insert_channel_def is_dm_channel_name_def
        starts_with_def DM_CHANNEL_PREFIX_def bus_channel_def channel_checks_def ex_bus_def empty_db_def ex_world_def ex_codec_def
        on_payload_def parse_payload_def structured_def bare_message_def topic_channel_def ingest_def truthy_def is_own_echo_def
        persist_inbound_def insert_message_def m_client_key_def Let_def)
  obtain cs ms where g: "wo_db w' = (wo_db ex_world)\<lparr>channels := channels (wo_db ex_world) @ cs, messages := messages (wo_db ex_world) @ ms\<rparr>"
      "\<forall>m \<in> set ms. m_aiko_origin m \<and> (\<exists>c \<in> set (channels (wo_db w')). ch_id c = m_channel_id m \<and> ch_kind c \<noteq> DM)"
    using bus_never_touches_direct_messages [OF r ok] by blast
  have "messages (wo_db w') = ms" by (simp add: g(1)) (simp add: ex_world_def ex_bus_def empty_db_def)
  with r one g(2) show ?thesis by blast
qed

end
