(* ===== verification/Calls.thy ===== *)
theory Calls
  imports Sessions Decimal Moderation DirectMessages
begin

text \<open>Video calls: the room tokens the island signs for the media server
  (\<open>domain/livekit_tokens.py\<close>), the question it asks that server about a room
  (\<open>domain/livekit_rooms.py\<close>), and the two routes with their shared gate
  (\<open>rest/livekit.py\<close>). The JWT encoder, the splitting of the configured URL, the rendering of
  dates and the answer of the media server are arguments; texts are Latin-1.\<close>

section \<open>Definitions\<close>

subsection \<open>Tokens\<close>

record livekit_settings =
  lk_url :: string
  lk_api_key :: string
  lk_api_secret :: string
  lk_token_ttl_seconds :: int
  lk_island_id :: string

definition namespaced :: "livekit_settings \<Rightarrow> string \<Rightarrow> string" where
  "namespaced cfg v = (if lk_island_id cfg \<noteq> [] then lk_island_id cfg @ '':'' @ v else v)"

definition room_for_channel :: "livekit_settings \<Rightarrow> ident \<Rightarrow> string" where
  "room_for_channel cfg channel_id = namespaced cfg channel_id"

definition NBF_LEEWAY_SECONDS :: int where "NBF_LEEWAY_SECONDS = 10"
definition ADMIN_TOKEN_TTL_SECONDS :: int where "ADMIN_TOKEN_TTL_SECONDS = 60"
definition AV_PUBLISH_SOURCES :: "string list" where "AV_PUBLISH_SOURCES = [''camera'', ''microphone'']"

datatype mint_error = LiveKitNotConfigured | MintValueError

definition livekit_configured :: "livekit_settings \<Rightarrow> bool" where
  "livekit_configured cfg \<longleftrightarrow> lk_api_key cfg \<noteq> [] \<and> lk_api_secret cfg \<noteq> []"

definition room_payload :: "livekit_settings \<Rightarrow> instant \<Rightarrow> string \<Rightarrow> string \<Rightarrow> string \<Rightarrow> string \<Rightarrow> bool \<Rightarrow> bool \<Rightarrow> bool \<Rightarrow> json" where
  "room_payload cfg now jti identity display_name room can_publish can_subscribe can_publish_data =
     JObj [(''iss'', JStr (lk_api_key cfg)), (''sub'', JStr (namespaced cfg identity)), (''name'', JStr display_name),
       (''jti'', JStr jti), (''nbf'', JInt (now div second - NBF_LEEWAY_SECONDS)),
       (''exp'', JInt ((now + lk_token_ttl_seconds cfg * second) div second)),
       (''video'', JObj ([(''room'', JStr (namespaced cfg room)), (''roomJoin'', JBool True), (''canPublish'', JBool can_publish),
          (''canSubscribe'', JBool can_subscribe), (''canPublishData'', JBool can_publish_data)]
          @ (if can_publish then [(''canPublishSources'', JList (map JStr AV_PUBLISH_SOURCES))] else [])))]"

definition blank :: "string \<Rightarrow> bool" where
  "blank s \<longleftrightarrow> s = [] \<or> py_strip s = []"

text \<open>\<open>enc payload secret\<close> is \<open>jwt.encode\<close> with HS256.\<close>

definition mint_room_token :: "(json \<Rightarrow> string \<Rightarrow> string) \<Rightarrow> livekit_settings \<Rightarrow> instant \<Rightarrow> string \<Rightarrow> string \<Rightarrow> string \<Rightarrow> string \<Rightarrow>
    bool \<Rightarrow> bool \<Rightarrow> bool \<Rightarrow> mint_error + string" where
  "mint_room_token enc cfg now jti identity display_name room can_publish can_subscribe can_publish_data =
     (if \<not> livekit_configured cfg then Inl LiveKitNotConfigured
      else if blank identity then Inl MintValueError
      else if blank room then Inl MintValueError
      else Inr (enc (room_payload cfg now jti identity display_name room can_publish can_subscribe can_publish_data) (lk_api_secret cfg)))"

definition admin_payload :: "livekit_settings \<Rightarrow> instant \<Rightarrow> string \<Rightarrow> string \<Rightarrow> json" where
  "admin_payload cfg now jti room =
     JObj [(''iss'', JStr (lk_api_key cfg)), (''sub'', JStr (lk_api_key cfg)), (''jti'', JStr jti),
       (''nbf'', JInt (now div second - NBF_LEEWAY_SECONDS)),
       (''exp'', JInt ((now + ADMIN_TOKEN_TTL_SECONDS * second) div second)),
       (''video'', JObj [(''roomAdmin'', JBool True), (''room'', JStr (namespaced cfg room)), (''roomJoin'', JBool False)])]"

definition mint_room_admin_token :: "(json \<Rightarrow> string \<Rightarrow> string) \<Rightarrow> livekit_settings \<Rightarrow> instant \<Rightarrow> string \<Rightarrow> string \<Rightarrow> mint_error + string" where
  "mint_room_admin_token enc cfg now jti room =
     (if \<not> livekit_configured cfg then Inl LiveKitNotConfigured
      else if blank room then Inl MintValueError
      else Inr (enc (admin_payload cfg now jti room) (lk_api_secret cfg)))"

subsection \<open>The occupancy of a room\<close>

record url_parts =
  up_scheme :: string
  up_netloc :: string
  up_path :: string
  up_hostname :: "string option"

definition rstrip_slash :: "string \<Rightarrow> string" where
  "rstrip_slash s = rev (dropWhile (\<lambda>c. c = CHR ''/'') (rev s))"

datatype occupancy_error = LiveKitUnreachable | OccNotConfigured | OccValueError

definition LIST_PARTICIPANTS_PATH :: string where
  "LIST_PARTICIPANTS_PATH = ''/twirp/livekit.RoomService/ListParticipants''"

definition api_base :: "(string \<Rightarrow> url_parts) \<Rightarrow> livekit_settings \<Rightarrow> occupancy_error + string" where
  "api_base urlparse cfg =
     (let parts = urlparse (lk_url cfg);
          scheme = (if up_scheme parts = ''wss'' then Some ''https'' else if up_scheme parts = ''ws'' then Some ''http'' else None)
      in case scheme of
           None \<Rightarrow> Inl LiveKitUnreachable
         | Some s \<Rightarrow>
             if up_hostname parts = None \<or> up_hostname parts = Some [] then Inl LiveKitUnreachable
             else Inr (s @ ''://'' @ up_netloc parts @ rstrip_slash (up_path parts)))"

record occupancy =
  oc_live :: bool
  oc_participants :: nat
  oc_since :: "string option"

fun py_replace :: "string \<Rightarrow> string \<Rightarrow> string \<Rightarrow> string" where
  "py_replace old new [] = []"
| "py_replace old new (c # cs) =
     (if old \<noteq> [] \<and> take (length old) (c # cs) = old
      then new @ py_replace old new (drop (length old) (c # cs))
      else c # py_replace old new cs)"

definition iso_or_unreachable :: "(instant \<Rightarrow> string) \<Rightarrow> int \<Rightarrow> occupancy_error + string" where
  "iso_or_unreachable isoformat epoch_seconds =
     (if -62135596800 \<le> epoch_seconds \<and> epoch_seconds < 253402300800
      then Inr (py_replace ''+00:00'' ''Z'' (isoformat (epoch_seconds * second)))
      else Inl LiveKitUnreachable)"

fun participant_entries :: "json list \<Rightarrow> occupancy_error + (string \<times> json) list list" where
  "participant_entries [] = Inr []"
| "participant_entries (JObj kvs # ps) =
     (if kvs = [] then Inl LiveKitUnreachable
      else case participant_entries ps of Inl e \<Rightarrow> Inl e | Inr rest \<Rightarrow> Inr (kvs # rest))"
| "participant_entries (_ # ps) = Inl LiveKitUnreachable"

definition participants_from :: "json \<Rightarrow> occupancy_error + (string \<times> json) list list" where
  "participants_from body =
     (case body of
        JObj kvs \<Rightarrow> (case map_of kvs ''participants'' of
            Some (JList ps) \<Rightarrow> participant_entries ps
          | _ \<Rightarrow> Inl LiveKitUnreachable)
      | _ \<Rightarrow> Inl LiveKitUnreachable)"

text \<open>\<open>joinedAt\<close>: a present stamp is an integer or a decimal text; zero is no stamp. A text longer than
  Python converts raises a \<open>ValueError\<close> nobody catches.\<close>

definition read_stamp :: "json option \<Rightarrow> occupancy_error + int option" where
  "read_stamp raw =
     (let normal = (\<lambda>stamp. if stamp = 0 then Inr None else if stamp < 0 then Inl LiveKitUnreachable else Inr (Some stamp)) in
      case raw of
        None \<Rightarrow> Inr None
      | Some JNull \<Rightarrow> Inr None
      | Some (JInt i) \<Rightarrow> normal i
      | Some (JStr s) \<Rightarrow>
          (if \<not> (s \<noteq> [] \<and> list_all is_digit s) then Inl LiveKitUnreachable
           else case py_int_text s of None \<Rightarrow> Inl OccValueError | Some i \<Rightarrow> normal i)
      | _ \<Rightarrow> Inl LiveKitUnreachable)"

fun joined_stamps :: "(string \<times> json) list list \<Rightarrow> occupancy_error + int list" where
  "joined_stamps [] = Inr []"
| "joined_stamps (p # ps) =
     (case read_stamp (map_of p ''joinedAt'') of
        Inl e \<Rightarrow> Inl e
      | Inr x \<Rightarrow> (case joined_stamps ps of
            Inl e \<Rightarrow> Inl e
          | Inr xs \<Rightarrow> Inr (case x of None \<Rightarrow> xs | Some stamp \<Rightarrow> stamp # xs)))"

text \<open>The answer of the media server: an exception of the request, or a status with the body when it is
  JSON.\<close>

datatype sfu_answer = SfuRaised | SfuAnswered int "json option"

definition read_answer :: "(instant \<Rightarrow> string) \<Rightarrow> sfu_answer \<Rightarrow> occupancy_error + occupancy" where
  "read_answer isoformat answer =
     (case answer of
        SfuRaised \<Rightarrow> Inl LiveKitUnreachable
      | SfuAnswered code body \<Rightarrow>
          if code \<noteq> 200 then Inl LiveKitUnreachable
          else case body of
            None \<Rightarrow> Inl LiveKitUnreachable
          | Some b \<Rightarrow>
              (case participants_from b of
                 Inl e \<Rightarrow> Inl e
               | Inr ps \<Rightarrow>
                   (case joined_stamps ps of
                      Inl e \<Rightarrow> Inl e
                    | Inr [] \<Rightarrow> Inr \<lparr>oc_live = (ps \<noteq> []), oc_participants = length ps, oc_since = None\<rparr>
                    | Inr joined \<Rightarrow>
                        (case iso_or_unreachable isoformat (Min (set joined)) of
                           Inl e \<Rightarrow> Inl e
                         | Inr since \<Rightarrow> Inr \<lparr>oc_live = (ps \<noteq> []), oc_participants = length ps, oc_since = Some since\<rparr>))))"

text \<open>\<open>sfu url room token\<close> is what the request to the media server comes to.\<close>

definition ask_occupancy :: "(json \<Rightarrow> string \<Rightarrow> string) \<Rightarrow> (string \<Rightarrow> url_parts) \<Rightarrow> (instant \<Rightarrow> string) \<Rightarrow>
    (string \<Rightarrow> string \<Rightarrow> string \<Rightarrow> sfu_answer) \<Rightarrow> livekit_settings \<Rightarrow> instant \<Rightarrow> string \<Rightarrow> string \<Rightarrow> occupancy_error + occupancy" where
  "ask_occupancy enc urlparse isoformat sfu cfg now jti room =
     (case mint_room_admin_token enc cfg now jti room of
        Inl LiveKitNotConfigured \<Rightarrow> Inl OccNotConfigured
      | Inl MintValueError \<Rightarrow> Inl OccValueError
      | Inr token \<Rightarrow>
          (case api_base urlparse cfg of
             Inl e \<Rightarrow> Inl e
           | Inr base \<Rightarrow> read_answer isoformat (sfu (base @ LIST_PARTICIPANTS_PATH) (room_for_channel cfg room) token)))"

subsection \<open>The routes\<close>

definition gated_dm_channel :: "db \<Rightarrow> ident \<Rightarrow> ident \<Rightarrow> http_error + channel" where
  "gated_dm_channel d user_id channel_id =
     (case readable_channel d user_id channel_id of
        None \<Rightarrow> Inl (Http 404)
      | Some c \<Rightarrow>
          if ch_kind c \<noteq> DM \<or> \<not> ch_is_private c then Inl (Http 403)
          else case map mb_user_id (filter (\<lambda>m. mb_channel_id m = ch_id c \<and> mb_user_id m \<noteq> user_id) (memberships d)) of
            [peer] \<Rightarrow> if is_blocked_between d user_id peer then Inl (Http 404) else Inr c
          | _ \<Rightarrow> Inl (Http 403))"

record video_token_response =
  vt_token :: string
  vt_url :: string
  vt_room :: string
  vt_can_publish :: bool

definition create_video_token :: "(json \<Rightarrow> string \<Rightarrow> string) \<Rightarrow> livekit_settings \<Rightarrow> instant \<Rightarrow> string \<Rightarrow> ident \<Rightarrow> user \<Rightarrow> db \<Rightarrow>
    http_error + video_token_response" where
  "create_video_token enc cfg now jti channel_id u d =
     (if \<not> livekit_configured cfg then Inl (Http 503)
      else case gated_dm_channel d (u_id u) channel_id of
        Inl e \<Rightarrow> Inl e
      | Inr c \<Rightarrow>
          let can_publish = is_posting_member d (u_id u) c in
          case mint_room_token enc cfg now jti (u_id u) (u_display_name u) (ch_id c) can_publish True False of
            Inl LiveKitNotConfigured \<Rightarrow> Inl (Http 503)
          | Inl MintValueError \<Rightarrow> Inl (Http 500)
          | Inr token \<Rightarrow> Inr \<lparr>vt_token = token, vt_url = lk_url cfg, vt_room = room_for_channel cfg (ch_id c),
              vt_can_publish = can_publish\<rparr>)"

definition OCCUPANCY_LIMIT_PER_USER :: int where "OCCUPANCY_LIMIT_PER_USER = 90"
definition OCCUPANCY_LIMIT_PER_IP :: int where "OCCUPANCY_LIMIT_PER_IP = 600"

definition get_call_occupancy :: "(json \<Rightarrow> string \<Rightarrow> string) \<Rightarrow> (string \<Rightarrow> url_parts) \<Rightarrow> (instant \<Rightarrow> string) \<Rightarrow>
    (string \<Rightarrow> string \<Rightarrow> string \<Rightarrow> sfu_answer) \<Rightarrow> livekit_settings \<Rightarrow> instant \<Rightarrow> string \<Rightarrow> ident \<Rightarrow> user \<Rightarrow> db \<Rightarrow> http_error + occupancy" where
  "get_call_occupancy enc urlparse isoformat sfu cfg now jti channel_id u d =
     (if \<not> livekit_configured cfg then Inl (Http 503)
      else case gated_dm_channel d (u_id u) channel_id of
        Inl e \<Rightarrow> Inl e
      | Inr c \<Rightarrow>
          (case ask_occupancy enc urlparse isoformat sfu cfg now jti (ch_id c) of
             Inl OccValueError \<Rightarrow> Inl (Http 500)
           | Inl _ \<Rightarrow> Inl (Http 503)
           | Inr occ \<Rightarrow> Inr occ))"

section \<open>The gate\<close>

definition dm_standing :: "db \<Rightarrow> ident \<Rightarrow> ident \<Rightarrow> channel \<Rightarrow> bool" where
  "dm_standing d u cid c \<longleftrightarrow> c \<in> set (channels d) \<and> ch_id c = cid \<and> ch_kind c = DM \<and> ch_is_private c \<and>
     (\<exists>p. p \<noteq> u \<and> {mb_user_id m |m. m \<in> set (memberships d) \<and> mb_channel_id m = cid} = {u, p} \<and> \<not> is_blocked_between d u p)"

lemma distinct_singleton: "distinct xs \<Longrightarrow> xs = [p] \<longleftrightarrow> set xs = {p}"
proof
  assume "distinct xs" and "set xs = {p}"
  then have "size xs = 1" by (metis distinct_card is_singletonI is_singleton_altdef)
  then show "xs = [p]" using \<open>set xs = {p}\<close> by (cases xs) auto
qed simp

lemma other_members_single:
  assumes "unique_on mb_key (memberships d)"
  shows "map mb_user_id (filter (\<lambda>m. mb_channel_id m = cid \<and> mb_user_id m \<noteq> u) (memberships d)) = [p] \<longleftrightarrow>
    {mb_user_id m |m. m \<in> set (memberships d) \<and> mb_channel_id m = cid \<and> mb_user_id m \<noteq> u} = {p}"
proof -
  let ?ms = "filter (\<lambda>m. mb_channel_id m = cid \<and> mb_user_id m \<noteq> u) (memberships d)"
  have "distinct (map mb_key ?ms)" using assms by (simp add: unique_on_def distinct_map_filter)
  then have "distinct ?ms" "inj_on mb_key (set ?ms)" by (simp_all add: distinct_map)
  then have dist: "distinct (map mb_user_id ?ms)" by (auto simp: distinct_map inj_on_def mb_key_def)
  have "set (map mb_user_id ?ms) = {mb_user_id m |m. m \<in> set (memberships d) \<and> mb_channel_id m = cid \<and> mb_user_id m \<noteq> u}" by auto
  then show ?thesis using distinct_singleton [OF dist, of p] by simp
qed

lemma gated_dm_channel_iff:
  assumes "schema_ok d"
  shows "gated_dm_channel d u cid = Inr c \<longleftrightarrow> dm_standing d u cid c"
proof -
  let ?others = "\<lambda>c. map mb_user_id (filter (\<lambda>m. mb_channel_id m = ch_id c \<and> mb_user_id m \<noteq> u) (memberships d))"
  have uniq: "unique_on ch_id (channels d)" "unique_on mb_key (memberships d)" using assms by (auto dest: schema_okD)
  have gate: "readable_channel d u cid = Some c \<longleftrightarrow> c \<in> set (channels d) \<and> ch_id c = cid \<and> has_membership d cid u" if "ch_is_private c" for c
    using that acl.gate_sound [of d u cid c] acl.gate_unique [OF uniq(1), of c u] by auto
  have "gated_dm_channel d u cid = Inr c \<longleftrightarrow> readable_channel d u cid = Some c \<and> ch_kind c = DM \<and> ch_is_private c \<and>
      (\<exists>p. ?others c = [p] \<and> \<not> is_blocked_between d u p)"
    by (auto simp: gated_dm_channel_def split: option.splits list.splits)
  also have "\<dots> \<longleftrightarrow> c \<in> set (channels d) \<and> ch_id c = cid \<and> ch_kind c = DM \<and> ch_is_private c \<and> has_membership d cid u \<and>
      (\<exists>p. {mb_user_id m |m. m \<in> set (memberships d) \<and> mb_channel_id m = cid \<and> mb_user_id m \<noteq> u} = {p} \<and> \<not> is_blocked_between d u p)"
    (is "?l \<longleftrightarrow> ?r")
  proof (cases "ch_id c = cid \<and> ch_is_private c")
    case True
    then have "?others c = [p] \<longleftrightarrow> {mb_user_id m |m. m \<in> set (memberships d) \<and> mb_channel_id m = cid \<and> mb_user_id m \<noteq> u} = {p}" for p
      using other_members_single [OF uniq(2)] by simp
    with True show ?thesis by (auto simp: gate)
  next
    case False
    then show ?thesis using gate [of c] by blast
  qed
  also have "\<dots> \<longleftrightarrow> dm_standing d u cid c"
  proof -
    have "has_membership d cid u \<longleftrightarrow> (\<exists>m \<in> set (memberships d). mb_channel_id m = cid \<and> mb_user_id m = u)"
      by (auto simp: has_membership_def list_ex_iff)
    then have "has_membership d cid u \<and> {mb_user_id m |m. m \<in> set (memberships d) \<and> mb_channel_id m = cid \<and> mb_user_id m \<noteq> u} = {p} \<longleftrightarrow>
        p \<noteq> u \<and> {mb_user_id m |m. m \<in> set (memberships d) \<and> mb_channel_id m = cid} = {u, p}" for p
      by (auto simp: set_eq_iff) metis+
    then show ?thesis unfolding dm_standing_def by blast
  qed
  finally show ?thesis .
qed

text \<open>A join token never carries an administrator's grant, and the administrator's token never joins.\<close>

lemma grants_apart:
  "\<exists>v. jget ''video'' (room_payload cfg now jti i n r cp cs cd) = Some v \<and> jget ''roomAdmin'' v = None \<and> jget ''roomJoin'' v = Some (JBool True)"
  "\<exists>v. jget ''video'' (admin_payload cfg now jti r) = Some v \<and> jget ''roomAdmin'' v = Some (JBool True) \<and> jget ''roomJoin'' v = Some (JBool False)"
  by (simp_all add: room_payload_def admin_payload_def)

lemma posting_member_dm: "dm_standing d u cid c \<Longrightarrow> is_posting_member d u c \<longleftrightarrow>
    (\<exists>m. get_membership d cid u = Some m \<and> mb_can_post m)"
  by (auto simp: dm_standing_def is_posting_member_def split: option.splits)

text \<open>C33: the island signs a join token exactly for a party of a live two-party direct message with no block
  between the two. The claims are written out here: issued by the island's key for the caller's own
  identity, valid from ten seconds before to the configured lifetime after, for the one room of that
  channel; join and subscribe always, publish and the camera and microphone as its sources exactly with
  a posting membership, no data channel, and no other grant. The occupancy read refuses the very same
  requests with the very same answers.\<close>

theorem video_needs_dm_standing:
  assumes "schema_ok d" and "livekit_configured cfg" and "\<not> blank (u_id u)" and "\<not> blank cid"
  shows "(let posts = (\<exists>m. get_membership d cid (u_id u) = Some m \<and> mb_can_post m);
        island = (if lk_island_id cfg = [] then [] else lk_island_id cfg @ '':'');
        grant = [(''room'', JStr (island @ cid)), (''roomJoin'', JBool True), (''canPublish'', JBool posts),
            (''canSubscribe'', JBool True), (''canPublishData'', JBool False)] @
          (if posts then [(''canPublishSources'', JList [JStr ''camera'', JStr ''microphone''])] else []);
        claims = [(''iss'', JStr (lk_api_key cfg)), (''sub'', JStr (island @ u_id u)), (''name'', JStr (u_display_name u)),
            (''jti'', JStr jti), (''nbf'', JInt (now div second - 10)),
            (''exp'', JInt ((now + lk_token_ttl_seconds cfg * second) div second)), (''video'', JObj grant)]
      in create_video_token enc cfg now jti cid u d = Inr r \<longleftrightarrow>
        (\<exists>c. dm_standing d (u_id u) cid c) \<and>
        r = \<lparr>vt_token = enc (JObj claims) (lk_api_secret cfg), vt_url = lk_url cfg, vt_room = island @ cid, vt_can_publish = posts\<rparr>) \<and>
    (\<forall>e \<in> {403, 404}. create_video_token enc cfg now jti cid u d = Inl (Http e) \<longleftrightarrow>
      get_call_occupancy enc urlparse fmt sfu cfg now' jti' cid u d = Inl (Http e))"
proof -
  let ?posts = "\<exists>m. get_membership d cid (u_id u) = Some m \<and> mb_can_post m"
  have minted: "create_video_token enc cfg now jti cid u d = Inr
      \<lparr>vt_token = enc (room_payload cfg now jti (u_id u) (u_display_name u) cid ?posts True False) (lk_api_secret cfg),
       vt_url = lk_url cfg, vt_room = namespaced cfg cid, vt_can_publish = ?posts\<rparr>"
    if g: "gated_dm_channel d (u_id u) cid = Inr c" for c
  proof -
    have dm: "dm_standing d (u_id u) cid c" "ch_id c = cid"
      using g unfolding gated_dm_channel_iff [OF assms(1)] dm_standing_def by blast+
    show ?thesis unfolding posting_member_dm [OF dm(1), symmetric]
      using g assms(2-4) dm(2) by (simp add: create_video_token_def mint_room_token_def room_for_channel_def Let_def)
  qed
  note payload = room_payload_def namespaced_def AV_PUBLISH_SOURCES_def NBF_LEEWAY_SECONDS_def
  show ?thesis
  proof (cases "gated_dm_channel d (u_id u) cid")
    case (Inl e)
    then have "\<not> dm_standing d (u_id u) cid c" for c using gated_dm_channel_iff [OF assms(1), of "u_id u" cid c] by simp
    moreover have "create_video_token enc cfg now jti cid u d = Inl e" "get_call_occupancy enc urlparse fmt sfu cfg now' jti' cid u d = Inl e"
      using Inl assms(2) by (simp_all add: create_video_token_def get_call_occupancy_def)
    ultimately show ?thesis by (simp add: Let_def)
  next
    case (Inr c)
    then have "\<exists>c. dm_standing d (u_id u) cid c" using gated_dm_channel_iff [OF assms(1)] by blast
    moreover have "get_call_occupancy enc urlparse fmt sfu cfg now' jti' cid u d \<noteq> Inl (Http e)" if "e \<in> {403, 404}" for e
      using Inr that assms(2) by (auto simp: get_call_occupancy_def split: sum.splits occupancy_error.splits)
    ultimately show ?thesis unfolding minted [OF Inr] by (auto simp: payload Let_def)
  qed
qed

definition ex_livekit :: livekit_settings where
  "ex_livekit = \<lparr>lk_url = ''wss://sfu.example/lk/'', lk_api_key = ''k'', lk_api_secret = ''s'', lk_token_ttl_seconds = 3600, lk_island_id = ''isle''\<rparr>"

lemma set_map_filter: "{f m |m. m \<in> set xs \<and> P m} = set (map f (filter P xs))"
  by auto

lemma ex_dm_standing: "dm_standing ex_dm_db ''a'' ''c'' (dm_channel 0 ''c'' ''dm:a:b'')"
proof -
  have "{mb_user_id m |m. m \<in> set (memberships ex_dm_db) \<and> mb_channel_id m = ''c''} =
      set (map mb_user_id (filter (\<lambda>m. mb_channel_id m = ''c'') (memberships ex_dm_db)))"
    by (rule set_map_filter)
  also have "\<dots> = {''a'', ''b''}" by (simp add: ex_dm_db_def plain_member_def)
  finally have set: "{mb_user_id m |m. m \<in> set (memberships ex_dm_db) \<and> mb_channel_id m = ''c''} = {''a'', ''b''}" .
  have "dm_channel 0 ''c'' ''dm:a:b'' \<in> set (channels ex_dm_db)" "\<not> is_blocked_between ex_dm_db ''a'' ''b''"
    by (simp_all add: ex_dm_db_def ex_two_users_def empty_db_def is_blocked_between_def)
  moreover have "''b'' \<noteq> ''a''" by simp
  ultimately show ?thesis
    unfolding dm_standing_def by (intro conjI exI [of _ "''b''"] set) (simp_all add: dm_channel_def)
qed

lemma ex_livekit_configured: "livekit_configured ex_livekit"
  by (simp add: ex_livekit_def livekit_configured_def)

lemma ex_user_id: "u_id (ex_user i) = i"
  by (simp add: ex_user_def)

lemma ex_not_blank: "\<not> blank ''a''" "\<not> blank ''c''"
  by (simp_all add: blank_def py_strip_def is_space_def)

theorem video_needs_dm_standing_witness:
  "\<exists>r. create_video_token (\<lambda>_ _. ''jwt'') ex_livekit 0 ''j'' ''c'' (ex_user ''a'') ex_dm_db = Inr r \<and>
     vt_room r = ''isle:c'' \<and> vt_can_publish r"
proof -
  have "\<exists>m. get_membership ex_dm_db ''c'' (u_id (ex_user ''a'')) = Some m \<and> mb_can_post m"
    by (simp add: get_membership_def ex_dm_db_def ex_user_def plain_member_def)
  moreover have "\<exists>c. dm_standing ex_dm_db (u_id (ex_user ''a'')) ''c'' c"
    using ex_dm_standing unfolding ex_user_id by blast
  moreover have "lk_island_id ex_livekit = ''isle''" by (simp add: ex_livekit_def)
  moreover note conjunct1 [OF video_needs_dm_standing [OF ex_dm_db_ok(1), of ex_livekit "ex_user ''a''" "''c''",
      where enc = "\<lambda>_ _. ''jwt''" and now = 0 and jti = "''j''"]]
  ultimately show ?thesis
    using ex_not_blank ex_user_id ex_livekit_configured by (simp add: Let_def)
qed

section \<open>Unknown is not empty\<close>

lemma participant_entries_Nil: "participant_entries ps = Inr [] \<longleftrightarrow> ps = []"
  by (cases ps rule: participant_entries.cases) (auto split: sum.splits)

lemma participant_entries_sound: "participant_entries ps = Inr qs \<Longrightarrow> ps = map JObj qs \<and> [] \<notin> set qs"
  by (induction ps arbitrary: qs rule: participant_entries.induct) (auto split: if_splits sum.splits)

lemma participant_entries_err: "participant_entries ps = Inl e \<Longrightarrow> e = LiveKitUnreachable"
  by (induction ps rule: participant_entries.induct) (auto split: if_splits sum.splits)

lemma read_stamp_err:
  "read_stamp raw = Inl e \<Longrightarrow> e = LiveKitUnreachable \<or>
     e = OccValueError \<and> (\<exists>s. raw = Some (JStr s) \<and> s \<noteq> [] \<and> list_all is_digit s \<and> py_int_text s = None)"
  by (auto simp: read_stamp_def Let_def split: option.splits json.splits if_splits)

lemma joined_stamps_err:
  "joined_stamps ps = Inl e \<Longrightarrow> e = LiveKitUnreachable \<or>
     e = OccValueError \<and> (\<exists>p \<in> set ps. \<exists>s. map_of p ''joinedAt'' = Some (JStr s) \<and> list_all is_digit s \<and> py_int_text s = None)"
  by (induction ps) (auto split: sum.splits dest: read_stamp_err)

lemma joined_stamps_pos: "joined_stamps ps = Inr xs \<Longrightarrow> \<forall>x \<in> set xs. 0 < x"
  by (induction ps arbitrary: xs) (auto simp: read_stamp_def Let_def split: sum.splits option.splits json.splits if_splits)

text \<open>What the media server must have said for a room to be reported with \<open>n\<close> people in it.\<close>

definition sfu_said :: "sfu_answer \<Rightarrow> nat \<Rightarrow> bool" where
  "sfu_said a n \<longleftrightarrow> (\<exists>kvs ps. a = SfuAnswered 200 (Some (JObj kvs)) \<and> map_of kvs ''participants'' = Some (JList ps) \<and>
     length ps = n \<and> (\<forall>p \<in> set ps. \<exists>f. p = JObj f \<and> f \<noteq> []))"

definition unreadable_digits :: "sfu_answer \<Rightarrow> bool" where
  "unreadable_digits a \<longleftrightarrow> (\<exists>kvs ps f s. a = SfuAnswered 200 (Some (JObj kvs)) \<and> map_of kvs ''participants'' = Some (JList ps) \<and>
     JObj f \<in> set ps \<and> map_of f ''joinedAt'' = Some (JStr s) \<and> list_all is_digit s \<and> py_int_text s = None)"

lemma read_answer_cases:
  assumes "read_answer fmt a = r"
  obtains (ok) occ where "r = Inr occ" "sfu_said a (oc_participants occ)" "oc_live occ \<longleftrightarrow> oc_participants occ > 0"
  | (unreachable) "r = Inl LiveKitUnreachable"
  | (digits) "r = Inl OccValueError" "unreadable_digits a"
proof (cases a)
  case SfuRaised
  with assms unreachable show ?thesis by (simp add: read_answer_def)
next
  case (SfuAnswered code body)
  consider (no) "r = Inl LiveKitUnreachable"
    | (read) b qs where "code = 200" "body = Some b" "participants_from b = Inr qs"
    using assms SfuAnswered participant_entries_err
    by (auto simp: read_answer_def participants_from_def split: if_splits option.splits sum.splits json.splits)
  then show ?thesis
  proof cases
    case no
    with unreachable show ?thesis .
  next
    case read
    then obtain kvs ps where b: "b = JObj kvs" "map_of kvs ''participants'' = Some (JList ps)" "participant_entries ps = Inr qs"
      by (auto simp: participants_from_def split: json.splits option.splits)
    note ps = participant_entries_sound [OF b(3)]
    have said: "sfu_said a (length qs)" using SfuAnswered read(1,2) b(1,2) ps unfolding sfu_said_def by auto
    have r: "r = (case joined_stamps qs of Inl e \<Rightarrow> Inl e
        | Inr [] \<Rightarrow> Inr \<lparr>oc_live = (qs \<noteq> []), oc_participants = length qs, oc_since = None\<rparr>
        | Inr joined \<Rightarrow> (case iso_or_unreachable fmt (Min (set joined)) of Inl e \<Rightarrow> Inl e
            | Inr since \<Rightarrow> Inr \<lparr>oc_live = (qs \<noteq> []), oc_participants = length qs, oc_since = Some since\<rparr>))"
      using assms SfuAnswered read by (simp add: read_answer_def)
    show ?thesis
    proof (cases "joined_stamps qs")
      case (Inl e)
      then consider "e = LiveKitUnreachable"
        | p s where "e = OccValueError" "p \<in> set qs" "map_of p ''joinedAt'' = Some (JStr s)" "list_all is_digit s" "py_int_text s = None"
        using joined_stamps_err [OF Inl] by blast
      then show ?thesis
      proof cases
        case 1
        with Inl r unreachable show ?thesis by simp
      next
        case 2
        moreover have "JObj p \<in> set ps" using 2(2) ps by simp
        ultimately have "unreadable_digits a" using SfuAnswered read(1,2) b(1,2) unfolding unreadable_digits_def by blast
        with Inl r 2(1) digits show ?thesis by simp
      qed
    next
      case (Inr xs)
      with r said ok unreachable show ?thesis
        by (auto simp: iso_or_unreachable_def split: list.splits if_splits)
    qed
  qed
qed


text \<open>C34: to a party of a live direct message the occupancy route reports a room as empty or as occupied by
  \<open>n\<close> only when the media server answered 200, to the question about that very room asked with an
  administrator's token of that room alone, with a list of exactly \<open>n\<close> well-formed entries. Whatever
  else the server did is 503, never a room reported empty; one answer escapes as 500: a join stamp
  whose digits are more than Python converts.\<close>

theorem unknown_is_not_empty:
  assumes "schema_ok d" and "livekit_configured cfg" and "\<not> blank cid" and "dm_standing d (u_id u) cid c"
  shows "case get_call_occupancy enc urlparse fmt sfu cfg now jti cid u d of
      Inr occ \<Rightarrow> (oc_live occ \<longleftrightarrow> oc_participants occ > 0) \<and>
        (\<exists>base. api_base urlparse cfg = Inr base \<and>
           sfu_said (sfu (base @ LIST_PARTICIPANTS_PATH) (namespaced cfg cid) (enc (admin_payload cfg now jti cid) (lk_api_secret cfg)))
             (oc_participants occ))
    | Inl e \<Rightarrow> e = Http 503 \<or> e = Http 500 \<and>
        (\<exists>base. api_base urlparse cfg = Inr base \<and>
           unreadable_digits (sfu (base @ LIST_PARTICIPANTS_PATH) (namespaced cfg cid) (enc (admin_payload cfg now jti cid) (lk_api_secret cfg))))"
proof -
  let ?tok = "enc (admin_payload cfg now jti cid) (lk_api_secret cfg)"
  let ?a = "\<lambda>base. sfu (base @ LIST_PARTICIPANTS_PATH) (namespaced cfg cid) ?tok"
  have gate: "gated_dm_channel d (u_id u) cid = Inr c" using gated_dm_channel_iff [OF assms(1)] assms(4) by blast
  have id: "ch_id c = cid" using assms(4) unfolding dm_standing_def by blast
  have tok: "mint_room_admin_token enc cfg now jti cid = Inr ?tok" using assms(2,3) by (simp add: mint_room_admin_token_def)
  show ?thesis
  proof (cases "api_base urlparse cfg")
    case (Inl e)
    then have "e = LiveKitUnreachable" by (auto simp: api_base_def Let_def split: option.splits if_splits)
    with Inl gate tok id assms(2) show ?thesis by (simp add: get_call_occupancy_def ask_occupancy_def)
  next
    case (Inr base)
    have ask: "ask_occupancy enc urlparse fmt sfu cfg now jti (ch_id c) = read_answer fmt (?a base)"
      using tok Inr id by (simp add: ask_occupancy_def room_for_channel_def)
    show ?thesis
      by (cases rule: read_answer_cases [OF refl, of fmt "?a base"])
        (use ask gate assms(2) Inr in \<open>simp_all add: get_call_occupancy_def\<close>)
  qed
qed


theorem unknown_is_not_empty_witness:
  "case get_call_occupancy (\<lambda>_ _. ''jwt'') (\<lambda>_. \<lparr>up_scheme = ''wss'', up_netloc = ''sfu'', up_path = [], up_hostname = Some ''sfu''\<rparr>) (\<lambda>_. [])
      (\<lambda>_ _ _. SfuAnswered 200 (Some (JObj []))) ex_livekit 0 ''j'' ''c'' (ex_user ''a'') ex_dm_db of
      Inr occ \<Rightarrow> False | Inl e \<Rightarrow> e = Http 503"
  using unknown_is_not_empty [OF ex_dm_db_ok(1), where cfg = ex_livekit and cid = "''c''" and u = "ex_user ''a''"
        and c = "dm_channel 0 ''c'' ''dm:a:b''" and enc = "\<lambda>_ _. ''jwt''"
        and urlparse = "\<lambda>_. \<lparr>up_scheme = ''wss'', up_netloc = ''sfu'', up_path = [], up_hostname = Some ''sfu''\<rparr>"
        and fmt = "\<lambda>_. []" and sfu = "\<lambda>_ _ _. SfuAnswered 200 (Some (JObj []))" and now = 0 and jti = "''j''"]
    ex_dm_standing ex_not_blank(2) ex_user_id [of "''a''"]
  by (simp add: ex_livekit_configured sfu_said_def unreadable_digits_def split: sum.splits)

end
