(* ===== verification/Config.thy ===== *)
theory Config
  imports Calls Islands SignIn
begin

text \<open>The settings of an island (\<open>config.py\<close>): what a blank or padded environment variable comes to, and
  the validator that normalises the stored values and decides whether the process boots. The
  splitting of URLs, the PEM loader and the JSON parser are arguments. Text is Latin-1.\<close>

section \<open>What the environment says\<close>

text \<open>A type annotation as \<open>typing.get_args\<close> and \<open>issubclass\<close> see it; \<open>AOther\<close> is anything that is no
  plain type of the list, such as the literal of a \<open>Literal\<close> or \<open>dict\<close>.\<close>

datatype annotation = ABool | AInt | AFloat | AEnum | AStr | ANone | AOther | AArgs "annotation list"

fun whitespace_is_never_meaningful :: "annotation \<Rightarrow> bool" where
  "whitespace_is_never_meaningful (AArgs args) = list_all (\<lambda>a. a = ANone \<or> whitespace_is_never_meaningful a) args"
| "whitespace_is_never_meaningful AEnum = True"
| "whitespace_is_never_meaningful AStr = False"
| "whitespace_is_never_meaningful ABool = True"
| "whitespace_is_never_meaningful AInt = True"
| "whitespace_is_never_meaningful AFloat = True"
| "whitespace_is_never_meaningful _ = False"

text \<open>The fields of the model, in order.\<close>

definition CORE_FIELDS :: "(string \<times> annotation) list" where
  "CORE_FIELDS =
    [(''environment'', AStr), (''aiko_mqtt_host'', AStr), (''aiko_mqtt_port'', AInt), (''aiko_namespace'', AStr), (''aiko_channels'', AArgs [AStr]),
     (''db_url'', AStr), (''jwt_secret'', AStr), (''jwt_algorithm'', AArgs [AOther]), (''jwt_access_ttl_seconds'', AInt),
     (''jwt_refresh_ttl_seconds'', AInt), (''livekit_url'', AStr), (''livekit_api_key'', AStr), (''livekit_api_secret'', AStr),
     (''livekit_token_ttl_seconds'', AInt)]"

definition PUSH_FIELDS :: "(string \<times> annotation) list" where
  "PUSH_FIELDS =
    [(''apns_key_id'', AStr), (''apns_team_id'', AStr), (''apns_topic'', AStr), (''apns_voip_topic'', AStr), (''apns_private_key'', AStr),
     (''apns_use_sandbox'', ABool), (''apns_wake_per_recipient_per_minute'', AInt), (''fcm_service_account_json'', AStr),
     (''open_registration'', AArgs [ABool, ANone])]"

definition SOCIAL_FIELDS :: "(string \<times> annotation) list" where
  "SOCIAL_FIELDS =
    [(''social_signin_enabled'', ABool), (''social_nonce_required'', ABool), (''social_nonce_ttl_seconds'', AInt),
     (''apple_client_ids'', AArgs [AStr]), (''google_client_ids'', AArgs [AStr]), (''moderator_user_ids'', AArgs [AStr]),
     (''provisioning_ttl_seconds'', AInt), (''handle_change_cooldown_seconds'', AInt)]"

definition ISLAND_FIELDS :: "(string \<times> annotation) list" where
  "ISLAND_FIELDS =
    [(''github_client_id'', AStr), (''github_client_secret'', AStr), (''gateway_base_url'', AStr), (''island_id'', AStr),
     (''island_display_name'', AStr), (''island_seed_peers'', AArgs [AOther]), (''gateway_bootstrap_peers'', AArgs [AStr]),
     (''gateway_gossip_enabled'', ABool), (''gateway_gossip_interval_seconds'', AInt), (''island_update_nudge'', AEnum),
     (''island_update_check_interval_seconds'', AInt), (''island_mode'', AEnum), (''island_signing_seed'', AStr), (''island_key_version'', AInt),
     (''csam_runbook_acknowledged'', ABool), (''app_oauth_callback_url'', AStr), (''oauth_state_ttl_seconds'', AInt),
     (''oauth_handoff_ttl_seconds'', AInt)]"

definition SERVER_FIELDS :: "(string \<times> annotation) list" where
  "SERVER_FIELDS =
    [(''passkey_enabled'', ABool), (''passkey_rp_id'', AStr), (''passkey_rp_name'', AStr), (''passkey_extra_origins'', AArgs [AStr]),
     (''passkey_challenge_ttl_seconds'', AInt), (''passkey_require_user_verification'', ABool), (''passkey_ios_app_id'', AStr),
     (''passkey_android_package'', AStr), (''passkey_android_cert_sha256'', AArgs [AStr]), (''recovery_veto_window_seconds'', AInt),
     (''rate_limit_enabled'', ABool), (''auth_rate_limit'', AInt), (''auth_rate_limit_window_seconds'', AInt), (''max_request_bytes'', AInt),
     (''moderation_alert_webhook_url'', AArgs [AStr, ANone]), (''host'', AStr), (''port'', AInt)]"

definition model_fields :: "(string \<times> annotation) list" where
  "model_fields = CORE_FIELDS @ PUSH_FIELDS @ SOCIAL_FIELDS @ ISLAND_FIELDS @ SERVER_FIELDS"

datatype raw = RawStr string | RawVal json

definition blank_raw :: "raw \<Rightarrow> bool" where
  "blank_raw v = (case v of RawStr s \<Rightarrow> py_strip s = [] | RawVal _ \<Rightarrow> False)"

text \<open>The environment sources: a blank raw value is no value; \<open>super\<close> is the library's own preparation.\<close>

definition prepare_field_value :: "(raw \<Rightarrow> raw option) \<Rightarrow> raw \<Rightarrow> raw option" where
  "prepare_field_value super v = (if blank_raw v then None else super v)"

definition normalise_field :: "string \<times> annotation \<Rightarrow> (string \<times> raw) list \<Rightarrow> (string \<times> raw) list" where
  "normalise_field fld data =
     (case fld of (name, annotation) \<Rightarrow>
        (case map_of data name of
           Some (RawStr v) \<Rightarrow>
             if py_strip v = [] then filter (\<lambda>(n, _). n \<noteq> name) data
             else if whitespace_is_never_meaningful annotation
             then map (\<lambda>(n, w). if n = name then (n, RawStr (py_strip v)) else (n, w)) data
             else data
         | _ \<Rightarrow> data))"

definition normalise_env_strings :: "(string \<times> raw) list \<Rightarrow> (string \<times> raw) list" where
  "normalise_env_strings data = fold normalise_field model_fields data"

section \<open>The settings the validator reads\<close>

record settings =
  st_environment :: string
  st_jwt_secret :: string
  st_livekit_url :: string
  st_livekit_api_key :: string
  st_livekit_api_secret :: string
  st_livekit_token_ttl_seconds :: int
  st_apns_key_id :: string
  st_apns_team_id :: string
  st_apns_topic :: string
  st_apns_voip_topic :: string
  st_apns_private_key :: string
  st_fcm_service_account_json :: string
  st_open_registration :: "bool option"
  st_social_signin_enabled :: bool
  st_apple_client_ids :: "string list"
  st_google_client_ids :: "string list"
  st_moderator_user_ids :: "ident list"
  st_github_client_id :: string
  st_github_client_secret :: string
  st_gateway_base_url :: string
  st_island_id :: string
  st_island_mode :: island_mode
  st_island_signing_seed :: string
  st_csam_runbook_acknowledged :: bool
  st_passkey_enabled :: bool
  st_passkey_rp_id :: string

definition DEV_JWT_SECRET :: string where "DEV_JWT_SECRET = ''dev-insecure-change-me''"
definition DEV_ISLAND_SEED :: string where "DEV_ISLAND_SEED = ''YWlrby1kZXYtaXNsYW5kLXNlZWQtRE8tTk9ULVVTRSE''"
definition NON_PROD_ENVIRONMENTS :: "string list" where "NON_PROD_ENVIRONMENTS = [''dev'', ''development'', ''test'', ''local'']"
definition MIN_PROD_SECRET_LEN :: nat where "MIN_PROD_SECRET_LEN = 32"

text \<open>What the fields are when the operator says nothing.\<close>

definition default_settings :: settings where
  "default_settings = \<lparr>st_environment = ''production'', st_jwt_secret = DEV_JWT_SECRET,
     st_livekit_url = ''wss://livekit.imagineering.cc'', st_livekit_api_key = [], st_livekit_api_secret = [],
     st_livekit_token_ttl_seconds = 600, st_apns_key_id = [], st_apns_team_id = [], st_apns_topic = [], st_apns_voip_topic = [],
     st_apns_private_key = [], st_fcm_service_account_json = [], st_open_registration = None, st_social_signin_enabled = False,
     st_apple_client_ids = [], st_google_client_ids = [], st_moderator_user_ids = [], st_github_client_id = [],
     st_github_client_secret = [], st_gateway_base_url = ''https://chat.imagineering.cc'', st_island_id = [],
     st_island_mode = MODERATOR, st_island_signing_seed = DEV_ISLAND_SEED, st_csam_runbook_acknowledged = False,
     st_passkey_enabled = False, st_passkey_rp_id = ''chat.imagineering.cc''\<rparr>"

definition is_production :: "settings \<Rightarrow> bool" where
  "is_production s \<longleftrightarrow> py_lower (py_strip (st_environment s)) \<notin> set NON_PROD_ENVIRONMENTS"

section \<open>The guards\<close>

text \<open>One constructor per refusal, in the order of the code.\<close>

datatype boot_error =
    LiveKitHalf | LiveKitNoHost | LiveKitScheme | LiveKitWeakSecret | LiveKitNoIsland
  | ApnsHalf | ApnsSameTopic | ApnsUnreadableKey | ApnsNotEc | ApnsWrongCurve
  | FcmNewline | FcmNotJson | FcmNotServiceAccount | FcmMissing | FcmUnreadableKey | FcmNotRsa
  | E2eeUnavailable | BadSeed
  | JwtDevDefault | JwtWeak | SeedDevDefault | SocialNoProvider | BrokerHalf | PasskeyBadRp | NoIngress
  | NoModerator | RunbookNotAcknowledged

datatype pem_key = UnreadablePem | EcKey string | RsaKey | OtherKey

text \<open>Everything outside the program that the validator calls.\<close>

record boot_lib =
  bl_urlparse :: "string \<Rightarrow> url_parts"
  bl_pem :: "string \<Rightarrow> pem_key"
  bl_loads :: "string \<Rightarrow> json option"
  bl_zero :: "string \<Rightarrow> bool"

definition hostname :: "boot_lib \<Rightarrow> string \<Rightarrow> string" where
  "hostname lib url = (case up_hostname (bl_urlparse lib url) of None \<Rightarrow> [] | Some h \<Rightarrow> h)"

definition py_lstrip :: "string \<Rightarrow> string" where
  "py_lstrip s = dropWhile is_space s"

definition stripped_moderators :: "ident list \<Rightarrow> ident list" where
  "stripped_moderators ids = map py_strip (filter (\<lambda>u. py_strip u \<noteq> []) ids)"

definition strip_livekit :: "settings \<Rightarrow> settings" where
  "strip_livekit s = s\<lparr>st_moderator_user_ids := stripped_moderators (st_moderator_user_ids s),
     st_livekit_api_key := py_strip (st_livekit_api_key s), st_livekit_api_secret := py_strip (st_livekit_api_secret s),
     st_island_id := py_strip (st_island_id s)\<rparr>"

definition livekit_guard :: "boot_lib \<Rightarrow> settings \<Rightarrow> boot_error option" where
  "livekit_guard lib s =
     (if st_livekit_api_key s = [] \<and> st_livekit_api_secret s = [] then None
      else if st_livekit_api_key s = [] \<or> st_livekit_api_secret s = [] then Some LiveKitHalf
      else let host = hostname lib (st_livekit_url s); is_loopback = host \<in> {''localhost'', ''127.0.0.1'', ''::1''} in
        if host = [] then Some LiveKitNoHost
        else if is_loopback \<and> \<not> is_production s then None
        else if up_scheme (bl_urlparse lib (st_livekit_url s)) \<noteq> ''wss'' then Some LiveKitScheme
        else if length (st_livekit_api_secret s) < MIN_PROD_SECRET_LEN then Some LiveKitWeakSecret
        else if st_island_id s = [] then Some LiveKitNoIsland
        else None)"

definition strip_apns :: "settings \<Rightarrow> settings" where
  "strip_apns s = s\<lparr>st_apns_key_id := py_strip (st_apns_key_id s), st_apns_team_id := py_strip (st_apns_team_id s),
     st_apns_topic := py_strip (st_apns_topic s), st_apns_private_key := py_lstrip (st_apns_private_key s),
     st_apns_voip_topic := py_strip (st_apns_voip_topic s)\<rparr>"

definition apns_values :: "settings \<Rightarrow> string list" where
  "apns_values s = [st_apns_key_id s, st_apns_team_id s, st_apns_topic s, st_apns_private_key s, st_apns_voip_topic s]"

definition apns_guard :: "boot_lib \<Rightarrow> settings \<Rightarrow> boot_error option" where
  "apns_guard lib s =
     (if list_ex (\<lambda>v. v \<noteq> []) (apns_values s) \<and> \<not> list_all (\<lambda>v. v \<noteq> []) (apns_values s) then Some ApnsHalf
      else if st_apns_topic s \<noteq> [] \<and> st_apns_voip_topic s \<noteq> [] \<and> st_apns_topic s = st_apns_voip_topic s then Some ApnsSameTopic
      else if \<not> list_all (\<lambda>v. v \<noteq> []) (apns_values s) then None
      else case bl_pem lib (st_apns_private_key s) of
             UnreadablePem \<Rightarrow> Some ApnsUnreadableKey
           | EcKey curve \<Rightarrow> if curve \<noteq> ''secp256r1'' then Some ApnsWrongCurve else None
           | _ \<Rightarrow> Some ApnsNotEc)"

text \<open>\<open>str(cred.get(k) or "").strip()\<close> is not empty.\<close>

definition cred_present :: "boot_lib \<Rightarrow> (string \<times> json) list \<Rightarrow> string \<Rightarrow> bool" where
  "cred_present lib cred k =
     (case map_of cred k of
        None \<Rightarrow> False
      | Some JNull \<Rightarrow> False
      | Some (JBool b) \<Rightarrow> b
      | Some (JInt i) \<Rightarrow> i \<noteq> 0
      | Some (JFloat t) \<Rightarrow> \<not> bl_zero lib t
      | Some (JStr t) \<Rightarrow> py_strip t \<noteq> []
      | Some (JList xs) \<Rightarrow> xs \<noteq> []
      | Some (JObj kvs) \<Rightarrow> kvs \<noteq> [])"

definition fcm_guard :: "boot_lib \<Rightarrow> settings \<Rightarrow> boot_error option" where
  "fcm_guard lib s =
     (let blob = st_fcm_service_account_json s in
      if blob = [] then None
      else if CHR 0x0A \<in> set blob \<or> CHR 0x0D \<in> set blob then Some FcmNewline
      else case bl_loads lib blob of
             None \<Rightarrow> Some FcmNotJson
           | Some (JObj cred) \<Rightarrow>
               if map_of cred ''type'' \<noteq> Some (JStr ''service_account'') then Some FcmNotServiceAccount
               else if \<not> list_all (cred_present lib cred) [''project_id'', ''client_email'', ''private_key''] then Some FcmMissing
               else (case map_of cred ''private_key'' of
                       Some (JStr pem) \<Rightarrow>
                         (case bl_pem lib pem of UnreadablePem \<Rightarrow> Some FcmUnreadableKey | RsaKey \<Rightarrow> None | _ \<Rightarrow> Some FcmNotRsa)
                     | _ \<Rightarrow> Some FcmUnreadableKey)
           | Some _ \<Rightarrow> Some FcmNotServiceAccount)"

definition island_guard :: "settings \<Rightarrow> boot_error option" where
  "island_guard s =
     (if st_island_mode s = E2EE then Some E2eeUnavailable
      else case decode_seed (st_island_signing_seed s) of Inl _ \<Rightarrow> Some BadSeed | Inr _ \<Rightarrow> None)"

definition secrets_guard :: "settings \<Rightarrow> boot_error option" where
  "secrets_guard s =
     (if st_jwt_secret s = DEV_JWT_SECRET then Some JwtDevDefault
      else if length (py_strip (st_jwt_secret s)) < MIN_PROD_SECRET_LEN then Some JwtWeak
      else if decode_seed (st_island_signing_seed s) = decode_seed DEV_ISLAND_SEED then Some SeedDevDefault
      else None)"

definition provider_guard :: "settings \<Rightarrow> boot_error option" where
  "provider_guard s =
     (let broker_configured = (st_github_client_id s \<noteq> [] \<and> st_github_client_secret s \<noteq> []) in
      if st_social_signin_enabled s \<and> \<not> (st_apple_client_ids s \<noteq> [] \<or> st_google_client_ids s \<noteq> [] \<or> broker_configured)
      then Some SocialNoProvider
      else if (st_github_client_id s \<noteq> []) \<noteq> (st_github_client_secret s \<noteq> []) then Some BrokerHalf
      else None)"

definition ends_with :: "string \<Rightarrow> string \<Rightarrow> bool" where
  "ends_with suffix s \<longleftrightarrow> length suffix \<le> length s \<and> drop (length s - length suffix) s = suffix"

definition rp_usable :: "string \<Rightarrow> string \<Rightarrow> bool" where
  "rp_usable host rp \<longleftrightarrow> rp \<noteq> [] \<and> host \<noteq> [] \<and> CHR ''.'' \<in> set rp \<and> (host = rp \<or> ends_with (CHR ''.'' # rp) host)"

definition ingress_guard :: "boot_lib \<Rightarrow> settings \<Rightarrow> boot_error option" where
  "ingress_guard lib s =
     (if st_passkey_enabled s \<and>
         \<not> rp_usable (py_lower (py_strip (hostname lib (st_gateway_base_url s)))) (py_lower (py_strip (st_passkey_rp_id s)))
      then Some PasskeyBadRp
      else if \<not> (st_passkey_enabled s \<or> st_social_signin_enabled s) then Some NoIngress
      else None)"

definition moderator_guard :: "settings \<Rightarrow> boot_error option" where
  "moderator_guard s =
     (if st_island_mode s = MODERATOR then
        if st_moderator_user_ids s = [] then Some NoModerator
        else if \<not> st_csam_runbook_acknowledged s then Some RunbookNotAcknowledged else None
      else None)"

text \<open>The guards run one after the other, the first refusal wins.\<close>

definition or_else :: "boot_error option \<Rightarrow> boot_error option \<Rightarrow> boot_error option" where
  "or_else a b = (case a of None \<Rightarrow> b | Some e \<Rightarrow> Some e)"

definition production_guards :: "boot_lib \<Rightarrow> settings \<Rightarrow> boot_error option" where
  "production_guards lib s =
     (if is_production s
      then or_else (secrets_guard s) (or_else (provider_guard s) (or_else (ingress_guard lib s) (moderator_guard s)))
      else None)"

datatype boot_warning = AccountCreationOpen | NobodyCanJoin

definition boot_warnings :: "settings \<Rightarrow> boot_warning list" where
  "boot_warnings s =
     (if is_production s \<and> st_social_signin_enabled s \<and> st_open_registration s = Some False then [AccountCreationOpen] else [])
     @ (if is_production s \<and> st_passkey_enabled s \<and> st_open_registration s = Some False \<and> \<not> st_social_signin_enabled s
        then [NobodyCanJoin] else [])"

definition resolve_registration :: "settings \<Rightarrow> settings" where
  "resolve_registration s =
     (if st_open_registration s = None then s\<lparr>st_open_registration := Some (\<not> is_production s)\<rparr> else s)"

definition harden_for_production :: "boot_lib \<Rightarrow> settings \<Rightarrow> boot_error + settings \<times> boot_warning list" where
  "harden_for_production lib s =
     (let s1 = strip_livekit s;
          s2 = strip_apns s1;
          s3 = s2\<lparr>st_fcm_service_account_json := py_strip (st_fcm_service_account_json s2)\<rparr>
      in case or_else (livekit_guard lib s1) (or_else (apns_guard lib s2) (or_else (fcm_guard lib s3)
               (or_else (island_guard s3) (production_guards lib s3)))) of
           Some e \<Rightarrow> Inl e
         | None \<Rightarrow> let s4 = resolve_registration s3 in Inr (s4, boot_warnings s4))"

text \<open>How the other components read these settings.\<close>

definition livekit_of :: "settings \<Rightarrow> livekit_settings" where
  "livekit_of s = \<lparr>lk_url = st_livekit_url s, lk_api_key = st_livekit_api_key s, lk_api_secret = st_livekit_api_secret s,
     lk_token_ttl_seconds = st_livekit_token_ttl_seconds s, lk_island_id = st_island_id s\<rparr>"

definition auth_of :: "settings \<Rightarrow> auth_settings \<Rightarrow> auth_settings" where
  "auth_of s rest = rest\<lparr>social_signin_enabled := st_social_signin_enabled s, open_registration := st_open_registration s = Some True\<rparr>"

text \<open>The account-creating doors the process serves: the password door is mounted outside production
  only.\<close>

definition served_doors :: "settings \<Rightarrow> door list" where
  "served_doors s = [PasskeyDoor, SocialDoor] @ (if \<not> is_production s then [PasswordDoor] else [])"

section \<open>Stripping\<close>

lemma dropWhile_idem: "dropWhile P (dropWhile P xs) = dropWhile P xs"
  by (induction xs) auto

lemma py_lstrip_idem [simp]: "py_lstrip (py_lstrip s) = py_lstrip s"
  by (simp add: py_lstrip_def dropWhile_idem)

lemma dropWhile_head: "dropWhile P xs = ys \<Longrightarrow> ys = [] \<or> \<not> P (hd ys)"
  using hd_dropWhile by blast

lemma py_strip_edges: "py_strip s = [] \<or> \<not> is_space (hd (py_strip s)) \<and> \<not> is_space (last (py_strip s))"
proof -
  let ?l = "dropWhile is_space s"
  have "py_strip s \<noteq> [] \<Longrightarrow> hd (py_strip s) = hd ?l"
  proof -
    assume ne: "py_strip s \<noteq> []"
    obtain ys where "?l = py_strip s @ ys"
      by (metis py_strip_def rev_append rev_rev_ident takeWhile_dropWhile_id)
    with ne show "hd (py_strip s) = hd ?l" by simp
  qed
  moreover have "py_strip s \<noteq> [] \<Longrightarrow> ?l \<noteq> []" by (auto simp: py_strip_def simp del: dropWhile_eq_Nil_conv)
  moreover have "py_strip s \<noteq> [] \<Longrightarrow> \<not> is_space (last (py_strip s))"
    by (simp add: py_strip_def last_rev hd_dropWhile)
  ultimately show ?thesis by (metis hd_dropWhile)
qed

lemma py_strip_fixed: "s = [] \<or> \<not> is_space (hd s) \<and> \<not> is_space (last s) \<Longrightarrow> py_strip s = s"
proof -
  assume a: "s = [] \<or> \<not> is_space (hd s) \<and> \<not> is_space (last s)"
  then have "dropWhile is_space s = s" by (cases s) auto
  moreover have "dropWhile is_space (rev s) = rev s" using a by (cases s rule: rev_cases) auto
  ultimately show ?thesis by (simp add: py_strip_def)
qed

lemma py_strip_idem [simp]: "py_strip (py_strip s) = py_strip s"
  by (rule py_strip_fixed [OF py_strip_edges])

lemma stripped_moderators_idem [simp]: "stripped_moderators (stripped_moderators ids) = stripped_moderators ids"
  by (simp add: stripped_moderators_def filter_map comp_def)

section \<open>Blank and padded variables\<close>

lemma field_names_distinct: "distinct (map fst model_fields)"
  by (simp add: model_fields_def CORE_FIELDS_def PUSH_FIELDS_def SOCIAL_FIELDS_def ISLAND_FIELDS_def SERVER_FIELDS_def)

definition normal_value :: "annotation \<Rightarrow> raw \<Rightarrow> raw option" where
  "normal_value a v =
     (case v of
        RawStr s \<Rightarrow> if py_strip s = [] then None else Some (RawStr (if whitespace_is_never_meaningful a then py_strip s else s))
      | RawVal j \<Rightarrow> Some (RawVal j))"

lemma map_of_update: "map_of (map (\<lambda>(n, w). if n = name then (n, v) else (n, w)) data) x =
    (if x = name \<and> map_of data name \<noteq> None then Some v else map_of data x)"
  by (induction data) auto

lemma map_of_remove: "map_of (filter (\<lambda>(n, _). n \<noteq> name) data) x = (if x = name then None else map_of data x)"
  by (induction data) auto

lemma normalise_field_lookup:
  "map_of (normalise_field (name, a) data) x =
     (if x = name then Option.bind (map_of data name) (normal_value a) else map_of data x)"
  by (auto simp: normalise_field_def normal_value_def map_of_update map_of_remove split: option.splits raw.splits)

lemma fold_normalise_lookup:
  assumes "distinct (map fst fs)"
  shows "map_of (fold normalise_field fs data) x =
     (case map_of fs x of None \<Rightarrow> map_of data x | Some a \<Rightarrow> Option.bind (map_of data x) (normal_value a))"
  using assms
proof (induction fs arbitrary: data)
  case (Cons f fs)
  obtain name a where f: "f = (name, a)" by (cases f)
  have "map_of fs name = None" using Cons.prems by (simp add: f map_of_eq_None_iff)
  with Cons show ?case by (auto simp: f normalise_field_lookup split: option.splits)
qed simp

text \<open>The rule the validator implements, field by field: a blank text is no value, a padded one loses its
  padding when the type cannot hold a text, and every other value is kept byte for byte.\<close>

theorem normalise_env_lookup:
  "map_of (normalise_env_strings data) x =
     (case map_of model_fields x of None \<Rightarrow> map_of data x | Some a \<Rightarrow> Option.bind (map_of data x) (normal_value a))"
  unfolding normalise_env_strings_def by (rule fold_normalise_lookup [OF field_names_distinct])

lemma normal_value_idem: "normal_value a v = Some w \<Longrightarrow> normal_value a w = Some w"
  by (auto simp: normal_value_def split: raw.splits if_splits)

section \<open>What boots is settled\<close>

lemma resolve_fields:
  "st_environment (resolve_registration s) = st_environment s"
  "st_jwt_secret (resolve_registration s) = st_jwt_secret s"
  "st_livekit_url (resolve_registration s) = st_livekit_url s"
  "st_livekit_api_key (resolve_registration s) = st_livekit_api_key s"
  "st_livekit_api_secret (resolve_registration s) = st_livekit_api_secret s"
  "st_apns_key_id (resolve_registration s) = st_apns_key_id s"
  "st_apns_team_id (resolve_registration s) = st_apns_team_id s"
  "st_apns_topic (resolve_registration s) = st_apns_topic s"
  "st_apns_voip_topic (resolve_registration s) = st_apns_voip_topic s"
  "st_apns_private_key (resolve_registration s) = st_apns_private_key s"
  "st_fcm_service_account_json (resolve_registration s) = st_fcm_service_account_json s"
  "st_social_signin_enabled (resolve_registration s) = st_social_signin_enabled s"
  "st_apple_client_ids (resolve_registration s) = st_apple_client_ids s"
  "st_google_client_ids (resolve_registration s) = st_google_client_ids s"
  "st_moderator_user_ids (resolve_registration s) = st_moderator_user_ids s"
  "st_github_client_id (resolve_registration s) = st_github_client_id s"
  "st_github_client_secret (resolve_registration s) = st_github_client_secret s"
  "st_gateway_base_url (resolve_registration s) = st_gateway_base_url s"
  "st_island_id (resolve_registration s) = st_island_id s"
  "st_island_mode (resolve_registration s) = st_island_mode s"
  "st_island_signing_seed (resolve_registration s) = st_island_signing_seed s"
  "st_csam_runbook_acknowledged (resolve_registration s) = st_csam_runbook_acknowledged s"
  "st_passkey_enabled (resolve_registration s) = st_passkey_enabled s"
  "st_passkey_rp_id (resolve_registration s) = st_passkey_rp_id s"
  by (simp_all add: resolve_registration_def)

lemma resolve_production: "is_production (resolve_registration s) = is_production s"
  by (simp add: is_production_def resolve_fields)

lemma strip_apns_fields:
  "st_environment (strip_apns s) = st_environment s"
  "st_jwt_secret (strip_apns s) = st_jwt_secret s"
  "st_livekit_url (strip_apns s) = st_livekit_url s"
  "st_livekit_api_key (strip_apns s) = st_livekit_api_key s"
  "st_livekit_api_secret (strip_apns s) = st_livekit_api_secret s"
  "st_fcm_service_account_json (strip_apns s) = st_fcm_service_account_json s"
  "st_social_signin_enabled (strip_apns s) = st_social_signin_enabled s"
  "st_apple_client_ids (strip_apns s) = st_apple_client_ids s"
  "st_google_client_ids (strip_apns s) = st_google_client_ids s"
  "st_moderator_user_ids (strip_apns s) = st_moderator_user_ids s"
  "st_github_client_id (strip_apns s) = st_github_client_id s"
  "st_github_client_secret (strip_apns s) = st_github_client_secret s"
  "st_gateway_base_url (strip_apns s) = st_gateway_base_url s"
  "st_island_id (strip_apns s) = st_island_id s"
  "st_island_mode (strip_apns s) = st_island_mode s"
  "st_island_signing_seed (strip_apns s) = st_island_signing_seed s"
  "st_csam_runbook_acknowledged (strip_apns s) = st_csam_runbook_acknowledged s"
  "st_passkey_enabled (strip_apns s) = st_passkey_enabled s"
  "st_passkey_rp_id (strip_apns s) = st_passkey_rp_id s"
  by (simp_all add: strip_apns_def)

lemma strip_apns_production: "is_production (strip_apns s) = is_production s"
  by (simp add: is_production_def strip_apns_fields)

lemma fcm_production: "is_production (s\<lparr>st_fcm_service_account_json := b\<rparr>) = is_production s"
  by (simp add: is_production_def)

lemma fcm_fields:
  "st_environment (s\<lparr>st_fcm_service_account_json := b\<rparr>) = st_environment s"
  "st_livekit_url (s\<lparr>st_fcm_service_account_json := b\<rparr>) = st_livekit_url s"
  "st_livekit_api_key (s\<lparr>st_fcm_service_account_json := b\<rparr>) = st_livekit_api_key s"
  "st_livekit_api_secret (s\<lparr>st_fcm_service_account_json := b\<rparr>) = st_livekit_api_secret s"
  "st_apns_key_id (s\<lparr>st_fcm_service_account_json := b\<rparr>) = st_apns_key_id s"
  "st_apns_team_id (s\<lparr>st_fcm_service_account_json := b\<rparr>) = st_apns_team_id s"
  "st_apns_topic (s\<lparr>st_fcm_service_account_json := b\<rparr>) = st_apns_topic s"
  "st_apns_voip_topic (s\<lparr>st_fcm_service_account_json := b\<rparr>) = st_apns_voip_topic s"
  "st_apns_private_key (s\<lparr>st_fcm_service_account_json := b\<rparr>) = st_apns_private_key s"
  "st_island_id (s\<lparr>st_fcm_service_account_json := b\<rparr>) = st_island_id s"
  by simp_all

lemmas frame_facts = fcm_fields resolve_fields resolve_production strip_apns_fields strip_apns_production fcm_production

lemma frames:
  "livekit_guard lib (strip_apns s) = livekit_guard lib s"
  "livekit_guard lib (s\<lparr>st_fcm_service_account_json := b\<rparr>) = livekit_guard lib s"
  "livekit_guard lib (resolve_registration s) = livekit_guard lib s"
  "apns_guard lib (s\<lparr>st_fcm_service_account_json := b\<rparr>) = apns_guard lib s"
  "apns_guard lib (resolve_registration s) = apns_guard lib s"
  "fcm_guard lib (resolve_registration s) = fcm_guard lib s"
  "island_guard (resolve_registration s) = island_guard s"
  "production_guards lib (resolve_registration s) = production_guards lib s"
  unfolding livekit_guard_def apns_guard_def apns_values_def fcm_guard_def island_guard_def production_guards_def secrets_guard_def
    provider_guard_def ingress_guard_def moderator_guard_def
  by (simp_all only: frame_facts)

definition stored :: "settings \<Rightarrow> settings" where
  "stored s = (let s2 = strip_apns (strip_livekit s)
     in resolve_registration (s2\<lparr>st_fcm_service_account_json := py_strip (st_fcm_service_account_json s2)\<rparr>))"

definition refusal :: "boot_lib \<Rightarrow> settings \<Rightarrow> boot_error option" where
  "refusal lib s = or_else (livekit_guard lib s) (or_else (apns_guard lib s) (or_else (fcm_guard lib s)
     (or_else (island_guard s) (production_guards lib s))))"

lemma harden_stored:
  "harden_for_production lib s = (case refusal lib (stored s) of Some e \<Rightarrow> Inl e | None \<Rightarrow> Inr (stored s, boot_warnings (stored s)))"
  unfolding harden_for_production_def stored_def refusal_def Let_def frames ..

lemma stored_idem [simp]: "stored (stored s) = stored s"
  by (cases s) (simp add: stored_def strip_apns_def strip_livekit_def resolve_registration_def is_production_def Let_def)

lemma stored_fields [simp]:
  "st_environment (stored s) = st_environment s" "st_social_signin_enabled (stored s) = st_social_signin_enabled s"
  "st_passkey_enabled (stored s) = st_passkey_enabled s" "st_island_id (stored s) = py_strip (st_island_id s)"
  "is_production (stored s) = is_production s" "st_livekit_url (stored s) = st_livekit_url s"
  "st_open_registration (stored s) = Some (case st_open_registration s of None \<Rightarrow> \<not> is_production s | Some b \<Rightarrow> b)"
  by (cases s; auto simp: stored_def strip_apns_def strip_livekit_def resolve_registration_def is_production_def Let_def split: option.splits)+

lemma harden_okE:
  assumes "harden_for_production lib s = Inr (s', ws)"
  obtains "s' = stored s" "ws = boot_warnings (stored s)" "livekit_guard lib s' = None" "apns_guard lib s' = None" "fcm_guard lib s' = None"
    "island_guard s' = None" "production_guards lib s' = None"
  using assms by (auto simp: harden_stored refusal_def or_else_def split: option.splits)

text \<open>What boots is settled: the stored settings, read again, boot to themselves with the same
  warnings. No padded credential, topic or moderator id survives in a stored value, so the value a
  guard judged is the value every component works with.\<close>

theorem stored_settings_settled:
  assumes "harden_for_production lib s = Inr (s', ws)"
  shows "harden_for_production lib s' = Inr (s', ws)"
proof -
  from assms have "s' = stored s" by (rule harden_okE)
  with assms show ?thesis by (simp add: harden_stored split: option.splits)
qed


section \<open>One media server, many islands\<close>

lemma livekit_guard_remote:
  assumes "livekit_guard lib s = None" "livekit_configured (livekit_of s)"
    and "is_production s \<or> hostname lib (st_livekit_url s) \<notin> {''localhost'', ''127.0.0.1'', ''::1''}"
  shows "st_island_id s \<noteq> []" "MIN_PROD_SECRET_LEN \<le> length (st_livekit_api_secret s)"
    "up_scheme (bl_urlparse lib (st_livekit_url s)) = ''wss''"
proof -
  have "st_livekit_api_key s \<noteq> []" "st_livekit_api_secret s \<noteq> []" using assms(2) by (simp_all add: livekit_configured_def livekit_of_def)
  with assms(1,3) have "st_island_id s \<noteq> [] \<and> MIN_PROD_SECRET_LEN \<le> length (st_livekit_api_secret s) \<and>
      up_scheme (bl_urlparse lib (st_livekit_url s)) = ''wss''"
    unfolding livekit_guard_def Let_def by (simp split: if_splits)
  then show "st_island_id s \<noteq> []" "MIN_PROD_SECRET_LEN \<le> length (st_livekit_api_secret s)"
    "up_scheme (bl_urlparse lib (st_livekit_url s)) = ''wss''" by blast+
qed

lemma colon_split:
  assumes "g @ CHR '':'' # a = h @ CHR '':'' # b" "CHR '':'' \<notin> set a" "CHR '':'' \<notin> set b"
  shows "g = h \<and> a = b"
proof -
  have "takeWhile (\<lambda>c. c \<noteq> CHR '':'') (rev (x @ CHR '':'' # y)) = rev y" if "CHR '':'' \<notin> set y" for x y :: string
    using that by (simp add: takeWhile_append)
  from this [OF assms(2), of g] this [OF assms(3), of h] assms(1) have "a = b" by (metis rev_rev_ident)
  with assms(1) show ?thesis by simp
qed

text \<open>C35: islands that share a media server never reach into each other's calls: two settings that boot
  against a server that is not a non-production loopback, with different island ids, never put the
  same room or the same participant into a token, whichever channels and users they mint for, and
  both sign with a secret of at least 32 characters.\<close>

theorem islands_never_share_a_room:
  assumes "harden_for_production lib s = Inr (s', ws)" and "harden_for_production lib t = Inr (t', wt)"
    and "livekit_configured (livekit_of s')" and "livekit_configured (livekit_of t')"
    and "\<forall>x \<in> {s', t'}. is_production x \<or> hostname lib (st_livekit_url x) \<notin> {''localhost'', ''127.0.0.1'', ''::1''}"
    and "st_island_id s' \<noteq> st_island_id t'"
    and "CHR '':'' \<notin> set a" and "CHR '':'' \<notin> set b"
  shows "room_for_channel (livekit_of s') a \<noteq> room_for_channel (livekit_of t') b \<and>
    jget ''sub'' (room_payload (livekit_of s') now jti a name room p q r) \<noteq> jget ''sub'' (room_payload (livekit_of t') now' jti' b name' room' p' q' r') \<and>
    MIN_PROD_SECRET_LEN \<le> length (lk_api_secret (livekit_of s')) \<and> MIN_PROD_SECRET_LEN \<le> length (lk_api_secret (livekit_of t'))"
proof -
  have s: "livekit_guard lib s' = None" using assms(1) by (rule harden_okE)
  have t: "livekit_guard lib t' = None" using assms(2) by (rule harden_okE)
  have ids: "st_island_id s' \<noteq> []" "st_island_id t' \<noteq> []"
    and len: "MIN_PROD_SECRET_LEN \<le> length (st_livekit_api_secret s')" "MIN_PROD_SECRET_LEN \<le> length (st_livekit_api_secret t')"
    using livekit_guard_remote [OF s assms(3)] livekit_guard_remote [OF t assms(4)] assms(5) by simp_all
  have "namespaced (livekit_of s') a \<noteq> namespaced (livekit_of t') b"
    using colon_split [of "st_island_id s'" a "st_island_id t'" b] ids assms(6-8) by (auto simp: namespaced_def livekit_of_def)
  with len show ?thesis by (simp add: room_for_channel_def room_payload_def livekit_of_def)
qed

section \<open>Who can join\<close>

lemma production_ingress:
  assumes "production_guards lib s = None" "is_production s"
  shows "st_passkey_enabled s \<or> st_social_signin_enabled s"
  using assms by (auto simp: production_guards_def or_else_def ingress_guard_def split: option.splits if_splits)

text \<open>C36: the boot says exactly what is true of account creation: a production island warns that nobody can
  join precisely when every door it serves refuses, and then no sign-in door adds an account; and it
  warns that accounts are created although registration is closed precisely when registration is
  closed and some door is open.\<close>

theorem closed_island_is_announced:
  assumes "harden_for_production lib s = Inr (s', ws)" and "is_production s"
  shows "(NobodyCanJoin \<in> set ws \<longleftrightarrow> (\<forall>dr \<in> set (served_doors s'). require_may_provision_account (auth_of s' rest) dr = Inl (Http 403))) \<and>
    (AccountCreationOpen \<in> set ws \<longleftrightarrow> st_open_registration s' = Some False \<and>
       (\<exists>dr \<in> set (served_doors s'). require_may_provision_account (auth_of s' rest) dr = Inr ())) \<and>
    (NobodyCanJoin \<in> set ws \<longrightarrow>
       snd (social_claim enc dec (auth_of s' rest) now user_id si tok handle nm d) = d \<and>
       snd (passkey_register_finish enc unb64 attest (auth_of s' rest) now attempts state credential d) = d)"
proof -
  have h: "s' = stored s" "ws = boot_warnings s'" "production_guards lib s' = None" using assms(1) by (auto elim: harden_okE)
  have prod: "is_production s'" using h(1) assms(2) by simp
  obtain b where b: "st_open_registration s' = Some b" unfolding h(1) by simp
  have ingress: "st_passkey_enabled s' \<or> st_social_signin_enabled s'" using production_ingress [OF h(3) prod] .
  have warn: "NobodyCanJoin \<in> set ws \<longleftrightarrow> \<not> b \<and> \<not> st_social_signin_enabled s'"
    "AccountCreationOpen \<in> set ws \<longleftrightarrow> \<not> b \<and> st_social_signin_enabled s'"
    using ingress by (auto simp: h(2) boot_warnings_def prod b)
  have doors: "set (served_doors s') = {PasskeyDoor, SocialDoor}" by (simp add: served_doors_def prod)
  have cfg: "open_registration (auth_of s' rest) = b" "social_signin_enabled (auth_of s' rest) = st_social_signin_enabled s'"
    by (simp_all add: auth_of_def b)
  show ?thesis
    unfolding warn doors
    by (auto simp: require_may_provision_account_def cfg b social_claim_def passkey_register_finish_def split: sum.splits)
qed

section \<open>An operator who says nothing\<close>

lemma dev_seed: "decode_seed DEV_ISLAND_SEED \<noteq> Inl IslandIdentityError"
  by code_simp

lemma decode_seed_ok: "decode_seed x \<noteq> Inl IslandIdentityError \<Longrightarrow> \<exists>seed. decode_seed x = Inr seed"
  by (cases "decode_seed x"; cases "projl (decode_seed x)") auto

lemma default_stored: "stored (default_settings\<lparr>st_environment := e\<rparr>) =
    resolve_registration (default_settings\<lparr>st_environment := e\<rparr>)"
  by (simp add: stored_def strip_livekit_def strip_apns_def default_settings_def stripped_moderators_def py_strip_def py_lstrip_def Let_def)

text \<open>An environment that says nothing is production and refused for its signing secret; the same values
  declared a development box boot, with registration open and nothing to warn of.\<close>

theorem silence_is_production:
  "harden_for_production lib default_settings = Inl JwtDevDefault"
  "harden_for_production lib (default_settings\<lparr>st_environment := ''dev''\<rparr>) =
     Inr (default_settings\<lparr>st_environment := ''dev'', st_open_registration := Some True\<rparr>, [])"
proof -
  obtain seed where seed: "decode_seed DEV_ISLAND_SEED = Inr seed" using decode_seed_ok [OF dev_seed] by blast
  have env: "\<not> is_production (default_settings\<lparr>st_environment := ''dev''\<rparr>)" "is_production (default_settings\<lparr>st_environment := ''production''\<rparr>)"
    by (simp_all add: is_production_def) (code_simp+)
  have st_jwt: "st_jwt_secret (default_settings\<lparr>st_environment := e\<rparr>) = DEV_JWT_SECRET" for e by (simp add: default_settings_def)
  have quiet: "livekit_guard lib (default_settings\<lparr>st_environment := e\<rparr>) = None" "apns_guard lib (default_settings\<lparr>st_environment := e\<rparr>) = None"
    "fcm_guard lib (default_settings\<lparr>st_environment := e\<rparr>) = None" "island_guard (default_settings\<lparr>st_environment := e\<rparr>) = None" for e
    by (simp_all add: default_settings_def livekit_guard_def apns_guard_def apns_values_def fcm_guard_def island_guard_def seed)
  have "refusal lib (stored (default_settings\<lparr>st_environment := ''production''\<rparr>)) = Some JwtDevDefault"
    by (simp add: default_stored refusal_def frames quiet or_else_def production_guards_def [of lib "default_settings\<lparr>st_environment := ''production''\<rparr>"]
        env secrets_guard_def st_jwt)
  moreover have "default_settings\<lparr>st_environment := ''production''\<rparr> = default_settings" by (simp add: default_settings_def)
  ultimately show "harden_for_production lib default_settings = Inl JwtDevDefault" by (simp add: harden_stored)
  have "stored (default_settings\<lparr>st_environment := ''dev''\<rparr>) = default_settings\<lparr>st_environment := ''dev'', st_open_registration := Some True\<rparr>"
    unfolding default_stored resolve_registration_def by (simp add: env) (simp add: default_settings_def)
  moreover have "refusal lib (stored (default_settings\<lparr>st_environment := ''dev''\<rparr>)) = None"
    by (simp add: default_stored refusal_def frames quiet or_else_def production_guards_def resolve_production env)
  moreover have "boot_warnings (stored (default_settings\<lparr>st_environment := ''dev''\<rparr>)) = []"
    by (simp add: boot_warnings_def env)
  ultimately show "harden_for_production lib (default_settings\<lparr>st_environment := ''dev''\<rparr>) =
     Inr (default_settings\<lparr>st_environment := ''dev'', st_open_registration := Some True\<rparr>, [])" by (simp add: harden_stored)
qed

section \<open>Examples\<close>

definition ex_lib :: boot_lib where
  "ex_lib = \<lparr>bl_urlparse = (\<lambda>_. \<lparr>up_scheme = ''wss'', up_netloc = ''sfu'', up_path = [], up_hostname = Some ''sfu.example''\<rparr>),
     bl_pem = (\<lambda>_. UnreadablePem), bl_loads = (\<lambda>_. None), bl_zero = (\<lambda>_. False)\<rparr>"

definition ex_prod :: "string \<Rightarrow> bool \<Rightarrow> settings" where
  "ex_prod i soc = default_settings\<lparr>st_jwt_secret := replicate 32 CHR ''x'', st_island_signing_seed := replicate 43 CHR ''A'',
     st_livekit_api_key := ''k'', st_livekit_api_secret := replicate 32 CHR ''s'', st_island_id := i,
     st_social_signin_enabled := soc, st_apple_client_ids := [''app''], st_moderator_user_ids := [''  m ''],
     st_passkey_enabled := True, st_passkey_rp_id := ''sfu.example'', st_csam_runbook_acknowledged := True\<rparr>"

definition boots_with :: "settings \<Rightarrow> boot_warning list \<Rightarrow> string \<Rightarrow> bool" where
  "boots_with s ws i = (case harden_for_production ex_lib s of Inl _ \<Rightarrow> False
     | Inr (s', ws') \<Rightarrow> ws' = ws \<and> st_island_id s' = i \<and> livekit_configured (livekit_of s') \<and> is_production s'
         \<and> st_moderator_user_ids s' = [''m''])"

lemma ex_prod_boots:
  "boots_with (ex_prod '' a '' False) [NobodyCanJoin] ''a''" "boots_with (ex_prod ''b'' True) [AccountCreationOpen] ''b''"
  by code_simp+

lemma ex_prodE:
  obtains s' t' where "harden_for_production ex_lib (ex_prod '' a '' False) = Inr (s', [NobodyCanJoin])"
    "harden_for_production ex_lib (ex_prod ''b'' True) = Inr (t', [AccountCreationOpen])"
    "livekit_configured (livekit_of s')" "livekit_configured (livekit_of t')" "is_production s'" "is_production t'"
    "st_island_id s' = ''a''" "st_island_id t' = ''b''"
  using ex_prod_boots unfolding boots_with_def by (auto split: sum.splits prod.splits)

theorem islands_never_share_a_room_witness:
  "\<exists>s' t'. harden_for_production ex_lib (ex_prod '' a '' False) = Inr (s', [NobodyCanJoin]) \<and>
     harden_for_production ex_lib (ex_prod ''b'' True) = Inr (t', [AccountCreationOpen]) \<and>
     room_for_channel (livekit_of s') ''c'' \<noteq> room_for_channel (livekit_of t') ''c''"
proof -
  obtain s' t' where h: "harden_for_production ex_lib (ex_prod '' a '' False) = Inr (s', [NobodyCanJoin])"
    "harden_for_production ex_lib (ex_prod ''b'' True) = Inr (t', [AccountCreationOpen])"
    "livekit_configured (livekit_of s')" "livekit_configured (livekit_of t')" "is_production s'" "is_production t'"
    "st_island_id s' = ''a''" "st_island_id t' = ''b''" by (rule ex_prodE)
  have "room_for_channel (livekit_of s') ''c'' \<noteq> room_for_channel (livekit_of t') ''c''"
    by (rule conjunct1 [OF islands_never_share_a_room [OF h(1-4)]]) (simp_all add: h(5-8))
  with h(1,2) show ?thesis by blast
qed

theorem closed_island_is_announced_witness:
  "\<exists>s'. harden_for_production ex_lib (ex_prod '' a '' False) = Inr (s', [NobodyCanJoin]) \<and>
     require_may_provision_account (auth_of s' ex_settings) SocialDoor = Inl (Http 403)"
proof -
  obtain s' where h: "harden_for_production ex_lib (ex_prod '' a '' False) = Inr (s', [NobodyCanJoin])" "is_production s'"
    by (rule ex_prodE)
  have "is_production (ex_prod '' a '' False)" by code_simp
  from conjunct1 [OF closed_island_is_announced [OF h(1) this]]
  have "require_may_provision_account (auth_of s' ex_settings) SocialDoor = Inl (Http 403)" by (simp add: served_doors_def h(2))
  with h(1) show ?thesis by blast
qed

end
