(* ===== verification/Ops.thy ===== *)
theory Ops
  imports Decimal Islands
begin

text \<open>What surrounds the routes: the cap on request bodies (\<open>middleware.py\<close>), the redaction of
  credentials in the logs (\<open>log_redaction.py\<close>), the release check (\<open>domain/update_nudge.py\<close>) and the
  build provenance (\<open>build_info.py\<close>). Text is Latin-1; the \<open>%\<close> operator, the HTTP answer and the file
  are arguments.\<close>

section \<open>The body cap\<close>

text \<open>\<open>int(value)\<close> on bytes strips ASCII whitespace only.\<close>

definition ascii_space :: "char \<Rightarrow> bool" where
  "ascii_space c \<longleftrightarrow> of_char c \<in> {9 :: nat, 10, 11, 12, 13, 32}"

definition py_int_bytes :: "string \<Rightarrow> int option" where
  "py_int_bytes s =
     (let t = rev (dropWhile ascii_space (rev (dropWhile ascii_space s)))
      in if py_strip t \<noteq> t then None else py_int_text t)"

datatype asgi_message = Disconnect | BodyPart string bool

text \<open>What the middleware does with a scope: hand it over untouched, answer 413, hand the disconnect over,
  or replay the whole body; a stream that ends with more announced leaves it waiting.\<close>

datatype served = Untouched | Rejected413 | Disconnected | Replayed string | Waiting

fun declared_length :: "(string \<times> string) list \<Rightarrow> int option" where
  "declared_length [] = None"
| "declared_length ((name, v) # hs) = (if name = ''content-length'' then py_int_bytes v else declared_length hs)"

fun buffer_body :: "int \<Rightarrow> string \<Rightarrow> asgi_message list \<Rightarrow> served" where
  "buffer_body max_bytes got [] = Waiting"
| "buffer_body max_bytes got (Disconnect # ms) = Disconnected"
| "buffer_body max_bytes got (BodyPart body more_body # ms) =
     (if int (length (got @ body)) > max_bytes then Rejected413
      else if more_body then buffer_body max_bytes (got @ body) ms
      else Replayed (got @ body))"

definition content_size_limit :: "int \<Rightarrow> string \<Rightarrow> (string \<times> string) list \<Rightarrow> asgi_message list \<Rightarrow> served" where
  "content_size_limit max_bytes scope_type headers received =
     (if scope_type \<noteq> ''http'' then Untouched
      else case declared_length headers of
             Some n \<Rightarrow> if n > max_bytes then Rejected413 else buffer_body max_bytes [] received
           | None \<Rightarrow> buffer_body max_bytes [] received)"

text \<open>The replayed receive: the body once, then the disconnect.\<close>

definition replay_receive :: "string \<Rightarrow> bool \<Rightarrow> asgi_message \<times> bool" where
  "replay_receive body replayed = (if \<not> replayed then (BodyPart body False, True) else (Disconnect, replayed))"

section \<open>Redaction\<close>

definition is_hex :: "char \<Rightarrow> bool" where
  "is_hex c \<longleftrightarrow> is_digit c \<or> code_in 97 102 c \<or> code_in 65 70 c"

text \<open>\<open>\\w\<close> on Latin-1.\<close>

definition is_word :: "char \<Rightarrow> bool" where
  "is_word c \<longleftrightarrow> is_digit c \<or> code_in 97 122 c \<or> code_in 65 90 c \<or> c = CHR ''_'' \<or>
     of_char c \<in> {170 :: nat, 178, 179, 181, 185, 186, 188, 189, 190} \<or>
     code_in 192 214 c \<or> code_in 216 246 c \<or> code_in 248 255 c"

text \<open>\<open>LONG_HEX.sub\<close>: \<open>prev\<close> is whether the character before is a word character. The pattern has a word
  boundary on both sides, so it matches exactly a run of at least 32 hex digits that is a whole word.\<close>

function redact_hex :: "bool \<Rightarrow> string \<Rightarrow> string" where
  "redact_hex prev [] = []"
| "redact_hex prev (c # cs) =
     (if is_hex c \<and> \<not> prev \<and> 31 \<le> length (takeWhile is_hex cs) \<and>
         (dropWhile is_hex cs = [] \<or> \<not> is_word (hd (dropWhile is_hex cs)))
      then take 12 (c # takeWhile is_hex cs) @ ''...'' @ redact_hex True (dropWhile is_hex cs)
      else c # redact_hex (is_word c) cs)"
  by pat_completeness auto
termination by (relation "measure (\<lambda>(_, s). length s)") (simp_all add: length_dropWhile_le less_Suc_eq_le)

definition SECRET_PARAMS :: "string list" where
  "SECRET_PARAMS = [''token'', ''access_token'', ''refresh_token'', ''id_token'', ''code'', ''state'']"

definition value_char :: "char \<Rightarrow> bool" where
  "value_char c \<longleftrightarrow> c \<noteq> CHR ''&'' \<and> \<not> is_space c \<and> c \<noteq> CHR 0x22 \<and> c \<noteq> CHR 0x27"

definition param_name :: "string \<Rightarrow> string" where
  "param_name s = takeWhile (\<lambda>c. c \<noteq> CHR ''='') s"

definition param_rest :: "string \<Rightarrow> string" where
  "param_rest s = drop (Suc (length (param_name s))) s"

text \<open>After a \<open>?\<close> or \<open>&\<close>: one of the names, an equals sign, at least one character of a value.\<close>

definition secret_at :: "char \<Rightarrow> string \<Rightarrow> bool" where
  "secret_at c cs \<longleftrightarrow> (c = CHR ''?'' \<or> c = CHR ''&'') \<and> py_lower (param_name cs) \<in> set SECRET_PARAMS \<and>
     param_name cs \<noteq> cs \<and> param_rest cs \<noteq> [] \<and> value_char (hd (param_rest cs))"

lemma param_rest_shorter: "length (param_rest cs) \<le> length cs"
  by (simp add: param_rest_def)

function redact_query :: "string \<Rightarrow> string" where
  "redact_query [] = []"
| "redact_query (c # cs) =
     (if secret_at c cs
      then c # param_name cs @ ''='' @ ''<redacted>'' @ redact_query (dropWhile value_char (param_rest cs))
      else c # redact_query cs)"
  by pat_completeness auto
termination
proof (relation "measure length")
  fix c and cs :: string
  have "length (dropWhile value_char (param_rest cs)) \<le> length cs"
    by (rule order_trans [OF length_dropWhile_le param_rest_shorter])
  then show "(dropWhile value_char (param_rest cs), c # cs) \<in> measure length" by simp
qed simp_all

definition redact :: "string \<Rightarrow> string" where
  "redact txt = redact_query (redact_hex False txt)"

text \<open>An argument of a record: a string, a plain number, boolean or None, or an object with the text its
  \<open>str()\<close> gives, if any.\<close>

datatype log_arg = ArgStr string | ArgPlain json | ArgObj "string option"

definition redact_arg :: "log_arg \<Rightarrow> log_arg" where
  "redact_arg a =
     (case a of
        ArgStr s \<Rightarrow> ArgStr (redact s)
      | ArgPlain j \<Rightarrow> ArgPlain j
      | ArgObj None \<Rightarrow> a
      | ArgObj (Some as_text) \<Rightarrow> if redact as_text \<noteq> as_text then ArgStr (redact as_text) else a)"

datatype log_msg = MsgStr string | MsgObj "string + string"
datatype log_args = TupleArgs "log_arg list" | DictArgs "(string \<times> log_arg) list"

text \<open>A record with what \<open>logging.Formatter\<close> prints of it: \<open>lr_exc_info\<close> is the text \<open>formatException\<close>
  makes of the exception, \<open>lr_exc_text\<close> the text an earlier handler left, \<open>lr_stack_info\<close> the stack.\<close>

record log_record =
  lr_msg :: log_msg
  lr_args :: log_args
  lr_exc_info :: "string option"
  lr_exc_text :: "string option"
  lr_stack_info :: "string option"

text \<open>\<open>getMessage\<close>; a left value is the name of the exception raised.\<close>

definition msg_text :: "log_msg \<Rightarrow> string + string" where
  "msg_text m = (case m of MsgStr s \<Rightarrow> Inr s | MsgObj r \<Rightarrow> r)"

definition record_message :: "(string \<Rightarrow> log_args \<Rightarrow> string + string) \<Rightarrow> log_record \<Rightarrow> string + string" where
  "record_message percent r =
     (case msg_text (lr_msg r) of
        Inl e \<Rightarrow> Inl e
      | Inr s \<Rightarrow> if lr_args r = TupleArgs [] \<or> lr_args r = DictArgs [] then Inr s else percent s (lr_args r))"

text \<open>\<open>Formatter.format\<close>: the format with the message in it, then the exception, then the stack, each on a
  line of its own. \<open>fmt\<close> is what the format string makes of the message.\<close>

definition on_new_line :: "string \<Rightarrow> string \<Rightarrow> string" where
  "on_new_line s block =
     (if block = [] then s else if s \<noteq> [] \<and> last s = CHR 0x0A then s @ block else s @ CHR 0x0A # block)"

definition exception_text :: "log_record \<Rightarrow> string" where
  "exception_text r =
     (case lr_exc_text r of
        Some (c # cs) \<Rightarrow> c # cs
      | _ \<Rightarrow> (case lr_exc_info r of None \<Rightarrow> [] | Some s \<Rightarrow> s))"

definition stack_text :: "log_record \<Rightarrow> string" where
  "stack_text r = (case lr_stack_info r of None \<Rightarrow> [] | Some s \<Rightarrow> s)"

definition format_record :: "(string \<Rightarrow> log_args \<Rightarrow> string + string) \<Rightarrow> (string \<Rightarrow> string) \<Rightarrow> log_record \<Rightarrow> string + string" where
  "format_record percent fmt r =
     (case record_message percent r of
        Inl e \<Rightarrow> Inl e
      | Inr message \<Rightarrow> Inr (on_new_line (on_new_line (fmt message) (exception_text r)) (stack_text r)))"

definition withheld :: "string \<Rightarrow> string" where
  "withheld e = ''<log record withheld: credential redaction failed ('' @ e @ '')>''"

definition redact_parts :: "log_record \<Rightarrow> log_record" where
  "redact_parts r =
     r\<lparr>lr_msg := (case lr_msg r of MsgStr s \<Rightarrow> MsgStr (redact s) | m \<Rightarrow> m),
       lr_args := (case lr_args r of TupleArgs as \<Rightarrow> TupleArgs (map redact_arg as)
                   | DictArgs kvs \<Rightarrow> DictArgs (map (\<lambda>(k, v). (k, redact_arg v)) kvs))\<rparr>"

definition redact_record :: "(string \<Rightarrow> log_args \<Rightarrow> string + string) \<Rightarrow> log_record \<Rightarrow> log_record" where
  "redact_record percent r =
     (let r1 = redact_parts r
      in case record_message percent r1 of
           Inl e \<Rightarrow> r1\<lparr>lr_msg := MsgStr (withheld e), lr_args := TupleArgs []\<rparr>
         | Inr message \<Rightarrow>
             if redact message \<noteq> message then r1\<lparr>lr_msg := MsgStr (redact message), lr_args := TupleArgs []\<rparr> else r1)"

text \<open>\<open>install\<close>: every handler gets the filter at most once; the count is of the new ones.\<close>

definition install :: "bool list \<Rightarrow> nat \<times> bool list" where
  "install handlers = (length (filter Not handlers), map (\<lambda>_. True) handlers)"

section \<open>The release check\<close>

datatype update_nudge = NudgeOff | NudgeMajor | NudgeMinor | NudgeAll

definition semver :: "string \<Rightarrow> (string \<times> string \<times> string) option" where
  "semver s =
     (let t = (case s of c # cs \<Rightarrow> if c = CHR ''v'' then cs else s | [] \<Rightarrow> []);
          a = takeWhile is_digit t; r1 = dropWhile is_digit t
      in case r1 of
           c # t2 \<Rightarrow>
             (let b = takeWhile is_digit t2; r2 = dropWhile is_digit t2
              in case r2 of
                   c' # t3 \<Rightarrow>
                     if c = CHR ''.'' \<and> c' = CHR ''.'' \<and> a \<noteq> [] \<and> b \<noteq> [] \<and> t3 \<noteq> [] \<and> list_all is_digit t3
                     then Some (a, b, t3) else None
                 | [] \<Rightarrow> None)
         | [] \<Rightarrow> None)"

type_synonym version = "int \<times> int \<times> int"

text \<open>The left value is an exception: a truthy value that is no string has no \<open>strip\<close>, and a field of more
  digits than Python converts raises. \<open>zero\<close> tells a float that is zero.\<close>

datatype nudge_error = VersionRaised

definition parse_version :: "(string \<Rightarrow> bool) \<Rightarrow> json \<Rightarrow> nudge_error + version option" where
  "parse_version zero v =
     (case v of
        JStr s \<Rightarrow>
          (if s = [] then Inr None
           else case semver (py_strip s) of
                  None \<Rightarrow> Inr None
                | Some (a, b, c) \<Rightarrow>
                    (case (py_int_text a, py_int_text b, py_int_text c) of
                       (Some x, Some y, Some z) \<Rightarrow> Inr (Some (x, y, z))
                     | _ \<Rightarrow> Inl VersionRaised))
      | JNull \<Rightarrow> Inr None
      | JBool b \<Rightarrow> if b then Inl VersionRaised else Inr None
      | JInt i \<Rightarrow> if i = 0 then Inr None else Inl VersionRaised
      | JFloat t \<Rightarrow> if zero t then Inr None else Inl VersionRaised
      | JList xs \<Rightarrow> if xs = [] then Inr None else Inl VersionRaised
      | JObj kvs \<Rightarrow> if kvs = [] then Inr None else Inl VersionRaised)"

fun version_le :: "version \<Rightarrow> version \<Rightarrow> bool" where
  "version_le (a, b, c) (a', b', c') \<longleftrightarrow> a < a' \<or> a = a' \<and> (b < b' \<or> b = b' \<and> c \<le> c')"

fun should_nudge :: "version option \<Rightarrow> version option \<Rightarrow> update_nudge \<Rightarrow> bool" where
  "should_nudge (Some (a, b, c)) (Some (a', b', c')) level =
     (if level = NudgeOff then False
      else if version_le (a', b', c') (a, b, c) then False
      else if a' \<noteq> a then True
      else if b' \<noteq> b then level = NudgeMinor \<or> level = NudgeAll
      else level = NudgeAll)"
| "should_nudge _ _ level = False"

text \<open>The dash of the line, in UTF-8.\<close>

definition EM_DASH :: string where "EM_DASH = [CHR 0xE2, CHR 0x80, CHR 0x94]"

definition render_nudge :: "string \<Rightarrow> string \<Rightarrow> string \<Rightarrow> string" where
  "render_nudge current latest url =
     ''a newer island release is available: '' @ latest @ '' (this island runs '' @ current @ ''). Release notes: '' @ url
     @ '' '' @ EM_DASH @ '' to take it, set image.env to ISLAND_IMAGE=ghcr.io/nickmeinhold/aiko-chat-island:''
     @ dropWhile (\<lambda>c. c = CHR ''v'') latest
     @ '' and run deploy/update.sh. This island will NOT update itself. Set ISLAND_UPDATE_NUDGE=off to stop this check.''"

datatype release_answer = LookupRaised | Answered int "json option"

definition DEFAULT_RELEASES_URL :: string where
  "DEFAULT_RELEASES_URL = ''https://api.github.com/repos/nickmeinhold/aiko-chat-island/releases/latest''"

text \<open>\<open>body.get("html_url") or url\<close> as the format prints it; \<open>show_json\<close> is \<open>str\<close> of a decoded value.\<close>

definition html_url :: "(string \<Rightarrow> bool) \<Rightarrow> (json \<Rightarrow> string) \<Rightarrow> (string \<times> json) list \<Rightarrow> string \<Rightarrow> string" where
  "html_url zero show_json body url =
     (case map_of body ''html_url'' of
        None \<Rightarrow> url
      | Some v \<Rightarrow> if v = JNull \<or> v = JBool False \<or> v = JInt 0 \<or> v = JStr [] \<or> v = JList [] \<or> v = JObj [] \<or> (case v of JFloat t \<Rightarrow> zero t | _ \<Rightarrow> False)
                  then url else (case v of JStr s \<Rightarrow> s | _ \<Rightarrow> show_json v))"

definition check_once :: "(string \<Rightarrow> bool) \<Rightarrow> (json \<Rightarrow> string) \<Rightarrow> (string \<Rightarrow> release_answer) \<Rightarrow> string option \<Rightarrow> update_nudge \<Rightarrow> string \<Rightarrow>
    nudge_error + string option" where
  "check_once zero show_json lookup current_ref level url =
     (if level = NudgeOff then Inr None
      else case parse_version zero (case current_ref of None \<Rightarrow> JNull | Some s \<Rightarrow> JStr s) of
        Inl e \<Rightarrow> Inl e
      | Inr None \<Rightarrow> Inr None
      | Inr (Some current) \<Rightarrow>
          (case lookup url of
             Answered code (Some (JObj body)) \<Rightarrow>
               if code \<noteq> 200 then Inr None
               else let tag = (case map_of body ''tag_name'' of None \<Rightarrow> JNull | Some v \<Rightarrow> v) in
                 (case parse_version zero tag of
                    Inl e \<Rightarrow> Inl e
                  | Inr None \<Rightarrow> Inr None
                  | Inr (Some latest) \<Rightarrow>
                      if \<not> should_nudge (Some current) (Some latest) level then Inr None
                      else Inr (Some (render_nudge (case current_ref of Some (c # cs) \<Rightarrow> c # cs | _ \<Rightarrow> ''unknown'')
                             (case tag of JStr s \<Rightarrow> s | _ \<Rightarrow> []) (html_url zero show_json body url))))
           | _ \<Rightarrow> Inr None))"

section \<open>Build provenance\<close>

definition BUILD_FIELDS :: "string list" where
  "BUILD_FIELDS = [''git_sha'', ''ref'', ''built_at'', ''aiko_services_ref'', ''aiko_chat_ref'']"

definition MAX_VALUE_LEN :: nat where "MAX_VALUE_LEN = 128"

text \<open>The file is missing or unreadable or not JSON (\<open>None\<close>), or what it decodes to.\<close>

definition read_build_info :: "json option \<Rightarrow> (string \<times> string option) list" where
  "read_build_info raw =
     map (\<lambda>field. (field,
       case raw of
         Some (JObj kvs) \<Rightarrow> (case map_of kvs field of
             Some (JStr v) \<Rightarrow> if 0 < length v \<and> length v \<le> MAX_VALUE_LEN then Some v else None
           | _ \<Rightarrow> None)
       | _ \<Rightarrow> None)) BUILD_FIELDS"

section \<open>What reaches a route\<close>

text \<open>What the client does with its body: the bytes it sends before it sends the last part, goes away, or
  leaves the server waiting.\<close>

datatype ending = Complete | Left | Pending

fun client_sends :: "asgi_message list \<Rightarrow> string \<times> ending" where
  "client_sends [] = ([], Pending)"
| "client_sends (Disconnect # ms) = ([], Left)"
| "client_sends (BodyPart body more_body # ms) =
     (if more_body then (case client_sends ms of (rest, e) \<Rightarrow> (body @ rest, e)) else (body, Complete))"

text \<open>What the application is given: it is called on a replay and on a disconnect, and then its calls of
  \<open>receive\<close> are answered in turn.\<close>

primrec replays :: "string \<Rightarrow> nat \<Rightarrow> asgi_message \<times> bool" where
  "replays body 0 = replay_receive body False"
| "replays body (Suc n) = replay_receive body (snd (replays body n))"

definition app_receives :: "served \<Rightarrow> nat \<Rightarrow> asgi_message option" where
  "app_receives s n = (case s of Replayed body \<Rightarrow> Some (fst (replays body n)) | Disconnected \<Rightarrow> Some Disconnect | _ \<Rightarrow> None)"

lemma replays_flag: "snd (replays body n)"
  by (induction n) (simp_all add: replay_receive_def)

lemma replays_later: "0 < n \<Longrightarrow> fst (replays body n) = Disconnect"
  by (cases n) (simp_all add: replay_receive_def replays_flag)

lemma buffer_body_exact:
  assumes "int (length got) \<le> mx" and "client_sends ms = (body, e)"
  shows "buffer_body mx got ms =
    (if int (length (got @ body)) > mx then Rejected413
     else case e of Complete \<Rightarrow> Replayed (got @ body) | Left \<Rightarrow> Disconnected | Pending \<Rightarrow> Waiting)"
  using assms
proof (induction ms arbitrary: got body)
  case (Cons m ms)
  show ?case
  proof (cases m)
    case (BodyPart part more_body)
    show ?thesis
    proof (cases more_body)
      case True
      obtain rest where r: "client_sends ms = (rest, e)" "body = part @ rest"
        using Cons.prems(2) by (auto simp: BodyPart True split: prod.splits)
      show ?thesis using Cons.IH [OF _ r(1), of "got @ part"] by (auto simp: BodyPart True r(2) split: ending.splits)
    qed (use Cons.prems(2) in \<open>auto simp: BodyPart\<close>)
  qed (use Cons.prems in auto)
qed auto

text \<open>C37: the cap decides every request. It is answered 413 exactly when its declared length, where that can be
  read, or the bytes the client sends exceed the cap, however they are framed and whatever is declared.
  Of the others the application is called on exactly those whose client does not leave it waiting: if
  the client sends its last part, the application receives that very body once, in one piece, and then
  the disconnect; if the client goes away before, it is called as well, and receives nothing but the
  disconnect, so that a route that reads no body does run.\<close>

theorem body_cap_exact:
  assumes "0 \<le> mx" and "client_sends ms = (body, e)"
  shows "(content_size_limit mx ''http'' hs ms = Rejected413 \<longleftrightarrow>
      (\<exists>n. declared_length hs = Some n \<and> n > mx) \<or> int (length body) > mx) \<and>
    (app_receives (content_size_limit mx ''http'' hs ms) k \<noteq> None \<longleftrightarrow>
      \<not> ((\<exists>n. declared_length hs = Some n \<and> n > mx) \<or> int (length body) > mx) \<and> e \<noteq> Pending) \<and>
    app_receives (content_size_limit mx ''http'' hs ms) k \<in>
      {None, Some (if e = Complete \<and> k = 0 then BodyPart body False else Disconnect)}"
proof -
  have "content_size_limit mx ''http'' hs ms =
      (if (\<exists>n. declared_length hs = Some n \<and> n > mx) \<or> int (length body) > mx then Rejected413
       else case e of Complete \<Rightarrow> Replayed body | Left \<Rightarrow> Disconnected | Pending \<Rightarrow> Waiting)"
    using buffer_body_exact [of "[]" mx ms body e] assms
    by (auto simp: content_size_limit_def split: option.splits ending.splits)
  moreover have "fst (replays body k) = (if k = 0 then BodyPart body False else Disconnect)"
    using replays_later [of k body] by (simp add: replay_receive_def)
  ultimately show ?thesis by (auto simp: app_receives_def split: ending.splits)
qed

text \<open>A client that goes away after its first part, within the cap: the application runs, without a body.\<close>

theorem body_cap_exact_witness:
  "app_receives (content_size_limit 3 ''http'' [] [BodyPart ''ab'' True, Disconnect]) 0 = Some Disconnect \<and>
   app_receives (content_size_limit 3 ''http'' [] [BodyPart ''ab'' True, BodyPart ''c'' False]) 0 = Some (BodyPart ''abc'' False)"
  using body_cap_exact [of 3 "[BodyPart ''ab'' True, Disconnect]" "''ab''" Left "[]" 0]
    body_cap_exact [of 3 "[BodyPart ''ab'' True, BodyPart ''c'' False]" "''abc''" Complete "[]" 0]
  by auto

section \<open>What reaches the logs\<close>

text \<open>A credential in a text: a whole word of at least 32 hex digits, or the value of a secret parameter.\<close>

definition hex_leak :: "string \<Rightarrow> bool" where
  "hex_leak s \<longleftrightarrow> (\<exists>pre run post. s = pre @ run @ post \<and> list_all is_hex run \<and> 32 \<le> length run \<and>
     (pre = [] \<or> \<not> is_word (last pre)) \<and> (post = [] \<or> \<not> is_word (hd post)))"

definition param_leak :: "string \<Rightarrow> bool" where
  "param_leak s \<longleftrightarrow> (\<exists>pre c name v post. s = pre @ c # name @ CHR ''='' # v @ post \<and> (c = CHR ''?'' \<or> c = CHR ''&'') \<and>
     py_lower name \<in> set SECRET_PARAMS \<and> v \<noteq> [] \<and> list_all value_char v \<and> (post = [] \<or> \<not> value_char (hd post)) \<and> v \<noteq> ''<redacted>'')"

subsection \<open>Long hex words\<close>

lemma hex_word: "is_hex c \<Longrightarrow> is_word c"
  by (auto simp: is_hex_def is_word_def code_in_def)

lemma takeWhile_stop: "\<not> P y \<Longrightarrow> takeWhile P (xs @ y # ys) = takeWhile P xs"
  and dropWhile_stop: "\<not> P y \<Longrightarrow> dropWhile P (xs @ y # ys) = dropWhile P xs @ y # ys"
  by (induction xs) auto

text \<open>A word boundary splits the work, so a text is redacted word by word.\<close>

lemma redact_hex_split:
  assumes "\<not> is_word y"
  shows "redact_hex p (xs @ y # ys) = redact_hex p xs @ y # redact_hex False ys"
proof (induction p xs rule: redact_hex.induct)
  case (1 p)
  have "\<not> is_hex y" using assms hex_word by blast
  then show ?case using assms by simp
next
  case (2 p c cs)
  have y: "\<not> is_hex y" using assms hex_word by blast
  note t = takeWhile_stop [of is_hex, OF y] dropWhile_stop [of is_hex, OF y]
  have h: "(dropWhile is_hex (cs @ y # ys) = [] \<or> \<not> is_word (hd (dropWhile is_hex (cs @ y # ys)))) =
      (dropWhile is_hex cs = [] \<or> \<not> is_word (hd (dropWhile is_hex cs)))"
    unfolding t by (cases "dropWhile is_hex cs") (simp_all add: assms del: dropWhile_eq_Nil_conv)
  show ?case
  proof (cases "is_hex c \<and> \<not> p \<and> 31 \<le> length (takeWhile is_hex cs) \<and>
      (dropWhile is_hex cs = [] \<or> \<not> is_word (hd (dropWhile is_hex cs)))")
    case True
    note ih = 2(1) [OF True]
    from True h have "is_hex c \<and> \<not> p \<and> 31 \<le> length (takeWhile is_hex (cs @ y # ys)) \<and>
      (dropWhile is_hex (cs @ y # ys) = [] \<or> \<not> is_word (hd (dropWhile is_hex (cs @ y # ys))))" by (simp only: t simp_thms)
    with True ih show ?thesis by (simp only: redact_hex.simps append_Cons if_True t append_assoc simp_thms append_Nil)
  next
    case False
    note ih = 2(2) [OF False]
    from False h have "\<not> (is_hex c \<and> \<not> p \<and> 31 \<le> length (takeWhile is_hex (cs @ y # ys)) \<and>
      (dropWhile is_hex (cs @ y # ys) = [] \<or> \<not> is_word (hd (dropWhile is_hex (cs @ y # ys)))))" by (simp only: t simp_thms)
    with False ih show ?thesis by (simp only: redact_hex.simps append_Cons if_False)
  qed
qed

lemma redact_hex_True_word: "list_all is_word w \<Longrightarrow> redact_hex True w = w"
  by (induction w) auto

lemma redact_hex_word:
  assumes "list_all is_word w"
  shows "redact_hex p w = (if \<not> p \<and> list_all is_hex w \<and> 32 \<le> length w then take 12 w @ ''...'' else w)"
proof (cases w)
  case (Cons c cs)
  have rest: "dropWhile is_hex cs = [] \<or> is_word (hd (dropWhile is_hex cs))"
    using assms Cons by (metis hd_in_set list.pred_set list.set_intros(2) set_dropWhileD)
  show ?thesis
  proof (cases "\<not> p \<and> list_all is_hex w \<and> 32 \<le> length w")
    case True
    with Cons have all: "takeWhile is_hex cs = cs" "dropWhile is_hex cs = []" by (auto simp: list_all_iff)
    show ?thesis unfolding Cons redact_hex.simps all using True Cons by simp
  next
    case False
    have "\<not> (is_hex c \<and> \<not> p \<and> 31 \<le> length (takeWhile is_hex cs) \<and> (dropWhile is_hex cs = [] \<or> \<not> is_word (hd (dropWhile is_hex cs))))"
    proof
      assume a: "is_hex c \<and> \<not> p \<and> 31 \<le> length (takeWhile is_hex cs) \<and> (dropWhile is_hex cs = [] \<or> \<not> is_word (hd (dropWhile is_hex cs)))"
      with rest have "dropWhile is_hex cs = []" by blast
      then have "list_all is_hex cs" by (simp add: list_all_iff)
      moreover have "31 \<le> length cs" using a length_takeWhile_le [of is_hex cs] by linarith
      ultimately show False using a False Cons by simp
    qed
    then have "redact_hex p w = c # redact_hex (is_word c) cs" unfolding Cons redact_hex.simps by (rule if_not_P)
    with False assms Cons show ?thesis by (auto simp: redact_hex_True_word)
  qed
qed simp

lemma by_words [case_names word split]:
  assumes "\<And>w. list_all is_word w \<Longrightarrow> P w" and "\<And>w y ys. list_all is_word w \<Longrightarrow> \<not> is_word y \<Longrightarrow> P ys \<Longrightarrow> P (w @ y # ys)"
  shows "P s"
proof (induction s rule: length_induct)
  case (1 s)
  show ?case
  proof (cases "dropWhile is_word s")
    case Nil
    then show ?thesis using assms(1) [of s] by (simp add: list_all_iff)
  next
    case (Cons y ys)
    have "s = takeWhile is_word s @ y # ys" using Cons takeWhile_dropWhile_id [of is_word s] by simp
    moreover have "\<not> is_word y" using Cons by (metis hd_dropWhile list.distinct(1) list.sel(1))
    moreover have "list_all is_word (takeWhile is_word s)" by (simp add: list_all_iff) (blast dest: set_takeWhileD)
    moreover have "length ys < length s" using Cons length_dropWhile_le [of is_word s] by simp
    ultimately show ?thesis using assms(2) 1 by metis
  qed
qed

lemma dot_not_word: "\<not> is_word CHR ''.''"
  by (simp add: is_word_def is_digit_def code_in_def)

lemma redact_hex_short:
  assumes "length s < 32"
  shows "redact_hex p s = s"
  using assms
proof (induction p s rule: redact_hex.induct)
  case (2 p c cs)
  have "length (takeWhile is_hex cs) < 31" using 2(3) length_takeWhile_le [of is_hex cs] by simp
  then have no: "\<not> (is_hex c \<and> \<not> p \<and> 31 \<le> length (takeWhile is_hex cs) \<and> (dropWhile is_hex cs = [] \<or> \<not> is_word (hd (dropWhile is_hex cs))))"
    by simp
  have "redact_hex (is_word c) cs = cs" using 2(2) [OF no] 2(3) by simp
  then show ?case unfolding redact_hex.simps if_not_P [OF no] by simp
qed simp

lemma redact_hex_dots:
  assumes "list_all is_word w"
  shows "redact_hex p (take 12 w @ ''...'') = take 12 w @ ''...''"
proof -
  have "list_all is_word (take 12 w)" using assms by (auto simp: list_all_iff dest: in_set_takeD)
  then have "redact_hex p (take 12 w) = take 12 w" by (simp add: redact_hex_word)
  moreover have "redact_hex False ''..'' = ''..''" using dot_not_word by (simp add: is_hex_def is_digit_def code_in_def)
  ultimately show ?thesis using redact_hex_split [OF dot_not_word, of p "take 12 w" "''..''"] by simp
qed

lemma redact_hex_idem: "redact_hex p (redact_hex p s) = redact_hex p s"
proof (induction s arbitrary: p rule: by_words)
  case (word w)
  then show ?case by (simp add: redact_hex_word redact_hex_dots)
next
  case (split w y ys)
  then show ?case by (simp add: redact_hex_split) (simp add: redact_hex_word redact_hex_dots)
qed

lemma redact_hex_length: "length (redact_hex p s) \<le> length s"
proof (induction s arbitrary: p rule: by_words)
  case (word w)
  then show ?case by (simp add: redact_hex_word)
next
  case (split w y ys)
  have "length (redact_hex False ys) \<le> length ys" by (rule split(3))
  with split(1,2) show ?case by (auto simp: redact_hex_split redact_hex_word)
qed

lemma redact_hex_no_leak:
  assumes "redact_hex False s = s"
  shows "\<not> hex_leak s"
proof
  assume "hex_leak s"
  then obtain pre run post where s: "s = pre @ run @ post" and run: "list_all is_hex run" "32 \<le> length run"
    and pre: "pre = [] \<or> \<not> is_word (last pre)" and post: "post = [] \<or> \<not> is_word (hd post)"
    unfolding hex_leak_def by blast
  have w: "list_all is_word run" using run(1) hex_word by (auto simp: list_all_iff)
  have short: "length (redact_hex False (run @ post)) < length (run @ post)"
  proof (cases post)
    case Nil
    with run show ?thesis by (simp add: redact_hex_word [OF w])
  next
    case (Cons y ys)
    with post run redact_hex_length [of False ys] show ?thesis by (simp add: redact_hex_split redact_hex_word [OF w])
  qed
  have "length (redact_hex False s) < length s"
  proof (cases pre rule: rev_cases)
    case Nil
    with short s show ?thesis by simp
  next
    case (snoc pre' y)
    with pre have y: "\<not> is_word y" by simp
    have "s = pre' @ y # (run @ post)" using s snoc by simp
    then show ?thesis using short redact_hex_length [of False pre'] redact_hex_split [OF y, of False pre' "run @ post"] by simp
  qed
  with assms show False by simp
qed


lemma hexfree_split:
  assumes "\<not> is_word y"
  shows "redact_hex p (xs @ y # ys) = xs @ y # ys \<longleftrightarrow> redact_hex p xs = xs \<and> redact_hex False ys = ys"
proof
  assume "redact_hex p (xs @ y # ys) = xs @ y # ys"
  then have e: "redact_hex p xs @ y # redact_hex False ys = xs @ y # ys" by (simp add: redact_hex_split [OF assms])
  have "length (redact_hex p xs) = length xs"
    using arg_cong [OF e, of length] redact_hex_length [of p xs] redact_hex_length [of False ys] by simp
  with e show "redact_hex p xs = xs \<and> redact_hex False ys = ys" by simp
qed (simp add: redact_hex_split [OF assms])

subsection \<open>Secret parameters\<close>

definition q_char :: "char \<Rightarrow> bool" where
  "q_char c \<longleftrightarrow> c = CHR ''?'' \<or> c = CHR ''&''"

lemma secret_name_plain:
  assumes "py_lower name \<in> set SECRET_PARAMS"
  shows "list_all (\<lambda>c. \<not> q_char c \<and> c \<noteq> CHR ''='') name"
proof -
  have "list_all (list_all (\<lambda>c. \<not> q_char c \<and> c \<noteq> CHR ''='')) SECRET_PARAMS"
    by (simp add: SECRET_PARAMS_def q_char_def)
  with assms have "list_all (\<lambda>c. \<not> q_char c \<and> c \<noteq> CHR ''='') (py_lower name)" by (simp add: list_all_iff)
  moreover have "c \<in> set (py_lower name)" if "c \<in> set name" "q_char c \<or> c = CHR ''=''" for c
  proof -
    have "py_lower [c] = [c]" using that(2) by (auto simp: q_char_def py_lower_def code_in_def)
    then show ?thesis using that(1) by (force simp: py_lower_def)
  qed
  ultimately show ?thesis unfolding list_all_iff by blast
qed

lemma param_parts: "param_name s \<noteq> s \<Longrightarrow> s = param_name s @ CHR ''='' # param_rest s"
proof -
  assume ne: "param_name s \<noteq> s"
  have s: "s = param_name s @ dropWhile (\<lambda>c. c \<noteq> CHR ''='') s" by (simp add: param_name_def)
  with ne obtain c cs where d: "dropWhile (\<lambda>c. c \<noteq> CHR ''='') s = c # cs" by (cases "dropWhile (\<lambda>c. c \<noteq> CHR ''='') s") auto
  then have "c = CHR ''=''" by (metis (mono_tags, lifting) hd_dropWhile list.distinct(1) list.sel(1))
  moreover have "param_rest s = cs" unfolding param_rest_def by (subst s) (simp add: d)
  ultimately show ?thesis using s d by simp
qed

lemma param_of_parts:
  assumes "CHR ''='' \<notin> set name"
  shows "param_name (name @ CHR ''='' # r) = name" "param_rest (name @ CHR ''='' # r) = r"
proof -
  show n: "param_name (name @ CHR ''='' # r) = name" using assms by (induction name) (auto simp: param_name_def)
  show "param_rest (name @ CHR ''='' # r) = r" by (simp add: param_rest_def n)
qed

lemma secret_at_iff:
  "secret_at c cs \<longleftrightarrow> q_char c \<and> (\<exists>name r. cs = name @ CHR ''='' # r \<and> py_lower name \<in> set SECRET_PARAMS \<and> r \<noteq> [] \<and> value_char (hd r))"
proof
  assume "secret_at c cs"
  then show "q_char c \<and> (\<exists>name r. cs = name @ CHR ''='' # r \<and> py_lower name \<in> set SECRET_PARAMS \<and> r \<noteq> [] \<and> value_char (hd r))"
    using param_parts [of cs] by (auto simp: secret_at_def q_char_def)
next
  assume "q_char c \<and> (\<exists>name r. cs = name @ CHR ''='' # r \<and> py_lower name \<in> set SECRET_PARAMS \<and> r \<noteq> [] \<and> value_char (hd r))"
  then obtain name r where c: "q_char c" "cs = name @ CHR ''='' # r" "py_lower name \<in> set SECRET_PARAMS" "r \<noteq> []" "value_char (hd r)" by blast
  have "CHR ''='' \<notin> set name" using secret_name_plain [OF c(3)] by (auto simp: list_all_iff)
  from param_of_parts [OF this, of r] c show "secret_at c cs" by (auto simp: secret_at_def q_char_def)
qed

lemma redact_query_match:
  assumes "q_char c" "py_lower name \<in> set SECRET_PARAMS" "r \<noteq> []" "value_char (hd r)"
  shows "redact_query (c # name @ CHR ''='' # r) = c # name @ CHR ''='' # ''<redacted>'' @ redact_query (dropWhile value_char r)"
proof -
  have "secret_at c (name @ CHR ''='' # r)" unfolding secret_at_iff using assms by blast
  moreover have "CHR ''='' \<notin> set name" using secret_name_plain [OF assms(2)] by (auto simp: list_all_iff)
  ultimately show ?thesis by (simp add: param_of_parts)
qed

lemma redact_query_skip: "\<not> secret_at c cs \<Longrightarrow> redact_query (c # cs) = c # redact_query cs"
  by simp

lemma redact_query_head: "redact_query s = [] \<longleftrightarrow> s = []" "s \<noteq> [] \<Longrightarrow> hd (redact_query s) = hd s"
  by (induction s rule: redact_query.induct) simp_all

lemma redact_query_ConsD: "redact_query s = c # t \<Longrightarrow> \<exists>cs. s = c # cs"
  using redact_query_head [of s] by (cases s) auto

lemma redact_query_plain: "list_all (\<lambda>c. \<not> q_char c) xs \<Longrightarrow> redact_query (xs @ ys) = xs @ redact_query ys"
  by (induction xs) (auto simp: secret_at_iff)

lemma redact_query_cases [case_names nil skip hit]:
  assumes "s = [] \<Longrightarrow> P" and "\<And>c cs. s = c # cs \<Longrightarrow> \<not> secret_at c cs \<Longrightarrow> P"
    and "\<And>c name v r. s = c # name @ CHR ''='' # v @ r \<Longrightarrow> q_char c \<Longrightarrow> py_lower name \<in> set SECRET_PARAMS \<Longrightarrow> v \<noteq> [] \<Longrightarrow>
      list_all value_char v \<Longrightarrow> r = [] \<or> \<not> value_char (hd r) \<Longrightarrow> P"
  shows P
proof (cases s)
  case (Cons c cs)
  show ?thesis
  proof (cases "secret_at c cs")
    case True
    then obtain name r where n: "q_char c" "cs = name @ CHR ''='' # r" "py_lower name \<in> set SECRET_PARAMS" "r \<noteq> []" "value_char (hd r)"
      unfolding secret_at_iff by blast
    have "takeWhile value_char r \<noteq> []" using n(4,5) by (cases r) auto
    moreover have "list_all value_char (takeWhile value_char r)" by (simp add: list_all_iff) (blast dest: set_takeWhileD)
    moreover have "dropWhile value_char r = [] \<or> \<not> value_char (hd (dropWhile value_char r))" using hd_dropWhile by blast
    ultimately show ?thesis using assms(3) [of c name "takeWhile value_char r" "dropWhile value_char r"] n Cons by simp
  qed (use Cons assms(2) in blast)
qed (use assms(1) in simp)

lemma drop_values: "list_all value_char v \<Longrightarrow> r = [] \<or> \<not> value_char (hd r) \<Longrightarrow> dropWhile value_char (v @ r) = r"
  by (induction v; cases r) auto

lemma redact_query_hit:
  assumes "q_char c" "py_lower name \<in> set SECRET_PARAMS" "v \<noteq> []" "list_all value_char v" "r = [] \<or> \<not> value_char (hd r)"
  shows "redact_query (c # name @ CHR ''='' # v @ r) = c # name @ CHR ''='' # ''<redacted>'' @ redact_query r"
proof -
  have "v @ r \<noteq> []" "value_char (hd (v @ r))" using assms(3,4) by (auto simp: neq_Nil_conv)
  from redact_query_match [OF assms(1,2) this] show ?thesis by (simp only: drop_values [OF assms(4,5)])
qed

lemma redacted_value: "list_all value_char ''<redacted>''"
  by (simp add: value_char_def is_space_def)

lemma redact_query_tail: "r = [] \<or> \<not> value_char (hd r) \<Longrightarrow> redact_query r = [] \<or> \<not> value_char (hd (redact_query r))"
  using redact_query_head by metis


lemma secret_at_redacted: "secret_at c (redact_query cs) \<Longrightarrow> secret_at c cs"
proof -
  assume "secret_at c (redact_query cs)"
  then obtain name r where n: "q_char c" "redact_query cs = name @ CHR ''='' # r" "py_lower name \<in> set SECRET_PARAMS" "r \<noteq> []" "value_char (hd r)"
    unfolding secret_at_iff by blast
  have plain: "list_all (\<lambda>c. \<not> q_char c \<and> c \<noteq> CHR ''='') name" by (rule secret_name_plain [OF n(3)])
  have "\<exists>r'. cs = name @ CHR ''='' # r' \<and> r = redact_query r'" using n(2) plain
  proof (induction name arbitrary: cs)
    case Nil
    then obtain r' where cs: "cs = CHR ''='' # r'" by (auto dest: redact_query_ConsD)
    have "\<not> secret_at CHR ''='' r'" by (simp add: secret_at_def)
    with Nil cs show ?case by simp
  next
    case (Cons x xs)
    then obtain zs where cs: "cs = x # zs" by (auto dest: redact_query_ConsD)
    have "\<not> secret_at x zs" using Cons.prems(2) by (simp add: secret_at_iff)
    with Cons cs show ?case by simp
  qed
  then obtain r' where r': "cs = name @ CHR ''='' # r'" "r = redact_query r'" by blast
  have "r' \<noteq> []" using n(4) r'(2) by auto
  moreover have "value_char (hd r')" using n(5) r'(2) redact_query_head(2) [OF \<open>r' \<noteq> []\<close>] by simp
  ultimately show ?thesis unfolding secret_at_iff using n(1,3) r'(1) by blast
qed

lemma redact_query_idem: "redact_query (redact_query s) = redact_query s"
proof (induction s rule: length_induct)
  case (1 s)
  show ?case
  proof (cases s rule: redact_query_cases)
    case (skip c cs)
    then have "redact_query (redact_query cs) = redact_query cs" using 1 by simp
    moreover have "\<not> secret_at c (redact_query cs)" using skip(2) secret_at_redacted by blast
    ultimately show ?thesis unfolding skip(1) redact_query_skip [OF skip(2)] by simp
  next
    case (hit c name v r)
    have ih: "redact_query (redact_query r) = redact_query r" using 1 hit(1) by simp
    have "redact_query (c # name @ CHR ''='' # ''<redacted>'' @ redact_query r) =
        c # name @ CHR ''='' # ''<redacted>'' @ redact_query (redact_query r)"
      by (rule redact_query_hit [OF hit(2,3) _ redacted_value redact_query_tail [OF hit(6)]]) simp
    then show ?thesis unfolding hit(1) redact_query_hit [OF hit(2-6)] ih .
  qed simp
qed

lemma append_Cons_split:
  assumes "A @ X = P @ c # T" and "c \<notin> set A"
  shows "\<exists>P'. P = A @ P' \<and> X = P' @ c # T"
  using assms by (auto simp: append_eq_append_conv2 Cons_eq_append_conv append_eq_Cons_conv)

lemma redact_query_fixed_value:
  assumes "redact_query s = s" and "s = pre @ c # name @ CHR ''='' # v @ post" and "q_char c" and "py_lower name \<in> set SECRET_PARAMS"
    and "v \<noteq> []" and "list_all value_char v" and "post = [] \<or> \<not> value_char (hd post)"
  shows "v = ''<redacted>''"
  using assms(1,2)
proof (induction s arbitrary: pre rule: length_induct)
  case (1 s)
  show ?case
  proof (cases s rule: redact_query_cases)
    case nil
    with 1(3) show ?thesis by simp
  next
    case (skip c0 cs)
    have fixed: "redact_query cs = cs" using 1(2) skip by simp
    show ?thesis
    proof (cases pre)
      case Nil
      then have "c0 = c" "cs = name @ CHR ''='' # v @ post" using 1(3) skip(1) by simp_all
      moreover have "v @ post \<noteq> []" "value_char (hd (v @ post))" using assms(5,6) by (auto simp: neq_Nil_conv)
      ultimately have "secret_at c0 cs" unfolding secret_at_iff using assms(3,4) by blast
      with skip(2) show ?thesis by blast
    next
      case (Cons x pre')
      then have "cs = pre' @ c # name @ CHR ''='' # v @ post" using 1(3) skip(1) by simp
      moreover have "length cs < length s" using skip(1) by simp
      ultimately show ?thesis using 1(1) fixed by blast
    qed
  next
    case (hit c0 name0 v0 r)
    have eq: "''<redacted>'' @ redact_query r = v0 @ r"
      using 1(2) unfolding hit(1) redact_query_hit [OF hit(2-6)] by simp
    have r: "redact_query r = r"
      using drop_values [OF redacted_value redact_query_tail [OF hit(6)]] drop_values [OF hit(5,6)] eq by metis
    with eq have v0: "v0 = ''<redacted>''" by simp
    have n0: "list_all (\<lambda>c. \<not> q_char c \<and> c \<noteq> CHR ''='') name0" by (rule secret_name_plain [OF hit(3)])
    have n: "list_all (\<lambda>c. \<not> q_char c \<and> c \<noteq> CHR ''='') name" by (rule secret_name_plain [OF assms(4)])
    show ?thesis
    proof (cases pre)
      case Nil
      then have e: "name0 @ CHR ''='' # v0 @ r = name @ CHR ''='' # v @ post" using 1(3) hit(1) by simp
      have notin: "CHR ''='' \<notin> set name0" "CHR ''='' \<notin> set name" using n0 n by (auto simp: list_all_iff)
      have "v0 @ r = v @ post" using param_of_parts(2) [OF notin(1), of "v0 @ r"] param_of_parts(2) [OF notin(2), of "v @ post"] e by simp
      moreover have "r = post" using drop_values [OF hit(5,6)] drop_values [OF assms(6,7)] calculation by metis
      ultimately show ?thesis using v0 by simp
    next
      case (Cons x pre')
      let ?A = "name0 @ CHR ''='' # ''<redacted>''"
      have e: "?A @ r = pre' @ c # name @ CHR ''='' # v @ post" using 1(3) hit(1) v0 Cons by simp
      have "c \<notin> set ?A" using n0 assms(3) by (auto simp: list_all_iff q_char_def)
      from append_Cons_split [OF e this] obtain P' where "r = P' @ c # name @ CHR ''='' # v @ post" by blast
      moreover have "length r < length s" using hit(1) by simp
      ultimately show ?thesis using 1(1) r by blast
    qed
  qed
qed

lemma redact_query_no_leak:
  assumes "redact_query s = s"
  shows "\<not> param_leak s"
proof
  assume "param_leak s"
  then obtain pre c name v post where h: "s = pre @ c # name @ CHR ''='' # v @ post" "c = CHR ''?'' \<or> c = CHR ''&''"
    "py_lower name \<in> set SECRET_PARAMS" "v \<noteq> []" "list_all value_char v" "post = [] \<or> \<not> value_char (hd post)" "v \<noteq> ''<redacted>''"
    unfolding param_leak_def by (elim exE conjE) (rule that)
  have "q_char c" using h(2) by (simp add: q_char_def)
  from redact_query_fixed_value [OF assms h(1) this h(3-6)] h(7) show False by blast
qed

subsection \<open>Both at once\<close>

lemma q_not_word: "q_char c \<Longrightarrow> \<not> is_word c" and eq_not_word: "\<not> is_word CHR ''=''" and angle_not_word: "\<not> is_word CHR ''<''" "\<not> is_word CHR ''>''"
  by (auto simp: q_char_def is_word_def is_digit_def code_in_def)

lemma not_value_not_word: "\<not> value_char c \<Longrightarrow> \<not> is_word c"
  by (auto simp: value_char_def is_space_def is_word_def is_digit_def code_in_def)

lemma redact_query_keeps_hexfree: "redact_hex p s = s \<Longrightarrow> redact_hex p (redact_query s) = redact_query s"
proof (induction s arbitrary: p rule: length_induct)
  case (1 s)
  let ?w = "takeWhile is_word s"
  have w: "list_all (\<lambda>c. \<not> q_char c) ?w" using q_not_word by (auto simp: list_all_iff dest: set_takeWhileD)
  show ?case
  proof (cases "dropWhile is_word s")
    case Nil
    then have "?w = s" by (metis append_Nil2 takeWhile_dropWhile_id)
    with w 1(2) redact_query_plain [of s "[]"] show ?thesis by simp
  next
    case (Cons y ys)
    have s: "s = ?w @ y # ys" using Cons takeWhile_dropWhile_id [of is_word s] by simp
    have y: "\<not> is_word y" using Cons by (metis hd_dropWhile list.distinct(1) list.sel(1))
    have len: "length ys < length s" using arg_cong [OF s, of length] by simp
    have free: "redact_hex p ?w = ?w" "redact_hex False ys = ys" using 1(2) hexfree_split [OF y, of p ?w ys] s by simp_all
    have q: "redact_query s = ?w @ redact_query (y # ys)" using redact_query_plain [OF w, of "y # ys"] s by simp
    have rest: "\<exists>zs. redact_query (y # ys) = y # zs \<and> redact_hex False zs = zs"
    proof (cases "y # ys" rule: redact_query_cases)
      case (skip c cs)
      then show ?thesis using 1(1) free(2) len by auto
    next
      case (hit c name v r)
      have ys: "ys = name @ CHR ''='' # v @ r" using hit(1) by simp
      have nm: "redact_hex False name = name" "redact_hex False (v @ r) = v @ r"
        using free(2) hexfree_split [OF eq_not_word, of False name "v @ r"] ys by simp_all
      have r: "redact_hex False r = r"
      proof (cases r)
        case (Cons z zs)
        then have "\<not> is_word z" using hit(6) not_value_not_word by simp
        from hexfree_split [OF this, of False v zs] hexfree_split [OF this, of False "[]" zs] nm(2) Cons show ?thesis by simp
      qed simp
      have "length r < length s" using len ys by simp
      then have "redact_hex False (redact_query r) = redact_query r" using 1(1) r by blast
      moreover have "redact_hex False ''redacted'' = ''redacted''" by (rule redact_hex_short) simp
      ultimately have "redact_hex False (''<redacted>'' @ redact_query r) = ''<redacted>'' @ redact_query r"
        using hexfree_split [OF angle_not_word(1), of False "[]" "''redacted'' @ CHR ''>'' # redact_query r"]
          hexfree_split [OF angle_not_word(2), of False "''redacted''" "redact_query r"] by simp
      then have "redact_hex False (name @ CHR ''='' # ''<redacted>'' @ redact_query r) = name @ CHR ''='' # ''<redacted>'' @ redact_query r"
        using hexfree_split [OF eq_not_word, of False name "''<redacted>'' @ redact_query r"] nm(1) by simp
      with redact_query_hit [OF hit(2-6)] hit(1) show ?thesis by simp
    qed simp
    then obtain zs where zs: "redact_query (y # ys) = y # zs" "redact_hex False zs = zs" by blast
    show ?thesis unfolding q zs(1) using hexfree_split [OF y, of p ?w zs] free(1) zs(2) by blast
  qed
qed

lemma redact_fixed: "redact_hex False (redact s) = redact s" "redact_query (redact s) = redact s"
  by (simp_all add: redact_def redact_query_idem redact_query_keeps_hexfree redact_hex_idem)

lemma redact_idem: "redact (redact s) = redact s"
  unfolding redact_def [of "redact s"] by (simp add: redact_fixed)

lemma redact_no_leak: "\<not> hex_leak (redact s)" "\<not> param_leak (redact s)"
  by (rule redact_hex_no_leak, rule redact_fixed) (rule redact_query_no_leak, rule redact_fixed)

definition clean :: "string \<Rightarrow> bool" where
  "clean s \<longleftrightarrow> redact s = s \<and> \<not> hex_leak s \<and> \<not> param_leak s"

lemma redact_clean: "clean (redact s)" and fixed_clean: "redact s = s \<Longrightarrow> clean s"
  using redact_no_leak [of s] by (simp_all add: clean_def redact_idem redact_no_leak)

text \<open>The texts an argument brings into a line: the string, or what \<open>str()\<close> makes of the object.\<close>

fun arg_clean :: "log_arg \<Rightarrow> bool" where
  "arg_clean (ArgStr s) = clean s"
| "arg_clean (ArgObj (Some as_text)) = clean as_text"
| "arg_clean _ = True"

lemma redact_arg_clean: "arg_clean (redact_arg a)"
  by (auto simp: redact_arg_def redact_clean fixed_clean split: log_arg.splits option.splits)

fun args_clean :: "log_args \<Rightarrow> bool" where
  "args_clean (TupleArgs as) = list_all arg_clean as"
| "args_clean (DictArgs kvs) = list_all (\<lambda>(k, v). arg_clean v) kvs"

fun same_shape :: "log_args \<Rightarrow> log_args \<Rightarrow> bool" where
  "same_shape (TupleArgs as) (TupleArgs bs) = (length as = length bs)"
| "same_shape (DictArgs kvs) (DictArgs lvs) = (map fst kvs = map fst lvs)"
| "same_shape _ _ = False"

lemma redact_parts_args: "args_clean (lr_args (redact_parts r))" "same_shape (lr_args r) (lr_args (redact_parts r))"
  by (cases "lr_args r"; auto simp: redact_parts_def list_all_iff redact_arg_clean split_def)+

lemma redact_record_cases:
  obtains (withheld) e where "redact_record percent r = (redact_parts r)\<lparr>lr_msg := MsgStr (withheld e), lr_args := TupleArgs []\<rparr>"
  | (collapsed) m where "redact_record percent r = (redact_parts r)\<lparr>lr_msg := MsgStr (redact m), lr_args := TupleArgs []\<rparr>"
  | (kept) m where "redact_record percent r = redact_parts r" "record_message percent (redact_parts r) = Inr m" "redact m = m"
proof (cases "record_message percent (redact_parts r)")
  case (Inl e)
  show thesis by (rule withheld [of e]) (simp add: redact_record_def Inl)
next
  case (Inr m)
  show thesis
  proof (cases "redact m = m")
    case True
    show thesis by (rule kept [OF _ Inr True]) (simp add: redact_record_def Inr True)
  next
    case False
    show thesis by (rule collapsed [of m]) (simp add: redact_record_def Inr False)
  qed
qed

lemma plain_message: "record_message percent (r\<lparr>lr_msg := MsgStr m, lr_args := TupleArgs []\<rparr>) = Inr m"
  by (simp add: record_message_def msg_text_def)

lemma redacted_printed:
  obtains line where "record_message percent (redact_record percent r) = Inr line"
    "format_record percent fmt (redact_record percent r) =
       Inr (on_new_line (on_new_line (fmt line) (exception_text r)) (stack_text r))"
proof -
  have trail: "exception_text ((redact_parts r)\<lparr>lr_msg := m, lr_args := as\<rparr>) = exception_text r"
    "stack_text ((redact_parts r)\<lparr>lr_msg := m, lr_args := as\<rparr>) = stack_text r"
    "exception_text (redact_parts r) = exception_text r" "stack_text (redact_parts r) = stack_text r" for m as
    by (simp_all add: exception_text_def stack_text_def redact_parts_def split: option.splits list.splits)
  show thesis
    by (cases rule: redact_record_cases [of percent r]) (rule that; simp add: plain_message format_record_def trail)+
qed

text \<open>C38: what the filter makes of a record and what is then printed. The message is without a credential,
  that is without a whole word of 32 or more hex digits and without the value of a secret parameter,
  whether it stood in the format, in an argument, in the text of an object or was split between format
  and arguments; or it is the notice that the record was withheld, when it cannot be formatted. The
  same holds of the text of every argument left in the record, for the formatters that print the
  arguments themselves, and the arguments keep their shape unless they collapse to none. But of a
  record with an exception or a stack the formatter prints their text after the message exactly as it
  came: nothing redacts it.\<close>

theorem logs_carry_no_credentials:
  "\<exists>line. record_message percent (redact_record percent r) = Inr line \<and>
     ((\<exists>e. line = withheld e) \<or> clean line) \<and>
     args_clean (lr_args (redact_record percent r)) \<and>
     (lr_args (redact_record percent r) = TupleArgs [] \<or> same_shape (lr_args r) (lr_args (redact_record percent r))) \<and>
     format_record percent fmt (redact_record percent r) =
       Inr (on_new_line (on_new_line (fmt line) (exception_text r)) (stack_text r))"
proof -
  obtain line where l: "record_message percent (redact_record percent r) = Inr line"
      "format_record percent fmt (redact_record percent r) =
        Inr (on_new_line (on_new_line (fmt line) (exception_text r)) (stack_text r))"
    by (rule redacted_printed)
  moreover have "((\<exists>e. line = withheld e) \<or> clean line) \<and> args_clean (lr_args (redact_record percent r)) \<and>
      (lr_args (redact_record percent r) = TupleArgs [] \<or> same_shape (lr_args r) (lr_args (redact_record percent r)))"
    using l(1)
    by (cases rule: redact_record_cases [of percent r]) (auto simp: plain_message redact_clean fixed_clean redact_parts_args)
  ultimately show ?thesis by blast
qed

text \<open>So a traceback that quotes a login URL prints the token.\<close>

lemma traceback_leaks:
  assumes "exception_text r = ''/v1/ws?token=eyJ''" and "stack_text r = []"
  shows "\<exists>line. format_record percent fmt (redact_record percent r) = Inr line \<and> param_leak line"
proof -
  obtain msg where m: "format_record percent fmt (redact_record percent r) = Inr (on_new_line msg ''/v1/ws?token=eyJ'')"
    by (rule redacted_printed [of percent r fmt]) (simp add: assms on_new_line_def [of _ "[]"])
  obtain pre where p: "on_new_line msg ''/v1/ws?token=eyJ'' = pre @ CHR ''?'' # ''token'' @ CHR ''='' # ''eyJ'' @ []"
    by (rule that [of "(if msg \<noteq> [] \<and> last msg = CHR 0x0A then msg else msg @ [CHR 0x0A]) @ ''/v1/ws''"])
      (simp add: on_new_line_def)
  have "param_leak (pre @ CHR ''?'' # ''token'' @ CHR ''='' # ''eyJ'' @ [])" unfolding param_leak_def
    by (rule exI [of _ pre], rule exI [of _ "CHR ''?''"], rule exI [of _ "''token''"], rule exI [of _ "''eyJ''"], rule exI [of _ "[]"])
      (simp add: SECRET_PARAMS_def py_lower_def code_in_def value_char_def is_space_def)
  with m p show ?thesis by metis
qed

section \<open>What the release check says\<close>

text \<open>A tag that is a truthy value but no string, or one whose field Python will not convert, leaves the check as
  an exception.\<close>

lemma check_once_raises:
  assumes "level \<noteq> NudgeOff" "parse_version zero (JStr s) = Inr (Some current)"
    and "lookup url = Answered 200 (Some (JObj body))" "map_of body ''tag_name'' = Some tag"
    and "parse_version zero tag = Inl e"
  shows "check_once zero show_json lookup (Some s) level url = Inl e"
  using assms unfolding check_once_def by (simp add: Let_def)

text \<open>A line is printed only for a version that is strictly later in the order of the three fields.\<close>

lemma version_le_total: "version_le v w \<or> version_le w v"
  by (cases v; cases w) auto

lemma version_le_antisym: "version_le v w \<Longrightarrow> version_le w v \<Longrightarrow> v = w"
  by (cases v; cases w) auto

lemma should_nudge_later:
  "should_nudge (Some v) (Some w) level \<Longrightarrow> level \<noteq> NudgeOff \<and> version_le v w \<and> v \<noteq> w"
  by (cases v; cases w) (auto split: if_splits)

lemma check_once_says_only_of_later:
  assumes "check_once zero show_json lookup ref level url = Inr (Some line)"
  obtains s v w tag body where "ref = Some s" "parse_version zero (JStr s) = Inr (Some v)"
    "lookup url = Answered 200 (Some (JObj body))" "map_of body ''tag_name'' = Some tag"
    "parse_version zero tag = Inr (Some w)" "version_le v w" "v \<noteq> w"
proof -
  have none: "parse_version zero JNull = Inr None" by (simp add: parse_version_def)
  show ?thesis
    using assms that none should_nudge_later unfolding check_once_def
    by (auto simp: Let_def split: if_splits sum.splits option.splits release_answer.splits json.splits)
qed

end
