(* ===== verification/Boot.thy ===== *)
theory Boot
  imports Islands
begin

text \<open>What happens before the first request: the file behind the database URL and the lock beside it
  (\<open>worker_guard.py\<close>), the migration runner (\<open>migrate.py\<close>) and the check of the schema (\<open>db.py\<close>).
  The parsing of URLs and paths and the migrations of alembic are arguments; the operating system's
  locks are a small kernel state.\<close>

section \<open>The database file\<close>

text \<open>A URL as SQLAlchemy parses it.\<close>

record db_url =
  du_backend :: string
  du_database :: "string option"
  du_query :: "(string \<times> string) list"

text \<open>\<open>uri_path\<close> is \<open>unquote(urlsplit(name).path)\<close>; \<open>resolve\<close> and \<open>abspath\<close> are those of the path
  library, \<open>quote\<close> the percent encoding.\<close>

record path_lib =
  pl_uri_path :: "string \<Rightarrow> string"
  pl_resolve :: "string \<Rightarrow> string"
  pl_abspath :: "string \<Rightarrow> string"
  pl_quote :: "string \<Rightarrow> string"

definition sqlite_file :: "path_lib \<Rightarrow> db_url \<Rightarrow> bool \<Rightarrow> string option" where
  "sqlite_file lib url follow_symlinks =
     (let located = (\<lambda>name. Some (if follow_symlinks then pl_resolve lib name else pl_abspath lib name)) in
      case du_database url of
        None \<Rightarrow> None
      | Some name \<Rightarrow>
          if du_backend url \<noteq> ''sqlite'' \<or> name = [] \<or> name = '':memory:'' then None
          else if take 5 name = ''file:'' then
            (if map_of (du_query url) ''mode'' = Some ''memory'' then None
             else let path = pl_uri_path lib name in if path = [] \<or> path = '':memory:'' then None else located path)
          else located name)"

definition set_query :: "string \<Rightarrow> string \<Rightarrow> (string \<times> string) list \<Rightarrow> (string \<times> string) list" where
  "set_query k v q = (if k \<in> fst ` set q then map (\<lambda>(n, w). if n = k then (n, v) else (n, w)) q else q @ [(k, v)])"

definition open_only :: "path_lib \<Rightarrow> db_url \<Rightarrow> db_url" where
  "open_only lib url =
     (case sqlite_file lib url True of
        None \<Rightarrow> url
      | Some db \<Rightarrow>
          let mode = (if map_of (du_query url) ''mode'' = Some ''ro'' then ''ro'' else ''rw'')
          in url\<lparr>du_database := Some (''file:'' @ pl_quote lib db), du_query := set_query ''uri'' ''true'' (set_query ''mode'' mode (du_query url))\<rparr>)"

section \<open>One worker\<close>

definition TRUTHY :: "string list" where "TRUTHY = [''1'', ''true'', ''yes'', ''on'']"

definition multiworker_allowed :: "string option \<Rightarrow> bool" where
  "multiworker_allowed env = (py_lower (py_strip (case env of None \<Rightarrow> [] | Some v \<Rightarrow> v)) \<in> set TRUTHY)"

definition LOCK_FILENAME :: string where "LOCK_FILENAME = ''.aiko-worker.lock''"

text \<open>\<open>dir_of\<close> is the directory of a file when it is one.\<close>

definition lock_path :: "path_lib \<Rightarrow> (string \<Rightarrow> string option) \<Rightarrow> string option \<Rightarrow> db_url \<Rightarrow> string option" where
  "lock_path lib dir_of override url =
     (case override of
        Some (c # cs) \<Rightarrow> Some (c # cs)
      | _ \<Rightarrow> (case sqlite_file lib url True of
                None \<Rightarrow> None
              | Some db \<Rightarrow> map_option (\<lambda>parent. parent @ ''/'' @ LOCK_FILENAME) (dir_of db)))"

text \<open>A process: its environment, the two module globals, and its open file descriptions. The kernel
  names an open file description by a number that is never used again, knows its path, and which
  description holds the lock of a path.\<close>

record process =
  ps_multi :: bool
  ps_path :: "string option"
  ps_lock_fd :: "nat option"
  ps_lock_pid :: "nat option"
  ps_open :: "nat list"

record world =
  wd_procs :: "nat \<Rightarrow> process option"
  wd_next_pid :: nat
  wd_desc_path :: "nat \<Rightarrow> string"
  wd_next_desc :: nat
  wd_lock :: "string \<Rightarrow> nat option"

datatype lock_error = NoSharedPath | CannotOpen | HeldByAnother | CannotLock

text \<open>Closing: the lock of a description is free once no process has the description open.\<close>

definition still_open :: "(nat \<Rightarrow> process option) \<Rightarrow> nat \<Rightarrow> bool" where
  "still_open procs d \<longleftrightarrow> (\<exists>p ps. procs p = Some ps \<and> d \<in> set (ps_open ps))"

definition settle :: "world \<Rightarrow> world" where
  "settle w = w\<lparr>wd_lock := (\<lambda>path. case wd_lock w path of None \<Rightarrow> None | Some d \<Rightarrow> if still_open (wd_procs w) d then Some d else None)\<rparr>"

definition set_proc :: "nat \<Rightarrow> process option \<Rightarrow> world \<Rightarrow> world" where
  "set_proc pid ps w = w\<lparr>wd_procs := (wd_procs w)(pid := ps)\<rparr>"

text \<open>\<open>opens\<close> is whether \<open>os.open\<close> succeeds, \<open>lockable\<close> whether the file system can lock at all.\<close>

definition acquire_single_worker_lock :: "bool \<Rightarrow> bool \<Rightarrow> nat \<Rightarrow> process \<Rightarrow> world \<Rightarrow> (lock_error + unit) \<times> world" where
  "acquire_single_worker_lock opens lockable pid ps w =
     (if ps_multi ps then (Inr (), w)
      else if ps_lock_fd ps \<noteq> None \<and> ps_lock_pid ps = Some pid then (Inr (), w)
      else
        let ps0 = ps\<lparr>ps_lock_fd := None, ps_lock_pid := None\<rparr>; w0 = set_proc pid (Some ps0) w in
        case ps_path ps of
          None \<Rightarrow> (Inl NoSharedPath, w0)
        | Some path \<Rightarrow>
            if \<not> opens then (Inl CannotOpen, w0)
            else
              let fd = wd_next_desc w; w1 = w0\<lparr>wd_next_desc := Suc fd, wd_desc_path := (wd_desc_path w)(fd := path)\<rparr> in
              if \<not> lockable then (Inl CannotLock, w1)
              else if wd_lock w path \<noteq> None then (Inl HeldByAnother, w1)
              else (Inr (), (set_proc pid (Some (ps0\<lparr>ps_lock_fd := Some fd, ps_lock_pid := Some pid, ps_open := fd # ps_open ps\<rparr>)) w1)
                              \<lparr>wd_lock := (wd_lock w)(path := Some fd)\<rparr>))"

definition release_single_worker_lock :: "nat \<Rightarrow> process \<Rightarrow> world \<Rightarrow> world" where
  "release_single_worker_lock pid ps w =
     (let closed = (case ps_lock_fd ps of
           Some fd \<Rightarrow> if ps_lock_pid ps = Some pid then ps\<lparr>ps_open := removeAll fd (ps_open ps)\<rparr> else ps
         | None \<Rightarrow> ps)
      in settle (set_proc pid (Some (closed\<lparr>ps_lock_fd := None, ps_lock_pid := None\<rparr>)) w))"

text \<open>What can happen on a host: a process starts, acquires, releases, forks a child that inherits the
  globals and the open files, or dies.\<close>

inductive host_step :: "world \<Rightarrow> world \<Rightarrow> bool" where
  spawn: "host_step w ((set_proc (wd_next_pid w) (Some \<lparr>ps_multi = multi, ps_path = path, ps_lock_fd = None, ps_lock_pid = None, ps_open = []\<rparr>) w)
      \<lparr>wd_next_pid := Suc (wd_next_pid w)\<rparr>)"
| acquire: "wd_procs w pid = Some ps \<Longrightarrow> host_step w (snd (acquire_single_worker_lock opens lockable pid ps w))"
| release: "wd_procs w pid = Some ps \<Longrightarrow> host_step w (release_single_worker_lock pid ps w)"
| fork: "wd_procs w pid = Some ps \<Longrightarrow> host_step w ((set_proc (wd_next_pid w) (Some ps) w)\<lparr>wd_next_pid := Suc (wd_next_pid w)\<rparr>)"
| death: "wd_procs w pid = Some ps \<Longrightarrow> host_step w (settle (set_proc pid None w))"

definition empty_host :: world where
  "empty_host = \<lparr>wd_procs = (\<lambda>_. None), wd_next_pid = 0, wd_desc_path = (\<lambda>_. []), wd_next_desc = 0, wd_lock = (\<lambda>_. None)\<rparr>"

inductive host_reach :: "world \<Rightarrow> bool" where
  start: "host_reach empty_host"
| step: "host_reach w \<Longrightarrow> host_step w w' \<Longrightarrow> host_reach w'"

text \<open>A process serves under a path when it has acquired the lock of that path itself and not released it.\<close>

definition serves :: "world \<Rightarrow> nat \<Rightarrow> string \<Rightarrow> bool" where
  "serves w pid path \<longleftrightarrow> (\<exists>ps fd. wd_procs w pid = Some ps \<and> ps_lock_fd ps = Some fd \<and> ps_lock_pid ps = Some pid \<and> wd_desc_path w fd = path)"

section \<open>Migration\<close>

text \<open>A database: its tables, the rows of \<open>alembic_version\<close>, the columns of \<open>users\<close> with whether they may
  be null, and the rest of the schema.\<close>

record 's database =
  db_tables :: "string list"
  db_stamped :: "string list"
  db_user_columns :: "(string \<times> bool) list"
  db_schema :: 's

datatype lstat = Found | NotThere | CannotLook

record 's volume =
  vo_has_file :: bool
  vo_lstat :: lstat
  vo_db :: "'s database"

text \<open>The image's migrations: the known revisions, their head, whether a schema differs from the baseline,
  and what upgrading to the head leaves behind when it raises (\<open>Inl\<close>) or returns (\<open>Inr\<close>). A migration that
  raises may have written: SQLite's DDL is not fully transactional, and earlier migrations are kept.\<close>

record 's alembic =
  al_known :: "string list"
  al_head :: string
  al_differs :: "'s database \<Rightarrow> bool"
  al_upgrade :: "'s database \<Rightarrow> 's database + 's database"

definition BASELINE_REVISION :: string where "BASELINE_REVISION = ''0001''"

datatype boot_refusal =
    NoDatabase | UnreadableDatabase | NotAnIsland | BaselineDrift | UnknownRevision | UpgradeRaised
  | NotMigrated | StaleSchema | UsersMissing | SchemaMismatch

definition require_database_file :: "'s volume \<Rightarrow> boot_refusal option" where
  "require_database_file v =
     (if \<not> vo_has_file v then None
      else case vo_lstat v of Found \<Rightarrow> None | NotThere \<Rightarrow> Some NoDatabase | CannotLook \<Rightarrow> Some UnreadableDatabase)"

datatype schema_state = HEAD | BEHIND | UNKNOWN | UNMANAGED

definition schema_status :: "'s alembic \<Rightarrow> 's database \<Rightarrow> schema_state" where
  "schema_status al d =
     (if ''alembic_version'' \<notin> set (db_tables d) then UNMANAGED
      else if \<not> set (db_stamped d) \<subseteq> set (al_known al) then UNKNOWN
      else if set (db_stamped d) = {al_head al} then HEAD
      else BEHIND)"

definition stamp :: "string \<Rightarrow> 's database \<Rightarrow> 's database" where
  "stamp revision d = d\<lparr>db_tables := List.insert ''alembic_version'' (db_tables d), db_stamped := [revision]\<rparr>"

definition migrate_run :: "'s alembic \<Rightarrow> 's volume \<Rightarrow> boot_refusal option \<times> 's volume" where
  "migrate_run al v =
     (case require_database_file v of
        Some e \<Rightarrow> (Some e, v)
      | None \<Rightarrow>
          let d = vo_db v in
          if ''users'' \<notin> set (db_tables d) then (Some NotAnIsland, v)
          else
            let adopting = (''alembic_version'' \<notin> set (db_tables d) \<or> db_stamped d = []) in
            if adopting \<and> al_differs al d then (Some BaselineDrift, v)
            else
              let d1 = (if adopting then stamp BASELINE_REVISION d else d); v1 = v\<lparr>vo_db := d1\<rparr> in
              if schema_status al d1 = UNKNOWN then (Some UnknownRevision, v1)
              else case al_upgrade al d1 of
                     Inl d2 \<Rightarrow> (Some UpgradeRaised, v1\<lparr>vo_db := d2\<rparr>)
                   | Inr d2 \<Rightarrow> (None, v1\<lparr>vo_db := d2\<rparr>))"

definition assert_at_head :: "'s alembic \<Rightarrow> 's database \<Rightarrow> boot_refusal option" where
  "assert_at_head al d =
     (case schema_status al d of
        UNMANAGED \<Rightarrow> Some NotMigrated | UNKNOWN \<Rightarrow> Some UnknownRevision | HEAD \<Rightarrow> None | BEHIND \<Rightarrow> Some StaleSchema)"

definition assert_schema_current :: "'s database \<Rightarrow> boot_refusal option" where
  "assert_schema_current d =
     (if ''alembic_version'' \<notin> set (db_tables d) then Some NotMigrated
      else if ''users'' \<notin> set (db_tables d) then Some UsersMissing
      else if ''email'' \<notin> fst ` set (db_user_columns d) \<or> map_of (db_user_columns d) ''password_hash'' = None
              \<or> map_of (db_user_columns d) ''password_hash'' = Some False then Some SchemaMismatch
      else None)"

definition verify_schema :: "'s alembic \<Rightarrow> 's volume \<Rightarrow> boot_refusal option" where
  "verify_schema al v =
     (case require_database_file v of
        Some e \<Rightarrow> Some e
      | None \<Rightarrow> (case assert_at_head al (vo_db v) of
                   Some e \<Rightarrow> Some e
                 | None \<Rightarrow> assert_schema_current (vo_db v)))"

section \<open>At most one worker serves\<close>

definition ps_ok :: "world \<Rightarrow> nat \<Rightarrow> process \<Rightarrow> bool" where
  "ps_ok w p ps \<longleftrightarrow> p < wd_next_pid w \<and>
     (\<forall>d \<in> set (ps_open ps). d < wd_next_desc w \<and> wd_lock w (wd_desc_path w d) = Some d) \<and>
     (case ps_lock_fd ps of
        None \<Rightarrow> True
      | Some fd \<Rightarrow> fd < wd_next_desc w \<and>
          (case ps_lock_pid ps of None \<Rightarrow> False
           | Some r \<Rightarrow> r < wd_next_pid w \<and> (r = p \<longrightarrow> fd \<in> set (ps_open ps) \<and> ps_path ps = Some (wd_desc_path w fd))))"

definition owner_ok :: "(nat \<Rightarrow> process option) \<Rightarrow> bool" where
  "owner_ok procs \<longleftrightarrow> (\<forall>p q ps qs fd. procs p = Some ps \<longrightarrow> procs q = Some qs \<longrightarrow> ps_lock_fd ps = Some fd \<longrightarrow> ps_lock_fd qs = Some fd \<longrightarrow>
     ps_lock_pid ps = ps_lock_pid qs)"

definition lock_ok :: "world \<Rightarrow> bool" where
  "lock_ok w \<longleftrightarrow> (\<forall>path d. wd_lock w path = Some d \<longrightarrow> wd_desc_path w d = path \<and> d < wd_next_desc w)"

definition guard_inv :: "world \<Rightarrow> bool" where
  "guard_inv w \<longleftrightarrow> (\<forall>p ps. wd_procs w p = Some ps \<longrightarrow> ps_ok w p ps) \<and> owner_ok (wd_procs w) \<and> lock_ok w"

lemma set_proc_simps [simp]:
  "wd_procs (set_proc pid x w) = (wd_procs w)(pid := x)" "wd_next_pid (set_proc pid x w) = wd_next_pid w"
  "wd_desc_path (set_proc pid x w) = wd_desc_path w" "wd_next_desc (set_proc pid x w) = wd_next_desc w" "wd_lock (set_proc pid x w) = wd_lock w"
  by (simp_all add: set_proc_def)

lemma ps_ok_set_proc: "ps_ok (set_proc pid x w) p ps = ps_ok w p ps" and lock_ok_set_proc: "lock_ok (set_proc pid x w) = lock_ok w"
  unfolding ps_ok_def lock_ok_def set_proc_simps by (rule refl)+

lemma guard_inv_set_proc:
  assumes "guard_inv w" "ps_ok w pid ps'" "owner_ok ((wd_procs w)(pid := Some ps'))"
  shows "guard_inv (set_proc pid (Some ps') w)"
  using assms unfolding guard_inv_def by (simp add: ps_ok_set_proc lock_ok_set_proc)

lemma owner_ok_forget: "owner_ok procs \<Longrightarrow> ps_lock_fd ps' = None \<Longrightarrow> owner_ok (procs(pid := Some ps'))"
  unfolding owner_ok_def by (metis fun_upd_apply option.inject option.distinct(1))

text \<open>Forgetting the globals and closing files keeps the invariant, and so does settling the locks.\<close>

lemma guard_inv_weaken:
  assumes "guard_inv w" "wd_procs w pid = Some ps" "set (ps_open ps') \<subseteq> set (ps_open ps)" "ps_lock_fd ps' = None"
  shows "guard_inv (set_proc pid (Some ps') w)"
proof (rule guard_inv_set_proc [OF assms(1)])
  have "ps_ok w pid ps" using assms(1,2) by (simp add: guard_inv_def)
  with assms(3,4) show "ps_ok w pid ps'" by (auto simp: ps_ok_def)
  show "owner_ok ((wd_procs w)(pid := Some ps'))" using assms(1,4) by (simp add: guard_inv_def owner_ok_forget)
qed

lemma guard_inv_kill:
  assumes "guard_inv w"
  shows "guard_inv (set_proc pid None w)"
proof -
  have "owner_ok ((wd_procs w)(pid := None))" using assms unfolding guard_inv_def owner_ok_def by (metis fun_upd_apply option.distinct(1))
  with assms show ?thesis by (simp add: guard_inv_def ps_ok_set_proc lock_ok_set_proc)
qed

lemma settle_simps [simp]:
  "wd_procs (settle w) = wd_procs w" "wd_next_pid (settle w) = wd_next_pid w" "wd_next_desc (settle w) = wd_next_desc w"
  "wd_desc_path (settle w) = wd_desc_path w"
  by (simp_all add: settle_def)

lemma guard_inv_settle:
  assumes "guard_inv w"
  shows "guard_inv (settle w)"
proof -
  have ok: "ps_ok (settle w) p ps" if p: "wd_procs w p = Some ps" for p ps
  proof -
    have "ps_ok w p ps" using assms p by (simp add: guard_inv_def)
    moreover have "wd_lock (settle w) path = Some d" if "wd_lock w path = Some d" "d \<in> set (ps_open ps)" for path d
      using that p by (auto simp: settle_def still_open_def)
    ultimately show ?thesis by (auto simp: ps_ok_def split: option.splits)
  qed
  have "lock_ok (settle w)" using assms by (auto simp: guard_inv_def lock_ok_def settle_def split: option.splits if_splits)
  with ok assms show ?thesis by (simp add: guard_inv_def)
qed

definition granted :: "string \<Rightarrow> nat \<Rightarrow> process \<Rightarrow> world \<Rightarrow> world" where
  "granted path pid ps w =
     (set_proc pid (Some (ps\<lparr>ps_lock_fd := Some (wd_next_desc w), ps_lock_pid := Some pid, ps_open := wd_next_desc w # ps_open ps\<rparr>)) w)
       \<lparr>wd_next_desc := Suc (wd_next_desc w), wd_desc_path := (wd_desc_path w)(wd_next_desc w := path),
        wd_lock := (wd_lock w)(path := Some (wd_next_desc w))\<rparr>"

definition opened :: "string \<Rightarrow> world \<Rightarrow> world" where
  "opened path w = w\<lparr>wd_next_desc := Suc (wd_next_desc w), wd_desc_path := (wd_desc_path w)(wd_next_desc w := path)\<rparr>"

lemma ps_ok_opened: "ps_ok w p ps \<Longrightarrow> ps_ok (opened path w) p ps"
  by (auto simp: ps_ok_def opened_def less_Suc_eq split: option.splits)

lemma guard_inv_opened: "guard_inv w \<Longrightarrow> guard_inv (opened path w)"
  using ps_ok_opened [of w _ _ path] by (fastforce simp: guard_inv_def opened_def lock_ok_def less_Suc_eq)

lemma guard_inv_granted:
  assumes inv: "guard_inv w" and pid: "wd_procs w pid = Some ps" "ps_lock_fd ps = None" "ps_path ps = Some path" and free: "wd_lock w path = None"
  shows "guard_inv (granted path pid ps w)"
proof -
  let ?fd = "wd_next_desc w"
  have ok: "ps_ok w p qs" if "wd_procs w p = Some qs" for p qs using inv that by (simp add: guard_inv_def)
  have other: "ps_ok (granted path pid ps w) p qs" if "wd_procs w p = Some qs" for p qs
    using ok [OF that] free by (auto simp: ps_ok_def granted_def less_Suc_eq split: option.splits)
  have "ps_ok (granted path pid ps w) pid (ps\<lparr>ps_lock_fd := Some ?fd, ps_lock_pid := Some pid, ps_open := ?fd # ps_open ps\<rparr>)"
    using other [OF pid(1)] ok [OF pid(1)] pid(2,3) by (auto simp: ps_ok_def granted_def)
  with other have all: "\<forall>p qs. wd_procs (granted path pid ps w) p = Some qs \<longrightarrow> ps_ok (granted path pid ps w) p qs"
    by (auto simp: granted_def)
  have fresh: "ps_lock_fd qs \<noteq> Some ?fd" if "wd_procs w p = Some qs" for p qs
    using ok [OF that] by (auto simp: ps_ok_def)
  have own: "owner_ok (wd_procs w)" using inv by (simp add: guard_inv_def)
  have "owner_ok (wd_procs (granted path pid ps w))"
    unfolding owner_ok_def
  proof (intro allI impI)
    fix p q qs rs fd
    assume h: "wd_procs (granted path pid ps w) p = Some qs" "wd_procs (granted path pid ps w) q = Some rs" "ps_lock_fd qs = Some fd" "ps_lock_fd rs = Some fd"
    show "ps_lock_pid qs = ps_lock_pid rs"
    proof (cases "p = pid \<or> q = pid")
      case True
      then show ?thesis using h fresh by (auto simp: granted_def split: if_splits)
    next
      case False
      then have "wd_procs w p = Some qs" "wd_procs w q = Some rs" using h by (simp_all add: granted_def)
      with h own show ?thesis unfolding owner_ok_def by blast
    qed
  qed
  moreover have "lock_ok (granted path pid ps w)" using inv by (auto simp: guard_inv_def lock_ok_def granted_def less_Suc_eq)
  ultimately show ?thesis using all by (simp add: guard_inv_def)
qed

lemma acquire_cases:
  assumes "acquire_single_worker_lock opens lockable pid ps w = (r, w')"
  obtains (kept) "r = Inr ()" "w' = w" "ps_multi ps \<or> ps_lock_fd ps \<noteq> None \<and> ps_lock_pid ps = Some pid"
  | (refused) e where "r = Inl e" "w' = set_proc pid (Some (ps\<lparr>ps_lock_fd := None, ps_lock_pid := None\<rparr>)) w"
  | (contended) e path where "r = Inl e" "w' = opened path (set_proc pid (Some (ps\<lparr>ps_lock_fd := None, ps_lock_pid := None\<rparr>)) w)"
  | (granted) path where "r = Inr ()" "ps_path ps = Some path" "wd_lock w path = None"
      "w' = granted path pid (ps\<lparr>ps_lock_fd := None, ps_lock_pid := None\<rparr>) (set_proc pid (Some (ps\<lparr>ps_lock_fd := None, ps_lock_pid := None\<rparr>)) w)"
proof (cases "ps_multi ps \<or> ps_lock_fd ps \<noteq> None \<and> ps_lock_pid ps = Some pid")
  case True
  then have "acquire_single_worker_lock opens lockable pid ps w = (Inr (), w)"
    unfolding acquire_single_worker_lock_def by (cases "ps_multi ps") simp_all
  with assms True show ?thesis by (intro kept) simp_all
next
  case False
  have f: "\<not> ps_multi ps" "\<not> (ps_lock_fd ps \<noteq> None \<and> ps_lock_pid ps = Some pid)" using False by blast+
  note a = assms [unfolded acquire_single_worker_lock_def Let_def if_not_P [OF f(1)] if_not_P [OF f(2)]]
  show ?thesis
  proof (cases "ps_path ps")
    case None
    then show ?thesis using a by (intro refused [of NoSharedPath]) simp_all
  next
    case (Some path)
    note a = a [unfolded Some option.case]
    consider (yes) "opens" "lockable" "wd_lock w path = None" | (no) "\<not> opens" | (busy) "opens" "\<not> lockable \<or> wd_lock w path \<noteq> None" by blast
    then show ?thesis
    proof cases
      case yes
      with a Some show ?thesis by (intro granted [of path]) (auto simp: granted_def set_proc_def)
    next
      case no
      with a show ?thesis by (intro refused [of CannotOpen]) simp_all
    next
      case busy
      with a show ?thesis
        by (intro contended [of "if lockable then HeldByAnother else CannotLock" path]) (auto simp: opened_def split: if_splits)
    qed
  qed
qed

lemma guard_inv_acquire:
  assumes "guard_inv w" "wd_procs w pid = Some ps"
  shows "guard_inv (snd (acquire_single_worker_lock opens lockable pid ps w))"
proof -
  let ?ps0 = "ps\<lparr>ps_lock_fd := None, ps_lock_pid := None\<rparr>"
  have w0: "guard_inv (set_proc pid (Some ?ps0) w)" by (rule guard_inv_weaken [OF assms]) simp_all
  obtain r w' where a: "acquire_single_worker_lock opens lockable pid ps w = (r, w')" by (metis surj_pair)
  from a show ?thesis
  proof (cases rule: acquire_cases)
    case kept with a assms(1) show ?thesis by simp
  next
    case refused with a w0 show ?thesis by simp
  next
    case contended with a guard_inv_opened [OF w0] show ?thesis by simp
  next
    case (granted path)
    with a guard_inv_granted [OF w0, of pid ?ps0 path] show ?thesis by simp
  qed
qed

lemma guard_inv_new_pid:
  assumes "guard_inv w" "ps_ok (w\<lparr>wd_next_pid := Suc (wd_next_pid w)\<rparr>) (wd_next_pid w) ps" "owner_ok ((wd_procs w)(wd_next_pid w := Some ps))"
  shows "guard_inv ((set_proc (wd_next_pid w) (Some ps) w)\<lparr>wd_next_pid := Suc (wd_next_pid w)\<rparr>)"
proof -
  have "ps_ok (w\<lparr>wd_next_pid := Suc (wd_next_pid w)\<rparr>) p qs" if "ps_ok w p qs" for p qs
    using that by (auto simp: ps_ok_def split: option.splits)
  moreover have "ps_ok ((set_proc (wd_next_pid w) (Some ps) w)\<lparr>wd_next_pid := Suc (wd_next_pid w)\<rparr>) = ps_ok (w\<lparr>wd_next_pid := Suc (wd_next_pid w)\<rparr>)"
    by (intro ext) (auto simp: ps_ok_def split: option.splits)
  ultimately show ?thesis using assms by (simp add: guard_inv_def lock_ok_def)
qed

lemma guard_inv_step:
  assumes "host_step w w'" and inv: "guard_inv w"
  shows "guard_inv w'"
  using assms(1)
proof cases
  case (spawn multi path)
  have "owner_ok (wd_procs w)" using inv by (simp add: guard_inv_def)
  then show ?thesis unfolding spawn by (intro guard_inv_new_pid inv owner_ok_forget) (simp_all add: ps_ok_def)
next
  case (acquire pid ps opens lockable)
  then show ?thesis using guard_inv_acquire inv by simp
next
  case (release pid ps)
  then show ?thesis
    unfolding release_single_worker_lock_def Let_def
    by (auto intro!: guard_inv_settle guard_inv_weaken [OF inv] split: option.splits)
next
  case (fork pid ps)
  have ok: "ps_ok w pid ps" and own: "owner_ok (wd_procs w)" using inv fork(2) by (simp_all add: guard_inv_def)
  have "wd_procs w p \<noteq> None \<Longrightarrow> p \<noteq> wd_next_pid w" for p using inv by (auto simp: guard_inv_def ps_ok_def)
  moreover have "owner_ok ((wd_procs w)(wd_next_pid w := Some ps))"
    using own fork(2) unfolding owner_ok_def by (smt (verit, ccfv_threshold) fun_upd_apply option.inject)
  moreover have "ps_ok (w\<lparr>wd_next_pid := Suc (wd_next_pid w)\<rparr>) (wd_next_pid w) ps"
    using ok by (auto simp: ps_ok_def split: option.splits)
  ultimately show ?thesis unfolding fork by (intro guard_inv_new_pid inv)
next
  case (death pid ps)
  then show ?thesis by (simp add: guard_inv_settle guard_inv_kill inv)
qed

lemma guard_inv_reach: "host_reach w \<Longrightarrow> guard_inv w"
proof (induction rule: host_reach.induct)
  case start
  show ?case by (simp add: guard_inv_def empty_host_def owner_ok_def lock_ok_def)
next
  case (step w w')
  then show ?case using guard_inv_step by blast
qed

lemma serves_lock:
  assumes "guard_inv w" "serves w p path"
  obtains ps fd where "wd_procs w p = Some ps" "ps_lock_fd ps = Some fd" "ps_lock_pid ps = Some p" "wd_lock w path = Some fd"
    "ps_path ps = Some path"
proof -
  from assms(2) obtain ps fd where h: "wd_procs w p = Some ps" "ps_lock_fd ps = Some fd" "ps_lock_pid ps = Some p" "wd_desc_path w fd = path"
    unfolding serves_def by blast
  have "ps_ok w p ps" using assms(1) h(1) by (simp add: guard_inv_def)
  then have "fd \<in> set (ps_open ps)" "ps_path ps = Some (wd_desc_path w fd)" "\<forall>d \<in> set (ps_open ps). wd_lock w (wd_desc_path w d) = Some d"
    using h(2,3) by (simp_all add: ps_ok_def)
  with h that show ?thesis by auto
qed

lemma one_server:
  assumes "guard_inv w" "serves w p path" "serves w q path"
  shows "p = q"
proof -
  obtain ps fd where p: "wd_procs w p = Some ps" "ps_lock_fd ps = Some fd" "ps_lock_pid ps = Some p" "wd_lock w path = Some fd"
    using serves_lock [OF assms(1,2)] by metis
  obtain qs fd' where q: "wd_procs w q = Some qs" "ps_lock_fd qs = Some fd'" "ps_lock_pid qs = Some q" "wd_lock w path = Some fd'"
    using serves_lock [OF assms(1,3)] by metis
  have "fd' = fd" using p(4) q(4) by simp
  with assms(1) p q show ?thesis unfolding guard_inv_def owner_ok_def by (metis option.inject)
qed

text \<open>C39: on one host at most one process serves a database: in every state that starts, acquisitions,
  releases, forks and deaths of processes can reach, when a process serves under a lock path, every
  other living process configured with the path that is not told to allow several workers, a forked
  child of the server included, is refused whatever the file system does, and goes on not serving.\<close>

theorem one_worker_serves:
  assumes "host_reach w" and "serves w p path" and "wd_procs w q = Some qs" and "q \<noteq> p"
    and "ps_path qs = Some path" and "\<not> ps_multi qs"
  shows "\<not> serves w q path \<and> (\<exists>e w'. acquire_single_worker_lock opens lockable q qs w = (Inl e, w') \<and> serves w' p path \<and> \<not> serves w' q path)"
proof -
  note inv = guard_inv_reach [OF assms(1)]
  have no: "\<not> serves w q path" using one_server [OF inv assms(2)] assms(4) by blast
  have lk: "wd_lock w path \<noteq> None" using serves_lock [OF inv assms(2)] by (metis option.distinct(1))
  obtain r w' where a: "acquire_single_worker_lock opens lockable q qs w = (r, w')" by (metis surj_pair)
  have inv': "guard_inv w'" using guard_inv_acquire [OF inv assms(3), of opens lockable] a by simp
  obtain ps fd where p: "wd_procs w p = Some ps" "ps_lock_fd ps = Some fd" "ps_lock_pid ps = Some p" "wd_desc_path w fd = path"
    using assms(2) unfolding serves_def by blast
  have "ps_ok w p ps" using inv p(1) by (simp add: guard_inv_def)
  then have "fd < wd_next_desc w" using p(2) by (simp add: ps_ok_def)
  then have still: "serves w' p path" if "w' = set_proc q x w \<or> w' = opened path' (set_proc q x w)" for x path'
    using that p assms(4) by (auto simp: serves_def opened_def)
  from a show ?thesis
  proof (cases rule: acquire_cases)
    case kept
    then obtain fd' where own: "ps_lock_fd qs = Some fd'" "ps_lock_pid qs = Some q" using assms(6) by auto
    have "ps_ok w q qs" using inv assms(3) by (simp add: guard_inv_def)
    then have "wd_desc_path w fd' = path" using own assms(5) by (simp add: ps_ok_def)
    then have "serves w q path" using own assms(3) unfolding serves_def by blast
    with no show ?thesis by blast
  next
    case (refused e)
    with still a no one_server [OF inv'] assms(4) show ?thesis by blast
  next
    case (contended e path')
    with still a no one_server [OF inv'] assms(4) show ?thesis by blast
  next
    case (granted path')
    with assms(5) lk show ?thesis by simp
  qed
qed

lemma acquire_free:
  assumes "\<not> ps_multi ps" "ps_lock_fd ps = None" "ps_path ps = Some path" "wd_lock w path = None"
  shows "serves (snd (acquire_single_worker_lock True True pid ps w)) pid path"
  using assms by (simp add: acquire_single_worker_lock_def Let_def serves_def)

text \<open>The lock is free again once no process has the server's file open.\<close>

lemma settled_lock: "wd_lock (settle w) path = Some d \<Longrightarrow> \<exists>p ps. wd_procs w p = Some ps \<and> d \<in> set (ps_open ps)"
  by (auto simp: settle_def still_open_def split: option.splits if_splits)

definition ex_process :: process where
  "ex_process = \<lparr>ps_multi = False, ps_path = Some ''l'', ps_lock_fd = None, ps_lock_pid = None, ps_open = []\<rparr>"

theorem one_worker_serves_witness:
  "\<exists>w qs e w'. serves w 0 ''l'' \<and> wd_procs w 1 = Some qs \<and> acquire_single_worker_lock True True 1 qs w = (Inl e, w') \<and> \<not> serves w' 1 ''l''"
proof -
  define w1 where "w1 = (set_proc 0 (Some ex_process) empty_host)\<lparr>wd_next_pid := 1\<rparr>"
  define w2 where "w2 = snd (acquire_single_worker_lock True True 0 ex_process w1)"
  define w3 where "w3 = (set_proc 1 (wd_procs w2 0) w2)\<lparr>wd_next_pid := 2\<rparr>"
  have p2: "\<exists>ps. wd_procs w2 0 = Some ps \<and> ps_path ps = Some ''l'' \<and> \<not> ps_multi ps"
    and n2: "wd_next_pid w2 = 1" and s2: "serves w2 0 ''l''"
    by (simp_all add: w2_def w1_def acquire_single_worker_lock_def Let_def ex_process_def empty_host_def serves_def)
  then obtain ps where ps: "wd_procs w2 0 = Some ps" "ps_path ps = Some ''l''" "\<not> ps_multi ps" by blast
  have "host_step empty_host w1"
    using host_step.spawn [of empty_host False "Some ''l''"] by (simp add: w1_def ex_process_def empty_host_def)
  then have "host_reach w1" by (rule host_reach.step [OF host_reach.start])
  moreover have "host_step w1 w2" unfolding w2_def by (rule host_step.acquire) (simp add: w1_def)
  ultimately have "host_reach w2" by (rule host_reach.step)
  moreover have "host_step w2 w3" using host_step.fork [OF ps(1)] by (simp add: w3_def n2 ps(1) numeral_2_eq_2)
  ultimately have r3: "host_reach w3" by (rule host_reach.step)
  have s3: "serves w3 0 ''l''" using s2 ps by (auto simp: serves_def w3_def)
  have q3: "wd_procs w3 1 = Some ps" by (simp add: w3_def ps)
  from one_worker_serves [OF r3 s3 q3 _ ps(2,3), of True True] s3 q3 show ?thesis by auto
qed

section \<open>Migrate, then serve\<close>

text \<open>What is documented of the migrations: the baseline and the head are among them, and when an upgrade to the
  head returns, exactly the head is stamped and no table of an island is gone. Of an upgrade that raises
  nothing is known.\<close>

definition alembic_ok :: "'s alembic \<Rightarrow> bool" where
  "alembic_ok al \<longleftrightarrow> al_head al \<in> set (al_known al) \<and> BASELINE_REVISION \<in> set (al_known al) \<and>
     (\<forall>d d'. al_upgrade al d = Inr d' \<longrightarrow> set (db_stamped d') = {al_head al} \<and> ''alembic_version'' \<in> set (db_tables d') \<and>
        set (db_tables d) \<subseteq> set (db_tables d'))"

text \<open>The database the upgrade starts from: an island on which nothing is stamped is adopted.\<close>

definition to_upgrade :: "'s database \<Rightarrow> 's database" where
  "to_upgrade d =
     (if ''alembic_version'' \<notin> set (db_tables d) \<or> db_stamped d = [] then stamp BASELINE_REVISION d else d)"

lemma migrate_run_cases:
  assumes "migrate_run al v = (r, v')"
  obtains (untouched) e where "r = Some e" "v' = v" "e \<noteq> UnknownRevision" "e \<noteq> UpgradeRaised"
  | (unknown) "r = Some UnknownRevision" "v' = v\<lparr>vo_db := to_upgrade (vo_db v)\<rparr>" "require_database_file v = None"
      "schema_status al (to_upgrade (vo_db v)) = UNKNOWN"
  | (raised) d2 where "r = Some UpgradeRaised" "v' = v\<lparr>vo_db := d2\<rparr>" "al_upgrade al (to_upgrade (vo_db v)) = Inl d2"
  | (returned) d2 where "r = None" "v' = v\<lparr>vo_db := d2\<rparr>" "al_upgrade al (to_upgrade (vo_db v)) = Inr d2"
      "''users'' \<in> set (db_tables (vo_db v))" "require_database_file v = None"
proof -
  let ?d = "vo_db v" and ?adopting = "''alembic_version'' \<notin> set (db_tables (vo_db v)) \<or> db_stamped (vo_db v) = []"
  have nofile: "e = NoDatabase \<or> e = UnreadableDatabase" if "require_database_file v = Some e" for e
    using that by (auto simp: require_database_file_def split: lstat.splits if_splits)
  show thesis
  proof (cases "require_database_file v")
    case (Some e)
    then have "(r, v') = (Some e, v)" using assms by (simp add: migrate_run_def)
    then show thesis using nofile [OF Some] by (intro untouched [of e]) auto
  next
    case None
    have run: "(r, v') = (if ''users'' \<notin> set (db_tables ?d) then (Some NotAnIsland, v)
      else if ?adopting \<and> al_differs al ?d then (Some BaselineDrift, v)
      else if schema_status al (to_upgrade ?d) = UNKNOWN then (Some UnknownRevision, v\<lparr>vo_db := to_upgrade ?d\<rparr>)
      else case al_upgrade al (to_upgrade ?d) of
        Inl d2 \<Rightarrow> (Some UpgradeRaised, v\<lparr>vo_db := to_upgrade ?d\<rparr>\<lparr>vo_db := d2\<rparr>)
      | Inr d2 \<Rightarrow> (None, v\<lparr>vo_db := to_upgrade ?d\<rparr>\<lparr>vo_db := d2\<rparr>))"
      unfolding assms [symmetric] migrate_run_def None option.case Let_def to_upgrade_def [symmetric] by (rule refl)
    consider (none) "''users'' \<notin> set (db_tables ?d)"
      | (drift) "\<not> ''users'' \<notin> set (db_tables ?d)" "?adopting \<and> al_differs al ?d"
      | (unk) "\<not> ''users'' \<notin> set (db_tables ?d)" "\<not> (?adopting \<and> al_differs al ?d)" "schema_status al (to_upgrade ?d) = UNKNOWN"
      | (up) "\<not> ''users'' \<notin> set (db_tables ?d)" "\<not> (?adopting \<and> al_differs al ?d)" "schema_status al (to_upgrade ?d) \<noteq> UNKNOWN" by blast
    then show thesis
    proof cases
      case none
      from run [unfolded if_P [OF none]] show thesis by (intro untouched [of NotAnIsland]) simp_all
    next
      case drift
      from run [unfolded if_not_P [OF drift(1)] if_P [OF drift(2)]] show thesis by (intro untouched [of BaselineDrift]) simp_all
    next
      case unk
      from run [unfolded if_not_P [OF unk(1)] if_not_P [OF unk(2)] if_P [OF unk(3)]] show thesis
        using unk(3) None by (intro unknown) simp_all
    next
      case up
      note run = run [unfolded if_not_P [OF up(1)] if_not_P [OF up(2)] if_not_P [OF up(3)]]
      show thesis
      proof (cases "al_upgrade al (to_upgrade ?d)")
        case (Inl d2)
        with run show thesis by (intro raised [of d2]) simp_all
      next
        case (Inr d2)
        with run up(1) None show thesis by (intro returned [of d2]) simp_all
      qed
    qed
  qed
qed

lemma adopted_known:
  assumes "alembic_ok al" and "schema_status al (to_upgrade d) = UNKNOWN"
  shows "to_upgrade d = d"
  using assms by (auto simp: to_upgrade_def stamp_def schema_status_def alembic_ok_def split: if_splits)

text \<open>The lifespan on a database at any revision.\<close>

lemma verify_head:
  assumes "require_database_file v = None"
  shows "verify_schema al (v\<lparr>vo_db := d\<rparr>) = (case assert_at_head al d of Some e \<Rightarrow> Some e | None \<Rightarrow> assert_schema_current d)"
  using assms by (simp add: verify_schema_def require_database_file_def split: if_splits option.splits)

lemma verify_accepts:
  "verify_schema al v = None \<Longrightarrow> ''alembic_version'' \<in> set (db_tables (vo_db v)) \<and> set (db_stamped (vo_db v)) = {al_head al} \<and>
     ''users'' \<in> set (db_tables (vo_db v))"
  by (auto simp: verify_schema_def assert_at_head_def schema_status_def assert_schema_current_def
      split: option.splits if_splits)

text \<open>C40: the two layers of the boot agree. When the migration runner returns, the database was an island
  before, the lifespan's revision check accepts it and the only refusal left to it is a schema edited
  by hand. When the runner refuses before the upgrade it leaves the volume exactly as it was, and on a
  volume stamped by a newer image the lifespan refuses with the same answer. When a migration raises,
  nothing but the database has changed and it is whatever that upgrade left of the island, stamped as
  the baseline before if nothing was stamped; the lifespan then serves it only if exactly the head is
  stamped and the users are there, so never at a revision between.\<close>

theorem boot_layers_agree:
  assumes "alembic_ok al" and "migrate_run al v = (r, v')"
  shows "case r of
      None \<Rightarrow> ''users'' \<in> set (db_tables (vo_db v)) \<and> require_database_file v = None \<and>
        verify_schema al v' \<in> {None, Some SchemaMismatch}
    | Some UpgradeRaised \<Rightarrow>
        (\<exists>d2. v' = v\<lparr>vo_db := d2\<rparr> \<and> al_upgrade al
           (if ''alembic_version'' \<notin> set (db_tables (vo_db v)) \<or> db_stamped (vo_db v) = []
            then stamp BASELINE_REVISION (vo_db v) else vo_db v) = Inl d2) \<and>
        (verify_schema al v' = None \<longrightarrow> ''alembic_version'' \<in> set (db_tables (vo_db v')) \<and>
           set (db_stamped (vo_db v')) = {al_head al} \<and> ''users'' \<in> set (db_tables (vo_db v')))
    | Some e \<Rightarrow> v' = v \<and> (e = UnknownRevision \<longrightarrow> verify_schema al v' = Some UnknownRevision)"
  using assms(2)
proof (cases rule: migrate_run_cases)
  case (untouched e)
  then show ?thesis by (cases e) simp_all
next
  case unknown
  have same: "to_upgrade (vo_db v) = vo_db v" using adopted_known [OF assms(1) unknown(4)] .
  moreover have "verify_schema al v' = Some UnknownRevision"
    using unknown verify_head [OF unknown(3)] by (simp add: assert_at_head_def)
  ultimately show ?thesis using unknown(1,2) by simp
next
  case (raised d2)
  then show ?thesis using verify_accepts [of al v'] by (simp add: to_upgrade_def)
next
  case (returned d2)
  have "set (db_tables (vo_db v)) \<subseteq> set (db_tables (to_upgrade (vo_db v)))" by (auto simp: to_upgrade_def stamp_def)
  with returned(3,4) assms(1) have d2: "set (db_stamped d2) = {al_head al}" "''alembic_version'' \<in> set (db_tables d2)"
    "''users'' \<in> set (db_tables d2)" "al_head al \<in> set (al_known al)" unfolding alembic_ok_def by blast+
  then have "assert_at_head al d2 = None" "assert_schema_current d2 \<in> {None, Some SchemaMismatch}"
    by (simp_all add: assert_at_head_def schema_status_def assert_schema_current_def)
  then show ?thesis using returned verify_head [OF returned(5), of al d2] by simp
qed

lemma lookup_replaced: "map_of (map (\<lambda>(n, w). if n = k then (n, v) else (n, w)) q) x =
    (if x = k then (case map_of q k of None \<Rightarrow> None | Some _ \<Rightarrow> Some v) else map_of q x)"
proof (induction q)
  case (Cons e q)
  then show ?case by (cases e; cases "x = k") simp_all
qed simp

lemma set_query_lookup: "map_of (set_query k v q) x = (if x = k then Some v else map_of q x)"
proof (cases "k \<in> fst ` set q")
  case True
  then have "map_of q k \<noteq> None" unfolding map_of_eq_None_iff by blast
  with True show ?thesis by (auto simp: set_query_def lookup_replaced)
next
  case False
  then have "map_of q k = None" unfolding map_of_eq_None_iff by blast
  with False show ?thesis by (simp add: set_query_def map_add_def split: option.split)
qed

lemma open_only_never_creates:
  assumes "sqlite_file lib url True = Some db"
  shows "map_of (du_query (open_only lib url)) ''mode'' \<in> {Some ''ro'', Some ''rw''}"
  using assms by (simp add: open_only_def Let_def set_query_lookup)

text \<open>An image whose only revision is the baseline, on an island stamped by a newer one.\<close>

definition ex_alembic :: "unit alembic" where
  "ex_alembic = \<lparr>al_known = [''0001''], al_head = ''0001'', al_differs = (\<lambda>_. False),
     al_upgrade = (\<lambda>d. Inr (d\<lparr>db_tables := ''alembic_version'' # db_tables d, db_stamped := [''0001'']\<rparr>))\<rparr>"

definition ex_volume :: "unit volume" where
  "ex_volume = \<lparr>vo_has_file = True, vo_lstat = Found,
     vo_db = \<lparr>db_tables = [''users'', ''alembic_version''], db_stamped = [''0002''], db_user_columns = [], db_schema = ()\<rparr>\<rparr>"

theorem boot_layers_agree_witness:
  "alembic_ok ex_alembic \<and> migrate_run ex_alembic ex_volume = (Some UnknownRevision, ex_volume) \<and>
     verify_schema ex_alembic ex_volume = Some UnknownRevision"
proof -
  have ok: "alembic_ok ex_alembic" by (auto simp: alembic_ok_def ex_alembic_def BASELINE_REVISION_def)
  have run: "migrate_run ex_alembic ex_volume = (Some UnknownRevision, ex_volume)"
    by (simp add: migrate_run_def ex_volume_def ex_alembic_def require_database_file_def schema_status_def)
  from boot_layers_agree [OF ok run] ok run show ?thesis by simp
qed

end
