(* ===== verification/Routes.thy ===== *)
theory Routes
  imports Realtime Memberships Communities
begin

text \<open>The channel side of the REST surface: the structured errors (\<open>rest/errors.py\<close>), the channel list
  (\<open>rest/channels.py\<close>), memberships (\<open>rest/members.py\<close>), history and single messages
  (\<open>rest/messages.py\<close>), direct messages (\<open>rest/dm.py\<close>), reports (\<open>rest/moderation.py\<close>) and reactions
  (\<open>rest/reactions.py\<close>). A route is a function from the authenticated caller, its arguments as the framework
  has typed them, and the store, to the response and the store it commits. The theorem of the theory is
  that no route tells a user anything of the part of the store they cannot see.\<close>

section \<open>Responses\<close>

text \<open>A status code and a JSON body; a body-less response has the body null. An exception nobody catches is a
  500, and the framework renders an \<open>HTTPException\<close> as its detail. The error list of a request the
  framework itself refuses is left out.\<close>

datatype response = Response int json

definition http_exception :: "int \<Rightarrow> string \<Rightarrow> response" where
  "http_exception code why = Response code (JObj [(''detail'', JStr why)])"

definition server_error :: response where "server_error = Response 500 (JStr ''Internal Server Error'')"
definition invalid_request :: response where "invalid_request = Response 422 JNull"
definition no_content :: response where "no_content = Response 204 JNull"

subsection \<open>Structured errors\<close>

definition ACCOUNT_SUSPENDED :: string where "ACCOUNT_SUSPENDED = ''account_suspended''"
definition INVALID_READ_POSITION :: string where "INVALID_READ_POSITION = ''invalid_read_position''"
definition TOO_MANY_READ_POSITIONS :: string where "TOO_MANY_READ_POSITIONS = ''too_many_read_positions''"

definition account_suspended :: response where
  "account_suspended = Response 403 (JObj [(''error'', JStr ACCOUNT_SUSPENDED), (''detail'', JStr ''account suspended'')])"

definition invalid_read_position :: "ident \<Rightarrow> string \<Rightarrow> response" where
  "invalid_read_position channel_id why = Response 422
     (JObj [(''error'', JStr INVALID_READ_POSITION), (''channel_id'', JStr channel_id), (''detail'', JStr why)])"

definition too_many_read_positions :: "string \<Rightarrow> response" where
  "too_many_read_positions why = Response 422 (JObj [(''error'', JStr TOO_MANY_READ_POSITIONS), (''detail'', JStr why)])"

section \<open>Channels and members\<close>

definition list_channels_route :: "user \<Rightarrow> db \<Rightarrow> response" where
  "list_channels_route u d = Response 200 (JObj [(''channels'', JList (map channel_item (visible_channels d (u_id u))))])"

definition channel_view :: "channel \<Rightarrow> json" where
  "channel_view c = JObj
     [(''id'', JStr (ch_id c)), (''name'', JStr (ch_name c)), (''kind'', JStr (channel_kind_value (ch_kind c))),
      (''aiko_channel'', JStr (ch_aiko_channel c)), (''is_private'', JBool (ch_is_private c)),
      (''join_policy'', JStr (join_policy_value (ch_join_policy c)))]"

definition member_view :: "membership \<Rightarrow> user \<Rightarrow> json" where
  "member_view m u = JObj
     [(''user_id'', JStr (mb_user_id m)), (''role'', JStr (role_value (mb_role m))), (''can_post'', JBool (mb_can_post m)),
      (''handle'', JStr (u_username u)), (''display_name'', JStr (u_display_name u)), (''kind'', JStr (user_kind_value (u_kind u)))]"

definition create_channel_route :: "instant \<Rightarrow> ident \<Rightarrow> user \<Rightarrow> string \<Rightarrow> bool \<Rightarrow> join_policy \<Rightarrow> db \<Rightarrow> response \<times> db" where
  "create_channel_route now new_id u nm is_private policy d =
     (case create_channel now new_id (u_id u) nm is_private (join_policy_value policy) STANDARD None d of
        Inl _ \<Rightarrow> (server_error, d)
      | Inr (c, d') \<Rightarrow> (Response 201 (channel_view c), d'))"

definition list_members_route :: "user \<Rightarrow> ident \<Rightarrow> db \<Rightarrow> response" where
  "list_members_route u channel_id d =
     (case list_members channel_id (u_id u) d of
        Inl ChannelNotFound \<Rightarrow> http_exception 404 ''channel not found''
      | Inl _ \<Rightarrow> server_error
      | Inr members \<Rightarrow> Response 200 (JObj [(''channel_id'', JStr channel_id),
          (''members'', JList (map (\<lambda>(m, v). member_view m v) members))]))"

definition add_member_route :: "(db \<Rightarrow> db) \<Rightarrow> instant \<Rightarrow> user \<Rightarrow> ident \<Rightarrow> ident \<Rightarrow> role \<Rightarrow> bool \<Rightarrow> db \<Rightarrow> response \<times> db" where
  "add_member_route race now u channel_id user_id role can_post_arg d =
     (case add_member race now channel_id (u_id u) user_id (role_value role) can_post_arg d of
        Inl ChannelNotFound \<Rightarrow> (http_exception 404 ''channel not found'', d)
      | Inl NotChannelAdmin \<Rightarrow> (http_exception 403 ''only a channel admin may add members'', d)
      | Inl NotAMember \<Rightarrow> (http_exception 404 ''user not found'', d)
      | Inl DmMembershipImmutable \<Rightarrow> (http_exception 409 ''a direct message cannot add members'', d)
      | Inl _ \<Rightarrow> (server_error, d)
      | Inr ((m, added), d') \<Rightarrow> (Response 201 (member_view m added), d'))"

definition remove_member_route :: "(db \<Rightarrow> db) \<Rightarrow> user \<Rightarrow> ident \<Rightarrow> ident \<Rightarrow> db \<Rightarrow> response \<times> db" where
  "remove_member_route race u channel_id user_id d =
     (case remove_member race channel_id (u_id u) user_id d of
        Inl ChannelNotFound \<Rightarrow> (http_exception 404 ''channel not found'', d)
      | Inl NotChannelAdmin \<Rightarrow> (http_exception 403 ''only a channel admin may remove members'', d)
      | Inl NotAMember \<Rightarrow> (http_exception 404 ''member not found'', d)
      | Inl LastAdmin \<Rightarrow> (http_exception 409 ''cannot remove the last admin of a channel'', d)
      | Inl DmMembershipImmutable \<Rightarrow> (http_exception 409 ''a direct message's membership is fixed'', d)
      | Inl _ \<Rightarrow> (server_error, d)
      | Inr d' \<Rightarrow> (no_content, d'))"

definition join_channel_route :: "(db \<Rightarrow> db) \<Rightarrow> instant \<Rightarrow> user \<Rightarrow> ident \<Rightarrow> db \<Rightarrow> response \<times> db" where
  "join_channel_route race now u channel_id d =
     (case self_join race now channel_id (u_id u) d of
        Inl ChannelNotFound \<Rightarrow> (http_exception 404 ''channel not found'', d)
      | Inl DmMembershipImmutable \<Rightarrow> (http_exception 409 ''a direct message cannot add members'', d)
      | Inl _ \<Rightarrow> (server_error, d)
      | Inr (m, d') \<Rightarrow> (Response 201 (member_view m u), d'))"

definition leave_channel_route :: "(db \<Rightarrow> db) \<Rightarrow> user \<Rightarrow> ident \<Rightarrow> db \<Rightarrow> response \<times> db" where
  "leave_channel_route race u channel_id d =
     (case leave race channel_id (u_id u) d of
        Inl NotAMember \<Rightarrow> (http_exception 404 ''channel not found'', d)
      | Inl LastAdmin \<Rightarrow> (http_exception 409 ''cannot leave as the last admin of a channel'', d)
      | Inl _ \<Rightarrow> (server_error, d)
      | Inr d' \<Rightarrow> (no_content, d'))"

section \<open>Messages\<close>

text \<open>A text of code points as JSON writes it, in UTF-8. A request body and a query string cannot hold a lone
  surrogate, so the other branch is never taken.\<close>

definition wire_text :: "code_points \<Rightarrow> string" where
  "wire_text txt = (case utf8_nats txt of None \<Rightarrow> [] | Some bs \<Rightarrow> map char_of bs)"

definition reactor_view :: "ident \<times> json option \<Rightarrow> json" where
  "reactor_view r = JObj ((''user_id'', JStr (fst r)) # (case snd r of None \<Rightarrow> [] | Some origin \<Rightarrow> [(''origin'', origin)]))"

definition reaction_view :: "reaction_line \<Rightarrow> json" where
  "reaction_view l = JObj
     [(''emoji'', JStr (wire_text (rl_emoji l))), (''count'', JInt (int (rl_count l))),
      (''reacted_by_me'', JBool (rl_reacted_by_me l)), (''reactors'', JList (map reactor_view (rl_reactors l)))]"

definition reaction_views :: "(ident \<rightharpoonup> reaction_line list) \<Rightarrow> message \<Rightarrow> json list" where
  "reaction_views aggregate m = (case aggregate (m_id m) of None \<Rightarrow> [] | Some ls \<Rightarrow> map reaction_view ls)"

text \<open>The read routes issue several queries; \<open>state n\<close> is the store when the \<open>n\<close>-th one runs.\<close>

definition get_message_route :: "(instant \<Rightarrow> string) \<Rightarrow> user \<Rightarrow> ident \<Rightarrow> (nat \<Rightarrow> db) \<Rightarrow> response" where
  "get_message_route isoformat u message_id state =
     (case visible_message (state 0) (u_id u) message_id of
        None \<Rightarrow> http_exception 404 ''message not found''
      | Some msg \<Rightarrow>
          let blocked = blocked_pair_user_ids (state 1) (u_id u);
              aggregate = aggregate_for_messages (state 2) [m_id msg] (u_id u) blocked
          in Response 200 (message_view isoformat (reaction_views aggregate msg) msg))"

fun history_item_view :: "(instant \<Rightarrow> string) \<Rightarrow> (ident \<rightharpoonup> reaction_line list) \<Rightarrow> history_item \<Rightarrow> json" where
  "history_item_view isoformat reactions (MsgItem m) =
     (case message_view isoformat (reaction_views reactions m) m of
        JObj kvs \<Rightarrow> JObj ((''type'', JStr ''message'') # kvs) | j \<Rightarrow> j)"
| "history_item_view isoformat reactions (RetItem r) = retraction_view r"

definition history_msg_ids :: "history_item list \<Rightarrow> ident list" where
  "history_msg_ids rows = List.map_filter (\<lambda>i. case i of MsgItem m \<Rightarrow> Some (m_id m) | RetItem _ \<Rightarrow> None) rows"

definition history_route :: "(instant \<Rightarrow> string) \<Rightarrow> user \<Rightarrow> ident \<Rightarrow> ident option \<Rightarrow> ident option \<Rightarrow> int \<Rightarrow> (nat \<Rightarrow> db) \<Rightarrow> response" where
  "history_route isoformat u channel_id before after limit state =
     (if limit < 1 \<or> limit > 200 then invalid_request
      else case readable_channel (state 0) (u_id u) channel_id of
        None \<Rightarrow> http_exception 404 ''channel not found''
      | Some _ \<Rightarrow>
          let rows = get_history (state 1) channel_id (u_id u) before after (nat limit);
              blocked = blocked_pair_user_ids (state 2) (u_id u);
              reactions = aggregate_for_messages (state 3) (history_msg_ids rows) (u_id u) blocked
          in Response 200 (JObj
               [(''channel_id'', JStr channel_id), (''messages'', JList (map (history_item_view isoformat reactions) rows)),
                (''next_before'', json_opt (if rows = [] then None else Some (item_id (hd rows)))),
                (''next_after'', json_opt (if rows = [] then None else Some (item_id (last rows))))]))"

section \<open>Direct messages\<close>

definition dm_channel_view :: "(instant \<Rightarrow> string) \<Rightarrow> channel \<Rightarrow> ident list \<Rightarrow> (string \<times> json) list" where
  "dm_channel_view isoformat c members =
     [(''channel_id'', JStr (ch_id c)), (''kind'', JStr (channel_kind_value (ch_kind c))),
      (''members'', JList (map JStr members)), (''created_at'', JStr (isoformat (ch_created_at c)))]"

definition open_dm_route :: "(instant \<Rightarrow> string) \<Rightarrow> (db \<Rightarrow> db) \<Rightarrow> instant \<Rightarrow> ident \<Rightarrow> user \<Rightarrow> ident \<Rightarrow> db \<Rightarrow> response \<times> db" where
  "open_dm_route isoformat race now new_id u target_user_id d =
     (case get_or_create_dm race now new_id (u_id u) target_user_id d of
        Inl TargetNotFound \<Rightarrow> (http_exception 404 ''user not found'', d)
      | Inl DmKeyCollision \<Rightarrow> (http_exception 409 ''cannot open a direct message with this user right now'', d)
      | Inl DmIntegrityError \<Rightarrow> (server_error, d)
      | Inr ((c, members), d') \<Rightarrow> (Response 200 (JObj (dm_channel_view isoformat c members)), d'))"

definition dm_item :: "(instant \<Rightarrow> string) \<Rightarrow> (ident \<rightharpoonup> ident list) \<Rightarrow> (ident \<rightharpoonup> message) \<Rightarrow> channel \<Rightarrow> json" where
  "dm_item isoformat members_by_channel last_by_channel c =
     JObj (dm_channel_view isoformat c (case members_by_channel (ch_id c) of None \<Rightarrow> [] | Some ms \<Rightarrow> ms)
       @ [(''last_message'', case last_by_channel (ch_id c) of None \<Rightarrow> JNull | Some m \<Rightarrow> message_view isoformat [] m)])"

definition list_dms_route :: "(instant \<Rightarrow> string) \<Rightarrow> user \<Rightarrow> (nat \<Rightarrow> db) \<Rightarrow> response" where
  "list_dms_route isoformat u state =
     (let chans = list_dms (state 0) (u_id u);
          channel_ids = map ch_id chans;
          members_by_channel = members_of_many (state 1) channel_ids;
          last_by_channel = last_visible_messages (state 2) channel_ids (u_id u)
      in Response 200 (JObj [(''channels'', JList (map (dm_item isoformat members_by_channel last_by_channel) chans))]))"


section \<open>Reports\<close>

definition ALERT_PREVIEW_MAX :: nat where "ALERT_PREVIEW_MAX = 120"

text \<open>The operator's alert is a background task: the address and the document it will post. A request that
  fails commits nothing of its own; \<open>race\<close> is what others commit between its reads and its write.\<close>

definition alert_payload :: "(instant \<Rightarrow> string) \<Rightarrow> message_report \<Rightarrow> message \<Rightarrow> json" where
  "alert_payload isoformat report msg = JObj
     [(''report_id'', JStr (rep_id report)), (''message_id'', JStr (rep_message_id report)),
      (''channel_id'', JStr (m_channel_id msg)), (''reason'', JStr (report_reason_value (rep_reason report))),
      (''reporter_user_id'', json_opt (rep_reporter_user_id report)), (''created_at'', JStr (isoformat (rep_created_at report))),
      (''preview'', JStr (take ALERT_PREVIEW_MAX (m_body msg)))]"

definition report_message_route :: "string option \<Rightarrow> (instant \<Rightarrow> string) \<Rightarrow> (db \<Rightarrow> db) \<Rightarrow> instant \<Rightarrow> ident \<Rightarrow> user \<Rightarrow> ident \<Rightarrow>
    report_reason \<Rightarrow> db \<Rightarrow> (response \<times> (string \<times> json) list) \<times> db" where
  "report_message_route webhook isoformat race now new_id u message_id reason d =
     (case get_reportable_message d (u_id u) message_id of
        None \<Rightarrow> ((http_exception 404 ''message not found'', []), d)
      | Some msg \<Rightarrow>
          (case report_message now new_id (u_id u) message_id (report_reason_value reason) (race d) of
             Inl MessageNotFound \<Rightarrow> ((http_exception 404 ''message not found'', []), race d)
           | Inl _ \<Rightarrow> ((server_error, []), race d)
           | Inr (report, d') \<Rightarrow>
               ((Response 201 (JObj [(''report_id'', JStr (rep_id report))]),
                 case webhook of None \<Rightarrow> [] | Some url \<Rightarrow> if url = [] then [] else [(url, alert_payload isoformat report msg)]), d')))"

section \<open>Reactions\<close>

text \<open>The exclusions of a live frame: whoever has a block with the reactor or with the author.\<close>

definition reaction_excludes :: "db \<Rightarrow> db \<Rightarrow> ident \<Rightarrow> ident option \<Rightarrow> ident list" where
  "reaction_excludes d1 d2 actor_id author_id =
     blocked_pair_user_ids d1 actor_id @
     (case author_id of None \<Rightarrow> [] | Some a \<Rightarrow> if a = actor_id then [] else blocked_pair_user_ids d2 a)"

definition reaction_reply :: "ident \<Rightarrow> emoji \<Rightarrow> nat option \<Rightarrow> bool \<Rightarrow> response" where
  "reaction_reply message_id emoji n reacted = Response 200 (JObj
     [(''msg_id'', JStr message_id), (''emoji'', JStr (wire_text emoji)),
      (''count'', case n of None \<Rightarrow> JNull | Some k \<Rightarrow> JInt (int k)), (''reacted_by_me'', JBool reacted)])"

text \<open>The texts of the two validation errors are arguments. \<open>race\<close> is what others commit between the visibility
  check and the write, \<open>later n\<close> what they commit between the write and the \<open>n\<close>-th query after it.\<close>

record reaction_env =
  rx_emoji_why :: "emoji \<Rightarrow> string"
  rx_origin_why :: "json \<Rightarrow> string"
  rx_race :: "db \<Rightarrow> db"
  rx_now :: instant
  rx_later :: "nat \<Rightarrow> db \<Rightarrow> db"

definition response_count :: "db \<Rightarrow> db \<Rightarrow> ident \<Rightarrow> ident \<Rightarrow> emoji \<Rightarrow> ident list \<Rightarrow> nat option" where
  "response_count d1 d2 viewer_id message_id emoji blocked =
     (case visible_message d1 viewer_id message_id of
        None \<Rightarrow> None | Some _ \<Rightarrow> Some (emoji_count d2 message_id emoji blocked))"

definition add_reaction_route :: "reaction_env \<Rightarrow> user \<Rightarrow> ident \<Rightarrow> emoji \<Rightarrow> string option \<Rightarrow> json option \<Rightarrow> db \<Rightarrow>
    (response \<times> effect list) \<times> db" where
  "add_reaction_route env u message_id emoji_arg client_msg_id origin_arg d =
     (case validate_emoji (Some emoji_arg) of
        Inl _ \<Rightarrow> ((http_exception 422 (rx_emoji_why env emoji_arg), []), d)
      | Inr emoji \<Rightarrow>
          if origin_arg \<noteq> None \<and> truthy client_msg_id = None
          then ((http_exception 422 ''origin: a signed reaction requires a non-empty client_msg_id'', []), d)
          else
            (case validate_origin (case origin_arg of None \<Rightarrow> JNull | Some raw \<Rightarrow> raw)
                    (case client_msg_id of None \<Rightarrow> [] | Some s \<Rightarrow> s) of
               Inl _ \<Rightarrow> ((http_exception 422 (''origin: '' @ rx_origin_why env (the origin_arg)), []), d)
             | Inr origin \<Rightarrow>
                 (case visible_message d (u_id u) message_id of
                    None \<Rightarrow> ((http_exception 404 ''message not found'', []), d)
                  | Some msg \<Rightarrow>
                      (case add_reaction (rx_now env) (u_id u) message_id emoji origin (rx_race env d) of
                         Inl ReactionLimitExceeded \<Rightarrow> ((http_exception 429 ''at most 20 reactions per message'', []), rx_race env d)
                       | Inl InvalidEmoji \<Rightarrow> ((server_error, []), rx_race env d)
                       | Inr (changed, d') \<Rightarrow>
                           let blocked = blocked_pair_user_ids (rx_later env 0 d') (u_id u);
                               frames = (if changed
                                 then [Fanout (m_channel_id msg)
                                        (reaction_frame (m_channel_id msg) message_id (wire_text emoji) ADD (u_id u)
                                           (persisted_origin (rx_later env 1 d') message_id (u_id u) emoji))
                                        (reaction_excludes (rx_later env 2 d') (rx_later env 3 d') (u_id u) (m_sender_user_id msg))]
                                 else []);
                               n = response_count (rx_later env 4 d') (rx_later env 5 d') (u_id u) message_id emoji blocked
                           in ((reaction_reply message_id emoji n True, frames), d')))))"

definition remove_reaction_route :: "reaction_env \<Rightarrow> user \<Rightarrow> ident \<Rightarrow> emoji \<Rightarrow> db \<Rightarrow> (response \<times> effect list) \<times> db" where
  "remove_reaction_route env u message_id emoji_arg d =
     (case validate_emoji (Some emoji_arg) of
        Inl _ \<Rightarrow> ((http_exception 422 (rx_emoji_why env emoji_arg), []), d)
      | Inr emoji \<Rightarrow>
          (case remove_reaction (u_id u) message_id emoji d of
             Inl _ \<Rightarrow> ((server_error, []), d)
           | Inr (changed, d') \<Rightarrow>
               let blocked = blocked_pair_user_ids (rx_later env 0 d') (u_id u) in
               if changed then
                 let frames = (case get_message (rx_later env 1 d') message_id of
                        None \<Rightarrow> []
                      | Some live \<Rightarrow>
                          if m_deleted_at live \<noteq> None then []
                          else [Fanout (m_channel_id live)
                                 (reaction_frame (m_channel_id live) message_id (wire_text emoji) REMOVE (u_id u) None)
                                 (reaction_excludes (rx_later env 2 d') (rx_later env 3 d') (u_id u) (m_sender_user_id live))]);
                     n = response_count (rx_later env 4 d') (rx_later env 5 d') (u_id u) message_id emoji blocked
                 in ((reaction_reply message_id emoji n False, frames), d')
               else (case visible_message (rx_later env 1 d') (u_id u) message_id of
                       None \<Rightarrow> ((http_exception 404 ''message not found'', []), d')
                     | Some _ \<Rightarrow> ((reaction_reply message_id emoji None False, []), d'))))"


section \<open>What a user sees of the store\<close>

text \<open>A channel a user knows is one they can read or hold a membership row of. What a user may see: the channels
  they can read or could join by themselves, the members, messages and retractions of the channels they know,
  and of the reactions their own and those on a message of a readable channel.\<close>

definition knows_channel :: "db \<Rightarrow> ident \<Rightarrow> ident \<Rightarrow> bool" where
  "knows_channel d u cid \<longleftrightarrow> has_membership d cid u \<or> readable_channel d u cid \<noteq> None"

definition in_readable :: "db \<Rightarrow> ident \<Rightarrow> ident \<Rightarrow> bool" where
  "in_readable d u message_id = (case get_message d message_id of
     None \<Rightarrow> False | Some m \<Rightarrow> readable_channel d u (m_channel_id m) \<noteq> None)"

definition seen_by :: "ident \<Rightarrow> db \<Rightarrow> db" where
  "seen_by u d = d\<lparr>
     channels := filter (\<lambda>c. readable_predicate d u c \<or> ch_join_policy c = OPEN) (channels d),
     memberships := filter (\<lambda>m. knows_channel d u (mb_channel_id m)) (memberships d),
     messages := filter (\<lambda>m. readable_channel d u (m_channel_id m) \<noteq> None) (messages d),
     message_retractions := filter (\<lambda>r. readable_channel d u (ret_channel_id r) \<noteq> None) (message_retractions d),
     message_reactions := filter (\<lambda>r. re_user_id r = u \<or> in_readable d u (re_message_id r)) (message_reactions d)\<rparr>"

text \<open>The requests a user can send about channels and messages, and what answers them. The request runs alone.\<close>

datatype request =
    ListChannels
  | ListMembers ident
  | AddMember ident ident role bool
  | RemoveMember ident ident
  | JoinChannel ident
  | LeaveChannel ident
  | GetMessage ident
  | History ident "ident option" "ident option" int
  | ListDms
  | ReportMessage ident report_reason
  | AddReaction ident emoji "string option" "json option"
  | RemoveReaction ident emoji

record route_env =
  ro_isoformat :: "instant \<Rightarrow> string"
  ro_now :: instant
  ro_new_id :: ident
  ro_webhook :: "string option"
  ro_emoji_why :: "emoji \<Rightarrow> string"
  ro_origin_why :: "json \<Rightarrow> string"

definition alone :: "route_env \<Rightarrow> reaction_env" where
  "alone env = \<lparr>rx_emoji_why = ro_emoji_why env, rx_origin_why = ro_origin_why env, rx_race = id, rx_now = ro_now env,
     rx_later = (\<lambda>_ d. d)\<rparr>"

fun answered :: "route_env \<Rightarrow> user \<Rightarrow> request \<Rightarrow> db \<Rightarrow> response" where
  "answered env u ListChannels d = list_channels_route u d"
| "answered env u (ListMembers cid) d = list_members_route u cid d"
| "answered env u (AddMember cid v r cp) d = fst (add_member_route id (ro_now env) u cid v r cp d)"
| "answered env u (RemoveMember cid v) d = fst (remove_member_route id u cid v d)"
| "answered env u (JoinChannel cid) d = fst (join_channel_route id (ro_now env) u cid d)"
| "answered env u (LeaveChannel cid) d = fst (leave_channel_route id u cid d)"
| "answered env u (GetMessage mid) d = get_message_route (ro_isoformat env) u mid (\<lambda>_. d)"
| "answered env u (History cid before after limit) d = history_route (ro_isoformat env) u cid before after limit (\<lambda>_. d)"
| "answered env u ListDms d = list_dms_route (ro_isoformat env) u (\<lambda>_. d)"
| "answered env u (ReportMessage mid reason) d =
     fst (fst (report_message_route (ro_webhook env) (ro_isoformat env) id (ro_now env) (ro_new_id env) u mid reason d))"
| "answered env u (AddReaction mid e cmid origin) d = fst (fst (add_reaction_route (alone env) u mid e cmid origin d))"
| "answered env u (RemoveReaction mid e) d = fst (fst (remove_reaction_route (alone env) u mid e d))"

subsection \<open>Lookups\<close>

lemma seen_by_sel [simp]:
  "users (seen_by u d) = users d" "user_blocks (seen_by u d) = user_blocks d" "message_reports (seen_by u d) = message_reports d"
  "channels (seen_by u d) = filter (\<lambda>c. readable_predicate d u c \<or> ch_join_policy c = OPEN) (channels d)"
  "memberships (seen_by u d) = filter (\<lambda>m. knows_channel d u (mb_channel_id m)) (memberships d)"
  "messages (seen_by u d) = filter (\<lambda>m. readable_channel d u (m_channel_id m) \<noteq> None) (messages d)"
  "message_retractions (seen_by u d) = filter (\<lambda>r. readable_channel d u (ret_channel_id r) \<noteq> None) (message_retractions d)"
  "message_reactions (seen_by u d) = filter (\<lambda>r. re_user_id r = u \<or> in_readable d u (re_message_id r)) (message_reactions d)"
  by (simp_all add: seen_by_def)

lemma find_filter_implied: "(\<And>x. P x \<Longrightarrow> Q x) \<Longrightarrow> find P (filter Q xs) = find P xs"
  by (induction xs) auto

lemma filter_filter_implied: "(\<And>x. P x \<Longrightarrow> Q x) \<Longrightarrow> filter P (filter Q xs) = filter P xs"
  by (induction xs) auto

lemma knows_readable: "readable_channel d u cid = Some c \<Longrightarrow> knows_channel d u cid"
  and knows_member: "has_membership d cid u \<Longrightarrow> knows_channel d u cid"
  by (simp_all add: knows_channel_def)

lemma seen_rows:
  assumes "knows_channel d u cid"
  shows "get_membership (seen_by u d) cid v = get_membership d cid v"
    and "filter (\<lambda>m. mb_channel_id m = cid \<and> P m) (memberships (seen_by u d)) = filter (\<lambda>m. mb_channel_id m = cid \<and> P m) (memberships d)"
    and "filter (\<lambda>m. mb_channel_id m = cid) (memberships (seen_by u d)) = filter (\<lambda>m. mb_channel_id m = cid) (memberships d)"
  using assms by (auto simp: get_membership_def intro!: find_filter_implied filter_cong)

lemma seen_has_membership [simp]: "has_membership (seen_by u d) cid u = has_membership d cid u"
  by (auto simp: has_membership_def list_ex_iff knows_channel_def)

lemma seen_get_membership [simp]: "get_membership (seen_by u d) cid u = get_membership d cid u"
proof (cases "has_membership d cid u")
  case True
  then show ?thesis using seen_rows(1) knows_member by blast
next
  case False
  then show ?thesis by (metis get_membership_None_iff seen_has_membership)
qed

lemma seen_readable_predicate [simp]: "readable_predicate (seen_by u d) u c = readable_predicate d u c"
  by (simp add: readable_predicate_def)

lemma seen_readable_channel [simp]: "readable_channel (seen_by u d) u cid = readable_channel d u cid"
  by (auto simp: readable_channel_def intro: find_filter_implied)

lemma seen_get_user [simp]: "DirectMessages.get_user (seen_by u d) v = DirectMessages.get_user d v"
  by (simp add: DirectMessages.get_user_def)

lemma seen_blocked [simp]: "blocked_pair_user_ids (seen_by u d) v = blocked_pair_user_ids d v"
  "not_blocked_predicate (seen_by u d) v = not_blocked_predicate d v"
  by (auto simp: blocked_pair_user_ids_def not_blocked_predicate_def)

lemma seen_admins: "knows_channel d u cid \<Longrightarrow> admins (seen_by u d) cid = admins d cid"
  using seen_rows(2) [of d u cid "\<lambda>m. mb_role m = ADMIN"] by (simp add: admins_def rowcount_def)


lemma seen_get_message:
  assumes "unique_on m_id (messages d)"
  shows "get_message (seen_by u d) mid = (if in_readable d u mid then get_message d mid else None)"
proof (cases "get_message d mid")
  case None
  then have "get_message (seen_by u d) mid = None" by (auto simp: get_message_def row_simps)
  with None show ?thesis by simp
next
  case (Some m)
  then have m: "m \<in> set (messages d)" "m_id m = mid" by (auto simp: get_message_def dest: find_SomeD)
  have only: "x = m" if "x \<in> set (messages d)" "m_id x = mid" for x
    using that m assms by (auto dest: unique_onD)
  show ?thesis
  proof (cases "readable_channel d u (m_channel_id m) = None")
    case True
    then have "get_message (seen_by u d) mid = None" using only by (auto simp: get_message_def row_simps)
    with True Some show ?thesis by (simp add: in_readable_def)
  next
    case False
    have "find (\<lambda>x. m_id x = mid) (messages (seen_by u d)) = find (\<lambda>x. m_id x = mid) (messages d)"
      using only False by (simp add: find_filter_conj) (auto intro!: find_cong')
    with False Some show ?thesis by (simp add: get_message_def in_readable_def)
  qed
qed

lemma seen_visible_message:
  assumes "unique_on m_id (messages d)"
  shows "visible_message (seen_by u d) u mid = visible_message d u mid"
  by (auto simp: visible_message_def seen_get_message [OF assms] in_readable_def split: option.splits)

lemma seen_reportable:
  assumes "unique_on m_id (messages d)"
  shows "get_reportable_message (seen_by u d) u mid = get_reportable_message d u mid"
  by (auto simp: get_reportable_message_def seen_get_message [OF assms] in_readable_def split: option.splits)

lemma visible_in_readable: "visible_message d u mid = Some m \<Longrightarrow> in_readable d u mid \<and> get_message d mid = Some m"
  by (auto simp: visible_message_def in_readable_def split: option.splits if_splits)

lemma seen_shown: "readable_channel d u cid = Some c \<Longrightarrow> shown_messages (seen_by u d) cid u = shown_messages d cid u"
  by (auto simp: shown_messages_def intro!: filter_cong)

lemma seen_retractions: "readable_channel d u cid = Some c \<Longrightarrow> channel_retractions (seen_by u d) cid = channel_retractions d cid"
  by (auto simp: channel_retractions_def intro!: filter_cong)

lemma seen_history:
  "readable_channel d u cid = Some c \<Longrightarrow> get_history (seen_by u d) cid u before after limit = get_history d cid u before after limit"
  by (simp add: get_history_def seen_shown seen_retractions)

lemma seen_reactions:
  "in_readable d u mid \<Longrightarrow> filter (\<lambda>r. re_message_id r = mid \<and> P r) (message_reactions (seen_by u d)) =
     filter (\<lambda>r. re_message_id r = mid \<and> P r) (message_reactions d)"
  "filter (\<lambda>r. re_message_id r = mid \<and> re_user_id r = u) (message_reactions (seen_by u d)) =
     filter (\<lambda>r. re_message_id r = mid \<and> re_user_id r = u) (message_reactions d)"
  by (auto intro!: filter_cong)

lemma seen_own_reaction: "get_reaction (seen_by u d) mid u e = get_reaction d mid u e"
  by (auto simp: get_reaction_def re_key_def intro!: find_filter_implied)

lemma seen_counted: "in_readable d u mid \<Longrightarrow> counted_rows (seen_by u d) mid bl = counted_rows d mid bl"
  unfolding counted_rows_def by (rule seen_reactions(1))

lemma seen_line: "in_readable d u mid \<Longrightarrow> line_of (seen_by u d) mid u bl e = line_of d mid u bl e"
  by (simp add: line_of_def sample_def count_of_def mine_of_def seen_counted seen_own_reaction)

lemma seen_aggregate:
  assumes "\<And>m. m \<in> set mids \<Longrightarrow> in_readable d u m"
  shows "aggregate_for_messages (seen_by u d) mids u bl = aggregate_for_messages d mids u bl"
proof
  fix m
  show "aggregate_for_messages (seen_by u d) mids u bl m = aggregate_for_messages d mids u bl m"
  proof (cases "m \<in> set mids")
    case True
    then have r: "in_readable d u m" by (rule assms)
    have "count_of (seen_by u d) m bl = count_of d m bl" by (rule ext) (simp add: count_of_def seen_counted [OF r])
    then have "projected (seen_by u d) m u bl = projected d m u bl"
      by (simp add: projected_def mine_of_def seen_counted [OF r] seen_own_reaction)
    moreover have "line_of (seen_by u d) m u bl = line_of d m u bl" using seen_line [OF r] by blast
    ultimately show ?thesis by (simp add: aggregate_for_messages_def seen_counted [OF r])
  qed (simp add: aggregate_for_messages_def)
qed


section \<open>Nothing else shows\<close>

lemma seen_members_routes:
  "list_channels_route u (seen_by (u_id u) d) = list_channels_route u d"
  "list_members_route u cid (seen_by (u_id u) d) = list_members_route u cid d"
proof -
  have "visible_channels (seen_by (u_id u) d) (u_id u) = visible_channels d (u_id u)"
    by (auto simp: visible_channels_def intro!: arg_cong [where f = "order_asc ch_id"] filter_cong)
  then show "list_channels_route u (seen_by (u_id u) d) = list_channels_route u d"
    by (simp add: list_channels_route_def)
  have "list_members cid (u_id u) (seen_by (u_id u) d) = list_members cid (u_id u) d"
    by (cases "readable_channel d (u_id u) cid")
      (simp_all add: list_members_def seen_rows(3) [OF knows_readable] del: seen_by_sel(5))
  then show "list_members_route u cid (seen_by (u_id u) d) = list_members_route u cid d"
    by (simp add: list_members_route_def)
qed

text \<open>Two service calls answer alike: the same error, or the same result of possibly different stores.\<close>

definition alike :: "'e + ('a \<times> db) \<Rightarrow> 'e + ('a \<times> db) \<Rightarrow> bool" where
  "alike r r' \<longleftrightarrow> map_sum id fst r = map_sum id fst r'"

lemma seen_insert:
  assumes "knows_channel d u cid" and "mb_channel_id m = cid"
  shows "alike (insert_idempotent m (seen_by u d)) (insert_idempotent m d)"
proof -
  have "list_ex (\<lambda>r. mb_key r = mb_key m) (memberships (seen_by u d)) \<longleftrightarrow> list_ex (\<lambda>r. mb_key r = mb_key m) (memberships d)"
    using assms by (auto simp: list_ex_iff mb_key_def)
  then show ?thesis using seen_rows(1) [OF assms(1), of "mb_user_id m"] assms(2)
    by (auto simp: alike_def insert_idempotent_def insert_membership_def split: option.splits)
qed

lemma alike_Inl: "alike (Inl e) (Inl e)" and alike_Inr: "alike (Inr (x, d)) (Inr (x, d'))"
  by (simp_all add: alike_def)

lemma seen_add_member:
  "alike (add_member id now cid u v r cp (seen_by u d)) (add_member id now cid u v r cp d)"
proof (cases "readable_channel d u cid")
  case None
  then show ?thesis by (simp add: add_member_def alike_Inl)
next
  case (Some c)
  note rows = seen_rows(1) [OF knows_readable [OF Some]]
  have with_user: "membership_with_user (seen_by u d) cid v = membership_with_user d cid v"
    by (simp add: membership_with_user_def rows split: option.split)
  let ?m = "\<lparr>mb_channel_id = cid, mb_user_id = v, mb_role = coerce_role r, mb_can_post = cp, mb_joined_at = now\<rparr>"
  have ins: "alike (insert_idempotent ?m (seen_by u d)) (insert_idempotent ?m d)"
    by (rule seen_insert [OF knows_readable [OF Some]]) simp
  show ?thesis
  proof (cases "ch_kind c = DM \<or> (\<exists>e. require_admin d cid u (Some c) = Inl e) \<or> membership_with_user d cid v \<noteq> None \<or> DirectMessages.get_user d v = None")
    case True
    then show ?thesis using Some
      by (auto simp: add_member_def require_admin_def with_user alike_def split: sum.split option.split)
  next
    case False
    then show ?thesis using Some ins
      by (auto simp: add_member_def require_admin_def with_user alike_def split: sum.splits option.splits if_splits)
  qed
qed


lemma seen_add_member_route:
  "fst (add_member_route id now u cid v r cp (seen_by (u_id u) d)) = fst (add_member_route id now u cid v r cp d)"
  using seen_add_member [of now cid "u_id u" v "role_value r" cp d]
  by (auto simp: alike_def add_member_route_def map_sum_def split: sum.splits membership_error.splits)

lemma seen_delete:
  assumes "knows_channel d u cid"
  shows "fst (delete_membership_unless_last_admin (seen_by u d) cid v a) = fst (delete_membership_unless_last_admin d cid v a)"
proof -
  have rows: "rowcount (\<lambda>m. mb_channel_id m = cid \<and> mb_user_id m = v \<and> P) (memberships (seen_by u d)) =
      rowcount (\<lambda>m. mb_channel_id m = cid \<and> mb_user_id m = v \<and> P) (memberships d)" for P
    using seen_rows(2) [OF assms, of "\<lambda>m. mb_user_id m = v \<and> P"] by (simp add: rowcount_def)
  show ?thesis
    unfolding delete_membership_unless_last_admin_def Let_def rows seen_admins [OF assms] seen_rows(1) [OF assms]
    by (simp only: fst_conv split: if_split) blast
qed

lemma seen_remove_leave:
  "fst (remove_member_route id u cid v (seen_by (u_id u) d)) = fst (remove_member_route id u cid v d)"
  "fst (leave_channel_route id u cid (seen_by (u_id u) d)) = fst (leave_channel_route id u cid d)"
proof -
  have "map_sum id (\<lambda>_. ()) (remove_member id cid (u_id u) v (seen_by (u_id u) d)) = map_sum id (\<lambda>_. ()) (remove_member id cid (u_id u) v d)"
  proof (cases "readable_channel d (u_id u) cid")
    case (Some c)
    note k = knows_readable [OF Some]
    show ?thesis
      using Some seen_delete [OF k] seen_rows(1) [OF k]
      by (auto simp: remove_member_def require_admin_def case_prod_beta split: option.split)
  qed (simp add: remove_member_def)
  then show "fst (remove_member_route id u cid v (seen_by (u_id u) d)) = fst (remove_member_route id u cid v d)"
    by (auto simp: remove_member_route_def map_sum_def split: sum.splits membership_error.splits)
  have "map_sum id (\<lambda>_. ()) (leave id cid (u_id u) (seen_by (u_id u) d)) = map_sum id (\<lambda>_. ()) (leave id cid (u_id u) d)"
  proof (cases "get_membership d cid (u_id u)")
    case (Some m)
    then have k: "knows_channel d (u_id u) cid" by (blast intro: knows_member has_membershipI)
    show ?thesis using Some seen_delete [OF k, of "u_id u" "mb_role m = ADMIN"]
      by (auto simp: leave_def case_prod_beta)
  qed (simp add: leave_def)
  then show "fst (leave_channel_route id u cid (seen_by (u_id u) d)) = fst (leave_channel_route id u cid d)"
    by (auto simp: leave_channel_route_def map_sum_def split: sum.splits membership_error.splits)
qed

lemma seen_join:
  "fst (join_channel_route id now u cid (seen_by (u_id u) d)) = fst (join_channel_route id now u cid d)"
proof -
  let ?me = "u_id u"
  have joinable: "find (\<lambda>c. ch_id c = cid \<and> (\<not> ch_is_private c \<or> ch_join_policy c = OPEN \<or> has_membership (seen_by ?me d) (ch_id c) ?me))
      (channels (seen_by ?me d)) = find (\<lambda>c. ch_id c = cid \<and> (\<not> ch_is_private c \<or> ch_join_policy c = OPEN \<or> has_membership d (ch_id c) ?me)) (channels d)"
    by (auto simp: readable_predicate_def intro: find_filter_implied)
  have ins: "alike (insert_idempotent (plain_member now cid ?me) (seen_by ?me d)) (insert_idempotent (plain_member now cid ?me) d)"
    if "get_membership d cid ?me = None"
  proof -
    have "\<not> list_ex (\<lambda>r. mb_key r = (cid, ?me)) (memberships d')" if "get_membership d' cid ?me = None" for d' :: db
      using that by (auto simp: get_membership_def list_ex_iff mb_key_def row_simps)
    from this [OF that] this [of "seen_by ?me d"] that show ?thesis
      by (simp add: insert_idempotent_def insert_membership_def plain_member_def mb_key_def alike_def del: seen_by_sel)
  qed
  have "alike (self_join id now cid ?me (seen_by ?me d)) (self_join id now cid ?me d)"
    unfolding self_join_def joinable using ins by (auto simp: alike_def split: option.splits)
  then show ?thesis
    by (auto simp: join_channel_route_def alike_def map_sum_def split: sum.splits membership_error.splits)
qed


lemma seen_read_routes:
  assumes "unique_on m_id (messages d)"
  shows "get_message_route fmt u mid (\<lambda>_. seen_by (u_id u) d) = get_message_route fmt u mid (\<lambda>_. d)"
    and "history_route fmt u cid before after limit (\<lambda>_. seen_by (u_id u) d) = history_route fmt u cid before after limit (\<lambda>_. d)"
proof -
  let ?me = "u_id u"
  have "aggregate_for_messages (seen_by ?me d) [m_id m] ?me bl = aggregate_for_messages d [m_id m] ?me bl"
    if "visible_message d ?me mid = Some m" for m bl
  proof (rule seen_aggregate)
    have "get_message d mid = Some m" "in_readable d ?me mid" using visible_in_readable [OF that] by auto
    then show "in_readable d ?me x" if "x \<in> set [m_id m]" for x using that by (auto simp: get_message_def dest: find_SomeD)
  qed
  then show "get_message_route fmt u mid (\<lambda>_. seen_by ?me d) = get_message_route fmt u mid (\<lambda>_. d)"
    by (simp add: get_message_route_def seen_visible_message [OF assms] split: option.split)
  have "aggregate_for_messages (seen_by ?me d) (history_msg_ids rows) ?me bl = aggregate_for_messages d (history_msg_ids rows) ?me bl"
    if "readable_channel d ?me cid = Some c" and rows: "rows = get_history d cid ?me before after n" for c bl rows n
  proof (rule seen_aggregate)
    fix x
    assume "x \<in> set (history_msg_ids rows)"
    then obtain m where m: "MsgItem m \<in> set rows" "x = m_id m"
      by (auto simp: history_msg_ids_def map_filter_def split: history_item.splits option.splits)
    then have "m \<in> set (shown_messages d cid ?me)"
      unfolding rows get_history_def Let_def by (auto split: option.splits if_splits dest!: in_set_takeD)
    then have "m \<in> set (messages d)" "m_channel_id m = cid" by (auto simp: shown_messages_def)
    moreover from this have "get_message d (m_id m) = Some m" unfolding get_message_def by (intro find_unique assms)
    ultimately show "in_readable d ?me x" using that(1) m(2) by (simp add: in_readable_def)
  qed
  then show "history_route fmt u cid before after limit (\<lambda>_. seen_by ?me d) = history_route fmt u cid before after limit (\<lambda>_. d)"
    by (auto simp: history_route_def Let_def seen_history split: option.split)
qed

lemma map_of_rev_filter:
  assumes "\<And>m. m \<in> set xs \<Longrightarrow> k m = cid \<Longrightarrow> Q m"
  shows "map_of (map (\<lambda>m. (k m, m)) (rev (filter P (filter Q xs)))) cid = map_of (map (\<lambda>m. (k m, m)) (rev (filter P xs))) cid"
  using assms by (induction xs) (auto simp: map_add_def split: option.splits)

lemma seen_list_dms: "list_dms_route fmt u (\<lambda>_. seen_by (u_id u) d) = list_dms_route fmt u (\<lambda>_. d)"
proof -
  let ?me = "u_id u"
  have chans: "list_dms (seen_by ?me d) ?me = list_dms d ?me"
    by (auto simp: list_dms_def readable_predicate_def intro!: arg_cong [where f = "order_desc ch_id"] filter_cong)
  have readable: "\<exists>c'. readable_channel d ?me (ch_id c) = Some c'" if "c \<in> set (list_dms d ?me)" for c
    using that acl.gate_member [of c d ?me] by (auto simp: list_dms_def)
  have "dm_item fmt (members_of_many (seen_by ?me d) ids) (last_visible_messages (seen_by ?me d) ids ?me) c =
      dm_item fmt (members_of_many d ids) (last_visible_messages d ids ?me) c"
    if c: "c \<in> set (list_dms d ?me)" and ids: "ids = map ch_id (list_dms d ?me)" for c ids
  proof -
    obtain c' where c': "readable_channel d ?me (ch_id c) = Some c'" using readable [OF c] by blast
    have "sql_max (map m_id (shown_messages (seen_by ?me d) cid ?me)) = sql_max (map m_id (shown_messages d cid ?me))" if "cid \<in> set ids" for cid
      using that readable seen_shown unfolding ids by fastforce
    then have max_ids: "List.map_filter (\<lambda>cid. sql_max (map m_id (shown_messages (seen_by ?me d) cid ?me))) ids =
        List.map_filter (\<lambda>cid. sql_max (map m_id (shown_messages d cid ?me))) ids"
      by (simp add: map_filter_def cong: map_cong filter_cong)
    have "last_visible_messages (seen_by ?me d) ids ?me (ch_id c) = last_visible_messages d ids ?me (ch_id c)"
      unfolding last_visible_messages_def Let_def max_ids seen_by_sel(6) by (rule map_of_rev_filter) (simp add: c')
    moreover have "members_of_many (seen_by ?me d) ids (ch_id c) = members_of_many d ids (ch_id c)"
      using knows_readable [OF c'] by (auto simp: members_of_many_def intro!: arg_cong [where f = sort] arg_cong [where f = "map mb_user_id"] filter_cong)
    ultimately show ?thesis by (simp only: dm_item_def)
  qed
  then show ?thesis by (simp add: list_dms_route_def chans cong: map_cong)
qed

lemma seen_report:
  assumes "unique_on m_id (messages d)"
  shows "fst (fst (report_message_route wh fmt id now i u mid reason (seen_by (u_id u) d))) =
    fst (fst (report_message_route wh fmt id now i u mid reason d))"
proof (cases "get_reportable_message d (u_id u) mid")
  case None
  then show ?thesis by (simp add: report_message_route_def seen_reportable [OF assms])
next
  case (Some m)
  then have found: "get_message (seen_by (u_id u) d) mid = get_message d mid"
    by (auto simp: seen_get_message [OF assms] get_reportable_message_def in_readable_def split: option.splits)
  have "insert_report r (seen_by (u_id u) d) = Inl e \<longleftrightarrow> insert_report r d = Inl e" for r e
    by (auto simp: insert_report_def)
  then have "alike (report_message now i (u_id u) mid w (seen_by (u_id u) d)) (report_message now i (u_id u) mid w d)" for w
    unfolding report_message_def found by (auto simp: alike_def Let_def insert_report_def split: sum.split option.split)
  from this [of "report_reason_value reason"] show ?thesis
    by (auto simp: report_message_route_def seen_reportable [OF assms] Some alike_def map_sum_def split: sum.splits moderation_error.splits)
qed


lemma reactions_irrelevant:
  "readable_channel (d\<lparr>message_reactions := R\<rparr>) v cid = readable_channel d v cid"
  "readable_predicate (d\<lparr>message_reactions := R\<rparr>) v c = readable_predicate d v c"
  "has_membership (d\<lparr>message_reactions := R\<rparr>) cid v = has_membership d cid v"
  "get_message (d\<lparr>message_reactions := R\<rparr>) mid = get_message d mid"
  "blocked_pair_user_ids (d\<lparr>message_reactions := R\<rparr>) v = blocked_pair_user_ids d v"
  by (simp_all add: readable_channel_def readable_predicate_def has_membership_def get_message_def blocked_pair_user_ids_def)

lemma seen_by_reactions:
  "seen_by u (d\<lparr>message_reactions := R\<rparr>) =
     (seen_by u d)\<lparr>message_reactions := filter (\<lambda>r. re_user_id r = u \<or> in_readable d u (re_message_id r)) R\<rparr>"
proof -
  have "in_readable (d\<lparr>message_reactions := R\<rparr>) u mid = in_readable d u mid" for mid
    by (simp add: in_readable_def reactions_irrelevant split: option.split)
  then show ?thesis by (simp add: seen_by_def knows_channel_def reactions_irrelevant)
qed

lemma filter_upd_where: "(\<And>x. Q (f x) = Q x) \<Longrightarrow> filter Q (upd_where P f xs) = upd_where P f (filter Q xs)"
  by (induction xs) auto

lemma filter_del_where: "filter Q (del_where P xs) = del_where P (filter Q xs)"
  by (induction xs) auto

lemma seen_upsert:
  assumes "re_user_id row = u"
  shows "upsert_reaction row (seen_by u d) = seen_by u (upsert_reaction row d)"
proof -
  have "list_ex (\<lambda>r. re_key r = re_key row) (message_reactions (seen_by u d)) \<longleftrightarrow> list_ex (\<lambda>r. re_key r = re_key row) (message_reactions d)"
    using assms by (auto simp: list_ex_iff re_key_def)
  then show ?thesis
    using assms by (simp add: upsert_reaction_def seen_by_reactions filter_upd_where)
qed

lemma seen_count:
  assumes "unique_on m_id (messages d)"
  shows "response_count (seen_by u d) (seen_by u d) u mid e bl = response_count d d u mid e bl"
proof (cases "visible_message d u mid")
  case (Some m)
  then have "in_readable d u mid" using visible_in_readable by blast
  then have "emoji_count (seen_by u d) mid e bl = emoji_count d mid e bl"
    using seen_reactions(1) [of d u mid "\<lambda>r. re_emoji r = e \<and> re_user_id r \<notin> set bl"] by (simp add: emoji_count_def rowcount_def)
  then show ?thesis by (simp add: response_count_def seen_visible_message [OF assms] Some)
qed (simp add: response_count_def seen_visible_message [OF assms])

lemma upsert_messages: "messages (upsert_reaction row d) = messages d"
  by (simp add: upsert_reaction_def)

lemma seen_add_reaction:
  assumes "unique_on m_id (messages d)"
  shows "fst (fst (add_reaction_route (alone env) u mid e cmid origin (seen_by (u_id u) d))) =
    fst (fst (add_reaction_route (alone env) u mid e cmid origin d))"
proof -
  let ?me = "u_id u"
  have distinct_same: "distinct_emojis (seen_by ?me d) mid ?me = distinct_emojis d mid ?me"
    by (simp only: distinct_emojis_def seen_reactions(2))
  have added: "add_reaction now ?me mid e' o' (seen_by ?me d) = map_sum id (\<lambda>(b, d'). (b, seen_by ?me d')) (add_reaction now ?me mid e' o' d)" for now e' o'
    by (auto simp: add_reaction_def Let_def seen_own_reaction distinct_same seen_upsert split: sum.split)
  have "unique_on m_id (messages d')" if "add_reaction now ?me mid e' o' d = Inr (b, d')" for now e' o' b d'
    using that assms by (auto simp: add_reaction_def Let_def upsert_messages split: sum.splits if_splits)
  note same = seen_count [OF this]
  show ?thesis
    by (auto simp: add_reaction_route_def alone_def Let_def seen_visible_message [OF assms] added same map_sum_def
        split: sum.splits option.splits reaction_error.splits)
qed

lemma seen_remove_reaction:
  assumes "unique_on m_id (messages d)"
  shows "fst (fst (remove_reaction_route (alone env) u mid e (seen_by (u_id u) d))) =
    fst (fst (remove_reaction_route (alone env) u mid e d))"
proof -
  let ?me = "u_id u"
  have hits: "rowcount (\<lambda>r. re_message_id r = mid \<and> re_user_id r = ?me \<and> re_emoji r = e') (message_reactions (seen_by ?me d)) =
      rowcount (\<lambda>r. re_message_id r = mid \<and> re_user_id r = ?me \<and> re_emoji r = e') (message_reactions d)" for e'
    by (auto simp: rowcount_def intro!: arg_cong [where f = length] filter_cong)
  have removed: "remove_reaction ?me mid e' (seen_by ?me d) = map_sum id (\<lambda>(b, d'). (b, seen_by ?me d')) (remove_reaction ?me mid e' d)" for e'
    unfolding remove_reaction_def Let_def hits by (auto simp: seen_by_reactions filter_del_where split: sum.split)
  have "unique_on m_id (messages d')" if "remove_reaction ?me mid e' d = Inr (b, d')" for e' b d'
    using that assms by (auto simp: remove_reaction_def Let_def split: sum.splits)
  note same = seen_count [OF this] seen_visible_message [OF this]
  show ?thesis
    by (auto simp: remove_reaction_route_def alone_def Let_def removed same map_sum_def split: sum.splits option.splits)
qed


text \<open>C1: what a user is told depends only on what they may see. Every request about channels, members,
  messages, reports and reactions has the same response, status and body, on the store from which the
  private channels the caller neither belongs to nor could join have been taken out, with the members, messages,
  retractions and reactions of every channel they cannot read: a hidden channel and a channel that does not exist
  cannot be told apart by any of them.\<close>

theorem answers_from_what_is_seen:
  assumes "schema_ok d"
  shows "answered env u r (seen_by (u_id u) d) = answered env u r d"
proof -
  have "unique_on m_id (messages d)" using assms by (rule schema_okD)
  note by_id = seen_read_routes [OF this] seen_report [OF this] seen_add_reaction [OF this] seen_remove_reaction [OF this]
  show ?thesis
    by (cases r) (simp_all add: seen_members_routes seen_add_member_route seen_remove_leave seen_join seen_list_dms by_id)
qed

definition ex_route_env :: route_env where
  "ex_route_env = \<lparr>ro_isoformat = (\<lambda>_. []), ro_now = 5, ro_new_id = ''n'', ro_webhook = None, ro_emoji_why = (\<lambda>_. []),
     ro_origin_why = (\<lambda>_. [])\<rparr>"

theorem answers_from_what_is_seen_witness:
  "schema_ok ex_acl_db \<and> channels ex_acl_db = [ex_acl_channel] \<and> channels (seen_by ''v'' ex_acl_db) = [] \<and>
   answered ex_route_env (ex_user ''v'') (History ''c'' None None 50) ex_acl_db = http_exception 404 ''channel not found'' \<and>
   answered ex_route_env (ex_user ''v'') (History ''c'' None None 50) ex_acl_db =
     answered ex_route_env (ex_user ''v'') (History ''c'' None None 50) (seen_by ''v'' ex_acl_db)"
proof -
  have ok: "schema_ok ex_acl_db"
    by (simp add: schema_ok_def ex_acl_db_def ex_acl_channel_def empty_db_def unique_on_def unique_opt_def channel_checks_def)
  have gone: "\<not> readable_predicate ex_acl_db ''v'' ex_acl_channel" "ch_join_policy ex_acl_channel \<noteq> OPEN"
    by (simp_all add: ex_acl_db_def ex_acl_channel_def empty_db_def readable_predicate_def has_membership_def)
  have "u_id (ex_user ''v'') = ''v''" by (simp add: ex_user_def)
  then have same: "answered ex_route_env (ex_user ''v'') (History ''c'' None None 50) (seen_by ''v'' ex_acl_db) =
      answered ex_route_env (ex_user ''v'') (History ''c'' None None 50) ex_acl_db"
    using answers_from_what_is_seen [OF ok, of ex_route_env "ex_user ''v''" "History ''c'' None None 50"] by simp
  have "channels ex_acl_db = [ex_acl_channel]" by (simp add: ex_acl_db_def)
  moreover from this have "readable_channel ex_acl_db ''v'' ''c'' = None" using gone by (simp add: readable_channel_def)
  ultimately show ?thesis using ok gone same \<open>u_id (ex_user ''v'') = ''v''\<close> by (simp add: history_route_def)
qed

end
