(* ===== verification/Endpoints.thy ===== *)
theory Endpoints
  imports Routes SignIn ReadPositions Devices Ops
begin

text \<open>The account side of the REST surface: read positions (\<open>rest/read_positions.py\<close>), blocks, the moderators'
  routes (\<open>rest/moderation.py\<close>), devices (\<open>rest/devices.py\<close>), signing keys (\<open>rest/keys.py\<close>), social recovery
  (\<open>rest/recovery.py\<close>), and the public documents (\<open>rest/capabilities.py\<close>, \<open>rest/well_known.py\<close>, the health and
  debug routes of \<open>main.py\<close>). As in Routes, a route gives its response and what it commits; the routes that reach
  live sockets also give the hub they leave. Texts of exceptions and the rendering of dates are arguments.\<close>

section \<open>Read positions\<close>

definition MAX_POSITIONS :: nat where "MAX_POSITIONS = 1000"

text \<open>\<open>_entries\<close>: the items of the dictionary of the body, in its order.\<close>

definition position_entry :: "ident \<Rightarrow> json \<Rightarrow> response + position" where
  "position_entry cid entry =
     (case entry of
        JObj kvs \<Rightarrow>
          (case (map_of kvs ''last_read'', map_of kvs ''base_seq'') of
             (Some (JStr last_read), Some (JInt base_seq)) \<Rightarrow> Inr (cid, (last_read, base_seq))
           | (Some (JStr _), _) \<Rightarrow> Inl (invalid_read_position cid ''base_seq must be an integer'')
           | _ \<Rightarrow> Inl (invalid_read_position cid ''last_read must be a string''))
      | _ \<Rightarrow> Inl (invalid_read_position cid ''entry must be an object''))"

fun position_entries :: "(ident \<times> json) list \<Rightarrow> response + position list" where
  "position_entries [] = Inr []"
| "position_entries ((cid, entry) # rest) =
     (case position_entry cid entry of
        Inl r \<Rightarrow> Inl r
      | Inr p \<Rightarrow> (case position_entries rest of Inl r \<Rightarrow> Inl r | Inr ps \<Rightarrow> Inr (p # ps)))"

definition body_entries :: "(ident \<times> json) list \<Rightarrow> response + position list" where
  "body_entries positions =
     (if length positions > MAX_POSITIONS
      then Inl (too_many_read_positions ''at most 1000 positions per request; split the batch'')
      else position_entries positions)"

definition get_read_positions_route :: "user \<Rightarrow> db \<Rightarrow> response" where
  "get_read_positions_route u d = Response 200 (JObj [(''positions'', JObj
     (map (\<lambda>p. (rp_channel_id p, JObj [(''last_read'', JStr (rp_last_read p)), (''seq'', JInt (rp_seq p))]))
       (filter (\<lambda>p. rp_user_id p = u_id u) (channel_read_positions d))))])"

fun outcome_value :: "outcome \<Rightarrow> string" where
  "outcome_value APPLIED = ''applied''"
| "outcome_value CONFLICT = ''conflict''"
| "outcome_value SKIPPED = ''skipped''"

definition entry_view :: "entry_result \<Rightarrow> json" where
  "entry_view r = JObj ((''status'', JStr (outcome_value (er_outcome r))) #
     (if er_outcome r = SKIPPED then []
      else [(''last_read'', json_opt (er_last_read r)), (''seq'', case er_seq r of None \<Rightarrow> JNull | Some s \<Rightarrow> JInt s)]))"

definition set_read_positions_route :: "(ident \<Rightarrow> string) \<Rightarrow> (db \<Rightarrow> db) \<Rightarrow> instant \<Rightarrow> user \<Rightarrow> (ident \<times> json) list \<Rightarrow> db \<Rightarrow> response \<times> db" where
  "set_read_positions_route why race now u positions d =
     (case body_entries positions of
        Inl r \<Rightarrow> (r, d)
      | Inr ps \<Rightarrow>
          (case set_positions race now (u_id u) ps d of
             Inl (InvalidReadPosition cid) \<Rightarrow> (invalid_read_position cid (why cid), d)
           | Inr (results, d') \<Rightarrow>
               (Response 200 (JObj [(''positions'', JObj (map (\<lambda>(cid, r). (cid, entry_view r)) results))]), d')))"

section \<open>Blocks\<close>

definition block_user_route :: "instant \<Rightarrow> user \<Rightarrow> ident \<Rightarrow> db \<Rightarrow> response \<times> db" where
  "block_user_route now u user_id d =
     (case block_user now (u_id u) user_id d of
        Inl CannotBlockSelf \<Rightarrow> (http_exception 400 ''you cannot block yourself'', d)
      | Inl UserNotFound \<Rightarrow> (http_exception 404 ''user not found'', d)
      | Inl _ \<Rightarrow> (server_error, d)
      | Inr d' \<Rightarrow> (no_content, d'))"

definition unblock_user_route :: "user \<Rightarrow> ident \<Rightarrow> db \<Rightarrow> response \<times> db" where
  "unblock_user_route u user_id d = (no_content, unblock_user (u_id u) user_id d)"

definition list_blocks_route :: "(instant \<Rightarrow> string) \<Rightarrow> user \<Rightarrow> db \<Rightarrow> response" where
  "list_blocks_route isoformat u d = Response 200 (JObj [(''blocks'', JList (map (\<lambda>(i, nm, at_time). JObj
     [(''user_id'', JStr i), (''display_name'', JStr nm), (''created_at'', JStr (isoformat at_time))]) (list_blocks (u_id u) d)))])"

section \<open>The moderators' routes\<close>

text \<open>The dependency that guards each of them runs before the route.\<close>

definition moderated :: "ident list \<Rightarrow> user \<Rightarrow> 'a \<Rightarrow> (response \<Rightarrow> 'a) \<Rightarrow> 'a" where
  "moderated moderator_user_ids u route refuse =
     (if \<not> is_moderator moderator_user_ids (u_id u) then refuse (http_exception 403 ''not a moderator'') else route)"

definition report_view :: "(instant \<Rightarrow> string) \<Rightarrow> message_report \<times> message \<times> user option \<Rightarrow> json" where
  "report_view isoformat t = (case t of (r, m, u) \<Rightarrow> JObj
     [(''report_id'', JStr (rep_id r)), (''message_id'', JStr (rep_message_id r)), (''channel_id'', JStr (m_channel_id m)),
      (''reason'', JStr (report_reason_value (rep_reason r))), (''reporter_user_id'', json_opt (rep_reporter_user_id r)),
      (''reporter_display_name'', json_opt (map_option u_display_name u)), (''created_at'', JStr (isoformat (rep_created_at r))),
      (''message_body'', JStr (m_body m)), (''message_sender_user_id'', json_opt (m_sender_user_id m)),
      (''message_deleted_at'', json_opt (map_option isoformat (m_deleted_at m)))])"

text \<open>\<open>pending\<close> is the only status the framework lets through.\<close>

definition list_reports_route :: "(instant \<Rightarrow> string) \<Rightarrow> ident list \<Rightarrow> user \<Rightarrow> string \<Rightarrow> int \<Rightarrow> db \<Rightarrow> response" where
  "list_reports_route isoformat mods u status limit d =
     moderated mods u
       (if status \<noteq> ''pending'' \<or> limit < 1 \<or> limit > 500 then invalid_request
        else Response 200 (JObj [(''reports'', JList (map (report_view isoformat) (list_pending_reports (nat limit) d)))])) id"

text \<open>The take-down is committed when the frame goes out; \<open>outcome\<close> and \<open>during\<close> are those of the fan-out.\<close>

definition resolve_report_route :: "(nat \<Rightarrow> send_outcome) \<Rightarrow> (hub \<Rightarrow> hub) \<Rightarrow> ident list \<Rightarrow> instant \<Rightarrow> ident \<Rightarrow> user \<Rightarrow> ident \<Rightarrow> db \<Rightarrow> hub \<Rightarrow>
    (response \<times> (json \<times> nat list) list) \<times> db \<times> hub" where
  "resolve_report_route outcome during mods now rid u report_id d h =
     moderated mods u
       (case take_down_message now rid report_id (u_id u) d of
          Inl ReportNotFound \<Rightarrow> ((http_exception 404 ''report not found'', []), d, h)
        | Inl MessageNotFound \<Rightarrow> ((http_exception 404 ''reported message no longer exists'', []), d, h)
        | Inl ReportAlreadyResolved \<Rightarrow> ((http_exception 409 ''report already resolved a different way'', []), d, h)
        | Inl RetractionOrderingError \<Rightarrow> ((http_exception 500 (''retraction ordering invariant violated '' @ EM_DASH @ '' takedown refused''), []), d, h)
        | Inl _ \<Rightarrow> ((server_error, []), d, h)
        | Inr (None, d') \<Rightarrow> ((no_content, []), d', h)
        | Inr (Some r, d') \<Rightarrow>
            (case fanout outcome during (ret_channel_id r) [] h of
               (reached, h') \<Rightarrow> ((no_content, [(retraction_frame (ret_channel_id r) (ret_id r) (ret_target_msg_id r), reached)]), d', h')))
       (\<lambda>r. ((r, []), d, h))"

definition dismiss_report_route :: "ident list \<Rightarrow> instant \<Rightarrow> user \<Rightarrow> ident \<Rightarrow> db \<Rightarrow> response \<times> db" where
  "dismiss_report_route mods now u report_id d =
     moderated mods u
       (case dismiss_report now report_id (u_id u) d of
          Inl ReportNotFound \<Rightarrow> (http_exception 404 ''report not found'', d)
        | Inl ReportAlreadyResolved \<Rightarrow> (http_exception 409 ''report already resolved a different way'', d)
        | Inl _ \<Rightarrow> (server_error, d)
        | Inr d' \<Rightarrow> (no_content, d'))
       (\<lambda>r. (r, d))"

definition ban_user_route :: "(nat \<Rightarrow> hub \<Rightarrow> hub) \<Rightarrow> ident list \<Rightarrow> instant \<Rightarrow> user \<Rightarrow> ident \<Rightarrow> db \<Rightarrow> hub \<Rightarrow> response \<times> db \<times> hub" where
  "ban_user_route race mods now u user_id d h =
     moderated mods u
       (case ban_user mods now user_id (u_id u) d of
          Inl CannotBanSelf \<Rightarrow> (http_exception 400 ''you cannot ban yourself'', d, h)
        | Inl CannotBanModerator \<Rightarrow> (http_exception 400 ''cannot ban a moderator'', d, h)
        | Inl UserNotFound \<Rightarrow> (http_exception 404 ''user not found'', d, h)
        | Inl _ \<Rightarrow> (server_error, d, h)
        | Inr d' \<Rightarrow> (no_content, d', snd (disconnect_user race user_id h)))
       (\<lambda>r. (r, d, h))"

definition unban_user_route :: "ident list \<Rightarrow> user \<Rightarrow> ident \<Rightarrow> db \<Rightarrow> response \<times> db" where
  "unban_user_route mods u user_id d =
     moderated mods u
       (case unban_user user_id d of
          Inl UserNotFound \<Rightarrow> (http_exception 404 ''user not found'', d)
        | Inl _ \<Rightarrow> (server_error, d)
        | Inr d' \<Rightarrow> (no_content, d'))
       (\<lambda>r. (r, d))"


section \<open>Devices\<close>

definition install_id_char :: "char \<Rightarrow> bool" where
  "install_id_char c \<longleftrightarrow> (let n = of_char c :: nat in
     65 \<le> n \<and> n \<le> 90 \<or> 97 \<le> n \<and> n \<le> 122 \<or> 48 \<le> n \<and> n \<le> 57 \<or> c \<in> {CHR ''_'', CHR ''.'', CHR '':'', CHR ''-''})"

definition token_shape :: "string \<Rightarrow> bool" where
  "token_shape token \<longleftrightarrow> 1 \<le> length token \<and> length token \<le> 512"

definition install_id_shape :: "string option \<Rightarrow> bool" where
  "install_id_shape i = (case i of None \<Rightarrow> True | Some s \<Rightarrow> s \<noteq> [] \<and> length s \<le> 64 \<and> list_all install_id_char s)"

definition device_view :: "device_token \<Rightarrow> json" where
  "device_view row = JObj
     [(''id'', JStr (dt_id row)), (''platform'', JStr (platform_value (dt_platform row))),
      (''apns_environment'', JStr (apns_environment_value (dt_apns_environment row))),
      (''token_kind'', JStr (token_kind_value (dt_token_kind row))), (''install_id'', json_opt (dt_install_id row))]"

definition register_device_route :: "(db \<Rightarrow> db) \<Rightarrow> bool \<Rightarrow> instant \<Rightarrow> ident \<Rightarrow> user \<Rightarrow> platform \<Rightarrow> string \<Rightarrow> apns_environment option \<Rightarrow>
    token_kind option \<Rightarrow> string option \<Rightarrow> db \<Rightarrow> response \<times> db" where
  "register_device_route race apns_use_sandbox now new_id u platform token apns_environment token_kind install_id d =
     (if \<not> token_shape token \<or> \<not> install_id_shape install_id then (invalid_request, d)
      else case register_device race apns_use_sandbox now new_id (u_id u) platform token apns_environment token_kind install_id d of
        Inl _ \<Rightarrow> (server_error, d)
      | Inr (row, d') \<Rightarrow> (Response 201 (device_view row), d'))"

definition unregister_device_route :: "user \<Rightarrow> string \<Rightarrow> db \<Rightarrow> response \<times> db" where
  "unregister_device_route u token d =
     (if \<not> token_shape token then (invalid_request, d) else (no_content, snd (unregister_device (u_id u) token d)))"

section \<open>Signing keys\<close>

definition MAX_PUBKEY_LENGTH :: nat where "MAX_PUBKEY_LENGTH = 128"
definition MAX_KEYS_PER_USER :: nat where "MAX_KEYS_PER_USER = 32"

definition register_key_route :: "(string \<Rightarrow> string) \<Rightarrow> (db \<Rightarrow> db) \<Rightarrow> instant \<Rightarrow> ident \<Rightarrow> user \<Rightarrow> string \<Rightarrow> int \<Rightarrow> db \<Rightarrow> response \<times> db" where
  "register_key_route why race now key_id u pubkey key_version d =
     (if pubkey = [] \<or> length pubkey > MAX_PUBKEY_LENGTH \<or> key_version < 1 then (invalid_request, d)
      else if isl (decode_multikey pubkey) then (http_exception 400 (''invalid signing pubkey: '' @ why pubkey), d)
      else case register_explicit_key race now key_id (u_id u) pubkey key_version MAX_KEYS_PER_USER d of
        Inl _ \<Rightarrow> (server_error, d)
      | Inr ((row, ok), d') \<Rightarrow>
          if \<not> ok then (http_exception 429 ''signing-key limit reached (32); revoke an unused key before registering another'', d')
          else (case row of
                  None \<Rightarrow> (server_error, d)
                | Some k \<Rightarrow> (Response 201 (JObj [(''pubkey'', JStr (sk_pubkey k)), (''key_version'', JInt (sk_key_version k))]), d')))"

definition key_view :: "(instant \<Rightarrow> string) \<Rightarrow> signing_key \<Rightarrow> json" where
  "key_view isoformat k = JObj
     [(''pubkey'', JStr (sk_pubkey k)), (''key_version'', JInt (sk_key_version k)),
      (''first_seen_at'', JStr (isoformat (sk_first_seen_at k))), (''last_seen_at'', JStr (isoformat (sk_last_seen_at k)))]"

definition list_keys_route :: "(instant \<Rightarrow> string) \<Rightarrow> user \<Rightarrow> db \<Rightarrow> response" where
  "list_keys_route isoformat u d = Response 200 (JList (map (key_view isoformat) (list_keys d (u_id u))))"

definition revoke_key_route :: "user \<Rightarrow> string \<Rightarrow> db \<Rightarrow> response \<times> db" where
  "revoke_key_route u pubkey d = (no_content, snd (revoke_key (u_id u) pubkey d))"

section \<open>Social recovery\<close>

text \<open>\<open>_MAX_KEY_STR\<close>, \<open>_MAX_SIG_STR\<close>, \<open>_MAX_NONCE\<close>, \<open>_MAX_RECOVERY_ID\<close> and \<open>_MAX_TOKEN\<close>.\<close>

definition MAX_KEY_STR :: nat where "MAX_KEY_STR = 128"
definition MAX_NONCE :: nat where "MAX_NONCE = 64"

definition enroll_route :: "instant \<Rightarrow> ident \<Rightarrow> ident list \<Rightarrow> (recovery_error \<Rightarrow> string) \<Rightarrow> user \<Rightarrow> string list \<Rightarrow> int \<Rightarrow> db \<Rightarrow> response \<times> db" where
  "enroll_route now policy_id ids why u approver_pubkeys k d =
     (if approver_pubkeys = [] \<or> length approver_pubkeys > MAX_APPROVERS \<or> k < 1 \<or> k > int MAX_APPROVERS then (invalid_request, d)
      else if list_ex (\<lambda>pk. length pk > MAX_KEY_STR) approver_pubkeys then (http_exception 422 ''approver pubkey too long'', d)
      else case enroll_policy now policy_id ids (u_id u) approver_pubkeys k d of
        Inl InvalidEnrollment \<Rightarrow> (http_exception 422 (why InvalidEnrollment), d)
      | Inl RecoveryIntegrityError \<Rightarrow> (server_error, d)
      | Inl e \<Rightarrow> (http_exception 409 (why e), d)
      | Inr d' \<Rightarrow> (Response 200 (JObj [(''threshold_k'', JInt k), (''approver_count'', JInt (int (length approver_pubkeys)))]), d'))"

definition policy_route :: "user \<Rightarrow> db \<Rightarrow> response" where
  "policy_route u d =
     (case get_policy d (u_id u) of
        (None, _) \<Rightarrow> Response 200 (JObj [(''enrolled'', JBool False)])
      | (Some p, approvers) \<Rightarrow> Response 200 (JObj
          [(''enrolled'', JBool True), (''threshold_k'', JInt (rpol_threshold_k p)),
           (''approvers'', JList (map (\<lambda>a. JObj [(''approver_pubkey'', JStr (ra_approver_pubkey a)), (''label'', json_opt (ra_label a))]) approvers))]))"

definition user_by_handle :: "db \<Rightarrow> string \<Rightarrow> user option" where
  "user_by_handle d handle = find (\<lambda>u. u_username u = handle) (users d)"

definition recover_start_route :: "(byte list \<Rightarrow> string) \<Rightarrow> int \<Rightarrow> instant \<Rightarrow> byte list \<Rightarrow> string \<Rightarrow> db \<Rightarrow> response \<times> db" where
  "recover_start_route b64 ttl now raw account_handle d =
     (if account_handle = [] \<or> length account_handle > 64 then (invalid_request, d)
      else case user_by_handle d account_handle of
        None \<Rightarrow> (http_exception 404 ''no recovery available'', d)
      | Some u \<Rightarrow>
          (case start_recovery b64 ttl now raw (u_id u) d of
             Inl NoRecoveryPolicy \<Rightarrow> (http_exception 404 ''no recovery available'', d)
           | Inl _ \<Rightarrow> (server_error, d)
           | Inr ((state, k), d') \<Rightarrow> (Response 200 (JObj [(''server_nonce'', JStr state), (''threshold_k'', JInt k)]), d')))"

definition approval_shape :: "json \<Rightarrow> bool" where
  "approval_shape a = (case approval_fields a of
     None \<Rightarrow> False | Some (pk, sg) \<Rightarrow> pk \<noteq> [] \<and> length pk \<le> MAX_KEY_STR \<and> sg \<noteq> [] \<and> length sg \<le> MAX_KEY_STR)"

definition recover_finish_route :: "(byte list \<Rightarrow> byte list \<Rightarrow> byte list \<Rightarrow> bool) \<Rightarrow> (string \<Rightarrow> byte list) \<Rightarrow>
    (byte list \<Rightarrow> json \<Rightarrow> passkey_error + material) \<Rightarrow> (string \<Rightarrow> string) \<Rightarrow> (instant \<Rightarrow> string) \<Rightarrow> int \<Rightarrow> (db \<Rightarrow> db) \<Rightarrow> instant \<Rightarrow> ident \<Rightarrow> string \<Rightarrow>
    string \<Rightarrow> string \<Rightarrow> json \<Rightarrow> json list \<Rightarrow> db \<Rightarrow> response \<times> db" where
  "recover_finish_route ed unb64 attest sha256_hex isoformat veto_window race now new_id raw_token account_handle server_nonce
      attestation approvals d =
     (if account_handle = [] \<or> length account_handle > 64 \<or> server_nonce = [] \<or> length server_nonce > MAX_NONCE \<or>
         approvals = [] \<or> length approvals > MAX_APPROVERS \<or> \<not> list_all approval_shape approvals then (invalid_request, d)
      else case user_by_handle d account_handle of
        None \<Rightarrow> (http_exception 404 ''no recovery available'', d)
      | Some u \<Rightarrow>
          (case finish_recovery ed unb64 attest sha256_hex veto_window race now new_id raw_token (u_id u) server_nonce attestation approvals d of
             Inl NoRecoveryPolicy \<Rightarrow> (http_exception 404 ''no recovery available'', d)
           | Inl (RecoveryAttestation InvalidRegistrationResponse) \<Rightarrow> (http_exception 401 ''passkey registration verification failed'', d)
           | Inl RecoveryAlreadyPending \<Rightarrow> (http_exception 409 ''a recovery is already pending'', d)
           | Inl QuorumRejected \<Rightarrow> (http_exception 401 ''recovery could not be authorized'', d)
           | Inl _ \<Rightarrow> (server_error, d)
           | Inr (row, d') \<Rightarrow> (Response 200 (JObj
               [(''status'', JStr ''pending''), (''recovery_id'', JStr (pr_id row)),
                (''veto_deadline'', JStr (isoformat (pr_veto_deadline row))), (''finalize_token'', JStr raw_token)]), d')))"

definition recover_finalize_route :: "(json \<Rightarrow> string) \<Rightarrow> int \<Rightarrow> int \<Rightarrow> (string \<Rightarrow> string) \<Rightarrow> (nat \<Rightarrow> hub \<Rightarrow> hub) \<Rightarrow> instant \<Rightarrow> ident \<Rightarrow> ident \<Rightarrow>
    string \<Rightarrow> db \<Rightarrow> hub \<Rightarrow> response \<times> db \<times> hub" where
  "recover_finalize_route jwt_encode attl rttl sha256_hex race now pk recovery_id finalize_token d h =
     (if recovery_id = [] \<or> length recovery_id > 64 \<or> finalize_token = [] \<or> length finalize_token > 128 then (invalid_request, d, h)
      else case finalize_recovery jwt_encode attl rttl sha256_hex now pk recovery_id finalize_token d of
        (None, d') \<Rightarrow> (http_exception 409 ''recovery not finalizable'', d', h)
      | (Some (access, refreshed, u), d') \<Rightarrow>
          (Response 200 (JObj [(''access_token'', JStr access), (''refresh_token'', JStr refreshed),
             (''user'', JObj [(''user_id'', JStr (u_id u)), (''username'', JStr (u_username u)),
                (''display_name'', JStr (u_display_name u)), (''aiko_username'', JStr (u_aiko_username u))])]),
           d', snd (disconnect_user race (u_id u) h)))"

definition recover_cancel_route :: "user \<Rightarrow> db \<Rightarrow> response \<times> db" where
  "recover_cancel_route u d = (case cancel_recovery (u_id u) d of (cancelled, d') \<Rightarrow> (Response 200 (JObj [(''cancelled'', JBool cancelled)]), d'))"

definition recovery_status_route :: "(instant \<Rightarrow> string) \<Rightarrow> user \<Rightarrow> db \<Rightarrow> response" where
  "recovery_status_route isoformat u d = Response 200
     (case recovery_status (u_id u) d of
        None \<Rightarrow> JObj [(''pending'', JBool False)]
      | Some (i, deadline) \<Rightarrow> JObj [(''pending'', JBool True), (''recovery_id'', JStr i), (''veto_deadline'', JStr (isoformat deadline))])"


section \<open>Public documents\<close>

definition CARRIES_ORIGIN :: bool where "CARRIES_ORIGIN = True"

definition get_capabilities :: response where
  "get_capabilities = Response 200 (JObj [(''carriage'', JObj [(''origin'', JBool CARRIES_ORIGIN)])])"

definition apple_app_site_association :: "string \<Rightarrow> response" where
  "apple_app_site_association passkey_ios_app_id =
     Response 200 (JObj [(''webcredentials'', JObj [(''apps'', JList [JStr passkey_ios_app_id])])])"

definition android_asset_links :: "string \<Rightarrow> string list \<Rightarrow> response" where
  "android_asset_links package cert_sha256 = Response 200 (JList
     (if cert_sha256 = [] then []
      else [JObj [(''relation'', JList [JStr ''delegate_permission/common.get_login_creds'', JStr ''delegate_permission/common.handle_all_urls'']),
        (''target'', JObj [(''namespace'', JStr ''android_app''), (''package_name'', JStr package),
           (''sha256_cert_fingerprints'', JList (map JStr cert_sha256))])]]))"

text \<open>\<open>None\<close> is a reachability report that raised; \<open>fcm_ready\<close> is what the transport says of itself where Android is
  configured.\<close>

definition reachability_block :: "reach_report option \<Rightarrow> bool option option \<Rightarrow> json" where
  "reachability_block report fcm_ready =
     (case report of
        None \<Rightarrow> JObj [(''status'', JStr ''unknown'')]
      | Some r \<Rightarrow> JObj ([(''configured'', JBool (rr_configured r)), (''devices_unreachable'', JBool (rr_unreachable_devices r \<noteq> 0))]
          @ (case fcm_ready of
               None \<Rightarrow> []
             | Some ready \<Rightarrow> [(''android_ready'', case ready of None \<Rightarrow> JNull | Some b \<Rightarrow> JBool b)])))"

definition health :: "bool option \<Rightarrow> reach_report option \<Rightarrow> bool option option \<Rightarrow> (string \<times> string option) list \<Rightarrow> response" where
  "health bus_connected report fcm_ready build = Response 200 (JObj
     [(''status'', JStr ''ok''), (''aiko_connected'', JBool (bus_connected = Some True)),
      (''push'', reachability_block report fcm_ready),
      (''build'', JObj (map (\<lambda>(k, v). (k, json_opt v)) build))])"

text \<open>The debug route; \<open>send\<close> is what the bus makes of it, \<open>None\<close> a process without a bus.\<close>

definition debug_send :: "bool \<Rightarrow> (string \<Rightarrow> string \<Rightarrow> string \<Rightarrow> bool) option \<Rightarrow> string \<Rightarrow> string \<Rightarrow> string \<Rightarrow> response" where
  "debug_send is_production send channel username message =
     (if is_production then http_exception 404 ''not found''
      else Response 200 (JObj [(''sent'', JBool (case send of None \<Rightarrow> False | Some f \<Rightarrow> f username channel message))]))"

section \<open>Refusals\<close>

text \<open>An attestation that is no registration response at all escapes the route, which catches the other error only.\<close>

lemma malformed_attestation_answers_500:
  assumes "finish_recovery ed unb64 attest sha veto race now i raw (u_id u) nonce attestation approvals d =
      Inl (RecoveryAttestation InvalidJSONStructure)"
    and "user_by_handle d handle = Some u" "handle \<noteq> []" "length handle \<le> 64" "nonce \<noteq> []" "length nonce \<le> MAX_NONCE"
    and "approvals \<noteq> []" "length approvals \<le> MAX_APPROVERS" "list_all approval_shape approvals"
  shows "recover_finish_route ed unb64 attest sha fmt veto race now i raw handle nonce attestation approvals d = (server_error, d)"
  using assms by (simp add: recover_finish_route_def)

text \<open>A batch of read positions is refused exactly when an entry is malformed, and then stores nothing.\<close>

lemma position_entries_refused: "isl (position_entries es) \<longleftrightarrow> list_ex (\<lambda>(c, x). isl (position_entry c x)) es"
  by (induction es) (auto split: sum.splits)

lemma bad_batch_stores_nothing:
  "body_entries es = Inl r \<Longrightarrow> set_read_positions_route why race now u es d = (r, d)"
  by (simp add: set_read_positions_route_def)


section \<open>A ban cuts the account off\<close>

lemma ban_routeE:
  assumes "ban_user_route race mods now u v d h = (no_content, d', h')"
  obtains t where "is_moderator mods (u_id u)" "v \<noteq> u_id u" "\<not> is_moderator mods v" "get_user d v = Some t"
    "d' = (if u_banned_at t = None then upd_user v (\<lambda>x. x\<lparr>u_banned_at := Some now\<rparr>) d else d)"
    "h' = snd (disconnect_user race v h)"
proof -
  have codes: "http_exception c why \<noteq> no_content" "server_error \<noteq> no_content" for c why
    by (simp_all add: http_exception_def no_content_def server_error_def)
  have m: "is_moderator mods (u_id u)" using assms codes by (auto simp: ban_user_route_def moderated_def split: if_splits)
  then obtain r where "ban_user mods now v (u_id u) d = Inr r" "d' = r" "h' = snd (disconnect_user race v h)"
    using assms codes by (auto simp: ban_user_route_def moderated_def split: sum.splits moderation_error.splits)
  with m that show thesis by (auto simp: ban_user_def split: if_splits option.splits)
qed

lemma recipient_live: "w \<in> set (recipients d channel sender exclude) \<Longrightarrow> \<exists>x \<in> set (users d). u_id x = w \<and> u_banned_at x = None"
  by (auto simp: recipients_def Let_def split: option.splits if_splits)

definition ban_stands :: "ident \<Rightarrow> db \<Rightarrow> bool" where
  "ban_stands v d \<longleftrightarrow> (\<exists>x \<in> set (users d). u_id x = v) \<and> (\<forall>x \<in> set (users d). u_id x = v \<longrightarrow> u_banned_at x \<noteq> None)"

lemma ban_stands_get: "ban_stands v d \<Longrightarrow> get_user d v \<noteq> None"
  by (auto simp: ban_stands_def get_user_def find_None_iff)

lemma ban_stands_row: "ban_stands v d \<Longrightarrow> get_user d i = Some x \<Longrightarrow> u_id x = v \<Longrightarrow> is_banned x"
  by (auto simp: ban_stands_def get_user_def is_banned_def dest: find_SomeD)

text \<open>While a ban stands: no token resolves, no door mints, no push reaches.\<close>

lemma banned_resolves_never:
  "ban_stands v d \<Longrightarrow> resolve_session_user jwt_decode t token kind d = Inr w \<Longrightarrow> u_id w \<noteq> v"
  using ban_stands_row [of v d]
  by (fastforce simp: resolve_session_user_def split: sum.splits option.splits if_splits prod.splits)

lemma banned_mints_never:
  "ban_stands v d' \<Longrightarrow> auth_ok d \<Longrightarrow> mints enc dec cfg t d (SignedIn a r w) d' \<Longrightarrow> u_id w \<noteq> v"
  using mints_live [of enc dec cfg t d "SignedIn a r w" d'] ban_stands_row [of v d'] by (auto simp: live_def)

lemma banned_received_never: "ban_stands v d \<Longrightarrow> v \<notin> set (recipients d channel sender exclude)"
  unfolding ban_stands_def using recipient_live by blast

text \<open>The route puts the ban on the row, and on no other.\<close>

lemma ban_route_stands:
  assumes "get_user d v = Some t" and "schema_ok d"
  shows "ban_stands v (if u_banned_at t = None then upd_user v (\<lambda>x. x\<lparr>u_banned_at := Some now\<rparr>) d else d)"
proof -
  have t: "t \<in> set (users d)" "u_id t = v" using assms(1) by (auto simp: get_user_def dest: find_SomeD)
  have same: "x = t" if "x \<in> set (users d)" "u_id x = v" for x
    using that t unique_onD [OF schema_okD(1) [OF assms(2)]] by metis
  show ?thesis
  proof (cases "u_banned_at t = None")
    case True
    define f :: "user \<Rightarrow> user" where "f = (\<lambda>r. if u_id r = v then r\<lparr>u_banned_at := Some now\<rparr> else r)"
    have rows: "set (users (upd_user v (\<lambda>x. x\<lparr>u_banned_at := Some now\<rparr>) d)) = f ` set (users d)"
      unfolding upd_user_def f_def by (simp add: upd_where_def)
    have "u_id (f t) = v" "u_id (f x) = v \<longrightarrow> u_banned_at (f x) \<noteq> None" for x
      using t(2) by (simp_all add: f_def)
    then have "ban_stands v (upd_user v (\<lambda>x. x\<lparr>u_banned_at := Some now\<rparr>) d)"
      unfolding ban_stands_def rows using t(1) by blast
    then show ?thesis unfolding if_P [OF True] .
  next
    case False
    then show ?thesis unfolding if_not_P [OF False] ban_stands_def using t same by blast
  qed
qed

text \<open>C17: a ban that the route confirms takes effect at once and for as long as it stands. Every socket of
  the account that was registered when the disconnect began is closed, whatever else happens to the hub
  meanwhile. In every later state in which the ban stands no token of any kind or generation, whoever
  minted it, resolves to the account; none of the sign-in doors (register, login, social, claim, both
  passkey doors, broker exchange) mints a session for it; and no message or call wakes its devices. Nobody
  else's account changes. Only a moderator can do it, and not to a moderator or to themselves. A socket
  whose handshake had passed the ban check but was not yet registered is not among those closed, and
  the finalize of a recovery is not among those doors: it mints without asking, and what it mints is
  refused wherever it is presented.\<close>

theorem ban_cuts_off:
  assumes "ban_user_route race mods now u v d h = (no_content, d', h')" and "schema_ok d"
    and "\<And>c g. set (registered (race c g)) \<subseteq> set (registered g) \<union> new" and "new \<inter> set (registered h) = {}"
  shows "(\<forall>conn \<in> set (registered h). owned_by h v conn \<longrightarrow> conn \<notin> set (registered h')) \<and>
    ban_stands v d' \<and>
    (\<forall>e. ban_stands v e \<longrightarrow>
      (\<forall>jwt_decode t token kind w. resolve_session_user jwt_decode t token kind e = Inr w \<longrightarrow> u_id w \<noteq> v) \<and>
      (\<forall>enc dec cfg t e0 a r w. auth_ok e0 \<longrightarrow> mints enc dec cfg t e0 (SignedIn a r w) e \<longrightarrow> u_id w \<noteq> v) \<and>
      (\<forall>channel sender exclude. v \<notin> set (recipients e channel sender exclude))) \<and>
    (\<forall>w. w \<noteq> v \<longrightarrow> get_user d' w = get_user d w) \<and>
    is_moderator mods (u_id u) \<and> v \<noteq> u_id u \<and> \<not> is_moderator mods v"
proof -
  obtain t where b: "is_moderator mods (u_id u)" "v \<noteq> u_id u" "\<not> is_moderator mods v" "get_user d v = Some t"
    "d' = (if u_banned_at t = None then upd_user v (\<lambda>x. x\<lparr>u_banned_at := Some now\<rparr>) d else d)"
    "h' = snd (disconnect_user race v h)" using assms(1) by (rule ban_routeE)
  have other: "get_user d' w = get_user d w" if "w \<noteq> v" for w
    using that b(5) by (simp add: upd_user_def get_user_upd option.map_ident)
  have closed: "\<forall>conn \<in> set (registered h). owned_by h v conn \<longrightarrow> conn \<notin> set (registered h')"
    unfolding b(6) by (intro ballI impI disconnect_user_clears [where new = new] assms(3,4))
  show ?thesis
    by (intro conjI allI impI closed other b(1-3) ban_route_stands [OF b(4) assms(2), of now, folded b(5)])
      (blast intro: other dest: banned_resolves_never banned_mints_never banned_received_never)+
qed

definition ex_hub :: hub where
  "ex_hub = \<lparr>conn_objects = [7 \<mapsto> \<lparr>cn_user_id = ''b'', cn_subscribed = {}\<rparr>], registered = [7]\<rparr>"

theorem ban_cuts_off_witness:
  "\<exists>d' h'. ban_user_route (\<lambda>_ g. g) [''a''] 5 (ex_user ''a'') ''b'' ex_two_users ex_hub = (no_content, d', h') \<and>
     schema_ok ex_two_users \<and> registered ex_hub = [7] \<and> 7 \<notin> set (registered h') \<and> ban_stands ''b'' d'"
proof -
  have ok: "schema_ok ex_two_users"
    by (simp add: schema_ok_def ex_two_users_def ex_user_def empty_db_def unique_on_def unique_opt_def)
  have "get_user ex_two_users ''b'' = Some (ex_user ''b'')" by (simp add: ex_two_users_def ex_user_def get_user_def)
  then obtain d' h' where r: "ban_user_route (\<lambda>_ g. g) [''a''] 5 (ex_user ''a'') ''b'' ex_two_users ex_hub = (no_content, d', h')"
    by (simp add: ban_user_route_def moderated_def is_moderator_def ban_user_def ex_user_def)
  have "owned_by ex_hub ''b'' 7" "registered ex_hub = [7]" by (simp_all add: owned_by_def ex_hub_def)
  with ban_cuts_off [OF r ok, of "{}"] r ok show ?thesis by auto
qed

end
