(* ===== verification/Providers.thy ===== *)
theory Providers
  imports Config Messages "HOL-Library.AList"
begin

text \<open>The conversations with identity providers: the key sets they publish and their cache, the check
  of an ID token (\<open>domain/oauth.py\<close>), and the authorization-code broker (\<open>domain/oauth_broker.py\<close>),
  with the provider list of \<open>rest/auth.py\<close>.  The JWT library (the unverified header, the RSA key of a key
  entry, the verified claims of a token) and the HTTP client are arguments; the monotonic clock is a real
  number read at each place the code reads it.  What providers document as text (issuer, subject, e-mail, names) is
  read as text.\<close>

section \<open>Definitions\<close>

text \<open>Python's truth of a JSON value; \<open>zero\<close> tells a float that is zero.\<close>

fun py_true :: "(string \<Rightarrow> bool) \<Rightarrow> json \<Rightarrow> bool" where
  "py_true zero JNull = False"
| "py_true zero (JBool b) = b"
| "py_true zero (JInt i) = (i \<noteq> 0)"
| "py_true zero (JFloat t) = (\<not> zero t)"
| "py_true zero (JStr s) = (s \<noteq> [])"
| "py_true zero (JList xs) = (xs \<noteq> [])"
| "py_true zero (JObj kvs) = (kvs \<noteq> [])"

subsection \<open>The key cache\<close>

text \<open>Keys by their id, and the instant of the last successful refresh.\<close>

record 'k jwks_cache =
  jc_keys :: "string \<rightharpoonup> 'k"
  jc_fetched_at :: "real option"
  jc_min_refresh_interval :: real
  jc_max_age :: real

definition new_jwks_cache :: "real \<Rightarrow> real \<Rightarrow> 'k jwks_cache option" where
  "new_jwks_cache min_refresh_interval max_age =
     (if \<not> max_age > min_refresh_interval then None
      else Some \<lparr>jc_keys = Map.empty, jc_fetched_at = None, jc_min_refresh_interval = min_refresh_interval, jc_max_age = max_age\<rparr>)"

definition stale :: "real \<Rightarrow> 'k jwks_cache \<Rightarrow> bool" where
  "stale now c \<longleftrightarrow> (case jc_fetched_at c of None \<Rightarrow> True | Some t \<Rightarrow> now - t \<ge> jc_max_age c)"

definition refresh_allowed :: "real \<Rightarrow> 'k jwks_cache \<Rightarrow> bool" where
  "refresh_allowed now c \<longleftrightarrow> (case jc_fetched_at c of None \<Rightarrow> True | Some t \<Rightarrow> now - t \<ge> jc_min_refresh_interval c)"

text \<open>A key id that is no text is stored under a key no token can name, so it is left out.  \<open>from_jwk\<close> is
  \<open>None\<close> where the library refuses the entry.\<close>

definition add_jwk :: "(json \<Rightarrow> 'k option) \<Rightarrow> (string \<rightharpoonup> 'k) \<Rightarrow> json \<Rightarrow> (string \<rightharpoonup> 'k)" where
  "add_jwk from_jwk new_keys jwk =
     (case str_of (jget ''kid'' jwk) of
        None \<Rightarrow> new_keys
      | Some kid \<Rightarrow>
          if kid = [] then new_keys
          else (case from_jwk jwk of None \<Rightarrow> new_keys | Some k \<Rightarrow> new_keys(kid \<mapsto> k)))"

definition jwks_keys :: "(json \<Rightarrow> 'k option) \<Rightarrow> json \<Rightarrow> (string \<rightharpoonup> 'k) option" where
  "jwks_keys from_jwk jwks =
     (case jget ''keys'' jwks of Some (JList keys) \<Rightarrow> Some (foldl (add_jwk from_jwk) Map.empty keys) | _ \<Rightarrow> None)"

text \<open>What the endpoint answers: \<open>None\<close> is a failed request, an error status or a body that is no JSON.  The
  result is \<open>None\<close> where \<open>_refresh\<close> raises.\<close>

definition refresh_jwks :: "(json \<Rightarrow> 'k option) \<Rightarrow> json option \<Rightarrow> real \<Rightarrow> 'k jwks_cache \<Rightarrow> 'k jwks_cache option" where
  "refresh_jwks from_jwk answer now c =
     (case answer of
        None \<Rightarrow> None
      | Some jwks \<Rightarrow>
          (case jwks_keys from_jwk jwks of
             None \<Rightarrow> None
           | Some new_keys \<Rightarrow> Some (c\<lparr>jc_keys := new_keys, jc_fetched_at := Some now\<rparr>)))"

datatype 'k key_answer = KeyIs "'k option" | JwksUnreachable

definition cached_key :: "real \<Rightarrow> string \<Rightarrow> 'k jwks_cache \<Rightarrow> 'k option" where
  "cached_key now kid c = (if stale now c then None else jc_keys c kid)"

text \<open>One call: the clock at its four readings, what other calls do to the cache while it waits for
  the lock, and what the endpoint would answer.\<close>

record 'k key_call =
  kc_first :: real
  kc_race :: "'k jwks_cache \<Rightarrow> 'k jwks_cache"
  kc_locked :: real
  kc_asked :: real
  kc_answered :: real
  kc_answer :: "json option"

definition get_key_locked :: "(json \<Rightarrow> 'k option) \<Rightarrow> 'k key_call \<Rightarrow> string \<Rightarrow> 'k jwks_cache \<Rightarrow> 'k key_answer \<times> 'k jwks_cache" where
  "get_key_locked from_jwk call kid c =
     (case cached_key (kc_locked call) kid c of
        Some k \<Rightarrow> (KeyIs (Some k), c)
      | None \<Rightarrow>
          if refresh_allowed (kc_asked call) c
          then (case refresh_jwks from_jwk (kc_answer call) (kc_answered call) c of
                  None \<Rightarrow> (JwksUnreachable, c)
                | Some c' \<Rightarrow> (KeyIs (jc_keys c' kid), c'))
          else (KeyIs (jc_keys c kid), c))"

definition jwks_key :: "(json \<Rightarrow> 'k option) \<Rightarrow> 'k key_call \<Rightarrow> string \<Rightarrow> 'k jwks_cache \<Rightarrow> 'k key_answer \<times> 'k jwks_cache" where
  "jwks_key from_jwk call kid c =
     (case cached_key (kc_first call) kid c of
        Some k \<Rightarrow> (KeyIs (Some k), c)
      | None \<Rightarrow> get_key_locked from_jwk call kid (kc_race call c))"

subsection \<open>ID tokens\<close>

datatype idp = Apple | Google

fun idp_value :: "idp \<Rightarrow> string" where
  "idp_value Apple = ''apple''"
| "idp_value Google = ''google''"

definition as_provider :: "string \<Rightarrow> idp option" where
  "as_provider provider = find (\<lambda>p. idp_value p = provider) [Apple, Google]"

record idp_config =
  pc_jwks_uri :: string
  pc_issuers :: "string list"
  pc_nonce_hashed :: bool

fun PROVIDERS :: "idp \<Rightarrow> idp_config" where
  "PROVIDERS Apple = \<lparr>pc_jwks_uri = ''https://appleid.apple.com/auth/keys'', pc_issuers = [''https://appleid.apple.com''], pc_nonce_hashed = True\<rparr>"
| "PROVIDERS Google = \<lparr>pc_jwks_uri = ''https://www.googleapis.com/oauth2/v3/certs'',
     pc_issuers = [''https://accounts.google.com'', ''accounts.google.com''], pc_nonce_hashed = False\<rparr>"

definition MIN_REFRESH_INTERVAL :: real where "MIN_REFRESH_INTERVAL = 30"
definition MAX_KEY_SET_AGE :: real where "MAX_KEY_SET_AGE = 3600"

fun allowed_audiences :: "settings \<Rightarrow> idp \<Rightarrow> string list" where
  "allowed_audiences s Apple = st_apple_client_ids s"
| "allowed_audiences s Google = st_google_client_ids s"

text \<open>The JWT library.  \<open>header_of\<close> reads the header without checking anything, and refuses one whose key
  id is no text; \<open>claims_of\<close> checks the RS256 signature under the key, the audience against the list, the
  times, and that the five required claims are there.\<close>

record 'k jwt_lib =
  header_of :: "string \<Rightarrow> json option"
  from_jwk :: "json \<Rightarrow> 'k option"
  claims_of :: "'k \<Rightarrow> string list \<Rightarrow> string \<Rightarrow> json option"
  sha256_hex :: "string \<Rightarrow> string"

definition nonce_matches :: "'k jwt_lib \<Rightarrow> idp_config \<Rightarrow> string option \<Rightarrow> json \<Rightarrow> bool" where
  "nonce_matches lib cfg expected_nonce claims =
     (case expected_nonce of
        None \<Rightarrow> True
      | Some n \<Rightarrow> str_of (jget ''nonce'' claims) = Some (if pc_nonce_hashed cfg then sha256_hex lib n else n))"

definition identity_of :: "idp \<Rightarrow> string \<Rightarrow> json \<Rightarrow> provisioning" where
  "identity_of p sub claims = \<lparr>pv_provider = idp_value p, pv_provider_sub = sub,
     pv_suggested_name = str_of (jget ''name'' claims), pv_email = str_of (jget ''email'' claims)\<rparr>"

text \<open>The checks after the signature. An issuer that is no text is counted as untrusted; of the values a provider
  signs only a list or an object would make the source raise instead.\<close>

definition checked_claims :: "'k jwt_lib \<Rightarrow> settings \<Rightarrow> idp \<Rightarrow> string \<Rightarrow> string option \<Rightarrow> 'k \<Rightarrow> provider_outcome" where
  "checked_claims lib s p id_token expected_nonce key =
     (case claims_of lib key (allowed_audiences s p) id_token of
        None \<Rightarrow> InvalidProviderToken
      | Some claims \<Rightarrow>
          (case str_of (jget ''iss'' claims) of
             None \<Rightarrow> InvalidProviderToken
           | Some issuer \<Rightarrow>
               if issuer \<notin> set (pc_issuers (PROVIDERS p)) then InvalidProviderToken
               else if \<not> nonce_matches lib (PROVIDERS p) expected_nonce claims then InvalidProviderToken
               else (case truthy (str_of (jget ''sub'' claims)) of
                       None \<Rightarrow> InvalidProviderToken
                     | Some sub \<Rightarrow> Identity (identity_of p sub claims))))"

definition verify_id_token :: "'k jwt_lib \<Rightarrow> settings \<Rightarrow> 'k key_call \<Rightarrow> string \<Rightarrow> string \<Rightarrow> string option \<Rightarrow> (idp \<Rightarrow> 'k jwks_cache) \<Rightarrow>
    provider_outcome \<times> (idp \<Rightarrow> 'k jwks_cache)" where
  "verify_id_token lib s call provider id_token expected_nonce caches =
     (case as_provider provider of
        None \<Rightarrow> (UnknownProvider, caches)
      | Some p \<Rightarrow>
          if allowed_audiences s p = [] then (InvalidProviderToken, caches)
          else (case header_of lib id_token of
                  None \<Rightarrow> (InvalidProviderToken, caches)
                | Some header \<Rightarrow>
                    if jget ''alg'' header \<noteq> Some (JStr ''RS256'') then (InvalidProviderToken, caches)
                    else (case truthy (str_of (jget ''kid'' header)) of
                            None \<Rightarrow> (InvalidProviderToken, caches)
                          | Some kid \<Rightarrow>
                              (case jwks_key (from_jwk lib) call kid (caches p) of
                                 (JwksUnreachable, c') \<Rightarrow> (ProviderUnavailable, caches(p := c'))
                               | (KeyIs None, c') \<Rightarrow> (InvalidProviderToken, caches(p := c'))
                               | (KeyIs (Some key), c') \<Rightarrow>
                                   (checked_claims lib s p id_token expected_nonce key, caches(p := c'))))))"

subsection \<open>The broker\<close>

text \<open>A request the HTTP client sends and the part of the answer the code reads; \<open>None\<close> instead of an answer
  is a transport error, and \<open>ha_json\<close> is \<open>None\<close> for a body that is no JSON.\<close>

record http_request =
  rq_method :: string
  rq_url :: string
  rq_headers :: "(string \<times> string) list"
  rq_form :: "(string \<times> string) list"

record http_answer =
  ha_status :: int
  ha_rate_remaining :: "string option"
  ha_json :: "json option"

type_synonym http_client = "http_request \<Rightarrow> http_answer option"

definition is_rate_limited :: "http_answer \<Rightarrow> bool" where
  "is_rate_limited resp =
     (if ha_status resp = 429 then True
      else if ha_status resp = 403 then ha_rate_remaining resp = Some ''0''
      else False)"

text \<open>A provider of the registry.  \<open>br_slug\<close> and \<open>br_supports_pkce\<close> are the part the routes see.  A profile
  fetch returns its outcome and the requests it made.\<close>

record broker_provider = broker +
  bp_display_name :: string
  bp_authorize_url :: string
  bp_token_url :: string
  bp_scopes :: "string list"
  bp_fetch_profile :: "http_client \<Rightarrow> string \<Rightarrow> broker_outcome \<times> http_request list"
  bp_token_headers :: "(string \<times> string) list"

definition provider_client_id :: "settings \<Rightarrow> string \<Rightarrow> string" where
  "provider_client_id s slug = (if slug = ''github'' then st_github_client_id s else [])"

definition provider_client_secret :: "settings \<Rightarrow> string \<Rightarrow> string" where
  "provider_client_secret s slug = (if slug = ''github'' then st_github_client_secret s else [])"

definition is_configured_broker :: "settings \<Rightarrow> broker_provider \<Rightarrow> bool" where
  "is_configured_broker s p \<longleftrightarrow> provider_client_id s (br_slug p) \<noteq> [] \<and> provider_client_secret s (br_slug p) \<noteq> []"

text \<open>\<open>str(profile["id"])\<close>; \<open>shown\<close> is Python's text of a float or a container.\<close>

definition id_text :: "(json \<Rightarrow> string) \<Rightarrow> json \<Rightarrow> string" where
  "id_text shown j =
     (case j of
        JInt i \<Rightarrow> int_str i
      | JStr t \<Rightarrow> t
      | JBool b \<Rightarrow> if b then ''True'' else ''False''
      | JNull \<Rightarrow> ''None''
      | _ \<Rightarrow> shown j)"

definition profile_name :: "json \<Rightarrow> string option" where
  "profile_name profile =
     (case truthy (str_of (jget ''name'' profile)) of
        Some n \<Rightarrow> Some n
      | None \<Rightarrow> str_of (jget ''login'' profile))"

definition key_true :: "(string \<Rightarrow> bool) \<Rightarrow> string \<Rightarrow> json \<Rightarrow> bool" where
  "key_true zero k j = (case jget k j of None \<Rightarrow> False | Some v \<Rightarrow> py_true zero v)"

fun primary_email :: "(string \<Rightarrow> bool) \<Rightarrow> json list \<Rightarrow> string option" where
  "primary_email zero [] = None"
| "primary_email zero (entry # entries) =
     (if key_true zero ''primary'' entry \<and> key_true zero ''verified'' entry
      then (case truthy (str_of (jget ''email'' entry)) of
              Some candidate \<Rightarrow> Some candidate
            | None \<Rightarrow> primary_email zero entries)
      else primary_email zero entries)"

definition best_effort_email :: "(string \<Rightarrow> bool) \<Rightarrow> http_answer option \<Rightarrow> string option" where
  "best_effort_email zero e_resp =
     (case e_resp of
        None \<Rightarrow> None
      | Some r \<Rightarrow>
          if ha_status r \<noteq> 200 then None
          else (case ha_json r of Some (JList emails) \<Rightarrow> primary_email zero emails | _ \<Rightarrow> None))"

definition github_get :: "string \<Rightarrow> string \<Rightarrow> http_request" where
  "github_get url access_token = \<lparr>rq_method = ''GET'', rq_url = url,
     rq_headers = [(''Authorization'', ''Bearer '' @ access_token), (''Accept'', ''application/vnd.github+json'')], rq_form = []\<rparr>"

definition GITHUB_USER :: string where "GITHUB_USER = ''https://api.github.com/user''"
definition GITHUB_EMAILS :: string where "GITHUB_EMAILS = ''https://api.github.com/user/emails''"

definition github_fetch_profile :: "(string \<Rightarrow> bool) \<Rightarrow> (json \<Rightarrow> string) \<Rightarrow> http_client \<Rightarrow> string \<Rightarrow> broker_outcome \<times> http_request list" where
  "github_fetch_profile zero shown http access_token =
     (let ask = github_get GITHUB_USER access_token; ask_emails = github_get GITHUB_EMAILS access_token
      in case http ask of
           None \<Rightarrow> (BrokerUnavailable, [ask])
         | Some u \<Rightarrow>
             if ha_status u = 401 then (BrokerInvalidExchange, [ask])
             else if is_rate_limited u then (BrokerUnavailable, [ask])
             else if ha_status u \<ge> 500 then (BrokerUnavailable, [ask])
             else if ha_status u \<noteq> 200 then (BrokerInvalidExchange, [ask])
             else (case ha_json u of
                     None \<Rightarrow> (BrokerUnavailable, [ask])
                   | Some profile \<Rightarrow>
                       (case jget ''id'' profile of
                          None \<Rightarrow> (BrokerInvalidExchange, [ask])
                        | Some i \<Rightarrow>
                            if \<not> py_true zero i then (BrokerInvalidExchange, [ask])
                            else (Exchanged \<lparr>pv_provider = ''github'', pv_provider_sub = id_text shown i,
                                     pv_suggested_name = profile_name profile,
                                     pv_email = best_effort_email zero (http ask_emails)\<rparr>, [ask, ask_emails]))))"

definition GITHUB :: "(string \<Rightarrow> bool) \<Rightarrow> (json \<Rightarrow> string) \<Rightarrow> broker_provider" where
  "GITHUB zero shown = \<lparr>br_slug = ''github'', br_supports_pkce = False, bp_display_name = ''GitHub'',
     bp_authorize_url = ''https://github.com/login/oauth/authorize'', bp_token_url = ''https://github.com/login/oauth/access_token'',
     bp_scopes = [''read:user'', ''user:email''], bp_fetch_profile = github_fetch_profile zero shown,
     bp_token_headers = [(''Accept'', ''application/json'')]\<rparr>"

text \<open>The registry, in its listing order.\<close>

definition get_broker :: "settings \<Rightarrow> broker_provider list \<Rightarrow> string \<Rightarrow> broker_provider option" where
  "get_broker s registry slug =
     (case find (\<lambda>p. br_slug p = slug) registry of
        None \<Rightarrow> None
      | Some p \<Rightarrow> if \<not> is_configured_broker s p then None else Some p)"

definition configured_providers :: "settings \<Rightarrow> broker_provider list \<Rightarrow> broker_provider list" where
  "configured_providers s registry = filter (is_configured_broker s) registry"

definition callback_redirect_uri :: "settings \<Rightarrow> string \<Rightarrow> string" where
  "callback_redirect_uri s slug = rstrip_slash (st_gateway_base_url s) @ ''/v1/auth/oauth/'' @ slug @ ''/callback''"

text \<open>\<open>encode\<close> is the query encoder of the HTTP library.\<close>

definition spaced :: "string list \<Rightarrow> string" where
  "spaced xs = (case xs of [] \<Rightarrow> [] | y # ys \<Rightarrow> y @ concat (map (\<lambda>x. '' '' @ x) ys))"

definition authorize_params :: "settings \<Rightarrow> broker_provider \<Rightarrow> string \<Rightarrow> string option \<Rightarrow> (string \<times> string) list" where
  "authorize_params s p state code_challenge =
     [(''client_id'', provider_client_id s (br_slug p)), (''redirect_uri'', callback_redirect_uri s (br_slug p)),
      (''scope'', spaced (bp_scopes p)), (''state'', state), (''response_type'', ''code'')]
     @ (case (br_supports_pkce p, code_challenge) of
          (True, Some ch) \<Rightarrow> [(''code_challenge'', ch), (''code_challenge_method'', ''S256'')]
        | _ \<Rightarrow> [])"

definition build_authorize_url :: "((string \<times> string) list \<Rightarrow> string) \<Rightarrow> settings \<Rightarrow> broker_provider \<Rightarrow> string \<Rightarrow> string option \<Rightarrow> string" where
  "build_authorize_url encode s p state code_challenge =
     bp_authorize_url p @ ''?'' @ encode (authorize_params s p state code_challenge)"

definition token_request :: "settings \<Rightarrow> broker_provider \<Rightarrow> string \<Rightarrow> string option \<Rightarrow> http_request" where
  "token_request s p code code_verifier = \<lparr>rq_method = ''POST'', rq_url = bp_token_url p,
     rq_headers = AList.merge [(''Accept'', ''application/json'')] (bp_token_headers p),
     rq_form = [(''client_id'', provider_client_id s (br_slug p)), (''client_secret'', provider_client_secret s (br_slug p)),
        (''code'', code), (''redirect_uri'', callback_redirect_uri s (br_slug p)), (''grant_type'', ''authorization_code'')]
       @ (case (br_supports_pkce p, code_verifier) of (True, Some v) \<Rightarrow> [(''code_verifier'', v)] | _ \<Rightarrow> [])\<rparr>"

definition exchange_code :: "(string \<Rightarrow> bool) \<Rightarrow> settings \<Rightarrow> http_client \<Rightarrow> broker_provider \<Rightarrow> string \<Rightarrow> string option \<Rightarrow>
    broker_outcome \<times> http_request list" where
  "exchange_code zero s http p code code_verifier =
     (let ask = token_request s p code code_verifier
      in case http ask of
           None \<Rightarrow> (BrokerUnavailable, [ask])
         | Some resp \<Rightarrow>
             if is_rate_limited resp then (BrokerUnavailable, [ask])
             else if ha_status resp \<ge> 500 then (BrokerUnavailable, [ask])
             else if ha_status resp \<noteq> 200 then (BrokerInvalidExchange, [ask])
             else (case ha_json resp of
                     Some (JObj kvs) \<Rightarrow>
                       if key_true zero ''error'' (JObj kvs) then (BrokerInvalidExchange, [ask])
                       else (case truthy (str_of (jget ''access_token'' (JObj kvs))) of
                               None \<Rightarrow> (BrokerInvalidExchange, [ask])
                             | Some access_token \<Rightarrow>
                                 (case bp_fetch_profile p http access_token of (out, asked) \<Rightarrow> (out, ask # asked)))
                   | _ \<Rightarrow> (BrokerUnavailable, [ask])))"

subsection \<open>The provider list\<close>

definition listed :: "string \<Rightarrow> string \<Rightarrow> string \<Rightarrow> (string \<times> json) list \<Rightarrow> json" where
  "listed slug display_name kind rest =
     JObj ([(''slug'', JStr slug), (''display_name'', JStr display_name), (''kind'', JStr kind)] @ rest)"

definition list_providers :: "settings \<Rightarrow> broker_provider list \<Rightarrow> json" where
  "list_providers s registry = JObj [(''providers'', JList
     ((if st_passkey_enabled s
       then [listed ''passkey'' ''Passkey'' ''passkey'' [(''creates_accounts'', JBool (st_open_registration s = Some True))]] else [])
      @ (if st_social_signin_enabled s
         then (if st_apple_client_ids s \<noteq> [] then [listed ''apple'' ''Apple'' ''native'' []] else [])
           @ (if st_google_client_ids s \<noteq> [] then [listed ''google'' ''Google'' ''native'' []] else [])
           @ map (\<lambda>p. listed (br_slug p) (bp_display_name p) ''broker'' []) (configured_providers s registry)
         else [])))]"

section \<open>The key cache over its life\<close>

text \<open>An attempt to fetch a key set: when it was asked for, when it came back, and the answer.  A run is the
  cache after any calls for any key ids, whose locked parts do not overlap, with its attempts, newest first.\<close>

type_synonym fetch_attempt = "real \<times> real \<times> json option"

definition asks :: "'k key_call \<Rightarrow> string \<Rightarrow> 'k jwks_cache \<Rightarrow> bool" where
  "asks call kid c \<longleftrightarrow> cached_key (kc_locked call) kid c = None \<and> refresh_allowed (kc_asked call) c"

inductive cache_run :: "(json \<Rightarrow> 'k option) \<Rightarrow> real \<Rightarrow> real \<Rightarrow> 'k jwks_cache \<Rightarrow> real \<Rightarrow> fetch_attempt list \<Rightarrow> bool"
  for fj lo hi where
  fresh_cache: "new_jwks_cache lo hi = Some c \<Longrightarrow> cache_run fj lo hi c now []"
| locked_call: "cache_run fj lo hi c now fs \<Longrightarrow> now \<le> kc_locked call \<Longrightarrow> kc_locked call \<le> kc_asked call \<Longrightarrow>
    kc_asked call \<le> kc_answered call \<Longrightarrow> get_key_locked fj call kid c = (out, c') \<Longrightarrow>
    fs' = (if asks call kid c then (kc_asked call, kc_answered call, kc_answer call) # fs else fs) \<Longrightarrow>
    cache_run fj lo hi c' (kc_answered call) fs'"

text \<open>The key sets a run stored.\<close>

fun key_sets :: "(json \<Rightarrow> 'k option) \<Rightarrow> fetch_attempt list \<Rightarrow> (real \<times> real \<times> (string \<rightharpoonup> 'k)) list" where
  "key_sets fj [] = []"
| "key_sets fj ((asked, answered, answer) # fs) =
     (case Option.bind answer (jwks_keys fj) of
        None \<Rightarrow> key_sets fj fs
      | Some ks \<Rightarrow> (asked, answered, ks) # key_sets fj fs)"

text \<open>The key is in the newest set the run stored, and that set is young enough when the key is used.\<close>

definition trusted_key :: "(json \<Rightarrow> 'k option) \<Rightarrow> real \<Rightarrow> fetch_attempt list \<Rightarrow> string \<Rightarrow> 'k \<Rightarrow> real \<Rightarrow> bool" where
  "trusted_key fj hi fs kid k used \<longleftrightarrow>
     (case key_sets fj fs of [] \<Rightarrow> False | (_, answered, ks) # _ \<Rightarrow> ks kid = Some k \<and> used - answered < hi)"

definition later_by :: "real \<Rightarrow> real \<times> real \<times> 'a \<Rightarrow> real \<times> real \<times> 'a \<Rightarrow> bool" where
  "later_by lo newer older \<longleftrightarrow> fst (snd older) \<le> fst newer \<and> lo \<le> fst newer - fst (snd older)"

lemma refresh_jwks_bind:
  "refresh_jwks fj answer now c =
     map_option (\<lambda>ks. c\<lparr>jc_keys := ks, jc_fetched_at := Some now\<rparr>) (Option.bind answer (jwks_keys fj))"
  by (simp add: refresh_jwks_def split: option.split)

text \<open>What a cache holds is the newest set of its run.\<close>

definition cache_state :: "(json \<Rightarrow> 'k option) \<Rightarrow> real \<Rightarrow> real \<Rightarrow> 'k jwks_cache \<Rightarrow> real \<Rightarrow> fetch_attempt list \<Rightarrow> bool" where
  "cache_state fj lo hi c now fs \<longleftrightarrow>
     jc_min_refresh_interval c = lo \<and> jc_max_age c = hi \<and> lo < hi \<and>
     (case key_sets fj fs of
        [] \<Rightarrow> jc_fetched_at c = None \<and> jc_keys c = Map.empty
      | (_, answered, ks) # _ \<Rightarrow> jc_fetched_at c = Some answered \<and> jc_keys c = ks) \<and>
     (\<forall>x \<in> set (key_sets fj fs). fst x \<le> fst (snd x) \<and> fst (snd x) \<le> now) \<and>
     sorted_wrt (later_by lo) (key_sets fj fs)"

lemma cached_key_trusted:
  "cache_state fj lo hi c now fs \<Longrightarrow> cached_key t kid c = Some k \<Longrightarrow> trusted_key fj hi fs kid k t"
  by (auto simp: cache_state_def cached_key_def stale_def trusted_key_def split: list.splits if_splits)

lemma cache_state_later: "cache_state fj lo hi c now fs \<Longrightarrow> now \<le> now' \<Longrightarrow> cache_state fj lo hi c now' fs"
  by (fastforce simp: cache_state_def)

lemma get_key_locked_cases:
  assumes "get_key_locked fj call kid c = (out, c')"
  obtains (cached) k where "cached_key (kc_locked call) kid c = Some k" "out = KeyIs (Some k)" "c' = c" "\<not> asks call kid c"
    | (kept) "\<not> asks call kid c" "\<not> refresh_allowed (kc_asked call) c" "out = KeyIs (jc_keys c kid)" "c' = c"
    | (failed) "asks call kid c" "Option.bind (kc_answer call) (jwks_keys fj) = None" "out = JwksUnreachable" "c' = c"
    | (stored) ks where "asks call kid c" "Option.bind (kc_answer call) (jwks_keys fj) = Some ks" "out = KeyIs (ks kid)"
        "c' = c\<lparr>jc_keys := ks, jc_fetched_at := Some (kc_answered call)\<rparr>" "refresh_allowed (kc_asked call) c"
proof (cases "cached_key (kc_locked call) kid c")
  case (Some k)
  with assms show thesis by (intro that(1)) (auto simp: get_key_locked_def asks_def)
next
  case None
  show thesis
  proof (cases "refresh_allowed (kc_asked call) c")
    case True
    with None have "asks call kid c" by (simp add: asks_def)
    have r: "(out, c') = (case Option.bind (kc_answer call) (jwks_keys fj) of None \<Rightarrow> (JwksUnreachable, c)
        | Some ks \<Rightarrow> (KeyIs (ks kid), c\<lparr>jc_keys := ks, jc_fetched_at := Some (kc_answered call)\<rparr>))"
      using assms None True by (simp add: get_key_locked_def refresh_jwks_bind split: option.splits)
    show thesis
    proof (cases "Option.bind (kc_answer call) (jwks_keys fj)")
      case None
      with r \<open>asks call kid c\<close> show thesis by (intro that(3)) simp_all
    next
      case (Some ks)
      with r True \<open>asks call kid c\<close> show thesis by (intro that(4)) simp_all
    qed
  next
    case False
    with None assms show thesis by (intro that(2)) (auto simp: get_key_locked_def asks_def)
  qed
qed

lemma allowed_after:
  assumes "cache_state fj lo hi c now fs" "refresh_allowed asked c" "now \<le> asked" "x \<in> set (key_sets fj fs)"
  shows "later_by lo (asked, answered, ks) x"
proof (cases "key_sets fj fs")
  case (Cons y ys)
  obtain a t ks' where y: "y = (a, t, ks')" by (cases y)
  have t: "lo \<le> asked - t" "jc_min_refresh_interval c = lo" "t \<le> now"
    using assms(1,2) Cons y by (auto simp: cache_state_def refresh_allowed_def)
  have "fst (snd x) \<le> t"
  proof (cases "x = y")
    case True
    then show ?thesis using y by simp
  next
    case False
    then have "x \<in> set ys" using assms(4) Cons by auto
    then have "later_by lo y x" using assms(1) Cons by (auto simp: cache_state_def)
    moreover have "a \<le> t" using assms(1) Cons y by (auto simp: cache_state_def)
    ultimately show ?thesis using y by (simp add: later_by_def)
  qed
  with t assms(3) show ?thesis by (simp add: later_by_def)
qed (use assms(4) in simp)

lemma cache_run_state: "cache_run fj lo hi c now fs \<Longrightarrow> cache_state fj lo hi c now fs"
proof (induction rule: cache_run.induct)
  case (fresh_cache c now)
  then show ?case by (auto simp: cache_state_def new_jwks_cache_def split: if_splits)
next
  case (locked_call c now fs call kid out c' fs')
  have le: "now \<le> kc_asked call" "now \<le> kc_answered call" using locked_call.hyps by linarith+
  have same: "cache_state fj lo hi c (kc_answered call) fs" using cache_state_later [OF locked_call.IH le(2)] .
  from locked_call.hyps(5) show ?case
  proof (cases rule: get_key_locked_cases)
    case (cached k)
    with same locked_call.hyps(6) show ?thesis by simp
  next
    case kept
    with same locked_call.hyps(6) show ?thesis by simp
  next
    case failed
    with same locked_call.hyps(6) show ?thesis by (simp add: cache_state_def)
  next
    case (stored ks)
    have "key_sets fj fs' = (kc_asked call, kc_answered call, ks) # key_sets fj fs"
      using stored(1,2) locked_call.hyps(6) by simp
    with same stored(4) allowed_after [OF locked_call.IH stored(5) le(1)] locked_call.hyps(4)
    show ?thesis by (simp add: cache_state_def)
  qed
qed

lemma failing_fetches_repeat:
  fixes c :: "'k jwks_cache"
  assumes "new_jwks_cache lo hi = Some c"
  shows "cache_run fj lo hi c t (replicate n (t, t, None))"
proof (induction n)
  case 0
  then show ?case using assms by (simp add: fresh_cache)
next
  case (Suc n)
  define call :: "'k key_call" where "call = \<lparr>kc_first = t, kc_race = id, kc_locked = t, kc_asked = t, kc_answered = t, kc_answer = None\<rparr>"
  have c: "jc_fetched_at c = None" using assms by (auto simp: new_jwks_cache_def split: if_splits)
  then have a: "asks call kid c" for kid by (simp add: asks_def cached_key_def stale_def refresh_allowed_def)
  have "get_key_locked fj call kid c = (JwksUnreachable, c)" for kid
    using c by (simp add: get_key_locked_def cached_key_def stale_def refresh_allowed_def refresh_jwks_bind call_def)
  from locked_call [OF Suc.IH _ _ _ this [of "[]"] refl] a show ?case by (simp add: call_def)
qed

text \<open>C21: whatever key ids are asked for and however the calls overlap, two fetches that succeed lie the minimum
  interval apart, counted from the answer of the one to the question of the other, and inside it no call asks; but
  a fetch that fails starts no interval, so any number of calls at one instant each reach the provider.\<close>

theorem jwks_fetches_spaced_unless_failing:
  fixes fj :: "json \<Rightarrow> 'k option"
  shows "(\<forall>c now fs. cache_run fj lo hi c now fs \<longrightarrow>
      sorted_wrt (later_by lo) (key_sets fj fs) \<and>
      (\<forall>(call :: 'k key_call) kid a t ks rest. key_sets fj fs = (a, t, ks) # rest \<longrightarrow> kc_asked call - t < lo \<longrightarrow> \<not> asks call kid c)) \<and>
    (\<forall>c t n. new_jwks_cache lo hi = Some c \<longrightarrow> cache_run fj lo hi c t (replicate n (t, t, None)))"
proof (intro conjI allI impI)
  fix c :: "'k jwks_cache" and now fs
  assume "cache_run fj lo hi c now fs"
  then have st: "cache_state fj lo hi c now fs" by (rule cache_run_state)
  then show "sorted_wrt (later_by lo) (key_sets fj fs)" by (simp add: cache_state_def)
  fix call :: "'k key_call" and kid a t ks rest
  assume "key_sets fj fs = (a, t, ks) # rest" "kc_asked call - t < lo"
  with st show "\<not> asks call kid c" by (simp add: cache_state_def asks_def refresh_allowed_def)
qed (rule failing_fetches_repeat)

text \<open>A provider whose first answer is good and a second that fails four times an hour later.\<close>

theorem jwks_fetches_spaced_unless_failing_witness:
  "new_jwks_cache 30 3600 = Some (\<lparr>jc_keys = Map.empty, jc_fetched_at = None, jc_min_refresh_interval = 30, jc_max_age = 3600\<rparr> :: unit jwks_cache) \<and>
   cache_run (\<lambda>_. Some ()) 30 3600 \<lparr>jc_keys = Map.empty, jc_fetched_at = None, jc_min_refresh_interval = 30, jc_max_age = 3600\<rparr> 5
     [(5, 5, None), (5, 5, None), (5, 5, None)]"
proof
  show n: "new_jwks_cache 30 3600 = Some (\<lparr>jc_keys = Map.empty, jc_fetched_at = None, jc_min_refresh_interval = 30, jc_max_age = 3600\<rparr> :: unit jwks_cache)"
    by (simp add: new_jwks_cache_def)
  have "\<forall>n. cache_run (\<lambda>_. Some ()) 30 3600 \<lparr>jc_keys = Map.empty, jc_fetched_at = None, jc_min_refresh_interval = 30, jc_max_age = 3600\<rparr> 5
     (replicate n (5, 5, None))"
    using jwks_fetches_spaced_unless_failing [of "\<lambda>_. Some ()" 30 3600] n by blast
  then have "cache_run (\<lambda>_. Some ()) 30 3600 \<lparr>jc_keys = Map.empty, jc_fetched_at = None, jc_min_refresh_interval = 30, jc_max_age = 3600\<rparr> 5
     (replicate 3 (5, 5, None))" by blast
  then show "cache_run (\<lambda>_. Some ()) 30 3600 \<lparr>jc_keys = Map.empty, jc_fetched_at = None, jc_min_refresh_interval = 30, jc_max_age = 3600\<rparr> 5
     [(5, 5, None), (5, 5, None), (5, 5, None)]" by (simp add: numeral_eq_Suc)
qed

section \<open>Who may sign in with an ID token\<close>

lemma get_key_locked_trusted:
  assumes run: "cache_run fj lo hi c now fs"
    and times: "now \<le> kc_locked call" "kc_locked call \<le> kc_asked call" "kc_asked call \<le> kc_answered call"
    and key: "get_key_locked fj call kid c = (KeyIs (Some k), c')" and pos: "0 \<le> lo"
  shows "\<exists>fs'. cache_run fj lo hi c' (kc_answered call) fs' \<and> trusted_key fj hi fs' kid k (kc_locked call)"
proof -
  let ?fs = "if asks call kid c then (kc_asked call, kc_answered call, kc_answer call) # fs else fs"
  have run': "cache_run fj lo hi c' (kc_answered call) ?fs"
    using locked_call [OF run times key refl] .
  have st: "cache_state fj lo hi c now fs" using run by (rule cache_run_state)
  from key have "trusted_key fj hi ?fs kid k (kc_locked call)"
  proof (cases rule: get_key_locked_cases)
    case (cached k')
    with st show ?thesis by (auto dest: cached_key_trusted)
  next
    case kept
    with st times(2) show ?thesis
      by (auto simp: cache_state_def refresh_allowed_def trusted_key_def split: list.splits)
  next
    case (stored ks)
    have "lo < hi" using st by (simp add: cache_state_def)
    with stored times(2,3) pos show ?thesis by (simp add: trusted_key_def)
  qed simp
  with run' show ?thesis by blast
qed

lemma jwks_key_trusted:
  assumes "cache_run fj lo hi c now fs" and "cache_run fj lo hi (kc_race call c) now1 fs1" and "now1 \<le> kc_locked call"
    and "kc_locked call \<le> kc_asked call" "kc_asked call \<le> kc_answered call" "0 \<le> lo"
    and key: "jwks_key fj call kid c = (KeyIs (Some k), c')"
  obtains now' fs' used where "cache_run fj lo hi c' now' fs'" "trusted_key fj hi fs' kid k used"
    "used \<in> {kc_first call, kc_locked call}"
proof (cases "cached_key (kc_first call) kid c")
  case (Some k')
  with key have "k' = k" "c' = c" by (simp_all add: jwks_key_def)
  moreover have "trusted_key fj hi fs kid k' (kc_first call)" using cache_run_state [OF assms(1)] Some by (rule cached_key_trusted)
  ultimately show thesis using assms(1) that [of now fs "kc_first call"] by simp
next
  case None
  with key have "get_key_locked fj call kid (kc_race call c) = (KeyIs (Some k), c')" by (simp add: jwks_key_def)
  from get_key_locked_trusted [OF assms(2-5) this assms(6)] that show thesis by blast
qed

lemma verified_identity:
  assumes "verify_id_token lib s call provider id_token n caches = (Identity i, caches')"
  obtains p header kid key claims issuer sub where "as_provider provider = Some p" "allowed_audiences s p \<noteq> []"
    "header_of lib id_token = Some header" "jget ''alg'' header = Some (JStr ''RS256'')" "jget ''kid'' header = Some (JStr kid)" "kid \<noteq> []"
    "jwks_key (from_jwk lib) call kid (caches p) = (KeyIs (Some key), caches' p)"
    "claims_of lib key (allowed_audiences s p) id_token = Some claims"
    "jget ''iss'' claims = Some (JStr issuer)" "issuer \<in> set (pc_issuers (PROVIDERS p))" "nonce_matches lib (PROVIDERS p) n claims"
    "jget ''sub'' claims = Some (JStr sub)" "sub \<noteq> []" "i = identity_of p sub claims"
proof -
  have str: "str_of j = Some t \<longleftrightarrow> j = Some (JStr t)" for j t by (auto simp: str_of_def split: option.splits json.splits)
  have tr: "truthy x = Some t \<longleftrightarrow> x = Some t \<and> t \<noteq> []" for x t by (auto simp: truthy_def split: option.splits)
  from assms obtain p header kid key where pk: "as_provider provider = Some p" "allowed_audiences s p \<noteq> []"
    "header_of lib id_token = Some header" "jget ''alg'' header = Some (JStr ''RS256'')" "truthy (str_of (jget ''kid'' header)) = Some kid"
    "jwks_key (from_jwk lib) call kid (caches p) = (KeyIs (Some key), caches' p)" "checked_claims lib s p id_token n key = Identity i"
    by (auto simp: verify_id_token_def split: option.split_asm if_split_asm prod.split_asm key_answer.split_asm)
  from pk(7) obtain claims issuer sub where "claims_of lib key (allowed_audiences s p) id_token = Some claims"
    "str_of (jget ''iss'' claims) = Some issuer" "issuer \<in> set (pc_issuers (PROVIDERS p))" "nonce_matches lib (PROVIDERS p) n claims"
    "truthy (str_of (jget ''sub'' claims)) = Some sub" "i = identity_of p sub claims"
    by (auto simp: checked_claims_def split: option.splits if_splits)
  with pk that show thesis unfolding str tr by blast
qed

lemma social_identity:
  assumes "social enc verify cfg now nonce d = (Inr out, d')"
  obtains i where "verify nonce = Identity i" "social_signin_enabled cfg"
    "social_nonce_required cfg \<longrightarrow> nonce \<noteq> None \<and> nonce \<noteq> Some []"
    "(if social_nonce_required cfg then consume_nonce now (the nonce) d else (True, d)) = (True, d')"
    "resolve_identity enc cfg now i d' = Inr out"
proof -
  have on: "social_signin_enabled cfg" "social_nonce_required cfg \<longrightarrow> nonce \<noteq> None \<and> nonce \<noteq> Some []"
    using assms by (auto simp: social_def split: if_splits)
  then obtain i where i: "verify nonce = Identity i" using assms
    by (cases "verify nonce") (auto simp: social_def split: if_splits)
  obtain ok d1 where c: "(if social_nonce_required cfg then consume_nonce now (the nonce) d else (True, d)) = (ok, d1)" by fastforce
  have r: "social enc verify cfg now nonce d =
      (if \<not> ok then (Inl (Http 401), d)
       else case resolve_identity enc cfg now i d1 of Inl e \<Rightarrow> (Inl e, d) | Inr out \<Rightarrow> (Inr out, d1))"
    using on unfolding social_def i provider_outcome.case c prod.case by auto
  have "ok \<and> resolve_identity enc cfg now i d1 = Inr out \<and> d1 = d'" using assms unfolding r by (auto split: if_splits sum.splits)
  with c have "(if social_nonce_required cfg then consume_nonce now (the nonce) d else (True, d)) = (True, d')"
    "resolve_identity enc cfg now i d' = Inr out" by auto
  with i on that show thesis by blast
qed

lemma consumed_nonce:
  assumes "consume_nonce now n d = (True, d')"
  shows "\<exists>r \<in> set (social_nonces d). sn_nonce r = n \<and> \<not> sn_consumed r \<and> sn_expires_at r > now"
    and "now \<le> t \<Longrightarrow> \<not> fst (consume_nonce t n d')"
proof -
  let ?hit = "\<lambda>t r. sn_nonce r = n \<and> \<not> sn_consumed r \<and> sn_expires_at r > t"
  have c: "rowcount (?hit now) (social_nonces d) = 1" "social_nonces d' = upd_where (?hit now) (\<lambda>r. r\<lparr>sn_consumed := True\<rparr>) (social_nonces d)"
    using assms by (auto simp: consume_nonce_def Let_def)
  from c(1) have "rowcount (?hit now) (social_nonces d) \<noteq> 0" by simp
  then show "\<exists>r \<in> set (social_nonces d). ?hit now r" unfolding rowcount_eq_0_iff by blast
  assume t: "now \<le> t"
  have "\<not> ?hit t r" if "r \<in> set (social_nonces d')" for r
  proof -
    from that have "r \<in> (\<lambda>r. if ?hit now r then r\<lparr>sn_consumed := True\<rparr> else r) ` set (social_nonces d)"
      by (simp only: c(2) set_upd_where)
    then obtain r0 where "r = (if ?hit now r0 then r0\<lparr>sn_consumed := True\<rparr> else r0)" by (rule imageE)
    then show ?thesis using t by (cases "?hit now r0") auto
  qed
  then have "rowcount (?hit t) (social_nonces d') = 0" unfolding rowcount_eq_0_iff by (rule ballI)
  then show "\<not> fst (consume_nonce t n d')"
    by (simp only: consume_nonce_def Let_def fst_conv zero_neq_one not_False_eq_True)
qed

text \<open>C18: a native sign-in is answered with a session or a provisioning token only for an identity its provider
  vouched for.  The token names RS256 and a key id; that key is in the newest key set the island fetched from this
  provider, fetched less than an hour before its use, however requests overlap, so a key the provider has withdrawn
  stops working within the hour; the token verifies under it for one of the client ids configured for this provider, of
  which there is at least one, and its issuer is the provider's.  Where the request carries a nonce the token echoes it,
  hashed for Apple; where policy requires one, it was issued by the island, not spent and in time, and no
  later request can spend it again.  The session is the one of the account linked to exactly this subject,
  which is not banned.\<close>

theorem social_signin_trust:
  assumes "social enc (\<lambda>n. fst (verify_id_token lib s call provider id_token n caches)) cfg now nonce d = (Inr out, d')"
    and "\<And>p. cache_run (from_jwk lib) MIN_REFRESH_INTERVAL MAX_KEY_SET_AGE (caches p) t0 (fetches p)"
    and "\<And>p. cache_run (from_jwk lib) MIN_REFRESH_INTERVAL MAX_KEY_SET_AGE (kc_race call (caches p)) t1 (fetches1 p)"
    and "t1 \<le> kc_locked call" "kc_locked call \<le> kc_asked call" "kc_asked call \<le> kc_answered call"
  shows "\<exists>p header kid key claims issuer sub fs used t2.
    as_provider provider = Some p \<and> header_of lib id_token = Some header \<and>
    jget ''alg'' header = Some (JStr ''RS256'') \<and> jget ''kid'' header = Some (JStr kid) \<and>
    cache_run (from_jwk lib) MIN_REFRESH_INTERVAL MAX_KEY_SET_AGE (snd (verify_id_token lib s call provider id_token nonce caches) p) t2 fs \<and>
    trusted_key (from_jwk lib) MAX_KEY_SET_AGE fs kid key used \<and> used \<in> {kc_first call, kc_locked call} \<and>
    allowed_audiences s p \<noteq> [] \<and> claims_of lib key (allowed_audiences s p) id_token = Some claims \<and>
    jget ''iss'' claims = Some (JStr issuer) \<and> issuer \<in> set (pc_issuers (PROVIDERS p)) \<and>
    nonce_matches lib (PROVIDERS p) nonce claims \<and> jget ''sub'' claims = Some (JStr sub) \<and> sub \<noteq> [] \<and>
    (case get_user_by_social (idp_value p) sub d' of
       Some u \<Rightarrow> \<not> is_banned u \<and> out = signed_in enc cfg now u
     | None \<Rightarrow> out = Provisioned (issue_provisioning enc (provisioning_ttl cfg) now (identity_of p sub claims)) (identity_of p sub claims)) \<and>
    (if social_nonce_required cfg
     then nonce \<noteq> None \<and> (\<exists>r \<in> set (social_nonces d). sn_nonce r = the nonce \<and> \<not> sn_consumed r \<and> sn_expires_at r > now) \<and>
       (\<forall>t. now \<le> t \<longrightarrow> \<not> fst (consume_nonce t (the nonce) d'))
     else d' = d)"
proof -
  obtain i where i: "fst (verify_id_token lib s call provider id_token nonce caches) = Identity i" "social_signin_enabled cfg"
    "social_nonce_required cfg \<longrightarrow> nonce \<noteq> None \<and> nonce \<noteq> Some []"
    "(if social_nonce_required cfg then consume_nonce now (the nonce) d else (True, d)) = (True, d')"
    "resolve_identity enc cfg now i d' = Inr out" using assms(1) by (rule social_identity)
  then have v: "verify_id_token lib s call provider id_token nonce caches =
      (Identity i, snd (verify_id_token lib s call provider id_token nonce caches))" by (simp add: prod_eq_iff)
  from v obtain p header kid key claims issuer sub where c: "as_provider provider = Some p" "allowed_audiences s p \<noteq> []"
    "header_of lib id_token = Some header" "jget ''alg'' header = Some (JStr ''RS256'')" "jget ''kid'' header = Some (JStr kid)"
    "jwks_key (from_jwk lib) call kid (caches p) = (KeyIs (Some key), snd (verify_id_token lib s call provider id_token nonce caches) p)"
    "claims_of lib key (allowed_audiences s p) id_token = Some claims"
    "jget ''iss'' claims = Some (JStr issuer)" "issuer \<in> set (pc_issuers (PROVIDERS p))" "nonce_matches lib (PROVIDERS p) nonce claims"
    "jget ''sub'' claims = Some (JStr sub)" "sub \<noteq> []" "i = identity_of p sub claims" by (rule verified_identity)
  obtain t2 fs used where k: "cache_run (from_jwk lib) MIN_REFRESH_INTERVAL MAX_KEY_SET_AGE
      (snd (verify_id_token lib s call provider id_token nonce caches) p) t2 fs"
    "trusted_key (from_jwk lib) MAX_KEY_SET_AGE fs kid key used" "used \<in> {kc_first call, kc_locked call}"
    using jwks_key_trusted [OF assms(2,3) assms(4-6) _ c(6)] by (auto simp: MIN_REFRESH_INTERVAL_def)
  have out: "case get_user_by_social (idp_value p) sub d' of
       Some u \<Rightarrow> \<not> is_banned u \<and> out = signed_in enc cfg now u
     | None \<Rightarrow> out = Provisioned (issue_provisioning enc (provisioning_ttl cfg) now (identity_of p sub claims)) (identity_of p sub claims)"
    using i(5) c(13) by (auto simp: resolve_identity_def identity_of_def deny_if_banned_def split: option.splits if_splits)
  have n: "if social_nonce_required cfg
     then nonce \<noteq> None \<and> (\<exists>r \<in> set (social_nonces d). sn_nonce r = the nonce \<and> \<not> sn_consumed r \<and> sn_expires_at r > now) \<and>
       (\<forall>t. now \<le> t \<longrightarrow> \<not> fst (consume_nonce t (the nonce) d'))
     else d' = d"
    using i(3,4) by (auto split: if_splits dest: consumed_nonce)
  from c k out n show ?thesis by blast
qed

text \<open>Google publishes one key; an island with an empty cache and one client id offers a
  new account to its bearer.\<close>

definition ex_jwks :: json where
  "ex_jwks = JObj [(''keys'', JList [JObj [(''kid'', JStr ''k1'')]])]"

definition ex_lib :: "unit jwt_lib" where
  "ex_lib = \<lparr>header_of = \<lambda>_. Some (JObj [(''alg'', JStr ''RS256''), (''kid'', JStr ''k1'')]), from_jwk = \<lambda>_. Some (),
     claims_of = \<lambda>_ auds _. if ''us'' \<in> set auds then Some (JObj [(''iss'', JStr ''accounts.google.com''), (''sub'', JStr ''s1''), (''nonce'', JStr ''n1'')]) else None,
     sha256_hex = id\<rparr>"

definition ex_cache :: "unit jwks_cache" where
  "ex_cache = \<lparr>jc_keys = Map.empty, jc_fetched_at = None, jc_min_refresh_interval = 30, jc_max_age = 3600\<rparr>"

definition ex_call :: "unit key_call" where
  "ex_call = \<lparr>kc_first = 5, kc_race = id, kc_locked = 5, kc_asked = 5, kc_answered = 6, kc_answer = Some ex_jwks\<rparr>"

definition ex_auth :: auth_settings where
  "ex_auth = \<lparr>social_signin_enabled = True, social_nonce_required = False, open_registration = True, access_ttl = 1, refresh_ttl = 1,
     provisioning_ttl = 1, state_ttl = 1, handoff_ttl = 1, handle_cooldown = 1\<rparr>"

theorem social_signin_trust_witness:
  "\<exists>out d'. social (\<lambda>_. ''t'') (\<lambda>n. fst (verify_id_token ex_lib (default_settings\<lparr>st_google_client_ids := [''us'']\<rparr>) ex_call ''google'' ''tok'' n
       (\<lambda>_. ex_cache))) ex_auth 9 (Some ''n1'') empty_db = (Inr out, d') \<and>
     (\<exists>kid key fs used. trusted_key (from_jwk ex_lib) MAX_KEY_SET_AGE fs kid key used) \<and> d' = empty_db"
proof -
  let ?s = "default_settings\<lparr>st_google_client_ids := [''us'']\<rparr>"
  have run: "cache_run (from_jwk ex_lib) MIN_REFRESH_INTERVAL MAX_KEY_SET_AGE ex_cache t []" for t
    by (rule fresh_cache) (simp add: new_jwks_cache_def ex_cache_def MIN_REFRESH_INTERVAL_def MAX_KEY_SET_AGE_def)
  have "jwks_key (from_jwk ex_lib) ex_call ''k1'' ex_cache = (KeyIs (Some ()), ex_cache\<lparr>jc_keys := [''k1'' \<mapsto> ()], jc_fetched_at := Some 6\<rparr>)"
    by (simp add: jwks_key_def get_key_locked_def cached_key_def stale_def refresh_allowed_def refresh_jwks_bind jwks_keys_def
        add_jwk_def str_of_def ex_lib_def ex_call_def ex_cache_def ex_jwks_def)
  then have "fst (verify_id_token ex_lib ?s ex_call ''google'' ''tok'' (Some ''n1'') (\<lambda>_. ex_cache)) =
      Identity (identity_of Google ''s1'' (JObj [(''iss'', JStr ''accounts.google.com''), (''sub'', JStr ''s1''), (''nonce'', JStr ''n1'')]))"
    by (simp add: verify_id_token_def as_provider_def checked_claims_def nonce_matches_def str_of_def truthy_def ex_lib_def)
  then obtain out where r: "social (\<lambda>_. ''t'') (\<lambda>n. fst (verify_id_token ex_lib ?s ex_call ''google'' ''tok'' n (\<lambda>_. ex_cache)))
      ex_auth 9 (Some ''n1'') empty_db = (Inr out, empty_db)"
    by (simp add: social_def ex_auth_def resolve_identity_def get_user_by_social_def empty_db_def)
  have race: "kc_race ex_call ex_cache = ex_cache" by (simp add: ex_call_def)
  have times: "(5 :: real) \<le> kc_locked ex_call" "kc_locked ex_call \<le> kc_asked ex_call" "kc_asked ex_call \<le> kc_answered ex_call"
    by (simp_all add: ex_call_def)
  have "cache_run (from_jwk ex_lib) MIN_REFRESH_INTERVAL MAX_KEY_SET_AGE (kc_race ex_call ex_cache) 5 []" unfolding race by (rule run)
  from social_signin_trust [OF r run this times] r show ?thesis by blast
qed

section \<open>The broker exchange\<close>

definition outage :: "http_answer option \<Rightarrow> bool" where
  "outage a \<longleftrightarrow> (case a of None \<Rightarrow> True | Some r \<Rightarrow> is_rate_limited r \<or> ha_status r \<ge> 500)"

definition unreadable :: "http_answer option \<Rightarrow> bool" where
  "unreadable a \<longleftrightarrow> (case a of
     Some r \<Rightarrow> ha_status r = 200 \<and> (case ha_json r of Some (JObj _) \<Rightarrow> False | _ \<Rightarrow> True)
   | None \<Rightarrow> False)"

lemma primary_email_verified:
  "primary_email zero entries = Some e \<Longrightarrow>
    \<exists>entry \<in> set entries. key_true zero ''primary'' entry \<and> key_true zero ''verified'' entry \<and> jget ''email'' entry = Some (JStr e)"
  by (induction zero entries rule: primary_email.induct)
    (auto simp: truthy_def str_of_def split: if_splits option.splits json.splits)

definition vouched :: "(string \<Rightarrow> bool) \<Rightarrow> (json \<Rightarrow> string) \<Rightarrow> http_client \<Rightarrow> string \<Rightarrow> provisioning \<Rightarrow> bool" where
  "vouched zero shown http token i \<longleftrightarrow> (\<exists>u profile v. http (github_get GITHUB_USER token) = Some u \<and> ha_status u = 200 \<and>
     ha_json u = Some profile \<and> jget ''id'' profile = Some v \<and> py_true zero v \<and>
     pv_provider i = ''github'' \<and> pv_provider_sub i = id_text shown v \<and>
     (\<forall>e. pv_email i = Some e \<longrightarrow> (\<exists>r entries. http (github_get GITHUB_EMAILS token) = Some r \<and> ha_status r = 200 \<and>
        ha_json r = Some (JList entries) \<and> (\<exists>entry \<in> set entries. key_true zero ''primary'' entry \<and>
          key_true zero ''verified'' entry \<and> jget ''email'' entry = Some (JStr e)))))"

lemma best_effort_verified:
  "best_effort_email zero a = Some e \<Longrightarrow> \<exists>r entries. a = Some r \<and> ha_status r = 200 \<and> ha_json r = Some (JList entries) \<and>
    (\<exists>entry \<in> set entries. key_true zero ''primary'' entry \<and> key_true zero ''verified'' entry \<and> jget ''email'' entry = Some (JStr e))"
  by (auto simp: best_effort_email_def dest: primary_email_verified split: option.splits if_splits json.splits)

lemma github_profile_cases:
  assumes "github_fetch_profile zero shown http token = (out, asked)"
  obtains (down) "out = BrokerUnavailable" "asked = [github_get GITHUB_USER token]"
        "outage (http (github_get GITHUB_USER token)) \<or> unreadable (http (github_get GITHUB_USER token))"
    | (denied) "out = BrokerInvalidExchange" "asked = [github_get GITHUB_USER token]" "\<not> outage (http (github_get GITHUB_USER token))"
    | (known) i where "out = Exchanged i" "asked = [github_get GITHUB_USER token, github_get GITHUB_EMAILS token]"
        "vouched zero shown http token i"
proof (cases "http (github_get GITHUB_USER token)")
  case None
  with assms show thesis by (intro that(1)) (auto simp: github_fetch_profile_def outage_def)
next
  case (Some u)
  let ?ask = "github_get GITHUB_USER token"
  have out: "outage (http ?ask) \<longleftrightarrow> is_rate_limited u \<or> ha_status u \<ge> 500" by (simp add: outage_def Some)
  show thesis
  proof (cases "ha_status u = 200")
    case False
    with assms Some have "out = (if ha_status u = 401 then BrokerInvalidExchange else if is_rate_limited u \<or> ha_status u \<ge> 500
        then BrokerUnavailable else BrokerInvalidExchange)" "asked = [?ask]"
      by (auto simp: github_fetch_profile_def Let_def split: if_splits)
    moreover have "\<not> is_rate_limited u" if "ha_status u = 401" using that by (simp add: is_rate_limited_def)
    ultimately show thesis using out that(1,2) by (auto split: if_splits)
  next
    case ok: True
    then have "\<not> is_rate_limited u" by (simp add: is_rate_limited_def)
    with ok Some have r: "github_fetch_profile zero shown http token = (case ha_json u of
         None \<Rightarrow> (BrokerUnavailable, [?ask])
       | Some profile \<Rightarrow> (case jget ''id'' profile of
            None \<Rightarrow> (BrokerInvalidExchange, [?ask])
          | Some v \<Rightarrow> if \<not> py_true zero v then (BrokerInvalidExchange, [?ask])
              else (Exchanged \<lparr>pv_provider = ''github'', pv_provider_sub = id_text shown v, pv_suggested_name = profile_name profile,
                      pv_email = best_effort_email zero (http (github_get GITHUB_EMAILS token))\<rparr>, [?ask, github_get GITHUB_EMAILS token])))"
      by (simp add: github_fetch_profile_def Let_def)
    have calm: "\<not> outage (http ?ask)" using out ok \<open>\<not> is_rate_limited u\<close> by simp
    show thesis
    proof (cases "ha_json u")
      case None
      with assms r ok Some show thesis by (intro that(1)) (auto simp: unreadable_def)
    next
      case (Some profile)
      show thesis
      proof (cases "\<exists>v. jget ''id'' profile = Some v \<and> py_true zero v")
        case False
        with assms r Some calm show thesis by (intro that(2)) (auto split: option.splits if_splits)
      next
        case True
        then obtain v where v: "jget ''id'' profile = Some v" "py_true zero v" by blast
        let ?i = "\<lparr>pv_provider = ''github'', pv_provider_sub = id_text shown v, pv_suggested_name = profile_name profile,
                      pv_email = best_effort_email zero (http (github_get GITHUB_EMAILS token))\<rparr>"
        have "vouched zero shown http token ?i"
          unfolding vouched_def using \<open>http ?ask = Some u\<close> ok Some v best_effort_verified
          by (intro exI [of _ u] exI [of _ profile] exI [of _ v]) simp
        moreover have "out = Exchanged ?i" "asked = [?ask, github_get GITHUB_EMAILS token]" using assms r Some v by simp_all
        ultimately show thesis by (rule that(3) [rotated 2])
      qed
    qed
  qed
qed

lemma exchange_code_cases:
  assumes "exchange_code zero s http p code verifier = (out, asked)"
  obtains (down) "out = BrokerUnavailable" "asked = [token_request s p code verifier]"
        "outage (http (token_request s p code verifier)) \<or> unreadable (http (token_request s p code verifier))"
    | (denied) "out = BrokerInvalidExchange" "asked = [token_request s p code verifier]"
        "\<not> outage (http (token_request s p code verifier))"
    | (granted) resp kvs token rest where "http (token_request s p code verifier) = Some resp" "ha_status resp = 200"
        "ha_json resp = Some (JObj kvs)" "\<not> key_true zero ''error'' (JObj kvs)" "map_of kvs ''access_token'' = Some (JStr token)"
        "bp_fetch_profile p http token = (out, rest)" "asked = token_request s p code verifier # rest"
        "\<not> outage (http (token_request s p code verifier))"
proof (cases "http (token_request s p code verifier)")
  case None
  with assms show thesis by (intro that(1)) (auto simp: exchange_code_def outage_def)
next
  case (Some resp)
  let ?ask = "token_request s p code verifier"
  have out: "outage (http ?ask) \<longleftrightarrow> is_rate_limited resp \<or> ha_status resp \<ge> 500" by (simp add: outage_def Some)
  show thesis
  proof (cases "ha_status resp = 200")
    case False
    with assms Some have "out = (if is_rate_limited resp \<or> ha_status resp \<ge> 500 then BrokerUnavailable else BrokerInvalidExchange)"
      "asked = [?ask]" by (auto simp: exchange_code_def Let_def split: if_splits)
    with out that(1,2) show thesis by (auto split: if_splits)
  next
    case ok: True
    then have calm: "\<not> is_rate_limited resp" by (simp add: is_rate_limited_def)
    with ok out have quiet: "\<not> outage (http ?ask)" by simp
    show thesis
    proof (cases "\<exists>kvs. ha_json resp = Some (JObj kvs)")
      case False
      with assms Some ok calm show thesis
        by (intro that(1)) (auto simp: exchange_code_def Let_def unreadable_def split: option.splits json.splits)
    next
      case True
      then obtain kvs where kvs: "ha_json resp = Some (JObj kvs)" by blast
      show thesis
      proof (cases "key_true zero ''error'' (JObj kvs) \<or> truthy (str_of (map_of kvs ''access_token'')) = None")
        case True
        with assms Some ok calm kvs quiet show thesis by (intro that(2)) (auto simp: exchange_code_def Let_def split: if_splits)
      next
        case False
        then obtain token where t: "truthy (str_of (map_of kvs ''access_token'')) = Some token" "\<not> key_true zero ''error'' (JObj kvs)" by auto
        then have m: "map_of kvs ''access_token'' = Some (JStr token)"
          by (auto simp: truthy_def str_of_def split: option.splits json.splits if_splits)
        obtain o' rest where f: "bp_fetch_profile p http token = (o', rest)" by fastforce
        have "(out, asked) = (o', ?ask # rest)" using assms Some ok calm kvs t f by (simp add: exchange_code_def Let_def)
        with f m t kvs ok Some quiet show thesis by (intro that(3)) auto
      qed
    qed
  qed
qed

text \<open>C22: an authorization code is exchanged for an identity exactly as GitHub answers.  The first request is the token
  request, with the very redirect address the browser was sent to; only a granted access token leads to further
  ones, which carry that token and ask GitHub's own API, so the client secret leaves with the token request alone.
  An outage or a rate limit is never answered as a bad credential, and what is answered as an outage was one or
  an unreadable body.  An identity is the account GitHub names, and its e-mail, if any, is marked
  primary and verified.\<close>

theorem broker_exchange_trust:
  assumes "exchange_code zero s http (GITHUB zero shown) code verifier = (out, asked)"
  shows "\<exists>ask token n. ask = token_request s (GITHUB zero shown) code verifier \<and>
    map_of (rq_form ask) ''redirect_uri'' = map_of (authorize_params s (GITHUB zero shown) state challenge) ''redirect_uri'' \<and>
    rq_url ask = ''https://github.com/login/oauth/access_token'' \<and>
    asked = ask # take n [github_get GITHUB_USER token, github_get GITHUB_EMAILS token] \<and>
    (n \<noteq> 0 \<longrightarrow> (\<exists>resp kvs. http ask = Some resp \<and> ha_status resp = 200 \<and> ha_json resp = Some (JObj kvs) \<and>
        \<not> key_true zero ''error'' (JObj kvs) \<and> map_of kvs ''access_token'' = Some (JStr token))) \<and>
    (case out of
       BrokerUnavailable \<Rightarrow> outage (http (last asked)) \<or> unreadable (http (last asked))
     | BrokerInvalidExchange \<Rightarrow> (\<forall>r \<in> set asked. \<not> outage (http r))
     | Exchanged i \<Rightarrow> n = 2 \<and> vouched zero shown http token i
     | BrokerError \<Rightarrow> False)"
proof -
  let ?ask = "token_request s (GITHUB zero shown) code verifier"
  have form: "map_of (rq_form ?ask) ''redirect_uri'' = map_of (authorize_params s (GITHUB zero shown) state challenge) ''redirect_uri''"
    "rq_url ?ask = ''https://github.com/login/oauth/access_token''"
    by (simp_all add: token_request_def authorize_params_def GITHUB_def)
  have hd: "bp_fetch_profile (GITHUB zero shown) = github_fetch_profile zero shown" by (simp add: GITHUB_def)
  from assms show ?thesis
  proof (cases rule: exchange_code_cases)
    case down
    with form show ?thesis by (intro exI [of _ ?ask] exI [of _ "[]"] exI [of _ 0]) simp
  next
    case denied
    with form show ?thesis by (intro exI [of _ ?ask] exI [of _ "[]"] exI [of _ 0]) simp
  next
    case (granted resp kvs token rest)
    from granted(6) have "github_fetch_profile zero shown http token = (out, rest)" unfolding hd .
    then show ?thesis
    proof (cases rule: github_profile_cases)
      case down
      with form granted show ?thesis by (intro exI [of _ ?ask] exI [of _ token] exI [of _ 1]) simp
    next
      case denied
      with form granted show ?thesis by (intro exI [of _ ?ask] exI [of _ token] exI [of _ 1]) simp
    next
      case (known i)
      with form granted show ?thesis by (intro exI [of _ ?ask] exI [of _ token] exI [of _ 2]) simp
    qed
  qed
qed

text \<open>GitHub grants a token and then limits the rate of the profile request.\<close>

theorem broker_exchange_trust_witness:
  "\<exists>http asked. exchange_code (\<lambda>_. False) (default_settings\<lparr>st_github_client_id := ''i'', st_github_client_secret := ''x''\<rparr>) http
      (GITHUB (\<lambda>_. False) (\<lambda>_. [])) ''c'' None = (BrokerUnavailable, asked) \<and> length asked = 2 \<and>
    (outage (http (last asked)) \<or> unreadable (http (last asked)))"
proof -
  let ?s = "default_settings\<lparr>st_github_client_id := ''i'', st_github_client_secret := ''x''\<rparr>"
  let ?G = "GITHUB (\<lambda>_. False) (\<lambda>_. [])"
  define http :: http_client where "http = (\<lambda>r. Some (if rq_method r = ''POST''
     then \<lparr>ha_status = 200, ha_rate_remaining = None, ha_json = Some (JObj [(''access_token'', JStr ''t'')])\<rparr>
     else \<lparr>ha_status = 403, ha_rate_remaining = Some ''0'', ha_json = None\<rparr>))"
  have r: "exchange_code (\<lambda>_. False) ?s http ?G ''c'' None =
      (BrokerUnavailable, [token_request ?s ?G ''c'' None, github_get GITHUB_USER ''t''])"
    by (simp add: exchange_code_def http_def token_request_def github_get_def GITHUB_def is_rate_limited_def key_true_def truthy_def
        str_of_def github_fetch_profile_def)
  let ?asked = "[token_request ?s ?G ''c'' None, github_get GITHUB_USER ''t'']"
  have "outage (http (last ?asked)) \<or> unreadable (http (last ?asked))"
    using broker_exchange_trust [OF r, of "[]" None] by (elim exE conjE) (simp only: broker_outcome.case)
  moreover have "length ?asked = 2" by simp
  ultimately show ?thesis using r by blast
qed

end
