(* ===== verification/Spec2Isabelle.thy ===== *)
theory Spec2Isabelle
  imports ReadPositions Memberships Messages OneTime Ids Echo RateLimit UtcDateTime SignIn Push Communities Actuation Islands Realtime Bus Config Ops Boot Endpoints Providers
begin

text \<open>
  \<^bold>\<open>Verification of the aiko chat gateway.\<close>

  The program is one process, an \<open>island\<close>: a FastAPI service over one SQLite file (\<open>src/aiko_gateway\<close>),
  with REST routes (\<open>rest/\<close>), a WebSocket endpoint (\<open>realtime/\<close>), an actor on the Aiko message bus
  (\<open>aiko/\<close>) and two push transports, all over the services of \<open>domain/\<close>. Paths below are relative to
  \<open>src/src/aiko_gateway\<close>.

  \<^bold>\<open>How the code is modelled\<close>

  \<^item> The database is the record \<open>db\<close> of Model, one list of rows per table of \<open>domain/models.py\<close>; a row is a
    record, an enumeration column a datatype, so that the CHECK constraints on enumerations hold by typing.
    Prelude has the three shapes of statement the services issue: a SELECT of at most one row, a conditional
    UPDATE and a conditional DELETE, each with its row count. The UNIQUE constraints, the other CHECKs and the
    INSERTs that enforce them are in Model. Foreign keys are not enforced, because the engine never turns
    them on.
  \<^item> A service function is a function from its arguments and the store to \<open>error + result \<times> store\<close>. \<open>Inl\<close> is
    an exception, with the request's transaction rolled back, so that the store is the one the call began with.
    A route, where a part of its work commits before the answer, gives its answer and the committed state.
  \<^item> Identifiers, instants, random tokens and clock readings are arguments, one for each time the code asks.
    Instants are integers, in microseconds; monotonic clocks are reals.
  \<^item> Concurrency. A call that reads, decides and then writes takes an argument \<open>race\<close>: an arbitrary function on
    the store that stands for everything other sessions commit between the two. The theorems hold for every
    \<open>race\<close>, or say what the race must keep. SQLite has one writer, so that from the first write of a transaction
    to its commit nothing else commits. The asyncio tasks of the WebSocket and bus sides are sequences of
    handler steps.
  \<^item> Text is Latin-1 (a character of HOL is a byte), except where code points matter: emoji, cursors, labels,
    bodies of notifications and the text under a signature are lists of code points, with the UTF-8 encoder
    written out in Signing and Communities.

  \<^bold>\<open>The theories, in the order of the calls\<close>

  \<^item> Prelude: identifiers, statement shapes, uniqueness, the shared lemmas on rows. Model: \<open>domain/models.py\<close>; the
    locale \<open>str_enum\<close> states that stored strings and members are in bijection, and every enumeration interprets it.
    UtcDateTime: the column type of \<open>domain/types.py\<close>. Ids: \<open>domain/ids.py\<close>. Decimal: Python's \<open>int\<close> and \<open>str\<close>.
  \<^item> Acl: \<open>domain/acl.py\<close>, the one rule of who reads and posts. The locale \<open>read_gate\<close> is the contract other
    services rely on (a channel comes back exactly when it is public or the user holds a membership row).
  \<^item> DirectMessages, Memberships, Channels, Communities, ReadPositions, Reactions, Messages, Mentions,
    Moderation: the services of the same names (\<open>dm_service.py\<close>, \<open>memberships_service.py\<close> and so on).
    Membership invariants are kept by every mutation; the keyed tables stay unique; the hard delete
    of a channel is stated with the rows it takes and the references it leaves.
  \<^item> OneTime: the nonce, state and handoff stores. The locales \<open>burn_table\<close> (a table with one conditional
    UPDATE) and \<open>one_time_store\<close> (issue and redeem) carry the single-use theorem, over any interleaving;
    the passkey challenges interpret them too.
  \<^item> Users, Passkeys, Sessions, SigningKeys, Signing, Recovery, Devices, Accounts, SignIn: accounts and their
    credentials, the tokens and the ingress, the signed envelope, social recovery, account deletion, and the
    sign-in routes of \<open>rest/auth.py\<close> composed from them.
  \<^item> PushResult, Fcm, Apns, Push: the push vocabulary, the two transports and the router with its reaper.
  \<^item> Actuation, Islands: the signed command of a robot with its durable high-water mark, the island's signed
    manifest and the gossiped directory of peers.
  \<^item> Realtime, Bus: frames, hub and WebSocket handlers; the bus payload, the actor's relay table, ingest and the
    topology queue. Echo and RateLimit are the two in-memory tables they and the routes use.
  \<^item> Calls: room tokens and the question to the media server (\<open>domain/livekit_*.py\<close>, \<open>rest/livekit.py\<close>).
  \<^item> Config, Ops, Boot: the settings and the boot validator (\<open>config.py\<close>), the body cap, log redaction, the release
    check and build provenance, the single-worker lock, the migration runner and the schema check.
  \<^item> Routes, Endpoints: the routes of \<open>rest/\<close> over those services, with the status and text of every refusal:
    channels, members, messages, direct messages, reactions; then read positions, moderation, devices, keys,
    recovery, capabilities, the association files and health.
  \<^item> Providers: the identity providers behind the sign-in routes, \<open>domain/oauth.py\<close> (the key cache and the checks of
    an ID token) and \<open>domain/oauth_broker.py\<close> (the authorize URL, the code exchange and the profile).

  \<^bold>\<open>What the groups of lemmas show\<close>

  \<^item> Access: the read gate is equivalent to its specification and an unreadable channel is the same answer as a
    missing one; a send is persisted exactly once, an acknowledged send is visible, a blocked pair cannot write.
  \<^item> Conservation: every channel created here keeps an administrator through every interleaving of the membership
    operations (\<open>member_run\<close>: between the reads of a call and its write other calls commit, themselves
    interrupted) but one, and that one is a theorem of its own; the account deletion has the same window, and
    its theorem says exactly when a channel is left without an administrator. A deletion leaves no foreign key
    to the account; what keeps its identifier is named.
  \<^item> Bans: while a ban stands no token resolves, no door mints and no wake reaches the account.
  \<^item> Single use and rate: tokens, challenges, reports, sequence numbers and recovery attempts are consumed once
    under any interleaving; the window budget of the rate limiter is exact.
  \<^item> Codecs: base58, base64url, the signed bytes, cursors, decimal text and identifiers decode to what was
    encoded, and acceptance is equivalent to a stated condition.
  \<^item> What leaves the process: publishes on the bus are marked position by position; the claims of a video token
    are written out; a redacted log record is clean in message and arguments, and the text of a traceback is not.
  \<^item> Refinement: the echo table, the actor's relay table and the layers of the boot implement abstract
    specifications; the batched and paged queries equal their one-row or whole-list references.

  \<^bold>\<open>Code that is an argument\<close>

  What is not in this repository is an argument of the definitions that use it: PyJWT (\<open>jwt_encode\<close>, \<open>jwt_decode\<close>
  with the hypothesis \<open>jwt_honest\<close>: a signed payload is returned exactly while its own claims admit the time),
  Ed25519, SHA-256, Argon2 and the signatures of the push providers; the outcomes of the WebAuthn library and of the identity
  providers; \<open>json.dumps\<close> and \<open>json.loads\<close> where their text matters; the answers of the push providers, the media
  server, peers and the release host; the framework's payload parser; the URL splitter, the PEM loader, the
  percent operator and \<open>isoformat\<close>; whether a file is replaced on disk; the migrations of alembic. An upgrade that raises may leave any database.
  Hypotheses about them state documented behaviour, and the witnesses instantiate them.

  The operating system's locks are a small kernel state in Boot: open file descriptions, the lock held on a file, and
  process identifiers that are not reused.

  \<^bold>\<open>Bounds and termination\<close>

  All recursion is structural or has a measure, except the walk through the community directory, which takes a
  bound on the number of pages; the theorem shows that any bound whose pages have room for one community more than
  there are is enough. Integers are unbounded, as Python's are; where the code packs them into a width
  (\<open>struct.pack\<close>, ULIDs) they are words or the refusal is a branch.

  \<^bold>\<open>What is not modelled\<close>

  \<^item> Wiring: application assembly, the lifespan's tasks and their cancellation, connection pools, the thread of the
    bus client, HTTP response headers and log lines.
  \<^item> Library behaviour the code only calls: the request-body validation of pydantic beyond the checks the code adds,
    SQLAlchemy's engine and its PRAGMA settings, the JWT library and the HTTP clients.
  \<^item> The two legal documents of \<open>rest/legal.py\<close> are static files.
  \<^item> The alembic revisions are generated migrations of a schema that Model states directly; the scripts under
    \<open>deploy/\<close>, \<open>spike/\<close>, \<open>e2e/\<close> and \<open>scripts/\<close> are not part of the running program.
\<close>

end
